(* ===== verification/Prelude.thy ===== *)
theory Prelude
  imports Complex_Main "HOL-Library.Sublist" "HOL-Library.AList"
begin

text \<open>
  Shared vocabulary of the development: the collections of simplification
  rules, the machine integers of the Rust sources with their wrap-around
  written out, and the operations of Rust's \<^verbatim>\<open>str\<close> the components use.

  A Rust \<^verbatim>\<open>str\<close> is a list of characters. HOL's \<^typ>\<open>char\<close> has eight bits, so
  the characters are those of U+0000 to U+00FF; the byte length of a text is
  computed from the UTF-8 width of each character.
\<close>

named_theorems wrap_simps \<open>facts that discharge the wrap-around of machine integers\<close>
named_theorems str_simps \<open>rules about the text operations\<close>
named_theorems kind_simps \<open>classification tables: state types, names, events\<close>
named_theorems inv_intros \<open>introduction rules for component invariants\<close>

section \<open>Machine integers\<close>

type_synonym micros = int
type_synonym run_id = int
type_synonym flow_id = int

definition MICROS_PER_SECOND :: int where
  "MICROS_PER_SECOND = 1000000"

text \<open>A 64-bit signed value is an \<^typ>\<open>int\<close>; arithmetic wraps as in a release build.\<close>

definition i64_min :: int where "i64_min = - (2 ^ 63)"
definition i64_max :: int where "i64_max = 2 ^ 63 - 1"

definition in_i64 :: "int \<Rightarrow> bool" where
  "in_i64 x \<longleftrightarrow> i64_min \<le> x \<and> x \<le> i64_max"

definition i64_wrap :: "int \<Rightarrow> int" where
  "i64_wrap x = (x + 2 ^ 63) mod 2 ^ 64 - 2 ^ 63"

definition i64_add :: "int \<Rightarrow> int \<Rightarrow> int" where "i64_add a b = i64_wrap (a + b)"
definition i64_sub :: "int \<Rightarrow> int \<Rightarrow> int" where "i64_sub a b = i64_wrap (a - b)"
definition i64_mul :: "int \<Rightarrow> int \<Rightarrow> int" where "i64_mul a b = i64_wrap (a * b)"
definition i64_abs :: "int \<Rightarrow> int" where "i64_abs a = i64_wrap \<bar>a\<bar>"

text \<open>Saturating addition and subtraction, \<^verbatim>\<open>i64::saturating_add\<close> and its kin.\<close>

definition i64_clamp :: "int \<Rightarrow> int" where
  "i64_clamp x = max i64_min (min i64_max x)"

text \<open>Unsigned counters of 32 bits.\<close>

definition u32_add :: "nat \<Rightarrow> nat \<Rightarrow> nat" where
  "u32_add a b = (a + b) mod 2 ^ 32"

lemma in_i64_iff: "in_i64 x \<longleftrightarrow> - 9223372036854775808 \<le> x \<and> x \<le> 9223372036854775807"
  by (simp add: in_i64_def i64_min_def i64_max_def)

lemma i64_wrap_in_range [simp]: "in_i64 (i64_wrap x)"
proof -
  have "0 \<le> (x + 2 ^ 63) mod 2 ^ 64" "(x + 2 ^ 63) mod 2 ^ 64 < 2 ^ 64"
    by simp_all
  then show ?thesis
    by (simp add: in_i64_iff i64_wrap_def)
qed

lemma i64_wrap_id [wrap_simps]: "in_i64 x \<Longrightarrow> i64_wrap x = x"
  by (simp add: in_i64_iff i64_wrap_def)

lemma i64_sub_id [wrap_simps]: "in_i64 (a - b) \<Longrightarrow> i64_sub a b = a - b"
  by (simp add: i64_sub_def i64_wrap_id)

lemma i64_add_id [wrap_simps]: "in_i64 (a + b) \<Longrightarrow> i64_add a b = a + b"
  by (simp add: i64_add_def i64_wrap_id)

lemma i64_sub_self [simp]: "i64_sub a a = 0"
  by (simp add: i64_sub_def i64_wrap_def)

lemma i64_abs_id [wrap_simps]: "in_i64 (a::int) \<Longrightarrow> a \<noteq> i64_min \<Longrightarrow> i64_abs a = \<bar>a\<bar>"
  by (simp add: i64_abs_def i64_wrap_def in_i64_iff i64_min_def abs_if)

lemma u32_add_small [wrap_simps]: "a + b < 2 ^ 32 \<Longrightarrow> u32_add a b = a + b"
  by (simp add: u32_add_def)

lemma u32_add_mod: "u32_add (a mod 2 ^ 32) b = (a + b) mod 2 ^ 32"
  by (simp add: u32_add_def mod_add_left_eq)

text \<open>Rust's signed division truncates towards zero.\<close>

definition tdiv :: "int \<Rightarrow> int \<Rightarrow> int" where
  "tdiv a b = sgn a * sgn b * (\<bar>a\<bar> div \<bar>b\<bar>)"

lemma tdiv_nonneg [wrap_simps]: "0 \<le> a \<Longrightarrow> 0 < b \<Longrightarrow> tdiv a b = a div b"
  by (cases "a = 0") (simp_all add: tdiv_def)

text \<open>What a call does when it may panic.\<close>

datatype 'a outcome = Value 'a | Panic

section \<open>Text\<close>

definition digit :: "nat \<Rightarrow> char" where
  "digit n = char_of (48 + n)"

fun show_nat :: "nat \<Rightarrow> string" where
  "show_nat n = (if n < 10 then [digit n] else show_nat (n div 10) @ [digit (n mod 10)])"

definition show_int :: "int \<Rightarrow> string" where
  "show_int i = (if i < 0 then CHR ''-'' # show_nat (nat (- i)) else show_nat (nat i))"

declare show_nat.simps [simp del]

text \<open>The same digits with the test decided before the recursion is unfolded, for evaluation.\<close>

definition show_digits :: "bool \<Rightarrow> nat \<Rightarrow> string" where
  "show_digits small n = (if small then [digit n] else show_nat (n div 10) @ [digit (n mod 10)])"

lemma show_digits_code [code]:
  "show_digits True n = [digit n]" "show_digits False n = show_nat (n div 10) @ [digit (n mod 10)]"
  by (simp_all add: show_digits_def)

lemma show_nat_code [code]: "show_nat n = show_digits (n < 10) n"
  by (simp add: show_digits_def show_nat.simps)

lemma digit_inj: "a < 10 \<Longrightarrow> b < 10 \<Longrightarrow> digit a = digit b \<Longrightarrow> a = b"
proof -
  assume "a < 10" "b < 10" "digit a = digit b"
  then have "(of_char (digit a) :: nat) = 48 + a" "(of_char (digit b) :: nat) = 48 + b"
    by (simp_all add: digit_def)
  then show ?thesis using \<open>digit a = digit b\<close> by (metis add_left_cancel)
qed

lemma digit_eval:
  "digit 0 = CHR ''0''" "digit 1 = CHR ''1''" "digit 2 = CHR ''2''" "digit 3 = CHR ''3''" "digit 4 = CHR ''4''"
  "digit 5 = CHR ''5''" "digit 6 = CHR ''6''" "digit 7 = CHR ''7''" "digit 8 = CHR ''8''" "digit 9 = CHR ''9''"
  by code_simp+

lemma show_nat_nonempty [simp]: "show_nat n \<noteq> []" "[] \<noteq> show_nat n"
  by (subst show_nat.simps, simp)+

lemma show_nat_inj: "show_nat a = show_nat b \<Longrightarrow> a = b"
proof (induction a arbitrary: b rule: show_nat.induct)
  case (1 a)
  note unf = show_nat.simps[of a] show_nat.simps[of b]
  show ?case
  proof (cases "a < 10")
    case True
    then have "b < 10" using 1(2) unf by (auto simp: append_eq_Cons_conv split: if_splits)
    then show ?thesis using True 1(2) unf digit_inj[of a b] by simp
  next
    case a: False
    then have b: "\<not> b < 10" using 1(2) unf by (auto simp: append_eq_Cons_conv split: if_splits)
    have "show_nat (a div 10) = show_nat (b div 10)" "digit (a mod 10) = digit (b mod 10)"
      using 1(2) a b unf by simp_all
    then have "a div 10 = b div 10" "a mod 10 = b mod 10"
      using 1(1)[OF a] digit_inj[of "a mod 10" "b mod 10"] by simp_all
    then show ?thesis by (metis div_mult_mod_eq)
  qed
qed

lemma show_nat_digits: "c \<in> set (show_nat n) \<Longrightarrow> \<exists>d < 10. c = digit d"
proof (induction n rule: show_nat.induct)
  case (1 n)
  show ?case
  proof (cases "n < 10")
    case True
    then show ?thesis using 1(2) show_nat.simps[of n] by auto
  next
    case False
    then have "c \<in> set (show_nat (n div 10)) \<or> c = digit (n mod 10)"
      using 1(2) show_nat.simps[of n] by auto
    moreover have "n mod 10 < 10" by simp
    ultimately show ?thesis using 1(1)[OF False] by blast
  qed
qed

lemma digit_code: "d < 10 \<Longrightarrow> (of_char (digit d) :: nat) = 48 + d"
  by (simp add: digit_def)

lemma digit_not: "d < 10 \<Longrightarrow> digit d \<noteq> CHR ''-''" "d < 10 \<Longrightarrow> digit d \<noteq> CHR ''|''"
  using digit_code[of d] by auto

lemma show_int_inj: "show_int a = show_int b \<Longrightarrow> a = b"
proof -
  have neg: "show_nat n \<noteq> CHR ''-'' # s" for n s
    using show_nat_digits[of "CHR ''-''" n] digit_not(1) by (metis list.set_intros(1))
  assume "show_int a = show_int b"
  then show ?thesis
    using neg neg[symmetric] show_nat_inj[of "nat (- a)" "nat (- b)"] show_nat_inj[of "nat a" "nat b"]
    by (auto simp: show_int_def split: if_splits)
qed

lemma show_int_no_bar: "CHR ''|'' \<notin> set (show_int i)"
proof -
  have "CHR ''|'' \<notin> set (show_nat n)" for n
    using show_nat_digits[of "CHR ''|''" n] digit_not(2) by metis
  then show ?thesis by (simp add: show_int_def)
qed

definition starts_with :: "string \<Rightarrow> string \<Rightarrow> bool" where
  "starts_with s p \<longleftrightarrow> take (length p) s = p"

definition ends_with :: "string \<Rightarrow> string \<Rightarrow> bool" where
  "ends_with s p \<longleftrightarrow> length p \<le> length s \<and> drop (length s - length p) s = p"

definition strip_prefix :: "string \<Rightarrow> string \<Rightarrow> string option" where
  "strip_prefix s p = (if starts_with s p then Some (drop (length p) s) else None)"

definition strip_suffix :: "string \<Rightarrow> string \<Rightarrow> string option" where
  "strip_suffix s p = (if ends_with s p then Some (take (length s - length p) s) else None)"

text \<open>\<^verbatim>\<open>str::trim_end_matches(c)\<close> and \<^verbatim>\<open>str::trim_start_matches(c)\<close>.\<close>

definition trim_end_matches :: "char \<Rightarrow> string \<Rightarrow> string" where
  "trim_end_matches c s = rev (dropWhile (\<lambda>x. x = c) (rev s))"

text \<open>The characters of U+0000..U+00FF with the property White\_Space.\<close>

definition is_whitespace :: "char \<Rightarrow> bool" where
  "is_whitespace c \<longleftrightarrow> (let n = (of_char c :: nat) in (9 \<le> n \<and> n \<le> 13) \<or> n = 32 \<or> n = 133 \<or> n = 160)"

definition trim_end :: "string \<Rightarrow> string" where
  "trim_end s = rev (dropWhile is_whitespace (rev s))"

definition trim :: "string \<Rightarrow> string" where
  "trim s = trim_end (dropWhile is_whitespace s)"

definition ascii_lower :: "char \<Rightarrow> char" where
  "ascii_lower c = (let n = (of_char c :: nat) in if 65 \<le> n \<and> n \<le> 90 then char_of (n + 32) else c)"

definition to_ascii_lowercase :: "string \<Rightarrow> string" where
  "to_ascii_lowercase s = map ascii_lower s"

definition to_ascii_uppercase :: "string \<Rightarrow> string" where
  "to_ascii_uppercase = map (\<lambda>c. if 97 \<le> (of_char c :: nat) \<and> (of_char c :: nat) \<le> 122
                                   then char_of ((of_char c :: nat) - 32) else c)"

text \<open>The byte length of a text (\<^verbatim>\<open>str::len\<close>): one byte below U+0080, two from there on.\<close>

definition str_len :: "string \<Rightarrow> nat" where
  "str_len s = sum_list (map (\<lambda>c. if (of_char c :: nat) < 128 then 1 else 2) s)"

text \<open>The \<^verbatim>\<open>{:?}\<close> form of a text: quotes, and escapes for what does not print.\<close>

fun hex_digits :: "nat \<Rightarrow> string" where
  "hex_digits n = (if n < 16 then [''0123456789abcdef'' ! n]
     else hex_digits (n div 16) @ [''0123456789abcdef'' ! (n mod 16)])"

definition debug_char :: "char \<Rightarrow> string" where
  "debug_char c = (let n = (of_char c :: nat) in
     if n = 0 then [CHR 0x5C, CHR ''0'']
     else if n = 9 then [CHR 0x5C, CHR ''t'']
     else if n = 10 then [CHR 0x5C, CHR ''n'']
     else if n = 13 then [CHR 0x5C, CHR ''r'']
     else if n = 34 \<or> n = 92 then [CHR 0x5C, c]
     else if n < 32 \<or> (127 \<le> n \<and> n \<le> 160) \<or> n = 173
       then [CHR 0x5C, CHR ''u'', CHR 0x7B] @ hex_digits n @ [CHR 0x7D]
     else [c])"

definition debug_str :: "string \<Rightarrow> string" where
  "debug_str s = CHR 0x22 # concat (map debug_char s) @ [CHR 0x22]"

fun join_strs :: "string \<Rightarrow> string list \<Rightarrow> string" where
  "join_strs sep [] = []"
| "join_strs sep [x] = x"
| "join_strs sep (x # xs) = x @ sep @ join_strs sep xs"

text \<open>
  \<^verbatim>\<open>str::find\<close> and the slices around the match: the text before the first
  occurrence of a pattern and the text after it.
\<close>

fun split_once :: "string \<Rightarrow> string \<Rightarrow> (string \<times> string) option" where
  "split_once pat [] = (if pat = [] then Some ([], []) else None)"
| "split_once pat (c # cs) =
     (if starts_with (c # cs) pat then Some ([], drop (length pat) (c # cs))
      else map_option (\<lambda>(a, b). (c # a, b)) (split_once pat cs))"

text \<open>
  \<^verbatim>\<open>str::split(c)\<close>, \<^verbatim>\<open>str::contains\<close>, and \<^verbatim>\<open>i64::from_str\<close>, which takes an optional sign
  and at least one decimal digit.
\<close>

fun split_char :: "char \<Rightarrow> string \<Rightarrow> string list" where
  "split_char c [] = [[]]"
| "split_char c (x # s) =
     (if x = c then [] # split_char c s
      else case split_char c s of [] \<Rightarrow> [[x]] | w # ws \<Rightarrow> (x # w) # ws)"

definition digit_value :: "char \<Rightarrow> nat option" where
  "digit_value c = (let n = of_char c in if 48 \<le> n \<and> n \<le> 57 then Some (n - 48) else None)"

fun digits_value :: "nat \<Rightarrow> string \<Rightarrow> nat option" where
  "digits_value acc [] = Some acc"
| "digits_value acc (c # cs) =
     (case digit_value c of Some d \<Rightarrow> digits_value (acc * 10 + d) cs | None \<Rightarrow> None)"

definition parse_i64 :: "string \<Rightarrow> int option" where
  "parse_i64 s =
     (let (neg, ds) = (case s of c # cs \<Rightarrow> if c = CHR ''-'' then (True, cs) else if c = CHR ''+'' then (False, cs) else (False, s)
                       | [] \<Rightarrow> (False, s))
      in if ds = [] then None
         else Option.bind (digits_value 0 ds) (\<lambda>n.
           let v = (if neg then - int n else int n) in if in_i64 v then Some v else None))"

lemma starts_with_iff [str_simps]: "starts_with s p \<longleftrightarrow> prefix p s"
  by (metis append_eq_conv_conj prefix_def starts_with_def append_take_drop_id)

lemma ends_with_iff [str_simps]: "ends_with s p \<longleftrightarrow> suffix p s"
proof
  assume "ends_with s p"
  then have "s = take (length s - length p) s @ p"
    by (metis append_take_drop_id ends_with_def)
  then show "suffix p s" by (rule suffixI)
next
  assume "suffix p s"
  then show "ends_with s p"
    by (auto simp: suffix_def ends_with_def)
qed

lemma strip_prefix_Some [str_simps]: "strip_prefix s p = Some r \<longleftrightarrow> s = p @ r"
  by (auto simp: strip_prefix_def starts_with_iff prefix_def)

lemma strip_prefix_None [str_simps]: "strip_prefix s p = None \<longleftrightarrow> \<not> prefix p s"
  by (simp add: strip_prefix_def starts_with_iff)

lemma strip_suffix_Some [str_simps]: "strip_suffix s p = Some r \<longleftrightarrow> s = r @ p"
  by (auto simp: strip_suffix_def ends_with_iff suffix_def)

lemma strip_suffix_None [str_simps]: "strip_suffix s p = None \<longleftrightarrow> \<not> suffix p s"
  by (simp add: strip_suffix_def ends_with_iff)

lemma split_once_Some: "split_once pat s = Some (a, b) \<Longrightarrow> s = a @ pat @ b"
proof (induction s arbitrary: a)
  case (Cons c cs)
  then show ?case
    by (auto simp: starts_with_iff prefix_def split: if_splits)
qed (auto split: if_splits)

lemma split_once_None: "split_once pat s = None \<longleftrightarrow> \<not> sublist pat s"
  by (induction s) (auto simp: starts_with_iff sublist_Cons_right)

lemma split_once_shorter:
  "split_once pat s = Some (a, b) \<Longrightarrow> pat \<noteq> [] \<Longrightarrow> length b < length s"
  by (auto dest!: split_once_Some)

section \<open>Searching a table by key\<close>

lemma find_mem: "List.find P xs = Some x \<Longrightarrow> x \<in> set xs \<and> P x"
  by (auto simp: find_Some_iff)

lemma find_key_sound: "List.find (\<lambda>x. f x = k) xs = Some y \<Longrightarrow> f y = k"
  by (auto simp: find_Some_iff)

lemma find_key_unique:
  assumes "y \<in> set xs" "\<And>x. x \<in> set xs \<Longrightarrow> f x = f y \<Longrightarrow> x = y"
  shows "List.find (\<lambda>x. f x = f y) xs = Some y"
proof (cases "List.find (\<lambda>x. f x = f y) xs")
  case None
  then show ?thesis using assms(1) by (auto simp: find_None_iff)
next
  case (Some z)
  then have "z \<in> set xs" "f z = f y"
    by (auto simp: find_Some_iff)
  then show ?thesis using Some assms(2) by simp
qed

section \<open>Hash maps as association lists\<close>

text \<open>
  A hash map is an association list with distinct keys. \<open>entry_update k d f\<close> is
  \<^verbatim>\<open>*map.entry(k).or_insert(d) = f(..)\<close>.
\<close>

definition entry_update :: "'k \<Rightarrow> 'v \<Rightarrow> ('v \<Rightarrow> 'v) \<Rightarrow> ('k \<times> 'v) list \<Rightarrow> ('k \<times> 'v) list" where
  "entry_update k d f al = AList.update k (f (case map_of al k of Some v \<Rightarrow> v | None \<Rightarrow> d)) al"

lemma map_of_entry_update [simp]:
  "map_of (entry_update k d f al) = (map_of al)(k \<mapsto> f (case map_of al k of Some v \<Rightarrow> v | None \<Rightarrow> d))"
  by (simp add: entry_update_def update_conv')

lemma map_of_filter_entry:
  "distinct (map fst xs) \<Longrightarrow>
     map_of (filter P xs) i = (case map_of xs i of Some r \<Rightarrow> if P (i, r) then Some r else None | None \<Rightarrow> None)"
  by (induction xs) (auto split: option.splits simp: map_of_eq_None_iff rev_image_eqI)

lemma distinct_entry_update [simp]: "distinct (map fst al) \<Longrightarrow> distinct (map fst (entry_update k d f al))"
  by (simp add: entry_update_def distinct_update)

section \<open>Operations that keep an invariant\<close>

text \<open>A sequence of operations with an output each.\<close>

fun run_ops :: "('op \<Rightarrow> 's \<Rightarrow> 'o \<times> 's) \<Rightarrow> 'op list \<Rightarrow> 's \<Rightarrow> 'o list \<times> 's" where
  "run_ops step [] s = ([], s)"
| "run_ops step (op # ops) s =
     (let (out, s') = step op s; (outs, s'') = run_ops step ops s' in (out # outs, s''))"

text \<open>
  The contract every stateful component offers its callers: each of its
  operations keeps the component's invariant, so any sequence of them does.
  Each component interprets it on its own operations.
\<close>

text \<open>A \<^verbatim>\<open>BTreeMap\<close> as a list that is ascending by key.\<close>

fun bt_insert :: "'k::linorder \<Rightarrow> 'v \<Rightarrow> ('k \<times> 'v) list \<Rightarrow> ('k \<times> 'v) list" where
  "bt_insert k v [] = [(k, v)]"
| "bt_insert k v ((k', v') # m) =
     (if k < k' then (k, v) # (k', v') # m
      else if k = k' then (k, v) # m
      else (k', v') # bt_insert k v m)"

definition bt_remove :: "'k \<Rightarrow> ('k \<times> 'v) list \<Rightarrow> ('k \<times> 'v) list" where
  "bt_remove k m = filter (\<lambda>(k', _). k' \<noteq> k) m"

definition bt_sorted :: "('k::linorder \<times> 'v) list \<Rightarrow> bool" where
  "bt_sorted m \<longleftrightarrow> sorted_wrt (<) (map fst m)"

lemma bt_insert_set: "bt_sorted m \<Longrightarrow> set (bt_insert k v m) = insert (k, v) {e \<in> set m. fst e \<noteq> k}"
proof (induction m)
  case (Cons e m)
  obtain k' v' where e: "e = (k', v')" by force
  have lt: "\<forall>x \<in> set m. k' < fst x" and tl: "bt_sorted m" using Cons.prems e by (auto simp: bt_sorted_def)
  consider "k < k'" | "k = k'" | "k' < k" by force
  then show ?case
    using lt Cons.IH[OF tl] by cases (auto simp: e)
qed simp

lemma bt_insert_fst: "fst ` set (bt_insert k v m) = insert k (fst ` set m)"
proof (induction m)
  case (Cons e m)
  then show ?case by (cases e) (simp add: insert_commute)
qed simp

lemma bt_insert_sorted: "bt_sorted m \<Longrightarrow> bt_sorted (bt_insert k v m)"
proof (induction m)
  case (Cons e m)
  then show ?case using bt_insert_fst[of k v m] by (cases e) (auto simp: bt_sorted_def)
qed (simp add: bt_sorted_def)

lemma bt_remove_set [simp]: "set (bt_remove k m) = {e \<in> set m. fst e \<noteq> k}"
  by (auto simp: bt_remove_def)

lemma bt_remove_sorted: "bt_sorted m \<Longrightarrow> bt_sorted (bt_remove k m)"
  unfolding bt_sorted_def bt_remove_def sorted_wrt_map by (rule sorted_wrt_filter)

lemma bt_sorted_unique: "bt_sorted m \<Longrightarrow> (k, v) \<in> set m \<Longrightarrow> (k, v') \<in> set m \<Longrightarrow> v = v'"
  by (induction m) (auto simp: bt_sorted_def)

lemma bt_insert_remove: "bt_sorted m \<Longrightarrow> (k, v) \<in> set m \<Longrightarrow> bt_insert k v (bt_remove k m) = m"
proof (induction m)
  case (Cons e m)
  obtain k' v' where e: "e = (k', v')" by force
  show ?case
  proof (cases "k = k'")
    case True
    have "bt_remove k m = m"
      using Cons.prems(1) True e by (auto simp: bt_remove_def bt_sorted_def filter_id_conv)
    moreover have "v = v'" using bt_sorted_unique[OF Cons.prems(1,2)] True e by auto
    moreover have "bt_insert k v m = (k, v) # m"
      using Cons.prems(1) True e by (cases m) (auto simp: bt_sorted_def)
    ultimately show ?thesis using True e by (simp add: bt_remove_def)
  next
    case False
    then have "\<not> k < k'" "(k, v) \<in> set m" using Cons.prems e by (auto simp: bt_sorted_def)
    then show ?thesis using Cons False e by (simp add: bt_remove_def bt_sorted_def)
  qed
qed simp

text \<open>A property every admissible operation keeps.\<close>

locale preserved_when =
  fixes step :: "'op \<Rightarrow> 's \<Rightarrow> 's" and inv :: "'s \<Rightarrow> bool" and admissible :: "'op \<Rightarrow> bool"
  assumes keeps_when: "inv s \<Longrightarrow> admissible op \<Longrightarrow> inv (step op s)"
begin

lemma runs_when: "list_all admissible ops \<Longrightarrow> inv s \<Longrightarrow> inv (fold step ops s)"
  by (induction ops arbitrary: s) (auto intro: keeps_when)

end

locale preserved =
  fixes step :: "'op \<Rightarrow> 's \<Rightarrow> 's" and inv :: "'s \<Rightarrow> bool"
  assumes keeps: "inv s \<Longrightarrow> inv (step op s)"
begin

lemma runs: "inv s \<Longrightarrow> inv (fold step ops s)"
  by (induction ops arbitrary: s) (auto intro: keeps)

lemma runs_prefix: "inv s \<Longrightarrow> inv (fold step (take n ops) s)"
  by (rule runs)

end

sublocale preserved \<subseteq> always: preserved_when step inv "\<lambda>_. True"
  by unfold_locales (rule keeps)

section \<open>Division with a remainder\<close>

lemma power_near:
  assumes s: "1 \<le> (s :: int)"
  shows "\<exists>j. s \<le> 2 ^ j \<and> 2 ^ j < 2 * s"
proof -
  have "nat s < 2 ^ nat s" by (rule less_exp)
  then have "s \<le> 2 ^ nat s" using s by (metis nat_le_iff of_nat_numeral of_nat_power less_imp_le)
  then have le: "s \<le> 2 ^ (LEAST j. s \<le> 2 ^ j)" by (rule LeastI)
  show ?thesis
  proof (cases "LEAST j. s \<le> 2 ^ j")
    case 0
    then show ?thesis using le s by (intro exI[of _ 0]) simp
  next
    case (Suc i)
    then have "\<not> s \<le> 2 ^ i" using not_less_Least[of i "\<lambda>j. s \<le> 2 ^ j"] by simp
    then show ?thesis using le Suc by (intro exI[of _ "Suc i"]) simp
  qed
qed

lemma factor_le:
  fixes a b n :: int
  assumes "0 < a" "0 < b" "a * b \<le> n"
  shows "a \<le> n" "b \<le> n"
proof -
  have "a * 1 \<le> a * b" "1 * b \<le> a * b" using assms by (intro mult_left_mono mult_right_mono; simp)+
  then show "a \<le> n" "b \<le> n" using assms(3) by simp_all
qed

lemma div_step_above:
  assumes "0 < (M :: int)"
  shows "d < (d div M + 1) * M" "d < k * M \<Longrightarrow> (d div M + 1) * M \<le> k * M"
proof -
  show "d < (d div M + 1) * M"
    using pos_mod_bound[OF assms, of d] div_mult_mod_eq[of d M] unfolding distrib_right by linarith
  assume less: "d < k * M"
  have "d div M * M \<le> d" using pos_mod_sign[OF assms, of d] div_mult_mod_eq[of d M] by linarith
  then have "d div M * M < k * M" using less by linarith
  then have "d div M < k" using assms by simp
  then show "(d div M + 1) * M \<le> k * M" using assms by simp
qed

end
