(* ===== verification/F64.thy ===== *)
theory F64
  imports Prelude "HOL-Library.Log_Nat"
begin

text \<open>
  The binary64 numbers of Rust's \<^verbatim>\<open>f64\<close>, executable: a finite value is the
  rational it denotes, and every operation rounds its exact result to the
  nearest representable value, ties to the even significand. The sign of zero
  is not kept; a finite value divided by zero has the sign of the dividend.
\<close>

datatype f64 = NaN | PInf | NInf | Fin rat

definition pow2 :: "int \<Rightarrow> rat" where
  "pow2 e = (if 0 \<le> e then 2 ^ nat e else 1 / 2 ^ nat (- e))"

text \<open>The exponent of the leading binary digit of a positive rational.\<close>

definition ilog2 :: "rat \<Rightarrow> int" where
  "ilog2 x = (let (n, d) = quotient_of x; e = bitlen n - bitlen d in if pow2 e \<le> x then e else e - 1)"

definition round_even :: "rat \<Rightarrow> int" where
  "round_even x = (let f = \<lfloor>x\<rfloor>; r = x - of_int f in
     if r < 1 / 2 then f else if 1 / 2 < r then f + 1 else if even f then f else f + 1)"

definition rnd :: "rat \<Rightarrow> f64" where
  "rnd x = (if x = 0 then Fin 0 else
     let e = max (ilog2 \<bar>x\<bar> - 52) (- 1074);
         v = of_int (round_even (\<bar>x\<bar> / pow2 e)) * pow2 e
     in if pow2 1024 \<le> v then (if 0 < x then PInf else NInf)
        else Fin (if 0 < x then v else - v))"

fun f64_neg :: "f64 \<Rightarrow> f64" where
  "f64_neg NaN = NaN"
| "f64_neg PInf = NInf"
| "f64_neg NInf = PInf"
| "f64_neg (Fin x) = Fin (- x)"

fun f64_add :: "f64 \<Rightarrow> f64 \<Rightarrow> f64" where
  "f64_add (Fin x) (Fin y) = rnd (x + y)"
| "f64_add NaN _ = NaN"
| "f64_add _ NaN = NaN"
| "f64_add PInf NInf = NaN"
| "f64_add NInf PInf = NaN"
| "f64_add PInf _ = PInf"
| "f64_add NInf _ = NInf"
| "f64_add (Fin _) y = y"

definition f64_sub :: "f64 \<Rightarrow> f64 \<Rightarrow> f64" where
  "f64_sub x y = f64_add x (f64_neg y)"

definition signed_inf :: "bool \<Rightarrow> f64" where
  "signed_inf pos = (if pos then PInf else NInf)"

fun f64_mul :: "f64 \<Rightarrow> f64 \<Rightarrow> f64" where
  "f64_mul (Fin x) (Fin y) = rnd (x * y)"
| "f64_mul NaN _ = NaN"
| "f64_mul _ NaN = NaN"
| "f64_mul PInf PInf = PInf"
| "f64_mul PInf NInf = NInf"
| "f64_mul NInf PInf = NInf"
| "f64_mul NInf NInf = PInf"
| "f64_mul PInf (Fin y) = (if y = 0 then NaN else signed_inf (0 < y))"
| "f64_mul NInf (Fin y) = (if y = 0 then NaN else signed_inf (y < 0))"
| "f64_mul (Fin x) PInf = (if x = 0 then NaN else signed_inf (0 < x))"
| "f64_mul (Fin x) NInf = (if x = 0 then NaN else signed_inf (x < 0))"

fun f64_div :: "f64 \<Rightarrow> f64 \<Rightarrow> f64" where
  "f64_div (Fin x) (Fin y) =
     (if y = 0 then (if x = 0 then NaN else signed_inf (0 < x)) else rnd (x / y))"
| "f64_div NaN _ = NaN"
| "f64_div _ NaN = NaN"
| "f64_div (Fin _) _ = Fin 0"
| "f64_div PInf (Fin y) = signed_inf (0 \<le> y)"
| "f64_div NInf (Fin y) = signed_inf (y < 0)"
| "f64_div _ _ = NaN"

fun f64_lt :: "f64 \<Rightarrow> f64 \<Rightarrow> bool" where
  "f64_lt (Fin x) (Fin y) \<longleftrightarrow> x < y"
| "f64_lt NaN _ = False"
| "f64_lt _ NaN = False"
| "f64_lt NInf y \<longleftrightarrow> y \<noteq> NInf"
| "f64_lt (Fin _) y \<longleftrightarrow> y = PInf"
| "f64_lt PInf _ = False"

definition f64_eq :: "f64 \<Rightarrow> f64 \<Rightarrow> bool" where
  "f64_eq x y \<longleftrightarrow> x = y \<and> x \<noteq> NaN"

definition f64_le :: "f64 \<Rightarrow> f64 \<Rightarrow> bool" where
  "f64_le x y \<longleftrightarrow> f64_lt x y \<or> f64_eq x y"

text \<open>\<^verbatim>\<open>n as f64\<close> and the saturating \<^verbatim>\<open>x as i64\<close>, which truncates towards zero.\<close>

definition f64_of_int :: "int \<Rightarrow> f64" where
  "f64_of_int n = rnd (of_int n)"

definition rat_trunc :: "rat \<Rightarrow> int" where
  "rat_trunc x = (if 0 \<le> x then \<lfloor>x\<rfloor> else - \<lfloor>- x\<rfloor>)"

fun f64_to_i64 :: "f64 \<Rightarrow> int" where
  "f64_to_i64 NaN = 0"
| "f64_to_i64 PInf = i64_max"
| "f64_to_i64 NInf = i64_min"
| "f64_to_i64 (Fin x) = i64_clamp (rat_trunc x)"

text \<open>\<^verbatim>\<open>f64::max\<close> and \<^verbatim>\<open>f64::min\<close> return the other operand when one is NaN.\<close>

definition f64_max :: "f64 \<Rightarrow> f64 \<Rightarrow> f64" where
  "f64_max x y = (if x = NaN then y else if y = NaN then x else if f64_lt x y then y else x)"

definition f64_min :: "f64 \<Rightarrow> f64 \<Rightarrow> f64" where
  "f64_min x y = (if x = NaN then y else if y = NaN then x else if f64_lt y x then y else x)"

fun is_finite :: "f64 \<Rightarrow> bool" where
  "is_finite (Fin _) = True"
| "is_finite _ = False"

text \<open>The ubiquitous \<^verbatim>\<open>(secs * 1_000_000.0) as i64\<close>.\<close>

definition secs_to_micros :: "f64 \<Rightarrow> int" where
  "secs_to_micros s = f64_to_i64 (f64_mul s (Fin 1000000))"

text \<open>A finite value of the model is a float only if rounding leaves it alone.\<close>

fun is_f64 :: "f64 \<Rightarrow> bool" where
  "is_f64 (Fin x) \<longleftrightarrow> rnd x = Fin x"
| "is_f64 _ = True"

section \<open>Rounding is exact on whole numbers below two to the 53\<close>

lemma pow2_pos [simp]: "0 < pow2 e"
  by (simp add: pow2_def)

lemma pow2_nonzero [simp]: "pow2 e \<noteq> 0"
  by (simp add: pow2_def)

lemma pow2_nat [simp]: "pow2 (int n) = 2 ^ n"
  by (simp add: pow2_def)

lemma pow2_eq_powi: "pow2 e = 2 powi e"
  by (simp add: pow2_def power_int_def field_simps)

lemma pow2_add: "pow2 (a + b) = pow2 a * pow2 b"
  by (simp add: pow2_eq_powi power_int_add)

lemma pow2_mono: "a < b \<Longrightarrow> pow2 a < pow2 b"
  unfolding pow2_eq_powi by (rule power_int_strict_increasing) simp_all

lemma pow2_less_iff [simp]: "pow2 a < pow2 b \<longleftrightarrow> a < b"
  by (metis pow2_mono less_asym less_irrefl linorder_neqE)

lemma pow2_le_iff [simp]: "pow2 a \<le> pow2 b \<longleftrightarrow> a \<le> b"
  by (simp flip: not_less)

lemma round_even_of_int [simp]: "round_even (of_int n) = n"
  by (simp add: round_even_def)

lemma bitlen_rat_bounds:
  assumes "0 < n"
  shows "pow2 (bitlen n - 1) \<le> of_int n" "of_int n < pow2 (bitlen n)"
proof -
  have "2 ^ nat (bitlen n - 1) \<le> n" "n < 2 ^ nat (bitlen n)"
    using bitlen_bounds[OF assms] by auto
  then have "(of_int (2 ^ nat (bitlen n - 1)) :: rat) \<le> of_int n"
    "(of_int n :: rat) < of_int (2 ^ nat (bitlen n))"
    by (simp_all only: of_int_le_iff of_int_less_iff)
  moreover have "1 \<le> bitlen n" using assms bitlen_eq_zero_iff[of n] bitlen_nonneg[of n] by linarith
  ultimately show "pow2 (bitlen n - 1) \<le> of_int n" "of_int n < pow2 (bitlen n)"
    by (simp_all add: pow2_def)
qed

lemma ilog2_bounds:
  assumes "0 < x"
  shows "pow2 (ilog2 x) \<le> x" "x < pow2 (ilog2 x + 1)"
proof -
  obtain n d where q: "quotient_of x = (n, d)" by force
  have d: "0 < d" and x: "x = of_int n / of_int d"
    using q quotient_of_denom_pos quotient_of_div by auto
  have n: "0 < n" using assms d x by (simp add: zero_less_divide_iff)
  let ?e = "bitlen n - bitlen d"
  note bn = bitlen_rat_bounds[OF n] and bd = bitlen_rat_bounds[OF d]
  have "of_int n < pow2 (?e + 1) * pow2 (bitlen d - 1)"
    using bn(2) by (simp flip: pow2_add)
  also have "\<dots> \<le> pow2 (?e + 1) * of_int d"
    using bd(1) by (simp add: mult_left_mono less_imp_le)
  finally have up: "x < pow2 (?e + 1)"
    using d by (simp add: x field_simps)
  have "pow2 (?e - 1) * of_int d \<le> pow2 (?e - 1) * pow2 (bitlen d)"
    using bd(2) by (simp add: mult_left_mono less_imp_le)
  also have "\<dots> = pow2 (bitlen n - 1)"
    by (simp flip: pow2_add)
  also have "\<dots> \<le> of_int n" using bn(1) .
  finally have low: "pow2 (?e - 1) \<le> x"
    using d by (simp add: x field_simps)
  show "pow2 (ilog2 x) \<le> x" "x < pow2 (ilog2 x + 1)"
    using up low by (auto simp: ilog2_def q Let_def)
qed

lemma ilog2_unique: "pow2 k \<le> x \<Longrightarrow> x < pow2 (k + 1) \<Longrightarrow> ilog2 x = k"
proof -
  assume k: "pow2 k \<le> x" "x < pow2 (k + 1)"
  then have "0 < x" using pow2_pos order_less_le_trans by blast
  note b = ilog2_bounds[OF this]
  have "pow2 k < pow2 (ilog2 x + 1)" "pow2 (ilog2 x) < pow2 (k + 1)"
    using k b order_le_less_trans by blast+
  then show ?thesis by simp
qed

lemma rnd_representable:
  assumes x: "\<bar>x\<bar> = of_int m * pow2 e" and m: "0 < m" "m < 2 ^ 53" and e: "- 1074 \<le> e"
    and lt: "\<bar>x\<bar> < pow2 1024"
  shows "rnd x = Fin x"
proof -
  have x0: "0 < \<bar>x\<bar>" using x m by simp
  define E where "E = max (ilog2 \<bar>x\<bar> - 52) (- 1074)"
  have "(of_int m :: rat) < of_int (2 ^ 53)" using m(2) by (simp only: of_int_less_iff)
  then have "(of_int m :: rat) < pow2 53" by (simp add: pow2_def)
  then have "\<bar>x\<bar> < pow2 53 * pow2 e" by (simp add: x)
  then have "\<bar>x\<bar> < pow2 (53 + e)" by (simp add: pow2_add)
  moreover have "pow2 (ilog2 \<bar>x\<bar>) \<le> \<bar>x\<bar>" using ilog2_bounds(1)[OF x0] .
  ultimately have "pow2 (ilog2 \<bar>x\<bar>) < pow2 (53 + e)" by (meson order_le_less_trans)
  then have "E \<le> e" using e by (simp add: E_def)
  then have "pow2 e = pow2 (int (nat (e - E)) + E)" by simp
  also have "\<dots> = 2 ^ nat (e - E) * pow2 E" by (simp only: pow2_add pow2_nat)
  finally have "\<bar>x\<bar> / pow2 E = of_int (m * 2 ^ nat (e - E))"
    by (simp add: x)
  then have "of_int (round_even (\<bar>x\<bar> / pow2 E)) * pow2 E = \<bar>x\<bar>"
    by (metis round_even_of_int nonzero_divide_eq_eq pow2_pos less_numeral_extra(3))
  then show ?thesis
    using x0 lt by (auto simp: rnd_def E_def[symmetric] Let_def)
qed

lemma rnd_of_int:
  assumes "\<bar>n\<bar> < 2 ^ 53"
  shows "rnd (of_int n) = Fin (of_int n)"
proof (cases "n = 0")
  case False
  have "(of_int \<bar>n\<bar> :: rat) < of_int (2 ^ 53)" using assms by (simp only: of_int_less_iff)
  also have "\<dots> = pow2 53" by (simp add: pow2_def)
  also have "\<dots> < pow2 1024" by simp
  finally have "\<bar>of_int n :: rat\<bar> < pow2 1024" by simp
  then show ?thesis
    using False assms rnd_representable[of "of_int n" "\<bar>n\<bar>" 0] by (simp add: pow2_def)
qed (simp add: rnd_def)

lemma rnd_numeral_nat: "n < 2 ^ 53 \<Longrightarrow> rnd (of_nat n) = Fin (of_nat n)"
  using rnd_of_int[of "int n"] by simp

lemma f64_of_int_exact: "\<bar>n\<bar> < 2 ^ 53 \<Longrightarrow> f64_of_int n = Fin (of_int n)"
  by (simp add: f64_of_int_def rnd_of_int)

lemma rat_trunc_of_int [simp]: "rat_trunc (of_int n) = n"
  by (simp add: rat_trunc_def)

lemma f64_int_roundtrip: "\<bar>n\<bar> < 2 ^ 53 \<Longrightarrow> f64_to_i64 (f64_of_int n) = n"
  by (simp add: f64_of_int_exact i64_clamp_def i64_min_def i64_max_def)

lemma f64_lt_irrefl [simp]: "\<not> f64_lt x x"
  by (cases x) simp_all

lemma f64_lt_trans: "f64_lt x y \<Longrightarrow> f64_lt y z \<Longrightarrow> f64_lt x z"
  by (cases x; cases y; cases z) auto

lemma f64_to_i64_in_range: "in_i64 (f64_to_i64 x)"
  by (cases x) (auto simp: in_i64_def i64_clamp_def i64_min_def i64_max_def)

lemma secs_to_micros_whole:
  "\<bar>n\<bar> < 2 ^ 33 \<Longrightarrow> secs_to_micros (Fin (of_int n)) = n * 1000000"
proof -
  assume n: "\<bar>n\<bar> < 2 ^ 33"
  have "f64_mul (Fin (of_int n)) (Fin 1000000) = rnd (of_int (n * 1000000))" by simp
  also have "\<dots> = Fin (of_int (n * 1000000))"
    using n by (intro rnd_of_int) (simp add: abs_mult)
  finally show ?thesis
    using n by (simp only: secs_to_micros_def f64_to_i64.simps rat_trunc_of_int)
      (simp add: i64_clamp_def i64_min_def i64_max_def)
qed

section \<open>Rounding is monotone\<close>

lemma round_even_near: "of_int (round_even x) \<le> x + 1 / 2" "x - 1 / 2 \<le> of_int (round_even x)"
  by (auto simp: round_even_def Let_def) linarith+

lemma round_even_mono: "x \<le> y \<Longrightarrow> round_even x \<le> round_even y"
proof -
  assume le: "x \<le> y"
  have f: "\<lfloor>x\<rfloor> \<le> \<lfloor>y\<rfloor>" using le by (rule floor_mono)
  show ?thesis
  proof (cases "\<lfloor>x\<rfloor> = \<lfloor>y\<rfloor>")
    case True
    then show ?thesis using le by (auto simp: round_even_def Let_def)
  next
    case False
    then have "\<lfloor>x\<rfloor> + 1 \<le> \<lfloor>y\<rfloor>" using f by simp
    then show ?thesis by (auto simp: round_even_def Let_def)
  qed
qed

text \<open>The magnitude a positive rational is rounded to.\<close>

definition rnd_exp :: "rat \<Rightarrow> int" where
  "rnd_exp x = max (ilog2 x - 52) (- 1074)"

definition rnd_val :: "rat \<Rightarrow> rat" where
  "rnd_val x = of_int (round_even (x / pow2 (rnd_exp x))) * pow2 (rnd_exp x)"

lemma rnd_conv:
  "rnd x = (if x = 0 then Fin 0 else if pow2 1024 \<le> rnd_val \<bar>x\<bar> then (if 0 < x then PInf else NInf)
     else Fin (if 0 < x then rnd_val \<bar>x\<bar> else - rnd_val \<bar>x\<bar>))"
  by (simp add: rnd_def rnd_val_def rnd_exp_def Let_def)

lemma rnd_val_le_pow2:
  assumes "0 < x" "x \<le> pow2 k" "rnd_exp x \<le> k" shows "rnd_val x \<le> pow2 k"
proof -
  have "x / pow2 (rnd_exp x) \<le> pow2 (int (nat (k - rnd_exp x)))"
    using assms pow2_add[of "k - rnd_exp x" "rnd_exp x"] by (simp add: field_simps)
  then have "round_even (x / pow2 (rnd_exp x)) \<le> round_even (of_int (2 ^ nat (k - rnd_exp x)))"
    by (intro round_even_mono) (simp only: pow2_nat of_int_power of_int_numeral)
  then have "of_int (round_even (x / pow2 (rnd_exp x))) \<le> (of_int (2 ^ nat (k - rnd_exp x)) :: rat)"
    by (simp only: round_even_of_int of_int_le_iff)
  also have "\<dots> = pow2 (k - rnd_exp x)" using assms(3) by (simp add: pow2_def)
  finally have "rnd_val x \<le> pow2 (k - rnd_exp x) * pow2 (rnd_exp x)"
    by (simp add: rnd_val_def mult_right_mono less_imp_le)
  then show ?thesis by (simp flip: pow2_add)
qed

lemma rnd_val_ge_pow2:
  assumes "pow2 k \<le> x" "rnd_exp x \<le> k" shows "pow2 k \<le> rnd_val x"
proof -
  have "pow2 (int (nat (k - rnd_exp x))) \<le> x / pow2 (rnd_exp x)"
    using assms pow2_add[of "k - rnd_exp x" "rnd_exp x"] by (simp add: field_simps)
  then have "round_even (of_int (2 ^ nat (k - rnd_exp x))) \<le> round_even (x / pow2 (rnd_exp x))"
    by (intro round_even_mono) (simp only: pow2_nat of_int_power of_int_numeral)
  then have "(of_int (2 ^ nat (k - rnd_exp x)) :: rat) \<le> of_int (round_even (x / pow2 (rnd_exp x)))"
    by (simp only: round_even_of_int of_int_le_iff)
  then have "pow2 (k - rnd_exp x) \<le> of_int (round_even (x / pow2 (rnd_exp x)))" using assms(2) by (simp add: pow2_def)
  then have "pow2 (k - rnd_exp x) * pow2 (rnd_exp x) \<le> rnd_val x"
    by (simp add: rnd_val_def mult_right_mono less_imp_le)
  then show ?thesis by (simp flip: pow2_add)
qed

lemma rnd_val_mono: "0 < x \<Longrightarrow> x \<le> y \<Longrightarrow> rnd_val x \<le> rnd_val y"
proof (cases "rnd_exp x = rnd_exp y")
  case True
  assume "0 < x" "x \<le> y"
  then show ?thesis unfolding rnd_val_def True
    by (intro mult_right_mono) (simp_all add: round_even_mono divide_right_mono less_imp_le)
next
  case False
  assume x: "0 < x" "x \<le> y"
  note bx = ilog2_bounds[OF x(1)] and yb = ilog2_bounds[OF order_less_le_trans[OF x]]
  have "pow2 (ilog2 x) < pow2 (ilog2 y + 1)" using bx(1) yb(2) x(2) by (meson order_le_less_trans order_trans)
  then have "ilog2 x \<le> ilog2 y" by simp
  then have lt: "ilog2 x + 1 \<le> ilog2 y" and e: "rnd_exp y = ilog2 y - 52" "rnd_exp x \<le> ilog2 y"
    using False by (auto simp: rnd_exp_def max_def split: if_splits)
  have "x \<le> pow2 (ilog2 y)" using bx(2) lt pow2_le_iff[of "ilog2 x + 1" "ilog2 y"] by (meson less_imp_le order_trans)
  then have "rnd_val x \<le> pow2 (ilog2 y)" using rnd_val_le_pow2[OF x(1)] e(2) by blast
  also have "\<dots> \<le> rnd_val y" using rnd_val_ge_pow2[OF yb(1)] e(1) by simp
  finally show ?thesis .
qed

lemma rnd_val_fix: "0 < x \<Longrightarrow> rnd x = Fin x \<Longrightarrow> rnd_val x = x"
  by (auto simp: rnd_conv split: if_splits)

text \<open>Rounding a whole number plus at most a half stays between the two.\<close>

lemma rnd_half: "\<bar>f\<bar> < 2 ^ 52 \<Longrightarrow> rnd (of_int f + 1 / 2) = Fin (of_int f + 1 / 2)"
proof -
  assume f: "\<bar>f\<bar> < 2 ^ 52"
  have half: "(of_int f + 1 / 2 :: rat) = of_int (2 * f + 1) * pow2 (- 1)" by (simp add: pow2_def field_simps)
  have "\<bar>of_int f + 1 / 2 :: rat\<bar> = of_int \<bar>2 * f + 1\<bar> * pow2 (- 1)" unfolding half by (simp add: abs_mult abs_of_pos)
  moreover have "\<bar>2 * f + 1\<bar> \<noteq> 0" by presburger
  moreover have "\<bar>2 * f + 1\<bar> < 2 ^ 53" using f by simp
  moreover have "\<bar>of_int f + 1 / 2 :: rat\<bar> < pow2 1024"
  proof -
    have "(of_int \<bar>f\<bar> :: rat) < of_int (2 ^ 52)" using f by (simp only: of_int_less_iff)
    also have "\<dots> = pow2 52" by (simp add: pow2_def)
    finally have "\<bar>of_int f + 1 / 2 :: rat\<bar> < pow2 52 + pow2 52" by (simp add: pow2_def)
    also have "\<dots> = pow2 53" by (simp add: pow2_def)
    also have "\<dots> < pow2 1024" by simp
    finally show ?thesis .
  qed
  ultimately show ?thesis by (intro rnd_representable[where m = "\<bar>2 * f + 1\<bar>" and e = "- 1"]) auto
qed

lemma rnd_between:
  assumes lo: "rnd a = Fin a" and hi: "rnd b = Fin b" and x: "a \<le> x" "x \<le> b" and sign: "0 \<le> a \<or> b \<le> 0"
  shows "\<exists>v. rnd x = Fin v \<and> a \<le> v \<and> v \<le> b"
proof -
  have big: "rnd c = Fin c \<Longrightarrow> c \<noteq> 0 \<Longrightarrow> rnd_val \<bar>c\<bar> = \<bar>c\<bar> \<and> \<bar>c\<bar> < pow2 1024" for c
    by (auto simp: rnd_conv split: if_splits)
  consider "x = 0" | "0 < x" "0 \<le> a" | "x < 0" "b \<le> 0" using sign x by linarith
  then show ?thesis
  proof cases
    case 1
    then show ?thesis using x by (simp add: rnd_conv)
  next
    case 2
    have b: "rnd_val b = b" "b < pow2 1024" using big[OF hi] x 2 by auto
    have up: "rnd_val x \<le> b" using rnd_val_mono[OF 2(1) x(2)] b by simp
    have "a \<le> rnd_val x"
    proof (cases "a = 0")
      case True
      have "0 \<le> round_even (x / pow2 (rnd_exp x))"
        using round_even_mono[of 0 "x / pow2 (rnd_exp x)"] round_even_of_int[of 0] 2 by (simp add: less_imp_le)
      then show ?thesis using True by (simp add: rnd_val_def less_imp_le)
    next
      case False
      then show ?thesis using rnd_val_mono[OF _ x(1)] big[OF lo] 2 by auto
    qed
    then show ?thesis using 2 up b by (auto simp: rnd_conv)
  next
    case 3
    have a: "rnd_val (- a) = - a" "- a < pow2 1024" using big[OF lo] x 3 by auto
    have up: "rnd_val (- x) \<le> - a" using rnd_val_mono[of "- x" "- a"] 3 x a by simp
    have "- b \<le> rnd_val (- x)"
    proof (cases "b = 0")
      case True
      have "0 \<le> round_even (- x / pow2 (rnd_exp (- x)))"
        using round_even_mono[of 0 "- x / pow2 (rnd_exp (- x))"] round_even_of_int[of 0] 3
        by (simp add: less_imp_le divide_nonpos_pos)
      then show ?thesis using True by (simp add: rnd_val_def less_imp_le)
    next
      case False
      then show ?thesis using rnd_val_mono[of "- b" "- x"] big[OF hi] 3 x by auto
    qed
    then show ?thesis using 3 up a by (auto simp: rnd_conv)
  qed
qed

lemma rnd_whole_plus:
  assumes f: "\<bar>f\<bar> < 2 ^ 52" and e: "0 \<le> e" "e \<le> 1 / 2"
  shows "\<exists>v. rnd (of_int f + e) = Fin v \<and> of_int f \<le> v \<and> v \<le> of_int f + 1 / 2"
proof (rule rnd_between)
  show "rnd (of_int f) = Fin (of_int f)" using f by (intro rnd_of_int) simp
  show "rnd (of_int f + 1 / 2) = Fin (of_int f + 1 / 2)" by (rule rnd_half[OF f])
  show "0 \<le> (of_int f :: rat) \<or> of_int f + 1 / 2 \<le> (0 :: rat)"
  proof (cases "0 \<le> f")
    case False
    then have "(of_int f :: rat) \<le> of_int (- 1)" by (simp only: of_int_le_iff)
    then show ?thesis by simp
  qed simp
qed (use e in auto)

section \<open>Rounding quotients and evaluating\<close>

lemma rnd_dyadic:
  assumes n: "0 \<le> n" "n < 2 ^ 53" and t: "t \<le> 1074"
  shows "rnd (of_int n / 2 ^ t) = Fin (of_int n / 2 ^ t)"
proof (cases "n = 0")
  case False
  have e: "pow2 (- int t) = 1 / 2 ^ t" by (auto simp: pow2_def nat_add_distrib)
  have "of_int n / 2 ^ t \<le> (of_int n :: rat)" using n(1) mult_left_mono[of 1 "2 ^ t" "of_int n :: rat"] by (simp add: divide_le_eq)
  also have "\<dots> < of_int (2 ^ 53)" using n(2) by (simp only: of_int_less_iff)
  also have "\<dots> = pow2 53" by (simp add: pow2_def)
  also have "\<dots> < pow2 1024" by simp
  finally have "\<bar>of_int n / 2 ^ t :: rat\<bar> < pow2 1024" using n(1) by simp
  then show ?thesis
    using False n t by (intro rnd_representable[where m = n and e = "- int t"]) (auto simp: e)
qed (simp add: rnd_def)

lemma rnd_quotient_floor:
  fixes p :: rat and m :: int
  assumes lo: "of_int k \<le> p" and hi: "p \<le> of_int m - 1 / 2 ^ t"
    and km: "0 \<le> k" "k < 2 ^ 53" "0 < m" "m * 2 ^ t \<le> 2 ^ 53" and t: "t \<le> 1074"
  shows "\<exists>v. rnd p = Fin v \<and> of_int k \<le> v \<and> v \<le> of_int m - 1 / 2 ^ t"
proof -
  have "(of_int m - 1 / 2 ^ t :: rat) = of_int (m * 2 ^ t - 1) / 2 ^ t"
    by (simp add: field_simps)
  moreover have "0 \<le> m * 2 ^ t - 1" using km(3) by (simp add: mult_pos_pos[THEN zless_imp_add1_zle] less_eq_iff_succ_less int_one_le_iff_zero_less)
  ultimately have hi_ok: "rnd (of_int m - 1 / 2 ^ t) = Fin (of_int m - 1 / 2 ^ t)"
    using rnd_dyadic[of "m * 2 ^ t - 1" t] km t by simp
  have lo_ok: "rnd (of_int k) = Fin (of_int k)" using km by (intro rnd_of_int) simp
  show ?thesis using rnd_between[OF lo_ok hi_ok lo hi] km by simp
qed

lemma round_even_closest:
  assumes "\<bar>x - of_int m\<bar> < 1 / 2"
  shows "round_even x = m"
proof -
  have "(of_int (round_even x) :: rat) < of_int (m + 1)" "(of_int (m - 1) :: rat) < of_int (round_even x)"
    using round_even_near[of x] assms unfolding abs_less_iff by simp_all
  then show ?thesis by (simp only: of_int_less_iff) 
qed

lemma round_even_tie: "odd f \<Longrightarrow> round_even (of_int f + 1 / 2) = f + 1"
proof -
  have "\<lfloor>of_int f + 1 / 2 :: rat\<rfloor> = f" by (simp add: floor_eq_iff)
  then show "odd f \<Longrightarrow> round_even (of_int f + 1 / 2) = f + 1" by (simp add: round_even_def Let_def)
qed

lemma rnd_eval:
  assumes k: "pow2 k \<le> x" "x < pow2 (k + 1)" "- 1022 \<le> k" "k \<le> 1000"
    and m: "round_even (x / pow2 (k - 52)) = m" "m \<le> 2 ^ 53"
  shows "rnd x = Fin (of_int m * pow2 (k - 52))"
proof -
  have x: "0 < x" using k(1) pow2_pos[of k] by linarith
  have "(of_int m :: rat) \<le> of_int (2 ^ 53)" using m(2) by (simp only: of_int_le_iff)
  then have "of_int m * pow2 (k - 52) \<le> pow2 53 * pow2 (k - 52)" by (intro mult_right_mono) (auto simp: pow2_def)
  also have "\<dots> = pow2 (k + 1)" by (simp add: add.commute flip: pow2_add)
  also have "\<dots> < pow2 1024" using k(4) by simp
  finally have big: "of_int m * pow2 (k - 52) < pow2 1024" .
  have "max (k - 52) (- 1074) = k - 52" using k(3) by simp
  then show ?thesis
    using x m(1) ilog2_unique[OF k(1,2)] big by (simp add: rnd_def Let_def)
qed

lemma rnd_closest:
  assumes k: "pow2 k \<le> x" "x < pow2 (k + 1)" "- 1022 \<le> k" "k \<le> 1000"
    and m: "\<bar>x / pow2 (k - 52) - of_int m\<bar> < 1 / 2" "m \<le> 2 ^ 53"
  shows "rnd x = Fin (of_int m * pow2 (k - 52))"
  by (rule rnd_eval[OF k round_even_closest[OF m(1)] m(2)])

end
