(* ===== verification/Json.thy ===== *)
theory Json
  imports F64
begin

text \<open>
  The JSON values of \<^verbatim>\<open>serde_json\<close> as the sources use them. The crate is built
  without its insertion-order feature, so an object is a \<^verbatim>\<open>BTreeMap\<close>: an
  association list with ascending, distinct keys. Rendering a value as text is
  the library's and stays a parameter of the definitions that call it.
\<close>

datatype json_num = PosInt nat | NegInt int | Float f64

datatype json =
    JNull | JBool bool | JNum json_num | JStr string | JArr "json list" | JObj "(string \<times> json) list"

type_synonym jmap = "(string \<times> json) list"

text \<open>Text is ordered by its characters, as UTF-8 bytes are.\<close>

fun str_less :: "string \<Rightarrow> string \<Rightarrow> bool" where
  "str_less _ [] = False"
| "str_less [] (_ # _) = True"
| "str_less (a # as) (b # bs) =
     ((of_char a :: nat) < of_char b \<or> (a = b \<and> str_less as bs))"

fun jmap_insert :: "string \<Rightarrow> json \<Rightarrow> jmap \<Rightarrow> jmap" where
  "jmap_insert k v [] = [(k, v)]"
| "jmap_insert k v ((k', v') # m) =
     (if k = k' then (k, v) # m
      else if str_less k k' then (k, v) # (k', v') # m
      else (k', v') # jmap_insert k v m)"

definition jmap_get :: "jmap \<Rightarrow> string \<Rightarrow> json option" where
  "jmap_get m k = map_of m k"

definition jmap_sorted :: "jmap \<Rightarrow> bool" where
  "jmap_sorted m \<longleftrightarrow> sorted_wrt str_less (map fst m)"

lemma str_less_irrefl [simp]: "\<not> str_less s s"
  by (induction s) auto

lemma str_less_trans: "str_less a b \<Longrightarrow> str_less b c \<Longrightarrow> str_less a c"
proof (induction a b arbitrary: c rule: str_less.induct)
  case (3 x xs y ys)
  then show ?case by (cases c) auto
next
  case (2 b bs)
  then show ?case by (cases c) auto
qed simp

lemma str_less_total: "a \<noteq> b \<Longrightarrow> \<not> str_less a b \<Longrightarrow> str_less b a"
proof (induction a b rule: str_less.induct)
  case (1 a)
  then show ?case by (cases a) auto
next
  case (3 a as b bs)
  then show ?case by (cases "a = b") (auto simp: not_less_iff_gr_or_eq)
qed auto

lemma jmap_get_insert [simp]:
  "jmap_get (jmap_insert k v m) k' = (if k' = k then Some v else jmap_get m k')"
  by (induction m) (auto simp: jmap_get_def)

lemma jmap_insert_keys [simp]: "fst ` set (jmap_insert k v m) = insert k (fst ` set m)"
proof (induction m)
  case (Cons e m)
  then show ?case by (cases e) (simp add: insert_commute)
qed simp

lemma jmap_insert_sorted: "jmap_sorted m \<Longrightarrow> jmap_sorted (jmap_insert k v m)"
proof (induction m)
  case (Cons e m)
  obtain k' v' where [simp]: "e = (k', v')" by force
  have tl: "jmap_sorted m" and lt: "\<forall>x \<in> fst ` set m. str_less k' x"
    using Cons.prems by (auto simp: jmap_sorted_def)
  consider "k = k'" | "k \<noteq> k'" "str_less k k'" | "k \<noteq> k'" "\<not> str_less k k'" by blast
  then show ?case
  proof cases
    case 3
    then have "str_less k' k" using str_less_total by blast
    then have "\<forall>x \<in> fst ` set (jmap_insert k v m). str_less k' x" using lt by simp
    then show ?thesis
      using 3 Cons.IH[OF tl] by (auto simp: jmap_sorted_def)
  qed (use Cons.prems str_less_trans in \<open>auto simp: jmap_sorted_def\<close>)
qed (simp add: jmap_sorted_def)

end
