(* ===== verification/States.thy ===== *)
theory States
  imports Json
begin

text \<open>
  Run states (\<^verbatim>\<open>crates/core/src/state.rs\<close>): the nine state types, the thirteen
  named sub-states with the type each one fixes, and the state record a
  transition carries. The parsers are the source's: a search of the constant
  \<^verbatim>\<open>ALL\<close> table for the entry whose text is the input.
\<close>

datatype StateType =
    Scheduled | Pending | Running | Completed | Failed | Cancelled | Crashed | Paused | Cancelling

definition StateType_ALL :: "StateType list" where
  "StateType_ALL = [Scheduled, Pending, Running, Completed, Failed, Cancelled, Crashed, Paused, Cancelling]"

fun type_is_terminal :: "StateType \<Rightarrow> bool" where
  "type_is_terminal Completed = True"
| "type_is_terminal Failed = True"
| "type_is_terminal Cancelled = True"
| "type_is_terminal Crashed = True"
| "type_is_terminal _ = False"

fun StateType_as_str :: "StateType \<Rightarrow> string" where
  "StateType_as_str Scheduled = ''Scheduled''"
| "StateType_as_str Pending = ''Pending''"
| "StateType_as_str Running = ''Running''"
| "StateType_as_str Completed = ''Completed''"
| "StateType_as_str Failed = ''Failed''"
| "StateType_as_str Cancelled = ''Cancelled''"
| "StateType_as_str Crashed = ''Crashed''"
| "StateType_as_str Paused = ''Paused''"
| "StateType_as_str Cancelling = ''Cancelling''"

definition StateType_parse :: "string \<Rightarrow> StateType option" where
  "StateType_parse text = List.find (\<lambda>t. StateType_as_str t = text) StateType_ALL"

datatype StateName =
    Late | AwaitingRetry | AwaitingResource | Retrying | TimedOut | Cached | Replayed
  | Recovered | Skipped | Sleeping | AwaitingEvent | AwaitingTarget | InDoubt

definition StateName_ALL :: "StateName list" where
  "StateName_ALL = [Late, AwaitingRetry, AwaitingResource, Retrying, TimedOut, Cached, Replayed,
     Recovered, Skipped, Sleeping, AwaitingEvent, AwaitingTarget, InDoubt]"

fun name_state_type :: "StateName \<Rightarrow> StateType" where
  "name_state_type Late = Scheduled"
| "name_state_type AwaitingRetry = Scheduled"
| "name_state_type AwaitingResource = Scheduled"
| "name_state_type Retrying = Running"
| "name_state_type TimedOut = Failed"
| "name_state_type Cached = Completed"
| "name_state_type Replayed = Completed"
| "name_state_type Recovered = Completed"
| "name_state_type Skipped = Completed"
| "name_state_type Sleeping = Paused"
| "name_state_type AwaitingEvent = Paused"
| "name_state_type AwaitingTarget = Paused"
| "name_state_type InDoubt = Paused"

fun StateName_as_str :: "StateName \<Rightarrow> string" where
  "StateName_as_str Late = ''Late''"
| "StateName_as_str AwaitingRetry = ''AwaitingRetry''"
| "StateName_as_str AwaitingResource = ''AwaitingResource''"
| "StateName_as_str Retrying = ''Retrying''"
| "StateName_as_str TimedOut = ''TimedOut''"
| "StateName_as_str Cached = ''Cached''"
| "StateName_as_str Replayed = ''Replayed''"
| "StateName_as_str Recovered = ''Recovered''"
| "StateName_as_str Skipped = ''Skipped''"
| "StateName_as_str Sleeping = ''Sleeping''"
| "StateName_as_str AwaitingEvent = ''AwaitingEvent''"
| "StateName_as_str AwaitingTarget = ''AwaitingTarget''"
| "StateName_as_str InDoubt = ''InDoubt''"

definition StateName_parse :: "string \<Rightarrow> StateName option" where
  "StateName_parse text = List.find (\<lambda>n. StateName_as_str n = text) StateName_ALL"

record State =
  st_type :: StateType
  st_name :: string
  st_message :: "string option"
  st_details :: jmap
  st_timestamp :: micros

text \<open>Every constructor reads the clock once; \<open>now\<close> is what it returned.\<close>

definition State_new :: "micros \<Rightarrow> StateType \<Rightarrow> State" where
  "State_new now t = \<lparr> st_type = t, st_name = StateType_as_str t, st_message = None,
     st_details = [], st_timestamp = now \<rparr>"

definition State_named :: "micros \<Rightarrow> StateName \<Rightarrow> State" where
  "State_named now n = (State_new now (name_state_type n))\<lparr> st_name := StateName_as_str n \<rparr>"

definition State_from_parts ::
  "micros \<Rightarrow> StateType \<Rightarrow> string option \<Rightarrow> string option \<Rightarrow> jmap \<Rightarrow> State" where
  "State_from_parts now t name message details =
     (let (t', n') = (case (case name of Some n \<Rightarrow> if n = [] then None else Some n | None \<Rightarrow> None) of
          None \<Rightarrow> (t, StateType_as_str t)
        | Some n \<Rightarrow> (case StateName_parse n of
              Some sub \<Rightarrow> (name_state_type sub, StateName_as_str sub)
            | None \<Rightarrow> (t, n)))
      in \<lparr> st_type = t', st_name = n', st_message = message, st_details = details,
           st_timestamp = now \<rparr>)"

definition with_message :: "string \<Rightarrow> State \<Rightarrow> State" where
  "with_message m s = s\<lparr> st_message := Some m \<rparr>"

definition with_timestamp :: "micros \<Rightarrow> State \<Rightarrow> State" where
  "with_timestamp ts s = s\<lparr> st_timestamp := ts \<rparr>"

definition is_terminal :: "State \<Rightarrow> bool" where
  "is_terminal s = type_is_terminal (st_type s)"

definition is_completed :: "State \<Rightarrow> bool" where
  "is_completed s \<longleftrightarrow> st_type s = Completed"

section \<open>The tables are complete and the texts distinct\<close>

lemma StateType_ALL_complete [simp]: "t \<in> set StateType_ALL"
  by (cases t) (simp_all add: StateType_ALL_def)

lemma StateName_ALL_complete [simp]: "n \<in> set StateName_ALL"
  by (cases n) (simp_all add: StateName_ALL_def)

lemma distinct_tables: "distinct StateType_ALL" "distinct StateName_ALL"
  by (simp_all add: StateType_ALL_def StateName_ALL_def)

lemma StateType_as_str_inj [simp]: "StateType_as_str a = StateType_as_str b \<longleftrightarrow> a = b"
  by (cases a; cases b) simp_all

lemma StateName_as_str_inj [simp]: "StateName_as_str a = StateName_as_str b \<longleftrightarrow> a = b"
  by (cases a; cases b) simp_all

lemma names_are_not_types: "StateName_as_str n \<noteq> StateType_as_str t"
  by (cases n; cases t) simp_all

lemma StateType_parse_as_str [simp]: "StateType_parse (StateType_as_str t) = Some t"
  unfolding StateType_parse_def by (rule find_key_unique) auto

lemma StateName_parse_as_str [simp]: "StateName_parse (StateName_as_str n) = Some n"
  unfolding StateName_parse_def by (rule find_key_unique) auto

lemma StateType_parse_sound: "StateType_parse text = Some t \<Longrightarrow> StateType_as_str t = text"
  unfolding StateType_parse_def by (rule find_key_sound)

lemma StateName_parse_sound: "StateName_parse text = Some n \<Longrightarrow> StateName_as_str n = text"
  unfolding StateName_parse_def by (rule find_key_sound)

lemma StateName_parse_type [simp]: "StateName_parse (StateType_as_str t) = None"
  using StateName_parse_sound names_are_not_types by (cases "StateName_parse (StateType_as_str t)") blast+

text \<open>A state is well formed when its name, if it is that of a sub-state, has the sub-state's type.\<close>

definition wf_state :: "State \<Rightarrow> bool" where
  "wf_state s \<longleftrightarrow> st_name s \<noteq> [] \<and>
     (case StateName_parse (st_name s) of Some n \<Rightarrow> st_type s = name_state_type n | None \<Rightarrow> True)"


lemma as_str_nonempty [simp]: "StateName_as_str n \<noteq> []" "StateType_as_str t \<noteq> []"
  by (cases n; simp) (cases t; simp)

lemma wf_state_new [simp, intro]: "wf_state (State_new now t)"
  by (simp add: wf_state_def State_new_def)

lemma wf_state_named [simp, intro]: "wf_state (State_named now n)"
  by (simp add: wf_state_def State_named_def State_new_def)

lemma wf_state_from_parts [simp, intro]: "wf_state (State_from_parts now t name message details)"
  by (auto simp: wf_state_def State_from_parts_def split: option.splits)

section \<open>Properties\<close>

text \<open>The texts of state types and of sub-states parse back to exactly the value that prints them,
  and no text is both; so the two vocabularies a state name is drawn from do not overlap.\<close>

theorem state_text_roundtrip:
  "(StateType_parse text = Some t \<longleftrightarrow> text = StateType_as_str t)
   \<and> (StateName_parse text = Some n \<longleftrightarrow> text = StateName_as_str n)
   \<and> (StateType_parse text = None \<or> StateName_parse text = None)"
proof -
  have "StateType_parse text = None \<or> StateName_parse text = None"
    using StateType_parse_sound[of "text"] StateName_parse_sound[of "text"] names_are_not_types
    by (metis option.exhaust)
  then show ?thesis using StateType_parse_sound StateName_parse_sound by auto
qed

text \<open>A state built from the strings of a client is well formed whatever the client sent: its name
  is not empty, and a recognised sub-state name has forced its own type; any other name is kept.\<close>

theorem from_parts_well_formed:
  "let s = State_from_parts now t name message details in
     wf_state s
     \<and> (\<forall>n. name = Some (StateName_as_str n) \<longrightarrow> st_type s = name_state_type n \<and> st_name s = StateName_as_str n)
     \<and> (\<forall>k. name = Some k \<and> k \<noteq> [] \<and> StateName_parse k = None \<longrightarrow> st_type s = t \<and> st_name s = k)
     \<and> (name = None \<or> name = Some [] \<longrightarrow> st_type s = t \<and> st_name s = StateType_as_str t)"
  unfolding Let_def
  by (intro conjI allI impI wf_state_from_parts) (auto simp: State_from_parts_def)

theorem from_parts_well_formed_witness:
  "let s = State_from_parts 7 Running (Some ''TimedOut'') None [] in wf_state s \<and> st_type s = Failed"
  using from_parts_well_formed[of 7 Running "Some ''TimedOut''" None "[]"]
  by (simp add: Let_def State_from_parts_def StateName_parse_def StateName_ALL_def)

end
