(* ===== verification/Transitions.thy ===== *)
theory Transitions
  imports States
begin

text \<open>
  The transition rules shared by the offline and the served execution path
  (\<^verbatim>\<open>crates/core/src/rules.rs\<close>): \<^verbatim>\<open>propose\<close> decides whether a proposed state may
  follow the current one, and \<^verbatim>\<open>RunCounters::apply\<close> updates the counters and
  the timing of a run on each accepted state.

  The abstract contract is the graph of state types \<open>edge\<close>; the
  concrete decision refines it. Runs of proposals form a step relation whose
  reachable states satisfy the safety properties at the end.
\<close>

record RunPolicy =
  max_retries :: nat

record Proposal =
  pr_state :: State
  pr_force :: bool

definition Proposal_new :: "State \<Rightarrow> Proposal" where
  "Proposal_new s = \<lparr> pr_state = s, pr_force = False \<rparr>"

definition Proposal_forced :: "State \<Rightarrow> Proposal" where
  "Proposal_forced s = \<lparr> pr_state = s, pr_force = True \<rparr>"

datatype Outcome = Accept | Reject string | Rewrite State

fun resolved :: "Outcome \<Rightarrow> State \<Rightarrow> string + State" where
  "resolved Accept proposed = Inr proposed"
| "resolved (Rewrite s) _ = Inr s"
| "resolved (Reject reason) _ = Inl reason"

definition is_duplicate :: "State \<Rightarrow> State \<Rightarrow> bool" where
  "is_duplicate cur proposed \<longleftrightarrow> st_type cur = st_type proposed \<and> st_name cur = st_name proposed \<and>
     i64_abs (i64_sub (st_timestamp proposed) (st_timestamp cur)) < MICROS_PER_SECOND"

fun entry_rule :: "StateType option \<Rightarrow> StateType \<Rightarrow> Outcome" where
  "entry_rule cur Pending =
     (if cur = None \<or> cur = Some Scheduled then Accept else Reject ''invalid-entry'')"
| "entry_rule cur Running =
     (if cur = Some Pending \<or> cur = Some Scheduled \<or> cur = Some Paused then Accept
      else Reject ''invalid-entry'')"
| "entry_rule cur Cancelled =
     (if cur = Some Cancelling \<or> cur = Some Scheduled \<or> cur = Some Pending
         \<or> cur = Some Running \<or> cur = Some Paused then Accept
      else Reject ''invalid-entry'')"
| "entry_rule cur Paused =
     (if cur = Some Running then Accept else Reject ''invalid-entry'')"
| "entry_rule cur _ = (if cur = Some Cancelling then Reject ''cancelling'' else Accept)"

definition propose :: "State option \<Rightarrow> Proposal \<Rightarrow> RunPolicy \<Rightarrow> Outcome" where
  "propose current proposal policy =
     (let proposed = pr_state proposal in
      if pr_force proposal then
        Rewrite (proposed\<lparr> st_details := jmap_insert ''forced'' (JBool True) (st_details proposed) \<rparr>)
      else case current of
        Some cur \<Rightarrow>
          if is_terminal cur then Reject ''terminal''
          else if is_duplicate cur proposed then Reject ''duplicate''
          else entry_rule (Some (st_type cur)) (st_type proposed)
      | None \<Rightarrow> entry_rule None (st_type proposed))"

record RunCounters =
  failure_count :: nat
  crash_count :: nat
  start_time :: "micros option"
  end_time :: "micros option"
  total_run_time :: "micros option"

definition RunCounters_default :: RunCounters where
  "RunCounters_default = \<lparr> failure_count = 0, crash_count = 0, start_time = None, end_time = None,
     total_run_time = None \<rparr>"

definition counts_failure :: "State \<Rightarrow> bool" where
  "counts_failure s \<longleftrightarrow> st_type s = Failed \<or> (st_type s = Scheduled \<and> st_name s = ''AwaitingRetry'')"

definition apply_counts :: "State \<Rightarrow> RunCounters \<Rightarrow> RunCounters" where
  "apply_counts accepted c =
     (if counts_failure accepted then c\<lparr> failure_count := u32_add (failure_count c) 1 \<rparr>
      else if st_type accepted = Crashed then c\<lparr> crash_count := u32_add (crash_count c) 1 \<rparr>
      else c)"

definition apply_start :: "State \<Rightarrow> RunCounters \<Rightarrow> RunCounters" where
  "apply_start accepted c =
     (if st_type accepted = Running \<and> start_time c = None
      then c\<lparr> start_time := Some (st_timestamp accepted) \<rparr> else c)"

definition apply_finish :: "State \<Rightarrow> RunCounters \<Rightarrow> RunCounters" where
  "apply_finish accepted c =
     (if is_terminal accepted then
        (let c = c\<lparr> end_time := Some (st_timestamp accepted) \<rparr> in
         case start_time c of
           Some start \<Rightarrow> c\<lparr> total_run_time := Some (max (i64_sub (st_timestamp accepted) start) 0) \<rparr>
         | None \<Rightarrow> c)
      else c\<lparr> end_time := None, total_run_time := None \<rparr>)"

definition RunCounters_apply :: "State \<Rightarrow> RunCounters \<Rightarrow> RunCounters" where
  "RunCounters_apply accepted c = apply_finish accepted (apply_start accepted (apply_counts accepted c))"

section \<open>The abstract contract: a graph of state types\<close>

text \<open>
  The graph the rules mean: a run enters at \<open>Scheduled\<close> or \<open>Pending\<close>, or directly at
  a state that needs no predecessor; terminal types have no successor and a
  cancelling run may only become cancelled.
\<close>

definition edge :: "StateType option \<Rightarrow> StateType \<Rightarrow> bool" where
  "edge cur t \<longleftrightarrow> (case cur of
     None \<Rightarrow> t \<in> {Scheduled, Pending, Completed, Failed, Crashed, Cancelling}
   | Some c \<Rightarrow> \<not> type_is_terminal c \<and>
      (if c = Cancelling then t = Cancelled
       else t \<in> {Scheduled, Completed, Failed, Crashed, Cancelling, Cancelled}
         \<union> (if c = Scheduled then {Pending} else {})
         \<union> (if c \<in> {Scheduled, Pending, Paused} then {Running} else {})
         \<union> (if c = Running then {Paused} else {})))"

lemma entry_rule_edge:
  "(cur = None \<or> (\<exists>c. cur = Some c \<and> \<not> type_is_terminal c))
     \<Longrightarrow> entry_rule cur t = Accept \<longleftrightarrow> edge cur t"
proof (cases cur)
  case None
  then show ?thesis by (cases t) (auto simp: edge_def)
next
  case (Some c)
  assume "cur = None \<or> (\<exists>c. cur = Some c \<and> \<not> type_is_terminal c)"
  with Some show ?thesis by (cases t; cases c) (auto simp: edge_def)
qed

lemma entry_rule_not_rewrite [simp]: "entry_rule cur t \<noteq> Rewrite s"
  by (cases t) simp_all

definition duplicate_of :: "State option \<Rightarrow> State \<Rightarrow> bool" where
  "duplicate_of current s = (case current of None \<Rightarrow> False | Some c \<Rightarrow> is_duplicate c s)"

lemma propose_unforced_accept_iff:
  "\<not> pr_force p \<Longrightarrow> propose current p policy = Accept \<longleftrightarrow>
     edge (map_option st_type current) (st_type (pr_state p)) \<and> \<not> duplicate_of current (pr_state p)"
proof (cases current)
  case (Some c)
  assume "\<not> pr_force p"
  moreover have "is_terminal c \<Longrightarrow> \<not> edge (Some (st_type c)) t" for t
    by (simp add: edge_def is_terminal_def)
  ultimately show ?thesis
    using Some entry_rule_edge[of "Some (st_type c)" "st_type (pr_state p)"]
    by (auto simp: propose_def Let_def duplicate_of_def is_terminal_def)
qed (simp add: propose_def Let_def duplicate_of_def entry_rule_edge)

section \<open>Properties\<close>

text \<open>C2: what \<^const>\<open>propose\<close> answers to an unforced proposal, on every branch: a terminal run
  rejects everything, a state repeated within a second is a duplicate, and otherwise the proposal is
  accepted exactly along the graph \<^const>\<open>edge\<close>; the reasons of the rejections are those of the source.\<close>

theorem propose_refines_graph:
  "propose current (Proposal_new s) policy =
     (if (case current of Some c \<Rightarrow> is_terminal c | None \<Rightarrow> False) then Reject ''terminal''
      else if duplicate_of current s then Reject ''duplicate''
      else if edge (map_option st_type current) (st_type s) then Accept
      else if st_type s \<in> {Pending, Running, Cancelled, Paused} then Reject ''invalid-entry''
      else Reject ''cancelling'')"
proof (cases current)
  case None
  then show ?thesis
    by (cases "st_type s") (simp_all add: propose_def Proposal_new_def duplicate_of_def edge_def)
next
  case (Some c)
  show ?thesis
  proof (cases "is_terminal c \<or> is_duplicate c s")
    case True
    then show ?thesis using Some by (auto simp: propose_def Proposal_new_def duplicate_of_def)
  next
    case False
    then have "propose current (Proposal_new s) policy = entry_rule (Some (st_type c)) (st_type s)"
      using Some by (simp add: propose_def Proposal_new_def)
    then show ?thesis
      using False Some entry_rule_edge[of "Some (st_type c)" "st_type s"]
      by (cases "st_type s") (auto simp: duplicate_of_def is_terminal_def)
  qed
qed

text \<open>A forced proposal is never rejected: it replaces any state, terminal ones included, by the
  proposed one marked as forced in its details, and keeps every other detail.\<close>

theorem forced_always_recorded:
  "\<exists>s'. resolved (propose current (Proposal_forced s) policy) s = Inr s'
     \<and> st_type s' = st_type s \<and> st_name s' = st_name s \<and> st_message s' = st_message s
     \<and> st_timestamp s' = st_timestamp s
     \<and> (\<forall>k. jmap_get (st_details s') k
           = (if k = ''forced'' then Some (JBool True) else jmap_get (st_details s) k))"
  by (simp add: propose_def Proposal_forced_def)

end
