(* ===== verification/Store_Runs.thy ===== *)
theory Store_Runs
  imports Transitions
begin

text \<open>
  The run and task-run tables of the store (\<^verbatim>\<open>crates/store/src/writer.rs\<close>,
  \<^verbatim>\<open>row.rs\<close>): the writer thread owns the connection and executes one command at a
  time under a savepoint, so a command that returns an error leaves the
  database as it was; here such a command is an \<^const>\<open>Inl\<close> and the caller keeps its
  state. A row keeps its state columns as SQL has them (each may be NULL); a JSON
  column holds the value its text denotes. The history table of a row is the
  list of its states, oldest first.
\<close>

datatype Table = RunTable | TaskRunTable

fun not_found :: "Table \<Rightarrow> string" where
  "not_found RunTable = ''run''"
| "not_found TaskRunTable = ''task run''"

datatype StoreError =
    RejectedWith string "State option"
  | NotFound string
  | UniqueConflict int
  | Sqlite string

record Row =
  row_id :: int
  row_external_id :: string
  row_name :: string
  row_parameters :: string
  row_tags :: string
  row_created_by :: string
  col_state_type :: "string option"
  col_state_name :: "string option"
  col_state_message :: "string option"
  col_state_details :: jmap
  col_state_timestamp :: "micros option"
  col_counters :: RunCounters
  row_history :: "State list"
  row_result_ref :: "string option"
  row_input_hash :: "string option"
  row_unique_key :: "string option"
  row_created_at :: micros
  row_flow_id :: int
  row_schedule_id :: "int option"
  row_scheduled_time :: "micros option"
  row_priority :: int
  row_parent :: "int option"
  row_attempt :: int
  row_backfill_id :: "int option"
  row_attributes :: jmap
  row_engine_pid :: "int option"
  row_engine_id :: "string option"
  row_report_seq :: int
  row_host :: "string option"
  row_processor :: "int option"
  row_lease :: int
  row_source_hash :: "string option"

record Db =
  db_runs :: "Row list"
  db_tasks :: "Row list"

definition table_rows :: "Table \<Rightarrow> Db \<Rightarrow> Row list" where
  "table_rows t db = (case t of RunTable \<Rightarrow> db_runs db | TaskRunTable \<Rightarrow> db_tasks db)"

definition set_table_rows :: "Table \<Rightarrow> Row list \<Rightarrow> Db \<Rightarrow> Db" where
  "set_table_rows t rows db =
     (case t of RunTable \<Rightarrow> db\<lparr> db_runs := rows \<rparr> | TaskRunTable \<Rightarrow> db\<lparr> db_tasks := rows \<rparr>)"

definition state_from_columns ::
  "string option \<Rightarrow> string option \<Rightarrow> string option \<Rightarrow> jmap \<Rightarrow> micros option \<Rightarrow> State option" where
  "state_from_columns ty name message details ts =
     (case ty of None \<Rightarrow> None
      | Some text \<Rightarrow> (case StateType_parse text of
          None \<Rightarrow> None
        | Some t \<Rightarrow> Some \<lparr> st_type = t,
            st_name = (case name of Some n \<Rightarrow> n | None \<Rightarrow> StateType_as_str t),
            st_message = message, st_details = details,
            st_timestamp = (case ts of Some x \<Rightarrow> x | None \<Rightarrow> 0) \<rparr>))"

definition row_state :: "Row \<Rightarrow> State option" where
  "row_state r = state_from_columns (col_state_type r) (col_state_name r) (col_state_message r)
     (col_state_details r) (col_state_timestamp r)"

definition RunPolicy_default :: RunPolicy where
  "RunPolicy_default = \<lparr> max_retries = 0 \<rparr>"

text \<open>The \<^verbatim>\<open>UPDATE\<close> of the main table and the \<^verbatim>\<open>INSERT\<close> into its history.\<close>

definition write_state :: "State \<Rightarrow> RunCounters \<Rightarrow> Row \<Rightarrow> Row" where
  "write_state s c r = r\<lparr> col_state_type := Some (StateType_as_str (st_type s)),
     col_state_name := Some (st_name s), col_state_message := st_message s,
     col_state_details := st_details s, col_state_timestamp := Some (st_timestamp s),
     col_counters := c, row_history := row_history r @ [s] \<rparr>"

fun jobject :: "json \<Rightarrow> jmap option" where
  "jobject (JObj m) = Some m"
| "jobject _ = None"

fun jstr :: "json \<Rightarrow> string option" where
  "jstr (JStr s) = Some s"
| "jstr _ = None"

text \<open>The checkpoint columns a task run's state may carry in its details.\<close>

definition write_checkpoint :: "Table \<Rightarrow> State \<Rightarrow> Row \<Rightarrow> Row" where
  "write_checkpoint t s r =
     (if t = TaskRunTable then
        case Option.bind (jmap_get (st_details s) ''checkpoint'') jobject of
          Some cp \<Rightarrow>
            (case (Option.bind (jmap_get cp ''result_ref'') jstr, Option.bind (jmap_get cp ''input_hash'') jstr) of
               (Some reference, Some hash) \<Rightarrow> r\<lparr> row_result_ref := Some reference, row_input_hash := Some hash \<rparr>
             | _ \<Rightarrow> r)
        | None \<Rightarrow> r
      else r)"

definition transition_row :: "Table \<Rightarrow> State \<Rightarrow> bool \<Rightarrow> Row \<Rightarrow> StoreError + State \<times> Row" where
  "transition_row t state force r =
     (let current = row_state r;
          proposal = \<lparr> pr_state = state, pr_force = force \<rparr>
      in case resolved (propose current proposal RunPolicy_default) (pr_state proposal) of
           Inl reason \<Rightarrow> Inl (RejectedWith reason current)
         | Inr accepted \<Rightarrow>
             Inr (accepted, write_checkpoint t accepted
                    (write_state accepted (RunCounters_apply accepted (col_counters r)) r)))"

definition transition :: "Table \<Rightarrow> int \<Rightarrow> State \<Rightarrow> bool \<Rightarrow> Db \<Rightarrow> StoreError + State \<times> Db" where
  "transition t i state force db =
     (case List.find (\<lambda>r. row_id r = i) (table_rows t db) of
        None \<Rightarrow> Inl (NotFound (not_found t))
      | Some r \<Rightarrow>
         (case transition_row t state force r of
            Inl e \<Rightarrow> Inl e
          | Inr (accepted, r') \<Rightarrow>
              Inr (accepted, set_table_rows t
                     (map (\<lambda>x. if row_id x = i then r' else x) (table_rows t db)) db)))"

record UniqueCheck =
  uc_key :: string
  uc_states :: "string list"
  uc_since :: "micros option"

record CreateRun =
  cr_flow_id :: int
  cr_name :: string
  cr_parameters :: string
  cr_tags :: string
  cr_created_by :: string
  cr_initial_state :: "State option"
  cr_schedule_id :: "int option"
  cr_scheduled_time :: "micros option"
  cr_priority :: int
  cr_parent :: "int option"
  cr_attempt :: int
  cr_backfill_id :: "int option"
  cr_unique :: "UniqueCheck option"

text \<open>The rows the uniqueness query selects; \<^verbatim>\<open>ORDER BY id DESC LIMIT 1\<close> takes the one of greatest id.\<close>

definition unique_match :: "UniqueCheck \<Rightarrow> Row \<Rightarrow> bool" where
  "unique_match u r \<longleftrightarrow> row_unique_key r = Some (uc_key u)
     \<and> (uc_states u = [] \<or> (\<exists>t \<in> set (uc_states u). col_state_type r = Some t))
     \<and> (case uc_since u of None \<Rightarrow> True | Some since \<Rightarrow> since \<le> row_created_at r)"

definition latest_match :: "UniqueCheck \<Rightarrow> Row list \<Rightarrow> int option" where
  "latest_match u rows =
     (case map row_id (filter (unique_match u) rows) of
        [] \<Rightarrow> None
      | i # is \<Rightarrow> Some (fold max is i))"

definition next_rowid :: "Row list \<Rightarrow> int" where
  "next_rowid rows = (case map row_id rows of [] \<Rightarrow> 1 | i # is \<Rightarrow> fold max is i + 1)"

text \<open>\<open>ext\<close> is the identifier \<^verbatim>\<open>new_id()\<close> returned, \<open>now\<close> the clock's value.\<close>

definition new_row :: "int \<Rightarrow> string \<Rightarrow> micros \<Rightarrow> CreateRun \<Rightarrow> Row" where
  "new_row i ext now r = \<lparr> row_id = i, row_external_id = ext, row_name = cr_name r,
     row_parameters = cr_parameters r, row_tags = cr_tags r, row_created_by = cr_created_by r, col_state_type = None, col_state_name = None,
     col_state_message = None, col_state_details = [], col_state_timestamp = None,
     col_counters = RunCounters_default, row_history = [], row_result_ref = None,
     row_input_hash = None, row_unique_key = map_option uc_key (cr_unique r),
     row_created_at = now, row_flow_id = cr_flow_id r, row_schedule_id = cr_schedule_id r,
     row_scheduled_time = cr_scheduled_time r, row_priority = cr_priority r,
     row_parent = cr_parent r, row_attempt = cr_attempt r, row_backfill_id = cr_backfill_id r,
     row_attributes = [], row_engine_pid = None, row_engine_id = None, row_report_seq = 0, row_host = None,
     row_processor = None, row_lease = 0, row_source_hash = None \<rparr>"

text \<open>
  The partial unique index of \<^verbatim>\<open>0011_unique_schedule_fire.sql\<close>: one run per fire of a
  schedule; the \<^verbatim>\<open>INSERT\<close> of a second one fails. The flow exists (a foreign key)
  and the new external identifier is fresh.
\<close>

definition fire_taken :: "int option \<Rightarrow> micros option \<Rightarrow> Row list \<Rightarrow> bool" where
  "fire_taken sid fire rows \<longleftrightarrow> sid \<noteq> None \<and> fire \<noteq> None
     \<and> (\<exists>r \<in> set rows. row_schedule_id r = sid \<and> row_scheduled_time r = fire)"

definition insert_run :: "string \<Rightarrow> micros \<Rightarrow> CreateRun \<Rightarrow> Db \<Rightarrow> StoreError + int \<times> Db" where
  "insert_run ext now r db =
     (let i = next_rowid (db_runs db);
          db' = db\<lparr> db_runs := db_runs db @ [new_row i ext now r] \<rparr>
      in if fire_taken (cr_schedule_id r) (cr_scheduled_time r) (db_runs db)
         then Inl (Sqlite ''UNIQUE constraint failed: run.schedule_id, run.scheduled_time'')
         else case cr_initial_state r of
           None \<Rightarrow> Inr (i, db')
         | Some s \<Rightarrow>
            (case transition RunTable i s False db' of
               Inl e \<Rightarrow> Inl e
             | Inr (_, db'') \<Rightarrow> Inr (i, db'')))"

definition create_run :: "string \<Rightarrow> micros \<Rightarrow> CreateRun \<Rightarrow> Db \<Rightarrow> StoreError + int \<times> Db" where
  "create_run ext now r db =
     (case cr_unique r of
        None \<Rightarrow> insert_run ext now r db
      | Some check \<Rightarrow>
         (case latest_match check (db_runs db) of
            Some existing \<Rightarrow> Inl (UniqueConflict existing)
          | None \<Rightarrow> insert_run ext now r db))"

text \<open>
  The writer executes one command after the other; a command that fails is
  rolled back to its savepoint.
\<close>

datatype WriteCommand =
    CreateRunCmd string micros CreateRun
  | TransitionCmd Table int State bool

fun execute :: "WriteCommand \<Rightarrow> Db \<Rightarrow> Db" where
  "execute (CreateRunCmd ext now r) db = (case create_run ext now r db of Inl _ \<Rightarrow> db | Inr (_, db') \<Rightarrow> db')"
| "execute (TransitionCmd t i s force) db = (case transition t i s force db of Inl _ \<Rightarrow> db | Inr (_, db') \<Rightarrow> db')"

definition empty_db :: Db where
  "empty_db = \<lparr> db_runs = [], db_tasks = [] \<rparr>"

section \<open>The counters are a function of the history\<close>

definition counters_of :: "State list \<Rightarrow> RunCounters" where
  "counters_of h =
     (let start = map_option st_timestamp (List.find (\<lambda>s. st_type s = Running) h);
          ended = h \<noteq> [] \<and> is_terminal (last h)
      in \<lparr> failure_count = length (filter counts_failure h) mod 2 ^ 32,
           crash_count = length (filter (\<lambda>s. st_type s = Crashed) h) mod 2 ^ 32,
           start_time = start,
           end_time = (if ended then Some (st_timestamp (last h)) else None),
           total_run_time = (if ended then map_option (\<lambda>t. max (i64_sub (st_timestamp (last h)) t) 0) start
                             else None) \<rparr>)"

lemma find_append: "List.find P (xs @ ys) = (case List.find P xs of None \<Rightarrow> List.find P ys | Some x \<Rightarrow> Some x)"
  by (induction xs) auto

lemma u32_Suc: "u32_add (n mod 4294967296) (Suc 0) = Suc n mod 4294967296"
  by (simp add: u32_add_def mod_Suc_eq)

lemma not_crashed_and_failure: "counts_failure s \<Longrightarrow> st_type s \<noteq> Crashed"
  by (auto simp: counts_failure_def)

lemma Running_not_terminal: "st_type s = Running \<Longrightarrow> \<not> is_terminal s"
  by (simp add: is_terminal_def)

lemma apply_counts_of:
  "apply_counts s (counters_of h) = (counters_of h)\<lparr>
     failure_count := length (filter counts_failure (h @ [s])) mod 2 ^ 32,
     crash_count := length (filter (\<lambda>s. st_type s = Crashed) (h @ [s])) mod 2 ^ 32 \<rparr>"
  using not_crashed_and_failure[of s]
  by (auto simp: apply_counts_def counters_of_def Let_def u32_Suc)

lemma RunCounters_apply_snoc: "RunCounters_apply s (counters_of h) = counters_of (h @ [s])"
proof (cases "List.find (\<lambda>s. st_type s = Running) h")
  case None
  then show ?thesis
    using Running_not_terminal[of s]
    by (simp add: RunCounters_apply_def apply_counts_of)
       (auto simp: counters_of_def Let_def apply_start_def apply_finish_def find_append)
next
  case (Some r)
  then show ?thesis
    by (simp add: RunCounters_apply_def apply_counts_of)
       (auto simp: counters_of_def Let_def apply_start_def apply_finish_def find_append)
qed

section \<open>Rows that transitions produce\<close>

definition forced :: "State \<Rightarrow> bool" where
  "forced s \<longleftrightarrow> jmap_get (st_details s) ''forced'' = Some (JBool True)"

text \<open>Each recorded state follows the one before it along the graph, or carries the forced mark.\<close>

definition may_follow :: "State option \<Rightarrow> State \<Rightarrow> bool" where
  "may_follow cur s \<longleftrightarrow> forced s \<or> (edge (map_option st_type cur) (st_type s) \<and> \<not> duplicate_of cur s)"

fun linked :: "State option \<Rightarrow> State list \<Rightarrow> bool" where
  "linked _ [] = True"
| "linked cur (s # h) \<longleftrightarrow> may_follow cur s \<and> linked (Some s) h"

definition last_state :: "State list \<Rightarrow> State option" where
  "last_state h = (if h = [] then None else Some (last h))"

definition row_ok :: "Row \<Rightarrow> bool" where
  "row_ok r \<longleftrightarrow> row_state r = last_state (row_history r)
     \<and> col_counters r = counters_of (row_history r)
     \<and> linked None (row_history r)"

lemma linked_snoc:
  "linked cur (h @ [s]) \<longleftrightarrow> linked cur h \<and> may_follow (if h = [] then cur else Some (last h)) s"
  by (induction h arbitrary: cur) auto

lemma row_state_write [simp]: "row_state (write_state s c r) = Some s"
  by (simp add: row_state_def write_state_def state_from_columns_def)

lemma write_state_fields [simp]:
  "row_history (write_state s c r) = row_history r @ [s]"
  "col_counters (write_state s c r) = c"
  "row_id (write_state s c r) = row_id r"
  "row_unique_key (write_state s c r) = row_unique_key r"
  "row_created_at (write_state s c r) = row_created_at r"
  "col_state_type (write_state s c r) = Some (StateType_as_str (st_type s))"
  by (simp_all add: write_state_def)

lemma write_checkpoint_fields [simp]:
  "row_history (write_checkpoint t s r) = row_history r"
  "col_counters (write_checkpoint t s r) = col_counters r"
  "row_state (write_checkpoint t s r) = row_state r"
  "row_id (write_checkpoint t s r) = row_id r"
  "row_unique_key (write_checkpoint t s r) = row_unique_key r"
  "row_created_at (write_checkpoint t s r) = row_created_at r"
  "col_state_type (write_checkpoint t s r) = col_state_type r"
  by (auto simp: write_checkpoint_def row_state_def split: option.splits)

lemma unforced_resolved:
  assumes "\<not> pr_force p" "resolved (propose cur p policy) (pr_state p) = Inr s"
  shows "propose cur p policy = Accept" "s = pr_state p"
proof -
  have "propose cur p policy \<noteq> Rewrite x" for x
    using assms(1) by (auto simp: propose_def Let_def split: option.splits if_splits)
  then show "propose cur p policy = Accept" "s = pr_state p"
    using assms(2) by (cases "propose cur p policy"; simp)+
qed

lemma propose_resolved_follow:
  assumes "resolved (propose cur p policy) (pr_state p) = Inr s"
  shows "may_follow cur s"
proof (cases "pr_force p")
  case True
  then show ?thesis using assms by (auto simp: propose_def Let_def may_follow_def forced_def)
next
  case False
  then show ?thesis
    using propose_unforced_accept_iff[OF False] unforced_resolved[OF False assms] by (simp add: may_follow_def)
qed

lemma transition_row_unforced:
  assumes "transition_row t state False r = Inr (s, r')"
  shows "s = state" "row_unique_key r' = row_unique_key r"
  using assms unforced_resolved(2)[of "\<lparr>pr_state = state, pr_force = False\<rparr>" "row_state r" RunPolicy_default s]
  by (auto simp: transition_row_def Let_def split: sum.splits)

lemma transition_row_Inr:
  assumes "transition_row t state force r = Inr (s, r')"
  shows "may_follow (row_state r) s" "row_state r' = Some s" "row_history r' = row_history r @ [s]"
    "col_counters r' = RunCounters_apply s (col_counters r)" "row_id r' = row_id r"
  using assms propose_resolved_follow[of "row_state r" "\<lparr>pr_state = state, pr_force = force\<rparr>" RunPolicy_default s]
  by (auto simp: transition_row_def Let_def split: sum.splits)

lemma transition_row_ok [inv_intros]:
  assumes "row_ok r" "transition_row t state force r = Inr (s, r')"
  shows "row_ok r'"
  using assms(1) transition_row_Inr[OF assms(2)]
  by (auto simp: row_ok_def last_state_def RunCounters_apply_snoc linked_snoc)

lemma new_row_ok [inv_intros]: "row_ok (new_row i ext now r)"
  by (simp add: row_ok_def new_row_def row_state_def state_from_columns_def last_state_def
      counters_of_def RunCounters_default_def)

definition db_ok :: "Db \<Rightarrow> bool" where
  "db_ok db \<longleftrightarrow> (\<forall>r \<in> set (db_runs db) \<union> set (db_tasks db). row_ok r)
     \<and> distinct (map row_id (db_runs db)) \<and> distinct (map row_id (db_tasks db))"

lemma table_set [simp]:
  "table_rows t (set_table_rows t rows db) = rows"
  "t \<noteq> t' \<Longrightarrow> table_rows t (set_table_rows t' rows db) = table_rows t db"
  by (cases t; cases t'; simp add: table_rows_def set_table_rows_def)+

lemma db_ok_tables: "db_ok db \<longleftrightarrow> (\<forall>t. (\<forall>r \<in> set (table_rows t db). row_ok r) \<and> distinct (map row_id (table_rows t db)))"
proof -
  have all: "(\<forall>t. P t) \<longleftrightarrow> P RunTable \<and> P TaskRunTable" for P
    by (metis (full_types) Table.exhaust)
  show ?thesis
    by (simp add: all db_ok_def table_rows_def ball_Un conj_ac)
qed

lemma transition_Inr:
  assumes "transition t i state force db = Inr (s, db')"
  obtains r r' where "r \<in> set (table_rows t db)" "row_id r = i"
    "transition_row t state force r = Inr (s, r')"
    "db' = set_table_rows t (map (\<lambda>x. if row_id x = i then r' else x) (table_rows t db)) db"
proof -
  obtain r where f: "List.find (\<lambda>r. row_id r = i) (table_rows t db) = Some r"
    using assms by (auto simp: transition_def split: option.splits)
  moreover obtain r' where "transition_row t state force r = Inr (s, r')"
      "db' = set_table_rows t (map (\<lambda>x. if row_id x = i then r' else x) (table_rows t db)) db"
    using assms f by (auto simp: transition_def split: sum.splits)
  ultimately show ?thesis using find_mem[OF f] that by blast
qed

lemma transition_db_ok [inv_intros]:
  assumes "db_ok db" "transition t i state force db = Inr (s, db')"
  shows "db_ok db'"
proof -
  obtain r r' where r: "r \<in> set (table_rows t db)" "row_id r = i"
      "transition_row t state force r = Inr (s, r')"
    and db': "db' = set_table_rows t (map (\<lambda>x. if row_id x = i then r' else x) (table_rows t db)) db"
    by (rule transition_Inr[OF assms(2)])
  have ok: "row_ok r'" using assms(1) r(1) transition_row_ok[OF _ r(3)] by (simp add: db_ok_tables)
  have ids: "map row_id (map (\<lambda>x. if row_id x = i then r' else x) rows) = map row_id rows" for rows
    using r(2) transition_row_Inr(5)[OF r(3)] by simp
  show ?thesis
    unfolding db_ok_tables
  proof
    fix u
    show "(\<forall>r \<in> set (table_rows u db'). row_ok r) \<and> distinct (map row_id (table_rows u db'))"
    proof (cases "u = t")
      case True
      then have "map row_id (table_rows u db') = map row_id (table_rows t db)"
        by (simp only: db' table_set ids)
      then show ?thesis
        using assms(1) ok True by (auto simp: db_ok_tables) (auto simp: db')
    next
      case False
      then show ?thesis using assms(1) by (simp add: db' db_ok_tables)
    qed
  qed
qed

lemma fold_max_upper: "x \<in> set (i # is) \<Longrightarrow> x \<le> fold max is (i::int)"
proof (induction "is" arbitrary: i x)
  case (Cons j "is")
  have "max j i \<le> fold max is (max j i)" by (rule Cons.IH) simp
  moreover have "y \<le> fold max is (max j i)" if "y \<in> set is" for y
    using that by (intro Cons.IH) simp
  ultimately show ?case using Cons.prems by auto
qed simp

lemma fold_max_mem: "fold max is (i::int) \<in> set (i # is)"
  by (induction "is" arbitrary: i) (auto simp: max_def)

section \<open>Creating runs\<close>

lemma next_rowid_fresh: "r \<in> set rows \<Longrightarrow> row_id r < next_rowid rows"
proof -
  assume r: "r \<in> set rows"
  obtain i "is" where m: "map row_id rows = i # is"
    using r by (cases "map row_id rows") auto
  then have "row_id r \<in> set (i # is)" using r by (metis imageI set_map)
  then have "row_id r \<le> fold max is i" by (rule fold_max_upper)
  then show ?thesis by (simp add: next_rowid_def m)
qed

lemma latest_match_None: "latest_match u rows = None \<longleftrightarrow> (\<forall>r \<in> set rows. \<not> unique_match u r)"
proof -
  have "latest_match u rows = None \<longleftrightarrow> filter (unique_match u) rows = []"
    by (cases "filter (unique_match u) rows") (simp_all add: latest_match_def)
  then show ?thesis by (simp add: filter_empty_conv)
qed

lemma latest_match_Some:
  assumes "latest_match u rows = Some i"
  shows "\<exists>r \<in> set rows. unique_match u r \<and> row_id r = i"
    "r \<in> set rows \<Longrightarrow> unique_match u r \<Longrightarrow> row_id r \<le> i"
proof -
  obtain j js where m: "map row_id (filter (unique_match u) rows) = j # js" and i: "i = fold max js j"
    using assms by (auto simp: latest_match_def split: list.splits)
  have S: "set (j # js) = row_id ` {r \<in> set rows. unique_match u r}"
    by (simp flip: m)
  show "\<exists>r \<in> set rows. unique_match u r \<and> row_id r = i"
    using fold_max_mem[of js j] unfolding S i by auto
  assume "r \<in> set rows" "unique_match u r"
  then have "row_id r \<in> set (j # js)" unfolding S by auto
  then show "row_id r \<le> i" unfolding i by (rule fold_max_upper)
qed

lemma add_row_db_ok:
  "db_ok db \<Longrightarrow> db_ok (db\<lparr> db_runs := db_runs db @ [new_row (next_rowid (db_runs db)) ext now r] \<rparr>)"
  using next_rowid_fresh[of _ "db_runs db"] new_row_ok
  by (fastforce simp: db_ok_def new_row_def)

lemma insert_run_Inr:
  assumes "insert_run ext now r db = Inr (i, db')"
  shows "i = next_rowid (db_runs db)"
    "\<exists>new. db_runs db' = db_runs db @ [new] \<and> row_id new = i
        \<and> row_unique_key new = map_option uc_key (cr_unique r)
        \<and> (case cr_initial_state r of None \<Rightarrow> row_state new = None | Some s \<Rightarrow> row_state new = Some s)"
    "db_tasks db' = db_tasks db"
proof -
  let ?i = "next_rowid (db_runs db)"
  let ?row = "new_row ?i ext now r"
  let ?db = "db\<lparr> db_runs := db_runs db @ [?row] \<rparr>"
  show i: "i = ?i"
    using assms by (auto simp: insert_run_def Let_def split: option.splits sum.splits if_splits)
  have fresh: "map (\<lambda>x. if row_id x = ?i then r' else x) (db_runs db) = db_runs db" for r'
    using next_rowid_fresh[of _ "db_runs db"] by (intro map_idI) fastforce
  have props: "row_id ?row = ?i" "row_unique_key ?row = map_option uc_key (cr_unique r)" "row_state ?row = None"
    by (simp_all add: new_row_def row_state_def state_from_columns_def)
  have "(\<exists>new. db_runs db' = db_runs db @ [new] \<and> row_id new = ?i
        \<and> row_unique_key new = map_option uc_key (cr_unique r)
        \<and> (case cr_initial_state r of None \<Rightarrow> row_state new = None | Some s \<Rightarrow> row_state new = Some s))
        \<and> db_tasks db' = db_tasks db"
  proof (cases "cr_initial_state r")
    case None
    then have "db' = ?db" using assms by (auto simp: insert_run_def Let_def split: if_splits)
    then show ?thesis using props None by simp
  next
    case (Some s)
    then obtain s' where tr: "transition RunTable ?i s False ?db = Inr (s', db')"
      using assms by (auto simp: insert_run_def Let_def split: sum.splits if_splits)
    obtain q q' where q: "q \<in> set (table_rows RunTable ?db)" "row_id q = ?i"
        "transition_row RunTable s False q = Inr (s', q')"
      and db': "db' = set_table_rows RunTable (map (\<lambda>x. if row_id x = ?i then q' else x) (table_rows RunTable ?db)) ?db"
      by (rule transition_Inr[OF tr])
    have "q = ?row"
      using q(1,2) next_rowid_fresh[of q "db_runs db"] by (auto simp: table_rows_def)
    moreover have "s' = s" "row_unique_key q' = row_unique_key q"
      using transition_row_unforced[OF q(3)] by auto
    ultimately show ?thesis
      using transition_row_Inr[OF q(3)] props Some fresh
      by (simp add: db' table_rows_def set_table_rows_def)
  qed
  then show "\<exists>new. db_runs db' = db_runs db @ [new] \<and> row_id new = i
        \<and> row_unique_key new = map_option uc_key (cr_unique r)
        \<and> (case cr_initial_state r of None \<Rightarrow> row_state new = None | Some s \<Rightarrow> row_state new = Some s)"
    "db_tasks db' = db_tasks db"
    using i by auto
qed

lemma insert_run_db_ok [inv_intros]:
  assumes "db_ok db" "insert_run ext now r db = Inr (i, db')"
  shows "db_ok db'"
proof -
  note ok = add_row_db_ok[OF assms(1), of ext now r]
  show ?thesis
    using assms(2) ok transition_db_ok[OF ok]
    by (auto simp: insert_run_def Let_def split: option.splits sum.splits if_splits)
qed

lemma create_run_Inr:
  assumes "create_run ext now r db = Inr (i, db')"
  shows "insert_run ext now r db = Inr (i, db')"
    "cr_unique r = Some u \<Longrightarrow> q \<in> set (db_runs db) \<Longrightarrow> \<not> unique_match u q"
  using assms latest_match_None[of u "db_runs db"]
  by (auto simp: create_run_def split: option.splits)

section \<open>Properties\<close>

lemma create_run_db_ok: "db_ok db \<Longrightarrow> create_run ext now r db = Inr (i, db') \<Longrightarrow> db_ok db'"
  using create_run_Inr(1) insert_run_db_ok by blast

lemma execute_db_ok: "db_ok db \<Longrightarrow> db_ok (execute cmd db)"
proof (cases cmd)
  case (CreateRunCmd ext now r)
  then show "db_ok db \<Longrightarrow> ?thesis"
    using create_run_db_ok[of db ext now r] by (auto split: sum.splits)
next
  case (TransitionCmd t i s force)
  then show "db_ok db \<Longrightarrow> ?thesis"
    using transition_db_ok[of db t i s force] by (auto split: sum.splits)
qed

interpretation writer: preserved execute db_ok
  by unfold_locales (rule execute_db_ok)

lemma written_db_ok: "db_ok (fold execute cmds empty_db)"
  by (rule writer.runs) (simp add: db_ok_def empty_db_def)


definition witness_request :: "string option \<Rightarrow> CreateRun" where
  "witness_request key = \<lparr> cr_flow_id = 1, cr_name = ''r'', cr_parameters = [], cr_tags = [],
     cr_created_by = ''api'', cr_initial_state = Some (State_new 5 Scheduled), cr_schedule_id = None,
     cr_scheduled_time = None, cr_priority = 0, cr_parent = None, cr_attempt = 1,
     cr_backfill_id = None,
     cr_unique = map_option (\<lambda>k. \<lparr> uc_key = k, uc_states = [''Scheduled''], uc_since = None \<rparr>) key \<rparr>"

definition witness_cmds :: "WriteCommand list" where
  "witness_cmds = [CreateRunCmd ''e'' 4 (witness_request (Some ''k''))]"

definition witness_db :: Db where
  "witness_db = fold execute witness_cmds empty_db"

lemmas store_eval = create_run_def insert_run_def fire_taken_def witness_request_def witness_cmds_def witness_db_def Let_def
  empty_db_def latest_match_def next_rowid_def new_row_def transition_def transition_row_def propose_def row_state_def
  state_from_columns_def table_rows_def set_table_rows_def write_state_def write_checkpoint_def
  State_new_def RunPolicy_default_def StateType_parse_def StateType_ALL_def

lemma witness_created:
  "create_run ''e'' 4 (witness_request (Some ''k'')) empty_db = Inr (1, witness_db)"
  by (simp add: store_eval)

lemma witness_db_rows: "db_runs witness_db \<noteq> []"
  by (simp add: store_eval)


text \<open>A run whose state is terminal takes no further unforced state: the transition is
  rejected with the reason terminal and the current state, for either table.\<close>

theorem terminal_rejects_unforced:
  assumes "List.find (\<lambda>r. row_id r = i) (table_rows t db) = Some r" "row_state r = Some s" "is_terminal s"
  shows "transition t i proposed False db = Inl (RejectedWith ''terminal'' (Some s))"
  using assms by (simp add: transition_def transition_row_def propose_def Let_def)

definition finished_db :: Db where
  "finished_db = snd (projr (transition RunTable 1 (State_new 9 Completed) False witness_db))"

theorem terminal_rejects_unforced_witness:
  "transition RunTable 1 (State_new 12 Running) False finished_db
     = Inl (RejectedWith ''terminal'' (Some (State_new 9 Completed)))"
  by (rule terminal_rejects_unforced[of 1 RunTable finished_db "hd (db_runs finished_db)"])
     (simp_all add: finished_db_def store_eval is_duplicate_def is_terminal_def)

lemma linked_append: "linked cur (xs @ ys) \<longleftrightarrow> linked cur xs \<and> linked (if xs = [] then cur else Some (last xs)) ys"
  by (induction xs arbitrary: cur) auto

text \<open>C10: in a history without forced states, what follows a \<^const>\<open>Cancelling\<close> entry is nothing
  or one single \<^const>\<open>Cancelled\<close> entry that ends the history.\<close>

theorem cancelling_only_cancels:
  assumes "r \<in> set (table_rows t (fold execute cmds empty_db))" "row_history r = before @ c # after"
    "st_type c = Cancelling" "\<forall>s \<in> set after. \<not> forced s"
  shows "after = [] \<or> (\<exists>s. after = [s] \<and> st_type s = Cancelled)"
proof (cases after)
  case (Cons s rest)
  have "linked None (row_history r)"
    using written_db_ok[of cmds] assms(1) by (auto simp: db_ok_tables row_ok_def)
  then have l: "linked (Some c) after" by (simp add: assms(2) linked_append)
  then have s: "st_type s = Cancelled"
    using assms(3,4) Cons by (simp add: may_follow_def edge_def split: if_splits)
  have "rest = []"
  proof (rule ccontr)
    assume "rest \<noteq> []"
    then obtain x xs where "rest = x # xs" by (cases rest) auto
    then show False using l s assms(4) Cons by (simp add: may_follow_def edge_def)
  qed
  then show ?thesis using Cons s by simp
qed simp

definition cancelling_cmds :: "WriteCommand list" where
  "cancelling_cmds = witness_cmds @ [TransitionCmd RunTable 1 (State_new 8 Cancelling) False,
     TransitionCmd RunTable 1 (State_new 9 Cancelled) False]"

theorem cancelling_only_cancels_witness:
  "[State_new 9 Cancelled] = [] \<or> (\<exists>s. [State_new 9 Cancelled] = [s] \<and> st_type s = Cancelled)"
  by (rule cancelling_only_cancels[of "hd (db_runs (fold execute cancelling_cmds empty_db))" RunTable cancelling_cmds
        "[State_new 5 Scheduled]" "State_new 8 Cancelling"])
     (simp_all add: cancelling_cmds_def store_eval is_terminal_def is_duplicate_def forced_def jmap_get_def)

text \<open>A run created under a unique check is, right after its creation, the only row that
  can match the check; no row that matched existed before, every earlier row is kept, and the
  identifier of the new row was not in use.\<close>

theorem create_run_unique:
  assumes "create_run ext now r db = Inr (i, db')" "cr_unique r = Some u"
  shows "(\<forall>q \<in> set (db_runs db). \<not> unique_match u q \<and> row_id q \<noteq> i)
    \<and> (\<exists>new. db_runs db' = db_runs db @ [new] \<and> row_id new = i \<and> row_unique_key new = Some (uc_key u)
          \<and> filter (unique_match u) (db_runs db') = filter (unique_match u) [new])"
proof -
  note ins = create_run_Inr(1)[OF assms(1)] and none = create_run_Inr(2)[OF assms]
  obtain new where new: "db_runs db' = db_runs db @ [new]" "row_id new = i" "row_unique_key new = Some (uc_key u)"
    using insert_run_Inr(2)[OF ins] assms(2) by auto
  have "filter (unique_match u) (db_runs db) = []" using none by (simp add: filter_empty_conv)
  moreover have "\<forall>q \<in> set (db_runs db). row_id q \<noteq> i"
    using next_rowid_fresh[of _ "db_runs db"] insert_run_Inr(1)[OF ins] by fastforce
  ultimately show ?thesis using none new by auto
qed

theorem create_run_unique_witness:
  "\<exists>new. db_runs witness_db = [new] \<and> row_id new = 1 \<and> row_unique_key new = Some ''k''
     \<and> filter (unique_match \<lparr> uc_key = ''k'', uc_states = [''Scheduled''], uc_since = None \<rparr>) (db_runs witness_db)
        = filter (unique_match \<lparr> uc_key = ''k'', uc_states = [''Scheduled''], uc_since = None \<rparr>) [new]"
  using create_run_unique[OF witness_created, of "\<lparr> uc_key = ''k'', uc_states = [''Scheduled''], uc_since = None \<rparr>"]
  by (auto simp: witness_request_def empty_db_def)

text \<open>A create request that meets a matching row fails and names the latest such row, the
  one of greatest identifier.\<close>

theorem create_run_conflict:
  "create_run ext now r db = Inl (UniqueConflict i) \<longleftrightarrow>
     (\<exists>u. cr_unique r = Some u \<and> (\<exists>q \<in> set (db_runs db). unique_match u q \<and> row_id q = i)
        \<and> (\<forall>q \<in> set (filter (unique_match u) (db_runs db)). row_id q \<le> i))"
  (is "?L \<longleftrightarrow> ?R")
proof
  assume ?L
  moreover have "insert_run ext now r db \<noteq> Inl (UniqueConflict i)"
    by (auto simp: insert_run_def transition_def transition_row_def Let_def split: option.splits sum.splits if_splits)
  ultimately obtain u where "cr_unique r = Some u" "latest_match u (db_runs db) = Some i"
    by (auto simp: create_run_def split: option.splits)
  then show ?R using latest_match_Some by fastforce
next
  assume ?R
  then obtain u q where u: "cr_unique r = Some u" and q: "q \<in> set (db_runs db)" "unique_match u q" "row_id q = i"
    and top: "\<forall>q \<in> set (filter (unique_match u) (db_runs db)). row_id q \<le> i" by blast
  then obtain j where j: "latest_match u (db_runs db) = Some j"
    using latest_match_None by (metis option.exhaust)
  have "i \<le> j" using latest_match_Some(2)[OF j q(1,2)] q(3) by simp
  moreover have "j \<le> i" using latest_match_Some(1)[OF j] top by auto
  ultimately show ?L using u j by (simp add: create_run_def)
qed

theorem create_run_conflict_witness:
  "create_run ''f'' 20 (witness_request (Some ''k'')) witness_db = Inl (UniqueConflict 1)"
  by (subst create_run_conflict) (simp add: store_eval unique_match_def)

end
