(* ===== verification/Unique.thy ===== *)
theory Unique
  imports Store_Runs
begin

text \<open>
  Run uniqueness: the key templates of \<^verbatim>\<open>crates/core/src/unique.rs\<close>, the unique
  declaration of a flow (\<^verbatim>\<open>UniqueSpec\<close> in \<^verbatim>\<open>core/src/model.rs\<close>) and the check the
  server hands to the store when it creates a run
  (\<^verbatim>\<open>crates/server/src/api/runs.rs\<close>). The text of a JSON value is \<^verbatim>\<open>serde_json\<close>'s
  and is the parameter \<open>to_json\<close>.
\<close>

definition render_value :: "(json \<Rightarrow> string) \<Rightarrow> jmap \<Rightarrow> string \<Rightarrow> string" where
  "render_value to_json parameters name =
     (case jmap_get parameters name of
        None \<Rightarrow> []
      | Some (JStr s) \<Rightarrow> s
      | Some other \<Rightarrow> to_json other)"

text \<open>The loop over the single-brace placeholders of a template.\<close>

function render_braces :: "(string \<Rightarrow> string) \<Rightarrow> string \<Rightarrow> string" where
  "render_braces val rest =
     (case split_once ''{'' rest of
        None \<Rightarrow> rest
      | Some (before, after) \<Rightarrow>
         (case split_once ''}'' after of
            Some (name, rest') \<Rightarrow> before @ val (trim name) @ render_braces val rest'
          | None \<Rightarrow> before @ ''{'' @ after))"
  by pat_completeness auto
termination
  by (relation "measure (\<lambda>(_, s). length s)") (auto dest!: split_once_shorter)

declare render_braces.simps [simp del]

definition render_key :: "(json \<Rightarrow> string) \<Rightarrow> string option \<Rightarrow> jmap \<Rightarrow> string" where
  "render_key to_json template parameters =
     (case (case template of Some t \<Rightarrow> if trim t = [] then None else Some (trim t) | None \<Rightarrow> None) of
        None \<Rightarrow> to_json (JObj parameters)
      | Some t \<Rightarrow> render_braces (render_value to_json parameters) t)"

text \<open>The loop that turns double braces into single ones.\<close>

function normalise_braces :: "string \<Rightarrow> string" where
  "normalise_braces rest =
     (case split_once ''{{'' rest of
        None \<Rightarrow> rest
      | Some (before, after) \<Rightarrow>
         (case split_once ''}}'' after of
            Some (name, rest') \<Rightarrow> before @ ''{'' @ trim name @ ''}'' @ normalise_braces rest'
          | None \<Rightarrow> before @ ''{{'' @ after))"
  by pat_completeness auto
termination
  by (relation "measure length") (auto dest!: split_once_shorter)

declare normalise_braces.simps [simp del]

definition render_template :: "(json \<Rightarrow> string) \<Rightarrow> string \<Rightarrow> jmap \<Rightarrow> string" where
  "render_template to_json template parameters =
     (if CHR 0x7B \<notin> set template then template
      else render_key to_json (Some (normalise_braces template)) parameters)"

text \<open>The division panics when the window rounds to less than a microsecond.\<close>

definition key_bucket :: "f64 option \<Rightarrow> micros \<Rightarrow> string outcome" where
  "key_bucket period now =
     (case (case period of Some p \<Rightarrow> if f64_lt (Fin 0) p then Some p else None | None \<Rightarrow> None) of
        Some p \<Rightarrow> if secs_to_micros p = 0 then Panic else Value (show_int (tdiv now (secs_to_micros p)))
      | None \<Rightarrow> Value [])"

definition unique_key :: "flow_id \<Rightarrow> string \<Rightarrow> f64 option \<Rightarrow> micros \<Rightarrow> string outcome" where
  "unique_key flow rendered period now =
     (case key_bucket period now of
        Panic \<Rightarrow> Panic
      | Value bucket \<Rightarrow> Value (''flow:'' @ show_int flow @ ''|'' @ rendered @ ''|'' @ bucket))"

definition idempotency_key :: "flow_id \<Rightarrow> string \<Rightarrow> string" where
  "idempotency_key flow key = ''flow:'' @ show_int flow @ ''|idem:'' @ trim key @ ''|''"

record UniqueSpec =
  us_key :: "string option"
  us_period :: "f64 option"
  us_states :: "string list"
  us_on_conflict :: string
  us_debounce :: "f64 option"
  us_max_wait :: "f64 option"

definition UniqueSpec_default :: UniqueSpec where
  "UniqueSpec_default = \<lparr> us_key = None, us_period = None, us_states = [], us_on_conflict = ''skip'',
     us_debounce = None, us_max_wait = None \<rparr>"

definition counting_states :: "UniqueSpec \<Rightarrow> string list" where
  "counting_states spec =
     (if us_states spec = [] then map StateType_as_str (filter (\<lambda>t. \<not> type_is_terminal t) StateType_ALL)
      else us_states spec)"

record Idempotency =
  idem_key :: string
  idem_ttl :: "f64 option"

definition Idempotency_from_body :: "string option \<Rightarrow> f64 option \<Rightarrow> string + Idempotency option" where
  "Idempotency_from_body key ttl =
     (let key = (case key of Some k \<Rightarrow> if trim k = [] then None else Some (trim k) | None \<Rightarrow> None) in
      if (case ttl of Some t \<Rightarrow> f64_le t (Fin 0) \<or> \<not> is_finite t | None \<Rightarrow> False)
      then Inl ''idempotency_ttl must be a positive number of seconds''
      else Inr (map_option (\<lambda>k. \<lparr> idem_key = k, idem_ttl = ttl \<rparr>) key))"

definition unique_check_for ::
  "(json \<Rightarrow> string) \<Rightarrow> micros \<Rightarrow> flow_id \<Rightarrow> UniqueSpec option \<Rightarrow> jmap \<Rightarrow> Idempotency option
     \<Rightarrow> UniqueCheck option outcome" where
  "unique_check_for to_json now flow spec parameters idempotency =
     (case idempotency of
        Some idem \<Rightarrow>
          (let ttl = (case idem_ttl idem of Some t \<Rightarrow> t | None \<Rightarrow> Fin 86400) in
           Value (Some \<lparr> uc_key = idempotency_key flow (idem_key idem), uc_states = [],
             uc_since = Some (i64_sub now (secs_to_micros ttl)) \<rparr>))
      | None \<Rightarrow>
         (case spec of
            None \<Rightarrow> Value None
          | Some spec \<Rightarrow>
             (let rendered = render_key to_json (us_key spec) parameters in
              if us_on_conflict spec = ''debounce'' then
                (case unique_key flow rendered None now of
                   Panic \<Rightarrow> Panic
                 | Value k \<Rightarrow> Value (Some \<lparr> uc_key = k, uc_states = [''Scheduled''], uc_since = None \<rparr>))
              else if us_on_conflict spec = ''throttle'' then
                (case unique_key flow rendered None now of
                   Panic \<Rightarrow> Panic
                 | Value k \<Rightarrow> Value (Some \<lparr> uc_key = k, uc_states = [],
                     uc_since = Some (i64_sub now (secs_to_micros
                       (f64_max (case us_period spec of Some p \<Rightarrow> p | None \<Rightarrow> Fin 0) (Fin 0)))) \<rparr>))
              else
                (case unique_key flow rendered (us_period spec) now of
                   Panic \<Rightarrow> Panic
                 | Value k \<Rightarrow> Value (Some \<lparr> uc_key = k, uc_states = counting_states spec, uc_since = None \<rparr>)))))"

definition debounce_start :: "micros \<Rightarrow> UniqueSpec \<Rightarrow> micros option" where
  "debounce_start now spec =
     (if us_on_conflict spec = ''debounce''
      then Some (i64_add now (secs_to_micros
             (f64_max (case us_debounce spec of Some d \<Rightarrow> d | None \<Rightarrow> Fin 0) (Fin 0))))
      else None)"

text \<open>When a new run should start: the given time, or now plus the delay, or none for now.\<close>

definition not_before :: "micros \<Rightarrow> micros option \<Rightarrow> f64 option \<Rightarrow> string + micros option" where
  "not_before now scheduled_time delay =
     (case (scheduled_time, delay) of
        (Some _, Some _) \<Rightarrow> Inl ''give scheduled_time or delay, not both''
      | (Some t, None) \<Rightarrow> Inr (Some t)
      | (None, Some d) \<Rightarrow>
          if f64_lt d (Fin 0) \<or> \<not> is_finite d then Inl ''delay must be zero or more seconds''
          else Inr (Some (i64_add now (secs_to_micros d)))
      | (None, None) \<Rightarrow> Inr None)"

section \<open>Keys\<close>

lemma key_bucket_no_bar: "key_bucket period now = Value b \<Longrightarrow> CHR ''|'' \<notin> set b"
  using show_int_no_bar by (auto simp: key_bucket_def split: option.splits if_splits)

lemma split_at_bar:
  "CHR ''|'' \<notin> set a \<Longrightarrow> CHR ''|'' \<notin> set c \<Longrightarrow> a @ ''|'' @ b = c @ ''|'' @ d \<Longrightarrow> a = c \<and> b = d"
  by (induction a arbitrary: c) (auto simp: Cons_eq_append_conv)

lemma split_at_last_bar:
  assumes "CHR ''|'' \<notin> set b" "CHR ''|'' \<notin> set d" "a @ ''|'' @ b = c @ ''|'' @ d"
  shows "a = c \<and> b = d"
proof -
  have "rev b @ ''|'' @ rev a = rev d @ ''|'' @ rev c"
    using arg_cong[OF assms(3), of rev] by simp
  then show ?thesis using split_at_bar[of "rev b" "rev d" "rev a" "rev c"] assms by simp
qed

lemma unique_key_Value:
  "unique_key flow rendered period now = Value k \<longleftrightarrow>
     (\<exists>b. key_bucket period now = Value b \<and> k = ''flow:'' @ show_int flow @ ''|'' @ rendered @ ''|'' @ b)"
  by (auto simp: unique_key_def split: outcome.splits)

text \<open>A stored key determines the flow, the rendered key and the period bucket it was made from,
  whatever the rendered text contains: no two different admissions share a key by accident.\<close>

theorem unique_key_injective:
  assumes "unique_key f r p t = Value k" "unique_key f' r' p' t' = Value k"
  shows "f = f' \<and> r = r' \<and> key_bucket p t = key_bucket p' t'"
proof -
  obtain b b' where b: "key_bucket p t = Value b" "key_bucket p' t' = Value b'"
    and eq: "show_int f @ ''|'' @ r @ ''|'' @ b = show_int f' @ ''|'' @ r' @ ''|'' @ b'"
    using assms by (auto simp: unique_key_Value)
  then have "show_int f = show_int f'" "r @ ''|'' @ b = r' @ ''|'' @ b'"
    using split_at_bar[OF show_int_no_bar show_int_no_bar eq] by auto
  then show ?thesis
    using split_at_last_bar[of b b' r r'] key_bucket_no_bar[OF b(1)] key_bucket_no_bar[OF b(2)] b show_int_inj
    by simp
qed

lemma secs_hour: "secs_to_micros (Fin 3600) = 3600000000"
  using secs_to_micros_whole[of 3600] by simp

lemma key_hour: "0 \<le> t \<Longrightarrow> key_bucket (Some (Fin 3600)) t = Value (show_int (t div 3600000000))"
  by (simp add: key_bucket_def secs_hour tdiv_nonneg)

theorem unique_key_injective_witness:
  "key_bucket (Some (Fin 3600)) 7200000000 = key_bucket (Some (Fin 3600)) 7300000000"
proof -
  have "unique_key 7 ''a'' (Some (Fin 3600)) 7200000000 = Value (''flow:7|a|2'')"
    "unique_key 7 ''a'' (Some (Fin 3600)) 7300000000 = Value (''flow:7|a|2'')"
    by (simp_all add: unique_key_def key_hour show_int_def show_nat.simps digit_eval)
  then show ?thesis using unique_key_injective by blast
qed

text \<open>With a period, two admissions of one flow and rendered key get the same stored key exactly
  when they fall in the same fixed window of that many microseconds since the epoch.\<close>

theorem unique_key_windows:
  assumes "period = Some p" "f64_lt (Fin 0) p" "0 < secs_to_micros p" "0 \<le> t" "0 \<le> t'"
  shows "unique_key f r period t = unique_key f r period t' \<longleftrightarrow>
    t div secs_to_micros p = t' div secs_to_micros p"
  using assms show_int_inj by (auto simp: unique_key_def key_bucket_def tdiv_nonneg)

theorem unique_key_windows_witness:
  "unique_key 7 ''a'' (Some (Fin 3600)) 3599999999 \<noteq> unique_key 7 ''a'' (Some (Fin 3600)) 3600000000"
  by (subst unique_key_windows[of _ "Fin 3600"]) (simp_all add: secs_hour)

text \<open>A positive period shorter than a microsecond, which the declaration accepts, makes the key
  computation divide by zero: the call panics for every time.\<close>

theorem tiny_period_panics:
  "f64_lt (Fin 0) (Fin (1 / 16777216)) \<and> is_f64 (Fin (1 / 16777216))
   \<and> unique_key flow rendered (Some (Fin (1 / 16777216))) now = Panic"
proof -
  have r: "rnd (15625 / 262144) = Fin (15625 / 262144)"
    by (rule rnd_representable[of _ 15625 "-18"]) (simp_all add: pow2_def)
  have "rnd (1 / 16777216) = Fin (1 / 16777216)"
    by (rule rnd_representable[of _ 1 "-24"]) (simp_all add: pow2_def)
  moreover have "secs_to_micros (Fin (1 / 16777216)) = 0"
    using r by (simp add: secs_to_micros_def rat_trunc_def floor_eq_iff i64_clamp_def i64_min_def i64_max_def)
  ultimately show ?thesis by (simp add: unique_key_def key_bucket_def)
qed

section \<open>Templates\<close>

text \<open>A template as the author means it: literal text and placeholders.\<close>

datatype piece = Lit string | Hole string

fun piece_ok :: "piece \<Rightarrow> bool" where
  "piece_ok (Lit s) \<longleftrightarrow> CHR 0x7B \<notin> set s"
| "piece_ok (Hole n) \<longleftrightarrow> CHR 0x7D \<notin> set n"

fun print_single :: "piece \<Rightarrow> string" where
  "print_single (Lit s) = s"
| "print_single (Hole n) = ''{'' @ n @ ''}''"

fun print_double :: "piece \<Rightarrow> string" where
  "print_double (Lit s) = s"
| "print_double (Hole n) = ''{{'' @ n @ ''}}''"

fun fill :: "(string \<Rightarrow> string) \<Rightarrow> piece \<Rightarrow> string" where
  "fill val (Lit s) = s"
| "fill val (Hole n) = val (trim n)"

lemma split_once_char: "c \<notin> set a \<Longrightarrow> split_once [c] (a @ c # b) = Some (a, b)"
  by (induction a) (auto simp: starts_with_def)

lemma split_once_char_None: "split_once [c] s = None \<longleftrightarrow> c \<notin> set s"
  by (induction s) (auto simp: starts_with_def)

lemma render_braces_literal:
  assumes "CHR 0x7B \<notin> set s"
  shows "render_braces val (s @ rest) = s @ render_braces val rest"
proof (cases "split_once ''{'' rest")
  case None
  then have "split_once ''{'' (s @ rest) = None" using assms by (simp add: split_once_char_None)
  then show ?thesis using None by (simp add: render_braces.simps[of val "s @ rest"] render_braces.simps[of val rest])
next
  case (Some p)
  obtain a b where p: "p = (a, b)" by force
  have "CHR 0x7B \<notin> set a"
    using Some p
  proof (induction rest arbitrary: a p)
    case (Cons c cs)
    then show ?case by (auto simp: starts_with_def split: if_splits)
  qed simp
  then have "split_once ''{'' (s @ rest) = Some (s @ a, b)"
    using split_once_char[of "CHR 0x7B" "s @ a" b] split_once_Some[of "''{''" rest a b] Some p assms by simp
  then show ?thesis
    using Some p by (simp add: render_braces.simps[of val "s @ rest"] render_braces.simps[of val rest] split: option.splits)
qed

lemma render_braces_hole:
  "CHR 0x7D \<notin> set n \<Longrightarrow> render_braces val (''{'' @ n @ ''}'' @ rest) = val (trim n) @ render_braces val rest"
  using split_once_char[of "CHR 0x7D" n rest]
  by (subst render_braces.simps) (simp add: starts_with_def)

text \<open>The renderer fills the placeholders of a template and leaves its literal text alone: for
  every template written as pieces, the result is the concatenation of the literals and of the
  values of the trimmed placeholder names.\<close>

theorem render_braces_pieces:
  assumes "list_all piece_ok ps"
  shows "render_braces val (concat (map print_single ps)) = concat (map (fill val) ps)"
  using assms
proof (induction ps)
  case Nil
  then show ?case by (simp add: render_braces.simps)
next
  case (Cons q ps)
  then show ?case by (cases q) (simp_all add: render_braces_literal render_braces_hole[simplified])
qed

theorem render_braces_pieces_witness:
  "render_braces (render_value (\<lambda>_. ''?'') [(''day'', JStr ''mon'')]) ''api:{ day }/x'' = ''api:mon/x''"
proof -
  have "''api:{ day }/x'' = concat (map print_single [Lit ''api:'', Hole '' day '', Lit ''/x''])" by simp
  then show ?thesis
    using render_braces_pieces[of "[Lit ''api:'', Hole '' day '', Lit ''/x'']"]
    by (simp add: render_value_def jmap_get_def trim_def trim_end_def is_whitespace_def)
qed

section \<open>At most one live run per key\<close>

definition live_with_key :: "string \<Rightarrow> Row \<Rightarrow> bool" where
  "live_with_key k r \<longleftrightarrow> row_unique_key r = Some k
     \<and> (case row_state r of Some s \<Rightarrow> \<not> is_terminal s | None \<Rightarrow> False)"

text \<open>
  The commands a server issues for a key under the default declaration: every
  creation carries the check with the default counting states and starts the
  run in a state, and no transition of a run is forced.
\<close>

fun default_use :: "string \<Rightarrow> WriteCommand \<Rightarrow> bool" where
  "default_use k (CreateRunCmd ext now r) \<longleftrightarrow>
     (case cr_unique r of
        Some u \<Rightarrow> uc_key u = k \<longrightarrow>
          uc_states u = counting_states UniqueSpec_default \<and> uc_since u = None \<and> cr_initial_state r \<noteq> None
      | None \<Rightarrow> True)"
| "default_use k (TransitionCmd t i s force) \<longleftrightarrow> \<not> (t = RunTable \<and> force)"

definition key_inv :: "string \<Rightarrow> Db \<Rightarrow> bool" where
  "key_inv k db \<longleftrightarrow> length (filter (live_with_key k) (db_runs db)) \<le> 1
     \<and> (\<forall>r \<in> set (db_runs db). row_unique_key r = Some k \<longrightarrow> row_state r \<noteq> None)"

lemma row_state_type: "row_state r = Some s \<Longrightarrow> col_state_type r = Some (StateType_as_str (st_type s))"
  by (auto simp: row_state_def state_from_columns_def split: option.splits dest!: StateType_parse_sound)

lemma counting_default:
  "StateType_as_str t \<in> set (counting_states UniqueSpec_default) \<longleftrightarrow> \<not> type_is_terminal t"
  by (cases t) (simp_all add: counting_states_def UniqueSpec_default_def StateType_ALL_def)

lemma live_matches:
  "live_with_key k r \<Longrightarrow> unique_match \<lparr> uc_key = k, uc_states = counting_states UniqueSpec_default, uc_since = None \<rparr> r"
  using counting_default row_state_type
  by (fastforce simp: live_with_key_def unique_match_def is_terminal_def split: option.splits)

lemma create_key_inv:
  assumes inv: "key_inv k db" and use: "default_use k (CreateRunCmd ext now r)"
    and ok: "create_run ext now r db = Inr (i, db')"
  shows "key_inv k db'"
proof -
  obtain new where new: "db_runs db' = db_runs db @ [new]" "row_unique_key new = map_option uc_key (cr_unique r)"
      "case cr_initial_state r of None \<Rightarrow> row_state new = None | Some s \<Rightarrow> row_state new = Some s"
    using insert_run_Inr(2)[OF create_run_Inr(1)[OF ok]] by auto
  show ?thesis
  proof (cases "\<exists>u. cr_unique r = Some u \<and> uc_key u = k")
    case False
    then have "row_unique_key new \<noteq> Some k" using new(2) by auto
    then show ?thesis using inv new(1) by (auto simp: key_inv_def live_with_key_def)
  next
    case True
    then obtain u where u: "cr_unique r = Some u" "uc_key u = k" by blast
    then have "u = \<lparr> uc_key = k, uc_states = counting_states UniqueSpec_default, uc_since = None \<rparr>"
      using use by (cases u) simp
    then have "filter (live_with_key k) (db_runs db) = []"
      using live_matches create_run_Inr(2)[OF ok u(1)] by (auto simp: filter_empty_conv)
    moreover have "row_state new \<noteq> None" using use u new(3) by auto
    ultimately show ?thesis using inv new(1) by (auto simp: key_inv_def)
  qed
qed

lemma length_filter_map_le:
  "(\<And>x. x \<in> set xs \<Longrightarrow> Q (f x) \<Longrightarrow> Q x) \<Longrightarrow> length (filter Q (map f xs)) \<le> length (filter Q xs)"
  by (induction xs) (auto simp: le_SucI)

lemma transition_key_inv:
  assumes inv: "key_inv k db" "db_ok db" and use: "default_use k (TransitionCmd t i s force)"
    and ok: "transition t i s force db = Inr (s', db')"
  shows "key_inv k db'"
proof (cases t)
  case TaskRunTable
  then have "db_runs db' = db_runs db"
    using transition_Inr[OF ok] by (metis Table.distinct(1) table_rows_def table_set(2) Table.simps(3))
  then show ?thesis using inv by (simp add: key_inv_def)
next
  case RunTable
  then have unforced: "force = False" using use by simp
  obtain r r' where r: "r \<in> set (db_runs db)" "row_id r = i" "transition_row t s False r = Inr (s', r')"
    and db': "db' = set_table_rows t (map (\<lambda>x. if row_id x = i then r' else x) (table_rows t db)) db"
    by (rule transition_Inr[OF ok]) (simp add: RunTable unforced table_rows_def)
  let ?f = "\<lambda>x. if row_id x = i then r' else x"
  have runs: "db_runs db' = map ?f (db_runs db)"
    using db' by (simp add: RunTable table_rows_def set_table_rows_def)
  have key: "row_unique_key r' = row_unique_key r" using transition_row_unforced(2)[OF r(3)] .
  have alive: "row_state r = Some c \<Longrightarrow> \<not> is_terminal c" for c
    using r(3) by (auto simp: transition_row_def propose_def Let_def)
  have "live_with_key k r' \<Longrightarrow> live_with_key k r"
    using key alive inv(1) r(1) by (auto simp: live_with_key_def key_inv_def split: option.splits)
  moreover have "x = r" if "x \<in> set (db_runs db)" "row_id x = i" for x
    using inv(2) that r(1,2) by (auto simp: db_ok_def distinct_map inj_on_def)
  ultimately have "length (filter (live_with_key k) (map ?f (db_runs db))) \<le> length (filter (live_with_key k) (db_runs db))"
    by (intro length_filter_map_le) (auto split: if_splits)
  moreover have "row_state r' \<noteq> None" using transition_row_Inr(2)[OF r(3)] by simp
  ultimately show ?thesis using inv(1) runs by (auto simp: key_inv_def)
qed

lemma execute_key_inv:
  assumes "key_inv k db" "db_ok db" "default_use k cmd"
  shows "key_inv k (execute cmd db)"
proof (cases cmd)
  case (CreateRunCmd ext now r)
  then show ?thesis using assms create_key_inv[of k db ext now r] by (auto split: sum.splits)
next
  case (TransitionCmd t i s force)
  then show ?thesis using assms transition_key_inv[of k db t i s force] by (auto split: sum.splits)
qed

lemma written_key_inv: "list_all (default_use k) cmds \<Longrightarrow> key_inv k db \<Longrightarrow> db_ok db \<Longrightarrow> key_inv k (fold execute cmds db)"
  by (induction cmds arbitrary: db) (auto intro: execute_key_inv execute_db_ok)


definition default_request :: "string \<Rightarrow> CreateRun" where
  "default_request k = (witness_request (Some k))\<lparr> cr_unique :=
     Some \<lparr> uc_key = k, uc_states = counting_states UniqueSpec_default, uc_since = None \<rparr> \<rparr>"


section \<open>Throttling\<close>

text \<open>
  A throttled creation at clock \<open>t\<close> carries the check of \<^const>\<open>unique_check_for\<close>: every
  state counts, and only rows created at or after \<open>t\<close> minus the window conflict. The writer
  stamps the row with its own, later reading of the clock.
\<close>

definition throttle_window :: "UniqueSpec \<Rightarrow> int" where
  "throttle_window spec = secs_to_micros (f64_max (case us_period spec of Some p \<Rightarrow> p | None \<Rightarrow> Fin 0) (Fin 0))"

text \<open>Two runs a throttled flow creates for the same key are more than the sliding window apart:
  when the second is admitted, every earlier row with the key was created more than the
  window before it.\<close>

theorem throttle_spaces_runs:
  assumes check: "unique_check_for to_json t flow (Some spec) params None = Value (Some u)"
    and throttle: "us_on_conflict spec = ''throttle''"
    and request: "cr_unique r = Some u"
    and clock: "t \<le> now" "in_i64 (t - throttle_window spec)"
    and ok: "create_run ext now r db = Inr (i, db')"
    and earlier: "q \<in> set (db_runs db)" "row_unique_key q = Some (uc_key u)"
  shows "row_created_at q + throttle_window spec < now"
proof -
  have "uc_states u = []" "uc_since u = Some (t - throttle_window spec)"
    using check throttle clock(2)
    by (auto simp: unique_check_for_def throttle_window_def Let_def i64_sub_id split: outcome.splits)
  moreover have "\<not> unique_match u q" using create_run_Inr(2)[OF ok request] earlier(1) .
  ultimately have "row_created_at q < t - throttle_window spec" using earlier(2) by (auto simp: unique_match_def)
  then show ?thesis using clock(1) by linarith
qed

definition throttle_spec :: UniqueSpec where
  "throttle_spec = UniqueSpec_default\<lparr> us_on_conflict := ''throttle'', us_period := Some (Fin 3600), us_key := Some ''x'' \<rparr>"

definition throttle_check :: "micros \<Rightarrow> UniqueCheck" where
  "throttle_check t = \<lparr> uc_key = ''flow:1|x|'', uc_states = [], uc_since = Some (t - 3600000000) \<rparr>"

definition throttle_request :: "micros \<Rightarrow> CreateRun" where
  "throttle_request t = (witness_request None)\<lparr> cr_unique := Some (throttle_check t) \<rparr>"

definition throttle_db :: Db where
  "throttle_db = execute (CreateRunCmd ''a'' 4 (throttle_request 4)) empty_db"

theorem throttle_spaces_runs_witness:
  "row_created_at (hd (db_runs throttle_db)) + throttle_window throttle_spec < 4000000000"
proof -
  have w: "throttle_window throttle_spec = 3600000000"
    by (simp add: throttle_window_def throttle_spec_def f64_max_def secs_hour)
  have oc: "us_on_conflict throttle_spec = ''throttle''" by (simp add: throttle_spec_def)
  have k: "render_braces v ''x'' = ''x''" for v
    by (simp add: render_braces.simps starts_with_def)
  have "unique_check_for (\<lambda>_. []) 4000000000 1 (Some throttle_spec) [] None
      = Value (Some (throttle_check 4000000000))"
    using w by (simp add: unique_check_for_def throttle_spec_def UniqueSpec_default_def throttle_check_def
        unique_key_def key_bucket_def render_key_def trim_def trim_end_def is_whitespace_def k show_int_def
        show_nat.simps digit_eval[simplified] i64_sub_def i64_wrap_def throttle_window_def)
  then show ?thesis
    by (rule throttle_spaces_runs[where r = "throttle_request 4000000000" and db = throttle_db and ext = "''b''"
          and i = 2 and db' = "execute (CreateRunCmd ''b'' 4000000000 (throttle_request 4000000000)) throttle_db"])
       (simp_all add: w oc in_i64_iff throttle_request_def throttle_db_def throttle_check_def
          store_eval unique_match_def)
qed

end
