(* ===== verification/Model.thy ===== *)
theory Model
  imports States
begin

text \<open>
  The records of \<^verbatim>\<open>crates/core/src/model.rs\<close> that the components pass around:
  flows, runs, events, and the match clauses, actions and specifications of
  rules. External identifiers are kept as their text.
\<close>

record Flow =
  fl_id :: int
  fl_external_id :: string
  fl_project :: string
  fl_name :: string
  fl_module :: string
  fl_source_dir :: string
  fl_description :: "string option"
  fl_tags :: "string list"
  fl_group :: "string option"
  fl_parameter_schema :: json
  fl_options :: jmap
  fl_error :: "string option"
  fl_created_at :: micros
  fl_last_seen_at :: micros
  fl_live :: bool

definition group_or_project :: "Flow \<Rightarrow> string" where
  "group_or_project f = (case fl_group f of Some g \<Rightarrow> g | None \<Rightarrow> fl_project f)"

record Run =
  run_id :: int
  run_external_id :: string
  run_flow_id :: int
  run_flow_name :: string
  run_project :: string
  run_group :: string
  run_name :: string
  run_parameters :: jmap
  run_tags :: "string list"
  run_attributes :: jmap
  run_state :: State
  run_failure_count :: nat
  run_crash_count :: nat
  run_created_at :: micros
  run_start_time :: "micros option"
  run_end_time :: "micros option"
  run_total_run_time :: "micros option"
  run_engine_pid :: "int option"
  run_engine_id :: "string option"
  run_created_by :: string
  run_report_seq :: int
  run_schedule_id :: "int option"
  run_scheduled_time :: "micros option"
  run_priority :: int
  run_parent_run_id :: "int option"
  run_attempt :: int
  run_backfill_id :: "int option"
  run_task_counts :: "(string \<times> int) list"
  run_unique_key :: "string option"
  run_host :: "string option"
  run_processor :: "int option"
  run_lease :: int
  run_source_hash :: "string option"

record Resource =
  res_kind :: string
  res_id :: string
  res_name :: string

record Event =
  ev_id :: int
  ev_seq :: int
  ev_external_id :: string
  ev_name :: string
  ev_occurred :: micros
  ev_resource :: Resource
  ev_related :: "Resource list"
  ev_run_id :: "int option"
  ev_flow_id :: "int option"
  ev_payload :: jmap

record RuleMatch =
  rm_events :: "string list"
  rm_flows :: "string list"
  rm_tags :: "string list"
  rm_states :: "string list"
  rm_project :: "string option"

definition RuleMatch_default :: RuleMatch where
  "RuleMatch_default = \<lparr> rm_events = [], rm_flows = [], rm_tags = [], rm_states = [], rm_project = None \<rparr>"

record RuleAction =
  ra_kind :: string
  ra_flow :: "string option"
  ra_parameters :: jmap
  ra_state_type :: "string option"
  ra_message :: "string option"
  ra_url :: "string option"
  ra_method :: "string option"
  ra_headers :: jmap
  ra_body :: "string option"
  ra_to :: "string list"
  ra_subject :: "string option"
  ra_callable :: "string option"
  ra_preset :: "string option"
  ra_secret :: "string option"
  ra_topic :: "string option"
  ra_chat_id :: "string option"
  ra_routing_key :: "string option"
  ra_states :: "string list"
  ra_delay :: "f64 option"
  ra_copy_parameters :: bool
  ra_pass_result :: "bool option"

definition RuleAction_default :: RuleAction where
  "RuleAction_default = \<lparr> ra_kind = [], ra_flow = None, ra_parameters = [], ra_state_type = None,
     ra_message = None, ra_url = None, ra_method = None, ra_headers = [], ra_body = None, ra_to = [],
     ra_subject = None, ra_callable = None, ra_preset = None, ra_secret = None, ra_topic = None,
     ra_chat_id = None, ra_routing_key = None, ra_states = [], ra_delay = None,
     ra_copy_parameters = False, ra_pass_result = None \<rparr>"

record RuleClock =
  rc_cron :: string
  rc_tz :: "string option"

record RuleSpec =
  rs_when :: RuleMatch
  rs_actions :: "RuleAction list"
  rs_once :: string
  rs_cooldown_seconds :: f64
  rs_max_per_minute :: int
  rs_allow_self :: bool
  rs_after_consecutive :: int
  rs_condition :: "string option"
  rs_max_per_chain :: int
  rs_on_limit :: "RuleAction option"
  rs_unless :: "RuleMatch option"
  rs_within :: "f64 option"
  rs_at :: "RuleClock option"

definition RuleSpec_default :: RuleSpec where
  "RuleSpec_default = \<lparr> rs_when = RuleMatch_default, rs_actions = [], rs_once = ''per_run'',
     rs_cooldown_seconds = Fin 0, rs_max_per_minute = 60, rs_allow_self = False, rs_after_consecutive = 0,
     rs_condition = None, rs_max_per_chain = 0, rs_on_limit = None, rs_unless = None, rs_within = None,
     rs_at = None \<rparr>"

definition is_proactive :: "RuleSpec \<Rightarrow> bool" where
  "is_proactive s \<longleftrightarrow> rs_unless s \<noteq> None"

definition is_clock_armed :: "RuleSpec \<Rightarrow> bool" where
  "is_clock_armed s \<longleftrightarrow> rs_unless s \<noteq> None \<and> rs_at s \<noteq> None"

record RuleRow =
  rr_id :: int
  rr_external_id :: string
  rr_name :: string
  rr_enabled :: bool
  rr_source :: string
  rr_module :: "string option"
  rr_spec :: RuleSpec
  rr_fire_count :: int
  rr_last_fired :: "micros option"
  rr_created_at :: micros
  rr_updated_at :: micros

record AfterSpec =
  as_flow :: string
  as_flows :: "string list"
  as_key :: "string option"
  as_parameters :: jmap

definition upstreams :: "AfterSpec \<Rightarrow> string list" where
  "upstreams a = (if as_flows a = [] then [as_flow a] else as_flows a)"

definition depends_on :: "AfterSpec \<Rightarrow> string \<Rightarrow> bool" where
  "depends_on a flow_name \<longleftrightarrow> flow_name \<in> set (upstreams a)"

text \<open>\<^verbatim>\<open>Value::as_str\<close>, \<^verbatim>\<open>as_i64\<close> and \<^verbatim>\<open>as_f64\<close> of a JSON value.\<close>

fun as_str :: "json \<Rightarrow> string option" where
  "as_str (JStr s) = Some s"
| "as_str _ = None"

fun as_i64 :: "json \<Rightarrow> int option" where
  "as_i64 (JNum (PosInt n)) = (if int n \<le> i64_max then Some (int n) else None)"
| "as_i64 (JNum (NegInt n)) = Some n"
| "as_i64 _ = None"

fun as_f64 :: "json \<Rightarrow> f64 option" where
  "as_f64 (JNum (PosInt n)) = Some (f64_of_int (int n))"
| "as_f64 (JNum (NegInt n)) = Some (f64_of_int n)"
| "as_f64 (JNum (Float x)) = Some x"
| "as_f64 _ = None"

definition resource_amounts :: "jmap \<Rightarrow> (string \<times> f64) list" where
  "resource_amounts resources = List.map_filter (\<lambda>(k, v). map_option (\<lambda>n. (k, n)) (as_f64 v)) resources"

record EngineKey =
  ek_source_dir :: string
  ek_module :: string
  ek_isolated :: bool
  ek_nice :: nat

text \<open>A run with the given identity and state and nothing else set, for concrete evaluations.\<close>

definition bare_run :: "int \<Rightarrow> int \<Rightarrow> State \<Rightarrow> Run" where
  "bare_run i flow s =
     \<lparr> run_id = i, run_external_id = [], run_flow_id = flow, run_flow_name = ''etl'', run_project = ''main'',
       run_group = ''main'', run_name = ''r'', run_parameters = [], run_tags = [], run_attributes = [], run_state = s,
       run_failure_count = 0, run_crash_count = 0, run_created_at = 0, run_start_time = None, run_end_time = None,
       run_total_run_time = None, run_engine_pid = None, run_engine_id = None, run_created_by = ''api'',
       run_report_seq = 0, run_schedule_id = None, run_scheduled_time = None, run_priority = 0,
       run_parent_run_id = None, run_attempt = 1, run_backfill_id = None, run_task_counts = [], run_unique_key = None,
       run_host = None, run_processor = None, run_lease = 0, run_source_hash = None \<rparr>"

lemma bare_run_fields [simp]:
  "run_id (bare_run i f s) = i" "run_flow_id (bare_run i f s) = f" "run_state (bare_run i f s) = s"
  "run_engine_pid (bare_run i f s) = None" "run_scheduled_time (bare_run i f s) = None"
  by (simp_all add: bare_run_def)

definition bare_state :: "StateType \<Rightarrow> string \<Rightarrow> State" where
  "bare_state t name = \<lparr> st_type = t, st_name = name, st_message = None, st_details = [], st_timestamp = 1 \<rparr>"

definition bare_key :: EngineKey where
  "bare_key = \<lparr> ek_source_dir = ''.'', ek_module = ''flows'', ek_isolated = False, ek_nice = 0 \<rparr>"

end
