(* ===== verification/Events.thy ===== *)
theory Events
  imports States
begin

text \<open>
  The catalogue of engine-emitted events (\<^verbatim>\<open>crates/core/src/events.rs\<close>) and the
  checks of user-supplied names against it. The checker suggests the nearest
  entry by edit distance; the two-row table of the source is proved equal to
  the least number of edits.
\<close>

definition RESERVED_PREFIXES :: "string list" where
  "RESERVED_PREFIXES = [''run.'', ''task_run.'', ''flow.'', ''schedule.'', ''scheduler.'', ''resource.'',
     ''rule.'', ''expectation.'', ''backfill.'', ''worker.'']"

datatype EventName =
    RunScheduled | RunPending | RunRunning | RunCompleted | RunFailed | RunCrashed | RunCancelled |
    RunLate | RunOverdue | RunRetrying | RunSkipped | RunPaused | RunResumed | RunReportRejected |
    RunLocalPathOnWorker | TaskRunRunning | TaskRunCompleted | TaskRunFailed | TaskRunCancelled |
    TaskRunSkipped | TaskRunCached | TaskRunReplayed | TaskRunRecovered | FlowRegistered |
    FlowDisabled | FlowEnabled | FlowFanIn | FlowRecovered | BackfillCompleted | SchedulePaused |
    ScheduleResumed | SchedulerPaused | SchedulerResumed | ScheduleCatchup | ScheduleSkipsDropped |
    ResourceExhausted | RuleFired | RuleActionCompleted | RuleActionFailed | RuleLoopLimited |
    ExpectationArmed | ExpectationMet | ExpectationLapsed | WorkerRegistered | WorkerOffline

definition EventName_ALL :: "EventName list" where
  "EventName_ALL = [
     RunScheduled, RunPending, RunRunning, RunCompleted, RunFailed, RunCrashed, RunCancelled,
     RunLate, RunOverdue, RunRetrying, RunSkipped, RunPaused, RunResumed, RunReportRejected,
     TaskRunRunning, TaskRunCompleted, TaskRunFailed, TaskRunCancelled, TaskRunSkipped,
     TaskRunCached, TaskRunReplayed, TaskRunRecovered, FlowRegistered, FlowDisabled, FlowEnabled,
     FlowFanIn, FlowRecovered, BackfillCompleted, SchedulePaused, ScheduleResumed, SchedulerPaused,
     SchedulerResumed, ScheduleCatchup, ScheduleSkipsDropped, ResourceExhausted, RuleFired,
     RuleActionCompleted, RuleActionFailed, RuleLoopLimited, ExpectationArmed, ExpectationMet,
     ExpectationLapsed, RunLocalPathOnWorker, WorkerRegistered, WorkerOffline]"

primrec EventName_as_str :: "EventName \<Rightarrow> string" where
  "EventName_as_str RunScheduled = ''run.scheduled''"
| "EventName_as_str RunPending = ''run.pending''"
| "EventName_as_str RunRunning = ''run.running''"
| "EventName_as_str RunCompleted = ''run.completed''"
| "EventName_as_str RunFailed = ''run.failed''"
| "EventName_as_str RunCrashed = ''run.crashed''"
| "EventName_as_str RunCancelled = ''run.cancelled''"
| "EventName_as_str RunLate = ''run.late''"
| "EventName_as_str RunOverdue = ''run.overdue''"
| "EventName_as_str RunRetrying = ''run.retrying''"
| "EventName_as_str RunSkipped = ''run.skipped''"
| "EventName_as_str RunPaused = ''run.paused''"
| "EventName_as_str RunResumed = ''run.resumed''"
| "EventName_as_str RunReportRejected = ''run.report_rejected''"
| "EventName_as_str TaskRunRunning = ''task_run.running''"
| "EventName_as_str TaskRunCompleted = ''task_run.completed''"
| "EventName_as_str TaskRunFailed = ''task_run.failed''"
| "EventName_as_str TaskRunCancelled = ''task_run.cancelled''"
| "EventName_as_str TaskRunSkipped = ''task_run.skipped''"
| "EventName_as_str TaskRunCached = ''task_run.cached''"
| "EventName_as_str TaskRunReplayed = ''task_run.replayed''"
| "EventName_as_str TaskRunRecovered = ''task_run.recovered''"
| "EventName_as_str FlowRegistered = ''flow.registered''"
| "EventName_as_str FlowDisabled = ''flow.disabled''"
| "EventName_as_str FlowEnabled = ''flow.enabled''"
| "EventName_as_str FlowFanIn = ''flow.fan_in''"
| "EventName_as_str FlowRecovered = ''flow.recovered''"
| "EventName_as_str BackfillCompleted = ''backfill.completed''"
| "EventName_as_str SchedulePaused = ''schedule.paused''"
| "EventName_as_str ScheduleResumed = ''schedule.resumed''"
| "EventName_as_str SchedulerPaused = ''scheduler.paused''"
| "EventName_as_str SchedulerResumed = ''scheduler.resumed''"
| "EventName_as_str ScheduleCatchup = ''schedule.catchup''"
| "EventName_as_str ScheduleSkipsDropped = ''schedule.skips_dropped''"
| "EventName_as_str ResourceExhausted = ''resource.exhausted''"
| "EventName_as_str RuleFired = ''rule.fired''"
| "EventName_as_str RuleActionCompleted = ''rule.action.completed''"
| "EventName_as_str RuleActionFailed = ''rule.action.failed''"
| "EventName_as_str RuleLoopLimited = ''rule.loop_limited''"
| "EventName_as_str ExpectationArmed = ''expectation.armed''"
| "EventName_as_str ExpectationMet = ''expectation.met''"
| "EventName_as_str ExpectationLapsed = ''expectation.lapsed''"
| "EventName_as_str RunLocalPathOnWorker = ''run.local_path_on_worker''"
| "EventName_as_str WorkerRegistered = ''worker.registered''"
| "EventName_as_str WorkerOffline = ''worker.offline''"

primrec event_resource :: "EventName \<Rightarrow> string" where
  "event_resource RunScheduled = ''run''"
| "event_resource RunPending = ''run''"
| "event_resource RunRunning = ''run''"
| "event_resource RunCompleted = ''run''"
| "event_resource RunFailed = ''run''"
| "event_resource RunCrashed = ''run''"
| "event_resource RunCancelled = ''run''"
| "event_resource RunLate = ''run''"
| "event_resource RunOverdue = ''run''"
| "event_resource RunRetrying = ''run''"
| "event_resource RunSkipped = ''run''"
| "event_resource RunPaused = ''run''"
| "event_resource RunResumed = ''run''"
| "event_resource RunReportRejected = ''run''"
| "event_resource RunLocalPathOnWorker = ''run''"
| "event_resource TaskRunRunning = ''task_run''"
| "event_resource TaskRunCompleted = ''task_run''"
| "event_resource TaskRunFailed = ''task_run''"
| "event_resource TaskRunCancelled = ''task_run''"
| "event_resource TaskRunSkipped = ''task_run''"
| "event_resource TaskRunCached = ''task_run''"
| "event_resource TaskRunReplayed = ''task_run''"
| "event_resource TaskRunRecovered = ''task_run''"
| "event_resource FlowRegistered = ''flow''"
| "event_resource FlowDisabled = ''flow''"
| "event_resource FlowEnabled = ''flow''"
| "event_resource FlowFanIn = ''flow''"
| "event_resource FlowRecovered = ''flow''"
| "event_resource BackfillCompleted = ''backfill''"
| "event_resource SchedulePaused = ''schedule''"
| "event_resource ScheduleResumed = ''schedule''"
| "event_resource ScheduleCatchup = ''schedule''"
| "event_resource ScheduleSkipsDropped = ''schedule''"
| "event_resource SchedulerPaused = ''scheduler''"
| "event_resource SchedulerResumed = ''scheduler''"
| "event_resource ResourceExhausted = ''resource''"
| "event_resource RuleFired = ''rule''"
| "event_resource RuleActionCompleted = ''rule''"
| "event_resource RuleActionFailed = ''rule''"
| "event_resource RuleLoopLimited = ''rule''"
| "event_resource ExpectationArmed = ''rule''"
| "event_resource ExpectationMet = ''rule''"
| "event_resource ExpectationLapsed = ''rule''"
| "event_resource WorkerRegistered = ''worker''"
| "event_resource WorkerOffline = ''worker''"

text \<open>The prose the generated reference page prints.\<close>

primrec event_when :: "EventName \<Rightarrow> string" where
  \<open>event_when RunScheduled = ''The run is created, or re-enters Scheduled for a crash rerun''\<close>
| \<open>event_when RunPending = ''An engine accepted the run''\<close>
| \<open>event_when RunRunning = ''User code started''\<close>
| \<open>event_when RunCompleted = ''The run finished without error''\<close>
| \<open>event_when RunFailed = ''The run raised, timed out, or was set failed''\<close>
| \<open>event_when RunCrashed = ''The engine died while the run was executing''\<close>
| \<open>event_when RunCancelled = ''The run was cancelled''\<close>
| \<open>event_when RunLate = ''The scheduled time passed 15 seconds ago and the run has not started''\<close>
| \<open>event_when RunOverdue = ''A Running run outlasted its flow's expected duration or overdue factor; recorded once per run''\<close>
| \<open>event_when RunRetrying = ''A retry attempt started''\<close>
| \<open>event_when RunSkipped = ''The run ended Skipped: `on_overlap="skip"`, a backfill value already done, a catch-up drop, a fire a person skipped (`reason` `user`), or an upstream run skipped that way (`reason` `upstream`)''\<close>
| \<open>event_when RunPaused = ''The run is waiting on `wait_for_input`''\<close>
| \<open>event_when RunResumed = ''The run was answered and its next attempt scheduled''\<close>
| \<open>event_when RunReportRejected = ''The store refused one event of an engine's report; the rest of that report still applied''\<close>
| \<open>event_when TaskRunRunning = ''The task started''\<close>
| \<open>event_when TaskRunCompleted = ''The task returned''\<close>
| \<open>event_when TaskRunFailed = ''The task raised or timed out (after its retries)''\<close>
| \<open>event_when TaskRunCancelled = ''The task was cancelled with its run''\<close>
| \<open>event_when TaskRunSkipped = ''The task's `output=` target already existed''\<close>
| \<open>event_when TaskRunCached = ''The task returned a persisted result''\<close>
| \<open>event_when TaskRunReplayed = ''The task returned the checkpoint an earlier attempt of the run recorded, without executing''\<close>
| \<open>event_when TaskRunRecovered = ''An interrupted `once` task completed from what its probe found, or what a person answered, without executing''\<close>
| \<open>event_when FlowRegistered = ''The server registered the flow at start or on handoff''\<close>
| \<open>event_when FlowDisabled = ''`disable_after` tripped; the flow's schedules are paused until `until`''\<close>
| \<open>event_when FlowEnabled = ''The disable window ended and the schedules resumed''\<close>
| \<open>event_when FlowFanIn = ''Every upstream completed a run for the key value and the downstream run was created''\<close>
| \<open>event_when FlowRecovered = ''A run completed after the flow's previous terminal run had failed or crashed''\<close>
| \<open>event_when BackfillCompleted = ''The last run of a backfill reached a terminal state''\<close>
| \<open>event_when SchedulePaused = ''A schedule was paused from the UI, the API, an MCP tool, a rule, or a disable window''\<close>
| \<open>event_when ScheduleResumed = ''A schedule was resumed''\<close>
| \<open>event_when SchedulerPaused = ''Every schedule was paused at once, for maintenance or an incident; running runs continue''\<close>
| \<open>event_when SchedulerResumed = ''The global pause ended: held runs started and each schedule caught up under its own policy''\<close>
| \<open>event_when ScheduleCatchup = ''The server started and applied the catch-up policy to fires missed while it was down''\<close>
| \<open>event_when ScheduleSkipsDropped = ''An edit, or a restart that restored a code declaration, left skipped fires the schedule no longer produces, and they were forgotten''\<close>
| \<open>event_when ResourceExhausted = ''A run waited for a resource that had no capacity; recorded once per wait''\<close>
| \<open>event_when RuleFired = ''A rule matched an event and its actions started''\<close>
| \<open>event_when RuleActionCompleted = ''One action finished''\<close>
| \<open>event_when RuleActionFailed = ''One action failed, including a template that did not render''\<close>
| \<open>event_when RuleLoopLimited = ''A rule with `max_per_chain` would have added one more run to a chain already holding its bound; its actions did not run and `on_limit` ran instead when set''\<close>
| \<open>event_when ExpectationArmed = ''A proactive rule's `when` event armed an expectation''\<close>
| \<open>event_when ExpectationMet = ''The expected event arrived before the deadline''\<close>
| \<open>event_when ExpectationLapsed = ''The deadline passed, or a clock-armed rule's tick found no matching event; the rule's actions run against this event''\<close>
| \<open>event_when RunLocalPathOnWorker = ''A run on a remote worker used a `LocalTarget` outside the worker's shared paths, so the file is on that machine only''\<close>
| \<open>event_when WorkerRegistered = ''A remote worker registered, or registered again after a restart''\<close>
| \<open>event_when WorkerOffline = ''A remote worker missed three heartbeats; runs its engines held are crashed and rerun by their own heartbeats''\<close>

primrec payload_fields :: "EventName \<Rightarrow> string list" where
  "payload_fields RunReportRejected =
     [''seq'', ''kind'', ''reason'']"
| "payload_fields RunLocalPathOnWorker =
     [''path'', ''host'']"
| "payload_fields WorkerRegistered =
     [''worker_id'', ''name'', ''version'', ''refused'', ''drift'']"
| "payload_fields WorkerOffline =
     [''worker_id'', ''name'']"
| "payload_fields RunLate =
     [''state'', ''state_type'', ''message'', ''flow'', ''project'', ''parameters'', ''created_by'',
     ''scheduled_time'', ''name'']"
| "payload_fields RunOverdue =
     [''expected_seconds'', ''elapsed_seconds'', ''basis'']"
| "payload_fields RunScheduled =
     [''state'', ''state_type'', ''message'', ''flow'', ''project'', ''parameters'', ''created_by'']"
| "payload_fields RunPending =
     [''state'', ''state_type'', ''message'', ''flow'', ''project'', ''parameters'', ''created_by'']"
| "payload_fields RunRunning =
     [''state'', ''state_type'', ''message'', ''flow'', ''project'', ''parameters'', ''created_by'']"
| "payload_fields RunCompleted =
     [''state'', ''state_type'', ''message'', ''flow'', ''project'', ''parameters'', ''created_by'']"
| "payload_fields RunCancelled =
     [''state'', ''state_type'', ''message'', ''flow'', ''project'', ''parameters'', ''created_by'']"
| "payload_fields RunRetrying =
     [''state'', ''state_type'', ''message'', ''flow'', ''project'', ''parameters'', ''created_by'']"
| "payload_fields RunPaused =
     [''state'', ''state_type'', ''message'', ''flow'', ''project'', ''parameters'', ''created_by'']"
| "payload_fields RunResumed =
     [''state'', ''state_type'', ''message'', ''flow'', ''project'', ''parameters'', ''created_by'']"
| "payload_fields RunSkipped =
     [''state'', ''state_type'', ''message'', ''flow'', ''project'', ''parameters'', ''created_by'',
     ''reason'']"
| "payload_fields TaskRunRunning =
     [''task'', ''dynamic_key'', ''state'', ''message'', ''flow'', ''project'']"
| "payload_fields TaskRunCompleted =
     [''task'', ''dynamic_key'', ''state'', ''message'', ''flow'', ''project'']"
| "payload_fields TaskRunFailed =
     [''task'', ''dynamic_key'', ''state'', ''message'', ''flow'', ''project'']"
| "payload_fields TaskRunCancelled =
     [''task'', ''dynamic_key'', ''state'', ''message'', ''flow'', ''project'']"
| "payload_fields TaskRunSkipped =
     [''task'', ''dynamic_key'', ''state'', ''message'', ''flow'', ''project'']"
| "payload_fields TaskRunCached =
     [''task'', ''dynamic_key'', ''state'', ''message'', ''flow'', ''project'']"
| "payload_fields TaskRunReplayed =
     [''task'', ''dynamic_key'', ''state'', ''message'', ''flow'', ''project'']"
| "payload_fields TaskRunRecovered =
     [''task'', ''dynamic_key'', ''state'', ''message'', ''flow'', ''project'']"
| "payload_fields FlowRegistered =
     [''flow'', ''project'', ''module'']"
| "payload_fields FlowDisabled =
     [''failures'', ''window_seconds'', ''until'']"
| "payload_fields FlowEnabled =
     []"
| "payload_fields RunFailed =
     [''state'', ''state_type'', ''message'', ''flow'', ''project'', ''parameters'', ''created_by'',
     ''failures_in_a_row'']"
| "payload_fields RunCrashed =
     [''state'', ''state_type'', ''message'', ''flow'', ''project'', ''parameters'', ''created_by'',
     ''failures_in_a_row'']"
| "payload_fields FlowFanIn =
     [''key'', ''value'', ''upstream'', ''run_id'']"
| "payload_fields FlowRecovered =
     [''flow'', ''project'', ''failures'', ''run_id'']"
| "payload_fields BackfillCompleted =
     [''backfill_id'', ''counts'']"
| "payload_fields SchedulePaused =
     [''schedule_id'', ''reason'']"
| "payload_fields ScheduleResumed =
     [''schedule_id'']"
| "payload_fields SchedulerPaused =
     [''reason'', ''until'', ''suppress_rules'']"
| "payload_fields SchedulerResumed =
     [''held'', ''schedules'']"
| "payload_fields ScheduleCatchup =
     [''schedule_id'', ''policy'', ''missed'', ''created'', ''dropped'']"
| "payload_fields ScheduleSkipsDropped =
     [''schedule_id'', ''dropped'']"
| "payload_fields ResourceExhausted =
     [''resource'']"
| "payload_fields RuleFired =
     [''rule_id'', ''rule'', ''event'', ''event_id'']"
| "payload_fields RuleActionCompleted =
     [''rule_id'', ''action'', ''index'', ''detail'']"
| "payload_fields RuleActionFailed =
     [''rule_id'', ''action'', ''index'', ''error'']"
| "payload_fields RuleLoopLimited =
     [''rule_id'', ''rule'', ''chain_root'', ''rounds'', ''limit'']"
| "payload_fields ExpectationArmed =
     [''id'', ''rule_id'', ''key'', ''run_id'', ''deadline'']"
| "payload_fields ExpectationMet =
     [''id'', ''rule_id'', ''key'']"
| "payload_fields ExpectationLapsed =
     [''rule_id'', ''rule'', ''flow'', ''project'', ''run'', ''run_name'', ''expected'',
     ''deadline'', ''armed_at'', ''expectation_id'']"

definition EventName_parse :: "string \<Rightarrow> EventName option" where
  "EventName_parse s = List.find (\<lambda>e. EventName_as_str e = s) EventName_ALL"

definition reserved_prefix :: "string \<Rightarrow> string option" where
  "reserved_prefix name =
     List.find (\<lambda>p. starts_with name p \<or> name = trim_end_matches (CHR ''.'') p) RESERVED_PREFIXES"

record NameError =
  ne_value :: string
  ne_suggestion :: "string option"
  ne_message :: string

text \<open>The inner loop of the table: \<open>p0\<close> is \<^verbatim>\<open>prev[j]\<close>, \<open>p1\<close> is \<^verbatim>\<open>prev[j + 1]\<close> and \<open>left\<close> is \<^verbatim>\<open>cur[j]\<close>.\<close>

fun lev_cells :: "char \<Rightarrow> string \<Rightarrow> nat list \<Rightarrow> nat \<Rightarrow> nat list" where
  "lev_cells ca (cb # bs) (p0 # p1 # ps) left =
     (let cost = (if ca \<noteq> cb then 1 else 0);
          c = min (min (p0 + cost) (p1 + 1)) (left + 1)
      in c # lev_cells ca bs (p1 # ps) c)"
| "lev_cells _ _ _ _ = []"

fun lev_rows :: "nat \<Rightarrow> string \<Rightarrow> string \<Rightarrow> nat list \<Rightarrow> nat list" where
  "lev_rows i [] b prev = prev"
| "lev_rows i (ca # as) b prev = lev_rows (i + 1) as b ((i + 1) # lev_cells ca b prev (i + 1))"

definition levenshtein :: "string \<Rightarrow> string \<Rightarrow> nat" where
  "levenshtein a b = lev_rows 0 a b [0..<length b + 1] ! length b"

text \<open>\<^verbatim>\<open>min_by_key\<close> keeps the first of several least elements.\<close>

fun min_by_key :: "('a \<Rightarrow> nat \<times> nat) \<Rightarrow> 'a list \<Rightarrow> 'a option" where
  "min_by_key k [] = None"
| "min_by_key k (x # xs) = (case min_by_key k xs of
     None \<Rightarrow> Some x
   | Some y \<Rightarrow> if fst (k y) < fst (k x) \<or> (fst (k y) = fst (k x) \<and> snd (k y) < snd (k x))
               then Some y else Some x)"

definition nearest :: "string \<Rightarrow> string list \<Rightarrow> string option" where
  "nearest name candidates =
     (let lowered = to_ascii_lowercase name;
          budget = max (length name div 3) 1
      in map_option snd (min_by_key (\<lambda>(d, c). (d, str_len c))
           (filter (\<lambda>(d, c). d \<le> budget)
             (map (\<lambda>c. (levenshtein lowered (to_ascii_lowercase c), c)) candidates))))"

definition known_under :: "string \<Rightarrow> string list" where
  "known_under pre = map EventName_as_str (filter (\<lambda>e. starts_with (EventName_as_str e) pre) EventName_ALL)"

definition check_event_name :: "string \<Rightarrow> NameError + unit" where
  \<open>check_event_name name =
     (if ends_with name ''*'' then Inr ()
      else case reserved_prefix name of
        None \<Rightarrow> Inr ()
      | Some pre \<Rightarrow>
          if EventName_parse name \<noteq> None then Inr ()
          else let known = known_under pre;
                   suggestion = nearest name known;
                   message = ''unknown event name '' @ debug_str name @ '': '' @ debug_str pre
                     @ '' is a reserved prefix and nothing emits '' @ debug_str name
                     @ (case suggestion of
                          Some s \<Rightarrow> ''; did you mean '' @ debug_str s @ ''?''
                        | None \<Rightarrow> ''; known names are '' @ join_strs '', '' known
                            @ '', or use "'' @ pre @ ''*" to match them all'')
               in Inl \<lparr> ne_value = name, ne_suggestion = suggestion, ne_message = message \<rparr>)\<close>

definition known_states :: "string list" where
  "known_states = map StateType_as_str StateType_ALL @ map StateName_as_str StateName_ALL"

definition check_state_name :: "string \<Rightarrow> NameError + unit" where
  "check_state_name name =
     (if StateType_parse name \<noteq> None \<or> StateName_parse name \<noteq> None then Inr ()
      else let suggestion = nearest name known_states;
               message = ''unknown state '' @ debug_str name
                 @ (case suggestion of
                      Some s \<Rightarrow> ''; did you mean '' @ debug_str s @ ''?''
                    | None \<Rightarrow> ''; expected a state type ('' @ join_strs '', '' (map StateType_as_str StateType_ALL)
                        @ '') or a sub-state name ('' @ join_strs '', '' (map StateName_as_str StateName_ALL) @ '')'')
           in Inl \<lparr> ne_value = name, ne_suggestion = suggestion, ne_message = message \<rparr>)"

section \<open>The catalogue\<close>

lemma EventName_ALL_complete [simp]: "e \<in> set EventName_ALL"
  by (cases e) (simp_all add: EventName_ALL_def)

lemma event_texts_distinct: "distinct (map EventName_as_str EventName_ALL)"
  by (simp add: EventName_ALL_def)

lemma EventName_as_str_inj [simp]: "EventName_as_str a = EventName_as_str b \<longleftrightarrow> a = b"
  using event_texts_distinct by (auto simp: distinct_map inj_on_def)

lemma EventName_parse_as_str [simp]: "EventName_parse (EventName_as_str e) = Some e"
  unfolding EventName_parse_def by (rule find_key_unique) auto

lemma EventName_parse_sound: "EventName_parse s = Some e \<Longrightarrow> EventName_as_str e = s"
  unfolding EventName_parse_def by (rule find_key_sound)

lemma EventName_parse_iff: "EventName_parse s \<noteq> None \<longleftrightarrow> (\<exists>e. s = EventName_as_str e)"
  using EventName_parse_sound by force

section \<open>The table computes the edit distance\<close>

text \<open>\<open>edits n xs ys\<close>: some script of \<open>n\<close> substitutions, deletions and insertions turns \<open>xs\<close> into \<open>ys\<close>.\<close>

inductive edits :: "nat \<Rightarrow> 'a list \<Rightarrow> 'a list \<Rightarrow> bool" where
  edits_nil: "edits 0 [] []"
| edits_keep: "edits n xs ys \<Longrightarrow> edits n (x # xs) (x # ys)"
| edits_subst: "edits n xs ys \<Longrightarrow> edits (Suc n) (x # xs) (y # ys)"
| edits_del: "edits n xs ys \<Longrightarrow> edits (Suc n) (x # xs) ys"
| edits_ins: "edits n xs ys \<Longrightarrow> edits (Suc n) xs (y # ys)"

fun ed :: "'a list \<Rightarrow> 'a list \<Rightarrow> nat" where
  "ed [] ys = length ys"
| "ed (x # xs) [] = length (x # xs)"
| "ed (x # xs) (y # ys) =
     min (min (ed xs ys + (if x \<noteq> y then 1 else 0)) (ed xs (y # ys) + 1)) (ed (x # xs) ys + 1)"

lemma ed_Nil2 [simp]: "ed xs [] = length xs"
  by (cases xs) simp_all

lemma edits_insert_all: "edits (length ys) [] ys"
  by (induction ys) (auto intro: edits.intros)

lemma edits_delete_all: "edits (length xs) xs []"
  by (induction xs) (auto intro: edits.intros)

lemma edits_ed: "edits (ed xs ys) xs ys"
proof (induction xs ys rule: ed.induct)
  case (3 x xs y ys)
  let ?a = "ed xs ys + (if x \<noteq> y then 1 else 0)" and ?b = "ed xs (y # ys) + 1" and ?c = "ed (x # xs) ys + 1"
  have a: "edits ?a (x # xs) (y # ys)"
    using 3 by (auto intro: edits_keep edits_subst)
  have b: "edits ?b (x # xs) (y # ys)" and c: "edits ?c (x # xs) (y # ys)"
    using 3 by (auto intro: edits_del edits_ins)
  have "ed (x # xs) (y # ys) \<in> {?a, ?b, ?c}" by (simp add: min_def)
  then show ?case using a b c by (metis empty_iff insert_iff)
qed (simp_all add: edits_insert_all edits_delete_all[of "_ # _", simplified])

lemma ed_lipschitz: "ed xs (y # ys) \<le> ed xs ys + 1" "ed (x # xs) ys \<le> ed xs ys + 1"
  by (cases xs; simp) (cases ys; simp)

lemma edits_ed_le: "edits n xs ys \<Longrightarrow> ed xs ys \<le> n"
proof (induction rule: edits.induct)
  case (edits_del n xs ys x)
  then show ?case using ed_lipschitz(2)[of x xs ys] by linarith
next
  case (edits_ins n xs ys y)
  then show ?case using ed_lipschitz(1)[of xs y ys] by linarith
qed auto

lemma edits_append: "edits n xs ys \<Longrightarrow> edits m us vs \<Longrightarrow> edits (n + m) (xs @ us) (ys @ vs)"
  by (induction rule: edits.induct) (auto intro: edits.intros)

lemma edits_rev: "edits n xs ys \<Longrightarrow> edits n (rev xs) (rev ys)"
proof (induction rule: edits.induct)
  case (edits_keep n xs ys x)
  then show ?case using edits_append[OF _ edits.edits_keep[OF edits_nil]] by fastforce
next
  case (edits_subst n xs ys x y)
  then show ?case using edits_append[OF _ edits.edits_subst[OF edits_nil]] by fastforce
next
  case (edits_del n xs ys x)
  then show ?case using edits_append[OF _ edits.edits_del[OF edits_nil]] by fastforce
next
  case (edits_ins n xs ys y)
  then show ?case using edits_append[OF _ edits.edits_ins[OF edits_nil]] by fastforce
qed (simp add: edits_nil)

lemma ed_rev: "ed (rev xs) (rev ys) = ed xs ys"
proof (rule antisym)
  show "ed (rev xs) (rev ys) \<le> ed xs ys" by (intro edits_ed_le edits_rev edits_ed)
  show "ed xs ys \<le> ed (rev xs) (rev ys)"
    using edits_ed_le[OF edits_rev[OF edits_ed[of "rev xs" "rev ys"]]] by simp
qed

text \<open>Row \<open>i\<close> of the table holds the distances of the prefix of length \<open>i\<close> to every prefix of \<open>b\<close>.\<close>

definition lev_row :: "string \<Rightarrow> string \<Rightarrow> string \<Rightarrow> nat list" where
  "lev_row ra rb b = map (\<lambda>j. ed ra (rev (take j b) @ rb)) [0..<length b + 1]"

lemma lev_row_Cons: "lev_row ra rb (cb # b) = ed ra rb # lev_row ra (cb # rb) b"
proof -
  have "[0..<length (cb # b) + 1] = 0 # map Suc [0..<length b + 1]"
    by (simp add: map_Suc_upt upt_conv_Cons del: upt_Suc)
  then show ?thesis by (simp add: lev_row_def del: upt_Suc)
qed

lemma lev_row_hd: "\<exists>tl. lev_row ra rb b = ed ra rb # tl"
  by (simp add: lev_row_def upt_conv_Cons del: upt_Suc)

lemma lev_cells_row:
  "ed (ca # ra) rb # lev_cells ca b (lev_row ra rb b) (ed (ca # ra) rb) = lev_row (ca # ra) rb b"
proof (induction b arbitrary: rb)
  case Nil
  then show ?case by (simp add: lev_row_def)
next
  case (Cons cb b)
  obtain tl where tl: "lev_row ra (cb # rb) b = ed ra (cb # rb) # tl"
    using lev_row_hd by blast
  have "lev_cells ca (cb # b) (lev_row ra rb (cb # b)) (ed (ca # ra) rb)
      = ed (ca # ra) (cb # rb) # lev_cells ca b (lev_row ra (cb # rb) b) (ed (ca # ra) (cb # rb))"
    by (simp add: lev_row_Cons tl Let_def)
  then show ?case using Cons.IH[of "cb # rb"] by (simp only: lev_row_Cons)
qed

lemma lev_rows_row: "lev_rows (length ra) a b (lev_row ra [] b) = lev_row (rev a @ ra) [] b"
proof (induction a arbitrary: ra)
  case (Cons ca a)
  have "lev_rows (length ra) (ca # a) b (lev_row ra [] b)
      = lev_rows (length (ca # ra)) a b (lev_row (ca # ra) [] b)"
    using lev_cells_row[of ca ra "[]" b] by simp
  then show ?case using Cons.IH[of "ca # ra"] by simp
qed simp

lemma levenshtein_ed: "levenshtein a b = ed a b"
proof -
  have "lev_row [] [] b = [0..<length b + 1]"
    by (auto simp: lev_row_def intro!: nth_equalityI)
  then have "lev_rows 0 a b [0..<length b + 1] = lev_row (rev a) [] b"
    using lev_rows_row[of "[]" a b] by simp
  moreover have "lev_row (rev a) [] b ! length b = ed (rev a) (rev b)"
    by (simp add: lev_row_def del: upt_Suc)
  ultimately show ?thesis by (simp add: levenshtein_def ed_rev)
qed

section \<open>Suggestions\<close>

definition key_le :: "nat \<times> nat \<Rightarrow> nat \<times> nat \<Rightarrow> bool" where
  "key_le a b \<longleftrightarrow> fst a < fst b \<or> (fst a = fst b \<and> snd a \<le> snd b)"

lemma min_by_key_None [simp]: "min_by_key k xs = None \<longleftrightarrow> xs = []"
  by (cases xs) (auto split: option.splits)

lemma min_by_key_Some:
  "min_by_key k xs = Some x \<Longrightarrow> x \<in> set xs \<and> (\<forall>y \<in> set xs. key_le (k x) (k y))"
proof (induction xs arbitrary: x)
  case (Cons a xs)
  show ?case
  proof (cases "min_by_key k xs")
    case None
    then show ?thesis using Cons.prems by (simp add: key_le_def)
  next
    case (Some y)
    then show ?thesis
      using Cons.prems Cons.IH[OF Some]
      by (auto simp: key_le_def split: if_splits)
  qed
qed simp

definition distance :: "string \<Rightarrow> string \<Rightarrow> nat" where
  "distance name c = ed (to_ascii_lowercase name) (to_ascii_lowercase c)"

definition budget_of :: "string \<Rightarrow> nat" where
  "budget_of name = max (length name div 3) 1"

lemma nearest_Some:
  assumes "nearest name cs = Some s"
  shows "s \<in> set cs" "distance name s \<le> budget_of name" "c \<in> set cs \<Longrightarrow> distance name s \<le> distance name c"
proof -
  let ?xs = "filter (\<lambda>(d, c). d \<le> budget_of name) (map (\<lambda>c. (distance name c, c)) cs)"
  obtain d where m: "min_by_key (\<lambda>(d, c). (d, str_len c)) ?xs = Some (d, s)"
    using assms by (auto simp: nearest_def Let_def levenshtein_ed distance_def budget_of_def)
  note ms = min_by_key_Some[OF m]
  show 1: "s \<in> set cs" "distance name s \<le> budget_of name" using ms by auto
  assume c: "c \<in> set cs"
  show "distance name s \<le> distance name c"
  proof (cases "distance name c \<le> budget_of name")
    case True
    then have "(distance name c, c) \<in> set ?xs" using c by force
    then show ?thesis using ms by (fastforce simp: key_le_def)
  qed (use 1 in linarith)
qed

lemma nearest_None: "nearest name cs = None \<longleftrightarrow> (\<forall>c \<in> set cs. budget_of name < distance name c)"
  by (auto simp: nearest_def Let_def levenshtein_ed distance_def budget_of_def filter_empty_conv not_le)

lemma known_under_iff: "s \<in> set (known_under p) \<longleftrightarrow> (\<exists>e. s = EventName_as_str e \<and> prefix p s)"
  by (auto simp: known_under_def starts_with_iff)

section \<open>Properties\<close>

lemma reserved_prefix_None:
  "reserved_prefix name = None \<longleftrightarrow> \<not> (\<exists>p \<in> set RESERVED_PREFIXES. prefix p name \<or> name @ ''.'' = p)"
proof -
  have "trim_end_matches (CHR ''.'') p @ ''.'' = p" if "p \<in> set RESERVED_PREFIXES" for p
    using that by (auto simp: RESERVED_PREFIXES_def trim_end_matches_def)
  then have "name = trim_end_matches (CHR ''.'') p \<longleftrightarrow> name @ ''.'' = p" if "p \<in> set RESERVED_PREFIXES" for p
    using that by (metis append_same_eq)
  then show ?thesis by (auto simp: reserved_prefix_def find_None_iff starts_with_iff)
qed

lemma reserved_prefix_Some: "reserved_prefix name = Some p \<Longrightarrow> p \<in> set RESERVED_PREFIXES"
  unfolding reserved_prefix_def using find_mem by fast

lemma event_reserved: "\<exists>p. reserved_prefix (EventName_as_str e) = Some p"
  by (cases e) (simp_all add: reserved_prefix_def RESERVED_PREFIXES_def starts_with_def)

text \<open>C26: the two-row table of \<^const>\<open>levenshtein\<close> computes the edit distance: the least length of a
  script of substitutions, deletions and insertions that turns one text into the other.\<close>

theorem levenshtein_least_edits:
  "edits (levenshtein a b) a b \<and> levenshtein a b = (LEAST n. edits n a b)"
  unfolding levenshtein_ed using edits_ed edits_ed_le by (metis Least_equality)

text \<open>A rule may match on a name exactly when it ends in a wildcard, or lies outside the prefixes
  the engine owns, or is an entry of the catalogue.\<close>

theorem check_event_name_accepts:
  "check_event_name name = Inr () \<longleftrightarrow>
     suffix ''*'' name
     \<or> \<not> (\<exists>p \<in> set RESERVED_PREFIXES. prefix p name \<or> name @ ''.'' = p)
     \<or> (\<exists>e. name = EventName_as_str e)"
  unfolding reserved_prefix_None[symmetric] EventName_parse_iff[symmetric]
  by (auto simp: check_event_name_def ends_with_iff Let_def split: option.splits)

theorem check_event_name_accepts_witness:
  "check_event_name ''run.failed'' = Inr () \<and> check_event_name ''run.failure'' \<noteq> Inr ()
   \<and> check_event_name ''runs.failed'' = Inr ()"
proof -
  have 1: "\<exists>e. ''run.failed'' = EventName_as_str e" by (rule exI[of _ RunFailed]) simp
  have 2: "\<not> (\<exists>e. ''run.failure'' = EventName_as_str e)"
    using EventName_parse_iff[of "''run.failure''"] by (simp add: EventName_parse_def EventName_ALL_def)
  show ?thesis
    unfolding check_event_name_accepts using 1 2
    by (simp add: RESERVED_PREFIXES_def suffix_def append_eq_Cons_conv)
qed

text \<open>When a name is refused with a suggestion, the suggestion is an entry of the catalogue under
  the same reserved prefix, within the budget of edits, and no entry under that prefix is nearer;
  when it is refused without one, every such entry is out of budget.\<close>

theorem check_event_name_suggests:
  assumes "check_event_name name = Inl err" "reserved_prefix name = Some p"
  shows "ne_value err = name \<and> (case ne_suggestion err of
      Some s \<Rightarrow> (\<exists>e. s = EventName_as_str e \<and> prefix p s) \<and> distance name s \<le> budget_of name
        \<and> (\<forall>c \<in> set (known_under p). distance name s \<le> distance name c)
    | None \<Rightarrow> (\<forall>c \<in> set (known_under p). budget_of name < distance name c))"
proof -
  have "ne_suggestion err = nearest name (known_under p)" "ne_value err = name"
    using assms by (auto simp: check_event_name_def Let_def split: if_splits)
  then show ?thesis
    using nearest_Some[of name "known_under p"] nearest_None[of name "known_under p"] known_under_iff[of _ p]
    by (auto split: option.splits)
qed

theorem check_event_name_suggests_witness:
  "ne_value (projl (check_event_name ''run.late_'')) = ''run.late_''"
proof -
  have p: "reserved_prefix ''run.late_'' = Some ''run.''"
    by (simp add: reserved_prefix_def RESERVED_PREFIXES_def starts_with_def)
  have "EventName_parse ''run.late_'' = None"
    by (simp add: EventName_parse_def EventName_ALL_def)
  then have "check_event_name ''run.late_'' = Inl (projl (check_event_name ''run.late_''))"
    using p by (simp add: check_event_name_def ends_with_def Let_def)
  then show ?thesis using check_event_name_suggests[OF _ p] by blast
qed

text \<open>The catalogue is well formed: its texts are pairwise distinct and parse back, every entry
  lies under a reserved prefix and passes the check, is grouped under the resource its text starts
  with unless that resource is the rule, and has prose.\<close>

theorem catalogue_well_formed:
  "distinct (map EventName_as_str EventName_ALL) \<and> EventName_parse (EventName_as_str e) = Some e
   \<and> (\<exists>p. reserved_prefix (EventName_as_str e) = Some p) \<and> check_event_name (EventName_as_str e) = Inr ()
   \<and> (prefix (event_resource e @ ''.'') (EventName_as_str e) \<or> event_resource e = ''rule'')
   \<and> event_when e \<noteq> []"
proof -
  have "prefix (event_resource e @ ''.'') (EventName_as_str e) \<or> event_resource e = ''rule''"
    by (cases e) simp_all
  moreover have "event_when e \<noteq> []" by (cases e) simp_all
  moreover have "check_event_name (EventName_as_str e) = Inr ()"
    by (auto simp: check_event_name_def split: option.splits)
  ultimately show ?thesis using event_texts_distinct event_reserved by simp
qed

text \<open>A name is valid in a rule's state list exactly when it is the text of a state type or of a
  sub-state; any other name is refused, and its suggestion, if any, is such a text.\<close>

theorem check_state_name_accepts:
  "(check_state_name name = Inr () \<longleftrightarrow> (\<exists>t. name = StateType_as_str t) \<or> (\<exists>n. name = StateName_as_str n))
   \<and> (case check_state_name name of Inr _ \<Rightarrow> True
      | Inl err \<Rightarrow> ne_value err = name
          \<and> (case ne_suggestion err of None \<Rightarrow> True | Some s \<Rightarrow> check_state_name s = Inr ()))"
proof -
  have acc: "check_state_name x = Inr () \<longleftrightarrow> (\<exists>t. x = StateType_as_str t) \<or> (\<exists>n. x = StateName_as_str n)" for x
    using StateType_parse_sound[of x] StateName_parse_sound[of x]
    by (cases "StateType_parse x"; cases "StateName_parse x") (auto simp: check_state_name_def Let_def)
  have "s \<in> set known_states \<Longrightarrow> check_state_name s = Inr ()" for s
    by (auto simp: acc known_states_def)
  then have "nearest name known_states = Some s \<Longrightarrow> check_state_name s = Inr ()" for s
    using nearest_Some(1) by blast
  then show ?thesis
    unfolding acc by (auto simp: check_state_name_def Let_def split: option.splits)
qed

end
