(* ===== verification/Rule_Engine.thy ===== *)
theory Rule_Engine
  imports Model Events
begin

text \<open>
  Rule matching, guards and validation (\<^verbatim>\<open>crates/rules/src/lib.rs\<close>). The template
  engine is a library: compiling an expression or a template and checking a
  cron expression are parameters of the validator, each returning its error
  text if any.
\<close>

definition name_matches :: "string \<Rightarrow> string \<Rightarrow> bool" where
  "name_matches pattern name =
     (case strip_suffix pattern ''*'' of
        Some pre \<Rightarrow> starts_with name pre
      | None \<Rightarrow> pattern = name)"

record RunContext =
  ctx_run :: "Run option"
  ctx_flow :: "Flow option"
  ctx_chain_root :: "int option"
  ctx_result :: "json option"

definition guard_run :: "RunContext \<Rightarrow> int option" where
  "guard_run ctx = map_option (\<lambda>r. case ctx_chain_root ctx of Some c \<Rightarrow> c | None \<Rightarrow> run_id r) (ctx_run ctx)"

definition payload_str :: "Event \<Rightarrow> string \<Rightarrow> string option" where
  "payload_str event key = Option.bind (jmap_get (ev_payload event) key) as_str"

definition or_else :: "'a option \<Rightarrow> 'a option \<Rightarrow> 'a option" where
  "or_else x y = (case x of Some _ \<Rightarrow> x | None \<Rightarrow> y)"

definition event_flow_name :: "Event \<Rightarrow> RunContext \<Rightarrow> string option" where
  "event_flow_name event ctx =
     or_else (map_option fl_name (ctx_flow ctx))
       (or_else (map_option run_flow_name (ctx_run ctx))
         (map_option res_name (List.find (\<lambda>r. res_kind r = ''flow'') (ev_related event))))"

definition event_project :: "Event \<Rightarrow> RunContext \<Rightarrow> string option" where
  "event_project event ctx =
     or_else (map_option fl_project (ctx_flow ctx))
       (or_else (map_option run_project (ctx_run ctx)) (payload_str event ''project''))"

definition event_tags :: "Event \<Rightarrow> RunContext \<Rightarrow> string list" where
  "event_tags event ctx =
     (case ctx_run ctx of
        Some r \<Rightarrow> run_tags r
      | None \<Rightarrow> map res_name (filter (\<lambda>r. res_kind r = ''tag'') (ev_related event)))"

definition eq_ignore_ascii_case :: "string \<Rightarrow> string \<Rightarrow> bool" where
  "eq_ignore_ascii_case a b \<longleftrightarrow> to_ascii_lowercase a = to_ascii_lowercase b"

text \<open>The state name and type an event is matched under.\<close>

definition event_state_texts :: "Event \<Rightarrow> RunContext \<Rightarrow> string list" where
  "event_state_texts event ctx =
     (let (name, type_name) = (case ctx_run ctx of
            Some r \<Rightarrow> (Some (st_name (run_state r)), Some (StateType_as_str (st_type (run_state r))))
          | None \<Rightarrow> (payload_str event ''state'', payload_str event ''state_type''));
          type_name = (if type_name = None then
              Option.bind name (\<lambda>n. map_option StateType_as_str
                (or_else (map_option name_state_type (StateName_parse n)) (StateType_parse n)))
            else type_name)
      in List.map_filter id [name, type_name])"

definition matches :: "RuleMatch \<Rightarrow> Event \<Rightarrow> RunContext \<Rightarrow> bool" where
  "matches m event ctx =
     (if rm_events m \<noteq> [] \<and> \<not> (\<exists>p \<in> set (rm_events m). name_matches p (ev_name event)) then False
      else if rm_flows m \<noteq> [] \<and> \<not> (case event_flow_name event ctx of
          Some name \<Rightarrow> name \<in> set (rm_flows m) | None \<Rightarrow> False) then False
      else if (case rm_project m of Some project \<Rightarrow> event_project event ctx \<noteq> Some project | None \<Rightarrow> False) then False
      else if rm_tags m \<noteq> [] \<and> \<not> (\<exists>t \<in> set (rm_tags m). t \<in> set (event_tags event ctx)) then False
      else if rm_states m \<noteq> [] \<and> \<not> (\<exists>s \<in> set (event_state_texts event ctx).
          \<exists>x \<in> set (rm_states m). eq_ignore_ascii_case x s) then False
      else True)"

record GuardState =
  gs_last_fired :: "micros option"
  gs_recent :: "micros list"
  gs_fired_runs :: "int list"

definition GuardState_default :: GuardState where
  "GuardState_default = \<lparr> gs_last_fired = None, gs_recent = [], gs_fired_runs = [] \<rparr>"

datatype GuardDecision = GuardFire | GuardSkip string

definition check_guards :: "RuleRow \<Rightarrow> Event \<Rightarrow> RunContext \<Rightarrow> GuardState \<Rightarrow> micros \<Rightarrow> GuardDecision" where
  "check_guards rule event ctx state now =
     (if \<not> rr_enabled rule then GuardSkip ''disabled''
      else if (case ctx_run ctx of
          Some run \<Rightarrow> \<not> rs_allow_self (rr_spec rule) \<and> run_created_by run = ''rule:'' @ show_int (rr_id rule)
        | None \<Rightarrow> False) then GuardSkip ''self-trigger''
      else if (case ctx_run ctx of
          Some run \<Rightarrow> rs_once (rr_spec rule) = ''per_run''
            \<and> (case ctx_chain_root ctx of Some c \<Rightarrow> c | None \<Rightarrow> run_id run) \<in> set (gs_fired_runs state)
        | None \<Rightarrow> False) then GuardSkip ''once per run''
      else if f64_lt (Fin 0) (rs_cooldown_seconds (rr_spec rule)) \<and> (case gs_last_fired state of
          Some fired \<Rightarrow> f64_lt (f64_div (f64_of_int (i64_sub now fired)) (Fin 1000000)) (rs_cooldown_seconds (rr_spec rule))
        | None \<Rightarrow> False) then GuardSkip ''cooldown''
      else let minute_ago = i64_sub now 60000000;
               recent = int (length (filter (\<lambda>t. t > minute_ago) (gs_recent state)))
           in if 0 < rs_max_per_minute (rr_spec rule) \<and> rs_max_per_minute (rr_spec rule) \<le> recent
              then GuardSkip ''rate cap''
              else if 0 < rs_after_consecutive (rr_spec rule) \<and>
                  (case Option.bind (jmap_get (ev_payload event) ''failures_in_a_row'') as_i64 of
                     Some streak \<Rightarrow> streak | None \<Rightarrow> 0) < rs_after_consecutive (rr_spec rule)
              then GuardSkip ''consecutive''
              else GuardFire)"

text \<open>The memory of runs a rule fired for is bounded: past 10000 the oldest 5000 are dropped.\<close>

definition GuardState_record :: "int option \<Rightarrow> micros \<Rightarrow> GuardState \<Rightarrow> GuardState" where
  "GuardState_record run now s =
     (let minute_ago = i64_sub now 60000000;
          s = s\<lparr> gs_last_fired := Some now, gs_recent := filter (\<lambda>t. t > minute_ago) (gs_recent s @ [now]) \<rparr>
      in case run of
           None \<Rightarrow> s
         | Some r \<Rightarrow>
             if r \<in> set (gs_fired_runs s) then s
             else let runs = gs_fired_runs s @ [r] in
               s\<lparr> gs_fired_runs := (if length runs > 10000 then drop 5000 runs else runs) \<rparr>)"

text \<open>
  One rule's part of the event path (\<^verbatim>\<open>crates/server/src/rules.rs\<close>): the guards are
  read and, when they let the rule fire, recorded under one lock.
\<close>

definition guard_step :: "RuleRow \<Rightarrow> Event \<times> RunContext \<times> micros \<Rightarrow> GuardState \<Rightarrow> bool \<times> GuardState" where
  "guard_step rule input g =
     (case input of (event, ctx, now) \<Rightarrow>
        (case check_guards rule event ctx g now of
           GuardFire \<Rightarrow> (True, GuardState_record (guard_run ctx) now g)
         | GuardSkip _ \<Rightarrow> (False, g)))"

text \<open>
  The loop over the candidate rules of an event: which fire and which meet
  their bound per chain. The rounds a rule has added to a run's chain are read
  from the store and a condition is evaluated by the template engine; both are
  parameters. The answer of a condition that cannot be evaluated is \<^const>\<open>None\<close>.
\<close>

record Selection =
  sel_guards :: "int \<Rightarrow> GuardState"
  sel_fire :: "(RuleRow \<times> int) list"
  sel_limit :: "(RuleRow \<times> int) list"

definition sublist_of :: "string \<Rightarrow> string \<Rightarrow> bool" where
  "sublist_of pat s \<longleftrightarrow> split_once pat s \<noteq> None"

definition chain_rounds :: "(RuleRow \<Rightarrow> Run \<Rightarrow> int) \<Rightarrow> RuleRow \<Rightarrow> RunContext \<Rightarrow> int" where
  "chain_rounds loop_count rule ctx =
     (case ctx_run ctx of
        Some run \<Rightarrow>
          if 0 < rs_max_per_chain (rr_spec rule)
             \<or> (case rs_condition (rr_spec rule) of Some c \<Rightarrow> sublist_of ''loop'' c | None \<Rightarrow> False)
          then loop_count rule run else 0
      | None \<Rightarrow> 0)"

definition select_rule ::
  "(RuleRow \<Rightarrow> Run \<Rightarrow> int) \<Rightarrow> (string \<Rightarrow> int \<Rightarrow> bool option) \<Rightarrow> Event \<Rightarrow> RunContext \<Rightarrow> micros \<Rightarrow> int list
     \<Rightarrow> RuleRow \<Rightarrow> Selection \<Rightarrow> Selection" where
  "select_rule loop_count condition event ctx now cands rule sel =
     (if rr_id rule \<notin> set cands \<or> is_proactive (rr_spec rule) then sel
      else if \<not> matches (rs_when (rr_spec rule)) event ctx then sel
      else let rounds = chain_rounds loop_count rule ctx in
        if (case rs_condition (rr_spec rule) of Some expr \<Rightarrow> condition expr rounds \<noteq> Some True | None \<Rightarrow> False) then sel
        else if 0 < rs_max_per_chain (rr_spec rule) \<and> ctx_run ctx \<noteq> None \<and> rs_max_per_chain (rr_spec rule) \<le> rounds
        then sel\<lparr> sel_limit := sel_limit sel @ [(rule, rounds)] \<rparr>
        else let (fired, g) = guard_step rule (event, ctx, now) (sel_guards sel (rr_id rule));
                 sel = sel\<lparr> sel_guards := (sel_guards sel)(rr_id rule := g) \<rparr>
             in if fired then sel\<lparr> sel_fire := sel_fire sel @ [(rule, rounds)] \<rparr> else sel)"

definition select_rules ::
  "(RuleRow \<Rightarrow> Run \<Rightarrow> int) \<Rightarrow> (string \<Rightarrow> int \<Rightarrow> bool option) \<Rightarrow> Event \<Rightarrow> RunContext \<Rightarrow> micros \<Rightarrow> int list
     \<Rightarrow> RuleRow list \<Rightarrow> (int \<Rightarrow> GuardState) \<Rightarrow> Selection" where
  "select_rules loop_count condition event ctx now cands rules guards =
     fold (select_rule loop_count condition event ctx now cands) rules
       \<lparr> sel_guards = guards, sel_fire = [], sel_limit = [] \<rparr>"

section \<open>The index of rules by event prefix\<close>

record RuleIndex =
  ri_by_prefix :: "string \<Rightarrow> int list"
  ri_all :: "int list"

definition RuleIndex_default :: RuleIndex where
  "RuleIndex_default = \<lparr> ri_by_prefix = (\<lambda>_. []), ri_all = [] \<rparr>"

text \<open>\<^verbatim>\<open>split('.').next()\<close>, and the key a pattern is filed under.\<close>

definition first_segment :: "string \<Rightarrow> string" where
  "first_segment s = takeWhile (\<lambda>c. c \<noteq> CHR ''.'') s"

definition pattern_key :: "string \<Rightarrow> string" where
  "pattern_key p = trim_end_matches (CHR ''*'') (first_segment p)"

definition index_pattern :: "int \<Rightarrow> string \<Rightarrow> RuleIndex \<Rightarrow> RuleIndex" where
  "index_pattern i p idx =
     (let key = pattern_key p in
      if key = [] then idx\<lparr> ri_all := ri_all idx @ [i] \<rparr>
      else idx\<lparr> ri_by_prefix := (ri_by_prefix idx)(key := ri_by_prefix idx key @ [i]) \<rparr>)"

definition index_rule :: "RuleRow \<Rightarrow> RuleIndex \<Rightarrow> RuleIndex" where
  "index_rule r idx =
     (let spec = rr_spec r;
          idx1 = (case rs_unless spec of
             Some unless \<Rightarrow> fold (index_pattern (rr_id r)) (rm_events unless) idx
           | None \<Rightarrow> idx)
      in if rs_unless spec \<noteq> None \<and> rs_at spec \<noteq> None then idx1
         else if rm_events (rs_when spec) = [] then idx1\<lparr> ri_all := ri_all idx1 @ [rr_id r] \<rparr>
         else fold (index_pattern (rr_id r)) (rm_events (rs_when spec)) idx1)"

definition RuleIndex_build :: "RuleRow list \<Rightarrow> RuleIndex" where
  "RuleIndex_build rules = fold index_rule rules RuleIndex_default"

definition candidates :: "RuleIndex \<Rightarrow> string \<Rightarrow> int list" where
  "candidates idx event_name = remdups (sort (ri_all idx @ ri_by_prefix idx (first_segment event_name)))"

section \<open>Validation\<close>

definition CANCELLABLE_STATES :: "string list" where
  "CANCELLABLE_STATES = [''Scheduled'', ''Pending'', ''Running'', ''Paused'']"

definition PRESETS :: "string list" where
  "PRESETS = [''slack'', ''teams'', ''discord'', ''ntfy'', ''telegram'', ''pagerduty'']"

fun first_error :: "('a \<Rightarrow> string option) \<Rightarrow> 'a list \<Rightarrow> string option" where
  "first_error f [] = None"
| "first_error f (x # xs) = (case f x of Some e \<Rightarrow> Some e | None \<Rightarrow> first_error f xs)"

definition name_error :: "string \<Rightarrow> NameError + unit \<Rightarrow> string option" where
  "name_error clause res = (case res of Inl e \<Rightarrow> Some (clause @ '': '' @ ne_message e) | Inr _ \<Rightarrow> None)"

definition validate_match :: "RuleMatch \<Rightarrow> string \<Rightarrow> string option" where
  "validate_match m clause =
     (case first_error (\<lambda>n. name_error clause (check_event_name n)) (rm_events m) of
        Some e \<Rightarrow> Some e
      | None \<Rightarrow> first_error (\<lambda>n. name_error clause (check_state_name n)) (rm_states m))"

definition unwrap_or_empty :: "string option \<Rightarrow> string" where
  "unwrap_or_empty x = (case x of Some s \<Rightarrow> s | None \<Rightarrow> [])"

definition validate_webhook :: "string \<Rightarrow> RuleAction \<Rightarrow> string option" where
  "validate_webhook i a =
     (let preset = unwrap_or_empty (ra_preset a) in
      if preset \<notin> set PRESETS \<and> preset \<noteq> [] then
        Some (''action '' @ i @ '': unknown webhook preset '' @ debug_str preset @ ''; one of '' @ join_strs '', '' PRESETS)
      else if unwrap_or_empty (ra_url a) = [] \<and> preset \<noteq> ''pagerduty'' then
        Some (''action '' @ i @ '': webhook needs a url'')
      else let needs = (if preset = ''ntfy'' then Some (''topic'', ra_topic a)
                        else if preset = ''telegram'' then Some (''chat_id'', ra_chat_id a)
                        else if preset = ''pagerduty'' then Some (''routing_key'', ra_routing_key a)
                        else None)
           in case needs of
                Some (field, value) \<Rightarrow>
                  if trim (unwrap_or_empty value) = []
                  then Some (''action '' @ i @ '': the '' @ preset @ '' preset needs '' @ field)
                  else None
              | None \<Rightarrow> None)"

definition validate_action :: "nat \<Rightarrow> RuleAction \<Rightarrow> string option" where
  "validate_action n a =
     (let i = show_nat n; kind = ra_kind a in
      if kind = ''run_flow'' then
        (if unwrap_or_empty (ra_flow a) = [] then Some (''action '' @ i @ '': run_flow needs a flow'')
         else if (case ra_delay a of Some d \<Rightarrow> f64_lt d (Fin 0) \<or> \<not> is_finite d | None \<Rightarrow> False)
         then Some (''action '' @ i @ '': run_flow delay must be zero or more seconds'')
         else None)
      else if kind = ''cancel_run'' \<or> kind = ''pause_schedule'' \<or> kind = ''resume_schedule'' then None
      else if kind = ''cancel_runs'' then
        first_error (\<lambda>st. if st \<in> set CANCELLABLE_STATES then None
          else Some (''action '' @ i @ '': cancel_runs states must be one of '' @ join_strs '', '' CANCELLABLE_STATES
                 @ ''; got '' @ debug_str st)) (ra_states a)
      else if kind = ''set_state'' then
        (if unwrap_or_empty (ra_state_type a) = [] then Some (''action '' @ i @ '': set_state needs a state_type'') else None)
      else if kind = ''webhook'' then validate_webhook i a
      else if kind = ''email'' then
        (if ra_to a = [] then Some (''action '' @ i @ '': email needs recipients'') else None)
      else if kind = ''call'' then
        (if unwrap_or_empty (ra_callable a) = [] then Some (''action '' @ i @ '': call needs a callable'') else None)
      else Some (''action '' @ i @ '': unknown kind '' @ debug_str kind))"

text \<open>\<^verbatim>\<open>str::replace\<close> for a pattern that is not empty.\<close>

function replace_all :: "string \<Rightarrow> string \<Rightarrow> string \<Rightarrow> string" where
  "replace_all pat by s =
     (if pat = [] then s
      else case split_once pat s of
        None \<Rightarrow> s
      | Some (a, b) \<Rightarrow> a @ by @ replace_all pat by b)"
  by pat_completeness auto
termination
  by (relation "measure (\<lambda>(_, _, s). length s)") (auto dest!: split_once_shorter)

declare replace_all.simps [simp del]

definition USIZE_MAX :: nat where
  "USIZE_MAX = 18446744073709551615"

text \<open>The checks of \<^verbatim>\<open>validate_spec\<close> in order; the first error is the answer.\<close>

definition checks :: "string option list \<Rightarrow> string option" where
  "checks es = first_error id es"

definition check :: "bool \<Rightarrow> string \<Rightarrow> string option" where
  "check bad message = (if bad then Some message else None)"

definition validate_unless :: "(RuleClock \<Rightarrow> string option) \<Rightarrow> RuleSpec \<Rightarrow> string option" where
  "validate_unless cron_error spec =
     (case rs_unless spec of
        Some unless \<Rightarrow>
          if rm_events unless = [] then Some ''unless needs at least one expected event''
          else (case (rs_at spec, rs_within spec) of
             (Some clock, win) \<Rightarrow>
               if rm_events (rs_when spec) \<noteq> [] then Some ''a clock-armed rule (at) cannot also have when events''
               else if (case win of Some w \<Rightarrow> f64_le w (Fin 0) | None \<Rightarrow> False) then Some ''within must be positive''
               else map_option (\<lambda>e. ''at: '' @ e) (cron_error clock)
           | (None, Some w) \<Rightarrow>
               if f64_le w (Fin 0) then Some ''within must be positive''
               else if rm_events (rs_when spec) = [] then Some ''unless needs when events to arm on, or an at clock''
               else None
           | (None, None) \<Rightarrow> Some ''unless needs within (event-armed) or at (clock-armed)'')
      | None \<Rightarrow> check (rs_at spec \<noteq> None) ''at is only valid together with unless'')"

definition template_errors :: "(string \<Rightarrow> string option) \<Rightarrow> nat \<times> RuleAction \<Rightarrow> string option" where
  "template_errors template_error ia =
     (case ia of (i, a) \<Rightarrow>
        first_error (\<lambda>(field, t). case t of
            None \<Rightarrow> None
          | Some t \<Rightarrow> map_option (\<lambda>e. ''action '' @ show_nat i @ '': '' @ field @ '' template: '' @ e) (template_error t))
          [(''body'', ra_body a), (''subject'', ra_subject a), (''message'', ra_message a), (''url'', ra_url a)])"

definition validate_spec ::
  "(RuleClock \<Rightarrow> string option) \<Rightarrow> (string \<Rightarrow> string option) \<Rightarrow> (string \<Rightarrow> string option) \<Rightarrow> RuleSpec \<Rightarrow> string option" where
  "validate_spec cron_error expr_error template_error spec = checks
     [check (rs_actions spec = []) ''a rule needs at least one action'',
      validate_match (rs_when spec) ''when'',
      (case rs_unless spec of Some unless \<Rightarrow> validate_match unless ''unless'' | None \<Rightarrow> None),
      check (rs_once spec \<noteq> ''per_run'' \<and> rs_once spec \<noteq> ''never'') ''once must be per_run or never'',
      validate_unless cron_error spec,
      (case rs_condition spec of
         Some expr \<Rightarrow> if trim expr = [] then Some ''condition must not be empty; leave it out instead''
                      else map_option (\<lambda>e. ''condition: '' @ e) (expr_error expr)
       | None \<Rightarrow> None),
      check (rs_max_per_chain spec < 0) ''max_per_chain must be zero or more'',
      (case rs_on_limit spec of
         Some a \<Rightarrow> if rs_max_per_chain spec = 0 then Some ''on_limit needs max_per_chain''
                   else map_option (replace_all (''action '' @ show_nat USIZE_MAX @ '' '') ''on_limit '') (validate_action USIZE_MAX a)
       | None \<Rightarrow> None),
      first_error (\<lambda>(i, a). validate_action i a) (enumerate 0 (rs_actions spec)),
      first_error (template_errors template_error) (enumerate 0 (rs_actions spec))]"

section \<open>Event names and the index\<close>

lemma name_matches_iff:
  "name_matches p name \<longleftrightarrow> (\<exists>pre. p = pre @ ''*'' \<and> prefix pre name) \<or> (\<not> suffix ''*'' p \<and> p = name)"
  by (auto simp: name_matches_def starts_with_iff strip_suffix_Some strip_suffix_None split: option.splits)

lemma first_segment_prefix:
  "prefix pre name \<Longrightarrow> CHR ''.'' \<in> set pre \<Longrightarrow> first_segment name = first_segment pre"
  by (auto simp: prefix_def first_segment_def takeWhile_append1)

text \<open>
  A pattern is aligned when a wildcard does not cut its first segment short:
  the first segment does not end in a star, or is nothing but stars.
\<close>

definition aligned :: "string \<Rightarrow> bool" where
  "aligned p \<longleftrightarrow> \<not> suffix ''*'' (first_segment p) \<or> set (first_segment p) \<subseteq> {CHR ''*''}"

lemma trim_end_matches_id: "\<not> suffix [c] s \<Longrightarrow> trim_end_matches c s = s"
  by (cases s rule: rev_cases) (auto simp: trim_end_matches_def)

lemma trim_end_matches_all: "set s \<subseteq> {c} \<Longrightarrow> trim_end_matches c s = []"
  by (auto simp: trim_end_matches_def dropWhile_eq_Nil_conv)

lemma aligned_key:
  assumes "aligned p" "name_matches p name" "pattern_key p \<noteq> []"
  shows "pattern_key p = first_segment name"
proof -
  have no_star: "\<not> suffix ''*'' (first_segment p)"
    using assms trim_end_matches_all[of "first_segment p"] by (auto simp: aligned_def pattern_key_def)
  then have key: "pattern_key p = first_segment p" by (simp add: pattern_key_def trim_end_matches_id)
  from assms(2) consider pre where "p = pre @ ''*''" "prefix pre name" | "p = name"
    by (auto simp: name_matches_iff)
  then show ?thesis
  proof cases
    case 1
    then have "CHR ''.'' \<in> set pre"
      using no_star by (auto simp: first_segment_def suffix_def takeWhile_append split: if_splits)
    then show ?thesis using first_segment_prefix[OF 1(2)] first_segment_prefix[of pre p] 1(1) key by simp
  next
    case 2
    then show ?thesis using key by simp
  qed
qed

definition idx_le :: "RuleIndex \<Rightarrow> RuleIndex \<Rightarrow> bool" where
  "idx_le a b \<longleftrightarrow> set (ri_all a) \<subseteq> set (ri_all b) \<and> (\<forall>k. set (ri_by_prefix a k) \<subseteq> set (ri_by_prefix b k))"

lemma idx_le_refl [simp]: "idx_le a a" by (simp add: idx_le_def)
lemma idx_le_trans [trans]: "idx_le a b \<Longrightarrow> idx_le b c \<Longrightarrow> idx_le a c" unfolding idx_le_def by blast

lemma fold_idx_le: "(\<And>x idx. idx_le idx (f x idx)) \<Longrightarrow> idx_le idx (fold f xs idx)"
  by (induction xs arbitrary: idx) (auto intro: idx_le_trans)

lemma index_pattern_le: "idx_le idx (index_pattern i p idx)"
  by (auto simp: idx_le_def index_pattern_def Let_def)

lemma push_all_le: "idx_le idx (idx\<lparr> ri_all := ri_all idx @ [i] \<rparr>)"
  by (auto simp: idx_le_def)

lemma index_patterns_le: "idx_le idx (fold (index_pattern i) ps idx)"
  by (rule fold_idx_le) (rule index_pattern_le)

lemma index_rule_le: "idx_le idx (index_rule r idx)"
proof -
  let ?idx1 = "case rs_unless (rr_spec r) of Some unless \<Rightarrow> fold (index_pattern (rr_id r)) (rm_events unless) idx | None \<Rightarrow> idx"
  have "idx_le idx ?idx1" by (simp add: index_patterns_le split: option.splits)
  moreover have "idx_le ?idx1 (index_rule r idx)"
    by (simp add: index_rule_def Let_def index_patterns_le push_all_le)
  ultimately show ?thesis by (rule idx_le_trans)
qed

lemma build_le: "idx_le idx (fold index_rule rules idx)"
  by (rule fold_idx_le) (rule index_rule_le)

definition filed :: "int \<Rightarrow> string \<Rightarrow> RuleIndex \<Rightarrow> bool" where
  "filed i p idx \<longleftrightarrow> (if pattern_key p = [] then i \<in> set (ri_all idx) else i \<in> set (ri_by_prefix idx (pattern_key p)))"

lemma filed_mono: "filed i p a \<Longrightarrow> idx_le a b \<Longrightarrow> filed i p b"
  by (auto simp: filed_def idx_le_def split: if_splits)

lemma filed_index_pattern: "filed i p (index_pattern i p idx)"
  by (auto simp: filed_def index_pattern_def Let_def)

lemma filed_patterns: "p \<in> set ps \<Longrightarrow> filed i p (fold (index_pattern i) ps idx)"
proof (induction ps arbitrary: idx)
  case (Cons q ps)
  then show ?case
    by (auto intro: filed_mono[OF filed_index_pattern index_patterns_le])
qed simp

text \<open>The patterns by which a rule listens: its expected events, and its arming events unless a clock arms it.\<close>

definition listens :: "RuleRow \<Rightarrow> string list" where
  "listens r = (let spec = rr_spec r in
     (case rs_unless spec of Some unless \<Rightarrow> rm_events unless | None \<Rightarrow> [])
     @ (if is_clock_armed spec then [] else rm_events (rs_when spec)))"

lemma filed_rule:
  assumes "p \<in> set (listens r)"
  shows "filed (rr_id r) p (index_rule r idx)"
proof -
  let ?spec = "rr_spec r"
  let ?idx1 = "case rs_unless ?spec of Some unless \<Rightarrow> fold (index_pattern (rr_id r)) (rm_events unless) idx | None \<Rightarrow> idx"
  have le: "idx_le ?idx1 (index_rule r idx)"
    by (simp add: index_rule_def Let_def index_patterns_le push_all_le)
  from assms consider u where "rs_unless ?spec = Some u" "p \<in> set (rm_events u)"
    | "\<not> is_clock_armed ?spec" "p \<in> set (rm_events (rs_when ?spec))"
    by (cases "rs_unless ?spec") (auto simp: listens_def Let_def split: if_splits)
  then show ?thesis
  proof cases
    case 1
    then have "filed (rr_id r) p ?idx1" by (simp add: filed_patterns)
    then show ?thesis using le by (rule filed_mono)
  next
    case 2
    then have "rm_events (rs_when ?spec) \<noteq> []" by auto
    then have "index_rule r idx = fold (index_pattern (rr_id r)) (rm_events (rs_when ?spec)) ?idx1"
      using 2(1) by (auto simp: index_rule_def Let_def is_clock_armed_def)
    then show ?thesis using filed_patterns[OF 2(2)] by simp
  qed
qed

lemma filed_build: "r \<in> set rules \<Longrightarrow> p \<in> set (listens r) \<Longrightarrow> filed (rr_id r) p (fold index_rule rules idx)"
proof (induction rules arbitrary: idx)
  case (Cons q rules)
  then show ?case using filed_mono[OF filed_rule build_le] by auto
qed simp

lemma candidates_iff:
  "i \<in> set (candidates idx name) \<longleftrightarrow> i \<in> set (ri_all idx) \<or> i \<in> set (ri_by_prefix idx (first_segment name))"
  by (simp add: candidates_def)

text \<open>C27: the index loses no rule: for every rule and every aligned pattern it listens by, if the pattern
  matches an event's name then the rule is among the candidates of that event; the candidates are
  listed once each, in ascending order.\<close>

theorem index_loses_no_rule:
  assumes "r \<in> set rules" "p \<in> set (listens r)" "aligned p" "name_matches p name"
  shows "rr_id r \<in> set (candidates (RuleIndex_build rules) name)
    \<and> sorted_wrt (<) (candidates (RuleIndex_build rules) name)"
proof -
  have "filed (rr_id r) p (RuleIndex_build rules)"
    unfolding RuleIndex_build_def using filed_build[OF assms(1,2)] .
  moreover have "sorted_wrt (<) (remdups (sort xs))" for xs :: "int list"
    by (simp add: strict_sorted_iff)
  ultimately show ?thesis
    using aligned_key[OF assms(3,4)] by (auto simp: filed_def candidates_iff candidates_def split: if_splits)
qed

definition sample_rule :: "int \<Rightarrow> string list \<Rightarrow> RuleRow" where
  "sample_rule i events = \<lparr> rr_id = i, rr_external_id = [], rr_name = ''r'', rr_enabled = True, rr_source = ''ui'',
     rr_module = None, rr_spec = RuleSpec_default\<lparr> rs_when := RuleMatch_default\<lparr> rm_events := events \<rparr> \<rparr>,
     rr_fire_count = 0, rr_last_fired = None, rr_created_at = 0, rr_updated_at = 0 \<rparr>"

theorem index_loses_no_rule_witness:
  "7 \<in> set (candidates (RuleIndex_build [sample_rule 7 [''run.*'']]) ''run.failed'')"
proof -
  have "aligned ''run.*''" "name_matches ''run.*'' ''run.failed''"
    by (simp_all add: aligned_def first_segment_def suffix_def Cons_eq_append_conv name_matches_def
        strip_suffix_def ends_with_def starts_with_def)
  then show ?thesis
    using index_loses_no_rule[of "sample_rule 7 [''run.*'']" "[sample_rule 7 [''run.*'']]" "''run.*''" "''run.failed''"]
    by (simp add: sample_rule_def listens_def is_clock_armed_def RuleSpec_default_def)
qed

text \<open>A wildcard inside the first segment is lost: the validator accepts the pattern, the matcher says it
  matches, and the index never offers the rule for the event.\<close>

theorem short_wildcard_is_lost:
  "check_event_name ''ru*'' = Inr () \<and> name_matches ''ru*'' ''run.failed''
   \<and> candidates (RuleIndex_build [sample_rule 7 [''ru*'']]) ''run.failed'' = []"
  by (simp add: check_event_name_def ends_with_def name_matches_def strip_suffix_def starts_with_def
      candidates_def RuleIndex_build_def index_rule_def sample_rule_def RuleSpec_default_def RuleIndex_default_def
      index_pattern_def pattern_key_def first_segment_def trim_end_matches_def Let_def)

section \<open>Guards\<close>

lemma check_guards_rate:
  assumes "check_guards rule event ctx g now = GuardFire" "0 < rs_max_per_minute (rr_spec rule)" "in_i64 (now - 60000000)"
  shows "int (length (filter (\<lambda>t. now - 60000000 < t) (gs_recent g))) < rs_max_per_minute (rr_spec rule)"
  using assms by (auto simp: check_guards_def Let_def i64_sub_id split: if_splits)

lemma record_recent [simp]:
  "in_i64 (now - 60000000) \<Longrightarrow>
     gs_recent (GuardState_record run now g) = filter (\<lambda>t. now - 60000000 < t) (gs_recent g @ [now])"
  by (auto simp: GuardState_record_def Let_def i64_sub_id split: option.splits)

definition window_count :: "int \<Rightarrow> int list \<Rightarrow> int" where
  "window_count t F = int (length (filter (\<lambda>f. t - 60000000 < f \<and> f \<le> t) F))"

lemma window_count_snoc:
  assumes "\<And>t. window_count t F \<le> n" "\<And>f. f \<in> set F \<Longrightarrow> f \<le> now"
    "int (length (filter (\<lambda>f. now - 60000000 < f) F)) < n"
  shows "window_count t (F @ [now]) \<le> n"
proof (cases "t < now")
  case True
  then show ?thesis using assms(1)[of t] by (simp add: window_count_def)
next
  case False
  have "length (filter (\<lambda>f. t - 60000000 < f \<and> f \<le> t) F) \<le> length (filter (\<lambda>f. now - 60000000 < f) F)"
    using False by (intro length_filter_conv_card[THEN le_trans[OF eq_imp_le]])
      (auto simp: length_filter_conv_card intro!: card_mono)
  then show ?thesis using assms(3) by (simp add: window_count_def)
qed

text \<open>The times at which a rule fired, of the inputs it was offered.\<close>

fun fired_times :: "RuleRow \<Rightarrow> (Event \<times> RunContext \<times> micros) list \<Rightarrow> GuardState \<Rightarrow> micros list" where
  "fired_times rule [] g = []"
| "fired_times rule ((e, ctx, now) # xs) g =
     (let (fired, g') = guard_step rule (e, ctx, now) g in
      (if fired then [now] else []) @ fired_times rule xs g')"

lemma rate_cap_general:
  assumes "0 < rs_max_per_minute (rr_spec rule)"
    and "sorted (map (\<lambda>(_, _, now). now) xs)" "\<forall>(_, _, now) \<in> set xs. 0 \<le> now \<and> now \<le> i64_max"
    and "\<And>t. window_count t F \<le> rs_max_per_minute (rr_spec rule)"
    and "\<forall>f \<in> set F. \<forall>(_, _, now) \<in> set xs. f \<le> now"
    and "\<forall>(_, _, now) \<in> set xs. m \<le> now" "gs_recent g = filter (\<lambda>f. m - 60000000 < f) F"
  shows "window_count t (F @ fired_times rule xs g) \<le> rs_max_per_minute (rr_spec rule)"
  using assms
proof (induction xs arbitrary: F g m)
  case (Cons x xs)
  obtain e ctx now where x: "x = (e, ctx, now)" by (cases x) auto
  have rng: "in_i64 (now - 60000000)" using Cons.prems(3) x by (auto simp: in_i64_iff i64_max_def)
  show ?case
  proof (cases "check_guards rule e ctx g now")
    case (GuardSkip why)
    have "fired_times rule (x # xs) g = fired_times rule xs g" using GuardSkip by (simp add: x guard_step_def)
    moreover have "window_count t (F @ fired_times rule xs g) \<le> rs_max_per_minute (rr_spec rule)"
      by (rule Cons.IH[where m = m]) (use Cons.prems in \<open>auto simp: x\<close>)
    ultimately show ?thesis by simp
  next
    case GuardFire
    let ?g = "GuardState_record (guard_run ctx) now g"
    have m: "m \<le> now" using Cons.prems(6) x by auto
    then have recent: "filter (\<lambda>t. now - 60000000 < t) (gs_recent g) = filter (\<lambda>t. now - 60000000 < t) F"
      unfolding Cons.prems(7) by (auto simp: filter_filter intro!: filter_cong)
    have few: "int (length (filter (\<lambda>f. now - 60000000 < f) F)) < rs_max_per_minute (rr_spec rule)"
      using check_guards_rate[OF GuardFire Cons.prems(1) rng] by (simp add: recent)
    have le: "f \<in> set F \<Longrightarrow> f \<le> now" for f using Cons.prems(5) x by auto
    have "window_count t ((F @ [now]) @ fired_times rule xs ?g) \<le> rs_max_per_minute (rr_spec rule)"
    proof (rule Cons.IH[where m = now])
      show "window_count t (F @ [now]) \<le> rs_max_per_minute (rr_spec rule)" for t
        by (rule window_count_snoc[OF Cons.prems(4) le few])
      show "gs_recent ?g = filter (\<lambda>f. now - 60000000 < f) (F @ [now])"
        using recent by (simp add: rng)
    qed (use Cons.prems in \<open>auto simp: x\<close>)
    then show ?thesis using GuardFire by (simp add: x guard_step_def)
  qed
qed simp

text \<open>C28: the rate cap holds over sliding windows, not only at the moment of the check: however the inputs
  arrive, as long as the clock does not run backwards, a rule fires at most \<^verbatim>\<open>max_per_minute\<close>
  times in any minute.\<close>

theorem rate_cap_holds:
  assumes "0 < rs_max_per_minute (rr_spec rule)"
    and "sorted (map (\<lambda>(_, _, now). now) inputs)"
    and "\<forall>(_, _, now) \<in> set inputs. 0 \<le> now \<and> now \<le> i64_max"
  shows "int (length (filter (\<lambda>f. t - 60000000 < f \<and> f \<le> t) (fired_times rule inputs GuardState_default)))
    \<le> rs_max_per_minute (rr_spec rule)"
  using rate_cap_general[of rule inputs "[]" 0 GuardState_default t] assms
  by (simp add: window_count_def GuardState_default_def split: prod.splits)

definition plain_event :: Event where
  "plain_event = \<lparr> ev_id = 1, ev_seq = 1, ev_external_id = [], ev_name = ''run.failed'', ev_occurred = 0,
     ev_resource = \<lparr> res_kind = ''run'', res_id = [], res_name = [] \<rparr>, ev_related = [], ev_run_id = None,
     ev_flow_id = None, ev_payload = [] \<rparr>"

definition plain_ctx :: RunContext where
  "plain_ctx = \<lparr> ctx_run = None, ctx_flow = None, ctx_chain_root = None, ctx_result = None \<rparr>"

theorem rate_cap_holds_witness:
  "int (length (filter (\<lambda>f. 70000000 - 60000000 < f \<and> f \<le> 70000000)
     (fired_times (sample_rule 7 [''run.*'']) [(plain_event, plain_ctx, 20000000), (plain_event, plain_ctx, 30000000)]
        GuardState_default))) \<le> 60"
  using rate_cap_holds[of "sample_rule 7 [''run.*'']" "[(plain_event, plain_ctx, 20000000), (plain_event, plain_ctx, 30000000)]" 70000000]
  by (simp add: sample_rule_def RuleSpec_default_def i64_max_def)

text \<open>The runs a rule fired for, of the inputs it was offered.\<close>

fun fired_for :: "RuleRow \<Rightarrow> (Event \<times> RunContext \<times> micros) list \<Rightarrow> GuardState \<Rightarrow> int list" where
  "fired_for rule [] g = []"
| "fired_for rule ((e, ctx, now) # xs) g =
     (let (fired, g') = guard_step rule (e, ctx, now) g in
      (case guard_run ctx of Some r \<Rightarrow> if fired then [r] else [] | None \<Rightarrow> []) @ fired_for rule xs g')"

lemma check_guards_once:
  "check_guards rule e ctx g now = GuardFire \<Longrightarrow> rs_once (rr_spec rule) = ''per_run'' \<Longrightarrow> guard_run ctx = Some r
     \<Longrightarrow> r \<notin> set (gs_fired_runs g)"
  by (auto simp: check_guards_def guard_run_def split: if_splits option.splits)

lemma record_fired_runs:
  "length (gs_fired_runs g) < 10000 \<Longrightarrow> r \<notin> set (gs_fired_runs g) \<Longrightarrow>
     gs_fired_runs (GuardState_record (Some r) now g) = gs_fired_runs g @ [r]"
  "gs_fired_runs (GuardState_record None now g) = gs_fired_runs g"
  by (simp_all add: GuardState_record_def Let_def)

lemma once_per_run_general:
  "rs_once (rr_spec rule) = ''per_run'' \<Longrightarrow> length (gs_fired_runs g) + length xs \<le> 10000 \<Longrightarrow>
     distinct (fired_for rule xs g) \<and> set (fired_for rule xs g) \<inter> set (gs_fired_runs g) = {}"
proof (induction xs arbitrary: g)
  case (Cons x xs)
  obtain e ctx now where x: "x = (e, ctx, now)" by (cases x) auto
  show ?case
  proof (cases "check_guards rule e ctx g now")
    case (GuardSkip why)
    then have "fired_for rule (x # xs) g = fired_for rule xs g"
      by (simp add: x guard_step_def split: option.splits)
    then show ?thesis using Cons by simp
  next
    case GuardFire
    let ?g = "GuardState_record (guard_run ctx) now g"
    show ?thesis
    proof (cases "guard_run ctx")
      case None
      then have "fired_for rule (x # xs) g = fired_for rule xs ?g" "gs_fired_runs ?g = gs_fired_runs g"
        using GuardFire by (simp_all add: x guard_step_def record_fired_runs)
      then show ?thesis using Cons.IH[of ?g] Cons.prems by simp
    next
      case (Some r)
      note fresh = check_guards_once[OF GuardFire Cons.prems(1) Some]
      have "gs_fired_runs ?g = gs_fired_runs g @ [r]"
        using record_fired_runs(1)[OF _ fresh] Cons.prems(2) Some by simp
      moreover have "fired_for rule (x # xs) g = r # fired_for rule xs ?g"
        using GuardFire Some by (simp add: x guard_step_def)
      ultimately show ?thesis using Cons.IH[of ?g] Cons.prems fresh by auto
    qed
  qed
qed simp

text \<open>A rule that fires once per run fires at most once for each run, a crash chain counting as one,
  over any sequence of inputs that stays within the guard's memory of ten thousand runs.\<close>

theorem once_per_run_holds:
  assumes "rs_once (rr_spec rule) = ''per_run''" "length inputs \<le> 10000"
  shows "distinct (fired_for rule inputs GuardState_default)"
  using once_per_run_general[OF assms(1), of GuardState_default inputs] assms(2) by (simp add: GuardState_default_def)

theorem once_per_run_holds_witness:
  "distinct (fired_for (sample_rule 7 [''run.*'']) [(plain_event, plain_ctx, 20000000), (plain_event, plain_ctx, 30000000)]
     GuardState_default)"
  by (rule once_per_run_holds) (simp_all add: sample_rule_def RuleSpec_default_def)

section \<open>Selection and validation\<close>

definition qualifies ::
  "(string \<Rightarrow> int \<Rightarrow> bool option) \<Rightarrow> Event \<Rightarrow> RunContext \<Rightarrow> int list \<Rightarrow> RuleRow \<Rightarrow> int \<Rightarrow> bool" where
  "qualifies cond event ctx cands rule rounds \<longleftrightarrow>
     rr_id rule \<in> set cands \<and> \<not> is_proactive (rr_spec rule) \<and> rr_enabled rule
     \<and> matches (rs_when (rr_spec rule)) event ctx
     \<and> (case rs_condition (rr_spec rule) of Some expr \<Rightarrow> cond expr rounds = Some True | None \<Rightarrow> True)
     \<and> \<not> (0 < rs_max_per_chain (rr_spec rule) \<and> ctx_run ctx \<noteq> None \<and> rs_max_per_chain (rr_spec rule) \<le> rounds)"

lemma guard_step_enabled: "fst (guard_step rule input g) \<Longrightarrow> rr_enabled rule"
  by (cases "rr_enabled rule") (auto simp: guard_step_def check_guards_def split: prod.splits)

lemma select_rule_fire:
  "x \<in> set (sel_fire (select_rule lc cond event ctx now cands rule sel)) \<Longrightarrow>
     x \<in> set (sel_fire sel) \<or> (fst x = rule \<and> qualifies cond event ctx cands rule (snd x))"
  using guard_step_enabled[of rule "(event, ctx, now)" "sel_guards sel (rr_id rule)"]
  by (auto simp: select_rule_def qualifies_def Let_def case_prod_beta split: if_splits option.splits)

lemma select_rules_fire:
  "x \<in> set (sel_fire (fold (select_rule lc cond event ctx now cands) rules sel)) \<Longrightarrow>
     x \<in> set (sel_fire sel) \<or> (fst x \<in> set rules \<and> qualifies cond event ctx cands (fst x) (snd x))"
proof (induction rules arbitrary: sel)
  case (Cons r rules)
  then show ?case using select_rule_fire[of x lc cond event ctx now cands r sel] by fastforce
qed simp

text \<open>A rule acts on an event only if the index offered it, it is enabled and not proactive, its match
  clause accepts the event, its condition evaluated to true, and it has not reached its bound of runs
  in the chain.\<close>

theorem selected_rules_qualify:
  assumes "(rule, rounds) \<in> set (sel_fire (select_rules lc cond event ctx now cands rules guards))"
  shows "rule \<in> set rules \<and> rr_id rule \<in> set cands \<and> \<not> is_proactive (rr_spec rule) \<and> rr_enabled rule
    \<and> matches (rs_when (rr_spec rule)) event ctx
    \<and> (case rs_condition (rr_spec rule) of Some expr \<Rightarrow> cond expr rounds = Some True | None \<Rightarrow> True)
    \<and> \<not> (0 < rs_max_per_chain (rr_spec rule) \<and> ctx_run ctx \<noteq> None \<and> rs_max_per_chain (rr_spec rule) \<le> rounds)"
  using select_rules_fire[OF assms[unfolded select_rules_def]] by (simp add: qualifies_def)

theorem selected_rules_qualify_witness:
  "matches (rs_when (rr_spec (sample_rule 7 [''run.*'']))) plain_event plain_ctx"
proof -
  have "sel_fire (select_rules (\<lambda>_ _. 0) (\<lambda>_ _. None) plain_event plain_ctx 0 [7] [sample_rule 7 [''run.*'']]
      (\<lambda>_. GuardState_default)) = [(sample_rule 7 [''run.*''], 0)]"
    by (simp add: select_rules_def select_rule_def sample_rule_def is_proactive_def RuleSpec_default_def matches_def
        RuleMatch_default_def plain_event_def plain_ctx_def name_matches_def strip_suffix_def ends_with_def starts_with_def
        chain_rounds_def guard_step_def check_guards_def GuardState_default_def Let_def)
  then show ?thesis
    using selected_rules_qualify[of "sample_rule 7 [''run.*'']" 0 "\<lambda>_ _. 0" "\<lambda>_ _. None" plain_event plain_ctx 0 "[7]"
        "[sample_rule 7 [''run.*'']]" "\<lambda>_. GuardState_default"] by simp
qed

lemma first_error_None: "first_error f xs = None \<longleftrightarrow> (\<forall>x \<in> set xs. f x = None)"
  by (induction xs) (auto split: option.splits)

lemma not_Inl_unit: "(\<forall>e. r \<noteq> Inl e) \<longleftrightarrow> r = Inr ()"
  by (cases r) auto

lemma validate_match_None:
  "validate_match m clause = None \<Longrightarrow>
     (\<forall>n \<in> set (rm_events m). check_event_name n = Inr ()) \<and> (\<forall>n \<in> set (rm_states m). check_state_name n = Inr ())"
  by (simp add: validate_match_def first_error_None name_error_def not_Inl_unit split: option.splits sum.splits)

text \<open>A specification the validator accepts is usable: it has actions, each valid for its kind; every
  event and state name it matches on can occur; a proactive rule names what it expects and is armed
  either by a clock alone or by events with a positive deadline; and a bound per chain is consistent.\<close>

theorem validated_spec_usable:
  assumes "validate_spec cron_error expr_error template_error spec = None"
  shows "rs_actions spec \<noteq> [] \<and> rs_once spec \<in> {''per_run'', ''never''}
    \<and> (\<forall>n \<in> set (rm_events (rs_when spec)). check_event_name n = Inr ())
    \<and> (case rs_unless spec of
         None \<Rightarrow> rs_at spec = None
       | Some unless \<Rightarrow> rm_events unless \<noteq> [] \<and> (\<forall>n \<in> set (rm_events unless). check_event_name n = Inr ())
           \<and> (if is_clock_armed spec then rm_events (rs_when spec) = [] \<and> Option.bind (rs_at spec) cron_error = None
              else rm_events (rs_when spec) \<noteq> [] \<and> (\<exists>w. rs_within spec = Some w \<and> \<not> f64_le w (Fin 0))))
    \<and> 0 \<le> rs_max_per_chain spec \<and> (rs_on_limit spec \<noteq> None \<longrightarrow> 0 < rs_max_per_chain spec)
    \<and> list_all (\<lambda>(i, a). validate_action i a = None) (enumerate 0 (rs_actions spec))"
proof -
  note all = assms[unfolded validate_spec_def checks_def first_error_None, simplified]
  have u: "case rs_unless spec of
         None \<Rightarrow> rs_at spec = None
       | Some unless \<Rightarrow> rm_events unless \<noteq> [] \<and> (\<forall>n \<in> set (rm_events unless). check_event_name n = Inr ())
           \<and> (if is_clock_armed spec then rm_events (rs_when spec) = [] \<and> Option.bind (rs_at spec) cron_error = None
              else rm_events (rs_when spec) \<noteq> [] \<and> (\<exists>w. rs_within spec = Some w \<and> \<not> f64_le w (Fin 0)))"
  proof (cases "rs_unless spec")
    case None
    then show ?thesis using all by (auto simp: validate_unless_def check_def split: if_splits)
  next
    case (Some unless)
    then have "validate_match unless ''unless'' = None" "validate_unless cron_error spec = None" using all by auto
    then show ?thesis
      using Some validate_match_None[of unless]
      by (auto simp: validate_unless_def is_clock_armed_def split: if_splits option.splits)
  qed
  have "\<forall>n \<in> set (rm_events (rs_when spec)). check_event_name n = Inr ()"
    using all validate_match_None by blast
  moreover have "list_all (\<lambda>(i, a). validate_action i a = None) (enumerate 0 (rs_actions spec))"
    using all by (simp add: first_error_None list_all_iff case_prod_beta)
  moreover have "rs_actions spec \<noteq> []" "rs_once spec \<in> {''per_run'', ''never''}" "0 \<le> rs_max_per_chain spec"
    using all by (auto simp: check_def split: if_splits)
  moreover have "rs_on_limit spec \<noteq> None \<longrightarrow> 0 < rs_max_per_chain spec"
    using all by (auto simp: check_def split: if_splits)
  ultimately show ?thesis using u by blast
qed

definition email_rule :: RuleSpec where
  "email_rule = RuleSpec_default\<lparr> rs_when := RuleMatch_default\<lparr> rm_events := [''run.failed''] \<rparr>,
     rs_actions := [RuleAction_default\<lparr> ra_kind := ''email'', ra_to := [''ops''] \<rparr>] \<rparr>"

theorem validated_spec_usable_witness:
  "rs_actions email_rule \<noteq> [] \<and> check_event_name ''run.failed'' = Inr ()"
proof -
  have ok: "check_event_name ''run.failed'' = Inr ()"
    using EventName_parse_as_str[of RunFailed] by (simp add: check_event_name_def split: option.split)
  have "validate_spec (\<lambda>_. None) (\<lambda>_. None) (\<lambda>_. None) email_rule = None"
    by (simp add: validate_spec_def checks_def check_def validate_match_def validate_unless_def email_rule_def
        RuleSpec_default_def RuleMatch_default_def RuleAction_default_def name_error_def ok validate_action_def Let_def
        template_errors_def)
  from validated_spec_usable[OF this] show ?thesis by (simp add: email_rule_def RuleMatch_default_def)
qed

text \<open>C32: the error of an invalid \<^verbatim>\<open>on_limit\<close> action keeps the placeholder index: the text the validator
  means to replace never occurs in the message.\<close>

theorem on_limit_error_not_renamed:
  "validate_spec (\<lambda>_. None) (\<lambda>_. None) (\<lambda>_. None)
     (email_rule\<lparr> rs_when := RuleMatch_default, rs_max_per_chain := 3,
        rs_on_limit := Some (RuleAction_default\<lparr> ra_kind := ''call'' \<rparr>) \<rparr>)
   = Some ''action 18446744073709551615: call needs a callable''"
  by (simp add: validate_spec_def checks_def check_def validate_match_def validate_unless_def email_rule_def
      RuleSpec_default_def RuleMatch_default_def RuleAction_default_def validate_action_def Let_def USIZE_MAX_def
      unwrap_or_empty_def show_nat.simps digit_eval[simplified] replace_all.simps starts_with_def)

end
