(* ===== verification/Timer.thy ===== *)
theory Timer
  imports Prelude "HOL-Library.Multiset"
begin

text \<open>
  The timer heap (\<^verbatim>\<open>crates/server/src/timer.rs\<close>): every time-driven event of the
  server. A removal is lazy: it marks sequence numbers as cancelled through
  three side indexes, and the dead tuples leave the heap when they are popped
  or when a pop finds them in the majority and rebuilds the heap.

  The binary heap of the standard library is kept as the list of its tuples in
  the order it pops them. The events that count are those not cancelled,
  \<open>pending\<close>; the contract \<open>timer_contract\<close> describes every operation on that
  list alone, and the clients' lemmas are proved from it.
\<close>

datatype TimerEvent =
    Fire int | Due int | LateCheck int | StartDeadline int | CrashRerun int | FlowTimeout int
  | ResumeFlow int | Persist | Wake | Expectation int | RuleClock int | SchedulerResume int | WakeRun int

datatype Side = RunSide | ScheduleSide | RuleSide

type_synonym entry = "micros \<times> nat \<times> TimerEvent"

record Timer =
  heap :: "entry list"
  cancelled :: "nat set"
  active_count :: int
  by_run :: "int \<rightharpoonup> nat list"
  by_schedule :: "int \<rightharpoonup> nat list"
  by_rule :: "int \<rightharpoonup> nat list"
  side_of :: "nat \<rightharpoonup> Side \<times> int"
  next_seq :: nat

definition Timer_new :: Timer where
  "Timer_new = \<lparr> heap = [], cancelled = {}, active_count = 0, by_run = Map.empty, by_schedule = Map.empty,
     by_rule = Map.empty, side_of = Map.empty, next_seq = 0 \<rparr>"

definition side_map :: "Side \<Rightarrow> Timer \<Rightarrow> int \<rightharpoonup> nat list" where
  "side_map side t = (case side of RunSide \<Rightarrow> by_run t | ScheduleSide \<Rightarrow> by_schedule t | RuleSide \<Rightarrow> by_rule t)"

definition set_side_map :: "Side \<Rightarrow> (int \<rightharpoonup> nat list) \<Rightarrow> Timer \<Rightarrow> Timer" where
  "set_side_map side m t =
     (case side of RunSide \<Rightarrow> t\<lparr> by_run := m \<rparr> | ScheduleSide \<Rightarrow> t\<lparr> by_schedule := m \<rparr>
      | RuleSide \<Rightarrow> t\<lparr> by_rule := m \<rparr>)"

text \<open>The side index and key of an event that carries a removal id (\<^verbatim>\<open>index_seq\<close> and \<^verbatim>\<open>id_of\<close>).\<close>

fun side_entry :: "TimerEvent \<Rightarrow> (Side \<times> int) option" where
  "side_entry (Due r) = Some (RunSide, r)"
| "side_entry (LateCheck r) = Some (RunSide, r)"
| "side_entry (StartDeadline r) = Some (RunSide, r)"
| "side_entry (FlowTimeout r) = Some (RunSide, r)"
| "side_entry (CrashRerun r) = Some (RunSide, r)"
| "side_entry (WakeRun r) = Some (RunSide, r)"
| "side_entry (Fire s) = Some (ScheduleSide, s)"
| "side_entry (RuleClock k) = Some (RuleSide, k)"
| "side_entry _ = None"

text \<open>\<^verbatim>\<open>Vec::swap_remove\<close> at the position of a sequence number.\<close>

definition swap_remove :: "nat \<Rightarrow> 'a list \<Rightarrow> 'a list" where
  "swap_remove i xs = butlast (xs[i := last xs])"

fun position :: "('a \<Rightarrow> bool) \<Rightarrow> 'a list \<Rightarrow> nat option" where
  "position P [] = None"
| "position P (x # xs) = (if P x then Some 0 else map_option Suc (position P xs))"

definition forget_seq :: "nat \<Rightarrow> Timer \<Rightarrow> Timer" where
  "forget_seq seq t =
     (case side_of t seq of
        None \<Rightarrow> t
      | Some (side, key) \<Rightarrow>
         (let t = t\<lparr> side_of := (side_of t)(seq := None) \<rparr>; m = side_map side t in
          case m key of
            None \<Rightarrow> t
          | Some ids \<Rightarrow>
             (let ids' = (case position (\<lambda>s. s = seq) ids of Some i \<Rightarrow> swap_remove i ids | None \<Rightarrow> ids) in
              set_side_map side (if ids' = [] then m(key := None) else m(key \<mapsto> ids')) t)))"

definition index_seq :: "nat \<Rightarrow> TimerEvent \<Rightarrow> Timer \<Rightarrow> Timer" where
  "index_seq seq e t =
     (case side_entry e of
        None \<Rightarrow> t
      | Some (side, key) \<Rightarrow>
         (let m = side_map side t;
              ids = (case m key of Some ids \<Rightarrow> ids | None \<Rightarrow> [])
          in (set_side_map side (m(key \<mapsto> ids @ [seq])) t)\<lparr> side_of := (side_of t)(seq \<mapsto> (side, key)) \<rparr>))"

fun cancel_all :: "nat list \<Rightarrow> Timer \<Rightarrow> Timer" where
  "cancel_all [] t = t"
| "cancel_all (seq # seqs) t =
     (let t1 = t\<lparr> side_of := (side_of t)(seq := None) \<rparr> in
      cancel_all seqs
        (if seq \<in> cancelled t then t1
         else t1\<lparr> cancelled := insert seq (cancelled t), active_count := active_count t - 1 \<rparr>))"

text \<open>The order of the heap's tuples; sequence numbers make it total.\<close>

fun before :: "entry \<Rightarrow> entry \<Rightarrow> bool" where
  "before (t1, s1, _) (t2, s2, _) \<longleftrightarrow> t1 < t2 \<or> (t1 = t2 \<and> s1 < s2)"

fun heap_push :: "entry \<Rightarrow> entry list \<Rightarrow> entry list" where
  "heap_push x [] = [x]"
| "heap_push x (y # ys) = (if before x y then x # y # ys else y # heap_push x ys)"

text \<open>\<^verbatim>\<open>push\<close> also says whether the sleeping scheduler is notified.\<close>

definition push :: "micros \<Rightarrow> TimerEvent \<Rightarrow> Timer \<Rightarrow> bool \<times> Timer" where
  "push tm e t =
     (let seq = next_seq t;
          earlier = (case heap t of [] \<Rightarrow> True | (t0, _, _) # _ \<Rightarrow> tm < t0);
          t = t\<lparr> next_seq := seq + 1, heap := heap_push (tm, seq, e) (heap t) \<rparr>;
          t = index_seq seq e t
      in (earlier, t\<lparr> active_count := active_count t + 1 \<rparr>))"

definition peek_at :: "Timer \<Rightarrow> micros option" where
  "peek_at t = (case heap t of [] \<Rightarrow> None | (tm, _, _) # _ \<Rightarrow> Some tm)"

lemma set_side_map_fields [simp]:
  "heap (set_side_map side m t) = heap t" "cancelled (set_side_map side m t) = cancelled t"
  "active_count (set_side_map side m t) = active_count t" "side_of (set_side_map side m t) = side_of t"
  "next_seq (set_side_map side m t) = next_seq t"
  by (cases side; simp add: set_side_map_def)+

lemma forget_seq_fields [simp]:
  "heap (forget_seq seq t) = heap t" "cancelled (forget_seq seq t) = cancelled t"
  "active_count (forget_seq seq t) = active_count t" "next_seq (forget_seq seq t) = next_seq t"
  "side_of (forget_seq seq t) = (side_of t)(seq := None)"
  by (auto simp: forget_seq_def Let_def split: option.splits)

function pop_loop :: "micros \<Rightarrow> Timer \<Rightarrow> (micros \<times> TimerEvent) list \<times> Timer" where
  "pop_loop now t =
     (case heap t of
        [] \<Rightarrow> ([], t)
      | (tm, seq, e) # h \<Rightarrow>
         if tm > now then ([], t)
         else let t = t\<lparr> heap := h \<rparr> in
           if seq \<in> cancelled t then pop_loop now (forget_seq seq (t\<lparr> cancelled := cancelled t - {seq} \<rparr>))
           else let t = forget_seq seq t;
                    (out, t') = pop_loop now (t\<lparr> active_count := active_count t - 1 \<rparr>)
                in ((tm, e) # out, t'))"
  by pat_completeness auto
termination
  by (relation "measure (\<lambda>(_, t). length (heap t))") auto

declare pop_loop.simps [simp del]

definition compact :: "Timer \<Rightarrow> Timer" where
  "compact t =
     (if length (heap t) < card (cancelled t) * 2
      then t\<lparr> heap := filter (\<lambda>(_, seq, _). seq \<notin> cancelled t) (heap t), cancelled := {} \<rparr>
      else t)"

definition pop_due :: "micros \<Rightarrow> Timer \<Rightarrow> (micros \<times> TimerEvent) list \<times> Timer" where
  "pop_due now t = (let (out, t) = pop_loop now t in (out, compact t))"

definition clear :: "Timer \<Rightarrow> Timer" where
  "clear t = t\<lparr> heap := [], cancelled := {}, active_count := 0, by_run := Map.empty,
     by_schedule := Map.empty, by_rule := Map.empty, side_of := Map.empty \<rparr>"

definition remove_side :: "Side \<Rightarrow> int \<Rightarrow> Timer \<Rightarrow> Timer" where
  "remove_side side key t =
     (let m = side_map side t; seqs = (case m key of Some ids \<Rightarrow> ids | None \<Rightarrow> []) in
      cancel_all seqs (set_side_map side (m(key := None)) t))"

definition remove_run_events :: "int \<Rightarrow> Timer \<Rightarrow> Timer" where
  "remove_run_events run = remove_side RunSide run"

definition has_rule_clock :: "int \<Rightarrow> Timer \<Rightarrow> bool" where
  "has_rule_clock rule t \<longleftrightarrow> by_rule t rule \<noteq> None"

definition remove_rule_clock :: "int \<Rightarrow> Timer \<Rightarrow> Timer" where
  "remove_rule_clock rule = remove_side RuleSide rule"

definition remove_schedule_events :: "int \<Rightarrow> Timer \<Rightarrow> Timer" where
  "remove_schedule_events schedule = remove_side ScheduleSide schedule"

definition timer_len :: "Timer \<Rightarrow> int" where
  "timer_len t = active_count t"

section \<open>The invariant\<close>

definition pending :: "Timer \<Rightarrow> entry list" where
  "pending t = filter (\<lambda>(_, seq, _). seq \<notin> cancelled t) (heap t)"

definition seqs :: "entry list \<Rightarrow> nat list" where
  "seqs h = map (\<lambda>(_, seq, _). seq) h"

text \<open>The side entry each sequence number should have, from the events still pending.\<close>

definition side_spec :: "entry list \<Rightarrow> nat \<rightharpoonup> Side \<times> int" where
  "side_spec h seq = Option.bind (map_of (map (\<lambda>(_, s, e). (s, e)) h) seq) side_entry"

fun ids_ok :: "nat list option \<Rightarrow> nat set \<Rightarrow> bool" where
  "ids_ok None S \<longleftrightarrow> S = {}"
| "ids_ok (Some ids) S \<longleftrightarrow> ids \<noteq> [] \<and> distinct ids \<and> set ids = S"

definition sides_ok :: "Timer \<Rightarrow> bool" where
  "sides_ok t \<longleftrightarrow> (\<forall>side key. ids_ok (side_map side t key) {seq. side_of t seq = Some (side, key)})"

definition timer_inv :: "Timer \<Rightarrow> bool" where
  "timer_inv t \<longleftrightarrow> sorted_wrt before (heap t) \<and> distinct (seqs (heap t))
     \<and> (\<forall>seq \<in> set (seqs (heap t)). seq < next_seq t)
     \<and> cancelled t \<subseteq> set (seqs (heap t))
     \<and> active_count t = int (length (pending t))
     \<and> side_of t = side_spec (pending t)
     \<and> sides_ok t"

lemma side_map_set [simp]:
  "side_map side (set_side_map side m t) = m"
  "side \<noteq> side' \<Longrightarrow> side_map side (set_side_map side' m t) = side_map side t"
  by (cases side; cases side'; simp add: side_map_def set_side_map_def)+

lemma side_map_upd [simp]:
  "side_map side (t\<lparr> heap := h \<rparr>) = side_map side t" "side_map side (t\<lparr> cancelled := c \<rparr>) = side_map side t"
  "side_map side (t\<lparr> active_count := n \<rparr>) = side_map side t" "side_map side (t\<lparr> side_of := m \<rparr>) = side_map side t"
  "side_map side (t\<lparr> next_seq := k \<rparr>) = side_map side t"
  by (cases side; simp add: side_map_def)+

lemma sides_ok_upd [simp]:
  "sides_ok (t\<lparr> heap := h \<rparr>) = sides_ok t" "sides_ok (t\<lparr> cancelled := c \<rparr>) = sides_ok t"
  "sides_ok (t\<lparr> active_count := n \<rparr>) = sides_ok t" "sides_ok (t\<lparr> next_seq := k \<rparr>) = sides_ok t"
  by (simp_all add: sides_ok_def)

lemma before_trans: "before a b \<Longrightarrow> before b c \<Longrightarrow> before a c"
  by (cases a; cases b; cases c) auto

lemma before_le: "before a b \<Longrightarrow> fst a \<le> fst b"
  by (cases a; cases b) auto

lemma ids_ok_nonempty: "ids_ok l S \<Longrightarrow> l \<noteq> None \<longleftrightarrow> S \<noteq> {}"
  by (cases l) auto

lemma before_total: "\<not> before a b \<Longrightarrow> fst (snd a) \<noteq> fst (snd b) \<Longrightarrow> before b a"
  by (cases a; cases b) auto

lemma set_heap_push [simp]: "set (heap_push x h) = insert x (set h)"
  by (induction h) auto

lemma length_heap_push [simp]: "length (heap_push x h) = Suc (length h)"
  by (induction h) auto

lemma heap_push_sorted:
  "sorted_wrt before h \<Longrightarrow> fst (snd x) \<notin> set (seqs h) \<Longrightarrow> sorted_wrt before (heap_push x h)"
proof (induction h)
  case (Cons y ys)
  show ?case
  proof (cases "before x y")
    case True
    then show ?thesis using Cons.prems(1) before_trans[of x y] by auto
  next
    case False
    then have "before y x" using before_total[of x y] Cons.prems(2) by (cases y) (auto simp: seqs_def)
    then show ?thesis using False Cons by (auto simp: seqs_def)
  qed
qed simp

lemma mset_seqs_push: "set (seqs (heap_push x h)) = insert (fst (snd x)) (set (seqs h))"
  by (auto simp: seqs_def image_iff split: prod.splits)

lemma distinct_seqs_push:
  "distinct (seqs h) \<Longrightarrow> fst (snd x) \<notin> set (seqs h) \<Longrightarrow> distinct (seqs (heap_push x h))"
proof (induction h)
  case (Cons y ys)
  then show ?case
    using mset_seqs_push[of x ys] by (cases x; cases y) (auto simp: seqs_def)
qed (cases x, simp add: seqs_def)

lemma filter_heap_push: "P x \<Longrightarrow> sorted_wrt before h \<Longrightarrow> filter P (heap_push x h) = heap_push x (filter P h)"
proof (induction h)
  case (Cons y ys)
  have "\<forall>z \<in> set (filter P ys). before x z" if "before x y"
    using Cons.prems(2) that before_trans[of x y] by auto
  then have "before x y \<Longrightarrow> heap_push x (filter P ys) = x # filter P ys"
    by (cases "filter P ys") auto
  then show ?case using Cons by auto
qed simp

lemma map_of_heap_push:
  "fst (snd x) \<notin> set (seqs h) \<Longrightarrow>
   map_of (map (\<lambda>(_, s, e). (s, e)) (heap_push x h)) =
     (map_of (map (\<lambda>(_, s, e). (s, e)) h))(fst (snd x) \<mapsto> snd (snd x))"
  by (induction h) (auto simp: seqs_def fun_eq_iff split: prod.splits)

section \<open>The side indexes\<close>

lemma position_Some: "position P xs = Some i \<Longrightarrow> i < length xs \<and> P (xs ! i)"
  by (induction xs arbitrary: i) (auto split: if_splits)

lemma position_None: "position P xs = None \<longleftrightarrow> (\<forall>x \<in> set xs. \<not> P x)"
  by (induction xs) auto

lemma swap_remove_split:
  "swap_remove (length as) (as @ x # bs) = (if bs = [] then as else as @ last bs # butlast bs)"
  by (simp add: swap_remove_def butlast_append)

lemma swap_remove_distinct:
  assumes "distinct ids" "position (\<lambda>s. s = seq) ids = Some i"
  shows "distinct (swap_remove i ids)" "set (swap_remove i ids) = set ids - {seq}"
proof -
  have i: "i < length ids" "ids ! i = seq" using position_Some[OF assms(2)] by auto
  obtain as bs where ids: "ids = as @ seq # bs" "length as = i"
    using i id_take_nth_drop[OF i(1)] by (metis length_take min.absorb4)
  note sw = swap_remove_split[of as seq bs]
  have bs: "bs \<noteq> [] \<Longrightarrow> set bs = insert (last bs) (set (butlast bs)) \<and> distinct bs = (last bs \<notin> set (butlast bs) \<and> distinct (butlast bs))"
    by (cases bs rule: rev_cases) auto
  show "distinct (swap_remove i ids)" "set (swap_remove i ids) = set ids - {seq}"
    using assms(1) bs sw ids by (cases "bs = []"; auto)+
qed

lemma index_seq_fields [simp]:
  "heap (index_seq seq e t) = heap t" "cancelled (index_seq seq e t) = cancelled t"
  "active_count (index_seq seq e t) = active_count t" "next_seq (index_seq seq e t) = next_seq t"
  by (auto simp: index_seq_def Let_def split: option.splits)

lemma index_seq_side_of:
  "side_of t seq = None \<Longrightarrow> side_of (index_seq seq e t) = (side_of t)(seq := side_entry e)"
  by (auto simp: index_seq_def Let_def fun_eq_iff split: option.splits)

lemma ids_ok_append: "ids_ok l S \<Longrightarrow> x \<notin> S \<Longrightarrow> ids_ok (Some ((case l of Some ids \<Rightarrow> ids | None \<Rightarrow> []) @ [x])) (insert x S)"
  by (cases l) auto

lemma index_seq_sides_ok:
  assumes ok: "sides_ok t" and fresh: "side_of t seq = None"
  shows "sides_ok (index_seq seq e t)"
proof (cases "side_entry e")
  case None
  then show ?thesis using ok by (simp add: index_seq_def)
next
  case (Some sk)
  obtain side key where sk: "sk = (side, key)" by force
  let ?new = "index_seq seq e t"
  have so: "side_of ?new = (side_of t)(seq \<mapsto> (side, key))" using index_seq_side_of[OF fresh] Some sk by simp
  have m: "side_map side ?new = (side_map side t)(key \<mapsto> (case side_map side t key of Some ids \<Rightarrow> ids | None \<Rightarrow> []) @ [seq])"
    "side' \<noteq> side \<Longrightarrow> side_map side' ?new = side_map side' t" for side'
    using Some sk by (simp_all add: index_seq_def Let_def)
  have "ids_ok (side_map s ?new k) {q. side_of ?new q = Some (s, k)}" for s k
  proof (cases "s = side \<and> k = key")
    case True
    have "{q. side_of ?new q = Some (side, key)} = insert seq {q. side_of t q = Some (side, key)}"
      using so by auto
    moreover have "ids_ok (side_map side t key) {q. side_of t q = Some (side, key)}"
      using ok by (simp add: sides_ok_def)
    then have "ids_ok (Some ((case side_map side t key of Some ids \<Rightarrow> ids | None \<Rightarrow> []) @ [seq]))
        (insert seq {q. side_of t q = Some (side, key)})"
      by (rule ids_ok_append) (simp add: fresh)
    ultimately show ?thesis using True by (simp only: m(1) fun_upd_same)
  next
    case False
    then have "side_map s ?new k = side_map s t k" using m by (cases "s = side") auto
    moreover have "{q. side_of ?new q = Some (s, k)} = {q. side_of t q = Some (s, k)}"
      using so fresh False by auto
    ultimately show ?thesis using ok by (simp add: sides_ok_def)
  qed
  then show ?thesis by (simp add: sides_ok_def)
qed

lemma forget_seq_sides_ok:
  assumes ok: "sides_ok t"
  shows "sides_ok (forget_seq seq t)"
proof (cases "side_of t seq")
  case None
  then show ?thesis using ok by (simp add: forget_seq_def)
next
  case (Some sk)
  obtain side key where sk: "sk = (side, key)" by force
  let ?new = "forget_seq seq t"
  have "ids_ok (side_map side t key) {q. side_of t q = Some (side, key)}" using ok by (simp add: sides_ok_def)
  moreover have mem: "seq \<in> {q. side_of t q = Some (side, key)}" using Some sk by simp
  ultimately obtain ids where ids: "side_map side t key = Some ids" "distinct ids" "set ids = {q. side_of t q = Some (side, key)}"
    by (cases "side_map side t key") auto
  obtain i where i: "position (\<lambda>s. s = seq) ids = Some i"
    using mem ids(3) position_None[of "\<lambda>s. s = seq" ids] by (cases "position (\<lambda>s. s = seq) ids") auto
  let ?ids = "swap_remove i ids"
  note sw = swap_remove_distinct[OF ids(2) i]
  have m: "side_map side ?new = (side_map side t)(key := if ?ids = [] then None else Some ?ids)"
    "side' \<noteq> side \<Longrightarrow> side_map side' ?new = side_map side' t" for side'
    using Some sk ids(1) i by (auto simp: forget_seq_def Let_def)
  have "ids_ok (side_map s ?new k) {q. side_of ?new q = Some (s, k)}" for s k
  proof (cases "s = side \<and> k = key")
    case True
    have "{q. side_of ?new q = Some (side, key)} = set ?ids" using ids(3) sw(2) by auto
    then show ?thesis using True sw(1) by (simp add: m(1))
  next
    case False
    then have "side_map s ?new k = side_map s t k" using m by (cases "s = side") auto
    moreover have "{q. side_of ?new q = Some (s, k)} = {q. side_of t q = Some (s, k)}"
      using Some sk False by auto
    ultimately show ?thesis using ok by (simp add: sides_ok_def)
  qed
  then show ?thesis by (simp add: sides_ok_def)
qed

section \<open>Every operation keeps the invariant and acts on the pending events\<close>

lemma pending_subset: "set (pending t) \<subseteq> set (heap t)"
  by (auto simp: pending_def)

lemma seqs_pending: "set (seqs (pending t)) = set (seqs (heap t)) - cancelled t"
  by (force simp: seqs_def pending_def)

lemma distinct_seqs_filter: "distinct (seqs h) \<Longrightarrow> distinct (seqs (filter P h))"
  unfolding seqs_def by (rule distinct_map_filter)

lemma side_spec_None: "seq \<notin> set (seqs h) \<Longrightarrow> side_spec h seq = None"
proof -
  assume "seq \<notin> set (seqs h)"
  then have "map_of (map (\<lambda>(_, s, e). (s, e)) h) seq = None"
    by (induction h) (auto simp: seqs_def)
  then show ?thesis by (simp add: side_spec_def)
qed

lemma side_spec_Cons: "side_spec ((tm, s, e) # h) = (side_spec h)(s := side_entry e)"
  by (auto simp: side_spec_def fun_eq_iff)

lemma side_spec_mem: "distinct (seqs h) \<Longrightarrow> (tm, q, e) \<in> set h \<Longrightarrow> side_spec h q = side_entry e"
proof (induction h)
  case (Cons x h)
  obtain tm' s' e' where x: "x = (tm', s', e')" by (cases x) auto
  have "s' \<notin> set (seqs h)" using Cons.prems(1) x by (simp add: seqs_def)
  then show ?case using Cons x by (force simp: side_spec_Cons seqs_def)
qed simp

lemma side_spec_filter:
  "distinct (seqs h) \<Longrightarrow> side_spec (filter (\<lambda>(_, _, e). side_entry e \<noteq> Some sk) h) =
     (side_spec h) |` {q. side_spec h q \<noteq> Some sk}"
proof (induction h)
  case (Cons x h)
  obtain tm s e where x: "x = (tm, s, e)" by (cases x) auto
  have fresh: "s \<notin> set (seqs h)" using Cons.prems x by (simp add: seqs_def)
  have IH: "side_spec (filter (\<lambda>(_, _, e). side_entry e \<noteq> Some sk) h) = (side_spec h) |` {q. side_spec h q \<noteq> Some sk}"
    using Cons x by (simp add: seqs_def)
  show ?case
    using side_spec_None[OF fresh] by (auto simp: x side_spec_Cons IH restrict_map_def fun_eq_iff)
qed (simp add: side_spec_def restrict_map_def fun_eq_iff)

lemma length_filter_seqs:
  assumes "distinct (seqs h)" "distinct ids" "set ids \<subseteq> set (seqs h)"
  shows "length (filter (\<lambda>(_, q, _). q \<in> set ids) h) = length ids"
proof -
  have "set (seqs (filter (\<lambda>(_, q, _). q \<in> set ids) h)) = set ids"
    using assms(3) by (force simp: seqs_def)
  then have "length (seqs (filter (\<lambda>(_, q, _). q \<in> set ids) h)) = length ids"
    using assms(1,2) distinct_seqs_filter by (metis distinct_card)
  then show ?thesis by (simp add: seqs_def)
qed

lemma sorted_wrt_filter_before: "sorted_wrt before h \<Longrightarrow> sorted_wrt before (filter P h)"
  by (rule sorted_wrt_filter)

lemma Timer_new_inv [inv_intros]: "timer_inv Timer_new"
  by (simp add: timer_inv_def Timer_new_def seqs_def pending_def side_spec_def sides_ok_def side_map_def
      fun_eq_iff split: Side.split)

lemma push_pending:
  assumes "timer_inv t"
  shows "timer_inv (snd (push tm e t))" "pending (snd (push tm e t)) = heap_push (tm, next_seq t, e) (pending t)"
proof -
  let ?x = "(tm, next_seq t, e)" and ?t = "snd (push tm e t)"
  have fresh: "next_seq t \<notin> set (seqs (heap t))" "next_seq t \<notin> cancelled t" "next_seq t \<notin> set (seqs (pending t))"
    using assms seqs_pending[of t] by (auto simp: timer_inv_def)
  have flds: "heap ?t = heap_push ?x (heap t)" "cancelled ?t = cancelled t" "active_count ?t = active_count t + 1"
      "next_seq ?t = next_seq t + 1"
    by (simp_all add: push_def Let_def)
  show p: "pending ?t = heap_push ?x (pending t)"
    unfolding pending_def flds using assms fresh(2) by (subst filter_heap_push) (auto simp: timer_inv_def)
  let ?u = "t\<lparr> next_seq := Suc (next_seq t), heap := heap_push ?x (heap t) \<rparr>"
  have none: "side_of ?u (next_seq t) = None"
    using assms fresh(3) side_spec_None by (simp add: timer_inv_def)
  have "side_of ?t = side_of (index_seq (next_seq t) e ?u)"
    by (simp add: push_def Let_def)
  also have "\<dots> = (side_of t)(next_seq t := side_entry e)"
    by (subst index_seq_side_of[OF none]) simp
  also have "\<dots> = side_spec (heap_push ?x (pending t))"
    using assms fresh(3) map_of_heap_push[of ?x "pending t"]
    by (auto simp: timer_inv_def side_spec_def fun_eq_iff)
  finally have so: "side_of ?t = side_spec (pending ?t)" by (simp add: p)
  have "sides_ok ?t"
    using index_seq_sides_ok[OF _ none] assms by (simp add: push_def Let_def timer_inv_def)
  then show "timer_inv ?t"
    using assms so p fresh(1)
    by (auto simp: timer_inv_def flds heap_push_sorted distinct_seqs_push mset_seqs_push)
qed

lemma pop_cancelled:
  assumes inv: "timer_inv t" and h: "heap t = (tm, seq, e) # h" and c: "seq \<in> cancelled t"
  defines "t' \<equiv> forget_seq seq (t\<lparr> heap := h, cancelled := cancelled t - {seq} \<rparr>)"
  shows "timer_inv t'" "pending t' = pending t"
proof -
  have d: "seq \<notin> set (seqs h)" "distinct (seqs h)" using inv h by (auto simp: timer_inv_def seqs_def)
  then have keep: "(x, s, y) \<in> set h \<Longrightarrow> s \<noteq> seq" for x s y by (force simp: seqs_def)
  show p: "pending t' = pending t"
    using h c keep by (auto simp: pending_def t'_def intro!: filter_cong)
  have "side_of t' = side_of t"
    using inv c seqs_pending[of t] side_spec_None[of seq "pending t"] by (auto simp: t'_def timer_inv_def)
  moreover have "sides_ok t'" using inv forget_seq_sides_ok by (simp add: t'_def timer_inv_def)
  ultimately show "timer_inv t'"
    using inv h p by (auto simp: timer_inv_def t'_def seqs_def)
qed

lemma pop_live:
  assumes inv: "timer_inv t" and h: "heap t = (tm, seq, e) # h" and c: "seq \<notin> cancelled t"
  defines "t' \<equiv> (forget_seq seq (t\<lparr> heap := h \<rparr>))\<lparr> active_count := active_count t - 1 \<rparr>"
  shows "timer_inv t'" "pending t = (tm, seq, e) # pending t'"
proof -
  have d: "seq \<notin> set (seqs h)" "distinct (seqs h)" using inv h by (auto simp: timer_inv_def seqs_def)
  show p: "pending t = (tm, seq, e) # pending t'"
    using h c by (simp add: pending_def t'_def)
  have "seq \<notin> set (seqs (pending t'))"
    using d(1) seqs_pending[of t'] by (simp add: t'_def)
  then have "(side_spec (pending t))(seq := None) = side_spec (pending t')"
    using side_spec_None by (auto simp: p side_spec_def fun_eq_iff)
  then have "side_of t' = side_spec (pending t')" using inv by (simp add: t'_def timer_inv_def)
  moreover have "sides_ok t'" using inv forget_seq_sides_ok by (simp add: t'_def timer_inv_def)
  moreover have "cancelled t \<subseteq> set (seqs h)" using inv h c by (auto simp: timer_inv_def seqs_def)
  ultimately show "timer_inv t'"
    using inv h p d by (auto simp: timer_inv_def t'_def seqs_def)
qed

abbreviation due_by :: "micros \<Rightarrow> entry \<Rightarrow> bool" where
  "due_by now x \<equiv> fst x \<le> now"

definition delivered :: "entry \<Rightarrow> micros \<times> TimerEvent" where
  "delivered x = (fst x, snd (snd x))"

lemma sorted_late: "sorted_wrt before (x # h) \<Longrightarrow> \<not> due_by now x \<Longrightarrow> y \<in> set (x # h) \<Longrightarrow> \<not> due_by now y"
  by (cases x; cases y) fastforce

lemma pop_loop_pending:
  assumes "timer_inv t" "pop_loop now t = (out, t')"
  shows "timer_inv t' \<and> out = map delivered (filter (due_by now) (pending t))
    \<and> pending t' = filter (\<lambda>x. \<not> due_by now x) (pending t)"
  using assms
proof (induction "length (heap t)" arbitrary: t out rule: less_induct)
  case less
  note inv = less.prems(1) and pop = less.prems(2)
  show ?case
  proof (cases "heap t")
    case Nil
    then have "out = []" "t' = t" using pop by (simp_all add: pop_loop.simps[of now t])
    then show ?thesis using inv Nil by (simp add: pending_def)
  next
    case (Cons x h)
    obtain tm seq e where x: "x = (tm, seq, e)" by (cases x) auto
    consider "tm > now" | "tm \<le> now" "seq \<in> cancelled t" | "tm \<le> now" "seq \<notin> cancelled t" by linarith
    then show ?thesis
    proof cases
      case 1
      then have "out = []" "t' = t" using pop Cons x by (simp_all add: pop_loop.simps[of now t])
      moreover have "\<not> due_by now y" if "y \<in> set (pending t)" for y
        using that sorted_late[of x h now y] inv pending_subset[of t] Cons x 1
        by (auto simp: timer_inv_def)
      ultimately show ?thesis using inv by (simp add: filter_empty_conv filter_id_conv)
    next
      case 2
      let ?u = "forget_seq seq (t\<lparr> heap := h, cancelled := cancelled t - {seq} \<rparr>)"
      have u: "pop_loop now ?u = (out, t')"
        using pop Cons x 2 by (simp add: pop_loop.simps[of now t])
      note st = pop_cancelled[OF inv, of tm seq e h, folded x, OF Cons 2(2)]
      have "timer_inv t' \<and> out = map delivered (filter (due_by now) (pending ?u))
          \<and> pending t' = filter (\<lambda>x. \<not> due_by now x) (pending ?u)"
        by (rule less.hyps[OF _ st(1) u]) (simp add: Cons)
      then show ?thesis using st(2) by simp
    next
      case 3
      let ?u = "(forget_seq seq (t\<lparr> heap := h \<rparr>))\<lparr> active_count := active_count t - 1 \<rparr>"
      obtain out' where u: "pop_loop now ?u = (out', t')" and out: "out = (tm, e) # out'"
        using pop Cons x 3 by (auto simp: pop_loop.simps[of now t] split: prod.splits)
      note st = pop_live[OF inv, of tm seq e h, folded x, OF Cons 3(2)]
      have "timer_inv t' \<and> out' = map delivered (filter (due_by now) (pending ?u))
          \<and> pending t' = filter (\<lambda>x. \<not> due_by now x) (pending ?u)"
        by (rule less.hyps[OF _ st(1) u]) (simp add: Cons)
      then show ?thesis using st(2) out 3 x by (simp add: delivered_def)
    qed
  qed
qed

lemma compact_pending:
  assumes "timer_inv t"
  shows "timer_inv (compact t)" "pending (compact t) = pending t"
proof -
  show p: "pending (compact t) = pending t" by (auto simp: compact_def pending_def)
  let ?u = "t\<lparr> heap := pending t, cancelled := {} \<rparr>"
  have "pending ?u = pending t" by (simp add: pending_def)
  moreover have "sorted_wrt before (pending t)" "distinct (seqs (pending t))" "set (seqs (pending t)) \<subseteq> set (seqs (heap t))"
    using assms seqs_pending[of t] sorted_wrt_filter_before[of "heap t"] distinct_seqs_filter[of "heap t"]
    by (auto simp: timer_inv_def pending_def)
  ultimately have "timer_inv ?u" using assms by (auto simp: timer_inv_def)
  then show "timer_inv (compact t)" using assms by (simp add: compact_def pending_def)
qed

lemma pop_due_pending:
  assumes "timer_inv t"
  shows "timer_inv (snd (pop_due now t))"
    "fst (pop_due now t) = map delivered (filter (due_by now) (pending t))"
    "pending (snd (pop_due now t)) = filter (\<lambda>x. \<not> due_by now x) (pending t)"
proof -
  obtain out t' where o: "pop_loop now t = (out, t')" by force
  note l = pop_loop_pending[OF assms o]
  then have c: "timer_inv t'" by blast
  show "timer_inv (snd (pop_due now t))"
    "fst (pop_due now t) = map delivered (filter (due_by now) (pending t))"
    "pending (snd (pop_due now t)) = filter (\<lambda>x. \<not> due_by now x) (pending t)"
    using l compact_pending[OF c] by (simp_all add: pop_due_def o)
qed

lemma cancel_all_eq:
  "distinct ids \<Longrightarrow> set ids \<inter> cancelled t = {} \<Longrightarrow>
   cancel_all ids t = t\<lparr> side_of := (side_of t) |` (- set ids), cancelled := cancelled t \<union> set ids,
     active_count := active_count t - int (length ids) \<rparr>"
proof (induction ids arbitrary: t)
  case Nil
  then show ?case by simp
next
  case (Cons i ids)
  have "(((side_of t)(i := None)) |` (- set ids)) = (side_of t) |` (- set (i # ids))"
    by (auto simp: restrict_map_def)
  then show ?case using Cons by (simp add: Let_def insert_commute)
qed

lemma side_map_ids:
  assumes "timer_inv t"
  shows "set (case side_map side t key of Some ids \<Rightarrow> ids | None \<Rightarrow> []) = {q. side_of t q = Some (side, key)}"
    "distinct (case side_map side t key of Some ids \<Rightarrow> ids | None \<Rightarrow> [])"
proof -
  have "ids_ok (side_map side t key) {q. side_of t q = Some (side, key)}"
    using assms unfolding timer_inv_def sides_ok_def by blast
  then show "set (case side_map side t key of Some ids \<Rightarrow> ids | None \<Rightarrow> []) = {q. side_of t q = Some (side, key)}"
    "distinct (case side_map side t key of Some ids \<Rightarrow> ids | None \<Rightarrow> [])"
    by (cases "side_map side t key"; simp)+
qed

lemma remove_side_eq:
  fixes side key and t :: Timer
  defines "ids \<equiv> case side_map side t key of Some ids \<Rightarrow> ids | None \<Rightarrow> []"
  assumes inv: "timer_inv t"
  shows "remove_side side key t = (set_side_map side ((side_map side t)(key := None)) t)
     \<lparr> side_of := (side_of t) |` (- set ids), cancelled := cancelled t \<union> set ids,
       active_count := active_count t - int (length ids) \<rparr>"
    and "set ids \<inter> cancelled t = {}"
proof -
  note ids = side_map_ids[OF inv, of side key, folded ids_def]
  have "q \<notin> cancelled t" if "side_of t q = Some sk" for q sk
  proof
    assume "q \<in> cancelled t"
    then have "q \<notin> set (seqs (pending t))" by (simp add: seqs_pending)
    then show False using that inv side_spec_None by (simp add: timer_inv_def)
  qed
  then show dis: "set ids \<inter> cancelled t = {}" using ids(1) by auto
  then show "remove_side side key t = (set_side_map side ((side_map side t)(key := None)) t)
     \<lparr> side_of := (side_of t) |` (- set ids), cancelled := cancelled t \<union> set ids,
       active_count := active_count t - int (length ids) \<rparr>"
    using ids(2) by (simp add: remove_side_def Let_def cancel_all_eq flip: ids_def)
qed

lemma remove_side_sides_ok:
  assumes inv: "timer_inv t"
  shows "sides_ok (remove_side side key t)"
  unfolding sides_ok_def
proof (intro allI)
  fix s k
  let ?r = "remove_side side key t"
  note req = remove_side_eq(1)[OF inv, of side key] and ids = side_map_ids(1)[OF inv, of side key]
  have ok: "ids_ok (side_map s t k) {q. side_of t q = Some (s, k)}"
    using inv unfolding timer_inv_def sides_ok_def by blast
  show "ids_ok (side_map s ?r k) {q. side_of ?r q = Some (s, k)}"
  proof (cases "s = side \<and> k = key")
    case True
    then show ?thesis by (simp add: req restrict_map_def ids)
  next
    case False
    then have "{q. side_of ?r q = Some (s, k)} = {q. side_of t q = Some (s, k)}"
      by (auto simp: req restrict_map_def ids)
    moreover have "side_map s ?r k = side_map s t k"
      using False by (cases "s = side") (auto simp: req)
    ultimately show ?thesis using ok by simp
  qed
qed

lemma remove_side_pending:
  assumes inv: "timer_inv t"
  shows "timer_inv (remove_side side key t)"
    "pending (remove_side side key t) = filter (\<lambda>(_, _, e). side_entry e \<noteq> Some (side, key)) (pending t)"
proof -
  let ?ids = "case side_map side t key of Some ids \<Rightarrow> ids | None \<Rightarrow> []" and ?r = "remove_side side key t"
  let ?dead = "\<lambda>(_, q, _). q \<in> set ?ids"
  note req = remove_side_eq(1)[OF inv, of side key] and ids = side_map_ids[OF inv, of side key]
  have d: "distinct (seqs (pending t))" using inv distinct_seqs_filter by (auto simp: timer_inv_def pending_def)
  have so: "side_of t = side_spec (pending t)" using inv by (simp add: timer_inv_def)
  have sub: "set ?ids \<subseteq> set (seqs (pending t))" using ids(1) so side_spec_None by fastforce
  have live: "pending ?r = filter (\<lambda>x. \<not> ?dead x) (pending t)"
    by (auto simp: req pending_def intro!: filter_cong)
  also have "\<dots> = filter (\<lambda>(_, _, e). side_entry e \<noteq> Some (side, key)) (pending t)"
    using ids(1) so side_spec_mem[OF d] by (intro filter_cong) auto
  finally show p: "pending ?r = filter (\<lambda>(_, _, e). side_entry e \<noteq> Some (side, key)) (pending t)" .
  have "side_of ?r = (side_spec (pending t)) |` {q. side_spec (pending t) q \<noteq> Some (side, key)}"
    by (auto simp: req ids(1) so restrict_map_def fun_eq_iff)
  then have spec: "side_of ?r = side_spec (pending ?r)"
    by (simp add: p side_spec_filter[OF d])
  have "length (pending t) = length ?ids + length (pending ?r)"
    using sum_length_filter_compl[of ?dead "pending t"] length_filter_seqs[OF d ids(2) sub] live by simp
  moreover have "active_count ?r = active_count t - int (length ?ids)" by (simp add: req)
  moreover have "active_count t = int (length (pending t))" using inv by (simp add: timer_inv_def)
  ultimately have "active_count ?r = int (length (pending ?r))" by linarith
  moreover have "heap ?r = heap t" "next_seq ?r = next_seq t" "cancelled ?r = cancelled t \<union> set ?ids"
    by (simp_all add: req)
  ultimately show "timer_inv ?r"
    using inv spec remove_side_sides_ok[OF inv] sub seqs_pending[of t] by (auto simp: timer_inv_def)
qed

section \<open>The contract of a timer\<close>

datatype timer_op =
    OpPush micros TimerEvent | OpPop micros | OpRemoveRun int | OpRemoveSchedule int | OpRemoveRule int | OpClear

fun timer_perform :: "timer_op \<Rightarrow> Timer \<Rightarrow> (micros \<times> TimerEvent) list \<times> Timer" where
  "timer_perform (OpPush tm e) t = ([], snd (push tm e t))"
| "timer_perform (OpPop now) t = pop_due now t"
| "timer_perform (OpRemoveRun r) t = ([], remove_run_events r t)"
| "timer_perform (OpRemoveSchedule s) t = ([], remove_schedule_events s t)"
| "timer_perform (OpRemoveRule k) t = ([], remove_rule_clock k t)"
| "timer_perform OpClear t = ([], clear t)"

type_synonym bag = "(micros \<times> TimerEvent) multiset"

definition drop_side :: "Side \<times> int \<Rightarrow> bag \<Rightarrow> bag" where
  "drop_side sk b = filter_mset (\<lambda>x. side_entry (snd x) \<noteq> Some sk) b"

text \<open>What a timer promises, on the bag of pending times and events.\<close>

fun bag_op :: "timer_op \<Rightarrow> bag \<Rightarrow> bag \<times> bag" where
  "bag_op (OpPush tm e) b = ({#}, add_mset (tm, e) b)"
| "bag_op (OpPop now) b = (filter_mset (\<lambda>x. fst x \<le> now) b, filter_mset (\<lambda>x. \<not> fst x \<le> now) b)"
| "bag_op (OpRemoveRun r) b = ({#}, drop_side (RunSide, r) b)"
| "bag_op (OpRemoveSchedule s) b = ({#}, drop_side (ScheduleSide, s) b)"
| "bag_op (OpRemoveRule k) b = ({#}, drop_side (RuleSide, k) b)"
| "bag_op OpClear b = ({#}, {#})"

definition none_of :: "Side \<times> int \<Rightarrow> bag \<Rightarrow> bool" where
  "none_of sk b \<longleftrightarrow> (\<forall>x \<in># b. side_entry (snd x) \<noteq> Some sk)"

fun arms :: "Side \<times> int \<Rightarrow> timer_op \<Rightarrow> bool" where
  "arms sk (OpPush _ e) \<longleftrightarrow> side_entry e = Some sk"
| "arms sk _ = False"

lemma none_of_drop [simp]: "none_of sk (drop_side sk b)"
  by (simp add: none_of_def drop_side_def)

lemma bag_op_quiet:
  "none_of sk b \<Longrightarrow> \<not> arms sk op \<Longrightarrow> none_of sk (fst (bag_op op b)) \<and> none_of sk (snd (bag_op op b))"
  by (cases op) (auto simp: none_of_def drop_side_def)

lemma bag_run_quiet:
  "none_of sk b \<Longrightarrow> list_all (\<lambda>op. \<not> arms sk op) ops \<Longrightarrow> list_all (none_of sk) (fst (run_ops bag_op ops b))"
proof (induction ops arbitrary: b)
  case (Cons op ops)
  then show ?case using bag_op_quiet[of sk b op] by (simp add: case_prod_beta)
qed simp

locale timer_contract =
  fixes inv :: "'t \<Rightarrow> bool" and bag :: "'t \<Rightarrow> bag"
    and perform :: "timer_op \<Rightarrow> 't \<Rightarrow> (micros \<times> TimerEvent) list \<times> 't"
  assumes op_inv: "inv t \<Longrightarrow> inv (snd (perform op t))"
    and op_out: "inv t \<Longrightarrow> mset (fst (perform op t)) = fst (bag_op op (bag t))"
    and op_bag: "inv t \<Longrightarrow> bag (snd (perform op t)) = snd (bag_op op (bag t))"
    and op_sorted: "inv t \<Longrightarrow> sorted (map fst (fst (perform op t)))"
begin

lemma refines: "inv t \<Longrightarrow>
    map mset (fst (run_ops perform ops t)) = fst (run_ops bag_op ops (bag t))
    \<and> bag (snd (run_ops perform ops t)) = snd (run_ops bag_op ops (bag t))
    \<and> inv (snd (run_ops perform ops t))
    \<and> list_all (\<lambda>out. sorted (map fst out)) (fst (run_ops perform ops t))"
proof (induction ops arbitrary: t)
  case (Cons op ops)
  then show ?case
    using op_inv[of t op] op_out[of t op] op_bag[of t op] op_sorted[of t op]
    by (simp add: case_prod_beta)
qed simp

text \<open>Events of a removed run, schedule or rule stay silent until someone arms new ones.\<close>

lemma removed_stay_silent:
  assumes "inv t" "none_of sk (bag t)" "list_all (\<lambda>op. \<not> arms sk op) ops"
  shows "list_all (\<lambda>out. none_of sk (mset out)) (fst (run_ops perform ops t))"
proof -
  have "list_all (none_of sk) (map mset (fst (run_ops perform ops t)))"
    using refines[OF assms(1), of ops] bag_run_quiet[OF assms(2,3)] by simp
  then show ?thesis by (simp add: list_all_iff)
qed

end

definition timer_bag :: "Timer \<Rightarrow> bag" where
  "timer_bag t = image_mset delivered (mset (pending t))"

lemma mset_heap_push: "mset (heap_push x h) = add_mset x (mset h)"
  by (induction h) auto

lemma bag_remove_side:
  "timer_inv t \<Longrightarrow> timer_bag (remove_side side key t) = drop_side (side, key) (timer_bag t)"
proof -
  assume inv: "timer_inv t"
  have "(\<lambda>x. side_entry (snd (delivered x)) \<noteq> Some (side, key)) = (\<lambda>(_, _, e). side_entry e \<noteq> Some (side, key))"
    by (auto simp: delivered_def)
  then show ?thesis
    by (simp add: timer_bag_def remove_side_pending(2)[OF inv] drop_side_def filter_mset_image_mset)
qed

lemma clear_inv [inv_intros]: "timer_inv (clear t)"
  by (simp add: timer_inv_def clear_def seqs_def pending_def side_spec_def sides_ok_def side_map_def
      fun_eq_iff split: Side.split)

lemma sorted_pending: "timer_inv t \<Longrightarrow> sorted (map fst (filter P (pending t)))"
proof -
  assume "timer_inv t"
  then have "sorted_wrt before (filter P (pending t))"
    unfolding pending_def timer_inv_def by (intro sorted_wrt_filter) simp
  then show ?thesis
    by (induction "filter P (pending t)" arbitrary: rule: list.induct)
       (auto simp: sorted_wrt_map elim!: sorted_wrt_mono_rel[rotated])
qed

lemma timer_perform_inv: "timer_inv t \<Longrightarrow> timer_inv (snd (timer_perform op t))"
  by (cases op) (simp_all add: push_pending pop_due_pending remove_side_pending clear_inv
      remove_run_events_def remove_schedule_events_def remove_rule_clock_def)

lemmas timer_ops = push_pending pop_due_pending bag_remove_side remove_run_events_def
  remove_schedule_events_def remove_rule_clock_def

interpretation tq: timer_contract timer_inv timer_bag timer_perform
proof
  fix t :: Timer and op
  assume inv: "timer_inv t"
  show "timer_inv (snd (timer_perform op t))" using timer_perform_inv[OF inv] .
  show "mset (fst (timer_perform op t)) = fst (bag_op op (timer_bag t))"
    using inv by (cases op) (simp_all add: timer_ops timer_bag_def filter_mset_image_mset delivered_def)
  show "timer_bag (snd (timer_perform op t)) = snd (bag_op op (timer_bag t))"
  proof (cases op)
    case (OpPush tm e)
    then show ?thesis using inv by (simp add: timer_ops timer_bag_def mset_heap_push delivered_def)
  next
    case (OpPop now)
    then show ?thesis using inv by (simp add: timer_ops timer_bag_def filter_mset_image_mset delivered_def)
  next
    case OpClear
    then show ?thesis by (simp add: timer_bag_def clear_def pending_def)
  qed (use inv in \<open>simp_all add: timer_ops\<close>)
  show "sorted (map fst (fst (timer_perform op t)))"
    using inv sorted_pending[OF inv] by (cases op) (simp_all add: timer_ops delivered_def comp_def)
qed

section \<open>Properties\<close>

text \<open>C24: whatever sequence of operations the server performs on a new timer, each pop delivers exactly
  the pending events whose time has come, in order of time, each of them once: lazy deletion, the
  side indexes and the compaction of the heap are not observable.\<close>

theorem timer_refines_bag:
  "map mset (fst (run_ops timer_perform ops Timer_new)) = fst (run_ops bag_op ops {#})
   \<and> list_all (\<lambda>out. sorted (map fst out)) (fst (run_ops timer_perform ops Timer_new))"
proof -
  have "timer_bag Timer_new = {#}" by (simp add: timer_bag_def pending_def Timer_new_def)
  then show ?thesis using tq.refines[OF Timer_new_inv, of ops] by simp
qed

lemma reached_inv: "timer_inv (snd (run_ops timer_perform ops Timer_new))"
  using tq.refines[OF Timer_new_inv] by blast

text \<open>The counter of active events never drifts or drops below zero: after any operations it is the
  number of pending events, and every cancelled sequence number still belongs to a tuple of the heap.\<close>

theorem timer_len_exact:
  "let t = snd (run_ops timer_perform ops Timer_new) in
     timer_len t = int (size (timer_bag t)) \<and> 0 \<le> timer_len t
     \<and> cancelled t \<subseteq> set (seqs (heap t)) \<and> finite (cancelled t)"
proof -
  let ?t = "snd (run_ops timer_perform ops Timer_new)"
  have "cancelled ?t \<subseteq> set (seqs (heap ?t))" using reached_inv[of ops] by (simp add: timer_inv_def)
  then show ?thesis
    using reached_inv[of ops] finite_subset[of "cancelled ?t"]
    by (auto simp: Let_def timer_len_def timer_bag_def timer_inv_def)
qed

text \<open>After a run's events are removed, no operation delivers an event of that run until one is
  armed again, whatever was cancelled, popped or compacted before; and the events of every other
  owner stay pending.\<close>

theorem removed_run_silent:
  assumes "list_all (\<lambda>op. \<not> arms (RunSide, r) op) later"
  shows "list_all (\<lambda>out. none_of (RunSide, r) (mset out))
      (fst (run_ops timer_perform later (remove_run_events r (snd (run_ops timer_perform earlier Timer_new)))))
    \<and> timer_bag (remove_run_events r (snd (run_ops timer_perform earlier Timer_new)))
      = filter_mset (\<lambda>x. side_entry (snd x) \<noteq> Some (RunSide, r)) (timer_bag (snd (run_ops timer_perform earlier Timer_new)))"
proof -
  let ?t = "snd (run_ops timer_perform earlier Timer_new)"
  note inv = reached_inv[of earlier]
  have "timer_bag (remove_run_events r ?t) = drop_side (RunSide, r) (timer_bag ?t)"
    by (simp add: remove_run_events_def bag_remove_side[OF inv])
  moreover have "timer_inv (remove_run_events r ?t)"
    by (simp add: remove_run_events_def remove_side_pending(1)[OF inv])
  ultimately show ?thesis
    using tq.removed_stay_silent[OF _ _ assms] by (simp add: drop_side_def[symmetric])
qed

theorem removed_run_silent_witness:
  "list_all (\<lambda>out. none_of (RunSide, 3) (mset out))
      (fst (run_ops timer_perform [OpPush 5 (Fire 3), OpPop 100]
         (remove_run_events 3 (snd (run_ops timer_perform [OpPush 9 (Due 3), OpPush 7 (Due 4)] Timer_new)))))"
  using removed_run_silent[of 3 "[OpPush 5 (Fire 3), OpPop 100]" "[OpPush 9 (Due 3), OpPush 7 (Due 4)]"] by simp

text \<open>The scheduler never oversleeps: the head of the heap is never later than a pending event, and a
  push either notifies the sleeper or leaves the head where it was, at or before the new event.\<close>

theorem sleeper_wakes_in_time:
  "let t = snd (run_ops timer_perform ops Timer_new); (notified, t') = push tm e t in
     (\<forall>x \<in># timer_bag t. \<exists>h. peek_at t = Some h \<and> h \<le> fst x)
     \<and> (notified \<longrightarrow> peek_at t' = Some tm)
     \<and> (\<not> notified \<longrightarrow> peek_at t' = peek_at t \<and> (\<exists>h. peek_at t = Some h \<and> h \<le> tm))"
proof -
  let ?t = "snd (run_ops timer_perform ops Timer_new)"
  note inv = reached_inv[of ops]
  have head: "\<exists>h. peek_at ?t = Some h \<and> h \<le> fst x" if "x \<in> set (heap ?t)" for x
  proof (cases "heap ?t")
    case (Cons y ys)
    then have "sorted_wrt before (y # ys)" using inv by (simp add: timer_inv_def)
    then have "fst y \<le> fst x" using that Cons before_le[of y x] by auto
    then show ?thesis using Cons by (cases y) (simp add: peek_at_def)
  qed (use that in simp)
  have "(notified \<longrightarrow> peek_at t' = Some tm) \<and> (\<not> notified \<longrightarrow> peek_at t' = peek_at ?t \<and> (\<exists>h. peek_at ?t = Some h \<and> h \<le> tm))"
    if "push tm e ?t = (notified, t')" for notified t'
    using that by (cases "heap ?t") (auto simp: push_def Let_def peek_at_def split: if_splits)
  then show ?thesis
    using head pending_subset[of ?t] by (fastforce simp: Let_def timer_bag_def delivered_def split: prod.splits)
qed

theorem sleeper_wakes_in_time_witness:
  "fst (push 5 Wake (snd (run_ops timer_perform [OpPush 9 (Due 3)] Timer_new)))
   \<and> peek_at (snd (push 5 Wake (snd (run_ops timer_perform [OpPush 9 (Due 3)] Timer_new)))) = Some 5"
proof -
  have "fst (push 5 Wake (snd (run_ops timer_perform [OpPush 9 (Due 3)] Timer_new)))"
    by (simp add: push_def Let_def Timer_new_def)
  then show ?thesis
    using sleeper_wakes_in_time[of "[OpPush 9 (Due 3)]" 5 Wake] by (simp add: Let_def case_prod_beta)
qed

text \<open>A clock-armed rule reports a pending tick exactly when one of its ticks is pending, so arming on
  that answer never doubles a rule's clock and never leaves it unarmed.\<close>

theorem rule_clock_exact:
  "let t = snd (run_ops timer_perform ops Timer_new) in
     has_rule_clock k t \<longleftrightarrow> (\<exists>tm. (tm, RuleClock k) \<in># timer_bag t)"
proof -
  let ?t = "snd (run_ops timer_perform ops Timer_new)"
  note inv = reached_inv[of ops]
  have d: "distinct (seqs (pending ?t))" using inv distinct_seqs_filter by (auto simp: timer_inv_def pending_def)
  have "has_rule_clock k ?t \<longleftrightarrow> {q. side_of ?t q = Some (RuleSide, k)} \<noteq> {}"
  proof -
    have "ids_ok (side_map RuleSide ?t k) {q. side_of ?t q = Some (RuleSide, k)}"
      using inv unfolding timer_inv_def sides_ok_def by blast
    from ids_ok_nonempty[OF this] show ?thesis by (simp add: has_rule_clock_def side_map_def)
  qed
  also have "\<dots> \<longleftrightarrow> (\<exists>q tm. (tm, q, RuleClock k) \<in> set (pending ?t))"
  proof -
    have k: "side_entry e = Some (RuleSide, k) \<longleftrightarrow> e = RuleClock k" for e by (cases e) auto
    have so: "side_of ?t = side_spec (pending ?t)" using inv by (simp add: timer_inv_def)
    have "(\<exists>tm. (tm, q, RuleClock k) \<in> set (pending ?t)) \<longleftrightarrow> side_spec (pending ?t) q = Some (RuleSide, k)" for q
    proof
      assume "side_spec (pending ?t) q = Some (RuleSide, k)"
      moreover from this have "q \<in> set (seqs (pending ?t))" using side_spec_None by fastforce
      then obtain tm e where "(tm, q, e) \<in> set (pending ?t)" by (auto simp: seqs_def)
      ultimately show "\<exists>tm. (tm, q, RuleClock k) \<in> set (pending ?t)"
        using side_spec_mem[OF d] k by metis
    qed (use side_spec_mem[OF d] k in force)
    then show ?thesis by (auto simp: so)
  qed
  finally show ?thesis by (force simp: Let_def timer_bag_def delivered_def)
qed

end
