(* ===== verification/Active_Index.thy ===== *)
theory Active_Index
  imports Model
begin

text \<open>
  The in-memory working set of the server (\<^verbatim>\<open>crates/server/src/index.rs\<close>): the
  runs that have not ended, the counters per flow and state, and the set of
  runs that wait on an event with the flag that mirrors it. Each operation holds
  the write lock for its whole body. \<^verbatim>\<open>Instant\<close> values are numbers.
\<close>

record ActiveRun =
  ar_id :: int
  ar_flow_id :: int
  ar_name :: string
  ar_state :: State
  ar_engine_pid :: "nat option"
  ar_engine_id :: "string option"
  ar_last_heartbeat :: int
  ar_cancel_requested :: bool
  ar_cancelling_since :: "int option"
  ar_terminated_at :: "int option"
  ar_key :: EngineKey
  ar_adopted :: bool

text \<open>The latency histograms of \<^verbatim>\<open>crates/server/src/metrics.rs\<close>.\<close>

record Histogram =
  hi_bounds :: "f64 list"
  hi_counts :: "nat list"
  hi_sum_micros :: nat
  hi_count :: nat

definition DELAY_BOUNDS :: "f64 list" where
  "DELAY_BOUNDS = [Fin 1, Fin 5, Fin 15, Fin 60, Fin 300, Fin 900, Fin 3600]"

definition Histogram_new :: "f64 list \<Rightarrow> Histogram" where
  "Histogram_new bounds = \<lparr> hi_bounds = bounds, hi_counts = map (\<lambda>_. 0) bounds, hi_sum_micros = 0, hi_count = 0 \<rparr>"

definition f64_to_u64 :: "f64 \<Rightarrow> nat" where
  "f64_to_u64 x = (case x of NaN \<Rightarrow> 0 | NInf \<Rightarrow> 0 | PInf \<Rightarrow> 2 ^ 64 - 1
     | Fin r \<Rightarrow> nat (max 0 (min (2 ^ 64 - 1) (rat_trunc r))))"

definition observe :: "f64 \<Rightarrow> Histogram \<Rightarrow> Histogram" where
  "observe seconds h =
     (let seconds = f64_max seconds (Fin 0) in
      h\<lparr> hi_counts := map2 (\<lambda>bound n. if f64_le seconds bound then n + 1 else n) (hi_bounds h) (hi_counts h),
         hi_sum_micros := hi_sum_micros h + f64_to_u64 (f64_mul seconds (Fin 1000000)),
         hi_count := hi_count h + 1 \<rparr>)"

type_synonym state_counts = "(StateType \<times> int) list"

record Index =
  ix_active :: "(int \<times> ActiveRun) list"
  ix_by_flow :: "(int \<times> state_counts) list"
  ix_task_by_state :: state_counts
  ix_flow_project :: "(int \<times> string) list"
  ix_awaiting_event :: "int list"
  ix_has_event_waiters :: bool
  ix_start_delay :: Histogram
  ix_resource_wait :: Histogram

definition Index_default :: Index where
  "Index_default =
     \<lparr> ix_active = [], ix_by_flow = [], ix_task_by_state = [], ix_flow_project = [], ix_awaiting_event = [],
       ix_has_event_waiters = False, ix_start_delay = Histogram_new DELAY_BOUNDS,
       ix_resource_wait = Histogram_new DELAY_BOUNDS \<rparr>"

definition is_awaiting_event :: "State \<Rightarrow> bool" where
  "is_awaiting_event s \<longleftrightarrow> st_type s = Paused \<and> st_name s = ''AwaitingEvent''"

text \<open>The set of waiting runs is kept as a list without repetition.\<close>

definition set_waiting :: "int \<Rightarrow> bool \<Rightarrow> Index \<Rightarrow> Index" where
  "set_waiting i waiting ix =
     (let ws = (if waiting then List.insert i (ix_awaiting_event ix) else removeAll i (ix_awaiting_event ix)) in
      ix\<lparr> ix_awaiting_event := ws, ix_has_event_waiters := (ws \<noteq> []) \<rparr>)"

definition load_counts ::
  "(int \<times> string \<times> int) list \<Rightarrow> (string \<times> int) list \<Rightarrow> (int \<times> string) list \<Rightarrow> Index \<Rightarrow> Index" where
  "load_counts runs task_runs flow_projects ix =
     ix\<lparr> ix_by_flow := fold (\<lambda>(flow, state, n) m. case StateType_parse state of
            Some t \<Rightarrow> entry_update flow [] (entry_update t 0 (\<lambda>c. c + n)) m
          | None \<Rightarrow> m) runs [],
         ix_task_by_state := fold (\<lambda>(state, n) m. case StateType_parse state of
            Some t \<Rightarrow> entry_update t 0 (\<lambda>c. c + n) m
          | None \<Rightarrow> m) task_runs [],
         ix_flow_project := fold (\<lambda>(f, p). AList.update f p) flow_projects [] \<rparr>"

definition set_flow_project :: "int \<Rightarrow> string \<Rightarrow> Index \<Rightarrow> Index" where
  "set_flow_project flow project ix = ix\<lparr> ix_flow_project := AList.update flow project (ix_flow_project ix) \<rparr>"

definition clear_active :: "Index \<Rightarrow> Index" where
  "clear_active ix = ix\<lparr> ix_active := [], ix_awaiting_event := [], ix_has_event_waiters := False \<rparr>"

definition remove_flow :: "int \<Rightarrow> Index \<Rightarrow> Index" where
  "remove_flow flow ix =
     (let dropped = map fst (filter (\<lambda>(_, r). ar_flow_id r = flow) (ix_active ix));
          ix = ix\<lparr> ix_flow_project := AList.delete flow (ix_flow_project ix),
                   ix_by_flow := AList.delete flow (ix_by_flow ix),
                   ix_active := filter (\<lambda>(_, r). ar_flow_id r \<noteq> flow) (ix_active ix) \<rparr>
      in fold (\<lambda>i. set_waiting i False) dropped ix)"

definition new_active :: "int \<Rightarrow> EngineKey \<Rightarrow> bool \<Rightarrow> Run \<Rightarrow> ActiveRun" where
  "new_active now key adopted run =
     \<lparr> ar_id = run_id run, ar_flow_id = run_flow_id run, ar_name = run_name run, ar_state = run_state run,
       ar_engine_pid = map_option (\<lambda>p. nat (p mod 2 ^ 32)) (run_engine_pid run), ar_engine_id = run_engine_id run,
       ar_last_heartbeat = now, ar_cancel_requested = (st_type (run_state run) = Cancelling),
       ar_cancelling_since = (if st_type (run_state run) = Cancelling then Some now else None),
       ar_terminated_at = None, ar_key = key, ar_adopted = adopted \<rparr>"

definition bump :: "int \<Rightarrow> StateType \<Rightarrow> (int \<Rightarrow> int) \<Rightarrow> Index \<Rightarrow> Index" where
  "bump flow t f ix = ix\<lparr> ix_by_flow := entry_update flow [] (entry_update t 0 f) (ix_by_flow ix) \<rparr>"

definition index_insert :: "int \<Rightarrow> Run \<Rightarrow> EngineKey \<Rightarrow> bool \<Rightarrow> Index \<Rightarrow> Index" where
  "index_insert now run key adopted ix =
     (let ix = bump (run_flow_id run) (st_type (run_state run)) (\<lambda>n. n + 1) ix in
      if is_terminal (run_state run) then ix
      else let ix = ix\<lparr> ix_active := AList.update (run_id run) (new_active now key adopted run) (ix_active ix) \<rparr>
           in if is_awaiting_event (run_state run) then set_waiting (run_id run) True ix else ix)"

definition adopt_run :: "int \<Rightarrow> Run \<Rightarrow> EngineKey \<Rightarrow> Index \<Rightarrow> Index" where
  "adopt_run now run key ix =
     (let ix = ix\<lparr> ix_active := AList.update (run_id run) (new_active now key True run) (ix_active ix) \<rparr>
      in if is_awaiting_event (run_state run) then set_waiting (run_id run) True ix else ix)"

definition micros_to_secs :: "int \<Rightarrow> f64" where
  "micros_to_secs d = f64_div (f64_of_int d) (Fin 1000000)"

definition observe_transition :: "micros \<Rightarrow> Run \<Rightarrow> State option \<Rightarrow> Index \<Rightarrow> Index" where
  "observe_transition now run previous ix =
     (let ix = (if st_type (run_state run) = Running \<and> (case previous of Some p \<Rightarrow> st_type p \<noteq> Running | None \<Rightarrow> False)
           then (case run_scheduled_time run of
                   Some scheduled \<Rightarrow> ix\<lparr> ix_start_delay := observe (micros_to_secs (i64_sub now scheduled)) (ix_start_delay ix) \<rparr>
                 | None \<Rightarrow> ix)
           else ix)
      in case previous of
           Some prev \<Rightarrow>
             if st_name prev = ''AwaitingResource'' \<and> st_name (run_state run) \<noteq> ''AwaitingResource''
             then ix\<lparr> ix_resource_wait := observe (micros_to_secs (i64_sub now (st_timestamp prev))) (ix_resource_wait ix) \<rparr>
             else ix
         | None \<Rightarrow> ix)"

definition enter_state :: "int \<Rightarrow> Run \<Rightarrow> ActiveRun \<Rightarrow> ActiveRun" where
  "enter_state now run entry =
     (let entry = entry\<lparr> ar_state := run_state run,
            ar_engine_pid := (case run_engine_pid run of Some p \<Rightarrow> Some (nat (p mod 2 ^ 32)) | None \<Rightarrow> ar_engine_pid entry) \<rparr>
      in if st_type (run_state run) = Cancelling
         then entry\<lparr> ar_cancel_requested := True,
                ar_cancelling_since := (if ar_cancelling_since entry = None then Some now else ar_cancelling_since entry) \<rparr>
         else entry)"

definition index_transition :: "micros \<Rightarrow> Run \<Rightarrow> State option \<Rightarrow> Index \<Rightarrow> Index" where
  "index_transition now run previous ix =
     (let ix = observe_transition now run previous ix;
          ix = bump (run_flow_id run) (st_type (run_state run)) (\<lambda>n. n + 1)
                 (case previous of Some prev \<Rightarrow> bump (run_flow_id run) (st_type prev) (\<lambda>n. max (n - 1) 0) ix
                  | None \<Rightarrow> ix)
      in if is_terminal (run_state run)
         then set_waiting (run_id run) False (ix\<lparr> ix_active := AList.delete (run_id run) (ix_active ix) \<rparr>)
         else let ix = set_waiting (run_id run) (is_awaiting_event (run_state run)) ix in
           case map_of (ix_active ix) (run_id run) of
             Some entry \<Rightarrow> ix\<lparr> ix_active := AList.update (run_id run) (enter_state now run entry) (ix_active ix) \<rparr>
           | None \<Rightarrow> ix)"

definition bulk_terminal :: "int \<Rightarrow> int list \<Rightarrow> StateType \<Rightarrow> StateType \<Rightarrow> Index \<Rightarrow> Index" where
  "bulk_terminal flow ids previous next ix =
     (let n = int (length ids);
          ix = bump flow next (\<lambda>c. c + n) (bump flow previous (\<lambda>c. max (c - n) 0) ix)
      in fold (\<lambda>i ix. set_waiting i False (ix\<lparr> ix_active := AList.delete i (ix_active ix) \<rparr>)) ids ix)"

definition remove_run :: "int \<Rightarrow> State option \<Rightarrow> int \<Rightarrow> Index \<Rightarrow> Index" where
  "remove_run i state flow ix =
     (let ix = set_waiting i False (ix\<lparr> ix_active := AList.delete i (ix_active ix) \<rparr>) in
      case state of
        None \<Rightarrow> ix
      | Some s \<Rightarrow>
         (case map_of (ix_by_flow ix) flow of
            None \<Rightarrow> ix
          | Some m \<Rightarrow>
             (case map_of m (st_type s) of
                None \<Rightarrow> ix
              | Some n \<Rightarrow> ix\<lparr> ix_by_flow := AList.update flow (AList.update (st_type s) (max (n - 1) 0) m) (ix_by_flow ix) \<rparr>)))"

definition task_run_transition :: "StateType option \<Rightarrow> StateType \<Rightarrow> Index \<Rightarrow> Index" where
  "task_run_transition previous next ix =
     (let m = (case previous of Some p \<Rightarrow> entry_update p 0 (\<lambda>n. max (n - 1) 0) (ix_task_by_state ix) | None \<Rightarrow> ix_task_by_state ix)
      in ix\<lparr> ix_task_by_state := entry_update next 0 (\<lambda>n. n + 1) m \<rparr>)"

definition get_active :: "int \<Rightarrow> Index \<Rightarrow> ActiveRun option" where
  "get_active i ix = map_of (ix_active ix) i"

definition active_runs :: "Index \<Rightarrow> ActiveRun list" where
  "active_runs ix = map snd (ix_active ix)"

definition active_runs_in :: "StateType list \<Rightarrow> Index \<Rightarrow> ActiveRun list" where
  "active_runs_in types ix = filter (\<lambda>r. st_type (ar_state r) \<in> set types) (map snd (ix_active ix))"

definition active_runs_for_flow :: "int \<Rightarrow> Index \<Rightarrow> ActiveRun list" where
  "active_runs_for_flow flow ix = filter (\<lambda>r. ar_flow_id r = flow) (map snd (ix_active ix))"

definition active_runs_by_flow :: "Index \<Rightarrow> (int \<times> ActiveRun list) list" where
  "active_runs_by_flow ix = fold (\<lambda>r. entry_update (ar_flow_id r) [] (\<lambda>rs. rs @ [r])) (map snd (ix_active ix)) []"

definition update_active :: "int \<Rightarrow> (ActiveRun \<Rightarrow> ActiveRun) \<Rightarrow> Index \<Rightarrow> bool \<times> Index" where
  "update_active i f ix =
     (case map_of (ix_active ix) i of
        None \<Rightarrow> (False, ix)
      | Some r \<Rightarrow> (True, set_waiting i (is_awaiting_event (ar_state (f r)))
                            (ix\<lparr> ix_active := AList.update i (f r) (ix_active ix) \<rparr>)))"

definition awaiting_event_count :: "Index \<Rightarrow> nat" where
  "awaiting_event_count ix = length (ix_awaiting_event ix)"

definition heartbeat :: "int \<Rightarrow> int \<Rightarrow> Index \<Rightarrow> bool option \<times> Index" where
  "heartbeat now i ix =
     (case map_of (ix_active ix) i of
        None \<Rightarrow> (None, ix)
      | Some r \<Rightarrow> (Some (ar_cancel_requested r),
                    ix\<lparr> ix_active := AList.update i (r\<lparr> ar_last_heartbeat := now \<rparr>) (ix_active ix) \<rparr>))"

definition in_project :: "string option \<Rightarrow> Index \<Rightarrow> int \<Rightarrow> bool" where
  "in_project project ix flow = (case project of None \<Rightarrow> True | Some p \<Rightarrow> map_of (ix_flow_project ix) flow = Some p)"

definition runs_by_state :: "string option \<Rightarrow> Index \<Rightarrow> state_counts" where
  "runs_by_state project ix =
     fold (\<lambda>t. entry_update t 0 id) StateType_ALL
       (fold (\<lambda>(flow, per_state) m.
          if in_project project ix flow then fold (\<lambda>(t, n). entry_update t 0 (\<lambda>c. c + n)) per_state m else m)
        (ix_by_flow ix) [])"

definition run_totals_by_project :: "Index \<Rightarrow> (string \<times> int) list" where
  "run_totals_by_project ix =
     fold (\<lambda>(flow, per_state) m. case map_of (ix_flow_project ix) flow of
         None \<Rightarrow> m
       | Some p \<Rightarrow> entry_update p 0 (\<lambda>c. c + sum_list (map snd per_state)) m) (ix_by_flow ix) []"

definition index_active_count :: "string option \<Rightarrow> Index \<Rightarrow> int" where
  "index_active_count project ix = int (length (filter (\<lambda>r. in_project project ix (ar_flow_id r)) (map snd (ix_active ix))))"

text \<open>
  The part of \<^verbatim>\<open>AppState::transition_run\<close> (\<^verbatim>\<open>crates/server/src/state.rs\<close>) that keeps the
  index in step with an accepted transition: \<open>previous\<close> is the stored run before it.
\<close>

definition follow_transition :: "micros \<Rightarrow> EngineKey \<Rightarrow> Run \<Rightarrow> Run \<Rightarrow> Index \<Rightarrow> Index" where
  "follow_transition now key previous run ix =
     (let prev_state = (if st_timestamp (run_state previous) = 0 then None else Some (run_state previous));
          ix = (if get_active (run_id run) ix = None \<and> \<not> is_terminal (run_state previous)
                then adopt_run now previous key ix else ix)
      in index_transition now run prev_state ix)"

section \<open>Counters and waiters\<close>

definition cnt :: "Index \<Rightarrow> int \<Rightarrow> StateType \<Rightarrow> int" where
  "cnt ix flow t = (case map_of (ix_by_flow ix) flow of
     None \<Rightarrow> 0 | Some m \<Rightarrow> (case map_of m t of None \<Rightarrow> 0 | Some n \<Rightarrow> n))"

lemma cnt_bump: "cnt (bump f t g ix) f' t' = (if f' = f \<and> t' = t then g (cnt ix f t) else cnt ix f' t')"
  by (auto simp: cnt_def bump_def split: option.splits)

lemma bump_fields [simp]:
  "ix_active (bump f t g ix) = ix_active ix" "ix_awaiting_event (bump f t g ix) = ix_awaiting_event ix"
  "ix_has_event_waiters (bump f t g ix) = ix_has_event_waiters ix"
  by (simp_all add: bump_def)

lemma set_waiting_fields [simp]:
  "ix_active (set_waiting i b ix) = ix_active ix" "ix_by_flow (set_waiting i b ix) = ix_by_flow ix"
  "set (ix_awaiting_event (set_waiting i b ix)) =
     (if b then insert i (set (ix_awaiting_event ix)) else set (ix_awaiting_event ix) - {i})"
  "ix_has_event_waiters (set_waiting i b ix) = (ix_awaiting_event (set_waiting i b ix) \<noteq> [])"
  by (simp_all add: set_waiting_def Let_def)

lemma observe_transition_fields [simp]:
  "ix_active (observe_transition now run previous ix) = ix_active ix"
  "ix_by_flow (observe_transition now run previous ix) = ix_by_flow ix"
  "ix_awaiting_event (observe_transition now run previous ix) = ix_awaiting_event ix"
  "ix_has_event_waiters (observe_transition now run previous ix) = ix_has_event_waiters ix"
  by (auto simp: observe_transition_def Let_def split: option.splits)

lemma cnt_cong: "ix_by_flow a = ix_by_flow b \<Longrightarrow> cnt a = cnt b"
  by (simp add: cnt_def fun_eq_iff)

definition flag_ok :: "Index \<Rightarrow> bool" where
  "flag_ok ix \<longleftrightarrow> (ix_has_event_waiters ix \<longleftrightarrow> ix_awaiting_event ix \<noteq> [])"

lemma flag_ok_set_waiting [simp]: "flag_ok (set_waiting i b ix)"
  by (simp add: flag_ok_def)

text \<open>
  The runs a server knows, with their flow and state type: the history the
  index is a summary of. \<open>waiting\<close>, \<open>active\<close> and the counters must agree with it.
\<close>

type_synonym world = "int \<rightharpoonup> int \<times> StateType"

definition counts_ok :: "world \<Rightarrow> Index \<Rightarrow> bool" where
  "counts_ok w ix \<longleftrightarrow> finite (dom w) \<and> (\<forall>f t. cnt ix f t = int (card {i. w i = Some (f, t)}))"

fun entry_ok :: "(int \<times> StateType) option \<Rightarrow> ActiveRun option \<Rightarrow> bool" where
  "entry_ok p None \<longleftrightarrow> (\<forall>f t. p = Some (f, t) \<longrightarrow> type_is_terminal t)"
| "entry_ok p (Some r) \<longleftrightarrow> p = Some (ar_flow_id r, st_type (ar_state r)) \<and> \<not> type_is_terminal (st_type (ar_state r))"

definition active_ok :: "world \<Rightarrow> Index \<Rightarrow> bool" where
  "active_ok w ix \<longleftrightarrow> distinct (map fst (ix_active ix)) \<and> (\<forall>i. entry_ok (w i) (map_of (ix_active ix) i))"

definition waiting_ok :: "Index \<Rightarrow> bool" where
  "waiting_ok ix \<longleftrightarrow> flag_ok ix \<and> set (ix_awaiting_event ix) =
     {i. \<exists>r. map_of (ix_active ix) i = Some r \<and> is_awaiting_event (ar_state r)}"

definition index_ok :: "world \<Rightarrow> Index \<Rightarrow> bool" where
  "index_ok w ix \<longleftrightarrow> counts_ok w ix \<and> active_ok w ix \<and> waiting_ok ix"

lemma card_world_upd:
  assumes "finite (dom w)" "w i = None"
  shows "card {j. (w(i \<mapsto> p)) j = Some q} = card {j. w j = Some q} + (if p = q then 1 else 0)"
proof -
  have fin: "finite {j. w j = Some q}" using assms(1) by (rule finite_subset[rotated]) auto
  have "{j. (w(i \<mapsto> p)) j = Some q} = (if p = q then insert i {j. w j = Some q} else {j. w j = Some q})"
    using assms(2) by auto
  then show ?thesis using fin assms(2) by auto
qed

lemma card_world_del:
  assumes "finite (dom w)" "w i = Some p"
  shows "int (card {j. (w(i := None)) j = Some q}) = int (card {j. w j = Some q}) - (if p = q then 1 else 0)"
    and "p = q \<Longrightarrow> 0 < card {j. w j = Some q}"
proof -
  have fin: "finite {j. w j = Some q}" using assms(1) by (rule finite_subset[rotated]) auto
  have "{j. (w(i := None)) j = Some q} = {j. w j = Some q} - (if p = q then {i} else {})"
    using assms(2) by auto
  moreover show pos: "p = q \<Longrightarrow> 0 < card {j. w j = Some q}" using fin assms(2) by (auto simp: card_gt_0_iff)
  moreover have "p = q \<Longrightarrow> card ({j. w j = Some q} - {i}) = card {j. w j = Some q} - 1"
    using assms(2) by (simp add: card_Diff_singleton)
  ultimately show "int (card {j. (w(i := None)) j = Some q}) = int (card {j. w j = Some q}) - (if p = q then 1 else 0)"
    by (auto simp del: fun_upd_apply)
qed

lemma counts_ok_insert:
  assumes "counts_ok w ix" "w i = None" "ix_by_flow ix' = ix_by_flow (bump f t (\<lambda>n. n + 1) ix)"
  shows "counts_ok (w(i \<mapsto> (f, t))) ix'"
  using assms cnt_cong[OF assms(3)] card_world_upd[of w i "(f, t)"]
  by (auto simp: counts_ok_def cnt_bump)

lemma counts_ok_delete:
  assumes "counts_ok w ix" "w i = Some (f, t)" "ix_by_flow ix' = ix_by_flow (bump f t (\<lambda>n. max (n - 1) 0) ix)"
  shows "counts_ok (w(i := None)) ix'"
proof -
  have "cnt ix' g u = int (card {j. (w(i := None)) j = Some (g, u)})" for g u
    using assms(1,2) cnt_cong[OF assms(3)] card_world_del[of w i "(f, t)" "(g, u)"]
    by (auto simp: counts_ok_def cnt_bump)
  then show ?thesis using assms(1) by (simp add: counts_ok_def)
qed

lemma active_okD: "active_ok w ix \<Longrightarrow> entry_ok (w i) (map_of (ix_active ix) i)"
  by (simp add: active_ok_def)

lemma active_ok_None: "active_ok w ix \<Longrightarrow> w i = None \<Longrightarrow> map_of (ix_active ix) i = None"
  using active_okD[of w ix i] by (cases "map_of (ix_active ix) i") auto

lemma active_ok_Some:
  "active_ok w ix \<Longrightarrow> map_of (ix_active ix) i = Some r \<Longrightarrow>
     w i = Some (ar_flow_id r, st_type (ar_state r)) \<and> \<not> type_is_terminal (st_type (ar_state r))"
  using active_okD[of w ix i] by simp

lemma active_ok_live:
  "active_ok w ix \<Longrightarrow> w i = Some (f, t) \<Longrightarrow> \<not> type_is_terminal t \<Longrightarrow> \<exists>r. map_of (ix_active ix) i = Some r"
  using active_okD[of w ix i] by (cases "map_of (ix_active ix) i") auto

lemma active_ok_ended:
  "active_ok w ix \<Longrightarrow> w i = Some (f, t) \<Longrightarrow> type_is_terminal t \<Longrightarrow> map_of (ix_active ix) i = None"
  using active_okD[of w ix i] by (cases "map_of (ix_active ix) i") auto

lemma active_ok_update:
  assumes "active_ok w ix" "\<not> type_is_terminal (st_type (ar_state r))"
    "ix_active ix' = AList.update i r (ix_active ix)"
  shows "active_ok (w(i \<mapsto> (ar_flow_id r, st_type (ar_state r)))) ix'"
  using assms by (simp add: active_ok_def distinct_update update_conv')

lemma active_ok_delete:
  assumes "active_ok w ix" "\<And>f t. p = Some (f, t) \<Longrightarrow> type_is_terminal t"
    "ix_active ix' = AList.delete i (ix_active ix)"
  shows "active_ok (w(i := p)) ix'"
  using assms by (simp add: active_ok_def distinct_delete delete_conv')

lemma waiting_ok_update:
  assumes "waiting_ok ix" "map_of (ix_active ix') = (map_of (ix_active ix))(i \<mapsto> r)"
    "set (ix_awaiting_event ix') = (if is_awaiting_event (ar_state r) then insert i (set (ix_awaiting_event ix))
       else set (ix_awaiting_event ix) - {i})" "flag_ok ix'"
  shows "waiting_ok ix'"
  using assms by (auto simp: waiting_ok_def split: if_splits)

lemma waiting_ok_delete:
  assumes "waiting_ok ix" "map_of (ix_active ix') = (map_of (ix_active ix))(i := None)"
    "set (ix_awaiting_event ix') = set (ix_awaiting_event ix) - {i}" "flag_ok ix'"
  shows "waiting_ok ix'"
  using assms by (auto simp: waiting_ok_def)

lemma not_waiting: "waiting_ok ix \<Longrightarrow> map_of (ix_active ix) i = None \<Longrightarrow> i \<notin> set (ix_awaiting_event ix)"
  by (simp add: waiting_ok_def)

lemma awaiting_not_terminal: "is_awaiting_event s \<Longrightarrow> \<not> is_terminal s"
  by (simp add: is_awaiting_event_def is_terminal_def)

lemma new_active_fields [simp]:
  "ar_state (new_active now key adopted run) = run_state run" "ar_flow_id (new_active now key adopted run) = run_flow_id run"
  by (simp_all add: new_active_def)

lemma index_insert_ok:
  assumes ok: "index_ok w ix" and new: "w (run_id run) = None"
  shows "index_ok (w(run_id run \<mapsto> (run_flow_id run, st_type (run_state run)))) (index_insert now run key adopted ix)"
    (is "index_ok ?w ?ix")
proof -
  have act: "active_ok w ix" and cts: "counts_ok w ix" and wt: "waiting_ok ix" using ok by (auto simp: index_ok_def)
  have none: "map_of (ix_active ix) (run_id run) = None" using active_ok_None[OF act new] .
  have "ix_by_flow ?ix = ix_by_flow (bump (run_flow_id run) (st_type (run_state run)) (\<lambda>n. n + 1) ix)"
    by (simp add: index_insert_def Let_def)
  then have "counts_ok ?w ?ix" using counts_ok_insert[OF cts new] by simp
  moreover have "active_ok ?w ?ix \<and> waiting_ok ?ix"
  proof (cases "is_terminal (run_state run)")
    case True
    then have "ix_active ?ix = ix_active ix" "ix_awaiting_event ?ix = ix_awaiting_event ix"
      "ix_has_event_waiters ?ix = ix_has_event_waiters ix"
      by (simp_all add: index_insert_def Let_def)
    moreover have "active_ok ?w ix"
      using active_ok_delete[OF act, of "Some (run_flow_id run, st_type (run_state run))" ix "run_id run"] none True
      by (auto simp: is_terminal_def delete_id map_of_eq_None_iff)
    ultimately show ?thesis using wt by (simp add: active_ok_def waiting_ok_def flag_ok_def)
  next
    case False
    let ?r = "new_active now key adopted run"
    have a: "ix_active ?ix = AList.update (run_id run) ?r (ix_active ix)" using False by (simp add: index_insert_def Let_def)
    have "set (ix_awaiting_event ?ix) = (if is_awaiting_event (run_state run) then insert (run_id run) (set (ix_awaiting_event ix))
        else set (ix_awaiting_event ix) - {run_id run})"
      using False not_waiting[OF wt none] by (auto simp: index_insert_def Let_def)
    moreover have "flag_ok ?ix"
      using wt False by (auto simp: index_insert_def Let_def flag_ok_def waiting_ok_def)
    ultimately have "waiting_ok ?ix" using waiting_ok_update[OF wt, of ?ix "run_id run" ?r] a by (simp add: update_conv')
    moreover have "active_ok ?w ?ix" using active_ok_update[OF act _ a] False by (simp add: is_terminal_def)
    ultimately show ?thesis by blast
  qed
  ultimately show ?thesis by (simp add: index_ok_def)
qed

lemma enter_state_fields [simp]:
  "ar_state (enter_state now run r) = run_state run" "ar_flow_id (enter_state now run r) = ar_flow_id r"
  by (simp_all add: enter_state_def Let_def)

lemma index_transition_by_flow:
  "ix_by_flow (index_transition now run (Some prev) ix) =
     ix_by_flow (bump (run_flow_id run) (st_type (run_state run)) (\<lambda>n. n + 1)
       (bump (run_flow_id run) (st_type prev) (\<lambda>n. max (n - 1) 0) ix))"
  by (simp add: index_transition_def Let_def bump_def split: option.splits)

lemma move_counts:
  assumes "counts_ok w ix" "w i = Some (f, t)"
    "ix_by_flow ix' = ix_by_flow (bump f t' (\<lambda>n. n + 1) (bump f t (\<lambda>n. max (n - 1) 0) ix))"
  shows "counts_ok (w(i \<mapsto> (f, t'))) ix'"
proof -
  have "counts_ok (w(i := None)) (bump f t (\<lambda>n. max (n - 1) 0) ix)"
    by (rule counts_ok_delete[OF assms(1,2) refl])
  from counts_ok_insert[OF this _ assms(3), of i] show ?thesis by simp
qed

text \<open>
  A transition the server follows: the index agrees with the runs before it, the
  stored previous state is the run's, and a run that has ended does not come back.
\<close>

lemma follow_transition_ok:
  assumes ok: "index_ok w ix" and same: "run_id previous = run_id run" "run_flow_id previous = run_flow_id run"
    and known: "w (run_id run) = Some (run_flow_id run, st_type (run_state previous))"
    and stamped: "st_timestamp (run_state previous) \<noteq> 0"
    and ends: "is_terminal (run_state previous) \<Longrightarrow> is_terminal (run_state run)"
  shows "index_ok (w(run_id run \<mapsto> (run_flow_id run, st_type (run_state run)))) (follow_transition now key previous run ix)"
proof -
  let ?i = "run_id run" and ?prev = "run_state previous"
  have act: "active_ok w ix" and cts: "counts_ok w ix" and wt: "waiting_ok ix" using ok by (auto simp: index_ok_def)
  have "get_active ?i ix \<noteq> None \<or> is_terminal ?prev"
    using active_ok_live[OF act known] by (auto simp: get_active_def is_terminal_def)
  then have ft: "follow_transition now key previous run ix = index_transition now run (Some ?prev) ix"
    using stamped by (auto simp: follow_transition_def Let_def)
  let ?ix = "index_transition now run (Some ?prev) ix"
  have "counts_ok (w(?i \<mapsto> (run_flow_id run, st_type (run_state run)))) ?ix"
    by (rule move_counts[OF cts known index_transition_by_flow])
  moreover have "active_ok (w(?i \<mapsto> (run_flow_id run, st_type (run_state run)))) ?ix \<and> waiting_ok ?ix"
  proof (cases "is_terminal (run_state run)")
    case True
    then have a: "ix_active ?ix = AList.delete ?i (ix_active ix)"
      and aw: "set (ix_awaiting_event ?ix) = set (ix_awaiting_event ix) - {?i}" and fl: "flag_ok ?ix"
      by (simp_all add: index_transition_def Let_def)
    have "active_ok (w(?i \<mapsto> (run_flow_id run, st_type (run_state run)))) ?ix"
      by (rule active_ok_delete[OF act _ a]) (use True in \<open>auto simp: is_terminal_def\<close>)
    moreover have "waiting_ok ?ix" by (rule waiting_ok_delete[OF wt _ aw fl]) (simp add: a delete_conv')
    ultimately show ?thesis by blast
  next
    case False
    then obtain r where r: "map_of (ix_active ix) ?i = Some r"
      using ends active_ok_live[OF act known] by (auto simp: is_terminal_def)
    let ?r = "enter_state now run r"
    have flow: "ar_flow_id r = run_flow_id run" using active_ok_Some[OF act r] known by simp
    have a: "ix_active ?ix = AList.update ?i ?r (ix_active ix)"
      and aw: "set (ix_awaiting_event ?ix) = (if is_awaiting_event (run_state run) then insert ?i (set (ix_awaiting_event ix))
          else set (ix_awaiting_event ix) - {?i})" and fl: "flag_ok ?ix"
      using False r by (simp_all add: index_transition_def Let_def flag_ok_def)
    have "active_ok (w(?i \<mapsto> (run_flow_id run, st_type (run_state run)))) ?ix"
      using active_ok_update[OF act _ a] False flow by (simp add: is_terminal_def)
    moreover have "waiting_ok ?ix"
      by (rule waiting_ok_update[OF wt, where r = ?r]) (use a aw fl in \<open>simp_all add: update_conv'\<close>)
    ultimately show ?thesis by blast
  qed
  ultimately show ?thesis by (simp add: ft index_ok_def)
qed

lemma remove_run_ok:
  assumes ok: "index_ok w ix" and known: "w i = Some (flow, st_type s)"
  shows "index_ok (w(i := None)) (remove_run i (Some s) flow ix)"
proof -
  let ?ix = "remove_run i (Some s) flow ix"
  have act: "active_ok w ix" and cts: "counts_ok w ix" and wt: "waiting_ok ix" using ok by (auto simp: index_ok_def)
  have "cnt ?ix = cnt (bump flow (st_type s) (\<lambda>n. max (n - 1) 0) ix)"
    by (auto simp: fun_eq_iff cnt_def remove_run_def Let_def bump_def update_conv' set_waiting_def split: option.splits)
  then have "counts_ok (w(i := None)) ?ix"
    using counts_ok_delete[OF cts known refl] by (simp add: counts_ok_def)
  moreover have a: "ix_active ?ix = AList.delete i (ix_active ix)"
    and aw: "set (ix_awaiting_event ?ix) = set (ix_awaiting_event ix) - {i}" and fl: "flag_ok ?ix"
    by (simp_all add: remove_run_def Let_def flag_ok_def split: option.splits)
  ultimately show ?thesis
    using active_ok_delete[OF act _ a, of None] waiting_ok_delete[OF wt _ aw fl] by (simp add: index_ok_def delete_conv')
qed

lemma update_active_ok:
  assumes ok: "index_ok w ix"
    and f: "\<And>r. ar_flow_id (f r) = ar_flow_id r" "\<And>r. st_type (ar_state (f r)) = st_type (ar_state r)"
  shows "index_ok w (snd (update_active i f ix))"
proof (cases "map_of (ix_active ix) i")
  case None
  then show ?thesis using ok by (simp add: update_active_def)
next
  case (Some r)
  let ?ix = "snd (update_active i f ix)"
  have act: "active_ok w ix" and cts: "counts_ok w ix" and wt: "waiting_ok ix" using ok by (auto simp: index_ok_def)
  note r = active_ok_Some[OF act Some]
  have a: "ix_active ?ix = AList.update i (f r) (ix_active ix)" and b: "ix_by_flow ?ix = ix_by_flow ix"
    and aw: "set (ix_awaiting_event ?ix) = (if is_awaiting_event (ar_state (f r)) then insert i (set (ix_awaiting_event ix))
          else set (ix_awaiting_event ix) - {i})" and fl: "flag_ok ?ix"
    using Some by (simp_all add: update_active_def)
  have "w(i \<mapsto> (ar_flow_id (f r), st_type (ar_state (f r)))) = w" using r f by (auto simp: fun_eq_iff)
  then have "active_ok w ?ix" using active_ok_update[OF act _ a] r f by simp
  moreover have "waiting_ok ?ix" by (rule waiting_ok_update[OF wt _ aw fl]) (simp add: a update_conv')
  moreover have "counts_ok w ?ix" using cts cnt_cong[OF b] by (simp add: counts_ok_def)
  ultimately show ?thesis by (simp add: index_ok_def)
qed

lemma heartbeat_ok: "index_ok w ix \<Longrightarrow> index_ok w (snd (heartbeat now i ix))"
proof (cases "map_of (ix_active ix) i")
  case (Some r)
  assume ok: "index_ok w ix"
  let ?ix = "snd (heartbeat now i ix)" and ?r = "r\<lparr> ar_last_heartbeat := now \<rparr>"
  have act: "active_ok w ix" and cts: "counts_ok w ix" and wt: "waiting_ok ix" using ok by (auto simp: index_ok_def)
  have a: "ix_active ?ix = AList.update i ?r (ix_active ix)" and rest: "ix_by_flow ?ix = ix_by_flow ix"
      "ix_awaiting_event ?ix = ix_awaiting_event ix" "ix_has_event_waiters ?ix = ix_has_event_waiters ix"
    using Some by (simp_all add: heartbeat_def)
  have "active_ok w ?ix"
    using active_ok_update[OF act _ a] active_ok_Some[OF act Some] by (simp add: fun_upd_idem)
  moreover have "waiting_ok ?ix" using wt rest Some by (auto simp: waiting_ok_def flag_ok_def a update_conv')
  ultimately show ?thesis using cts cnt_cong[OF rest(1)] by (simp add: index_ok_def counts_ok_def)
qed (simp add: heartbeat_def)

lemma drop_fold_fields:
  fixes ids ix
  defines "r \<equiv> fold (\<lambda>i ix. set_waiting i False (ix\<lparr> ix_active := AList.delete i (ix_active ix) \<rparr>)) ids ix"
  shows "ix_by_flow r = ix_by_flow ix"
    "map_of (ix_active r) = (\<lambda>i. if i \<in> set ids then None else map_of (ix_active ix) i)"
    "set (ix_awaiting_event r) = set (ix_awaiting_event ix) - set ids"
    "flag_ok ix \<Longrightarrow> flag_ok r" "distinct (map fst (ix_active ix)) \<Longrightarrow> distinct (map fst (ix_active r))"
  unfolding r_def
  by (induction ids arbitrary: ix) (auto simp: delete_conv' fun_eq_iff distinct_delete)

lemma bulk_counts:
  assumes cts: "counts_ok w ix" and ids: "distinct ids" "\<And>i. i \<in> set ids \<Longrightarrow> w i = Some (flow, p)" and ne: "p \<noteq> q"
  shows "counts_ok (\<lambda>i. if i \<in> set ids then Some (flow, q) else w i)
    (bump flow q (\<lambda>c. c + int (length ids)) (bump flow p (\<lambda>c. max (c - int (length ids)) 0) ix))"
    (is "counts_ok ?w ?ix")
proof -
  have fin: "finite (dom w)" using cts by (simp add: counts_ok_def)
  have fin': "finite {i. w i = Some x}" for x using fin by (rule finite_subset[rotated]) auto
  have sub: "set ids \<subseteq> {i. w i = Some (flow, p)}" using ids by auto
  have le: "length ids \<le> card {i. w i = Some (flow, p)}"
    using card_mono[OF fin' sub] distinct_card[OF ids(1)] by simp
  have c: "cnt ix g u = int (card {i. w i = Some (g, u)})" for g u using cts by (simp add: counts_ok_def)
  have P: "card {i. ?w i = Some (flow, p)} = card {i. w i = Some (flow, p)} - length ids"
  proof -
    have "{i. ?w i = Some (flow, p)} = {i. w i = Some (flow, p)} - set ids" using ne by auto
    then show ?thesis using sub distinct_card[OF ids(1)] by (simp add: card_Diff_subset)
  qed
  have Q: "card {i. ?w i = Some (flow, q)} = card {i. w i = Some (flow, q)} + length ids"
  proof -
    have "{i. ?w i = Some (flow, q)} = {i. w i = Some (flow, q)} \<union> set ids" using ids(2) by auto
    moreover have "{i. w i = Some (flow, q)} \<inter> set ids = {}" using ids(2) ne by auto
    ultimately show ?thesis using fin' distinct_card[OF ids(1)] by (simp add: card_Un_disjoint)
  qed
  have R: "{i. ?w i = Some (g, u)} = {i. w i = Some (g, u)}" if "(g, u) \<notin> {(flow, p), (flow, q)}" for g u
    using that ids(2) by auto
  have "cnt ?ix g u = int (card {i. ?w i = Some (g, u)})" for g u
  proof -
    consider "(g, u) = (flow, p)" | "(g, u) = (flow, q)" | "(g, u) \<notin> {(flow, p), (flow, q)}" by auto
    then show ?thesis using P Q R le ne by cases (auto simp: cnt_bump c)
  qed
  moreover have "finite (dom ?w)" by (rule finite_subset[of _ "dom w \<union> set ids"]) (use fin in auto)
  ultimately show ?thesis by (simp add: counts_ok_def)
qed

lemma bulk_terminal_ok:
  assumes ok: "index_ok w ix" and ids: "distinct ids" "\<And>i. i \<in> set ids \<Longrightarrow> w i = Some (flow, p)"
    and types: "\<not> type_is_terminal p" "type_is_terminal q"
  shows "index_ok (\<lambda>i. if i \<in> set ids then Some (flow, q) else w i) (bulk_terminal flow ids p q ix)"
proof -
  have act: "active_ok w ix" and cts: "counts_ok w ix" and wt: "waiting_ok ix" using ok by (auto simp: index_ok_def)
  let ?b = "bump flow q (\<lambda>c. c + int (length ids)) (bump flow p (\<lambda>c. max (c - int (length ids)) 0) ix)"
  let ?ix = "bulk_terminal flow ids p q ix"
  note d = drop_fold_fields[where ids = ids and ix = ?b]
  have ix: "?ix = fold (\<lambda>i ix. set_waiting i False (ix\<lparr> ix_active := AList.delete i (ix_active ix) \<rparr>)) ids ?b"
    by (simp add: bulk_terminal_def Let_def)
  have "p \<noteq> q" using types by auto
  from bulk_counts[OF cts ids this] have "counts_ok (\<lambda>i. if i \<in> set ids then Some (flow, q) else w i) ?ix"
    unfolding counts_ok_def ix using cnt_cong[OF d(1)] by simp
  moreover have "active_ok (\<lambda>i. if i \<in> set ids then Some (flow, q) else w i) ?ix"
    using act types(2) d(2,5) by (simp add: active_ok_def ix)
  moreover have "waiting_ok ?ix"
    using wt d(2,3,4) by (auto simp: waiting_ok_def ix flag_ok_def)
  ultimately show ?thesis by (simp add: index_ok_def)
qed

lemma waiting_fold:
  fixes ids ix
  defines "r \<equiv> fold (\<lambda>i. set_waiting i False) ids ix"
  shows "ix_by_flow r = ix_by_flow ix" "ix_active r = ix_active ix"
    "set (ix_awaiting_event r) = set (ix_awaiting_event ix) - set ids" "flag_ok ix \<Longrightarrow> flag_ok r"
  unfolding r_def by (induction ids arbitrary: ix) auto

lemma remove_flow_ok:
  assumes ok: "index_ok w ix"
  shows "index_ok (\<lambda>i. case w i of Some (f, t) \<Rightarrow> if f = flow then None else Some (f, t) | None \<Rightarrow> None) (remove_flow flow ix)"
    (is "index_ok ?w ?ix")
proof -
  have act: "active_ok w ix" and cts: "counts_ok w ix" and wt: "waiting_ok ix" using ok by (auto simp: index_ok_def)
  let ?drop = "map fst (filter (\<lambda>(_, r). ar_flow_id r = flow) (ix_active ix))"
  let ?a = "filter (\<lambda>(_, r). ar_flow_id r \<noteq> flow) (ix_active ix)"
  let ?i1 = "ix\<lparr> ix_flow_project := AList.delete flow (ix_flow_project ix), ix_by_flow := AList.delete flow (ix_by_flow ix), ix_active := ?a \<rparr>"
  have ix: "?ix = fold (\<lambda>i. set_waiting i False) ?drop ?i1" by (simp add: remove_flow_def Let_def)
  note f = waiting_fold[where ids = ?drop and ix = ?i1]
  have d: "distinct (map fst (ix_active ix))" using act by (simp add: active_ok_def)
  have look: "map_of ?a i = (case map_of (ix_active ix) i of Some r \<Rightarrow> if ar_flow_id r = flow then None else Some r | None \<Rightarrow> None)" for i
    using map_of_filter_entry[OF d, of "\<lambda>(_, r). ar_flow_id r \<noteq> flow" i] by (auto split: option.splits)
  have drop: "i \<in> set ?drop \<longleftrightarrow> (\<exists>r. map_of (ix_active ix) i = Some r \<and> ar_flow_id r = flow)" for i
    using d by (force simp: map_of_eq_Some_iff)
  have W: "{i. ?w i = Some (g, u)} = (if g = flow then {} else {i. w i = Some (g, u)})" for g u
    by (auto split: option.splits if_splits)
  have C: "cnt ?ix g u = (if g = flow then 0 else cnt ix g u)" for g u
    using f(1) by (simp add: cnt_def ix delete_conv')
  have "finite (dom ?w)" by (rule finite_subset[of _ "dom w"]) (use cts in \<open>auto simp: counts_ok_def split: option.splits\<close>)
  then have "counts_ok ?w ?ix" using cts by (simp add: counts_ok_def C W)
  moreover have "active_ok ?w ?ix"
  proof -
    have "entry_ok (?w i) (map_of ?a i)" for i
      using active_okD[OF act, of i] look[of i]
      by (cases "map_of (ix_active ix) i"; cases "w i") (auto split: if_splits)
    then show ?thesis using d f(2) by (simp add: active_ok_def ix distinct_map_filter)
  qed
  moreover have "waiting_ok ?ix"
  proof -
    have "set (ix_awaiting_event ?ix) = {i. \<exists>r. map_of (ix_active ix) i = Some r \<and> is_awaiting_event (ar_state r)} - set ?drop"
      using wt f(3) ix by (simp add: waiting_ok_def)
    also have "\<dots> = {i. \<exists>r. map_of ?a i = Some r \<and> is_awaiting_event (ar_state r)}"
      unfolding look set_eq_iff Diff_iff drop by (auto split: option.splits if_splits)
    finally have "set (ix_awaiting_event ?ix) = {i. \<exists>r. map_of (ix_active ?ix) i = Some r \<and> is_awaiting_event (ar_state r)}"
      using f(2) ix by simp
    moreover have "flag_ok ?ix" unfolding ix by (rule f(4)) (use wt in \<open>simp add: waiting_ok_def flag_ok_def\<close>)
    ultimately show ?thesis by (simp add: waiting_ok_def)
  qed
  ultimately show ?thesis by (simp add: index_ok_def)
qed

section \<open>What the server's use of the index keeps\<close>

text \<open>
  The histories of a server: a run is created, follows an accepted transition,
  is deleted alone or with its flow, a backfill's waiting runs end together, and
  the per-run bookkeeping is edited. The world is the set of runs the store holds.
\<close>

inductive tracked :: "world \<Rightarrow> Index \<Rightarrow> bool" where
  Start: "tracked (\<lambda>_. None) Index_default"
| Create: "\<lbrakk> tracked w ix; w (run_id run) = None \<rbrakk> \<Longrightarrow>
     tracked (w(run_id run \<mapsto> (run_flow_id run, st_type (run_state run)))) (index_insert now run key adopted ix)"
| Follow: "\<lbrakk> tracked w ix; run_id previous = run_id run; run_flow_id previous = run_flow_id run;
     w (run_id run) = Some (run_flow_id run, st_type (run_state previous)); st_timestamp (run_state previous) \<noteq> 0;
     is_terminal (run_state previous) \<longrightarrow> is_terminal (run_state run) \<rbrakk> \<Longrightarrow>
     tracked (w(run_id run \<mapsto> (run_flow_id run, st_type (run_state run)))) (follow_transition now key previous run ix)"
| Delete: "\<lbrakk> tracked w ix; w i = Some (flow, st_type s) \<rbrakk> \<Longrightarrow> tracked (w(i := None)) (remove_run i (Some s) flow ix)"
| DeleteFlow: "tracked w ix \<Longrightarrow>
     tracked (\<lambda>i. case w i of Some (f, t) \<Rightarrow> if f = flow then None else Some (f, t) | None \<Rightarrow> None) (remove_flow flow ix)"
| EndGroup: "\<lbrakk> tracked w ix; distinct ids; \<forall>i \<in> set ids. w i = Some (flow, p); \<not> type_is_terminal p; type_is_terminal q \<rbrakk> \<Longrightarrow>
     tracked (\<lambda>i. if i \<in> set ids then Some (flow, q) else w i) (bulk_terminal flow ids p q ix)"
| Edit: "\<lbrakk> tracked w ix; \<forall>r. ar_flow_id (f r) = ar_flow_id r \<and> st_type (ar_state (f r)) = st_type (ar_state r) \<rbrakk> \<Longrightarrow>
     tracked w (snd (update_active i f ix))"
| Beat: "tracked w ix \<Longrightarrow> tracked w (snd (heartbeat now i ix))"
| Task: "tracked w ix \<Longrightarrow> tracked w (task_run_transition before after ix)"
| Project: "tracked w ix \<Longrightarrow> tracked w (set_flow_project flow project ix)"

lemma index_ok_cong:
  assumes "index_ok w ix" "ix_active ix' = ix_active ix" "ix_by_flow ix' = ix_by_flow ix"
    "ix_awaiting_event ix' = ix_awaiting_event ix" "ix_has_event_waiters ix' = ix_has_event_waiters ix"
  shows "index_ok w ix'"
  using assms cnt_cong[OF assms(3)] by (simp add: index_ok_def counts_ok_def active_ok_def waiting_ok_def flag_ok_def)

lemma tracked_index_ok: "tracked w ix \<Longrightarrow> index_ok w ix"
proof (induction rule: tracked.induct)
  case Start
  then show ?case
    by (simp add: index_ok_def counts_ok_def active_ok_def waiting_ok_def flag_ok_def Index_default_def cnt_def)
next
  case (Create w ix run now key adopted)
  then show ?case using index_insert_ok by blast
next
  case (Follow w ix previous run now key)
  then show ?case using follow_transition_ok by blast
next
  case (Delete w ix i flow s)
  then show ?case using remove_run_ok by blast
next
  case (DeleteFlow w ix flow)
  then show ?case using remove_flow_ok by blast
next
  case (EndGroup w ix ids flow p q)
  then show ?case by (intro bulk_terminal_ok) auto
next
  case (Edit w ix f i)
  then show ?case using update_active_ok by blast
next
  case (Beat w ix now i)
  then show ?case using heartbeat_ok by blast
next
  case (Task w ix before after)
  show ?case by (rule index_ok_cong[OF Task.IH]) (simp_all add: task_run_transition_def Let_def)
next
  case (Project w ix flow project)
  show ?case by (rule index_ok_cong[OF Project.IH]) (simp_all add: set_flow_project_def)
qed



text \<open>
  The flag the hot path reads instead of the set says exactly whether a run waits on an
  event, and the runs of the waiting set are exactly the runs of the working set that are in
  the sub-state AwaitingEvent.
\<close>

theorem event_waiters_exact:
  assumes "tracked w ix"
  shows "(ix_has_event_waiters ix \<longleftrightarrow> (\<exists>i r. get_active i ix = Some r \<and> is_awaiting_event (ar_state r))) \<and>
    (i \<in> set (ix_awaiting_event ix) \<longleftrightarrow> (\<exists>r. get_active i ix = Some r \<and> is_awaiting_event (ar_state r)))"
proof -
  have "waiting_ok ix" using tracked_index_ok[OF assms] by (simp add: index_ok_def)
  then have S: "set (ix_awaiting_event ix) = {i. \<exists>r. get_active i ix = Some r \<and> is_awaiting_event (ar_state r)}"
    and "ix_has_event_waiters ix \<longleftrightarrow> set (ix_awaiting_event ix) \<noteq> {}"
    unfolding waiting_ok_def flag_ok_def get_active_def by (blast, metis set_empty)
  then show ?thesis unfolding S by auto
qed

theorem event_waiters_exact_witness:
  "ix_has_event_waiters (index_insert 0 (bare_run 7 3 (bare_state Paused ''AwaitingEvent'')) bare_key False Index_default)"
proof -
  let ?run = "bare_run 7 3 (bare_state Paused ''AwaitingEvent'')"
  let ?ix = "index_insert 0 ?run bare_key False Index_default"
  have "tracked ((\<lambda>_. None)(7 \<mapsto> (3, Paused))) ?ix"
    using tracked.Create[OF tracked.Start, of ?run 0 bare_key False] by (simp add: bare_state_def)
  note event_waiters_exact[OF this, of 7]
  moreover have "get_active 7 ?ix = Some (new_active 0 bare_key False ?run)"
    by (simp add: index_insert_def get_active_def is_terminal_def bare_state_def Index_default_def Let_def bump_def set_waiting_def)
  moreover have "is_awaiting_event (ar_state (new_active 0 bare_key False ?run))"
    by (simp add: is_awaiting_event_def bare_state_def)
  ultimately show ?thesis by blast
qed

text \<open>
  A run that has ended and is forced back into a running state is counted again but is missing
  from the working set: heartbeats of its engine find no entry, and nothing adopts it.
\<close>

theorem revived_run_not_active:
  assumes "get_active (run_id run) ix = None" "is_terminal (run_state previous)" "\<not> is_terminal (run_state run)"
    "st_timestamp (run_state previous) \<noteq> 0"
  shows "get_active (run_id run) (follow_transition now key previous run ix) = None \<and>
    fst (heartbeat beat (run_id run) (follow_transition now key previous run ix)) = None \<and>
    (st_type (run_state previous) \<noteq> st_type (run_state run) \<longrightarrow>
     cnt (follow_transition now key previous run ix) (run_flow_id run) (st_type (run_state run)) =
       cnt ix (run_flow_id run) (st_type (run_state run)) + 1)"
proof -
  have ft: "follow_transition now key previous run ix = index_transition now run (Some (run_state previous)) ix"
    using assms by (simp add: follow_transition_def Let_def)
  have "ix_active (index_transition now run (Some (run_state previous)) ix) = ix_active ix"
    using assms by (simp add: index_transition_def Let_def get_active_def)
  moreover have "cnt (index_transition now run (Some (run_state previous)) ix) =
      cnt (bump (run_flow_id run) (st_type (run_state run)) (\<lambda>n. n + 1)
       (bump (run_flow_id run) (st_type (run_state previous)) (\<lambda>n. max (n - 1) 0) ix))"
    by (rule cnt_cong[OF index_transition_by_flow])
  ultimately show ?thesis using assms(1) by (simp add: ft get_active_def heartbeat_def cnt_bump)
qed

theorem revived_run_not_active_witness:
  "get_active 7 (follow_transition 5 bare_key (bare_run 7 3 (bare_state Failed ''Failed'')) (bare_run 7 3 (bare_state Running ''Running''))
      (index_insert 0 (bare_run 7 3 (bare_state Failed ''Failed'')) bare_key False Index_default)) = None"
  using revived_run_not_active[of "bare_run 7 3 (bare_state Running ''Running'')"
      "index_insert 0 (bare_run 7 3 (bare_state Failed ''Failed'')) bare_key False Index_default" "bare_run 7 3 (bare_state Failed ''Failed'')" 5 bare_key 0]
  by (simp add: bare_state_def is_terminal_def index_insert_def Index_default_def get_active_def Let_def)

end
