(* ===== verification/Resources.thy ===== *)
theory Resources
  imports F64 "HOL-Library.AList" "HOL-Library.List_Lexorder" "HOL-Library.Char_ord"
begin

text \<open>
  Named resources with limits (\<^verbatim>\<open>Resources\<close> of \<^verbatim>\<open>crates/server/src/supervisor.rs\<close>): exact
  and pattern totals, the amounts in use, and the leases of each run. A hash map
  is an association list; a \<^verbatim>\<open>String\<close> is ordered by its bytes. Every caller holds
  the lock of the table for the whole operation.
\<close>

type_synonym need = "string \<times> f64"
type_synonym lease = "nat \<times> string \<times> f64"

record Resources =
  rs_totals :: "(string \<times> f64) list"
  rs_patterns :: "string list"
  rs_used :: "(string \<times> f64) list"
  rs_leases :: "(int \<times> lease list) list"
  rs_next_lease :: nat

definition Resources_default :: Resources where
  "Resources_default = \<lparr> rs_totals = [], rs_patterns = [], rs_used = [], rs_leases = [], rs_next_lease = 0 \<rparr>"

fun glob_matches :: "string \<Rightarrow> string \<Rightarrow> bool" where
  "glob_matches [] n \<longleftrightarrow> n = []"
| "glob_matches (c # p) n \<longleftrightarrow>
     (if c = CHR ''*'' then \<exists>i \<in> set [0..<Suc (length n)]. glob_matches p (drop i n)
      else n \<noteq> [] \<and> hd n = c \<and> glob_matches p (tl n))"

definition IDLE_INSTANCES_KEPT :: nat where
  "IDLE_INSTANCES_KEPT = 256"

text \<open>The literal \<^verbatim>\<open>1e-9\<close>.\<close>

definition EPS :: f64 where
  "EPS = rnd (1 / 1000000000)"

definition pattern_for :: "Resources \<Rightarrow> string \<Rightarrow> string option" where
  "pattern_for r name =
     (if map_of (rs_totals r) name \<noteq> None then None
      else List.find (\<lambda>p. glob_matches p name) (rs_patterns r))"

definition total :: "Resources \<Rightarrow> string \<Rightarrow> f64" where
  "total r name =
     (case map_of (rs_totals r) name of
        Some t \<Rightarrow> t
      | None \<Rightarrow> (case Option.bind (pattern_for r name) (map_of (rs_totals r)) of Some t \<Rightarrow> t | None \<Rightarrow> Fin 1))"

definition insert_total :: "string \<Rightarrow> f64 \<Rightarrow> Resources \<Rightarrow> Resources" where
  "insert_total name t r =
     (let is_new = (map_of (rs_totals r) name = None);
          r = r\<lparr> rs_totals := AList.update name t (rs_totals r) \<rparr>
      in if is_new \<and> CHR ''*'' \<in> set name then r\<lparr> rs_patterns := sort (rs_patterns r @ [name]) \<rparr> else r)"

definition is_declared :: "Resources \<Rightarrow> string \<Rightarrow> bool" where
  "is_declared r name \<longleftrightarrow> map_of (rs_totals r) name \<noteq> None \<or> pattern_for r name \<noteq> None"

definition evict_idle :: "Resources \<Rightarrow> Resources" where
  "evict_idle r =
     (if length (rs_used r) \<le> IDLE_INSTANCES_KEPT then r
      else let idle = length (filter (\<lambda>(n, u). f64_le u EPS \<and> map_of (rs_totals r) n = None) (rs_used r)) in
        if IDLE_INSTANCES_KEPT < idle
        then r\<lparr> rs_used := filter (\<lambda>(n, u). f64_lt EPS u \<or> map_of (rs_totals r) n \<noteq> None) (rs_used r) \<rparr>
        else r)"

definition used_of :: "Resources \<Rightarrow> string \<Rightarrow> f64" where
  "used_of r name = (case map_of (rs_used r) name of Some u \<Rightarrow> u | None \<Rightarrow> Fin 0)"

definition free :: "Resources \<Rightarrow> string \<Rightarrow> f64" where
  "free r name = f64_sub (total r name) (used_of r name)"

definition can_acquire :: "Resources \<Rightarrow> need list \<Rightarrow> string option" where
  "can_acquire r needs = map_option fst (List.find (\<lambda>(n, a). f64_lt (f64_add (free r n) EPS) a) needs)"

definition take_need :: "int \<Rightarrow> nat \<Rightarrow> need \<Rightarrow> Resources \<Rightarrow> Resources" where
  "take_need run lease need r =
     (case need of (n, a) \<Rightarrow>
        r\<lparr> rs_used := entry_update n (Fin 0) (\<lambda>u. f64_add u a) (rs_used r),
           rs_leases := entry_update run [] (\<lambda>ls. ls @ [(lease, n, a)]) (rs_leases r) \<rparr>)"

definition acquire :: "int \<Rightarrow> need list \<Rightarrow> Resources \<Rightarrow> nat \<times> Resources" where
  "acquire run needs r =
     (let lease = (rs_next_lease r + 1) mod 2 ^ 64;
          r = r\<lparr> rs_next_lease := lease \<rparr>
      in (lease, fold (take_need run lease) needs r))"

text \<open>\<^verbatim>\<open>*u = (*u - a).max(0.0)\<close> for a name that is in the table.\<close>

definition give_back :: "lease \<Rightarrow> Resources \<Rightarrow> Resources" where
  "give_back l r =
     (case l of (_, n, a) \<Rightarrow>
        (case map_of (rs_used r) n of
           Some u \<Rightarrow> r\<lparr> rs_used := AList.update n (f64_max (f64_sub u a) (Fin 0)) (rs_used r) \<rparr>
         | None \<Rightarrow> r))"

definition release_lease :: "int \<Rightarrow> nat \<Rightarrow> Resources \<Rightarrow> Resources" where
  "release_lease run lease r =
     evict_idle
       (case map_of (rs_leases r) run of
          None \<Rightarrow> r
        | Some ls \<Rightarrow>
            (fold give_back (filter (\<lambda>(l, _). l = lease) ls) r)
              \<lparr> rs_leases := AList.update run (filter (\<lambda>(l, _). l \<noteq> lease) ls) (rs_leases r) \<rparr>)"

definition release_all :: "int \<Rightarrow> Resources \<Rightarrow> Resources" where
  "release_all run r =
     evict_idle
       (case map_of (rs_leases r) run of
          None \<Rightarrow> r
        | Some ls \<Rightarrow> fold give_back ls (r\<lparr> rs_leases := AList.delete run (rs_leases r) \<rparr>))"

definition available :: "Resources \<Rightarrow> string \<Rightarrow> f64 \<Rightarrow> bool" where
  "available r name amount \<longleftrightarrow> f64_le amount (f64_add (free r name) EPS)"

definition try_acquire :: "int \<Rightarrow> need list \<Rightarrow> Resources \<Rightarrow> (string + nat) \<times> Resources" where
  "try_acquire run needs r =
     (case can_acquire r needs of
        Some blocking \<Rightarrow> (Inl blocking, r)
      | None \<Rightarrow> (let (lease, r) = acquire run needs r in (Inr lease, r)))"

definition set_totals :: "(string \<times> f64) list \<Rightarrow> Resources \<Rightarrow> Resources" where
  "set_totals totals r = fold (\<lambda>(k, v). insert_total k v) totals r"

record ResourceRow =
  rw_name :: string
  rw_total :: f64
  rw_used :: f64
  rw_pattern :: "string option"

definition resource_rows :: "Resources \<Rightarrow> ResourceRow list" where
  "resource_rows r =
     map (\<lambda>n. \<lparr> rw_name = n, rw_total = total r n, rw_used = used_of r n, rw_pattern = pattern_for r n \<rparr>)
       (remdups_adj (sort (map fst (rs_totals r) @ map fst (rs_used r))))"

section \<open>Patterns\<close>

text \<open>The text a pattern stands for when its stars are filled with given texts.\<close>

fun glob_fill :: "string \<Rightarrow> string list \<Rightarrow> string" where
  "glob_fill [] ws = []"
| "glob_fill (c # p) ws = (if c = CHR ''*'' then hd ws @ glob_fill p (tl ws) else c # glob_fill p ws)"

definition stars :: "string \<Rightarrow> nat" where
  "stars p = count_list p (CHR ''*'')"

lemma glob_star: "glob_matches (CHR ''*'' # p) n \<longleftrightarrow> (\<exists>i \<le> length n. glob_matches p (drop i n))"
  by (simp del: upt_Suc add: Bex_def less_Suc_eq_le)

lemma glob_matches_imp: "glob_matches p n \<Longrightarrow> \<exists>ws. length ws = stars p \<and> n = glob_fill p ws"
proof (induction p arbitrary: n)
  case (Cons c p)
  show ?case
  proof (cases "c = CHR ''*''")
    case True
    then obtain i where "glob_matches p (drop i n)" using Cons.prems glob_star[of p n] by auto
    then obtain ws where "length ws = stars p" "drop i n = glob_fill p ws" using Cons.IH by blast
    then show ?thesis using True append_take_drop_id[of i n]
      by (intro exI[of _ "take i n # ws"]) (simp add: stars_def)
  next
    case False
    then obtain ws where "length ws = stars p" "tl n = glob_fill p ws" "n \<noteq> []" "hd n = c"
      using Cons.prems Cons.IH by auto
    then show ?thesis using False by (intro exI[of _ ws]) (cases n; simp add: stars_def)
  qed
qed (simp add: stars_def)

lemma glob_fill_matches: "length ws = stars p \<Longrightarrow> glob_matches p (glob_fill p ws)"
proof (induction p arbitrary: ws)
  case (Cons c p)
  show ?case
  proof (cases "c = CHR ''*''")
    case True
    then obtain w vs where ws: "ws = w # vs" "length vs = stars p"
      using Cons.prems by (cases ws) (auto simp: stars_def)
    have "glob_matches p (drop (length w) (w @ glob_fill p vs))" using Cons.IH[OF ws(2)] by simp
    then have "\<exists>i \<le> length (w @ glob_fill p vs). glob_matches p (drop i (w @ glob_fill p vs))"
      by (intro exI[of _ "length w"]) simp
    then show ?thesis using True ws glob_star[of p "w @ glob_fill p vs"] by (simp del: glob_matches.simps)
  qed (use Cons in \<open>simp add: stars_def\<close>)
qed simp

text \<open>
  A resource pattern matches a name exactly when the name is the pattern with each
  star replaced by some text.
\<close>

theorem glob_matches_iff_fill: "glob_matches p n \<longleftrightarrow> (\<exists>ws. length ws = stars p \<and> n = glob_fill p ws)"
  using glob_matches_imp glob_fill_matches by blast

section \<open>Totals\<close>

definition pats_ok :: "Resources \<Rightarrow> bool" where
  "pats_ok r \<longleftrightarrow> sorted (rs_patterns r) \<and>
     set (rs_patterns r) = {p. map_of (rs_totals r) p \<noteq> None \<and> CHR ''*'' \<in> set p}"

lemma insert_total_pats_ok: "pats_ok r \<Longrightarrow> pats_ok (insert_total n t r)"
  by (auto simp: pats_ok_def insert_total_def Let_def update_conv')

lemma set_totals_pats_ok: "pats_ok r \<Longrightarrow> pats_ok (set_totals ts r)"
  unfolding set_totals_def by (induction ts arbitrary: r) (auto intro: insert_total_pats_ok)

lemma set_totals_lookup: "map_of (rs_totals (set_totals ts r)) = map_of (rs_totals r) ++ map_of (rev ts)"
  unfolding set_totals_def
  by (induction ts arbitrary: r) (auto simp: insert_total_def Let_def update_conv' map_add_def fun_eq_iff split: option.splits)

lemma find_sorted_Min:
  assumes "sorted xs"
  shows "List.find P xs = (if {x \<in> set xs. P x} = {} then None else Some (Min {x \<in> set xs. P x}))"
  using assms
proof (induction xs)
  case (Cons x xs)
  show ?case
  proof (cases "P x")
    case True
    then have "Min {y \<in> set (x # xs). P y} = x" using Cons.prems by (intro Min_eqI) auto
    then show ?thesis using True by auto
  next
    case False
    then have "{y \<in> set (x # xs). P y} = {y \<in> set xs. P y}" by auto
    then show ?thesis using False Cons by simp
  qed
qed simp

text \<open>
  After any declarations, the total of a resource is the last total declared for its
  exact name, else that of the first declared pattern in byte order that matches it, else one.
\<close>

theorem total_of_declarations:
  fixes ts name
  defines "T \<equiv> map_of (rev ts)"
  defines "P \<equiv> {p \<in> dom T. CHR ''*'' \<in> set p \<and> glob_matches p name}"
  shows "total (set_totals ts Resources_default) name =
    (case T name of Some t \<Rightarrow> t | None \<Rightarrow> if P = {} then Fin 1 else the (T (Min P)))"
proof -
  let ?r = "set_totals ts Resources_default"
  have look: "map_of (rs_totals ?r) = T" by (simp add: set_totals_lookup Resources_default_def T_def)
  have "pats_ok Resources_default" by (simp add: pats_ok_def Resources_default_def)
  then have ok: "pats_ok ?r" by (rule set_totals_pats_ok)
  then have P: "{p \<in> set (rs_patterns ?r). glob_matches p name} = P"
    by (auto simp: pats_ok_def look P_def)
  have "finite P" by (simp flip: P)
  then have "P \<noteq> {} \<Longrightarrow> \<exists>t. T (Min P) = Some t" using Min_in[of P] by (auto simp: P_def)
  moreover have "List.find (\<lambda>p. glob_matches p name) (rs_patterns ?r) = (if P = {} then None else Some (Min P))"
    using ok find_sorted_Min[of "rs_patterns ?r" "\<lambda>p. glob_matches p name"] unfolding P pats_ok_def by blast
  ultimately show ?thesis
    by (cases "T name"; cases "T (Min P)"; cases "P = {}") (simp_all add: total_def pattern_for_def look)
qed

section \<open>Accounting with whole amounts\<close>

definition whole :: "f64 \<Rightarrow> nat \<Rightarrow> bool" where
  "whole x k \<longleftrightarrow> x = Fin (of_nat k)"

text \<open>The whole number a float stands for.\<close>

fun amount :: "f64 \<Rightarrow> nat" where
  "amount (Fin q) = nat \<lfloor>q\<rfloor>"
| "amount _ = 0"

definition is_whole :: "f64 \<Rightarrow> bool" where
  "is_whole x \<longleftrightarrow> x = Fin (of_nat (amount x))"

definition AMOUNT_BOUND :: nat where
  "AMOUNT_BOUND = 2 ^ 51"

lemma amount_of_nat [simp]: "amount (Fin (of_nat k)) = k"
  by simp

lemma EPS_bounds: "\<exists>e. EPS = Fin e \<and> 0 \<le> e \<and> e \<le> 1 / 2"
  using rnd_whole_plus[of 0 "1 / 1000000000"] by (auto simp: EPS_def)

lemma whole_le_EPS: "f64_le (Fin (of_nat k)) EPS \<longleftrightarrow> k = 0" "f64_lt EPS (Fin (of_nat k)) \<longleftrightarrow> k \<noteq> 0"
proof -
  obtain e where e: "EPS = Fin e" "0 \<le> e" "e \<le> 1 / 2" using EPS_bounds by blast
  have lt: "e < of_nat k \<longleftrightarrow> k \<noteq> 0"
  proof (cases "k = 0")
    case False
    then have "(of_nat 1 :: rat) \<le> of_nat k" by (simp only: of_nat_le_iff)
    then show ?thesis using e(3) False by simp
  qed (use e in simp)
  show "f64_lt EPS (Fin (of_nat k)) \<longleftrightarrow> k \<noteq> 0" by (simp add: e(1) lt)
  have "f64_le (Fin (of_nat k)) EPS \<longleftrightarrow> \<not> e < of_nat k"
    by (simp only: e(1) f64_le_def f64_eq_def f64_lt.simps f64.inject f64.distinct) auto
  then show "f64_le (Fin (of_nat k)) EPS \<longleftrightarrow> k = 0" using lt by blast
qed

text \<open>On whole numbers the tolerance of the comparison is harmless: it is exact.\<close>

lemma fits_exact:
  assumes "t < AMOUNT_BOUND" "u < AMOUNT_BOUND"
  shows "f64_lt (f64_add (f64_sub (Fin (of_nat t)) (Fin (of_nat u))) EPS) (Fin (of_nat a)) \<longleftrightarrow> t < u + a"
proof -
  obtain e where e: "EPS = Fin e" "0 \<le> e" "e \<le> 1 / 2" using EPS_bounds by blast
  let ?d = "int t - int u"
  have d: "\<bar>?d\<bar> < 2 ^ 52" using assms by (simp add: AMOUNT_BOUND_def)
  have "rnd (of_int ?d) = Fin (of_int ?d)" using d by (intro rnd_of_int) simp
  then have sub: "f64_sub (Fin (of_nat t)) (Fin (of_nat u)) = Fin (of_int ?d)" by (simp add: f64_sub_def)
  obtain v where v: "rnd (of_int ?d + e) = Fin v" "of_int ?d \<le> v" "v \<le> of_int ?d + 1 / 2"
    using rnd_whole_plus[OF d e(2,3)] by blast
  have "v < of_nat a \<longleftrightarrow> ?d < int a"
  proof
    assume "v < of_nat a"
    then have "(of_int ?d :: rat) < of_int (int a)" using v(2) by (simp only: of_int_of_nat_eq)
    then show "?d < int a" by (simp only: of_int_less_iff)
  next
    assume "?d < int a"
    then have "(of_int (?d + 1) :: rat) \<le> of_int (int a)" by (simp only: of_int_le_iff)
    then show "v < of_nat a" using v(3) by (simp only: of_int_add of_int_1 of_int_of_nat_eq)
  qed
  moreover have "?d < int a \<longleftrightarrow> t < u + a" by linarith
  ultimately show ?thesis by (simp only: sub e(1) f64_add.simps v(1) f64_lt.simps)
qed

definition held_in :: "lease list \<Rightarrow> string \<Rightarrow> nat" where
  "held_in ls n = sum_list (map (\<lambda>(_, m, a). if m = n then amount a else 0) ls)"

text \<open>What the leases of all runs add up to.\<close>

definition held :: "Resources \<Rightarrow> string \<Rightarrow> nat" where
  "held r n = sum_list (map (\<lambda>(_, ls). held_in ls n) (rs_leases r))"

lemma held_in_simps [simp]:
  "held_in [] n = 0" "held_in (ls @ ls') n = held_in ls n + held_in ls' n"
  "held_in ((l, m, a) # ls) n = (if m = n then amount a else 0) + held_in ls n"
  by (simp_all add: held_in_def)

lemma held_in_split: "held_in (filter P ls) n + held_in (filter (\<lambda>x. \<not> P x) ls) n = held_in ls n"
  by (induction ls) auto

lemma sum_alist_update:
  fixes f :: "'v \<Rightarrow> nat"
  assumes "distinct (map fst al)"
  shows "sum_list (map (\<lambda>(_, v). f v) (AList.update k v al)) + (case map_of al k of Some v' \<Rightarrow> f v' | None \<Rightarrow> 0)
    = sum_list (map (\<lambda>(_, v). f v) al) + f v"
  using assms by (induction al) (auto split: option.splits simp: map_of_eq_None_iff rev_image_eqI)

lemma sum_alist_delete:
  fixes f :: "'v \<Rightarrow> nat"
  assumes "distinct (map fst al)"
  shows "sum_list (map (\<lambda>(_, v). f v) (AList.delete k al)) + (case map_of al k of Some v' \<Rightarrow> f v' | None \<Rightarrow> 0)
    = sum_list (map (\<lambda>(_, v). f v) al)"
  using assms
proof (induction al)
  case (Cons e al)
  then show ?case
    by (cases e) (auto split: option.splits simp: map_of_eq_None_iff rev_image_eqI delete_notin_dom)
qed simp

text \<open>
  The books balance: what is in use is exactly what the leases hold, and totals and
  holdings are whole numbers small enough for floats to add and compare exactly.
\<close>

definition totals_ok :: "Resources \<Rightarrow> bool" where
  "totals_ok r \<longleftrightarrow> (\<forall>t \<in> snd ` set (rs_totals r). is_whole t \<and> amount t < AMOUNT_BOUND)"

definition whole_leases :: "lease list \<Rightarrow> bool" where
  "whole_leases ls \<longleftrightarrow> (\<forall>l \<in> set ls. is_whole (snd (snd l)))"

definition leases_ok :: "Resources \<Rightarrow> bool" where
  "leases_ok r \<longleftrightarrow> distinct (map fst (rs_leases r)) \<and>
     (\<forall>ls \<in> snd ` set (rs_leases r). whole_leases ls)"

definition used_ok :: "Resources \<Rightarrow> bool" where
  "used_ok r \<longleftrightarrow> distinct (map fst (rs_used r)) \<and>
     (\<forall>n. used_of r n = Fin (of_nat (held r n)) \<and> held r n < AMOUNT_BOUND)"

definition books :: "Resources \<Rightarrow> bool" where
  "books r \<longleftrightarrow> totals_ok r \<and> leases_ok r \<and> used_ok r"

lemma total_whole: "totals_ok r \<Longrightarrow> is_whole (total r n) \<and> amount (total r n) < AMOUNT_BOUND"
proof -
  assume ok: "totals_ok r"
  have look: "map_of (rs_totals r) p = Some t \<Longrightarrow> is_whole t \<and> amount t < AMOUNT_BOUND" for p t
    using ok map_of_SomeD[of "rs_totals r" p t] by (force simp: totals_ok_def)
  have one: "is_whole (Fin 1) \<and> amount (Fin 1) < AMOUNT_BOUND" by (simp add: is_whole_def AMOUNT_BOUND_def)
  show ?thesis
    using look one by (auto simp: total_def bind_eq_Some_conv split: option.splits)
qed

lemma can_acquire_exact:
  assumes "books r" "\<forall>(n, a) \<in> set needs. is_whole a"
  shows "can_acquire r needs = None \<longleftrightarrow> (\<forall>(n, a) \<in> set needs. held r n + amount a \<le> amount (total r n))"
proof -
  have "f64_lt (f64_add (free r n) EPS) a \<longleftrightarrow> amount (total r n) < held r n + amount a" if "(n, a) \<in> set needs" for n a
  proof -
    have "total r n = Fin (of_nat (amount (total r n)))" "amount (total r n) < AMOUNT_BOUND"
      using total_whole[of r n] assms(1) by (simp_all add: books_def is_whole_def)
    moreover have "used_of r n = Fin (of_nat (held r n))" "held r n < AMOUNT_BOUND"
      using assms(1) by (simp_all add: books_def used_ok_def)
    moreover have "a = Fin (of_nat (amount a))" using assms(2) that by (auto simp: is_whole_def)
    ultimately show ?thesis using fits_exact[of "amount (total r n)" "held r n" "amount a"] by (metis free_def)
  qed
  then show ?thesis by (force simp: can_acquire_def find_None_iff not_less)
qed

lemma set_update_snd: "snd ` set (AList.update k v al) \<subseteq> insert v (snd ` set al)"
  by (induction al) (auto split: if_splits)

lemma insert_total_books: "books r \<Longrightarrow> is_whole t \<Longrightarrow> amount t < AMOUNT_BOUND \<Longrightarrow> books (insert_total n t r)"
proof -
  assume r: "books r" and t: "is_whole t" "amount t < AMOUNT_BOUND"
  let ?r = "insert_total n t r"
  have "rs_totals ?r = AList.update n t (rs_totals r)" "rs_used ?r = rs_used r" "rs_leases ?r = rs_leases r"
    by (simp_all add: insert_total_def Let_def)
  moreover have "snd ` set (AList.update n t (rs_totals r)) \<subseteq> insert t (snd ` set (rs_totals r))"
    using set_update_snd[of n t "rs_totals r"] .
  ultimately have "totals_ok ?r" using r t unfolding books_def totals_ok_def by (metis insertE subsetD)
  moreover have "leases_ok ?r" "used_ok ?r"
    using r by (simp_all add: books_def leases_ok_def used_ok_def used_of_def held_def insert_total_def Let_def)
  ultimately show ?thesis by (simp add: books_def)
qed

lemma held_take_need:
  "leases_ok r \<Longrightarrow> held (take_need run l (m, a) r) n = held r n + (if m = n then amount a else 0)"
proof -
  assume "leases_ok r"
  then have d: "distinct (map fst (rs_leases r))" by (simp add: leases_ok_def)
  let ?ls = "case map_of (rs_leases r) run of Some ls \<Rightarrow> ls | None \<Rightarrow> []"
  show ?thesis
    using sum_alist_update[OF d, of "\<lambda>ls. held_in ls n" run "?ls @ [(l, m, a)]"]
    by (cases "map_of (rs_leases r) run") (simp_all add: take_need_def held_def entry_update_def)
qed

lemma leases_ok_update:
  "leases_ok r \<Longrightarrow> whole_leases ls \<Longrightarrow> rs_leases r' = AList.update run ls (rs_leases r) \<Longrightarrow> leases_ok r'"
proof -
  assume r: "leases_ok r" and ls: "whole_leases ls" and r': "rs_leases r' = AList.update run ls (rs_leases r)"
  have "\<forall>x \<in> snd ` set (rs_leases r'). whole_leases x"
    using r ls set_update_snd[of run ls "rs_leases r"] unfolding leases_ok_def r' by blast
  then show ?thesis using r r' by (simp add: leases_ok_def distinct_update)
qed

lemma leases_ok_look: "leases_ok r \<Longrightarrow> map_of (rs_leases r) run = Some ls \<Longrightarrow> whole_leases ls"
  unfolding leases_ok_def by (metis map_of_SomeD snd_conv image_eqI)

lemma take_need_leases_ok: "leases_ok r \<Longrightarrow> is_whole a \<Longrightarrow> leases_ok (take_need run l (m, a) r)"
proof -
  assume r: "leases_ok r" and a: "is_whole a"
  let ?ls = "case map_of (rs_leases r) run of Some ls \<Rightarrow> ls | None \<Rightarrow> []"
  have "whole_leases ?ls"
    using leases_ok_look[OF r] by (cases "map_of (rs_leases r) run") (auto simp: whole_leases_def)
  then have "whole_leases (?ls @ [(l, m, a)])" using a by (simp add: whole_leases_def)
  from leases_ok_update[OF r this] show ?thesis
    by (cases "map_of (rs_leases r) run") (simp_all add: take_need_def entry_update_def)
qed

lemma take_need_used_ok:
  assumes r: "used_ok r" "leases_ok r" and a: "is_whole a" "held r m + amount a < AMOUNT_BOUND"
  shows "used_ok (take_need run l (m, a) r)"
proof -
  let ?r = "take_need run l (m, a) r"
  have "used_of ?r n = Fin (of_nat (held ?r n)) \<and> held ?r n < AMOUNT_BOUND" for n
  proof (cases "n = m")
    case True
    have "used_of ?r m = f64_add (used_of r m) a"
      by (simp add: take_need_def used_of_def)
    also have "\<dots> = f64_add (Fin (of_nat (held r m))) (Fin (of_nat (amount a)))"
      using r(1) a(1) unfolding used_ok_def is_whole_def by metis
    also have "\<dots> = rnd (of_nat (held r m + amount a))" by simp
    also have "\<dots> = Fin (of_nat (held r m + amount a))"
      using a(2) by (intro rnd_numeral_nat) (simp add: AMOUNT_BOUND_def)
    finally show ?thesis using True held_take_need[OF r(2)] a(2) by simp
  next
    case False
    then have "used_of ?r n = used_of r n" by (simp add: take_need_def used_of_def)
    then show ?thesis using False held_take_need[OF r(2)] r(1) by (simp add: used_ok_def)
  qed
  then show ?thesis using r(1) by (simp add: used_ok_def take_need_def)
qed

lemma take_needs:
  assumes "books r" "distinct (map fst needs)"
    "\<forall>(n, a) \<in> set needs. is_whole a \<and> held r n + amount a < AMOUNT_BOUND"
  shows "books (fold (take_need run l) needs r) \<and>
    (\<forall>n. held (fold (take_need run l) needs r) n = held r n + sum_list (map (\<lambda>(m, a). if m = n then amount a else 0) needs))
    \<and> rs_totals (fold (take_need run l) needs r) = rs_totals r \<and> rs_patterns (fold (take_need run l) needs r) = rs_patterns r"
  using assms
proof (induction needs arbitrary: r)
  case (Cons na needs)
  obtain m a where [simp]: "na = (m, a)" by force
  let ?r = "take_need run l (m, a) r"
  have lo: "leases_ok r" using Cons.prems(1) by (simp add: books_def)
  have tot: "rs_totals ?r = rs_totals r" "rs_patterns ?r = rs_patterns r" by (simp_all add: take_need_def)
  have "books ?r"
    using Cons.prems take_need_used_ok[of r a m run l] take_need_leases_ok[of r a run l m] tot
    by (simp add: books_def totals_ok_def)
  moreover have "\<forall>(n, a) \<in> set needs. is_whole a \<and> held ?r n + amount a < AMOUNT_BOUND"
  proof -
    have "held ?r (fst x) = held r (fst x)" if "x \<in> set needs" for x
      using Cons.prems(2) that by (auto simp: held_take_need[OF lo])
    then show ?thesis using Cons.prems(3) by fastforce
  qed
  ultimately show ?case using Cons.IH[of ?r] Cons.prems(2) tot by (simp add: held_take_need[OF lo])
qed simp

lemma give_back_fields [simp]:
  "rs_totals (give_back l r) = rs_totals r" "rs_patterns (give_back l r) = rs_patterns r"
  "rs_leases (give_back l r) = rs_leases r" "rs_next_lease (give_back l r) = rs_next_lease r"
  "distinct (map fst (rs_used r)) \<Longrightarrow> distinct (map fst (rs_used (give_back l r)))"
  by (auto simp: give_back_def distinct_update split: prod.splits option.splits)

lemma give_back_used:
  assumes u: "used_of r n = Fin (of_nat (h + (if m = n then amount a else 0)))" and a: "is_whole a"
    and b: "h + (if m = n then amount a else 0) < AMOUNT_BOUND"
  shows "used_of (give_back (l, m, a) r) n = Fin (of_nat h)"
proof (cases "m = n")
  case True
  note whole = a[unfolded is_whole_def]
  show ?thesis
  proof (cases "map_of (rs_used r) n")
    case None
    then show ?thesis using u True by (simp add: used_of_def give_back_def)
  next
    case (Some v)
    then have v: "v = Fin (of_nat (h + amount a))" using u True by (simp add: used_of_def)
    have "f64_sub v a = rnd (of_nat (h + amount a) - of_nat (amount a))"
      unfolding v by (subst whole) (simp add: f64_sub_def)
    also have "\<dots> = rnd (of_nat h)" by simp
    also have "\<dots> = Fin (of_nat h)" using b True by (intro rnd_numeral_nat) (simp add: AMOUNT_BOUND_def)
    finally show ?thesis
      using Some True by (simp add: used_of_def give_back_def update_conv' f64_max_def)
  qed
next
  case False
  then show ?thesis using u by (auto simp: used_of_def give_back_def update_conv' split: option.splits)
qed

lemma give_backs:
  assumes "\<And>n. used_of r n = Fin (of_nat (h n + held_in ls n)) \<and> h n + held_in ls n < AMOUNT_BOUND" "whole_leases ls"
    "distinct (map fst (rs_used r))"
  shows "used_of (fold give_back ls r) n = Fin (of_nat (h n)) \<and> distinct (map fst (rs_used (fold give_back ls r)))
    \<and> rs_totals (fold give_back ls r) = rs_totals r \<and> rs_leases (fold give_back ls r) = rs_leases r"
  using assms
proof (induction ls arbitrary: r)
  case (Cons e ls)
  obtain l m a where [simp]: "e = (l, m, a)" by (cases e)
  let ?r = "give_back (l, m, a) r"
  have "used_of ?r k = Fin (of_nat (h k + held_in ls k)) \<and> h k + held_in ls k < AMOUNT_BOUND" for k
    using Cons.prems(1)[of k] Cons.prems(2) give_back_used[of r k "h k + held_in ls k" m a l]
    by (simp add: whole_leases_def ac_simps split: if_splits)
  then show ?case using Cons.IH[of ?r] Cons.prems(2,3) by (simp add: whole_leases_def)
qed simp

lemma evict_idle_books: "books r \<Longrightarrow> books (evict_idle r)"
proof (cases "evict_idle r = r")
  case False
  assume r: "books r"
  let ?P = "\<lambda>(n, u). f64_lt EPS u \<or> map_of (rs_totals r) n \<noteq> None"
  have e: "evict_idle r = r\<lparr> rs_used := filter ?P (rs_used r) \<rparr>"
    using False by (auto simp: evict_idle_def Let_def split: if_splits)
  have d: "distinct (map fst (rs_used r))" and u: "\<And>n. used_of r n = Fin (of_nat (held r n))"
    using r by (simp_all add: books_def used_ok_def)
  have "used_of (evict_idle r) n = used_of r n" for n
    using u[of n] whole_le_EPS(2)[of "held r n"] map_of_filter_entry[OF d, of ?P n]
    by (auto simp: e used_of_def split: option.splits)
  then show ?thesis using r d
    by (simp add: books_def used_ok_def totals_ok_def leases_ok_def held_def e distinct_map_filter)
qed simp

lemma total_cong: "rs_totals a = rs_totals b \<Longrightarrow> rs_patterns a = rs_patterns b \<Longrightarrow> total a n = total b n"
  unfolding total_def pattern_for_def by (erule ssubst, erule ssubst) (rule refl)

lemma acquire_books:
  assumes "books r" "distinct (map fst needs)" "\<forall>(n, a) \<in> set needs. is_whole a" "can_acquire r needs = None"
  shows "books (snd (acquire run needs r))"
    and "(n, a) \<in> set needs \<Longrightarrow> held (snd (acquire run needs r)) n = held r n + amount a"
    and "total (snd (acquire run needs r)) n = total r n"
proof -
  let ?l = "(rs_next_lease r + 1) mod 2 ^ 64"
  let ?r = "r\<lparr> rs_next_lease := ?l \<rparr>"
  have h: "held (r\<lparr> rs_next_lease := x \<rparr>) m = held r m" for x m by (simp add: held_def)
  have b: "books ?r"
    using assms(1) by (simp add: books_def totals_ok_def leases_ok_def used_ok_def used_of_def held_def)
  have tot: "amount (total r m) < AMOUNT_BOUND" for m using total_whole[of r m] assms(1) by (simp add: books_def)
  have "\<forall>(m, a) \<in> set needs. is_whole a \<and> held ?r m + amount a < AMOUNT_BOUND"
  proof -
    have "held r m + amount a < AMOUNT_BOUND" if "(m, a) \<in> set needs" for m a
      using can_acquire_exact[OF assms(1,3)] assms(4) that tot[of m] by (auto dest!: bspec)
    then show ?thesis using assms(3) by (auto simp: h)
  qed
  note t = take_needs[OF b assms(2) this, of run ?l]
  have a: "snd (acquire run needs r) = fold (take_need run ?l) needs ?r" by (simp add: acquire_def Let_def)
  show "books (snd (acquire run needs r))" using t by (simp add: a)
  show "total (snd (acquire run needs r)) n = total r n" using t by (intro total_cong) (simp_all add: a)
  have "sum_list (map (\<lambda>(m, a). if m = n then amount a else 0) needs) = amount a" if "(n, a) \<in> set needs"
    using assms(2) that
  proof (induction needs)
    case (Cons e needs)
    have "n \<notin> fst ` set needs \<Longrightarrow> sum_list (map (\<lambda>(m, a). if m = n then amount a else 0) needs) = 0"
      by (induction needs) (auto simp: rev_image_eqI)
    then show ?case using Cons by (cases e) (auto simp: rev_image_eqI)
  qed simp
  then show "(n, a) \<in> set needs \<Longrightarrow> held (snd (acquire run needs r)) n = held r n + amount a"
    using t by (simp add: a h)
qed

lemma release_lease_books: "books r \<Longrightarrow> books (release_lease run lease r)"
proof (cases "map_of (rs_leases r) run")
  case (Some ls)
  assume r: "books r"
  let ?give = "filter (\<lambda>(l, _). l = lease) ls" and ?kept = "filter (\<lambda>(l, _). l \<noteq> lease) ls"
  let ?r = "(fold give_back ?give r)\<lparr> rs_leases := AList.update run ?kept (rs_leases r) \<rparr>"
  have ok: "leases_ok r" "used_ok r" using r by (simp_all add: books_def)
  then have d: "distinct (map fst (rs_leases r))" by (simp add: leases_ok_def)
  have wl: "whole_leases ls" using leases_ok_look[OF ok(1) Some] .
  have kept: "held_in ?give n + held_in ?kept n = held_in ls n" for n
    using held_in_split[of "\<lambda>(l, _). l = lease" ls n] by (simp add: case_prod_unfold)
  have H: "held r n = held ?r n + held_in ?give n" for n
    using sum_alist_update[OF d, of "\<lambda>ls. held_in ls n" run ?kept] Some kept[of n] by (simp add: held_def)
  have "whole_leases ?give" using wl by (auto simp: whole_leases_def)
  from give_backs[OF _ this, of r "held ?r"] have g: "used_of (fold give_back ?give r) n = Fin (of_nat (held ?r n))"
    "distinct (map fst (rs_used (fold give_back ?give r)))" "rs_totals (fold give_back ?give r) = rs_totals r" for n
    using ok(2) H by (simp_all add: used_ok_def)
  have "held ?r n < AMOUNT_BOUND" for n using ok(2) H[of n] by (metis used_ok_def add_lessD1)
  moreover have "leases_ok ?r" by (rule leases_ok_update[OF ok(1)]) (use wl in \<open>auto simp: whole_leases_def\<close>)
  ultimately have "books ?r"
    using r g by (simp add: books_def used_ok_def totals_ok_def used_of_def)
  then show ?thesis using Some by (simp add: release_lease_def evict_idle_books)
qed (simp add: release_lease_def evict_idle_books)

lemma set_delete_snd: "snd ` set (AList.delete k al) \<subseteq> snd ` set al"
  by (auto simp: AList.delete_eq)

lemma leases_ok_delete: "leases_ok r \<Longrightarrow> rs_leases r' = AList.delete run (rs_leases r) \<Longrightarrow> leases_ok r'"
proof -
  assume r: "leases_ok r" and r': "rs_leases r' = AList.delete run (rs_leases r)"
  have "\<forall>x \<in> snd ` set (rs_leases r'). whole_leases x"
    using r set_delete_snd[of run "rs_leases r"] unfolding leases_ok_def r' by blast
  then show ?thesis using r r' by (simp add: leases_ok_def distinct_delete)
qed

lemma release_all_books:
  assumes r: "books r"
  shows "books (release_all run r)" "map_of (rs_leases (release_all run r)) run = None"
proof -
  show "map_of (rs_leases (release_all run r)) run = None"
  proof -
    have "rs_leases (evict_idle q) = rs_leases q" for q by (simp add: evict_idle_def Let_def)
    moreover have "rs_leases (fold give_back ls q) = rs_leases q" for ls q by (induction ls arbitrary: q) simp_all
    ultimately show ?thesis by (cases "map_of (rs_leases r) run") (simp_all add: release_all_def delete_conv')
  qed
  show "books (release_all run r)"
  proof (cases "map_of (rs_leases r) run")
    case (Some ls)
    let ?d = "r\<lparr> rs_leases := AList.delete run (rs_leases r) \<rparr>"
    have ok: "leases_ok r" "used_ok r" using r by (simp_all add: books_def)
    then have d: "distinct (map fst (rs_leases r))" by (simp add: leases_ok_def)
    have H: "held r n = held ?d n + held_in ls n" for n
      using sum_alist_delete[OF d, of "\<lambda>ls. held_in ls n" run] Some by (simp add: held_def)
    have "used_of ?d n = used_of r n" for n by (simp add: used_of_def)
    then have g: "used_of (fold give_back ls ?d) n = Fin (of_nat (held ?d n)) \<and> distinct (map fst (rs_used (fold give_back ls ?d)))
      \<and> rs_totals (fold give_back ls ?d) = rs_totals r \<and> rs_leases (fold give_back ls ?d) = rs_leases ?d" for n
      using give_backs[of ?d "held ?d" ls n] ok H leases_ok_look[OF ok(1) Some] by (simp add: used_ok_def)
    have b: "held ?d n < AMOUNT_BOUND" for n using ok(2) H[of n] by (metis used_ok_def add_lessD1)
    have "leases_ok ?d" by (rule leases_ok_delete[OF ok(1)]) simp
    then have "books (fold give_back ls ?d)"
      using r g b by (simp add: books_def used_ok_def totals_ok_def leases_ok_def held_def)
    then show ?thesis using Some by (simp add: release_all_def evict_idle_books)
  qed (use r in \<open>simp add: release_all_def evict_idle_books\<close>)
qed

section \<open>Every history of the table\<close>

datatype res_op = SetTotal string f64 | TryAcquire int "need list" | ReleaseLease int nat | ReleaseAll int

fun res_step :: "res_op \<Rightarrow> Resources \<Rightarrow> Resources" where
  "res_step (SetTotal n t) r = insert_total n t r"
| "res_step (TryAcquire run needs) r = snd (try_acquire run needs r)"
| "res_step (ReleaseLease run l) r = release_lease run l r"
| "res_step (ReleaseAll run) r = release_all run r"

definition needs_ok :: "need list \<Rightarrow> bool" where
  "needs_ok needs \<longleftrightarrow> distinct (map fst needs) \<and> (\<forall>(n, a) \<in> set needs. is_whole a)"

text \<open>Whole amounts below two to the 51, and no name twice in one request.\<close>

fun res_admissible :: "res_op \<Rightarrow> bool" where
  "res_admissible (SetTotal n t) \<longleftrightarrow> is_whole t \<and> amount t < AMOUNT_BOUND"
| "res_admissible (TryAcquire run needs) \<longleftrightarrow> needs_ok needs"
| "res_admissible _ \<longleftrightarrow> True"

lemma res_step_books: "books r \<Longrightarrow> res_admissible op \<Longrightarrow> books (res_step op r)"
proof (cases op)
  case (TryAcquire run needs)
  assume "books r" "res_admissible op"
  then show ?thesis using acquire_books(1)[of r needs run] TryAcquire
    by (auto simp: try_acquire_def needs_ok_def split: option.splits prod.splits)
qed (simp_all add: insert_total_books release_lease_books release_all_books)

lemma books_default: "books Resources_default"
  by (simp add: books_def Resources_default_def totals_ok_def leases_ok_def used_ok_def used_of_def held_def AMOUNT_BOUND_def)

interpretation ledger: preserved_when res_step books res_admissible
  by unfold_locales (rule res_step_books)

text \<open>
  C30: In every history of declarations, requests and releases of whole amounts, what the table
  counts as in use of a resource is exactly the sum the leases of all runs hold of it: floating-point
  accounting neither leaks nor drifts, and dropping idle instances loses nothing.
\<close>

theorem usage_equals_leases:
  assumes "list_all res_admissible ops"
  shows "used_of (fold res_step ops Resources_default) n = Fin (of_nat (held (fold res_step ops Resources_default) n))"
  using ledger.runs_when[OF assms books_default] by (simp add: books_def used_ok_def)

theorem usage_equals_leases_witness:
  "used_of (fold res_step [SetTotal ''gpu'' (Fin 4), TryAcquire 1 [(''gpu'', Fin 3)], ReleaseAll 1] Resources_default) ''gpu''
    = Fin (of_nat (held (fold res_step [SetTotal ''gpu'' (Fin 4), TryAcquire 1 [(''gpu'', Fin 3)], ReleaseAll 1] Resources_default) ''gpu''))"
  by (rule usage_equals_leases) (simp add: needs_ok_def is_whole_def AMOUNT_BOUND_def)

text \<open>
  After any such history a request for whole amounts is granted exactly when every amount fits
  what is free: a granted request keeps every resource it names within its limit, and a refused one
  changes nothing and names a resource that really does not have the amount.
\<close>

theorem requests_respect_limits:
  assumes "list_all res_admissible ops" "needs_ok needs"
  defines "r \<equiv> fold res_step ops Resources_default"
  shows "case try_acquire run needs r of
      (Inr lease, r') \<Rightarrow> \<forall>(n, a) \<in> set needs. held r' n = held r n + amount a \<and> f64_le (used_of r' n) (total r' n)
    | (Inl name, r') \<Rightarrow> r' = r \<and> (\<exists>a. (name, a) \<in> set needs \<and> amount (total r name) < held r name + amount a)"
proof -
  have b: "books r" unfolding r_def by (rule ledger.runs_when[OF assms(1) books_default])
  have d: "distinct (map fst needs)" and w: "\<forall>(n, a) \<in> set needs. is_whole a" using assms(2) by (simp_all add: needs_ok_def)
  show ?thesis
  proof (cases "can_acquire r needs")
    case None
    let ?r = "snd (acquire run needs r)"
    note acq = acquire_books[OF b d w None]
    have "f64_le (used_of ?r n) (total ?r n)" if "(n, a) \<in> set needs" for n a
    proof -
      have "held r n + amount a \<le> amount (total r n)" using can_acquire_exact[OF b w] None that by auto
      moreover have "total r n = Fin (of_nat (amount (total r n)))"
        using total_whole[of r n] b by (simp add: books_def is_whole_def)
      moreover have "used_of ?r n = Fin (of_nat (held r n + amount a))"
        using acq(1) acq(2)[OF that] by (simp add: books_def used_ok_def)
      ultimately show ?thesis using acq(3) by (metis f64_le_def f64_eq_def f64_lt.simps(1) f64.distinct(5) of_nat_less_iff order_le_less)
    qed
    then show ?thesis using None acq(2) by (auto simp: try_acquire_def split_beta)
  next
    case (Some name)
    then obtain a where a: "(name, a) \<in> set needs" "f64_lt (f64_add (free r name) EPS) a"
      using find_mem[of _ needs] by (force simp: can_acquire_def)
    have "can_acquire r [(name, a)] \<noteq> None" using a(2) by (simp add: can_acquire_def)
    moreover have "is_whole a" using w a(1) by auto
    ultimately have "amount (total r name) < held r name + amount a"
      using can_acquire_exact[OF b, of "[(name, a)]"] by auto
    then show ?thesis using Some a(1) by (auto simp: try_acquire_def)
  qed
qed

text \<open>
  A request that names a resource twice, as two templates that render alike do, is granted
  although the sum of its amounts exceeds the limit: each need is compared alone.
\<close>

definition one_gpu :: Resources where
  "one_gpu = insert_total ''gpu'' (Fin 1) Resources_default"

lemma one_gpu_fields:
  "total one_gpu ''gpu'' = Fin 1" "held one_gpu n = 0" "rs_used one_gpu = []" "rs_next_lease one_gpu = 0" "books one_gpu"
proof -
  show "books one_gpu" unfolding one_gpu_def
    by (rule insert_total_books[OF books_default]) (simp_all add: is_whole_def AMOUNT_BOUND_def)
qed (simp_all add: one_gpu_def insert_total_def Resources_default_def total_def held_def)

theorem duplicate_needs_overrun:
  "fst (try_acquire 1 [(''gpu'', Fin 1), (''gpu'', Fin 1)] one_gpu) = Inr 1 \<and>
   f64_lt (total (snd (try_acquire 1 [(''gpu'', Fin 1), (''gpu'', Fin 1)] one_gpu)) ''gpu'')
     (used_of (snd (try_acquire 1 [(''gpu'', Fin 1), (''gpu'', Fin 1)] one_gpu)) ''gpu'')"
proof -
  have "rnd 1 = Fin 1" "rnd 2 = Fin 2" using rnd_numeral_nat[of 1] rnd_numeral_nat[of 2] by simp_all
  moreover have "can_acquire one_gpu [(''gpu'', Fin 1), (''gpu'', Fin 1)] = None"
    using can_acquire_exact[OF one_gpu_fields(5), of "[(''gpu'', Fin 1), (''gpu'', Fin 1)]"]
    by (simp add: one_gpu_fields is_whole_def)
  moreover have "total (take_need run l need r) n = total r n" for run l need r n
    by (rule total_cong) (auto simp: take_need_def split: prod.splits)
  moreover have "total (one_gpu\<lparr> rs_next_lease := l \<rparr>) ''gpu'' = Fin 1" for l
    using total_cong[of "one_gpu\<lparr> rs_next_lease := l \<rparr>" one_gpu] by (simp add: one_gpu_fields)
  ultimately show ?thesis
    by (simp add: try_acquire_def acquire_def Let_def one_gpu_fields used_of_def)
       (simp add: take_need_def entry_update_def one_gpu_fields)
qed

theorem requests_respect_limits_witness:
  "case try_acquire 2 [(''gpu'', Fin 3)] (fold res_step [SetTotal ''gpu'' (Fin 4), TryAcquire 1 [(''gpu'', Fin 1)]] Resources_default) of
      (Inr lease, r') \<Rightarrow> True
    | (Inl name, r') \<Rightarrow> amount (total r' name) < held r' name + 3"
proof -
  let ?ops = "[SetTotal ''gpu'' (Fin 4), TryAcquire 1 [(''gpu'', Fin 1)]]"
  have "list_all res_admissible ?ops" "needs_ok [(''gpu'', Fin 3)]"
    by (simp_all add: needs_ok_def is_whole_def AMOUNT_BOUND_def)
  note requests_respect_limits[OF this, of 2]
  then show ?thesis by (auto split: prod.splits sum.splits)
qed

section \<open>Giving back what was taken\<close>

lemma evict_idle_leases [simp]: "rs_leases (evict_idle r) = rs_leases r"
  by (simp add: evict_idle_def Let_def)

lemma fold_give_back_leases [simp]: "rs_leases (fold give_back ls r) = rs_leases r"
  by (induction ls arbitrary: r) simp_all

lemma release_all_leases: "rs_leases (release_all run r) = AList.delete run (rs_leases r)"
proof (cases "map_of (rs_leases r) run")
  case None
  then have "run \<notin> fst ` set (rs_leases r)" by (simp add: map_of_eq_None_iff)
  then show ?thesis using None by (simp add: release_all_def delete_notin_dom)
qed (simp add: release_all_def)

lemma delete_update: "AList.delete k (AList.update k v al) = AList.delete k al"
  by (induction al) auto

lemma delete_fold_take_need: "AList.delete run (rs_leases (fold (take_need run l) needs r)) = AList.delete run (rs_leases r)"
proof (induction needs arbitrary: r)
  case (Cons e needs)
  have "AList.delete run (rs_leases (take_need run l e r)) = AList.delete run (rs_leases r)"
    by (cases e; cases "map_of (rs_leases r) run") (simp_all add: take_need_def entry_update_def delete_update)
  then show ?case using Cons by simp
qed simp

lemma acquire_release_leases:
  "map_of (rs_leases r) run = None \<Longrightarrow> rs_leases (release_all run (snd (acquire run needs r))) = rs_leases r"
  by (simp add: release_all_leases acquire_def Let_def delete_fold_take_need delete_notin_dom map_of_eq_None_iff)

lemma acquire_release_used:
  assumes "books r" "needs_ok needs" "can_acquire r needs = None" "map_of (rs_leases r) run = None"
  shows "used_of (release_all run (snd (acquire run needs r))) n = used_of r n"
proof -
  have "books (snd (acquire run needs r))" using acquire_books(1) assms by (simp add: needs_ok_def)
  then have "books (release_all run (snd (acquire run needs r)))" by (rule release_all_books)
  moreover have "held (release_all run (snd (acquire run needs r))) n = held r n"
    by (simp add: held_def acquire_release_leases[OF assms(4)])
  ultimately show ?thesis using assms(1) by (simp add: books_def used_ok_def)
qed

end
