(* ===== verification/Supervisor_State.thy ===== *)
theory Supervisor_State
  imports Model Resources "HOL-Library.Product_Lexorder"
begin

text \<open>
  The state of the supervisor (\<^verbatim>\<open>crates/server/src/supervisor.rs\<close>): engines, workers, the
  work queue with each run's place in it, and the queue's own operations. A hash map is an
  association list, so a theorem about every list speaks of every iteration order; a
  \<^verbatim>\<open>BTreeMap\<close> is a list ascending by key. Instants are numbers.
\<close>

section \<open>Engines, workers and queued runs\<close>

definition nice_for :: "int \<Rightarrow> nat" where
  "nice_for priority = (if priority < 0 then nat (min (i64_sub 0 priority) 19 mod 256) else 0)"

datatype Location = Local | Worker int

definition of_engine :: "string \<Rightarrow> Location" where
  "of_engine engine_id =
     (case Option.bind (strip_prefix engine_id ''w'') (\<lambda>rest.
        Option.bind (split_once ''-'' rest) (\<lambda>(n, _). parse_i64 n)) of
        Some w \<Rightarrow> Worker w
      | None \<Rightarrow> Local)"

definition same_code :: "EngineKey \<Rightarrow> EngineKey \<Rightarrow> bool" where
  "same_code a b \<longleftrightarrow> ek_module a = ek_module b \<and> ek_isolated a = ek_isolated b \<and> ek_nice a = ek_nice b"

fun as_bool :: "json \<Rightarrow> bool option" where
  "as_bool (JBool b) = Some b"
| "as_bool _ = None"

definition EngineKey_from_flow :: "Flow \<Rightarrow> EngineKey" where
  "EngineKey_from_flow flow =
     (let priority = (case Option.bind (jmap_get (fl_options flow) ''priority'') as_i64 of Some p \<Rightarrow> p | None \<Rightarrow> 0) in
      \<lparr> ek_source_dir = fl_source_dir flow, ek_module = fl_module flow,
        ek_isolated = (case Option.bind (jmap_get (fl_options flow) ''isolated'') as_bool of Some b \<Rightarrow> b | None \<Rightarrow> False),
        ek_nice = nice_for priority \<rparr>)"

record Engine =
  en_id :: string
  en_key :: EngineKey
  en_pid :: "nat option"
  en_child :: bool
  en_runs_done :: nat
  en_module_mtime :: "int option"
  en_current_run :: "int option"
  en_exit_requested :: bool
  en_spawned_at :: int
  en_last_seen :: int
  en_adopted :: bool
  en_drained_at :: "int option"
  en_run_since :: "int option"
  en_polled :: bool
  en_location :: Location
  en_slot :: nat

definition Engine_new :: "int \<Rightarrow> int option \<Rightarrow> string \<Rightarrow> EngineKey \<Rightarrow> nat option \<Rightarrow> bool \<Rightarrow> bool \<Rightarrow> Engine" where
  "Engine_new inst mtime i key pid child adopted =
     \<lparr> en_id = i, en_key = key, en_pid = pid, en_child = child, en_runs_done = 0, en_module_mtime = mtime,
       en_current_run = None, en_exit_requested = False, en_spawned_at = inst, en_last_seen = inst,
       en_adopted = adopted, en_drained_at = None, en_run_since = None, en_polled = False,
       en_location = Local, en_slot = 0 \<rparr>"

definition engine_status :: "Engine \<Rightarrow> string" where
  "engine_status e =
     (case (en_current_run e, en_drained_at e, en_polled e) of
        (Some _, Some _, _) \<Rightarrow> ''draining''
      | (Some _, None, _) \<Rightarrow> ''running''
      | (None, _, False) \<Rightarrow> ''starting''
      | (None, _, True) \<Rightarrow> ''idle'')"

record QueuedRun =
  qr_run_id :: int
  qr_key :: EngineKey
  qr_priority :: int
  qr_order :: int
  qr_needs :: "need list"
  qr_not_before :: "int option"
  qr_flow_id :: int
  qr_remote_ok :: bool
  qr_prefer_worker :: "int option"
  qr_prefer_until :: int

type_synonym QKey = "int \<times> int \<times> int"

definition qkey :: "QueuedRun \<Rightarrow> QKey" where
  "qkey q = (i64_sub 0 (qr_priority q), qr_order q, qr_run_id q)"

definition reserved_elsewhere :: "QueuedRun \<Rightarrow> Location \<Rightarrow> int \<Rightarrow> bool" where
  "reserved_elsewhere q location now =
     (case qr_prefer_worker q of
        Some w \<Rightarrow> if now < qr_prefer_until q then location \<noteq> Worker w else False
      | None \<Rightarrow> False)"

definition not_due :: "QueuedRun \<Rightarrow> int \<Rightarrow> bool" where
  "not_due q now = (case qr_not_before q of Some t \<Rightarrow> now < t | None \<Rightarrow> False)"

record QueuedJob =
  qj_key :: EngineKey
  qj_payload :: json

record WorkerSlot =
  ws_name :: string
  ws_processors :: nat
  ws_state :: string
  ws_eligible :: "int list"
  ws_last_seen :: int
  ws_commands :: "json list"
  ws_broken :: "string list"
  ws_next_engine :: nat

record Inner =
  in_engines :: "(string \<times> Engine) list"
  in_workers :: "(int \<times> WorkerSlot) list"
  in_queue :: "(QKey \<times> QueuedRun) list"
  in_positions :: "(int \<times> QKey) list"
  in_overtaken :: "(int \<times> nat) list"
  in_jobs :: "QueuedJob list"
  in_next_engine :: nat
  in_waiting_marked :: "(int \<times> string) list"
  in_failures :: "(int \<times> int list) list"
  in_starting :: "(EngineKey \<times> nat) list"
  in_handoff :: "(int \<times> QueuedRun) list"

definition Inner_default :: Inner where
  "Inner_default = \<lparr> in_engines = [], in_workers = [], in_queue = [], in_positions = [], in_overtaken = [], in_jobs = [],
     in_next_engine = 0, in_waiting_marked = [], in_failures = [], in_starting = [], in_handoff = [] \<rparr>"

section \<open>The queue\<close>

definition inner_push :: "QueuedRun \<Rightarrow> Inner \<Rightarrow> Inner" where
  "inner_push item inner =
     (if map_of (in_positions inner) (qr_run_id item) \<noteq> None then inner
      else let k = qkey item in
        inner\<lparr> in_positions := AList.update (qr_run_id item) k (in_positions inner),
               in_queue := bt_insert k item (in_queue inner) \<rparr>)"

definition inner_remove :: "int \<Rightarrow> Inner \<Rightarrow> QueuedRun option \<times> Inner" where
  "inner_remove run inner =
     (let inner = inner\<lparr> in_overtaken := AList.delete run (in_overtaken inner) \<rparr> in
      case map_of (in_positions inner) run of
        None \<Rightarrow> (None, inner)
      | Some k \<Rightarrow> (map_of (in_queue inner) k,
          inner\<lparr> in_positions := AList.delete run (in_positions inner), in_queue := bt_remove k (in_queue inner) \<rparr>))"

definition engines_of :: "Inner \<Rightarrow> Engine list" where
  "engines_of inner = map snd (in_engines inner)"

definition idle_engine_keys :: "Inner \<Rightarrow> EngineKey list" where
  "idle_engine_keys inner =
     map en_key (filter (\<lambda>e. en_current_run e = None \<and> \<not> en_exit_requested e) (engines_of inner))"

definition has_idle_other :: "Inner \<Rightarrow> EngineKey list \<Rightarrow> EngineKey \<Rightarrow> string \<Rightarrow> bool" where
  "has_idle_other inner idle_keys key engine_id =
     (if key \<notin> set idle_keys then False
      else \<exists>e \<in> set (engines_of inner).
        en_id e \<noteq> engine_id \<and> en_key e = key \<and> en_current_run e = None \<and> \<not> en_exit_requested e)"

definition worker_eligible_flows :: "Inner \<Rightarrow> int list" where
  "worker_eligible_flows inner = concat (map (ws_eligible \<circ> snd) (in_workers inner))"

definition occupying_at :: "Location \<Rightarrow> Inner \<Rightarrow> nat" where
  "occupying_at location inner =
     length (filter (\<lambda>e. en_location e = location \<and> (\<not> en_exit_requested e \<or> en_current_run e \<noteq> None)) (engines_of inner))"

definition occupying :: "Inner \<Rightarrow> nat" where
  "occupying inner = occupying_at Local inner + sum_list (map snd (in_starting inner))"

definition usable_local :: "EngineKey \<Rightarrow> Inner \<Rightarrow> nat" where
  "usable_local key inner =
     length (filter (\<lambda>e. en_location e = Local \<and> en_key e = key \<and> \<not> en_exit_requested e \<and> en_current_run e = None)
       (engines_of inner))
     + (case map_of (in_starting inner) key of Some n \<Rightarrow> n | None \<Rightarrow> 0)"

definition request_spawn :: "nat \<Rightarrow> EngineKey \<Rightarrow> Inner \<Rightarrow> (string \<times> EngineKey) \<times> Inner" where
  "request_spawn process_id key inner =
     ((''engine-'' @ show_nat process_id @ ''-'' @ show_nat (in_next_engine inner), key),
      inner\<lparr> in_next_engine := in_next_engine inner + 1,
             in_starting := entry_update key 0 (\<lambda>n. n + 1) (in_starting inner) \<rparr>)"

text \<open>The counter of a key is never below one while the key is there, so \<^verbatim>\<open>*n -= 1\<close> does not wrap.\<close>

definition finish_one :: "EngineKey \<Rightarrow> Inner \<Rightarrow> Inner" where
  "finish_one key inner =
     (case map_of (in_starting inner) key of
        None \<Rightarrow> inner
      | Some n \<Rightarrow>
          if n - 1 = 0 then inner\<lparr> in_starting := AList.delete key (in_starting inner) \<rparr>
          else inner\<lparr> in_starting := AList.update key (n - 1) (in_starting inner) \<rparr>)"

definition finish_starting :: "EngineKey list \<Rightarrow> Inner \<Rightarrow> Inner" where
  "finish_starting keys inner = fold finish_one keys inner"

definition slots_at :: "Location \<Rightarrow> Inner \<Rightarrow> nat list" where
  "slots_at location inner = map en_slot (filter (\<lambda>e. en_location e = location) (engines_of inner))"

text \<open>One more candidate than slots taken is enough: one of them is free.\<close>

definition free_slot :: "Location \<Rightarrow> Inner \<Rightarrow> nat" where
  "free_slot location inner =
     (let taken = slots_at location inner in
      case List.find (\<lambda>n. n \<notin> set taken) [1..<length taken + 2] of Some n \<Rightarrow> n | None \<Rightarrow> 1)"

section \<open>The contract of a waiting line\<close>

text \<open>
  A line of items with an identity and a place: the line is ascending by place, an identity
  stands in it at most once, and removing an identity leaves the others where they are.
\<close>

locale waiting_line =
  fixes line :: "'s \<Rightarrow> 'q list" and ok :: "'s \<Rightarrow> bool" and push :: "'q \<Rightarrow> 's \<Rightarrow> 's"
    and remove :: "int \<Rightarrow> 's \<Rightarrow> 'q option \<times> 's" and ident :: "'q \<Rightarrow> int" and place :: "'q \<Rightarrow> 'k::linorder"
  assumes line_sorted: "ok s \<Longrightarrow> sorted_wrt (\<lambda>a b. place a < place b) (line s)"
    and line_unique: "ok s \<Longrightarrow> a \<in> set (line s) \<Longrightarrow> b \<in> set (line s) \<Longrightarrow> ident a = ident b \<Longrightarrow> a = b"
    and push_line: "ok s \<Longrightarrow> set (line (push q s)) = (if ident q \<in> ident ` set (line s) then set (line s) else insert q (set (line s)))"
    and push_ok: "ok s \<Longrightarrow> ok (push q s)"
    and remove_line: "ok s \<Longrightarrow> set (line (snd (remove i s))) = {q \<in> set (line s). ident q \<noteq> i}"
    and remove_found: "ok s \<Longrightarrow> fst (remove i s) = Some q \<longleftrightarrow> q \<in> set (line s) \<and> ident q = i"
    and remove_ok: "ok s \<Longrightarrow> ok (snd (remove i s))"
begin

lemma same_members: "ok s \<Longrightarrow> ok t \<Longrightarrow> set (line s) = set (line t) \<Longrightarrow> line s = line t"
proof -
  assume s: "ok s" and t: "ok t" and eq: "set (line s) = set (line t)"
  have "sorted_wrt (<) (map place (line s))" "sorted_wrt (<) (map place (line t))"
    using line_sorted s t by (simp_all add: sorted_wrt_map)
  then have sd: "sorted (map place (line s))" "distinct (map place (line s))"
      "sorted (map place (line t))" "distinct (map place (line t))"
    by (simp_all add: strict_sorted_iff)
  have "place ` set (line s) = place ` set (line t)" using eq by simp
  then have m: "map place (line s) = map place (line t)"
    by (intro sorted_distinct_set_unique sd) simp
  have "inj_on place (set (line s) \<union> set (line t))" using sd(2) eq by (simp add: distinct_map)
  then show ?thesis using m map_inj_on by blast
qed

lemma push_known: "ok s \<Longrightarrow> ident q \<in> ident ` set (line s) \<Longrightarrow> line (push q s) = line s"
  by (rule same_members) (simp_all add: push_ok push_line)

lemma push_then_remove:
  assumes "ok s" "ident q \<notin> ident ` set (line s)"
  shows "fst (remove (ident q) (push q s)) = Some q \<and> line (snd (remove (ident q) (push q s))) = line s"
proof
  show "fst (remove (ident q) (push q s)) = Some q"
    using assms by (simp add: remove_found push_ok push_line)
  show "line (snd (remove (ident q) (push q s))) = line s"
    using assms by (intro same_members) (auto simp: remove_ok push_ok remove_line push_line rev_image_eqI)
qed

text \<open>An item that is taken out and put back stands where it stood.\<close>

lemma put_back:
  assumes "ok s" "fst (remove i s) = Some q" shows "line (push q (snd (remove i s))) = line s"
proof -
  have q: "q \<in> set (line s)" "ident q = i" using assms remove_found by blast+
  have ok: "ok (snd (remove i s))" using assms(1) by (rule remove_ok)
  have new: "ident q \<notin> ident ` set (line (snd (remove i s)))" using q(2) assms(1) by (auto simp: remove_line)
  show ?thesis
  proof (rule same_members)
    have "set (line (push q (snd (remove i s)))) = insert q {x \<in> set (line s). ident x \<noteq> i}"
      using new ok assms(1) by (simp add: push_line remove_line)
    also have "\<dots> = set (line s)" using q line_unique[OF assms(1) q(1)] by blast
    finally show "set (line (push q (snd (remove i s)))) = set (line s)" .
  qed (use assms(1) ok in \<open>simp_all add: push_ok\<close>)
qed

end

text \<open>A sorted queue together with each identity's place in it.\<close>

definition indexed :: "('q \<Rightarrow> 'k::linorder) \<Rightarrow> ('q \<Rightarrow> 'i) \<Rightarrow> ('k \<times> 'q) list \<Rightarrow> ('i \<times> 'k) list \<Rightarrow> bool" where
  "indexed place ident Q P \<longleftrightarrow> bt_sorted Q \<and> (\<forall>k q. (k, q) \<in> set Q \<longrightarrow> k = place q) \<and>
     (\<forall>i k. map_of P i = Some k \<longleftrightarrow> (\<exists>q. (k, q) \<in> set Q \<and> ident q = i))"

lemma indexedD:
  assumes "indexed place ident Q P"
  shows "bt_sorted Q" "(k, q) \<in> set Q \<Longrightarrow> k = place q" "map_of P i = Some k \<longleftrightarrow> (\<exists>q. (k, q) \<in> set Q \<and> ident q = i)"
  using assms unfolding indexed_def by blast+

lemma indexed_dom:
  assumes "indexed place ident Q P" shows "map_of P i \<noteq> None \<longleftrightarrow> i \<in> ident ` snd ` set Q"
  using indexedD(3)[OF assms, of i] by force

lemma indexed_unique:
  assumes "indexed place ident Q P" "(k, q) \<in> set Q" "(k', q') \<in> set Q" "ident q = ident q'"
  shows "k = k'" "q = q'"
proof -
  have "map_of P (ident q) = Some k" "map_of P (ident q) = Some k'" using indexedD(3)[OF assms(1)] assms(2-4) by auto
  then show "k = k'" by simp
  then show "q = q'" using bt_sorted_unique[OF indexedD(1)[OF assms(1)]] assms(2,3) by blast
qed

lemma indexed_push:
  assumes ix: "indexed place ident Q P" and new: "ident q \<notin> ident ` snd ` set Q"
    and inj: "\<And>a b. place a = place b \<Longrightarrow> ident a = ident b"
  shows "set (bt_insert (place q) q Q) = insert (place q, q) (set Q)"
    "indexed place ident (bt_insert (place q) q Q) (AList.update (ident q) (place q) P)"
proof -
  have fresh: "(k, x) \<in> set Q \<Longrightarrow> k \<noteq> place q \<and> ident x \<noteq> ident q" for k x
    using indexedD(2)[OF ix, of k x] inj[of x q] new by (force simp: image_iff)
  show S: "set (bt_insert (place q) q Q) = insert (place q, q) (set Q)"
    using bt_insert_set[OF indexedD(1)[OF ix], of "place q" q] fresh by auto
  have "map_of (AList.update (ident q) (place q) P) i = Some k \<longleftrightarrow> (\<exists>x. (k, x) \<in> insert (place q, q) (set Q) \<and> ident x = i)" for i k
    using indexedD(3)[OF ix, of i k] fresh[of k] by (auto simp: update_conv')
  then show "indexed place ident (bt_insert (place q) q Q) (AList.update (ident q) (place q) P)"
    using bt_insert_sorted[OF indexedD(1)[OF ix]] indexedD(2)[OF ix] by (auto simp: indexed_def S)
qed

lemma indexed_remove:
  assumes ix: "indexed place ident Q P" and e: "(k, q) \<in> set Q"
  shows "snd ` set (bt_remove k Q) = {x \<in> snd ` set Q. ident x \<noteq> ident q}"
    "indexed place ident (bt_remove k Q) (AList.delete (ident q) P)"
proof -
  have key: "(k', x) \<in> set Q \<Longrightarrow> k' = k \<longleftrightarrow> ident x = ident q" for k' x
    using indexed_unique[OF ix _ e, of k' x] bt_sorted_unique[OF indexedD(1)[OF ix] e, of x] by auto
  show "snd ` set (bt_remove k Q) = {x \<in> snd ` set Q. ident x \<noteq> ident q}" using key by force
  have "map_of (AList.delete (ident q) P) i = Some k' \<longleftrightarrow> (\<exists>x. (k', x) \<in> set (bt_remove k Q) \<and> ident x = i)" for i k'
    using indexedD(3)[OF ix, of i k'] key[of k'] by (auto simp: delete_conv')
  then show "indexed place ident (bt_remove k Q) (AList.delete (ident q) P)"
    using bt_remove_sorted[OF indexedD(1)[OF ix]] indexedD(2)[OF ix] by (auto simp: indexed_def)
qed

lemma indexed_line:
  assumes "indexed place ident Q P"
  shows "sorted_wrt (\<lambda>a b. place a < place b) (map snd Q)"
proof -
  have "sorted_wrt (\<lambda>a b. fst a < fst b) Q" using indexedD(1)[OF assms] by (simp add: bt_sorted_def sorted_wrt_map)
  then show ?thesis
    unfolding sorted_wrt_map by (rule sorted_wrt_mono_rel[rotated]) (use indexedD(2)[OF assms] in auto)
qed

definition queue_line :: "Inner \<Rightarrow> QueuedRun list" where
  "queue_line inner = map snd (in_queue inner)"

definition queue_ok :: "Inner \<Rightarrow> bool" where
  "queue_ok inner \<longleftrightarrow> indexed qkey qr_run_id (in_queue inner) (in_positions inner)"

lemma qkey_run: "qkey a = qkey b \<Longrightarrow> qr_run_id a = qr_run_id b"
  by (simp add: qkey_def)

lemma set_queue_line: "set (queue_line inner) = snd ` set (in_queue inner)"
  by (simp add: queue_line_def)

lemma inner_push_facts:
  assumes "queue_ok inner"
  shows "queue_ok (inner_push q inner)" "set (queue_line (inner_push q inner)) =
    (if qr_run_id q \<in> qr_run_id ` set (queue_line inner) then set (queue_line inner) else insert q (set (queue_line inner)))"
proof -
  note ix = assms[unfolded queue_ok_def]
  have dom: "map_of (in_positions inner) (qr_run_id q) \<noteq> None \<longleftrightarrow> qr_run_id q \<in> qr_run_id ` set (queue_line inner)"
    using indexed_dom[OF ix] by (simp add: set_queue_line)
  note new = indexed_push[where q = q, OF ix _ qkey_run]
  show "queue_ok (inner_push q inner)"
    using new(2) dom assms by (auto simp: inner_push_def queue_ok_def Let_def set_queue_line)
  show "set (queue_line (inner_push q inner)) =
    (if qr_run_id q \<in> qr_run_id ` set (queue_line inner) then set (queue_line inner) else insert q (set (queue_line inner)))"
    using new(1) dom by (auto simp: inner_push_def Let_def set_queue_line)
qed

lemma inner_remove_facts:
  assumes "queue_ok inner"
  shows "queue_ok (snd (inner_remove i inner))"
    "set (queue_line (snd (inner_remove i inner))) = {q \<in> set (queue_line inner). qr_run_id q \<noteq> i}"
    "fst (inner_remove i inner) = Some q \<longleftrightarrow> q \<in> set (queue_line inner) \<and> qr_run_id q = i"
proof -
  note ix = assms[unfolded queue_ok_def]
  have "queue_ok (snd (inner_remove i inner)) \<and>
    set (queue_line (snd (inner_remove i inner))) = {q \<in> set (queue_line inner). qr_run_id q \<noteq> i} \<and>
    (fst (inner_remove i inner) = Some q \<longleftrightarrow> q \<in> set (queue_line inner) \<and> qr_run_id q = i)"
  proof (cases "map_of (in_positions inner) i")
    case None
    then have "i \<notin> qr_run_id ` snd ` set (in_queue inner)" using indexed_dom[OF ix, of i] by blast
    then show ?thesis using None assms
      by (auto simp: inner_remove_def queue_ok_def set_queue_line Let_def image_iff)
  next
    case (Some k)
    then obtain x where x: "(k, x) \<in> set (in_queue inner)" "qr_run_id x = i" using indexedD(3)[OF ix] by blast
    note rm = indexed_remove[OF ix x(1)]
    have "map_of (in_queue inner) k = Some x"
      using x(1) indexedD(1)[OF ix] by (intro map_of_is_SomeI) (auto simp: bt_sorted_def strict_sorted_iff)
    moreover have "q \<in> snd ` set (in_queue inner) \<and> qr_run_id q = i \<longleftrightarrow> x = q"
      using indexed_unique(2)[OF ix x(1)] x by force
    ultimately show ?thesis using Some x rm
      by (simp add: inner_remove_def queue_ok_def set_queue_line Let_def)
  qed
  then show "queue_ok (snd (inner_remove i inner))"
    "set (queue_line (snd (inner_remove i inner))) = {q \<in> set (queue_line inner). qr_run_id q \<noteq> i}"
    "fst (inner_remove i inner) = Some q \<longleftrightarrow> q \<in> set (queue_line inner) \<and> qr_run_id q = i" by blast+
qed

interpretation wq: waiting_line queue_line queue_ok inner_push inner_remove qr_run_id qkey
proof unfold_locales
  show "sorted_wrt (\<lambda>a b. qkey a < qkey b) (queue_line s)" if "queue_ok s" for s
    using indexed_line[OF that[unfolded queue_ok_def]] by (simp add: queue_line_def)
  show "a = b" if "queue_ok s" "a \<in> set (queue_line s)" "b \<in> set (queue_line s)" "qr_run_id a = qr_run_id b" for s a b
    using indexed_unique(2)[OF that(1)[unfolded queue_ok_def]] that(2-4) by (force simp: set_queue_line)
qed (simp_all only: inner_push_facts inner_remove_facts)

end
