(* ===== verification/Supervisor.thy ===== *)
theory Supervisor
  imports Supervisor_State
begin

text \<open>
  The operations of the supervisor (\<^verbatim>\<open>crates/server/src/supervisor.rs\<close>) on its state: the
  pool's size, workers, the queue, handing a run to an engine and taking it back, and the
  plan that sizes the pool to the queue. Each operation holds the lock of the state it
  touches; \<open>inst\<close> is what \<^verbatim>\<open>Instant::now()\<close>
  returns in it, in microseconds, and \<open>now\<close> the wall clock. Waking
  the tasks that wait for a change is not part of the state. Processes are started and
  checked by the operating system: what those calls answer is a parameter.
\<close>

record Supervisor =
  sv_inner :: Inner
  sv_resources :: Resources
  sv_max_engines :: nat
  sv_cpu_cap :: nat
  sv_engine_max_runs :: nat

datatype WorkDecision = WorkRun int | WorkJob json | WorkExit | WorkWait

definition on_inner :: "(Inner \<Rightarrow> Inner) \<Rightarrow> Supervisor \<Rightarrow> Supervisor" where
  "on_inner f s = s\<lparr> sv_inner := f (sv_inner s) \<rparr>"

definition map_engines :: "(Engine \<Rightarrow> Engine) \<Rightarrow> Inner \<Rightarrow> Inner" where
  "map_engines f inner = inner\<lparr> in_engines := map (\<lambda>(i, e). (i, f e)) (in_engines inner) \<rparr>"

definition retain_engines :: "(Engine \<Rightarrow> bool) \<Rightarrow> Inner \<Rightarrow> Inner" where
  "retain_engines P inner = inner\<lparr> in_engines := filter (\<lambda>(_, e). P e) (in_engines inner) \<rparr>"

definition put_engine :: "Engine \<Rightarrow> Inner \<Rightarrow> Inner" where
  "put_engine e inner = inner\<lparr> in_engines := AList.update (en_id e) e (in_engines inner) \<rparr>"

definition drop_engine :: "string \<Rightarrow> Inner \<Rightarrow> Inner" where
  "drop_engine i inner = inner\<lparr> in_engines := AList.delete i (in_engines inner) \<rparr>"

definition on_worker :: "int \<Rightarrow> (WorkerSlot \<Rightarrow> WorkerSlot) \<Rightarrow> Inner \<Rightarrow> Inner" where
  "on_worker w f inner =
     (case map_of (in_workers inner) w of
        Some slot \<Rightarrow> inner\<lparr> in_workers := AList.update w (f slot) (in_workers inner) \<rparr>
      | None \<Rightarrow> inner)"

definition clamp :: "nat \<Rightarrow> nat \<Rightarrow> nat \<Rightarrow> nat" where
  "clamp n lo hi = (if n < lo then lo else if hi < n then hi else n)"

section \<open>The size of the pool\<close>

definition Supervisor_new :: "(string \<times> f64) list \<Rightarrow> nat \<Rightarrow> nat \<Rightarrow> nat \<Rightarrow> Supervisor" where
  "Supervisor_new resources max_engines cpu_count engine_max_runs =
     \<lparr> sv_inner = Inner_default, sv_resources = set_totals resources Resources_default,
       sv_max_engines = clamp max_engines 1 cpu_count, sv_cpu_cap = cpu_count,
       sv_engine_max_runs = max engine_max_runs 1 \<rparr>"

definition live_local :: "Engine \<Rightarrow> bool" where
  "live_local e \<longleftrightarrow> en_location e = Local \<and> \<not> en_exit_requested e"

definition undoable :: "Engine \<Rightarrow> bool" where
  "undoable e \<longleftrightarrow> en_location e = Local \<and> en_drained_at e \<noteq> None \<and> en_current_run e \<noteq> None"

text \<open>\<^verbatim>\<open>max_by_key\<close>: the last of the greatest.\<close>

fun max_by_key :: "('a \<Rightarrow> 'k::linorder) \<Rightarrow> 'a list \<Rightarrow> 'a option" where
  "max_by_key f [] = None"
| "max_by_key f (x # xs) = (case max_by_key f xs of
     None \<Rightarrow> Some x | Some y \<Rightarrow> if f y < f x then Some x else Some y)"

text \<open>Every round clears one drain, so as many rounds as engines are enough.\<close>

fun undo_drains :: "nat \<Rightarrow> nat \<Rightarrow> nat \<Rightarrow> Inner \<Rightarrow> Inner" where
  "undo_drains 0 live n inner = inner"
| "undo_drains (Suc fuel) live n inner =
     (if live < n then
        (case max_by_key (\<lambda>e. the (en_drained_at e)) (filter undoable (engines_of inner)) of
           Some e \<Rightarrow> undo_drains fuel (live + 1) n
             (map_engines (\<lambda>x. if en_id x = en_id e then x\<lparr> en_drained_at := None, en_exit_requested := False \<rparr> else x) inner)
         | None \<Rightarrow> inner)
      else inner)"

definition drain_order :: "Engine list \<Rightarrow> Engine list" where
  "drain_order es =
     sort_key (\<lambda>e. (en_current_run e \<noteq> None, - (case en_run_since e of Some t \<Rightarrow> t | None \<Rightarrow> en_spawned_at e))) es"

definition shrink_pool :: "int \<Rightarrow> nat \<Rightarrow> Inner \<Rightarrow> Inner" where
  "shrink_pool inst n inner =
     (let live = filter live_local (engines_of inner) in
      if n < length live then
        let ids = map en_id (take (length live - n) (drain_order live)) in
        map_engines (\<lambda>e. if en_id e \<in> set ids
          then e\<lparr> en_exit_requested := True,
                  en_drained_at := (if en_current_run e \<noteq> None then Some inst else en_drained_at e) \<rparr>
          else e) inner
      else inner)"

definition set_max_engines :: "int \<Rightarrow> nat \<Rightarrow> Supervisor \<Rightarrow> Supervisor" where
  "set_max_engines inst n s =
     (let n = clamp n 1 (sv_cpu_cap s);
          inner = sv_inner s;
          live = length (filter live_local (engines_of inner))
      in s\<lparr> sv_max_engines := n,
            sv_inner := shrink_pool inst n (undo_drains (length (in_engines inner)) live n inner) \<rparr>)"

section \<open>Workers\<close>

definition sync_worker :: "int \<Rightarrow> int \<Rightarrow> string \<Rightarrow> nat \<Rightarrow> string \<Rightarrow> int list \<Rightarrow> Supervisor \<Rightarrow> Supervisor" where
  "sync_worker inst worker name processors st eligible =
     on_inner (\<lambda>inner.
       let slot = (case map_of (in_workers inner) worker of
             Some slot \<Rightarrow> slot
           | None \<Rightarrow> \<lparr> ws_name = name, ws_processors = processors, ws_state = st, ws_eligible = [],
                       ws_last_seen = inst, ws_commands = [], ws_broken = [], ws_next_engine = 0 \<rparr>)
       in inner\<lparr> in_workers := AList.update worker
            (slot\<lparr> ws_name := name, ws_processors := max processors 1, ws_state := st, ws_eligible := eligible,
                   ws_last_seen := inst \<rparr>) (in_workers inner) \<rparr>)"

definition worker_heartbeat :: "int \<Rightarrow> int \<Rightarrow> string list \<Rightarrow> Supervisor \<Rightarrow> json list option \<times> Supervisor" where
  "worker_heartbeat inst worker engines s =
     (case map_of (in_workers (sv_inner s)) worker of
        None \<Rightarrow> (None, s)
      | Some slot \<Rightarrow>
          (Some (ws_commands slot),
           on_inner (\<lambda>inner.
             retain_engines (\<lambda>e. \<not> (en_location e = Worker worker \<and> en_current_run e = None \<and> en_id e \<notin> set engines
                 \<and> (en_polled e \<or> 15 * MICROS_PER_SECOND < inst - en_spawned_at e)))
               (on_worker worker (\<lambda>slot. slot\<lparr> ws_last_seen := inst,
                   ws_state := (if ws_state slot = ''offline'' then ''online'' else ws_state slot), ws_commands := [] \<rparr>) inner)) s))"

definition json_field :: "string \<Rightarrow> json \<Rightarrow> json" where
  "json_field k v = (case v of JObj m \<Rightarrow> (case map_of m k of Some x \<Rightarrow> x | None \<Rightarrow> JNull) | _ \<Rightarrow> JNull)"

definition set_worker_state :: "int \<Rightarrow> string \<Rightarrow> Supervisor \<Rightarrow> Supervisor" where
  "set_worker_state worker st =
     on_inner (\<lambda>inner.
       if map_of (in_workers inner) worker = None then inner
       else let inner = on_worker worker (\<lambda>slot. slot\<lparr> ws_state := st \<rparr>) inner in
         if st = ''online'' then inner
         else map_engines (\<lambda>e. if en_location e = Worker worker \<and> en_current_run e = None
                  then e\<lparr> en_exit_requested := True \<rparr> else e)
                (retain_engines (\<lambda>e. en_location e \<noteq> Worker worker \<or> en_polled e \<or> en_current_run e \<noteq> None)
                  (on_worker worker (\<lambda>slot. slot\<lparr> ws_commands :=
                      filter (\<lambda>c. json_field ''cmd'' c \<noteq> JStr ''spawn'') (ws_commands slot) \<rparr>) inner)))"

definition set_worker_processors :: "int \<Rightarrow> nat \<Rightarrow> Supervisor \<Rightarrow> Supervisor" where
  "set_worker_processors worker n = on_inner (on_worker worker (\<lambda>slot. slot\<lparr> ws_processors := max n 1 \<rparr>))"

definition forget_worker :: "int \<Rightarrow> Supervisor \<Rightarrow> Supervisor" where
  "forget_worker worker =
     on_inner (\<lambda>inner. retain_engines (\<lambda>e. en_location e \<noteq> Worker worker)
       (inner\<lparr> in_workers := AList.delete worker (in_workers inner) \<rparr>))"

definition mark_broken :: "int \<Rightarrow> string \<Rightarrow> Supervisor \<Rightarrow> Supervisor" where
  "mark_broken worker m = on_inner (on_worker worker (\<lambda>slot. slot\<lparr> ws_broken := List.insert m (ws_broken slot) \<rparr>))"

definition clear_broken :: "int \<Rightarrow> Supervisor \<Rightarrow> Supervisor" where
  "clear_broken worker = on_inner (on_worker worker (\<lambda>slot. slot\<lparr> ws_broken := [] \<rparr>))"

definition command_worker :: "int \<Rightarrow> json \<Rightarrow> Supervisor \<Rightarrow> Supervisor" where
  "command_worker worker command =
     on_inner (on_worker worker (\<lambda>slot. slot\<lparr> ws_commands := ws_commands slot @ [command] \<rparr>))"

definition take_offline :: "int \<Rightarrow> Inner \<Rightarrow> Inner" where
  "take_offline worker inner =
     retain_engines (\<lambda>e. en_location e \<noteq> Worker worker \<or> en_current_run e \<noteq> None)
       (on_worker worker (\<lambda>slot. slot\<lparr> ws_state := ''offline'', ws_commands := [] \<rparr>) inner)"

definition mark_quiet_workers :: "int \<Rightarrow> int \<Rightarrow> Supervisor \<Rightarrow> int list \<times> Supervisor" where
  "mark_quiet_workers inst timeout s =
     (let quiet = map fst (filter (\<lambda>(_, w). ws_state w \<noteq> ''offline'' \<and> timeout < inst - ws_last_seen w) (in_workers (sv_inner s)))
      in (quiet, on_inner (fold take_offline quiet) s))"

definition worker_left :: "int \<Rightarrow> Supervisor \<Rightarrow> Supervisor" where
  "worker_left worker = on_inner (take_offline worker)"

definition run_worker :: "int \<Rightarrow> Supervisor \<Rightarrow> int option" where
  "run_worker run s =
     Option.bind (List.find (\<lambda>e. en_current_run e = Some run \<and> en_location e \<noteq> Local) (engines_of (sv_inner s)))
       (\<lambda>e. case en_location e of Worker w \<Rightarrow> Some w | Local \<Rightarrow> None)"

definition run_placement :: "int \<Rightarrow> Supervisor \<Rightarrow> (Location \<times> nat) option" where
  "run_placement run s =
     map_option (\<lambda>e. (en_location e, en_slot e))
       (List.find (\<lambda>e. en_current_run e = Some run) (engines_of (sv_inner s)))"

definition worker_name :: "int \<Rightarrow> Supervisor \<Rightarrow> string option" where
  "worker_name worker s = map_option ws_name (map_of (in_workers (sv_inner s)) worker)"

definition worker_id :: "string \<Rightarrow> Supervisor \<Rightarrow> int option" where
  "worker_id name s = map_option fst (List.find (\<lambda>(_, w). ws_name w = name) (in_workers (sv_inner s)))"

section \<open>The queue\<close>

definition enqueue :: "QueuedRun \<Rightarrow> Supervisor \<Rightarrow> Supervisor" where
  "enqueue item = on_inner (inner_push item)"

definition enqueue_many :: "QueuedRun list \<Rightarrow> Supervisor \<Rightarrow> Supervisor" where
  "enqueue_many items = on_inner (fold inner_push items)"

definition enqueue_simple :: "int \<Rightarrow> int \<Rightarrow> int \<Rightarrow> bool \<Rightarrow> EngineKey \<Rightarrow> Supervisor \<Rightarrow> Supervisor" where
  "enqueue_simple now run flow remote_ok key =
     enqueue \<lparr> qr_run_id = run, qr_key = key, qr_priority = 0, qr_order = now, qr_needs = [], qr_not_before = None,
               qr_flow_id = flow, qr_remote_ok = remote_ok, qr_prefer_worker = None, qr_prefer_until = 0 \<rparr>"

definition enqueue_job :: "EngineKey \<Rightarrow> json \<Rightarrow> Supervisor \<Rightarrow> Supervisor" where
  "enqueue_job key payload =
     on_inner (\<lambda>inner. inner\<lparr> in_jobs := in_jobs inner @ [\<lparr> qj_key = key, qj_payload = payload \<rparr>] \<rparr>)"

definition dequeue :: "int \<Rightarrow> Supervisor \<Rightarrow> bool \<times> Supervisor" where
  "dequeue run s =
     (let inner = (sv_inner s)\<lparr> in_waiting_marked := AList.delete run (in_waiting_marked (sv_inner s)) \<rparr>;
          (found, inner) = inner_remove run inner
      in (found \<noteq> None, s\<lparr> sv_inner := inner \<rparr>))"

definition dequeue_many :: "int list \<Rightarrow> Supervisor \<Rightarrow> Supervisor" where
  "dequeue_many runs =
     on_inner (fold (\<lambda>run inner. (snd (inner_remove run inner))
       \<lparr> in_waiting_marked := AList.delete run (in_waiting_marked inner) \<rparr>) (remdups runs))"

definition queued :: "int \<Rightarrow> Supervisor \<Rightarrow> bool" where
  "queued run s \<longleftrightarrow> map_of (in_positions (sv_inner s)) run \<noteq> None"

definition queue_len :: "Supervisor \<Rightarrow> nat" where
  "queue_len s = length (in_queue (sv_inner s))"

definition record_failure :: "int \<Rightarrow> int \<Rightarrow> int \<Rightarrow> Supervisor \<Rightarrow> nat \<times> Supervisor" where
  "record_failure flow now window s =
     (let old = (case map_of (in_failures (sv_inner s)) flow of Some ts \<Rightarrow> ts | None \<Rightarrow> []);
          ts = filter (\<lambda>t. i64_sub now t \<le> window) (old @ [now])
      in (length ts, on_inner (\<lambda>inner. inner\<lparr> in_failures := AList.update flow ts (in_failures inner) \<rparr>) s))"

definition clear_failures :: "int \<Rightarrow> Supervisor \<Rightarrow> Supervisor" where
  "clear_failures flow = on_inner (\<lambda>inner. inner\<lparr> in_failures := AList.delete flow (in_failures inner) \<rparr>)"

definition forget_engine :: "string \<Rightarrow> Supervisor \<Rightarrow> Supervisor" where
  "forget_engine i = on_inner (drop_engine i)"

definition forget_pid :: "nat \<Rightarrow> Supervisor \<Rightarrow> Supervisor" where
  "forget_pid pid = on_inner (retain_engines (\<lambda>e. en_pid e \<noteq> Some pid))"

definition waiting_reason :: "bool \<Rightarrow> EngineKey list \<Rightarrow> Resources \<Rightarrow> QueuedRun \<Rightarrow> string option" where
  "waiting_reason engines_full idle_keys resources q =
     (case can_acquire resources (qr_needs q) of
        Some name \<Rightarrow> Some name
      | None \<Rightarrow> if engines_full \<and> qr_key q \<notin> set idle_keys then Some ''no engine slot'' else None)"

definition take_waiting_marks :: "int \<Rightarrow> Supervisor \<Rightarrow> (int \<times> string) list \<times> Supervisor" where
  "take_waiting_marks now s =
     (let inner = sv_inner s;
          engines_full = (sv_max_engines s \<le> occupying inner
            \<and> (\<forall>e \<in> set (engines_of inner). en_current_run e \<noteq> None \<or> en_exit_requested e));
          marks = List.map_filter (\<lambda>q.
            if not_due q now then None
            else case waiting_reason engines_full (idle_engine_keys inner) (sv_resources s) q of
                Some reason \<Rightarrow> if map_of (in_waiting_marked inner) (qr_run_id q) = Some reason then None
                               else Some (qr_run_id q, reason)
              | None \<Rightarrow> None) (queue_line inner)
      in (marks, on_inner (\<lambda>inner. inner\<lparr> in_waiting_marked :=
            fold (\<lambda>(run, reason). AList.update run reason) marks (in_waiting_marked inner) \<rparr>) s))"

definition adopt :: "int \<Rightarrow> Run \<Rightarrow> EngineKey \<Rightarrow> Supervisor \<Rightarrow> Supervisor" where
  "adopt inst run key =
     on_inner (\<lambda>inner.
       let i = (case run_engine_id run of Some i \<Rightarrow> i
                | None \<Rightarrow> ''adopted-'' @ show_int (case run_engine_pid run of Some p \<Rightarrow> p | None \<Rightarrow> 0));
           e = Engine_new inst None i key (map_option (\<lambda>p. nat (p mod 2 ^ 32)) (run_engine_pid run)) False True;
           location = of_engine i
       in put_engine (e\<lparr> en_current_run := Some (run_id run), en_run_since := Some inst, en_polled := True,
            en_location := location,
            en_slot := (case run_processor run of Some p \<Rightarrow> nat (max p 1) | None \<Rightarrow> free_slot location inner) \<rparr>) inner)"

section \<open>Handing out work\<close>

text \<open>
  What both paths do with the run they chose: it leaves the line, the runs it passed that could
  not start count one more overtaking, its resources are leased, the engine holds it, and the
  item is kept until the hand-off is confirmed.
\<close>

definition hand_over :: "int \<Rightarrow> string \<Rightarrow> QKey \<Rightarrow> QueuedRun \<Rightarrow> int list \<Rightarrow> Supervisor \<Rightarrow> Supervisor" where
  "hand_over inst engine_id k item blocked s =
     (let run = qr_run_id item; inner = sv_inner s;
          overtaken = fold (\<lambda>i. entry_update i 0 (\<lambda>n. u32_add n 1)) blocked (AList.delete run (in_overtaken inner));
          engines = (case map_of (in_engines inner) engine_id of
              Some e \<Rightarrow> AList.update engine_id (e\<lparr> en_current_run := Some run, en_run_since := Some inst \<rparr>) (in_engines inner)
            | None \<Rightarrow> in_engines inner)
      in s\<lparr> sv_inner := inner\<lparr> in_queue := bt_remove k (in_queue inner),
              in_positions := AList.delete run (in_positions inner), in_overtaken := overtaken,
              in_waiting_marked := AList.delete run (in_waiting_marked inner), in_engines := engines,
              in_handoff := AList.update run item (in_handoff inner) \<rparr>,
            sv_resources := snd (acquire run (qr_needs item) (sv_resources s)) \<rparr>)"

text \<open>What a poll does to the engine that asks.\<close>

definition polled_engine :: "int \<Rightarrow> nat \<Rightarrow> Engine \<Rightarrow> Engine" where
  "polled_engine inst pid e =
     e\<lparr> en_last_seen := inst, en_pid := Some pid, en_polled := True, en_current_run := None,
        en_run_since := None, en_drained_at := None \<rparr>"

text \<open>The first run of the line a worker's engine may take, and those before it that lack a resource.\<close>

fun scan_remote ::
  "(QueuedRun \<Rightarrow> bool) \<Rightarrow> Resources \<Rightarrow> int list \<Rightarrow> (QKey \<times> QueuedRun) list \<Rightarrow> ((QKey \<times> QueuedRun) \<times> int list) option" where
  "scan_remote skip r blocked [] = None"
| "scan_remote skip r blocked ((k, q) # rest) =
     (if skip q then scan_remote skip r blocked rest
      else if can_acquire r (qr_needs q) \<noteq> None then scan_remote skip r (blocked @ [qr_run_id q]) rest
      else Some ((k, q), blocked))"

definition remote_skip :: "int \<Rightarrow> int \<Rightarrow> EngineKey \<Rightarrow> WorkerSlot \<Rightarrow> QueuedRun \<Rightarrow> bool" where
  "remote_skip now worker key slot q \<longleftrightarrow>
     not_due q now \<or> \<not> qr_remote_ok q \<or> qr_flow_id q \<notin> set (ws_eligible slot) \<or> \<not> same_code (qr_key q) key
     \<or> ek_module (qr_key q) \<in> set (ws_broken slot) \<or> reserved_elsewhere q (Worker worker) now"

definition take_remote_work ::
  "int \<Rightarrow> int \<Rightarrow> string \<Rightarrow> nat \<Rightarrow> EngineKey \<Rightarrow> int \<Rightarrow> Supervisor \<Rightarrow> WorkDecision \<times> Supervisor" where
  "take_remote_work inst now engine_id pid key worker s =
     (let inner = sv_inner s; occ = occupying_at (Worker worker) inner in
      case (map_of (in_workers inner) worker, map_of (in_engines inner) engine_id) of
        (Some slot, Some e) \<Rightarrow>
          (let e = polled_engine inst pid e;
               inner = inner\<lparr> in_engines := AList.update engine_id e (in_engines inner) \<rparr>;
               s = s\<lparr> sv_inner := inner \<rparr>
           in if en_exit_requested e \<or> sv_engine_max_runs s \<le> en_runs_done e \<or> ws_state slot \<noteq> ''online''
                 \<or> (ws_processors slot < occ \<and> en_adopted e)
              then (WorkExit, on_inner (drop_engine engine_id) s)
              else case scan_remote (remote_skip now worker key slot) (sv_resources s) [] (in_queue inner) of
                None \<Rightarrow> (WorkWait, s)
              | Some ((k, q), blocked) \<Rightarrow> (WorkRun (qr_run_id q), hand_over inst engine_id k q blocked s))
      | _ \<Rightarrow> (WorkWait, s))"

datatype scan = Take QKey QueuedRun "int list" | GiveUp | Nothing

text \<open>
  The walk down the line for one of the server's own engines. A run of another module that can
  start is left to an idle engine of that module, or to the one engine there is room for; when
  neither exists the asking engine gives up its slot.
\<close>

fun scan_local ::
  "int \<Rightarrow> Inner \<Rightarrow> Resources \<Rightarrow> string \<Rightarrow> EngineKey \<Rightarrow> bool \<Rightarrow> EngineKey list \<Rightarrow> int list \<Rightarrow> (QKey \<times> QueuedRun) list \<Rightarrow> scan" where
  "scan_local now inner r engine_id key room served blocked [] = Nothing"
| "scan_local now inner r engine_id key room served blocked ((k, q) # rest) =
     (if not_due q now \<or> reserved_elsewhere q Local now then scan_local now inner r engine_id key room served blocked rest
      else if can_acquire r (qr_needs q) \<noteq> None
        then scan_local now inner r engine_id key room served (blocked @ [qr_run_id q]) rest
      else if qr_key q = key then Take k q blocked
      else if qr_key q \<in> set served then scan_local now inner r engine_id key room served blocked rest
      else if has_idle_other inner (idle_engine_keys inner) (qr_key q) engine_id
        then scan_local now inner r engine_id key room (qr_key q # served) blocked rest
      else if room then scan_local now inner r engine_id key False (qr_key q # served) blocked rest
      else GiveUp)"

definition ensure_tracked :: "int \<Rightarrow> string \<Rightarrow> nat \<Rightarrow> EngineKey \<Rightarrow> int option \<Rightarrow> Inner \<Rightarrow> Inner" where
  "ensure_tracked inst engine_id pid key mtime inner =
     (if map_of (in_engines inner) engine_id \<noteq> None then inner
      else let location = of_engine engine_id in
        put_engine ((Engine_new inst mtime engine_id key (Some pid) False True)
          \<lparr> en_location := location, en_slot := free_slot location inner \<rparr>) inner)"

fun take_job :: "EngineKey \<Rightarrow> QueuedJob list \<Rightarrow> (json \<times> QueuedJob list) option" where
  "take_job key [] = None"
| "take_job key (j # js) =
     (if qj_key j = key then Some (qj_payload j, js)
      else map_option (\<lambda>(p, rest). (p, j # rest)) (take_job key js))"

text \<open>
  \<open>mtime\<close> is the cached modification time of the module and \<open>disk_mtime\<close> what the constructor of an
  engine record reads.
\<close>

definition take_work ::
  "int \<Rightarrow> int \<Rightarrow> int option \<Rightarrow> int option \<Rightarrow> string \<Rightarrow> nat \<Rightarrow> EngineKey \<Rightarrow> Supervisor \<Rightarrow> WorkDecision \<times> Supervisor" where
  "take_work inst now mtime disk_mtime engine_id pid key s =
     (let s = on_inner (ensure_tracked inst engine_id pid key disk_mtime) s in
      case of_engine engine_id of
        Worker worker \<Rightarrow> take_remote_work inst now engine_id pid key worker s
      | Local \<Rightarrow>
          (let over = (sv_max_engines s < occupying (sv_inner s)) in
           case map_of (in_engines (sv_inner s)) engine_id of
             None \<Rightarrow> (WorkWait, s)
           | Some e \<Rightarrow>
              (let e = polled_engine inst pid e;
                   inner = (sv_inner s)\<lparr> in_engines := AList.update engine_id e (in_engines (sv_inner s)) \<rparr>;
                   s = s\<lparr> sv_inner := inner \<rparr>;
                   stale = (case (en_module_mtime e, mtime) of (Some a, Some b) \<Rightarrow> a \<noteq> b | _ \<Rightarrow> False)
               in if en_exit_requested e \<or> sv_engine_max_runs s \<le> en_runs_done e \<or> stale \<or> (over \<and> en_adopted e)
                  then (WorkExit, on_inner (drop_engine engine_id) s)
                  else case take_job key (in_jobs inner) of
                    Some (payload, jobs) \<Rightarrow> (WorkJob payload, s\<lparr> sv_inner := inner\<lparr> in_jobs := jobs \<rparr> \<rparr>)
                  | None \<Rightarrow>
                     (case scan_local now inner (sv_resources s) engine_id key
                              (occupying inner < sv_max_engines s) [] [] (in_queue inner) of
                        Take k q blocked \<Rightarrow> (WorkRun (qr_run_id q), hand_over inst engine_id k q blocked s)
                      | GiveUp \<Rightarrow> (WorkExit, on_inner (drop_engine engine_id) s)
                      | Nothing \<Rightarrow> (WorkWait, s)))))"

definition handoff_done :: "int \<Rightarrow> Supervisor \<Rightarrow> Supervisor" where
  "handoff_done run = on_inner (\<lambda>inner. inner\<lparr> in_handoff := AList.delete run (in_handoff inner) \<rparr>)"

definition abort_handoff :: "int \<Rightarrow> Supervisor \<Rightarrow> bool \<times> Supervisor" where
  "abort_handoff run s =
     (case map_of (in_handoff (sv_inner s)) run of
        None \<Rightarrow> (False, s)
      | Some item \<Rightarrow>
          (let inner = (sv_inner s)\<lparr> in_handoff := AList.delete run (in_handoff (sv_inner s)) \<rparr>;
               inner = map_engines (\<lambda>e. if en_current_run e = Some run
                 then e\<lparr> en_current_run := None, en_run_since := None \<rparr> else e) inner
           in (True, s\<lparr> sv_inner := inner_push item inner, sv_resources := release_all run (sv_resources s) \<rparr>)))"

definition finish_run :: "int \<Rightarrow> Engine \<Rightarrow> Engine" where
  "finish_run run e =
     (if en_current_run e = Some run
      then e\<lparr> en_current_run := None, en_runs_done := u32_add (en_runs_done e) 1,
              en_exit_requested := (en_exit_requested e \<or> ek_isolated (en_key e)) \<rparr>
      else e)"

definition run_finished :: "int \<Rightarrow> Supervisor \<Rightarrow> Supervisor" where
  "run_finished run s =
     (let inner = (sv_inner s)\<lparr> in_handoff := AList.delete run (in_handoff (sv_inner s)) \<rparr>;
          inner = snd (inner_remove run (map_engines (finish_run run) inner))
      in s\<lparr> sv_inner := inner\<lparr> in_waiting_marked := AList.delete run (in_waiting_marked inner) \<rparr>,
            sv_resources := release_all run (sv_resources s) \<rparr>)"

definition engine_for_run :: "int \<Rightarrow> Supervisor \<Rightarrow> (string \<times> nat option) option" where
  "engine_for_run run s =
     map_option (\<lambda>e. (en_id e, en_pid e)) (List.find (\<lambda>e. en_current_run e = Some run) (engines_of (sv_inner s)))"

definition take_queued_for_key :: "EngineKey \<Rightarrow> string \<Rightarrow> Supervisor \<Rightarrow> int list \<times> Supervisor" where
  "take_queued_for_key key engine_id s =
     (let out = map qr_run_id (filter (\<lambda>q. qr_key q = key) (queue_line (sv_inner s)))
      in (out, on_inner (\<lambda>inner. drop_engine engine_id (fold (\<lambda>i inner. snd (inner_remove i inner)) out inner)) s))"

section \<open>What the Queue page shows\<close>

record LineEntry =
  le_run_id :: int
  le_module :: string
  le_priority :: int
  le_position :: nat
  le_order :: int
  le_can_start :: bool
  le_reason :: "string option"
  le_overtaken_by :: nat

definition line_reason :: "bool \<Rightarrow> bool \<Rightarrow> int list \<Rightarrow> Resources \<Rightarrow> QueuedRun \<Rightarrow> string option" where
  "line_reason engine_free has_workers eligible_flows r q =
     (case can_acquire r (qr_needs q) of
        Some name \<Rightarrow>
          if starts_with name ''flow:'' then Some ''max_concurrent''
          else if starts_with name ''backfill:'' then Some ''backfill concurrency''
          else Some (''resource:'' @ name)
      | None \<Rightarrow>
          if \<not> engine_free \<and> qr_remote_ok q \<and> has_workers \<and> qr_flow_id q \<notin> set eligible_flows
          then Some ''no processor with matching code''
          else if \<not> engine_free then Some ''no processor''
          else None)"

fun line_entries :: "(QueuedRun \<Rightarrow> string option) \<Rightarrow> (int \<times> nat) list \<Rightarrow> nat \<Rightarrow> nat \<Rightarrow> nat \<Rightarrow> QueuedRun list \<Rightarrow> LineEntry list \<times> nat" where
  "line_entries reason overtaken limit shown position [] = ([], position)"
| "line_entries reason overtaken limit shown position (q # qs) =
     (if limit \<le> shown then line_entries reason overtaken limit shown (position + 1) qs
      else let (entries, n) = line_entries reason overtaken limit (shown + 1) (position + 1) qs in
        (\<lparr> le_run_id = qr_run_id q, le_module = ek_module (qr_key q), le_priority = qr_priority q, le_position = position + 1,
           le_order = qr_order q, le_can_start = (reason q = None), le_reason = reason q,
           le_overtaken_by = (case map_of overtaken (qr_run_id q) of Some n \<Rightarrow> n | None \<Rightarrow> 0) \<rparr> # entries, n))"

definition queue_line_snapshot :: "int \<Rightarrow> nat \<Rightarrow> Supervisor \<Rightarrow> LineEntry list \<times> nat" where
  "queue_line_snapshot now limit s =
     (let inner = sv_inner s; room = (occupying inner < sv_max_engines s); idle_keys = idle_engine_keys inner;
          reason = (\<lambda>q. line_reason (room \<or> qr_key q \<in> set idle_keys) (in_workers inner \<noteq> []) (worker_eligible_flows inner)
                          (sv_resources s) q)
      in line_entries reason (in_overtaken inner) limit 0 0 (filter (\<lambda>q. \<not> not_due q now) (queue_line inner)))"

definition joining :: "int \<Rightarrow> int \<Rightarrow> nat \<Rightarrow> Supervisor \<Rightarrow> (int \<times> int) list" where
  "joining now until limit s =
     take limit (sort_key (\<lambda>(i, t). (t, i)) (List.map_filter (\<lambda>q. case qr_not_before q of
         Some t \<Rightarrow> if now < t \<and> t \<le> until then Some (qr_run_id q, t) else None
       | None \<Rightarrow> None) (queue_line (sv_inner s))))"

definition engines_busy_count :: "Supervisor \<Rightarrow> nat" where
  "engines_busy_count s = length (filter (\<lambda>e. en_current_run e \<noteq> None) (engines_of (sv_inner s)))"

definition idle_engine_pids :: "Supervisor \<Rightarrow> nat list" where
  "idle_engine_pids s = List.map_filter en_pid (filter (\<lambda>e. en_current_run e = None) (engines_of (sv_inner s)))"

definition REMOTE_START_TIMEOUT :: int where
  "REMOTE_START_TIMEOUT = 60 * MICROS_PER_SECOND"

definition REMOTE_IDLE_TIMEOUT :: int where
  "REMOTE_IDLE_TIMEOUT = 90 * MICROS_PER_SECOND"

text \<open>\<open>exited\<close> is what the operating system says of an engine's process.\<close>

definition engine_dead :: "int \<Rightarrow> (Engine \<Rightarrow> bool) \<Rightarrow> Engine \<Rightarrow> bool" where
  "engine_dead inst exited e =
     (if en_location e \<noteq> Local then
        (if en_polled e then en_current_run e = None \<and> REMOTE_IDLE_TIMEOUT < inst - en_last_seen e
         else REMOTE_START_TIMEOUT < inst - en_spawned_at e)
      else if en_child e then exited e
      else case en_pid e of Some _ \<Rightarrow> exited e | None \<Rightarrow> True)"

definition sweep :: "int \<Rightarrow> (Engine \<Rightarrow> bool) \<Rightarrow> Supervisor \<Rightarrow> (int \<times> string) list \<times> Supervisor" where
  "sweep inst exited s =
     (let dead = filter (engine_dead inst exited) (engines_of (sv_inner s))
      in (List.map_filter (\<lambda>e. map_option (\<lambda>run. (run, en_id e)) (en_current_run e)) dead,
          on_inner (fold (drop_engine \<circ> en_id) dead) s))"

section \<open>Sizing the pool to the queue\<close>

type_synonym demand = "(EngineKey \<times> nat \<times> int list) list"

definition add_demand :: "EngineKey \<Rightarrow> int list \<Rightarrow> demand \<Rightarrow> demand" where
  "add_demand key flows = entry_update key (0, []) (\<lambda>(n, fs). (n + 1, fs @ flows))"

definition PREWARM_SECS :: int where
  "PREWARM_SECS = 5"

text \<open>The first critical section: the runs that could start soon, by the engine they need.\<close>

definition demand_of :: "int \<Rightarrow> Supervisor \<Rightarrow> demand \<times> (EngineKey \<times> int) list" where
  "demand_of now s =
     (let horizon = i64_add now (PREWARM_SECS * 1000000) in
      fold (\<lambda>q (d, preferred).
        if not_due q horizon then (d, preferred)
        else if can_acquire (sv_resources s) (qr_needs q) \<noteq> None then (d, preferred)
        else case (qr_prefer_worker q, now < qr_prefer_until q) of
            (Some w, True) \<Rightarrow> (d, preferred @ [(qr_key q, w)])
          | _ \<Rightarrow> (add_demand (qr_key q) (if qr_remote_ok q then [qr_flow_id q] else []) d, preferred))
        (queue_line (sv_inner s)) ([], []))"

definition evictable :: "EngineKey \<Rightarrow> Engine \<Rightarrow> bool" where
  "evictable key e \<longleftrightarrow> en_location e = Local \<and> en_key e \<noteq> key \<and> en_current_run e = None \<and> \<not> en_exit_requested e"

fun request_engines :: "nat \<Rightarrow> nat \<Rightarrow> EngineKey \<Rightarrow> nat \<Rightarrow> Inner \<Rightarrow> (string \<times> EngineKey) list \<times> nat \<times> Inner" where
  "request_engines process_id max_engines key 0 inner = ([], 0, inner)"
| "request_engines process_id max_engines key (Suc n) inner =
     (if max_engines \<le> occupying inner then
        (case List.find (evictable key) (engines_of inner) of
           Some v \<Rightarrow> ([], Suc n, put_engine (v\<lparr> en_exit_requested := True \<rparr>) inner)
         | None \<Rightarrow> ([], Suc n, inner))
      else let (request, inner) = request_spawn process_id key inner;
               (requests, left, inner) = request_engines process_id max_engines key n inner
           in (request # requests, left, inner))"

text \<open>The second critical section: engines to start here, and what spills over to workers.\<close>

definition plan_key ::
  "nat \<Rightarrow> nat \<Rightarrow> EngineKey \<times> nat \<times> int list \<Rightarrow> (string \<times> EngineKey) list \<times> (EngineKey \<times> nat \<times> int list) list \<times> Inner
     \<Rightarrow> (string \<times> EngineKey) list \<times> (EngineKey \<times> nat \<times> int list) list \<times> Inner" where
  "plan_key process_id max_engines entry acc =
     (case (entry, acc) of ((key, pending, flows), (requests, spill, inner)) \<Rightarrow>
        let (more, left, inner) = request_engines process_id max_engines key (pending - usable_local key inner) inner
        in (requests @ more, if 0 < left \<and> flows \<noteq> [] then spill @ [(key, left, flows)] else spill, inner))"

definition capacity_plan :: "nat \<Rightarrow> nat \<Rightarrow> demand \<Rightarrow> Inner \<Rightarrow> (string \<times> EngineKey) list \<times> (EngineKey \<times> nat \<times> int list) list \<times> Inner" where
  "capacity_plan process_id max_engines d inner = fold (plan_key process_id max_engines) d ([], [], inner)"

definition add_jobs :: "Inner \<Rightarrow> demand \<Rightarrow> demand" where
  "add_jobs inner d = fold (\<lambda>j. add_demand (qj_key j) []) (in_jobs inner) d"

definition register_engines :: "int \<Rightarrow> (EngineKey \<Rightarrow> int option) \<Rightarrow> (string \<times> EngineKey \<times> nat) list \<Rightarrow> Inner \<Rightarrow> Inner" where
  "register_engines inst mtime spawned inner =
     fold (\<lambda>(i, key, pid) inner. put_engine
       ((Engine_new inst (mtime key) i key (Some pid) True False)\<lparr> en_slot := free_slot Local inner \<rparr>) inner) spawned inner"

definition spawn_command :: "string \<Rightarrow> EngineKey \<Rightarrow> json" where
  "spawn_command engine_id key =
     JObj [(''cmd'', JStr ''spawn''), (''engine_id'', JStr engine_id), (''isolated'', JBool (ek_isolated key)),
           (''module'', JStr (ek_module key)), (''nice'', JNum (PosInt (ek_nice key)))]"

text \<open>Ask a worker for one engine: a command for its next heartbeat and a record with a slot.\<close>

definition start_on :: "int \<Rightarrow> EngineKey \<Rightarrow> int \<Rightarrow> WorkerSlot \<Rightarrow> Inner \<Rightarrow> Inner" where
  "start_on inst key worker slot inner =
     (let location = Worker worker; n = ws_next_engine slot + 1;
          engine_id = ''w'' @ show_int worker @ ''-'' @ show_nat n;
          e = (Engine_new inst None engine_id key None False False)\<lparr> en_location := location, en_slot := free_slot location inner \<rparr>
      in put_engine e (inner\<lparr> in_workers := AList.update worker
           (slot\<lparr> ws_next_engine := n, ws_commands := ws_commands slot @ [spawn_command engine_id key] \<rparr>) (in_workers inner) \<rparr>))"

definition spawn_on :: "int \<Rightarrow> EngineKey \<Rightarrow> int \<Rightarrow> Inner \<Rightarrow> Inner" where
  "spawn_on inst key worker inner =
     (let ready = (\<exists>e \<in> set (engines_of inner). en_location e = Worker worker \<and> same_code (en_key e) key
              \<and> en_current_run e = None \<and> \<not> en_exit_requested e)
      in case map_of (in_workers inner) worker of
           None \<Rightarrow> inner
         | Some slot \<Rightarrow>
             if ready \<or> ws_state slot \<noteq> ''online'' \<or> ek_module key \<in> set (ws_broken slot)
                \<or> ws_processors slot \<le> occupying_at (Worker worker) inner
             then inner else start_on inst key worker slot inner)"

definition eligible_for :: "EngineKey \<Rightarrow> int list \<Rightarrow> WorkerSlot \<Rightarrow> bool" where
  "eligible_for key flows slot \<longleftrightarrow> ws_state slot = ''online'' \<and> ek_module key \<notin> set (ws_broken slot)
     \<and> (\<exists>f \<in> set flows. f \<in> set (ws_eligible slot))"

definition spill_choice :: "EngineKey \<Rightarrow> int list \<Rightarrow> Inner \<Rightarrow> (int \<times> nat) option" where
  "spill_choice key flows inner =
     max_by_key (\<lambda>(i, free). (int free, - i))
       (filter (\<lambda>(_, free). 0 < free)
         (map (\<lambda>(i, slot). (i, ws_processors slot - occupying_at (Worker i) inner))
           (filter (\<lambda>(_, slot). eligible_for key flows slot) (in_workers inner))))"

fun spill :: "int \<Rightarrow> EngineKey \<Rightarrow> int list \<Rightarrow> nat \<Rightarrow> Inner \<Rightarrow> Inner" where
  "spill inst key flows 0 inner = inner"
| "spill inst key flows (Suc wanted) inner =
     (case spill_choice key flows inner of
        None \<Rightarrow> inner
      | Some (worker, _) \<Rightarrow>
          (case map_of (in_workers inner) worker of
             None \<Rightarrow> inner
           | Some slot \<Rightarrow> spill inst key flows wanted (start_on inst key worker slot inner)))"

definition idle_remote :: "EngineKey \<Rightarrow> int list \<Rightarrow> Inner \<Rightarrow> nat" where
  "idle_remote key flows inner =
     length (filter (\<lambda>e. (case en_location e of
           Worker w \<Rightarrow> (case map_of (in_workers inner) w of Some slot \<Rightarrow> eligible_for key flows slot | None \<Rightarrow> False)
         | Local \<Rightarrow> False)
         \<and> same_code (en_key e) key \<and> \<not> en_exit_requested e \<and> en_current_run e = None) (engines_of inner))"

definition spill_over :: "int \<Rightarrow> EngineKey \<Rightarrow> nat \<Rightarrow> int list \<Rightarrow> Inner \<Rightarrow> Inner" where
  "spill_over inst key wanted flows inner = spill inst key flows (wanted - idle_remote key flows inner) inner"

text \<open>The third critical section, once the processes of the plan have been started.\<close>

definition recheck :: "nat \<Rightarrow> nat \<Rightarrow> EngineKey \<times> nat \<times> int list \<Rightarrow> (string \<times> EngineKey) list \<times> Inner \<Rightarrow> (string \<times> EngineKey) list \<times> Inner" where
  "recheck process_id max_engines entry acc =
     (case (entry, acc) of ((key, pending, _), (requests, inner)) \<Rightarrow>
        if 0 < pending - usable_local key inner \<and> occupying inner < max_engines
        then let (request, inner) = request_spawn process_id key inner in (requests @ [request], inner)
        else (requests, inner))"

definition spawn_all :: "(string \<Rightarrow> EngineKey \<Rightarrow> nat option) \<Rightarrow> (string \<times> EngineKey) list \<Rightarrow> (string \<times> EngineKey \<times> nat) list" where
  "spawn_all spawn requests = List.map_filter (\<lambda>(i, key). map_option (\<lambda>pid. (i, key, pid)) (spawn i key)) requests"

definition ensure_capacity ::
  "int \<Rightarrow> int \<Rightarrow> nat \<Rightarrow> (EngineKey \<Rightarrow> int option) \<Rightarrow> (string \<Rightarrow> EngineKey \<Rightarrow> nat option) \<Rightarrow> Supervisor \<Rightarrow> Supervisor" where
  "ensure_capacity inst now process_id mtime spawn s =
     (let (d, preferred) = demand_of now s;
          d = add_jobs (sv_inner s) d;
          (requests, spills, inner) = capacity_plan process_id (sv_max_engines s) d (sv_inner s);
          inner = register_engines inst mtime (spawn_all spawn requests) (finish_starting (map snd requests) inner);
          inner = fold (\<lambda>(key, wanted, flows). spill_over inst key wanted flows) spills inner;
          inner = fold (\<lambda>(key, worker). spawn_on inst key worker) preferred inner;
          (again, inner) = fold (recheck process_id (sv_max_engines s)) d ([], inner);
          inner = (if again = [] then inner
                   else register_engines inst mtime (spawn_all spawn again) (finish_starting (map snd again) inner))
      in s\<lparr> sv_inner := inner \<rparr>)"

section \<open>Dispatch order\<close>

definition in_turn :: "int \<Rightarrow> Location \<Rightarrow> QueuedRun \<Rightarrow> bool" where
  "in_turn now location q \<longleftrightarrow> \<not> not_due q now \<and> \<not> reserved_elsewhere q location now"

lemma scan_local_Take:
  "scan_local now inner r eid key room served blocked Q = Take k q bl \<Longrightarrow>
     \<exists>pre post. Q = pre @ (k, q) # post \<and> qr_key q = key \<and> in_turn now Local q \<and> can_acquire r (qr_needs q) = None \<and>
       (\<forall>x \<in> snd ` set pre. in_turn now Local x \<and> qr_key x = key \<longrightarrow> can_acquire r (qr_needs x) \<noteq> None) \<and>
       bl = blocked @ map qr_run_id (filter (\<lambda>x. in_turn now Local x \<and> can_acquire r (qr_needs x) \<noteq> None) (map snd pre))"
proof (induction now inner r eid key room served blocked Q rule: scan_local.induct)
  case (2 now inner r eid key room served blocked k' x rest)
  let ?good = "\<lambda>blocked Q pre post. Q = pre @ (k, q) # post \<and> qr_key q = key \<and> in_turn now Local q \<and> can_acquire r (qr_needs q) = None \<and>
       (\<forall>x \<in> snd ` set pre. in_turn now Local x \<and> qr_key x = key \<longrightarrow> can_acquire r (qr_needs x) \<noteq> None) \<and>
       bl = blocked @ map qr_run_id (filter (\<lambda>x. in_turn now Local x \<and> can_acquire r (qr_needs x) \<noteq> None) (map snd pre))"
  have step: "\<exists>pre post. ?good blocked ((k', x) # rest) pre post"
    if "\<exists>pre post. ?good (blocked @ (if in_turn now Local x \<and> can_acquire r (qr_needs x) \<noteq> None then [qr_run_id x] else [])) rest pre post"
      "in_turn now Local x \<and> qr_key x = key \<longrightarrow> can_acquire r (qr_needs x) \<noteq> None"
  proof -
    from that(1) obtain pre post where
      "?good (blocked @ (if in_turn now Local x \<and> can_acquire r (qr_needs x) \<noteq> None then [qr_run_id x] else [])) rest pre post"
      by blast
    then have "?good blocked ((k', x) # rest) ((k', x) # pre) post" using that(2) by auto
    then show ?thesis by blast
  qed
  consider "\<not> in_turn now Local x" | "in_turn now Local x" "can_acquire r (qr_needs x) \<noteq> None"
    | "in_turn now Local x" "can_acquire r (qr_needs x) = None" "qr_key x = key"
    | "in_turn now Local x" "can_acquire r (qr_needs x) = None" "qr_key x \<noteq> key" by blast
  then show ?case
  proof cases
    case 1
    then show ?thesis using 2 by (intro step) (auto simp: in_turn_def)
  next
    case second: 2
    then show ?thesis using 2 by (intro step) (auto simp: in_turn_def)
  next
    case 3
    then have "k' = k \<and> x = q \<and> bl = blocked" using 2(6) by (simp add: in_turn_def)
    then have "?good blocked ((k', x) # rest) [] rest" using 3 by simp
    then show ?thesis by blast
  next
    case 4
    then have "\<exists>pre post. ?good blocked rest pre post"
      using 2 by (cases "qr_key x \<in> set served"; cases "has_idle_other inner (idle_engine_keys inner) (qr_key x) eid"; cases room)
        (simp_all add: in_turn_def)
    then show ?thesis using 4 by (intro step) auto
  qed
qed simp

lemma scan_remote_Some:
  "scan_remote skip r blocked Q = Some ((k, q), bl) \<Longrightarrow>
     \<exists>pre post. Q = pre @ (k, q) # post \<and> \<not> skip q \<and> can_acquire r (qr_needs q) = None \<and>
       (\<forall>x \<in> snd ` set pre. \<not> skip x \<longrightarrow> can_acquire r (qr_needs x) \<noteq> None) \<and>
       bl = blocked @ map qr_run_id (filter (\<lambda>x. \<not> skip x \<and> can_acquire r (qr_needs x) \<noteq> None) (map snd pre))"
proof (induction skip r blocked Q rule: scan_remote.induct)
  case (2 skip r blocked k' x rest)
  consider "skip x" | "\<not> skip x" "can_acquire r (qr_needs x) \<noteq> None" | "\<not> skip x" "can_acquire r (qr_needs x) = None" by blast
  then show ?case
  proof cases
    case 1
    then obtain pre post where "rest = pre @ (k, q) # post \<and> \<not> skip q \<and> can_acquire r (qr_needs q) = None \<and>
       (\<forall>x \<in> snd ` set pre. \<not> skip x \<longrightarrow> can_acquire r (qr_needs x) \<noteq> None) \<and>
       bl = blocked @ map qr_run_id (filter (\<lambda>x. \<not> skip x \<and> can_acquire r (qr_needs x) \<noteq> None) (map snd pre))"
      using 2 by auto
    then show ?thesis using 1 by (intro exI[of _ "(k', x) # pre"] exI[of _ post]) auto
  next
    case second: 2
    then obtain pre post where "rest = pre @ (k, q) # post \<and> \<not> skip q \<and> can_acquire r (qr_needs q) = None \<and>
       (\<forall>x \<in> snd ` set pre. \<not> skip x \<longrightarrow> can_acquire r (qr_needs x) \<noteq> None) \<and>
       bl = (blocked @ [qr_run_id x]) @ map qr_run_id (filter (\<lambda>x. \<not> skip x \<and> can_acquire r (qr_needs x) \<noteq> None) (map snd pre))"
      using 2 by auto
    then show ?thesis using second by (intro exI[of _ "(k', x) # pre"] exI[of _ post]) auto
  next
    case 3
    then show ?thesis using 2(3) by (intro exI[of _ "[]"] exI[of _ rest]) auto
  qed
qed simp

text \<open>Two states with the same line, hand-offs and workers, whatever the engines.\<close>

definition same_line :: "Inner \<Rightarrow> Inner \<Rightarrow> bool" where
  "same_line a b \<longleftrightarrow> in_queue a = in_queue b \<and> in_positions a = in_positions b \<and> in_handoff a = in_handoff b
     \<and> in_overtaken a = in_overtaken b \<and> in_workers a = in_workers b"

lemma same_line_fields: "same_line (put_engine e a) a" "same_line (drop_engine i a) a" "same_line (map_engines f a) a"
  "same_line (retain_engines P a) a" "same_line (a\<lparr> in_engines := es \<rparr>) a"
  by (simp_all add: same_line_def put_engine_def drop_engine_def map_engines_def retain_engines_def)

lemma same_line_trans: "same_line a b \<Longrightarrow> same_line b c \<Longrightarrow> same_line a c"
  by (simp add: same_line_def)

lemma same_line_tracked: "same_line (ensure_tracked inst i pid key mtime a) a"
  by (simp add: ensure_tracked_def Let_def same_line_fields) (simp add: same_line_def)

lemma same_line_ok: "same_line a b \<Longrightarrow> queue_ok b \<Longrightarrow> queue_ok a"
  by (simp add: same_line_def queue_ok_def)

text \<open>How a run is taken, on either path.\<close>

definition taken ::
  "int \<Rightarrow> string \<Rightarrow> Supervisor \<Rightarrow> Inner \<Rightarrow> QKey \<Rightarrow> QueuedRun \<Rightarrow> int list \<Rightarrow> Supervisor \<Rightarrow> bool" where
  "taken inst engine_id s inner k q blocked s' \<longleftrightarrow>
     same_line inner (sv_inner s) \<and> (k, q) \<in> set (in_queue inner) \<and> can_acquire (sv_resources s) (qr_needs q) = None
     \<and> s' = hand_over inst engine_id k q blocked (s\<lparr> sv_inner := inner \<rparr>)"

lemma sv_inner_again [simp]: "(on_inner f s)\<lparr> sv_inner := i \<rparr> = s\<lparr> sv_inner := i \<rparr>"
  "sv_resources (on_inner f s) = sv_resources s" "sv_inner (on_inner f s) = f (sv_inner s)"
  "sv_max_engines (on_inner f s) = sv_max_engines s"
  by (simp_all add: on_inner_def)

lemma take_remote_work_run:
  assumes "take_remote_work inst now eid pid key worker s = (WorkRun r, s')"
  shows "\<exists>inner k q bl slot. taken inst eid s inner k q bl s' \<and> r = qr_run_id q \<and> map_of (in_workers (sv_inner s)) worker = Some slot
    \<and> scan_remote (remote_skip now worker key slot) (sv_resources s) [] (in_queue (sv_inner s)) = Some ((k, q), bl)"
proof -
  obtain slot e where se: "map_of (in_workers (sv_inner s)) worker = Some slot" "map_of (in_engines (sv_inner s)) eid = Some e"
    using assms by (auto simp: take_remote_work_def Let_def split: option.splits)
  let ?e = "polled_engine inst pid e"
  let ?inner = "(sv_inner s)\<lparr> in_engines := AList.update eid ?e (in_engines (sv_inner s)) \<rparr>"
  have stay: "\<not> (en_exit_requested ?e \<or> sv_engine_max_runs s \<le> en_runs_done ?e \<or> ws_state slot \<noteq> ''online''
      \<or> (ws_processors slot < occupying_at (Worker worker) (sv_inner s) \<and> en_adopted ?e))"
    using assms se by (auto simp: take_remote_work_def Let_def split: if_splits)
  then obtain k q bl where sc: "scan_remote (remote_skip now worker key slot) (sv_resources s) [] (in_queue (sv_inner s)) = Some ((k, q), bl)"
    and r: "r = qr_run_id q" "s' = hand_over inst eid k q bl (s\<lparr> sv_inner := ?inner \<rparr>)"
    using assms se by (auto simp: take_remote_work_def Let_def split: option.splits)
  from scan_remote_Some[OF sc] have "taken inst eid s ?inner k q bl s'"
    by (auto simp: taken_def same_line_def r)
  then show ?thesis using sc r se by blast
qed

lemma take_local_work_run:
  assumes "of_engine eid = Local" "take_work inst now mtime disk eid pid key s = (WorkRun r, s')"
  shows "\<exists>inner k q bl. taken inst eid s inner k q bl s' \<and> r = qr_run_id q
    \<and> scan_local now inner (sv_resources s) eid key (occupying inner < sv_max_engines s) [] [] (in_queue inner) = Take k q bl"
proof -
  let ?t = "ensure_tracked inst eid pid key disk (sv_inner s)"
  obtain e where e: "map_of (in_engines ?t) eid = Some e"
    using assms by (auto simp: take_work_def Let_def split: option.splits)
  let ?e = "polled_engine inst pid e"
  let ?inner = "?t\<lparr> in_engines := AList.update eid ?e (in_engines ?t) \<rparr>"
  have line: "same_line ?inner (sv_inner s)"
    using same_line_trans[OF same_line_fields(5) same_line_tracked] .
  let ?leave = "en_exit_requested ?e \<or> sv_engine_max_runs s \<le> en_runs_done ?e
      \<or> (case (en_module_mtime ?e, mtime) of (Some a, Some b) \<Rightarrow> a \<noteq> b | _ \<Rightarrow> False)
      \<or> (sv_max_engines s < occupying ?t \<and> en_adopted ?e)"
  have run: "take_work inst now mtime disk eid pid key s =
    (if ?leave then (WorkExit, on_inner (drop_engine eid) (s\<lparr> sv_inner := ?inner \<rparr>))
     else case take_job key (in_jobs ?inner) of
        Some (payload, jobs) \<Rightarrow> (WorkJob payload, s\<lparr> sv_inner := ?inner\<lparr> in_jobs := jobs \<rparr> \<rparr>)
      | None \<Rightarrow> (case scan_local now ?inner (sv_resources s) eid key (occupying ?inner < sv_max_engines s) [] [] (in_queue ?inner) of
            Take k q blocked \<Rightarrow> (WorkRun (qr_run_id q), hand_over inst eid k q blocked (s\<lparr> sv_inner := ?inner \<rparr>))
          | GiveUp \<Rightarrow> (WorkExit, on_inner (drop_engine eid) (s\<lparr> sv_inner := ?inner \<rparr>))
          | Nothing \<Rightarrow> (WorkWait, s\<lparr> sv_inner := ?inner \<rparr>)))"
    using assms(1) e by (simp add: take_work_def Let_def on_inner_def cong: option.case_cong scan.case_cong)
  obtain k q bl where sc: "scan_local now ?inner (sv_resources s) eid key (occupying ?inner < sv_max_engines s) [] [] (in_queue ?inner) = Take k q bl"
    and r: "r = qr_run_id q" "s' = hand_over inst eid k q bl (s\<lparr> sv_inner := ?inner \<rparr>)"
    using assms(2) unfolding run by (auto split: if_splits option.splits scan.splits)
  from scan_local_Take[OF sc] have "(k, q) \<in> set (in_queue ?inner)" "can_acquire (sv_resources s) (qr_needs q) = None" by auto
  then have "taken inst eid s ?inner k q bl s'" using line r by (simp add: taken_def)
  then show ?thesis using sc r by blast
qed

lemma remove_key_line:
  assumes "indexed place ident Q P" "(k, q) \<in> set Q"
  shows "map snd (bt_remove k Q) = filter (\<lambda>x. ident x \<noteq> ident q) (map snd Q)"
proof -
  have "fst e \<noteq> k \<longleftrightarrow> ident (snd e) \<noteq> ident q" if e: "e \<in> set Q" for e
  proof (cases "fst e = k")
    case True
    then have "(k, snd e) \<in> set Q" using e by (cases e) simp
    then have "q = snd e" using bt_sorted_unique[OF indexedD(1)[OF assms(1)] assms(2)] by blast
    then show ?thesis using True by simp
  next
    case False
    have "(fst e, snd e) \<in> set Q" using e by simp
    then show ?thesis using indexed_unique(1)[OF assms(1) _ assms(2)] False by blast
  qed
  then have "bt_remove k Q = filter (\<lambda>e. ident (snd e) \<noteq> ident q) Q"
    unfolding bt_remove_def by (intro filter_cong refl) (simp add: case_prod_unfold)
  then show ?thesis by (simp add: filter_map comp_def)
qed

lemma inner_remove_line:
  assumes "queue_ok inner"
  shows "queue_line (snd (inner_remove i inner)) = filter (\<lambda>q. qr_run_id q \<noteq> i) (queue_line inner)"
proof (cases "map_of (in_positions inner) i")
  case None
  then have "i \<notin> qr_run_id ` set (queue_line inner)"
    using indexed_dom[OF assms[unfolded queue_ok_def], of i] by (simp add: set_queue_line)
  then have "filter (\<lambda>q. qr_run_id q \<noteq> i) (queue_line inner) = queue_line inner" by (auto simp: filter_id_conv)
  then show ?thesis using None by (simp add: inner_remove_def queue_line_def Let_def)
next
  case (Some k)
  then obtain q where "(k, q) \<in> set (in_queue inner)" "qr_run_id q = i"
    using indexedD(3)[OF assms[unfolded queue_ok_def]] by blast
  then show ?thesis
    using remove_key_line[OF assms[unfolded queue_ok_def]] Some by (simp add: inner_remove_def queue_line_def Let_def)
qed

lemma taken_facts:
  assumes t: "taken inst eid s inner k q bl s'" and ok: "queue_ok (sv_inner s)"
  shows "q \<in> set (queue_line (sv_inner s))" "k = qkey q" "queue_ok (sv_inner s')"
    "queue_line (sv_inner s') = filter (\<lambda>x. qr_run_id x \<noteq> qr_run_id q) (queue_line (sv_inner s))"
    "in_handoff (sv_inner s') = AList.update (qr_run_id q) q (in_handoff (sv_inner s))"
    "sv_resources s' = snd (acquire (qr_run_id q) (qr_needs q) (sv_resources s))"
    "can_acquire (sv_resources s) (qr_needs q) = None"
proof -
  have ix: "indexed qkey qr_run_id (in_queue (sv_inner s)) (in_positions (sv_inner s))" using ok by (simp add: queue_ok_def)
  have e: "(k, q) \<in> set (in_queue (sv_inner s))" and line: "same_line inner (sv_inner s)"
    and s': "s' = hand_over inst eid k q bl (s\<lparr> sv_inner := inner \<rparr>)"
    using t by (auto simp: taken_def same_line_def)
  show "q \<in> set (queue_line (sv_inner s))" using e by (force simp: set_queue_line)
  show "k = qkey q" using indexedD(2)[OF ix e] .
  have q': "in_queue (sv_inner s') = bt_remove k (in_queue (sv_inner s))"
      "in_positions (sv_inner s') = AList.delete (qr_run_id q) (in_positions (sv_inner s))"
    using line by (simp_all add: s' hand_over_def Let_def same_line_def)
  show "queue_ok (sv_inner s')" using indexed_remove(2)[OF ix e] by (simp add: queue_ok_def q')
  show "queue_line (sv_inner s') = filter (\<lambda>x. qr_run_id x \<noteq> qr_run_id q) (queue_line (sv_inner s))"
    using remove_key_line[OF ix e] by (simp add: queue_line_def q')
  show "in_handoff (sv_inner s') = AList.update (qr_run_id q) q (in_handoff (sv_inner s))"
    using line by (simp add: s' hand_over_def Let_def same_line_def)
  show "sv_resources s' = snd (acquire (qr_run_id q) (qr_needs q) (sv_resources s))"
    by (simp add: s' hand_over_def Let_def)
  show "can_acquire (sv_resources s) (qr_needs q) = None" using t by (simp add: taken_def)
qed

lemma line_split:
  assumes ok: "queue_ok inner" and Q: "in_queue inner = pre @ (k, q) # post"
  shows "snd ` set pre = {x \<in> set (queue_line inner). qkey x < qkey q}"
proof -
  have srt: "sorted_wrt (\<lambda>a b. qkey a < qkey b) (map snd pre @ q # map snd post)"
    using wq.line_sorted[OF ok] Q by (simp add: queue_line_def)
  have "set (queue_line inner) = snd ` set pre \<union> {q} \<union> snd ` set post" by (auto simp: queue_line_def Q)
  then show ?thesis using srt by (force simp: sorted_wrt_append)
qed

text \<open>The run an engine of the server is given, and what the runs ahead of it in line lacked.\<close>

lemma local_dispatch:
  assumes ok: "queue_ok (sv_inner s)" and loc: "of_engine eid = Local"
    and tw: "take_work inst now mtime disk eid pid key s = (WorkRun r, s')"
  shows "\<exists>q \<in> set (queue_line (sv_inner s)). qr_run_id q = r \<and> qr_key q = key \<and> in_turn now Local q
      \<and> can_acquire (sv_resources s) (qr_needs q) = None
      \<and> (\<forall>x \<in> set (queue_line (sv_inner s)). qkey x < qkey q \<and> qr_key x = key \<and> in_turn now Local x \<longrightarrow>
           can_acquire (sv_resources s) (qr_needs x) \<noteq> None)
      \<and> queue_line (sv_inner s') = filter (\<lambda>x. qr_run_id x \<noteq> r) (queue_line (sv_inner s))"
proof -
  obtain inner k q bl where t: "taken inst eid s inner k q bl s'" and r: "r = qr_run_id q"
    and sc: "scan_local now inner (sv_resources s) eid key (occupying inner < sv_max_engines s) [] [] (in_queue inner) = Take k q bl"
    using take_local_work_run[OF loc tw] by blast
  note f = taken_facts[OF t ok]
  have same: "queue_line inner = queue_line (sv_inner s)" "queue_ok inner"
    using t ok same_line_ok[of inner "sv_inner s"] by (auto simp: taken_def same_line_def queue_line_def)
  from scan_local_Take[OF sc] obtain pre post where Q: "in_queue inner = pre @ (k, q) # post" and q: "qr_key q = key" "in_turn now Local q"
    and ahead: "\<forall>x \<in> snd ` set pre. in_turn now Local x \<and> qr_key x = key \<longrightarrow> can_acquire (sv_resources s) (qr_needs x) \<noteq> None"
    by blast
  have "snd ` set pre = {x \<in> set (queue_line (sv_inner s)). qkey x < qkey q}" using line_split[OF same(2) Q] same(1) by simp
  then have "\<forall>x \<in> set (queue_line (sv_inner s)). qkey x < qkey q \<and> qr_key x = key \<and> in_turn now Local x \<longrightarrow>
      can_acquire (sv_resources s) (qr_needs x) \<noteq> None" using ahead by blast
  then show ?thesis using f q r by blast
qed

lemma remote_dispatch:
  assumes ok: "queue_ok (sv_inner s)" and tw: "take_remote_work inst now eid pid key worker s = (WorkRun r, s')"
  shows "\<exists>q \<in> set (queue_line (sv_inner s)). \<exists>slot. qr_run_id q = r \<and> map_of (in_workers (sv_inner s)) worker = Some slot
      \<and> \<not> remote_skip now worker key slot q \<and> can_acquire (sv_resources s) (qr_needs q) = None
      \<and> (\<forall>x \<in> set (queue_line (sv_inner s)). qkey x < qkey q \<and> \<not> remote_skip now worker key slot x \<longrightarrow>
           can_acquire (sv_resources s) (qr_needs x) \<noteq> None)
      \<and> queue_line (sv_inner s') = filter (\<lambda>x. qr_run_id x \<noteq> r) (queue_line (sv_inner s))"
proof -
  obtain inner k q bl slot where t: "taken inst eid s inner k q bl s'" and r: "r = qr_run_id q"
    and slot: "map_of (in_workers (sv_inner s)) worker = Some slot"
    and sc: "scan_remote (remote_skip now worker key slot) (sv_resources s) [] (in_queue (sv_inner s)) = Some ((k, q), bl)"
    using take_remote_work_run[OF tw] by blast
  note f = taken_facts[OF t ok]
  from scan_remote_Some[OF sc] obtain pre post where Q: "in_queue (sv_inner s) = pre @ (k, q) # post"
    and q: "\<not> remote_skip now worker key slot q"
    and ahead: "\<forall>x \<in> snd ` set pre. \<not> remote_skip now worker key slot x \<longrightarrow> can_acquire (sv_resources s) (qr_needs x) \<noteq> None"
    by blast
  have "\<forall>x \<in> set (queue_line (sv_inner s)). qkey x < qkey q \<and> \<not> remote_skip now worker key slot x \<longrightarrow>
      can_acquire (sv_resources s) (qr_needs x) \<noteq> None" using ahead line_split[OF ok Q] by blast
  then show ?thesis using f q r slot by blast
qed

section \<open>What every operation keeps\<close>

definition engines_ok :: "Inner \<Rightarrow> bool" where
  "engines_ok inner \<longleftrightarrow> distinct (map fst (in_engines inner)) \<and> (\<forall>x \<in> set (in_engines inner). en_id (snd x) = fst x)"

definition starting_ok :: "Inner \<Rightarrow> bool" where
  "starting_ok inner \<longleftrightarrow> distinct (map fst (in_starting inner)) \<and> (\<forall>x \<in> set (in_starting inner). 0 < snd x)"

definition inner_ok :: "Inner \<Rightarrow> bool" where
  "inner_ok inner \<longleftrightarrow> queue_ok inner \<and> engines_ok inner \<and> starting_ok inner"

lemma set_update: "set (AList.update k v al) \<subseteq> insert (k, v) (set al)"
  by (induction al) auto

lemma inner_ok_other [intro]:
  assumes "inner_ok inner"
  shows "inner_ok (inner\<lparr> in_workers := a \<rparr>)" "inner_ok (inner\<lparr> in_overtaken := b \<rparr>)" "inner_ok (inner\<lparr> in_jobs := c \<rparr>)"
    "inner_ok (inner\<lparr> in_waiting_marked := d \<rparr>)" "inner_ok (inner\<lparr> in_failures := e \<rparr>)" "inner_ok (inner\<lparr> in_handoff := f \<rparr>)"
    "inner_ok (inner\<lparr> in_next_engine := g \<rparr>)"
  using assms by (simp_all add: inner_ok_def queue_ok_def engines_ok_def starting_ok_def)

lemma inner_ok_engines:
  assumes "inner_ok inner" "distinct (map fst es)" "\<forall>x \<in> set es. en_id (snd x) = fst x"
  shows "inner_ok (inner\<lparr> in_engines := es \<rparr>)"
  using assms by (simp add: inner_ok_def queue_ok_def engines_ok_def starting_ok_def)

lemma inner_ok_set_engine: "inner_ok inner \<Longrightarrow> en_id e = i \<Longrightarrow> inner_ok (inner\<lparr> in_engines := AList.update i e (in_engines inner) \<rparr>)"
proof -
  assume ok: "inner_ok inner" and i: "en_id e = i"
  have "\<forall>x \<in> set (AList.update i e (in_engines inner)). en_id (snd x) = fst x"
    using set_update[of i e "in_engines inner"] ok i unfolding inner_ok_def engines_ok_def by fastforce
  then show ?thesis using ok by (intro inner_ok_engines) (simp_all add: inner_ok_def engines_ok_def distinct_update)
qed

lemma inner_ok_put [intro]: "inner_ok inner \<Longrightarrow> inner_ok (put_engine e inner)"
  unfolding put_engine_def by (rule inner_ok_set_engine) simp_all

lemma inner_ok_drop [intro]: "inner_ok inner \<Longrightarrow> inner_ok (drop_engine i inner)"
proof -
  assume ok: "inner_ok inner"
  have "set (AList.delete i (in_engines inner)) \<subseteq> set (in_engines inner)" by (auto simp: AList.delete_eq)
  then have "\<forall>x \<in> set (AList.delete i (in_engines inner)). en_id (snd x) = fst x"
    using ok unfolding inner_ok_def engines_ok_def by blast
  then show ?thesis unfolding drop_engine_def
    using ok by (intro inner_ok_engines) (simp_all add: inner_ok_def engines_ok_def distinct_delete)
qed

lemma inner_ok_retain [intro]: "inner_ok inner \<Longrightarrow> inner_ok (retain_engines P inner)"
  unfolding retain_engines_def
  by (rule inner_ok_engines) (simp_all add: inner_ok_def engines_ok_def distinct_map_filter)

lemma inner_ok_map [intro]: "inner_ok inner \<Longrightarrow> (\<And>e. en_id (f e) = en_id e) \<Longrightarrow> inner_ok (map_engines f inner)"
  unfolding map_engines_def
  by (rule inner_ok_engines) (auto simp: inner_ok_def engines_ok_def comp_def case_prod_unfold)

lemma inner_ok_worker [intro]: "inner_ok inner \<Longrightarrow> inner_ok (on_worker w f inner)"
  by (simp add: on_worker_def inner_ok_other split: option.splits)

lemma inner_push_other [simp]:
  "in_engines (inner_push q inner) = in_engines inner" "in_starting (inner_push q inner) = in_starting inner"
  "in_handoff (inner_push q inner) = in_handoff inner" "in_workers (inner_push q inner) = in_workers inner"
  by (simp_all add: inner_push_def Let_def)

lemma inner_remove_other [simp]:
  "in_engines (snd (inner_remove i inner)) = in_engines inner" "in_starting (snd (inner_remove i inner)) = in_starting inner"
  "in_handoff (snd (inner_remove i inner)) = in_handoff inner" "in_waiting_marked (snd (inner_remove i inner)) = in_waiting_marked inner"
  by (simp_all add: inner_remove_def Let_def split: option.splits)

lemma inner_ok_push [intro]: "inner_ok inner \<Longrightarrow> inner_ok (inner_push q inner)"
  by (simp add: inner_ok_def engines_ok_def starting_ok_def inner_push_facts)

lemma inner_ok_remove [intro]: "inner_ok inner \<Longrightarrow> inner_ok (snd (inner_remove i inner))"
  by (simp add: inner_ok_def engines_ok_def starting_ok_def inner_remove_facts)

lemma inner_ok_fold: "inner_ok inner \<Longrightarrow> (\<And>x inner. inner_ok inner \<Longrightarrow> inner_ok (f x inner)) \<Longrightarrow> inner_ok (fold f xs inner)"
  by (induction xs arbitrary: inner) auto

lemma inner_ok_tracked: "inner_ok inner \<Longrightarrow> inner_ok (ensure_tracked inst i pid key mtime inner)"
  by (auto simp: ensure_tracked_def Let_def)

lemma inner_ok_starting:
  assumes "inner_ok inner" "distinct (map fst st)" "\<forall>x \<in> set st. 0 < snd x"
  shows "inner_ok (inner\<lparr> in_starting := st \<rparr>)"
  using assms by (simp add: inner_ok_def queue_ok_def engines_ok_def starting_ok_def)

lemma inner_ok_request: "inner_ok inner \<Longrightarrow> inner_ok (snd (request_spawn p key inner))"
proof -
  assume ok: "inner_ok inner"
  let ?n = "(case map_of (in_starting inner) key of Some n \<Rightarrow> n | None \<Rightarrow> 0) + 1"
  have "\<forall>x \<in> set (AList.update key ?n (in_starting inner)). 0 < snd x"
    using set_update[of key ?n "in_starting inner"] ok unfolding inner_ok_def starting_ok_def by fastforce
  moreover have "entry_update key 0 (\<lambda>n. n + 1) (in_starting inner) = AList.update key ?n (in_starting inner)"
    by (cases "map_of (in_starting inner) key") (simp_all add: entry_update_def)
  ultimately show ?thesis using ok inner_ok_starting[OF inner_ok_other(7)[OF ok, of "in_next_engine inner + 1"]]
    by (simp add: request_spawn_def inner_ok_def starting_ok_def distinct_update)
qed

lemma inner_ok_finish: "inner_ok inner \<Longrightarrow> inner_ok (finish_starting keys inner)"
proof -
  have one: "inner_ok (finish_one key inner)" if ok: "inner_ok inner" for key inner
  proof (cases "map_of (in_starting inner) key")
    case (Some n)
    have del: "set (AList.delete key (in_starting inner)) \<subseteq> set (in_starting inner)" by (auto simp: AList.delete_eq)
    have st: "distinct (map fst (in_starting inner))" "\<forall>x \<in> set (in_starting inner). 0 < snd x"
      using ok by (simp_all add: inner_ok_def starting_ok_def)
    show ?thesis
    proof (cases "n - 1 = 0")
      case True
      have "\<forall>x \<in> set (AList.delete key (in_starting inner)). 0 < snd x" using st(2) del by blast
      then show ?thesis using ok Some True st(1) by (simp add: finish_one_def inner_ok_starting distinct_delete)
    next
      case False
      then have "\<forall>x \<in> set (AList.update key (n - 1) (in_starting inner)). 0 < snd x"
        using set_update[of key "n - 1" "in_starting inner"] st(2) by fastforce
      then show ?thesis using ok Some False st(1) by (simp add: finish_one_def inner_ok_starting distinct_update)
    qed
  qed (use ok in \<open>simp add: finish_one_def\<close>)
  show "inner_ok inner \<Longrightarrow> inner_ok (finish_starting keys inner)"
    unfolding finish_starting_def by (rule inner_ok_fold) (auto intro: one)
qed

lemma inner_ok_request_engines: "inner_ok inner \<Longrightarrow> inner_ok (snd (snd (request_engines p m key n inner)))"
proof (induction n arbitrary: inner)
  case (Suc n)
  show ?case
  proof (cases "m \<le> occupying inner")
    case True
    then show ?thesis using Suc.prems by (cases "List.find (evictable key) (engines_of inner)") auto
  next
    case False
    then show ?thesis using Suc.IH[OF inner_ok_request[OF Suc.prems, of p key]]
      by (simp add: Let_def case_prod_unfold)
  qed
qed simp

lemma inner_ok_plan: "inner_ok inner \<Longrightarrow> inner_ok (snd (snd (capacity_plan p m d inner)))"
proof -
  have "inner_ok (snd (snd acc)) \<Longrightarrow> inner_ok (snd (snd (fold (plan_key p m) d acc)))" for acc
  proof (induction d arbitrary: acc)
    case (Cons e d)
    have "inner_ok (snd (snd (plan_key p m e acc)))"
      using inner_ok_request_engines[OF Cons.prems]
      by (cases e; cases acc) (auto simp: plan_key_def Let_def case_prod_unfold)
    then show ?case using Cons.IH by simp
  qed simp
  then show "inner_ok inner \<Longrightarrow> inner_ok (snd (snd (capacity_plan p m d inner)))" by (simp add: capacity_plan_def)
qed

lemma inner_ok_register: "inner_ok inner \<Longrightarrow> inner_ok (register_engines inst mtime sp inner)"
  unfolding register_engines_def by (rule inner_ok_fold) auto

lemma inner_ok_start_on: "inner_ok inner \<Longrightarrow> inner_ok (start_on inst key w slot inner)"
  by (auto simp: start_on_def Let_def)

lemma inner_ok_spill: "inner_ok inner \<Longrightarrow> inner_ok (spill inst key flows n inner)"
  by (induction n arbitrary: inner) (auto simp: inner_ok_start_on split: option.splits)

lemma inner_ok_spawn_on: "inner_ok inner \<Longrightarrow> inner_ok (spawn_on inst key w inner)"
  by (auto simp: spawn_on_def Let_def inner_ok_start_on split: option.splits)

lemma inner_ok_recheck: "inner_ok (snd acc) \<Longrightarrow> inner_ok (snd (fold (recheck p m) d acc))"
proof (induction d arbitrary: acc)
  case (Cons e d)
  have "inner_ok (snd (recheck p m e acc))"
    using Cons.prems inner_ok_request by (cases e; cases acc) (auto simp: recheck_def Let_def case_prod_unfold)
  then show ?case using Cons.IH by simp
qed simp

lemma ensure_capacity_ok:
  assumes "inner_ok (sv_inner s)"
  shows "inner_ok (sv_inner (ensure_capacity inst now p mtime spawn s))"
proof -
  obtain d pref where d: "demand_of now s = (d, pref)" by force
  let ?d = "add_jobs (sv_inner s) d"
  obtain reqs spills i1 where pl: "capacity_plan p (sv_max_engines s) ?d (sv_inner s) = (reqs, spills, i1)"
    by (cases "capacity_plan p (sv_max_engines s) ?d (sv_inner s)") auto
  have "inner_ok i1" using inner_ok_plan[OF assms, of p "sv_max_engines s" ?d] pl by simp
  then have i2: "inner_ok (register_engines inst mtime (spawn_all spawn reqs) (finish_starting (map snd reqs) i1))" (is "inner_ok ?i2")
    by (intro inner_ok_register inner_ok_finish)
  have i3: "inner_ok (fold (\<lambda>(key, wanted, flows). spill_over inst key wanted flows) spills ?i2)" (is "inner_ok ?i3")
    using i2 by (rule inner_ok_fold) (auto simp: spill_over_def inner_ok_spill)
  have i4: "inner_ok (fold (\<lambda>(key, worker). spawn_on inst key worker) pref ?i3)" (is "inner_ok ?i4")
    using i3 by (rule inner_ok_fold) (auto simp: inner_ok_spawn_on)
  obtain again i5 where rc: "fold (recheck p (sv_max_engines s)) ?d ([], ?i4) = (again, i5)" by force
  have "inner_ok i5" using inner_ok_recheck[of "([], ?i4)" p "sv_max_engines s" ?d] i4 rc by simp
  then show ?thesis using d pl rc
    by (simp add: ensure_capacity_def inner_ok_register inner_ok_finish)
qed

lemma hand_over_ok:
  assumes "inner_ok inner" "(k, q) \<in> set (in_queue inner)"
  shows "inner_ok (sv_inner (hand_over inst eid k q bl (s\<lparr> sv_inner := inner \<rparr>)))"
proof -
  have e: "engines_ok inner" and ix: "indexed qkey qr_run_id (in_queue inner) (in_positions inner)" and st: "starting_ok inner"
    using assms(1) by (simp_all add: inner_ok_def queue_ok_def)
  let ?i = "sv_inner (hand_over inst eid k q bl (s\<lparr> sv_inner := inner \<rparr>))"
  have "queue_ok ?i" using indexed_remove(2)[OF ix assms(2)] by (simp add: queue_ok_def hand_over_def Let_def)
  moreover have "starting_ok ?i" using st by (simp add: starting_ok_def hand_over_def Let_def)
  moreover have "engines_ok ?i"
  proof (cases "map_of (in_engines inner) eid")
    case (Some x)
    have "en_id x = eid" using e map_of_SomeD[OF Some] by (auto simp: engines_ok_def)
    then have "inner_ok (inner\<lparr> in_engines := AList.update eid (x\<lparr> en_current_run := Some (qr_run_id q), en_run_since := Some inst \<rparr>) (in_engines inner) \<rparr>)"
      by (intro inner_ok_set_engine[OF assms(1)]) simp
    then show ?thesis using Some by (simp add: inner_ok_def engines_ok_def hand_over_def Let_def)
  qed (use e in \<open>simp add: engines_ok_def hand_over_def Let_def\<close>)
  ultimately show ?thesis by (simp add: inner_ok_def)
qed

lemma polled_engine_id [simp]: "en_id (polled_engine inst pid e) = en_id e"
  by (simp add: polled_engine_def)

lemma engine_id_known: "inner_ok inner \<Longrightarrow> map_of (in_engines inner) i = Some e \<Longrightarrow> en_id e = i"
  by (auto simp: inner_ok_def engines_ok_def dest!: map_of_SomeD)

lemma take_remote_work_ok:
  assumes ok: "inner_ok (sv_inner s)"
  shows "inner_ok (sv_inner (snd (take_remote_work inst now eid pid key worker s)))"
proof (cases "\<exists>slot e. map_of (in_workers (sv_inner s)) worker = Some slot \<and> map_of (in_engines (sv_inner s)) eid = Some e")
  case True
  then obtain slot e where se: "map_of (in_workers (sv_inner s)) worker = Some slot" "map_of (in_engines (sv_inner s)) eid = Some e"
    by blast
  let ?i = "(sv_inner s)\<lparr> in_engines := AList.update eid (polled_engine inst pid e) (in_engines (sv_inner s)) \<rparr>"
  have i: "inner_ok ?i" using engine_id_known[OF ok se(2)] by (intro inner_ok_set_engine ok) simp
  have h: "scan_remote skip r [] (in_queue ?i) = Some ((k, q), bl) \<Longrightarrow> inner_ok (sv_inner (hand_over inst eid k q bl (s\<lparr> sv_inner := ?i \<rparr>)))"
    for skip r k q bl
    using scan_remote_Some[of skip r "[]" "in_queue ?i" k q bl] by (intro hand_over_ok i) auto
  show ?thesis
    using se i inner_ok_drop[OF i, of eid] h
    by (auto simp: take_remote_work_def Let_def on_inner_def split: option.splits)
next
  case False
  then show ?thesis using ok by (auto simp: take_remote_work_def Let_def split: option.splits)
qed

lemma take_work_ok:
  assumes ok: "inner_ok (sv_inner s)"
  shows "inner_ok (sv_inner (snd (take_work inst now mtime disk eid pid key s)))"
proof (cases "of_engine eid")
  case (Worker w)
  have "inner_ok (sv_inner (on_inner (ensure_tracked inst eid pid key disk) s))" using inner_ok_tracked[OF ok] by simp
  from take_remote_work_ok[OF this] show ?thesis using Worker by (simp add: take_work_def Let_def)
next
  case Local
  let ?t = "ensure_tracked inst eid pid key disk (sv_inner s)"
  have t: "inner_ok ?t" by (rule inner_ok_tracked[OF ok])
  show ?thesis
  proof (cases "map_of (in_engines ?t) eid")
    case None
    then show ?thesis using Local t by (simp add: take_work_def Let_def)
  next
    case (Some e)
    let ?i = "?t\<lparr> in_engines := AList.update eid (polled_engine inst pid e) (in_engines ?t) \<rparr>"
    have i: "inner_ok ?i" using engine_id_known[OF t Some] by (intro inner_ok_set_engine t) simp
    have h: "scan_local now ?i r eid key room [] [] (in_queue ?i) = Take k q bl \<Longrightarrow>
        inner_ok (sv_inner (hand_over inst eid k q bl (s\<lparr> sv_inner := ?i \<rparr>)))" for r room k q bl
      using scan_local_Take[of now ?i r eid key room "[]" "[]" "in_queue ?i" k q bl] by (intro hand_over_ok i) auto
    show ?thesis
      using Local Some i inner_ok_drop[OF i, of eid] inner_ok_other(3)[OF i] h
      by (auto simp: take_work_def Let_def on_inner_def split: option.splits scan.splits)
  qed
qed

lemma undo_drains_ok: "inner_ok inner \<Longrightarrow> inner_ok (undo_drains fuel live n inner)"
proof (induction fuel arbitrary: live inner)
  case (Suc fuel)
  then show ?case by (auto intro!: Suc.IH inner_ok_map split: option.splits)
qed simp

lemma shrink_pool_ok: "inner_ok inner \<Longrightarrow> inner_ok (shrink_pool inst n inner)"
  by (auto simp: shrink_pool_def Let_def)

section \<open>Every history of the supervisor\<close>

datatype sup_op =
    SetMaxEngines int nat
  | SyncWorker int int string nat string "int list"
  | WorkerHeartbeat int int "string list"
  | SetWorkerState int string
  | SetWorkerProcessors int nat
  | ForgetWorker int
  | MarkBroken int string
  | ClearBroken int
  | CommandWorker int json
  | MarkQuietWorkers int int
  | WorkerLeft int
  | Enqueue QueuedRun
  | EnqueueMany "QueuedRun list"
  | EnqueueJob EngineKey json
  | Dequeue int
  | DequeueMany "int list"
  | RecordFailure int int int
  | ClearFailures int
  | ForgetEngine string
  | ForgetPid nat
  | TakeWaitingMarks int
  | Adopt int Run EngineKey
  | TakeWork int int "int option" "int option" string nat EngineKey
  | HandoffDone int
  | AbortHandoff int
  | RunFinished int
  | TakeQueuedForKey EngineKey string
  | Sweep int "Engine \<Rightarrow> bool"
  | EnsureCapacity int int nat "EngineKey \<Rightarrow> int option" "string \<Rightarrow> EngineKey \<Rightarrow> nat option"
  | OnResources res_op

fun sup_step :: "sup_op \<Rightarrow> Supervisor \<Rightarrow> Supervisor" where
  "sup_step (SetMaxEngines inst n) s = set_max_engines inst n s"
| "sup_step (SyncWorker inst w name p st el) s = sync_worker inst w name p st el s"
| "sup_step (WorkerHeartbeat inst w es) s = snd (worker_heartbeat inst w es s)"
| "sup_step (SetWorkerState w st) s = set_worker_state w st s"
| "sup_step (SetWorkerProcessors w n) s = set_worker_processors w n s"
| "sup_step (ForgetWorker w) s = forget_worker w s"
| "sup_step (MarkBroken w m) s = mark_broken w m s"
| "sup_step (ClearBroken w) s = clear_broken w s"
| "sup_step (CommandWorker w c) s = command_worker w c s"
| "sup_step (MarkQuietWorkers inst t) s = snd (mark_quiet_workers inst t s)"
| "sup_step (WorkerLeft w) s = worker_left w s"
| "sup_step (Enqueue q) s = enqueue q s"
| "sup_step (EnqueueMany qs) s = enqueue_many qs s"
| "sup_step (EnqueueJob key p) s = enqueue_job key p s"
| "sup_step (Dequeue i) s = snd (dequeue i s)"
| "sup_step (DequeueMany ids) s = dequeue_many ids s"
| "sup_step (RecordFailure f now win) s = snd (record_failure f now win s)"
| "sup_step (ClearFailures f) s = clear_failures f s"
| "sup_step (ForgetEngine i) s = forget_engine i s"
| "sup_step (ForgetPid p) s = forget_pid p s"
| "sup_step (TakeWaitingMarks now) s = snd (take_waiting_marks now s)"
| "sup_step (Adopt inst run key) s = adopt inst run key s"
| "sup_step (TakeWork inst now m d i pid key) s = snd (take_work inst now m d i pid key s)"
| "sup_step (HandoffDone i) s = handoff_done i s"
| "sup_step (AbortHandoff i) s = snd (abort_handoff i s)"
| "sup_step (RunFinished i) s = run_finished i s"
| "sup_step (TakeQueuedForKey key i) s = snd (take_queued_for_key key i s)"
| "sup_step (Sweep inst ex) s = snd (sweep inst ex s)"
| "sup_step (EnsureCapacity inst now p m sp) s = ensure_capacity inst now p m sp s"
| "sup_step (OnResources op) s = s\<lparr> sv_resources := res_step op (sv_resources s) \<rparr>"

lemma take_offline_ok: "inner_ok inner \<Longrightarrow> inner_ok (take_offline w inner)"
  by (auto simp: take_offline_def)

lemma finish_run_id [simp]: "en_id (finish_run run e) = en_id e"
  by (simp add: finish_run_def)

lemma sup_step_ok: "inner_ok (sv_inner s) \<Longrightarrow> inner_ok (sv_inner (sup_step op s))"
proof (cases op)
  case (TakeWork inst now m d i pid key)
  assume "inner_ok (sv_inner s)"
  then show ?thesis using TakeWork take_work_ok by simp
next
  case (EnsureCapacity inst now p m sp)
  assume "inner_ok (sv_inner s)"
  then show ?thesis using EnsureCapacity ensure_capacity_ok by simp
next
  case (SetMaxEngines inst n)
  assume "inner_ok (sv_inner s)"
  then show ?thesis using SetMaxEngines by (simp add: set_max_engines_def Let_def shrink_pool_ok undo_drains_ok)
next
  case (RunFinished i)
  assume "inner_ok (sv_inner s)"
  then have "inner_ok (snd (inner_remove i (map_engines (finish_run i)
      ((sv_inner s)\<lparr> in_handoff := AList.delete i (in_handoff (sv_inner s)) \<rparr>))))"
    by (intro inner_ok_remove inner_ok_map inner_ok_other(6)) simp_all
  then show ?thesis using RunFinished by (simp add: run_finished_def Let_def inner_ok_other del: inner_remove_other)
next
  case (AbortHandoff i)
  assume "inner_ok (sv_inner s)"
  then show ?thesis using AbortHandoff
    by (auto simp: abort_handoff_def Let_def intro!: inner_ok_push inner_ok_map inner_ok_other(6) split: option.splits)
next
  case (DequeueMany ids)
  assume "inner_ok (sv_inner s)"
  then show ?thesis using DequeueMany by (auto simp: dequeue_many_def intro!: inner_ok_fold)
next
  case (EnqueueMany qs)
  assume "inner_ok (sv_inner s)"
  then show ?thesis using EnqueueMany by (auto simp: enqueue_many_def intro!: inner_ok_fold)
next
  case (MarkQuietWorkers inst t)
  assume "inner_ok (sv_inner s)"
  then show ?thesis using MarkQuietWorkers
    by (auto simp: mark_quiet_workers_def Let_def intro!: inner_ok_fold take_offline_ok)
next
  case (Sweep inst ex)
  assume "inner_ok (sv_inner s)"
  then show ?thesis using Sweep by (auto simp: sweep_def Let_def intro!: inner_ok_fold)
next
  case (TakeQueuedForKey key i)
  assume "inner_ok (sv_inner s)"
  then show ?thesis using TakeQueuedForKey
    by (auto simp: take_queued_for_key_def Let_def intro!: inner_ok_drop inner_ok_fold)
next
  case (SetWorkerState w st)
  assume "inner_ok (sv_inner s)"
  then show ?thesis using SetWorkerState
    by (auto simp: set_worker_state_def Let_def intro!: inner_ok_map inner_ok_retain inner_ok_worker)
qed (auto simp: sync_worker_def worker_heartbeat_def set_worker_processors_def forget_worker_def mark_broken_def
    clear_broken_def command_worker_def worker_left_def take_offline_ok enqueue_def enqueue_job_def dequeue_def
    record_failure_def clear_failures_def forget_engine_def forget_pid_def take_waiting_marks_def adopt_def handoff_done_def
    Let_def case_prod_unfold intro!: inner_ok_other inner_ok_remove inner_ok_retain inner_ok_worker split: option.splits)

interpretation sup: preserved sup_step "\<lambda>s. inner_ok (sv_inner s)"
  by unfold_locales (rule sup_step_ok)

lemma Supervisor_new_ok: "inner_ok (sv_inner (Supervisor_new totals n cpus max_runs))"
  by (simp add: Supervisor_new_def inner_ok_def queue_ok_def indexed_def engines_ok_def starting_ok_def Inner_default_def bt_sorted_def)

lemmas sup_history = sup.runs[OF Supervisor_new_ok]

text \<open>A small pool for concrete evaluations.\<close>

definition sample_item :: "int \<Rightarrow> QueuedRun" where
  "sample_item i = \<lparr> qr_run_id = i, qr_key = bare_key, qr_priority = 0, qr_order = i, qr_needs = [], qr_not_before = None,
     qr_flow_id = 3, qr_remote_ok = True, qr_prefer_worker = None, qr_prefer_until = 0 \<rparr>"

lemmas sup_eval = take_work_def sample_item_def Supervisor_new_def Inner_default_def enqueue_def on_inner_def inner_push_def
    ensure_tracked_def put_engine_def of_engine_def strip_prefix_def starts_with_def Let_def polled_engine_def Engine_new_def
    free_slot_def slots_at_def engines_of_def occupying_def occupying_at_def clamp_def not_due_def reserved_elsewhere_def can_acquire_def

lemma sample_take:
  "\<exists>s'. take_work 0 0 None None ''a'' 1 bare_key (fold sup_step [Enqueue (sample_item 7)] (Supervisor_new [] 1 1 10)) = (WorkRun 7, s')"
  by (simp add: sup_eval)

lemma sample_local: "of_engine ''a'' = Local"
  by (simp add: of_engine_def strip_prefix_def starts_with_def)

text \<open>
  C31: In every history of the supervisor, the run one of the server's own engines is handed is
  a queued run of its module that is due, not reserved for a worker and has its resources free, and it is
  the first of those in line: every run of the module that stands before it (higher priority, or
  equal priority and waiting longer) and is in turn lacks a resource. Exactly that run leaves the line.
\<close>

theorem dispatch_in_order:
  fixes ops totals n cpus max_runs
  defines "s \<equiv> fold sup_step ops (Supervisor_new totals n cpus max_runs)"
  assumes "of_engine eid = Local" "take_work inst now mtime disk eid pid key s = (WorkRun r, s')"
  shows "\<exists>q \<in> set (queue_line (sv_inner s)). qr_run_id q = r \<and> qr_key q = key \<and> in_turn now Local q
      \<and> can_acquire (sv_resources s) (qr_needs q) = None
      \<and> (\<forall>x \<in> set (queue_line (sv_inner s)). qkey x < qkey q \<and> qr_key x = key \<and> in_turn now Local x \<longrightarrow>
           can_acquire (sv_resources s) (qr_needs x) \<noteq> None)
      \<and> queue_line (sv_inner s') = filter (\<lambda>x. qr_run_id x \<noteq> r) (queue_line (sv_inner s))"
  using sup_history[of ops totals n cpus max_runs] assms(2,3) unfolding s_def inner_ok_def by (intro local_dispatch) blast+

theorem dispatch_in_order_witness:
  "\<exists>q. q \<in> set (queue_line (sv_inner (fold sup_step [Enqueue (sample_item 7)] (Supervisor_new [] 1 1 10)))) \<and> qr_run_id q = 7 \<and> qr_key q = bare_key"
proof -
  obtain s' where "take_work 0 0 None None ''a'' 1 bare_key (fold sup_step [Enqueue (sample_item 7)] (Supervisor_new [] 1 1 10)) = (WorkRun 7, s')"
    using sample_take by blast
  from dispatch_in_order[OF sample_local this] show ?thesis by blast
qed

text \<open>
  C32: In every history, the run a worker's engine is handed is one a remote worker may take, of a flow whose
  code on that worker matches, of the engine's code, of a module the worker has not failed to import,
  not reserved for another host, due and with its resources free; the runs before it that the worker
  could take lack a resource.
\<close>

theorem remote_dispatch_allowed:
  fixes ops totals n cpus max_runs
  defines "s \<equiv> fold sup_step ops (Supervisor_new totals n cpus max_runs)"
  assumes "take_remote_work inst now eid pid key worker s = (WorkRun r, s')"
  shows "\<exists>q \<in> set (queue_line (sv_inner s)). \<exists>slot. qr_run_id q = r \<and> map_of (in_workers (sv_inner s)) worker = Some slot
      \<and> qr_remote_ok q \<and> qr_flow_id q \<in> set (ws_eligible slot) \<and> same_code (qr_key q) key
      \<and> ek_module (qr_key q) \<notin> set (ws_broken slot) \<and> in_turn now (Worker worker) q
      \<and> can_acquire (sv_resources s) (qr_needs q) = None
      \<and> (\<forall>x \<in> set (queue_line (sv_inner s)). qkey x < qkey q \<and> \<not> remote_skip now worker key slot x \<longrightarrow>
           can_acquire (sv_resources s) (qr_needs x) \<noteq> None)"
proof -
  have "queue_ok (sv_inner s)" using sup_history[of ops totals n cpus max_runs] by (simp add: s_def inner_ok_def)
  from remote_dispatch[OF this assms(2)] show ?thesis unfolding remote_skip_def in_turn_def by blast
qed

theorem remote_dispatch_allowed_witness:
  "\<exists>(q :: QueuedRun) slot. qr_run_id q = 7 \<and> qr_flow_id q \<in> set (ws_eligible slot) \<and>
    map_of (in_workers (sv_inner (fold sup_step [SyncWorker 0 2 ''w2'' 1 ''online'' [3], Enqueue (sample_item 7),
      TakeWork 0 0 None None ''w2-1'' 1 (bare_key\<lparr> ek_module := ''other'' \<rparr>)] (Supervisor_new [] 1 1 10)))) 2 = Some slot"
proof -
  let ?ops = "[SyncWorker 0 2 ''w2'' 1 ''online'' [3], Enqueue (sample_item 7),
      TakeWork 0 0 None None ''w2-1'' 1 (bare_key\<lparr> ek_module := ''other'' \<rparr>)]"
  obtain s' where "take_remote_work 0 0 ''w2-1'' 1 bare_key 2 (fold sup_step ?ops (Supervisor_new [] 1 1 10)) = (WorkRun 7, s')"
    by (simp add: sup_eval take_remote_work_def sync_worker_def remote_skip_def same_code_def bare_key_def parse_i64_def
        digit_value_def in_i64_def i64_min_def i64_max_def)
  from remote_dispatch_allowed[OF this] show ?thesis by blast
qed

text \<open>The run of either path, as one fact.\<close>

lemma take_work_run:
  assumes "take_work inst now mtime disk eid pid key s = (WorkRun r, s')"
  shows "\<exists>s0 inner k q bl. taken inst eid s0 inner k q bl s' \<and> r = qr_run_id q \<and> same_line (sv_inner s0) (sv_inner s)
    \<and> sv_resources s0 = sv_resources s"
proof (cases "of_engine eid")
  case Local
  from take_local_work_run[OF Local assms] show ?thesis by (metis same_line_def)
next
  case (Worker w)
  let ?s = "on_inner (ensure_tracked inst eid pid key disk) s"
  have "take_remote_work inst now eid pid key w ?s = (WorkRun r, s')" using assms Worker by (simp add: take_work_def Let_def)
  from take_remote_work_run[OF this] obtain inner k q bl where t: "taken inst eid ?s inner k q bl s'" "r = qr_run_id q" by blast
  moreover have "same_line (sv_inner ?s) (sv_inner s)" using same_line_tracked by simp
  ultimately show ?thesis by (metis sv_inner_again(2))
qed

lemma run_cleared: "e \<in> set (engines_of (map_engines (\<lambda>e. if en_current_run e = Some r then f e else e) inner)) \<Longrightarrow>
    (\<And>e. en_current_run (f e) = None) \<Longrightarrow> en_current_run e \<noteq> Some r"
  by (auto simp: engines_of_def map_engines_def split: if_splits)

text \<open>
  C33: A run that was handed to an engine and never reached it goes back to where it stood: after
  \<^verbatim>\<open>abort_handoff\<close> the line is exactly the line before \<^verbatim>\<open>take_work\<close>, no engine holds the run, and with whole
  amounts every resource has the usage it had before.
\<close>

theorem aborted_handoff_restores:
  fixes ops totals n cpus max_runs
  defines "s \<equiv> fold sup_step ops (Supervisor_new totals n cpus max_runs)"
  assumes tw: "take_work inst now mtime disk eid pid key s = (WorkRun r, s')"
    and books: "books (sv_resources s)" "map_of (rs_leases (sv_resources s)) r = None"
    and whole: "\<forall>q \<in> set (queue_line (sv_inner s)). needs_ok (qr_needs q)"
  shows "fst (abort_handoff r s') \<and> queue_line (sv_inner (snd (abort_handoff r s'))) = queue_line (sv_inner s)
    \<and> (\<forall>e \<in> set (engines_of (sv_inner (snd (abort_handoff r s')))). en_current_run e \<noteq> Some r)
    \<and> used_of (sv_resources (snd (abort_handoff r s'))) name = used_of (sv_resources s) name"
proof -
  have ok: "queue_ok (sv_inner s)" using sup_history[of ops totals n cpus max_runs] by (simp add: s_def inner_ok_def)
  obtain s0 inner k q bl where t: "taken inst eid s0 inner k q bl s'" and r: "r = qr_run_id q"
    and same: "same_line (sv_inner s0) (sv_inner s)" "sv_resources s0 = sv_resources s"
    using take_work_run[OF tw] by blast
  have ok0: "queue_ok (sv_inner s0)" and l0: "queue_line (sv_inner s0) = queue_line (sv_inner s)"
    using same_line_ok[OF same(1) ok] same(1) by (simp_all add: same_line_def queue_line_def)
  note f = taken_facts[OF t ok0]
  define C where "C = map_engines (\<lambda>e. if en_current_run e = Some r then e\<lparr> en_current_run := None, en_run_since := None \<rparr> else e)
      ((sv_inner s')\<lparr> in_handoff := AList.delete r (in_handoff (sv_inner s')) \<rparr>)"
  have ab: "abort_handoff r s' = (True, s'\<lparr> sv_inner := inner_push q C, sv_resources := release_all r (sv_resources s') \<rparr>)"
    using f(5) r by (simp add: abort_handoff_def update_conv' Let_def C_def)
  have c: "queue_ok C" "queue_line C = queue_line (sv_inner s')"
    using f(3) by (simp_all add: queue_ok_def queue_line_def map_engines_def C_def)
  have q: "q \<in> set (queue_line (sv_inner s))" using f(1) l0 by simp
  have cs: "set (queue_line C) = {x \<in> set (queue_line (sv_inner s)). qr_run_id x \<noteq> r}"
    unfolding c(2) f(4) l0 r[symmetric] by simp
  then have "qr_run_id q \<notin> qr_run_id ` set (queue_line C)" by (auto simp flip: r)
  then have "set (queue_line (inner_push q C)) = insert q {x \<in> set (queue_line (sv_inner s)). qr_run_id x \<noteq> r}"
    using inner_push_facts(2)[OF c(1), of q] cs by simp
  also have "\<dots> = set (queue_line (sv_inner s))"
  proof -
    have "x = q" if "x \<in> set (queue_line (sv_inner s))" "qr_run_id x = r" for x
      using wq.line_unique[OF ok that(1) q] that(2) r by simp
    then show ?thesis using q by auto
  qed
  finally have "queue_line (inner_push q C) = queue_line (sv_inner s)"
    by (intro wq.same_members inner_push_facts(1) c(1) ok)
  moreover have "\<forall>e \<in> set (engines_of (inner_push q C)). en_current_run e \<noteq> Some r"
  proof
    fix e assume "e \<in> set (engines_of (inner_push q C))"
    then have "e \<in> set (engines_of C)" by (simp add: engines_of_def)
    then show "en_current_run e \<noteq> Some r" unfolding C_def by (rule run_cleared) simp
  qed
  moreover have "used_of (release_all r (sv_resources s')) name = used_of (sv_resources s) name"
    using acquire_release_used[OF books(1) _ _ books(2), of "qr_needs q"] f(6,7) r same(2) whole q by simp
  ultimately show ?thesis by (simp add: ab)
qed

theorem aborted_handoff_restores_witness:
  "\<exists>s'. take_work 0 0 None None ''a'' 1 bare_key (fold sup_step [Enqueue (sample_item 7)] (Supervisor_new [] 1 1 10)) = (WorkRun 7, s')
     \<and> queue_line (sv_inner (snd (abort_handoff 7 s'))) = [sample_item 7]"
proof -
  let ?s = "fold sup_step [Enqueue (sample_item 7)] (Supervisor_new [] 1 1 10)"
  obtain s' where s': "take_work 0 0 None None ''a'' 1 bare_key ?s = (WorkRun 7, s')" using sample_take by blast
  have line: "queue_line (sv_inner ?s) = [sample_item 7]"
    by (simp add: sup_eval queue_line_def)
  have res: "sv_resources ?s = Resources_default" by (simp add: sup_eval set_totals_def)
  have "books (sv_resources ?s)" "map_of (rs_leases (sv_resources ?s)) 7 = None"
    unfolding res by (simp_all add: books_default) (simp add: Resources_default_def)
  moreover have "\<forall>q \<in> set (queue_line (sv_inner ?s)). needs_ok (qr_needs q)"
    unfolding line by (simp add: needs_ok_def sample_item_def)
  ultimately show ?thesis using aborted_handoff_restores[OF s'] s' line by (intro exI[of _ s']) simp
qed

text \<open>
  When a run ends, nothing of it is left: it is not in the line, not marked as waiting, no hand-off of it is open,
  no engine holds it and none of its leases remain.
\<close>

theorem finished_run_leaves_nothing:
  fixes ops totals n cpus max_runs
  defines "s \<equiv> fold sup_step ops (Supervisor_new totals n cpus max_runs)"
  shows "\<not> queued r (run_finished r s) \<and> (\<forall>e \<in> set (engines_of (sv_inner (run_finished r s))). en_current_run e \<noteq> Some r)
    \<and> map_of (in_handoff (sv_inner (run_finished r s))) r = None \<and> map_of (in_waiting_marked (sv_inner (run_finished r s))) r = None
    \<and> map_of (rs_leases (sv_resources (run_finished r s))) r = None
    \<and> queue_line (sv_inner (run_finished r s)) = filter (\<lambda>q. qr_run_id q \<noteq> r) (queue_line (sv_inner s))"
proof -
  have ok: "queue_ok (sv_inner s)" using sup_history[of ops totals n cpus max_runs] by (simp add: s_def inner_ok_def)
  let ?i = "map_engines (finish_run r) ((sv_inner s)\<lparr> in_handoff := AList.delete r (in_handoff (sv_inner s)) \<rparr>)"
  let ?j = "snd (inner_remove r ?i)"
  have i: "queue_ok ?i" "queue_line ?i = queue_line (sv_inner s)"
    using ok by (simp_all add: queue_ok_def queue_line_def map_engines_def)
  have j: "queue_ok ?j" "set (queue_line ?j) = {q \<in> set (queue_line (sv_inner s)). qr_run_id q \<noteq> r}"
    using inner_remove_facts[OF i(1), of r] i(2) by simp_all
  have fin: "run_finished r s = s\<lparr> sv_inner := ?j\<lparr> in_waiting_marked := AList.delete r (in_waiting_marked ?j) \<rparr>,
      sv_resources := release_all r (sv_resources s) \<rparr>" by (simp add: run_finished_def Let_def)
  have "r \<notin> qr_run_id ` snd ` set (in_queue ?j)" using j(2) unfolding set_queue_line by blast
  then have "map_of (in_positions ?j) r = None" using indexed_dom[OF j(1)[unfolded queue_ok_def], of r] by blast
  moreover have "queue_line ?j = filter (\<lambda>q. qr_run_id q \<noteq> r) (queue_line (sv_inner s))"
    using inner_remove_line[OF i(1)] i(2) by simp
  moreover have "\<forall>e \<in> set (engines_of ?j). en_current_run e \<noteq> Some r"
    by (auto simp: engines_of_def map_engines_def finish_run_def split: if_splits)
  moreover have "map_of (in_handoff ?j) r = None" by (simp add: map_engines_def delete_conv')
  ultimately show ?thesis
    by (simp add: fin queued_def engines_of_def queue_line_def delete_conv' release_all_leases)
qed

theorem finished_run_leaves_nothing_witness:
  "\<not> queued 7 (run_finished 7 (fold sup_step [Enqueue (sample_item 7)] (Supervisor_new [] 1 1 10)))"
  using finished_run_leaves_nothing[of 7 "[Enqueue (sample_item 7)]"] by blast

end
