(* ===== verification/Pool_Sizing.thy ===== *)
theory Pool_Sizing
  imports Supervisor "HOL-Library.Multiset"
begin

text \<open>
  What the supervisor promises about the size of the pool: the cap on the server's own engines,
  the processors of a worker, the numbering of slots, and a resize while runs are in progress.
\<close>

section \<open>Counting engines\<close>

lemma filter_update_le:
  "length (filter P (map snd (AList.update k v al))) \<le> length (filter P (map snd al)) + (if P v then 1 else 0)"
  by (induction al) auto

lemma occupying_put:
  "occupying_at l (put_engine e inner) \<le> occupying_at l inner
     + (if en_location e = l \<and> (\<not> en_exit_requested e \<or> en_current_run e \<noteq> None) then 1 else 0)"
  using filter_update_le[of "\<lambda>e. en_location e = l \<and> (\<not> en_exit_requested e \<or> en_current_run e \<noteq> None)" "en_id e" e "in_engines inner"]
  by (simp add: occupying_at_def put_engine_def engines_of_def)

lemma in_starting_put [simp]: "in_starting (put_engine e inner) = in_starting inner"
  by (simp add: put_engine_def)

definition start_count :: "Inner \<Rightarrow> EngineKey \<Rightarrow> nat" where
  "start_count inner key = (case map_of (in_starting inner) key of Some n \<Rightarrow> n | None \<Rightarrow> 0)"

definition start_sum :: "Inner \<Rightarrow> nat" where
  "start_sum inner = sum_list (map snd (in_starting inner))"

lemma occupying_split: "occupying inner = occupying_at Local inner + start_sum inner"
  by (simp add: occupying_def start_sum_def)

lemma sum_snd_update:
  "distinct (map fst al) \<Longrightarrow> sum_list (map snd (AList.update k v al)) + (case map_of al k of Some n \<Rightarrow> n | None \<Rightarrow> 0) = sum_list (map snd al) + (v :: nat)"
  using sum_alist_update[of al "\<lambda>n. n" k v] by (simp add: case_prod_unfold)

lemma sum_snd_delete:
  "distinct (map fst al) \<Longrightarrow> sum_list (map snd (AList.delete k al)) + (case map_of al k of Some n \<Rightarrow> n | None \<Rightarrow> (0 :: nat)) = sum_list (map snd al)"
  using sum_alist_delete[of al "\<lambda>n. n" k] by (simp add: case_prod_unfold)

lemma request_spawn_counts:
  fixes p key
  assumes "starting_ok inner"
  defines "j \<equiv> snd (request_spawn p key inner)"
  shows "start_sum j = start_sum inner + 1" "start_count j = (start_count inner)(key := start_count inner key + 1)"
    "in_engines j = in_engines inner" "starting_ok j"
proof -
  have d: "distinct (map fst (in_starting inner))" using assms(1) by (simp add: starting_ok_def)
  have e: "in_starting j = AList.update key (start_count inner key + 1) (in_starting inner)"
    by (cases "map_of (in_starting inner) key") (simp_all add: entry_update_def start_count_def j_def request_spawn_def)
  show "start_sum j = start_sum inner + 1"
    using sum_snd_update[OF d, of key "start_count inner key + 1"] by (simp add: start_sum_def e flip: start_count_def)
  show "start_count j = (start_count inner)(key := start_count inner key + 1)"
    by (simp add: fun_eq_iff start_count_def[of j] e update_conv' start_count_def[of inner])
  show "in_engines j = in_engines inner" by (simp add: j_def request_spawn_def)
  have "\<forall>x \<in> set (AList.update key (start_count inner key + 1) (in_starting inner)). 0 < snd x"
    using set_update[of key "start_count inner key + 1" "in_starting inner"] assms(1) unfolding starting_ok_def by fastforce
  then show "starting_ok j" using d by (simp add: starting_ok_def e distinct_update)
qed

lemma occupying_request:
  "starting_ok inner \<Longrightarrow> occupying (snd (request_spawn p key inner)) = occupying inner + 1"
  using request_spawn_counts[of inner p key] by (simp add: occupying_split occupying_at_def engines_of_def)

lemma finish_one_counts:
  assumes ok: "starting_ok inner" and pos: "0 < start_count inner key"
  shows "start_sum (finish_one key inner) + 1 = start_sum inner"
    "start_count (finish_one key inner) = (start_count inner)(key := start_count inner key - 1)"
    "in_engines (finish_one key inner) = in_engines inner" "starting_ok (finish_one key inner)"
proof -
  have d: "distinct (map fst (in_starting inner))" using ok by (simp add: starting_ok_def)
  obtain n where n: "map_of (in_starting inner) key = Some n" "start_count inner key = n" "0 < n"
    using pos by (cases "map_of (in_starting inner) key") (auto simp: start_count_def)
  show "start_sum (finish_one key inner) + 1 = start_sum inner"
    using sum_snd_update[OF d, of key "n - 1"] sum_snd_delete[OF d, of key] n by (auto simp: finish_one_def start_sum_def)
  show "start_count (finish_one key inner) = (start_count inner)(key := start_count inner key - 1)"
    unfolding fun_eq_iff start_count_def[of "finish_one key inner"] using n
    by (auto simp: finish_one_def update_conv' delete_conv' start_count_def)
  show "in_engines (finish_one key inner) = in_engines inner" using n by (simp add: finish_one_def)
  have "inner_ok (Inner_default\<lparr> in_starting := in_starting inner \<rparr>)"
    using ok by (simp add: inner_ok_def queue_ok_def indexed_def engines_ok_def starting_ok_def Inner_default_def bt_sorted_def)
  from inner_ok_finish[OF this, of "[key]"] show "starting_ok (finish_one key inner)"
    using n by (simp add: inner_ok_def starting_ok_def finish_starting_def finish_one_def split: if_splits)
qed

lemma finish_starting_counts:
  assumes "starting_ok inner" "\<And>k. count_list keys k \<le> start_count inner k"
  shows "start_sum (finish_starting keys inner) + length keys = start_sum inner \<and>
    in_engines (finish_starting keys inner) = in_engines inner \<and> starting_ok (finish_starting keys inner)"
  using assms
proof (induction keys arbitrary: inner)
  case (Cons key keys)
  have pos: "0 < start_count inner key" using Cons.prems(2)[of key] by simp
  note f = finish_one_counts[OF Cons.prems(1) pos]
  have "count_list keys k \<le> start_count (finish_one key inner) k" for k
    using Cons.prems(2)[of k] f(2) by (auto split: if_splits)
  from Cons.IH[OF f(4) this] show ?case using f by (simp add: finish_starting_def)
qed (simp add: finish_starting_def)

section \<open>The cap on the server's own engines\<close>

lemma request_engines_counts:
  assumes "starting_ok inner"
  shows "let (reqs, left, j) = request_engines p m key n inner in starting_ok j
    \<and> (\<forall>k. start_count j k = start_count inner k + count_list (map snd reqs) k)
    \<and> occupying j \<le> max m (occupying inner)"
  using assms
proof (induction n arbitrary: inner)
  case (Suc n)
  show ?case
  proof (cases "m \<le> occupying inner")
    case True
    have "occupying (put_engine (v\<lparr> en_exit_requested := True \<rparr>) inner) \<le> occupying inner" if "en_current_run v = None" for v
      using occupying_put[of Local "v\<lparr> en_exit_requested := True \<rparr>" inner] that by (simp add: occupying_split start_sum_def)
    moreover have "List.find (evictable key) (engines_of inner) = Some v \<Longrightarrow> en_current_run v = None" for v
      using find_mem[of "evictable key" "engines_of inner" v] by (simp add: evictable_def)
    ultimately show ?thesis using True Suc.prems
      by (cases "List.find (evictable key) (engines_of inner)") (auto simp: starting_ok_def start_count_def max_def)
  next
    case False
    let ?j = "snd (request_spawn p key inner)"
    note r = request_spawn_counts[OF Suc.prems, of p key] and occ = occupying_request[OF Suc.prems, of p key]
    obtain reqs left j where q: "request_engines p m key n ?j = (reqs, left, j)" by (cases "request_engines p m key n ?j")
    have k: "snd (fst (request_spawn p key inner)) = key" by (simp add: request_spawn_def)
    have "request_engines p m key (Suc n) inner = (fst (request_spawn p key inner) # reqs, left, j)"
      using False q by (simp add: Let_def case_prod_unfold)
    then show ?thesis using Suc.IH[OF r(4)] q r(2) occ False k by (auto simp: max_def split: if_splits)
  qed
qed simp

lemma plan_counts:
  assumes "starting_ok inner"
  shows "let (reqs, spills, j) = capacity_plan p m d inner in starting_ok j
    \<and> (\<forall>k. start_count j k = start_count inner k + count_list (map snd reqs) k) \<and> occupying j \<le> max m (occupying inner)"
proof -
  have "let (reqs', spills', j) = fold (plan_key p m) d (reqs, spills, i) in starting_ok j
    \<and> (\<forall>k. start_count j k = start_count inner k + count_list (map snd reqs') k) \<and> occupying j \<le> max m (occupying inner)"
    if "starting_ok i" "\<forall>k. start_count i k = start_count inner k + count_list (map snd reqs) k" "occupying i \<le> max m (occupying inner)"
    for reqs spills i
    using that
  proof (induction d arbitrary: reqs spills i)
    case (Cons e d)
    obtain key pending flows where e: "e = (key, pending, flows)" by (cases e)
    obtain more left j where q: "request_engines p m key (pending - usable_local key i) i = (more, left, j)"
      by (cases "request_engines p m key (pending - usable_local key i) i")
    have st: "plan_key p m e (reqs, spills, i) =
        (reqs @ more, if 0 < left \<and> flows \<noteq> [] then spills @ [(key, left, flows)] else spills, j)"
      using q by (simp add: plan_key_def e)
    have "starting_ok j" "\<forall>k. start_count j k = start_count i k + count_list (map snd more) k" "occupying j \<le> max m (occupying i)"
      using request_engines_counts[OF Cons.prems(1), of p m key "pending - usable_local key i"] q by auto
    then have "starting_ok j" "\<forall>k. start_count j k = start_count inner k + count_list (map snd (reqs @ more)) k"
      "occupying j \<le> max m (occupying inner)" using Cons.prems by (auto simp: max_def split: if_splits)
    from Cons.IH[OF this] show ?case unfolding fold_simps comp_def st by blast
  qed simp
  from this[of inner "[]" "[]"] show ?thesis using assms by (simp add: capacity_plan_def)
qed

lemma register_occupying:
  "occupying (register_engines inst mtime sp inner) \<le> occupying inner + length sp
   \<and> in_starting (register_engines inst mtime sp inner) = in_starting inner"
proof (induction sp arbitrary: inner)
  case (Cons x sp)
  obtain i key pid where x: "x = (i, key, pid)" by (cases x)
  let ?e = "(Engine_new inst (mtime key) i key (Some pid) True False)\<lparr> en_slot := free_slot Local inner \<rparr>"
  have "occupying (put_engine ?e inner) \<le> occupying inner + 1"
    using occupying_put[of Local ?e inner] by (simp add: occupying_split start_sum_def split: if_splits)
  then show ?case using Cons.IH[of "put_engine ?e inner"] by (simp add: register_engines_def x)
qed (simp add: register_engines_def)

lemma start_on_local: "occupying (start_on inst key w slot inner) \<le> occupying inner"
    "in_starting (start_on inst key w slot inner) = in_starting inner"
proof -
  have st: "in_starting (start_on inst key w slot inner) = in_starting inner"
    by (simp add: start_on_def Let_def)
  then show "in_starting (start_on inst key w slot inner) = in_starting inner" .
  have "occupying_at Local (start_on inst key w slot inner) \<le> occupying_at Local inner"
    unfolding start_on_def Let_def by (rule order_trans[OF occupying_put]) (simp add: occupying_at_def engines_of_def)
  then show "occupying (start_on inst key w slot inner) \<le> occupying inner"
    using st by (simp add: occupying_split start_sum_def)
qed

lemma spill_local: "occupying (spill inst key flows n inner) \<le> occupying inner \<and> in_starting (spill inst key flows n inner) = in_starting inner"
proof (induction n arbitrary: inner)
  case (Suc n)
  show ?case
  proof (cases "spill_choice key flows inner")
    case (Some c)
    obtain w x where c: "c = (w, x)" by force
    show ?thesis
    proof (cases "map_of (in_workers inner) w")
      case slot: (Some slot)
      then show ?thesis using Suc.IH[of "start_on inst key w slot inner"] start_on_local[of inst key w slot inner] Some c
        by (auto intro: order_trans)
    qed (simp add: Some c)
  qed simp
qed simp

lemma fold_local:
  assumes "\<And>x inner. occupying (f x inner) \<le> occupying inner \<and> in_starting (f x inner) = in_starting inner"
  shows "occupying (fold f xs inner) \<le> occupying inner \<and> in_starting (fold f xs inner) = in_starting inner"
proof (induction xs arbitrary: inner)
  case (Cons x xs)
  then show ?case using assms[of x inner] Cons.IH[of "f x inner"] by (auto intro: order_trans)
qed simp

lemma recheck_counts:
  assumes "starting_ok inner"
  shows "let (reqs, j) = fold (recheck p m) d ([], inner) in starting_ok j
    \<and> (\<forall>k. start_count j k = start_count inner k + count_list (map snd reqs) k) \<and> occupying j \<le> max m (occupying inner)"
proof -
  have "let (reqs', j) = fold (recheck p m) d (reqs, i) in starting_ok j
    \<and> (\<forall>k. start_count j k = start_count inner k + count_list (map snd reqs') k) \<and> occupying j \<le> max m (occupying inner)"
    if "starting_ok i" "\<forall>k. start_count i k = start_count inner k + count_list (map snd reqs) k" "occupying i \<le> max m (occupying inner)"
    for reqs i
    using that
  proof (induction d arbitrary: reqs i)
    case (Cons e d)
    obtain key pending flows where e: "e = (key, pending, flows)" by (cases e)
    show ?case
    proof (cases "0 < pending - usable_local key i \<and> occupying i < m")
      case True
      let ?j = "snd (request_spawn p key i)" and ?r = "fst (request_spawn p key i)"
      note r = request_spawn_counts[OF Cons.prems(1), of p key]
      have st: "recheck p m e (reqs, i) = (reqs @ [?r], ?j)" using True by (simp add: recheck_def e Let_def case_prod_unfold)
      have k: "snd ?r = key" by (simp add: request_spawn_def)
      have "\<forall>k. start_count ?j k = start_count inner k + count_list (map snd (reqs @ [?r])) k"
        using Cons.prems(2) r(2) k by simp
      moreover have "occupying ?j \<le> max m (occupying inner)" using occupying_request[OF Cons.prems(1), of p key] True by (auto simp: max_def)
      ultimately show ?thesis using Cons.IH[OF r(4)] unfolding fold_simps comp_def st by blast
    next
      case False
      then have "recheck p m e (reqs, i) = (reqs, i)" by (auto simp: recheck_def e)
      then show ?thesis using Cons.IH[OF Cons.prems] unfolding fold_simps comp_def by simp
    qed
  qed simp
  from this[of inner "[]"] show ?thesis using assms by simp
qed

lemma spawn_all_length: "length (spawn_all spawn reqs) \<le> length reqs"
  unfolding spawn_all_def List.map_filter_def by (simp add: le_trans[OF length_filter_le])

text \<open>Starting the requested processes and recording those that started frees as many places as it takes.\<close>

lemma settle_requests:
  fixes inst mtime spawn
  assumes ok: "starting_ok inner" and c: "\<And>k. count_list (map snd reqs) k \<le> start_count inner k"
  defines "j \<equiv> register_engines inst mtime (spawn_all spawn reqs) (finish_starting (map snd reqs) inner)"
  shows "occupying j \<le> occupying inner" "starting_ok j"
proof -
  let ?f = "finish_starting (map snd reqs) inner"
  note f = finish_starting_counts[OF ok c]
  note r = register_occupying[of inst mtime "spawn_all spawn reqs" ?f]
  have "occupying ?f + length reqs = occupying inner"
    using f by (simp add: occupying_split occupying_at_def engines_of_def)
  then show "occupying j \<le> occupying inner" using r spawn_all_length[of spawn reqs] by (simp add: j_def)
  show "starting_ok j" using f r by (simp add: j_def starting_ok_def)
qed


section \<open>Slots and names\<close>

text \<open>
  A new engine gets the lowest processor slot of its host that no engine there has: slots start at one,
  the one given is free, and every lower one is taken.
\<close>

theorem free_slot_least:
  "0 < free_slot l inner \<and> free_slot l inner \<notin> set (slots_at l inner)
   \<and> (\<forall>n. 0 < n \<and> n < free_slot l inner \<longrightarrow> n \<in> set (slots_at l inner))"
proof -
  let ?t = "slots_at l inner" and ?c = "[1..<length (slots_at l inner) + 2]"
  have "\<not> set ?c \<subseteq> set ?t"
  proof
    assume "set ?c \<subseteq> set ?t"
    then have "card (set ?c) \<le> card (set ?t)" by (rule card_mono[OF finite_set])
    also have "\<dots> \<le> length ?t" by (rule card_length)
    finally show False by (simp del: upt_Suc)
  qed
  then have ex: "\<exists>n \<in> set ?c. n \<notin> set ?t" by blast
  then obtain n where n: "List.find (\<lambda>n. n \<notin> set ?t) ?c = Some n" by (cases "List.find (\<lambda>n. n \<notin> set ?t) ?c") (auto simp: find_None_iff)
  then obtain i where i: "i < length ?c" "n = ?c ! i" "n \<notin> set ?t" "\<forall>j < i. ?c ! j \<in> set ?t"
    by (auto simp: find_Some_iff)
  have "m \<in> set ?t" if "0 < m" "m < n" for m
  proof -
    have "m - 1 < i" "?c ! (m - 1) = m" using that i(1,2) by (auto simp: nth_upt simp del: upt_Suc)
    then show ?thesis using i(4) by metis
  qed
  moreover have "0 < n" using i(1,2) by (simp del: upt_Suc)
  ultimately show ?thesis using n i(3) by (auto simp: free_slot_def Let_def)
qed

theorem free_slot_least_witness:
  "(0::nat) < 1 \<and> free_slot Local Inner_default \<notin> set (slots_at Local Inner_default)"
  using free_slot_least[of Local Inner_default] by simp

lemma digit_value_digit: "d < 10 \<Longrightarrow> digit_value (digit d) = Some d"
  by (simp add: digit_value_def Let_def digit_code)

lemma digits_value_append: "digits_value a (xs @ ys) = Option.bind (digits_value a xs) (\<lambda>b. digits_value b ys)"
  by (induction xs arbitrary: a) (auto split: option.splits)

lemma digits_value_show: "digits_value 0 (show_nat n) = Some n"
proof (induction n rule: less_induct)
  case (less n)
  show ?case
  proof (cases "n < 10")
    case True
    then show ?thesis by (subst show_nat.simps) (simp add: digit_value_digit)
  next
    case False
    then show ?thesis using less[of "n div 10"]
      by (subst show_nat.simps) (simp add: digits_value_append digit_value_digit)
  qed
qed

lemma split_once_dash: "CHR ''-'' \<notin> set a \<Longrightarrow> split_once ''-'' (a @ CHR ''-'' # b) = Some (a, b)"
  by (induction a) (auto simp: starts_with_def)

lemma show_nat_head: "\<exists>c cs. show_nat n = c # cs \<and> c \<noteq> CHR ''-'' \<and> c \<noteq> CHR ''+''"
proof -
  obtain c cs where c: "show_nat n = c # cs" using show_nat_nonempty(1)[of n] by (cases "show_nat n") auto
  then obtain d where "d < 10" "c = digit d" using show_nat_digits[of c n] by auto
  then have "c \<noteq> CHR ''-''" "c \<noteq> CHR ''+''" using digit_code[of d] by auto
  then show ?thesis using c by blast
qed

lemma parse_show_nat: "int n \<le> i64_max \<Longrightarrow> parse_i64 (show_nat n) = Some (int n)"
proof -
  assume n: "int n \<le> i64_max"
  obtain c cs where c: "show_nat n = c # cs" "c \<noteq> CHR ''-''" "c \<noteq> CHR ''+''" using show_nat_head by blast
  have "in_i64 (int n)" using n by (simp add: in_i64_def i64_min_def)
  then show ?thesis using c digits_value_show[of n] by (simp add: parse_i64_def)
qed

text \<open>
  The names the server gives engines tell where they run: a name made for a worker's engine reads back as
  that worker, whatever its number, and a name made for one of its own engines reads back as local.
\<close>

theorem engine_names_locate:
  "(int w \<le> i64_max \<longrightarrow> of_engine (''w'' @ show_int (int w) @ ''-'' @ show_nat n) = Worker (int w))
   \<and> of_engine (fst (fst (request_spawn p key inner))) = Local"
proof -
  have "CHR ''-'' \<notin> set (show_nat w)"
    using show_nat_digits[of "CHR ''-''" w] digit_not(1) by metis
  then have "split_once ''-'' (show_nat w @ CHR ''-'' # show_nat n) = Some (show_nat w, show_nat n)" by (rule split_once_dash)
  then have "int w \<le> i64_max \<Longrightarrow> of_engine (''w'' @ show_int (int w) @ ''-'' @ show_nat n) = Worker (int w)"
    using parse_show_nat[of w] by (simp add: of_engine_def strip_prefix_def show_int_def starts_with_def)
  moreover have "of_engine (fst (fst (request_spawn p key inner))) = Local"
    by (simp add: of_engine_def request_spawn_def strip_prefix_def starts_with_def)
  ultimately show ?thesis by blast
qed

theorem engine_names_locate_witness: "of_engine (''w'' @ show_int 7 @ ''-'' @ show_nat 3) = Worker 7"
  using engine_names_locate[of 7 3] by (simp add: i64_max_def)

section \<open>Resizing while runs are in progress\<close>

lemma max_by_key_mem: "max_by_key f xs = Some x \<Longrightarrow> x \<in> set xs"
  by (induction xs arbitrary: x) (auto split: option.splits if_splits)

lemma engines_of_map: "engines_of (map_engines f inner) = map f (engines_of inner)"
  by (simp add: engines_of_def map_engines_def case_prod_unfold)

text \<open>What a resize may change of an engine: whether it is told to leave, and since when it drains.\<close>

definition holding :: "Inner \<Rightarrow> (string \<times> EngineKey \<times> int option \<times> nat) list" where
  "holding inner = map (\<lambda>e. (en_id e, en_key e, en_current_run e, en_slot e)) (engines_of inner)"

lemma holding_map:
  "(\<And>e. (en_id (f e), en_key (f e), en_current_run (f e), en_slot (f e)) = (en_id e, en_key e, en_current_run e, en_slot e)) \<Longrightarrow>
     holding (map_engines f inner) = holding inner"
  by (simp add: holding_def engines_of_map comp_def)

lemma undo_drains_holding: "holding (undo_drains fuel live n inner) = holding inner"
  by (induction fuel arbitrary: live inner) (auto simp: holding_map split: option.splits)

lemma shrink_holding: "holding (shrink_pool inst n inner) = holding inner"
  by (auto simp: shrink_pool_def Let_def holding_map)

lemma engines_ids_distinct: "engines_ok inner \<Longrightarrow> distinct (map en_id (engines_of inner))"
proof -
  assume "engines_ok inner"
  then have "map en_id (engines_of inner) = map fst (in_engines inner)" "distinct (map fst (in_engines inner))"
    by (simp_all add: engines_ok_def engines_of_def)
  then show ?thesis by simp
qed

lemma live_after_leave:
  assumes "\<And>e. en_id e \<in> I \<Longrightarrow> \<not> live_local (f e)" "\<And>e. en_id e \<notin> I \<Longrightarrow> f e = e"
  shows "filter live_local (map f es) = filter (\<lambda>e. en_id e \<notin> I) (filter live_local es)"
proof (induction es)
  case (Cons e es)
  then show ?case using assms[of e] by (cases "en_id e \<in> I") auto
qed simp

lemma shrink_live:
  assumes "engines_ok inner"
  shows "length (filter live_local (engines_of (shrink_pool inst n inner))) \<le> n"
proof (cases "n < length (filter live_local (engines_of inner))")
  case True
  let ?live = "filter live_local (engines_of inner)"
  let ?out = "take (length ?live - n) (drain_order ?live)"
  let ?ids = "map en_id ?out"
  let ?f = "\<lambda>e. if en_id e \<in> set ?ids then e\<lparr> en_exit_requested := True,
      en_drained_at := (if en_current_run e \<noteq> None then Some inst else en_drained_at e) \<rparr> else e"
  have d: "distinct (map en_id ?live)" using engines_ids_distinct[OF assms] by (rule distinct_map_filter)
  have perm: "mset (drain_order ?live) = mset ?live" unfolding drain_order_def by (rule mset_sort)
  then have len: "length (drain_order ?live) = length ?live" "set (drain_order ?live) = set ?live"
    using mset_eq_length mset_eq_setD by blast+
  have "mset (map en_id (drain_order ?live)) = mset (map en_id ?live)" using perm by (simp only: mset_map)
  then have "distinct (map en_id (drain_order ?live))" using d by (metis mset_eq_imp_distinct_iff)
  then have ids: "distinct ?ids" by (simp add: take_map[symmetric] distinct_take)
  have sub: "set ?ids \<subseteq> set (map en_id ?live)" using set_take_subset[of "length ?live - n" "drain_order ?live"] len(2) by auto
  have "filter live_local (map ?f (engines_of inner)) = filter (\<lambda>e. en_id e \<notin> set ?ids) ?live"
    by (rule live_after_leave) (simp_all add: live_local_def)
  then have "map en_id (filter live_local (map ?f (engines_of inner))) = filter (\<lambda>i. i \<notin> set ?ids) (map en_id ?live)"
    by (simp add: filter_map comp_def)
  from arg_cong[OF this, of length]
  have "length (filter live_local (map ?f (engines_of inner))) = length (filter (\<lambda>i. i \<notin> set ?ids) (map en_id ?live))"
    unfolding length_map .
  also have "\<dots> = card (set (map en_id ?live) - set ?ids)"
    using distinct_card[OF distinct_filter[OF d, of "\<lambda>i. i \<notin> set ?ids"]] by (simp add: set_diff_eq)
  also have "\<dots> = length ?live - length ?ids"
    using sub d ids by (simp add: card_Diff_subset distinct_card del: set_map)
  also have "\<dots> = n" using True len(1) by simp
  finally show ?thesis using True by (simp add: shrink_pool_def Let_def engines_of_map)
qed (simp add: shrink_pool_def)

text \<open>
  The pool can be resized while runs are in progress without interrupting one: every engine keeps its
  run, its code and its slot, and the engines that are not on their way out number at most the new size,
  which is the size asked for, clamped to between one and the number of processors.
\<close>

theorem resize_interrupts_nothing:
  fixes ops totals n cpus max_runs
  defines "s \<equiv> fold sup_step ops (Supervisor_new totals n cpus max_runs)"
  shows "holding (sv_inner (set_max_engines inst k s)) = holding (sv_inner s)
    \<and> length (filter live_local (engines_of (sv_inner (set_max_engines inst k s)))) \<le> sv_max_engines (set_max_engines inst k s)
    \<and> sv_max_engines (set_max_engines inst k s) = clamp k 1 (sv_cpu_cap s)"
proof -
  have ok: "inner_ok (sv_inner s)" using sup_history[of ops totals n cpus max_runs] by (simp add: s_def)
  then have "engines_ok (undo_drains fuel live m (sv_inner s))" for fuel live m
    using undo_drains_ok by (auto simp: inner_ok_def)
  from shrink_live[OF this] show ?thesis
    by (simp add: set_max_engines_def Let_def shrink_holding undo_drains_holding)
qed

end
