(* ===== verification/Schedules.thy ===== *)
theory Schedules
  imports F64
begin

text \<open>
  Schedules and their fire times (\<^verbatim>\<open>crates/core/src/schedule.rs\<close>). An instant is
  its microseconds since the epoch; a local time of a zone is the microseconds
  its calendar reading denotes, so that its date is the quotient by a day. The
  calendar arithmetic of \<^verbatim>\<open>chrono\<close>, the zones of \<^verbatim>\<open>chrono_tz\<close>, the cron expressions
  of \<^verbatim>\<open>croner\<close> and the recurrence sets of \<^verbatim>\<open>rrule\<close> are other people's code: they are
  the fields of the parameter \<open>cal\<close>, with the environment the program reads.
  What the code relies on is stated as hypotheses on those fields.
\<close>

datatype CatchupPolicy = CatchSkip | CatchLatest | CatchAll

fun CatchupPolicy_as_str :: "CatchupPolicy \<Rightarrow> string" where
  "CatchupPolicy_as_str CatchSkip = ''skip''"
| "CatchupPolicy_as_str CatchLatest = ''latest''"
| "CatchupPolicy_as_str CatchAll = ''all''"

definition CatchupPolicy_parse :: "string \<Rightarrow> CatchupPolicy option" where
  "CatchupPolicy_parse text =
     (let t = to_ascii_lowercase text in
      if t = ''skip'' then Some CatchSkip
      else if t = ''latest'' then Some CatchLatest
      else if t = ''all'' then Some CatchAll
      else None)"

datatype Schedule =
    Cron string "string option" bool
  | Interval f64 "micros option" "string option"
  | RRule string "string option"
  | Continuous f64

datatype ScheduleError =
    CronError string string
  | TimezoneError string
  | IntervalError
  | RRuleError string
  | InvalidError string

fun ScheduleError_to_string :: "ScheduleError \<Rightarrow> string" where
  "ScheduleError_to_string (CronError expr message) = ''invalid cron expression '' @ debug_str expr @ '': '' @ message"
| "ScheduleError_to_string (TimezoneError n) = ''unknown timezone '' @ debug_str n"
| "ScheduleError_to_string IntervalError = ''interval must be positive''"
| "ScheduleError_to_string (RRuleError message) = ''invalid rrule: '' @ message"
| "ScheduleError_to_string (InvalidError message) = message"

text \<open>A zone of \<^verbatim>\<open>chrono_tz\<close>: its name, the local reading of an instant, and the
  earliest instant with a given local reading, if there is one.\<close>

record Tz =
  tz_name :: string
  tz_to_local :: "micros \<Rightarrow> int"
  tz_from_local :: "int \<Rightarrow> micros option"

text \<open>
  The libraries and the environment: the \<^verbatim>\<open>TZ\<close> variable, the target of
  \<^verbatim>\<open>/etc/localtime\<close>, the parser of zone names, the instants and dates the calendar
  can hold, and the two recurrence libraries. \<open>rrule_all set tz after n\<close> lists the
  first \<open>n\<close> occurrences not before \<open>after\<close>.
\<close>

record ('c, 'r) calendar =
  env_TZ :: "string option"
  localtime_link :: "string option"
  parse_tz :: "string \<Rightarrow> Tz option"
  utc_tz :: Tz
  instant_ok :: "micros \<Rightarrow> bool"
  date_ok :: "int \<Rightarrow> bool"
  croner_parse :: "string \<Rightarrow> bool \<Rightarrow> string + 'c"
  croner_next :: "'c \<Rightarrow> Tz \<Rightarrow> micros \<Rightarrow> micros option"
  croner_previous :: "'c \<Rightarrow> Tz \<Rightarrow> micros \<Rightarrow> micros option"
  rrule_parse :: "string \<Rightarrow> string + 'r"
  rrule_all :: "'r \<Rightarrow> Tz \<Rightarrow> micros \<Rightarrow> nat \<Rightarrow> micros list"

definition local_tz :: "('c, 'r) calendar \<Rightarrow> Tz" where
  "local_tz cal =
     (case Option.bind (env_TZ cal) (parse_tz cal) of
        Some tz \<Rightarrow> tz
      | None \<Rightarrow>
         (case Option.bind (localtime_link cal) (split_once ''zoneinfo/'') of
            Some (_, name) \<Rightarrow> (case parse_tz cal name of Some tz \<Rightarrow> tz | None \<Rightarrow> utc_tz cal)
          | None \<Rightarrow> utc_tz cal))"

definition resolve_tz :: "('c, 'r) calendar \<Rightarrow> string option \<Rightarrow> ScheduleError + Tz" where
  "resolve_tz cal name =
     (case name of
        None \<Rightarrow> Inr (local_tz cal)
      | Some n \<Rightarrow>
         if n = [] \<or> n = ''local'' then Inr (local_tz cal)
         else case parse_tz cal n of Some tz \<Rightarrow> Inr tz | None \<Rightarrow> Inl (TimezoneError n))"

text \<open>\<open>now\<close> is what \<^verbatim>\<open>Utc::now\<close> returns; an instant outside the calendar reads as now.\<close>

definition from_micros :: "('c, 'r) calendar \<Rightarrow> micros \<Rightarrow> micros \<Rightarrow> micros" where
  "from_micros cal now m = (if instant_ok cal m then m else now)"

section \<open>Parsing\<close>

definition parse_cron :: "('c, 'r) calendar \<Rightarrow> string \<Rightarrow> bool \<Rightarrow> ScheduleError + 'c" where
  "parse_cron cal expr day_or =
     (case croner_parse cal expr day_or of Inl message \<Rightarrow> Inl (CronError expr message) | Inr c \<Rightarrow> Inr c)"

definition str_contains :: "string \<Rightarrow> string \<Rightarrow> bool" where
  "str_contains s pat \<longleftrightarrow> split_once pat s \<noteq> None"

definition newline :: char where
  "newline = char_of (10 :: nat)"

text \<open>\<^verbatim>\<open>str::replace\<close> of a pattern that is not empty, and \<^verbatim>\<open>replacen\<close> with a count of one.\<close>

function replace_all :: "string \<Rightarrow> string \<Rightarrow> string \<Rightarrow> string" where
  "replace_all pat rep s =
     (if pat = [] then s else
      case split_once pat s of
        None \<Rightarrow> s
      | Some (a, b) \<Rightarrow> a @ rep @ replace_all pat rep b)"
  by pat_completeness auto
termination
  by (relation "measure (\<lambda>(_, _, s). length s)") (auto dest!: split_once_shorter)

declare replace_all.simps [simp del]

definition replace_first :: "string \<Rightarrow> string \<Rightarrow> string \<Rightarrow> string" where
  "replace_first pat rep s = (case split_once pat s of None \<Rightarrow> s | Some (a, b) \<Rightarrow> a @ rep @ b)"

text \<open>\<^verbatim>\<open>str::lines\<close>: the pieces ended by line feeds, less a carriage return; no line after the last feed.\<close>

fun split_lines :: "string \<Rightarrow> string \<Rightarrow> string list" where
  "split_lines acc [] = (if acc = [] then [] else [rev acc])"
| "split_lines acc (c # cs) = (if c = newline then rev acc # split_lines [] cs else split_lines (c # acc) cs)"

definition str_lines :: "string \<Rightarrow> string list" where
  "str_lines s = map (\<lambda>l. case strip_suffix l [char_of (13 :: nat)] of Some l' \<Rightarrow> l' | None \<Rightarrow> l) (split_lines [] s)"

definition dtstart_names_a_zone :: "string \<Rightarrow> bool" where
  "dtstart_names_a_zone text =
     (case List.find (\<lambda>l. starts_with (to_ascii_uppercase l) ''DTSTART'') (str_lines text) of
        None \<Rightarrow> False
      | Some line \<Rightarrow>
         (let upper = to_ascii_uppercase line in
          str_contains upper ''TZID='' \<or> ends_with (trim_end upper) ''Z''))"

definition parse_rrule :: "('c, 'r) calendar \<Rightarrow> string \<Rightarrow> Tz \<Rightarrow> ScheduleError + 'r" where
  "parse_rrule cal text tz =
     (if \<not> str_contains (to_ascii_uppercase text) ''DTSTART''
      then Inl (RRuleError ''rrule must include DTSTART'')
      else
        let normalized = replace_all (CHR 0x5C # ''n'') [newline] text;
            normalized = (if dtstart_names_a_zone normalized then normalized
                          else replace_first ''DTSTART:'' (''DTSTART;TZID='' @ tz_name tz @ '':'') normalized)
        in case rrule_parse cal normalized of Inl e \<Rightarrow> Inl (RRuleError e) | Inr rset \<Rightarrow> Inr rset)"

datatype ('c, 'r) Compiled =
    CompiledCron 'c Tz
  | CompiledInterval f64 micros Tz
  | CompiledRRule 'r Tz
  | CompiledNone

fun compile :: "('c, 'r) calendar \<Rightarrow> micros \<Rightarrow> Schedule \<Rightarrow> ScheduleError + ('c, 'r) Compiled" where
  "compile cal now (Cron cron timezone day_or) =
     (case parse_cron cal cron day_or of
        Inl e \<Rightarrow> Inl e
      | Inr c \<Rightarrow> (case resolve_tz cal timezone of Inl e \<Rightarrow> Inl e | Inr tz \<Rightarrow> Inr (CompiledCron c tz)))"
| "compile cal now (Interval interval anchor timezone) =
     (case resolve_tz cal timezone of
        Inl e \<Rightarrow> Inl e
      | Inr tz \<Rightarrow>
         Inr (CompiledInterval interval (from_micros cal now (case anchor of Some a \<Rightarrow> a | None \<Rightarrow> 0)) tz))"
| "compile cal now (RRule rrule timezone) =
     (case resolve_tz cal timezone of
        Inl e \<Rightarrow> Inl e
      | Inr tz \<Rightarrow> (case parse_rrule cal rrule tz of Inl e \<Rightarrow> Inl e | Inr rset \<Rightarrow> Inr (CompiledRRule rset tz)))"
| "compile cal now (Continuous _) = Inr CompiledNone"

section \<open>The next fire\<close>

fun f64_floor :: "f64 \<Rightarrow> f64" where
  "f64_floor (Fin x) = Fin (of_int \<lfloor>x\<rfloor>)"
| "f64_floor x = x"

text \<open>\<^verbatim>\<open>f64::round\<close>: half away from zero.\<close>

fun f64_round :: "f64 \<Rightarrow> f64" where
  "f64_round (Fin x) = Fin (of_int (if 0 \<le> x then \<lfloor>x + 1 / 2\<rfloor> else - \<lfloor>- x + 1 / 2\<rfloor>))"
| "f64_round x = x"

definition DAY :: int where
  "DAY = 86400000000"

definition MINUTE :: int where
  "MINUTE = 60000000"

text \<open>An interval under a day: fixed seconds since the anchor. Adding to an instant panics outside the calendar.\<close>

definition elapsed_next :: "('c, 'r) calendar \<Rightarrow> f64 \<Rightarrow> micros \<Rightarrow> micros \<Rightarrow> (ScheduleError + micros option) outcome" where
  "elapsed_next cal secs anchor after =
     (let d = after - anchor;
          elapsed = f64_div (f64_of_int (if in_i64 d then d else 0)) (Fin 1000000);
          steps = (if f64_lt elapsed (Fin 0) then Fin 0
                   else f64_add (f64_floor (f64_div elapsed secs)) (Fin 1));
          next_fire = anchor + f64_to_i64 (f64_mul (f64_mul steps secs) (Fin 1000000))
      in if instant_ok cal next_fire then Value (Inr (Some next_fire)) else Panic)"

text \<open>The instant a local time names: the local time itself, or the first minute after a gap, up to three hours on.\<close>

definition local_to_instant :: "Tz \<Rightarrow> int \<Rightarrow> micros option" where
  "local_to_instant tz naive =
     (case tz_from_local tz naive of
        Some i \<Rightarrow> Some i
      | None \<Rightarrow>
         (case List.find (\<lambda>m. tz_from_local tz (naive + m * MINUTE) \<noteq> None) [1..180] of
            Some m \<Rightarrow> tz_from_local tz (naive + m * MINUTE)
          | None \<Rightarrow> None))"

text \<open>The loop over the candidates \<^verbatim>\<open>first..\<close>; \<open>date\<close> and \<open>tod\<close> are the anchor's local date and time of day.\<close>

fun wall_candidates ::
  "('c, 'r) calendar \<Rightarrow> Tz \<Rightarrow> int \<Rightarrow> int \<Rightarrow> int \<Rightarrow> micros \<Rightarrow> int list \<Rightarrow> micros \<Rightarrow> (ScheduleError + micros option) outcome" where
  "wall_candidates cal tz date tod days after [] candidate = Value (Inr (Some candidate))"
| "wall_candidates cal tz date tod days after (steps # rest) candidate =
     (if \<not> date_ok cal (date + steps * days) then Panic
      else
        let candidate = (case local_to_instant tz ((date + steps * days) * DAY + tod) of
                           Some i \<Rightarrow> i | None \<Rightarrow> candidate)
        in if after < candidate then Value (Inr (Some candidate))
           else wall_candidates cal tz date tod days after rest candidate)"

definition wall_days :: "f64 \<Rightarrow> int" where
  "wall_days secs = f64_to_i64 (f64_max (f64_round (f64_div secs (Fin 86400))) (Fin 1))"

definition wall_next :: "('c, 'r) calendar \<Rightarrow> f64 \<Rightarrow> micros \<Rightarrow> Tz \<Rightarrow> micros \<Rightarrow> (ScheduleError + micros option) outcome" where
  "wall_next cal secs anchor tz after =
     (let days = wall_days secs;
          date = tz_to_local tz anchor div DAY;
          tod = tz_to_local tz anchor mod DAY;
          elapsed_days = tz_to_local tz after div DAY - date;
          first = max (tdiv elapsed_days days) 0
      in if after < anchor then Value (Inr (Some anchor))
         else wall_candidates cal tz date tod days after [first, first + 1, first + 2, first + 3] anchor)"

fun compiled_next :: "('c, 'r) calendar \<Rightarrow> ('c, 'r) Compiled \<Rightarrow> micros \<Rightarrow> (ScheduleError + micros option) outcome" where
  "compiled_next cal (CompiledCron c tz) after = Value (Inr (croner_next cal c tz after))"
| "compiled_next cal (CompiledInterval secs anchor tz) after =
     (if f64_le secs (Fin 0) \<or> secs = NaN then Value (Inl IntervalError)
      else if f64_lt secs (Fin 86400) then elapsed_next cal secs anchor after
      else wall_next cal secs anchor tz after)"
| "compiled_next cal (CompiledRRule rset tz) after =
     Value (Inr (List.find (\<lambda>d. after < d) (rrule_all cal rset tz after 8)))"
| "compiled_next cal CompiledNone after = Value (Inr None)"

fun previous_from :: "('c, 'r) calendar \<Rightarrow> ('c, 'r) Compiled \<Rightarrow> micros \<Rightarrow> micros \<Rightarrow> micros option" where
  "previous_from cal (CompiledCron c tz) after lowest =
     (case croner_previous cal c tz after of
        None \<Rightarrow> None
      | Some found \<Rightarrow> if lowest \<le> found then Some found else None)"
| "previous_from cal (CompiledInterval _ _ _) after lowest = None"
| "previous_from cal (CompiledRRule _ _) after lowest = None"
| "previous_from cal CompiledNone after lowest = None"

section \<open>Operations of a schedule\<close>

fun with_anchor_if_missing :: "micros \<Rightarrow> Schedule \<Rightarrow> Schedule" where
  "with_anchor_if_missing now (Interval secs None tz) = Interval secs (Some now) tz"
| "with_anchor_if_missing now s = s"

fun validate :: "('c, 'r) calendar \<Rightarrow> Schedule \<Rightarrow> ScheduleError + unit" where
  "validate cal (Cron cron timezone day_or) =
     (case resolve_tz cal timezone of
        Inl e \<Rightarrow> Inl e
      | Inr _ \<Rightarrow> (case parse_cron cal cron day_or of Inl e \<Rightarrow> Inl e | Inr _ \<Rightarrow> Inr ()))"
| "validate cal (Interval secs _ timezone) =
     (case resolve_tz cal timezone of
        Inl e \<Rightarrow> Inl e
      | Inr _ \<Rightarrow> if f64_le secs (Fin 0) \<or> secs = NaN then Inl IntervalError else Inr ())"
| "validate cal (RRule rrule timezone) =
     (case resolve_tz cal timezone of
        Inl e \<Rightarrow> Inl e
      | Inr tz \<Rightarrow> (case parse_rrule cal rrule tz of Inl e \<Rightarrow> Inl e | Inr _ \<Rightarrow> Inr ()))"
| "validate cal (Continuous delay) =
     (if f64_lt delay (Fin 0) \<or> delay = NaN
      then Inl (InvalidError ''a continuous schedule's delay must be zero or more'')
      else Inr ())"

fun is_continuous :: "Schedule \<Rightarrow> bool" where
  "is_continuous (Continuous _) = True"
| "is_continuous _ = False"

fun timezone_name :: "('c, 'r) calendar \<Rightarrow> Schedule \<Rightarrow> string" where
  "timezone_name cal s =
     (let tz = (case s of Cron _ z _ \<Rightarrow> z | Interval _ _ z \<Rightarrow> z | RRule _ z \<Rightarrow> z | Continuous _ \<Rightarrow> None)
      in case resolve_tz cal tz of Inr t \<Rightarrow> tz_name t | Inl _ \<Rightarrow> ''UTC'')"

definition next_after :: "('c, 'r) calendar \<Rightarrow> micros \<Rightarrow> Schedule \<Rightarrow> micros \<Rightarrow> (ScheduleError + micros option) outcome" where
  "next_after cal now s after =
     (case compile cal now s of Inl e \<Rightarrow> Value (Inl e) | Inr c \<Rightarrow> compiled_next cal c after)"

text \<open>
  The loops that step from fire to fire: at most \<open>n\<close> fires, each found from the
  one before, while \<open>wanted\<close> accepts it.
\<close>

fun walk :: "(micros \<Rightarrow> (ScheduleError + micros option) outcome) \<Rightarrow> (micros \<Rightarrow> micros \<Rightarrow> bool) \<Rightarrow> nat \<Rightarrow> micros
             \<Rightarrow> (ScheduleError + micros list) outcome" where
  "walk nxt wanted 0 cursor = Value (Inr [])"
| "walk nxt wanted (Suc n) cursor =
     (case nxt cursor of
        Panic \<Rightarrow> Panic
      | Value (Inl e) \<Rightarrow> Value (Inl e)
      | Value (Inr None) \<Rightarrow> Value (Inr [])
      | Value (Inr (Some t)) \<Rightarrow>
         if \<not> wanted cursor t then Value (Inr [])
         else (case walk nxt wanted n t of
                 Panic \<Rightarrow> Panic
               | Value (Inl e) \<Rightarrow> Value (Inl e)
               | Value (Inr ts) \<Rightarrow> Value (Inr (t # ts))))"

definition next_fires :: "('c, 'r) calendar \<Rightarrow> micros \<Rightarrow> Schedule \<Rightarrow> micros \<Rightarrow> nat \<Rightarrow> (ScheduleError + micros list) outcome" where
  "next_fires cal now s after count =
     (case validate cal s of
        Inl e \<Rightarrow> Value (Inl e)
      | Inr _ \<Rightarrow>
         if \<not> instant_ok cal after
         then Value (Inl (InvalidError (''reference time '' @ show_int after @ '' is out of range'')))
         else case compile cal now s of
                Inl e \<Rightarrow> Value (Inl e)
              | Inr c \<Rightarrow> walk (compiled_next cal c) (\<lambda>_ _. True) count after)"

definition fires_between :: "('c, 'r) calendar \<Rightarrow> micros \<Rightarrow> Schedule \<Rightarrow> micros \<Rightarrow> micros \<Rightarrow> nat
                             \<Rightarrow> (ScheduleError + micros list) outcome" where
  "fires_between cal now s start end_at max_fires =
     (case compile cal now s of
        Inl e \<Rightarrow> Value (Inl e)
      | Inr c \<Rightarrow> walk (compiled_next cal c) (\<lambda>_ t. t \<le> end_at) max_fires start)"

text \<open>The loop of \<^verbatim>\<open>fires_before\<close>; \<open>latest\<close> is the last element of its \<^verbatim>\<open>out\<close>.\<close>

fun back_walk :: "(micros \<Rightarrow> micros option) \<Rightarrow> nat \<Rightarrow> micros \<Rightarrow> micros option \<Rightarrow> micros list" where
  "back_walk prev 0 cursor latest = []"
| "back_walk prev (Suc n) cursor latest =
     (case prev cursor of
        None \<Rightarrow> []
      | Some p \<Rightarrow> if latest = Some p then [] else p # back_walk prev n (p - 1) (Some p))"

definition fires_before :: "('c, 'r) calendar \<Rightarrow> micros \<Rightarrow> Schedule \<Rightarrow> micros \<Rightarrow> micros \<Rightarrow> nat \<Rightarrow> ScheduleError + micros list" where
  "fires_before cal now s end_at lowest count =
     (case compile cal now s of
        Inl e \<Rightarrow> Inl e
      | Inr c \<Rightarrow> Inr (back_walk (\<lambda>t. previous_from cal c t lowest) count end_at None))"

section \<open>Whole seconds are exact\<close>

lemma below_scaled: "us < a * (s * 1000000) \<Longrightarrow> a * s \<le> 2 ^ 31 \<Longrightarrow> us < (2147483648000000 :: int)"
  using mult_right_mono[of "a * s" "2 ^ 31" 1000000] by (simp add: mult.assoc)

lemma elapsed_steps:
  assumes us: "0 \<le> us" and s: "0 < s" and m: "(us div (s * 1000000) + 1) * s \<le> 2 ^ 31"
  defines "k \<equiv> us div (s * 1000000)"
  shows "\<exists>e. f64_div (f64_of_int us) (Fin 1000000) = Fin e \<and> 0 \<le> e
           \<and> f64_floor (f64_div (Fin e) (Fin (of_int s))) = Fin (of_int k)"
proof -
  let ?M = "s * 1000000"
  have k0: "0 \<le> k" using us s by (simp add: k_def pos_imp_zdiv_nonneg_iff)
  have below: "us < (k + 1) * ?M"
    using s pos_mod_bound[of ?M us] div_mult_mod_eq[of us ?M] unfolding k_def by (simp only: distrib_right) linarith
  have above: "k * ?M \<le> us" using pos_mod_sign[of ?M us] div_mult_mod_eq[of us ?M] s unfolding k_def by linarith
  have mk: "(k + 1) * s \<le> 2 ^ 31" using m by (simp add: k_def)
  have k1: "k + 1 \<le> 2 ^ 31" using factor_le(1)[OF _ s mk] k0 by simp
  have us53: "us < 2 ^ 53" using below_scaled[OF below mk] by simp
  have q: "of_int (k * s) \<le> (of_int us / 1000000 :: rat)"
  proof -
    have "(of_int (k * ?M) :: rat) \<le> of_int us" using above by (simp only: of_int_le_iff)
    then show ?thesis by (simp add: field_simps)
  qed
  have q2: "of_int us / 1000000 \<le> (of_int ((k + 1) * s) - 1 / 2 ^ 21 :: rat)"
  proof -
    have "(of_int us :: rat) \<le> of_int ((k + 1) * ?M - 1)" using below by (simp only: of_int_le_iff)
    then show ?thesis by (simp add: field_simps)
  qed
  have pos: "0 < (k + 1) * s" using k0 s by simp
  have ks: "0 \<le> k * s" "k * s < 2 ^ 53" using k0 s mk by (auto simp: algebra_simps)
  have m53: "(k + 1) * s * 2 ^ 21 \<le> 2 ^ 53" using mult_right_mono[OF mk, of "2 ^ 21"] by simp
  obtain e where e: "rnd (of_int us / 1000000) = Fin e" "of_int (k * s) \<le> e"
      "e \<le> of_int ((k + 1) * s) - 1 / 2 ^ 21"
    using rnd_quotient_floor[OF q q2 ks pos] m53 by auto
  obtain j where j: "s \<le> 2 ^ j" "2 ^ j < 2 * s" using power_near[of s] s by auto
  have sq: "0 < (of_int s :: rat)" using s by simp
  have r1: "of_int k \<le> e / of_int s" using e(2) sq by (simp add: field_simps)
  have "1 / 2 ^ (21 + j) \<le> (1 / 2 ^ 21) / (of_int s :: rat)"
  proof -
    have "(of_int s :: rat) \<le> of_int (2 ^ j)" using j(1) by (simp only: of_int_le_iff)
    then show ?thesis using sq by (simp add: power_add field_simps)
  qed
  moreover have "e / of_int s \<le> (of_int ((k + 1) * s) - 1 / 2 ^ 21) / of_int s" using e(3) sq by (intro divide_right_mono) auto
  ultimately have r2: "e / of_int s \<le> of_int (k + 1) - 1 / 2 ^ (21 + j)" using sq by (simp add: diff_divide_distrib)
  have "(k + 1) * 2 ^ (21 + j) \<le> (k + 1) * (2 ^ 21 * (2 * s))" using j(2) k0
    by (intro mult_left_mono) (auto simp: power_add)
  then have t53: "(k + 1) * 2 ^ (21 + j) \<le> 2 ^ 53" using mk by (simp add: algebra_simps)
  have "2 ^ j < (2 :: int) ^ 33" using j(2) factor_le(2)[OF _ s mk] k0 by simp
  then have "j < 33" using power_less_imp_less_exp[of "2 :: int" j 33] by simp
  then have j1074: "21 + j \<le> 1074" by simp
  obtain v where v: "rnd (e / of_int s) = Fin v" "of_int k \<le> v" "v \<le> of_int (k + 1) - 1 / 2 ^ (21 + j)"
    using rnd_quotient_floor[OF r1 r2 k0 _ _ t53 j1074] k1 k0 by auto
  have "0 < 1 / (2 :: rat) ^ (21 + j)" by simp
  then have "v < of_int (k + 1)" using v(3) by linarith
  then have "\<lfloor>v\<rfloor> = k" using v(2) by (simp add: floor_unique)
  moreover have "0 \<le> e" using e(2) ks(1) by (meson of_int_0_le_iff order_trans)
  ultimately show ?thesis using e(1) v(1) sq us us53 by (simp add: f64_of_int_exact)
qed


lemma elapsed_next_exact:
  assumes s: "0 < s" and anchor: "anchor \<le> after"
    and horizon: "((after - anchor) div (s * 1000000) + 1) * s \<le> 2 ^ 31"
    and ok: "instant_ok cal (anchor + ((after - anchor) div (s * 1000000) + 1) * (s * 1000000))"
  shows "elapsed_next cal (Fin (of_int s)) anchor after =
    Value (Inr (Some (anchor + ((after - anchor) div (s * 1000000) + 1) * (s * 1000000))))"
proof -
  define us where "us = after - anchor"
  define k where "k = us div (s * 1000000)"
  have us: "0 \<le> us" using anchor by (simp add: us_def)
  have mk: "(k + 1) * s \<le> 2 ^ 31" using horizon by (simp add: k_def us_def)
  have k0: "0 \<le> k" using us s by (simp add: k_def pos_imp_zdiv_nonneg_iff)
  obtain e where e: "f64_div (f64_of_int us) (Fin 1000000) = Fin e" "0 \<le> e"
      "f64_floor (f64_div (Fin e) (Fin (of_int s))) = Fin (of_int k)"
    using elapsed_steps[OF us s] horizon by (auto simp: k_def us_def)
  have ks: "0 \<le> (k + 1) * s" using k0 s by simp
  have k1: "k + 1 \<le> 2 ^ 31" using factor_le(1)[OF _ s mk] k0 by simp
  have below: "us < (k + 1) * (s * 1000000)"
    using s pos_mod_bound[of "s * 1000000" us] div_mult_mod_eq[of us "s * 1000000"] unfolding k_def
    by (simp only: distrib_right) linarith
  have M: "(k + 1) * (s * 1000000) = (k + 1) * s * 1000000" by (simp only: mult.assoc)
  have i64: "in_i64 us" using us below_scaled[OF below mk] by (simp add: in_i64_iff)
  have a: "f64_add (Fin (of_int k)) (Fin 1) = Fin (of_int (k + 1))"
    using rnd_of_int[of "k + 1"] k0 k1 mk by simp
  have b: "f64_mul (Fin (of_int (k + 1))) (Fin (of_int s)) = Fin (of_int ((k + 1) * s))"
    using rnd_of_int[of "(k + 1) * s"] ks mk by simp
  have abs_ks: "\<bar>(k + 1) * s * 1000000\<bar> < 2 ^ 53" using mult_right_mono[OF mk, of 1000000] ks by simp
  have c: "f64_mul (Fin (of_int ((k + 1) * s))) (Fin 1000000) = Fin (of_int ((k + 1) * s * 1000000))"
    using rnd_of_int[OF abs_ks] by simp
  have d: "f64_to_i64 (Fin (of_int ((k + 1) * s * 1000000))) = (k + 1) * s * 1000000"
    using f64_int_roundtrip[OF abs_ks] f64_of_int_exact[OF abs_ks] by simp
  have lt: "\<not> f64_lt (Fin e) (Fin 0)" using e(2) by simp
  show ?thesis
    using ok unfolding elapsed_next_def Let_def us_def[symmetric] k_def[symmetric]
    by (simp only: i64 if_True e(1,3) lt if_False a b c d M)
qed

lemma f64_of_int_negative:
  assumes d: "- (2 ^ 53) < d" "d < 0"
  shows "f64_lt (f64_div (f64_of_int d) (Fin 1000000)) (Fin 0)"
proof -
  have "rnd (of_int (- (2 ^ 53 - 1))) = Fin (of_int (- (2 ^ 53 - 1)))" by (rule rnd_of_int) simp
  moreover have "rnd (- (1 / 2 ^ 20)) = Fin (- (1 / 2 ^ 20))"
    by (rule rnd_representable[where m = 1 and e = "- 20"]) (auto simp: pow2_def)
  moreover have "of_int (- (2 ^ 53 - 1)) \<le> (of_int d / 1000000 :: rat)"
  proof -
    have "(of_int (- (2 ^ 53 - 1)) :: rat) \<le> of_int d" using d by (simp only: of_int_le_iff)
    then show ?thesis by simp
  qed
  moreover have "(of_int d / 1000000 :: rat) \<le> - (1 / 2 ^ 20)"
  proof -
    have "(of_int d :: rat) \<le> of_int (- 1)" using d by (simp only: of_int_le_iff)
    then show ?thesis by simp
  qed
  ultimately obtain v where "rnd (of_int d / 1000000) = Fin v" "v \<le> - (1 / 2 ^ 20)"
    using rnd_between[of "of_int (- (2 ^ 53 - 1))" "- (1 / 2 ^ 20)" "of_int d / 1000000"] by auto
  then show ?thesis using d by (simp add: f64_of_int_exact)
qed

text \<open>The fire times of an interval of whole seconds.\<close>

definition interval_fires :: "int \<Rightarrow> micros \<Rightarrow> micros set" where
  "interval_fires s anchor = {anchor + k * (s * 1000000) | k. 0 \<le> k}"

definition first_above :: "micros set \<Rightarrow> micros \<Rightarrow> micros option \<Rightarrow> bool" where
  "first_above fires t n = (case n of
     None \<Rightarrow> \<forall>u \<in> fires. u \<le> t
   | Some u \<Rightarrow> u \<in> fires \<and> t < u \<and> (\<forall>v \<in> fires. t < v \<longrightarrow> u \<le> v))"

lemma elapsed_next_first_above:
  assumes s: "0 < s" and ok: "\<forall>t. instant_ok cal t"
    and range: "anchor - 2 ^ 53 < after" "after \<le> anchor + 2 ^ 31 * 1000000 - s * 1000000"
  shows "\<exists>u. elapsed_next cal (Fin (of_int s)) anchor after = Value (Inr (Some u))
           \<and> first_above (interval_fires s anchor) after (Some u)"
proof (cases "anchor \<le> after")
  case True
  define d where "d = after - anchor"
  let ?M = "s * 1000000"
  have M: "0 < ?M" using s by simp
  have "d div ?M * ?M \<le> d" using M pos_mod_sign[of ?M d] div_mult_mod_eq[of d ?M] by linarith
  then have "(d div ?M + 1) * ?M \<le> 2 ^ 31 * 1000000" using range(2) by (simp add: d_def distrib_right)
  then have "(d div ?M + 1) * s * 1000000 \<le> 2 ^ 31 * 1000000" by (simp only: mult.assoc)
  then have h: "(d div ?M + 1) * s \<le> 2 ^ 31" by (simp add: mult.commute)
  have d0: "0 \<le> d div ?M" using True M by (simp add: d_def pos_imp_zdiv_nonneg_iff)
  let ?u = "anchor + (d div ?M + 1) * ?M"
  have "elapsed_next cal (Fin (of_int s)) anchor after = Value (Inr (Some ?u))"
    using elapsed_next_exact[OF s True, of cal] h ok by (simp add: d_def)
  moreover have "?u \<in> interval_fires s anchor" using d0 by (auto simp: interval_fires_def)
  moreover have "after < ?u" using div_step_above(1)[OF M, of d] by (simp add: d_def)
  moreover have "?u \<le> anchor + k * ?M" if "after < anchor + k * ?M" for k
    using div_step_above(2)[OF M, of d k] that by (simp add: d_def)
  ultimately show ?thesis by (auto simp: first_above_def interval_fires_def)
next
  case False
  then have "f64_lt (f64_div (f64_of_int (after - anchor)) (Fin 1000000)) (Fin 0)"
    using range by (intro f64_of_int_negative) auto
  moreover have "in_i64 (after - anchor)" using False range by (simp add: in_i64_iff)
  moreover have "f64_to_i64 (f64_mul (f64_mul (Fin 0) (Fin (of_int s))) (Fin 1000000)) = 0"
    by (simp add: rnd_def rat_trunc_def i64_clamp_def i64_min_def i64_max_def)
  ultimately have "elapsed_next cal (Fin (of_int s)) anchor after = Value (Inr (Some anchor))"
    using ok by (simp only: elapsed_next_def Let_def if_True add_0_right)
  then show ?thesis using False s by (force simp: first_above_def interval_fires_def)
qed

section \<open>Walking a schedule\<close>

text \<open>
  What the loops rely on: at a good cursor the next fire is the first of the
  schedule's fire times above it. Then a walk over a window of good cursors
  lists the first fire times of the window, in order and without repetition.
\<close>

locale fire_source =
  fixes nxt :: "'x \<Rightarrow> micros \<Rightarrow> (ScheduleError + micros option) outcome"
    and fires :: "'x \<Rightarrow> micros set"
    and good :: "'x \<Rightarrow> micros \<Rightarrow> bool"
  assumes next_is_first: "good x t \<Longrightarrow> \<exists>n. nxt x t = Value (Inr n) \<and> first_above (fires x) t n"
begin

definition listed :: "'x \<Rightarrow> micros \<Rightarrow> micros \<Rightarrow> nat \<Rightarrow> micros list \<Rightarrow> bool" where
  "listed x start end_at n ts \<longleftrightarrow> sorted_wrt (<) ts \<and> length ts \<le> n
     \<and> set ts \<subseteq> {u \<in> fires x. start < u \<and> u \<le> end_at}
     \<and> (\<forall>u \<in> fires x. start < u \<and> u \<le> end_at \<and> u \<notin> set ts \<longrightarrow> length ts = n \<and> (\<forall>t \<in> set ts. t < u))"

lemma listed_Cons:
  assumes ts: "listed x t end_at n ts" and t: "t \<in> fires x" "start < t" "t \<le> end_at"
    and first: "\<And>v. v \<in> fires x \<Longrightarrow> start < v \<Longrightarrow> t \<le> v"
  shows "listed x start end_at (Suc n) (t # ts)"
proof -
  have "\<forall>u \<in> set ts. t < u" "length ts \<le> n" "sorted_wrt (<) ts" using ts by (auto simp: listed_def)
  moreover have "set (t # ts) \<subseteq> {u \<in> fires x. start < u \<and> u \<le> end_at}"
    using ts t by (fastforce simp: listed_def)
  moreover have "length (t # ts) = Suc n \<and> (\<forall>v \<in> set (t # ts). v < u)"
    if u: "u \<in> fires x" "start < u" "u \<le> end_at" "u \<notin> set (t # ts)" for u
  proof -
    have "t < u" using first[OF u(1,2)] u(4) by simp
    then show ?thesis using ts u by (simp add: listed_def)
  qed
  ultimately show ?thesis by (simp add: listed_def)
qed

lemma walk_lists:
  assumes "start \<le> end_at" "\<forall>u. start \<le> u \<and> u \<le> end_at \<longrightarrow> good x u"
  shows "\<exists>ts. walk (nxt x) (\<lambda>_ t. t \<le> end_at) n start = Value (Inr ts) \<and> listed x start end_at n ts"
  using assms
proof (induction n arbitrary: start)
  case 0
  then show ?case by (simp add: listed_def)
next
  case (Suc n)
  obtain m where m: "nxt x start = Value (Inr m)" "first_above (fires x) start m"
    using next_is_first[of x start] Suc.prems by auto
  show ?case
  proof (cases m)
    case None
    then show ?thesis using m by (auto simp: first_above_def listed_def)
  next
    case (Some t)
    then have t: "t \<in> fires x" "start < t" "\<And>v. v \<in> fires x \<Longrightarrow> start < v \<Longrightarrow> t \<le> v"
      using m by (auto simp: first_above_def)
    show ?thesis
    proof (cases "t \<le> end_at")
      case True
      obtain ts where ts: "walk (nxt x) (\<lambda>_ t. t \<le> end_at) n t = Value (Inr ts)" "listed x t end_at n ts"
        using Suc.IH[of t] True Suc.prems t by auto
      have "listed x start end_at (Suc n) (t # ts)"
        by (rule listed_Cons[OF ts(2) t(1,2) True t(3)])
      then show ?thesis using ts(1) True Some m(1) by auto
    next
      case False
      then show ?thesis using Some m(1) t by (auto simp: listed_def) (meson order_trans)+
    qed
  qed
qed

end

type_synonym ('c, 'r) interval_source = "('c, 'r) calendar \<times> int \<times> micros \<times> Tz"

fun interval_next :: "('c, 'r) interval_source \<Rightarrow> micros \<Rightarrow> (ScheduleError + micros option) outcome" where
  "interval_next (cal, s, anchor, tz) = compiled_next cal (CompiledInterval (Fin (of_int s)) anchor tz)"

fun interval_set :: "('c, 'r) interval_source \<Rightarrow> micros set" where
  "interval_set (cal, s, anchor, tz) = interval_fires s anchor"

text \<open>A cursor within \<open>2 ^ 31\<close> seconds of the anchor, where doubles are exact enough.\<close>

fun interval_good :: "('c, 'r) interval_source \<Rightarrow> micros \<Rightarrow> bool" where
  "interval_good (cal, s, anchor, tz) t \<longleftrightarrow> 0 < s \<and> s < 86400 \<and> (\<forall>u. instant_ok cal u)
     \<and> anchor - 2 ^ 53 < t \<and> t \<le> anchor + 2 ^ 31 * 1000000 - s * 1000000"

lemma interval_next_first:
  "interval_good x t \<Longrightarrow> \<exists>n. interval_next x t = Value (Inr n) \<and> first_above (interval_set x) t n"
proof (cases x)
  case (fields cal s anchor tz)
  assume g: "interval_good x t"
  have "(of_int s :: rat) < of_int 86400" using g fields by (simp only: of_int_less_iff) simp
  then show ?thesis
    using g fields elapsed_next_first_above[of s cal anchor t] by (auto simp: f64_le_def f64_eq_def)
qed

interpretation every: fire_source interval_next interval_set interval_good
  by unfold_locales (rule interval_next_first)

type_synonym ('c, 'r) cron_source = "('c, 'r) calendar \<times> 'c \<times> Tz"

fun cron_next :: "('c, 'r) cron_source \<Rightarrow> micros \<Rightarrow> (ScheduleError + micros option) outcome" where
  "cron_next (cal, c, tz) = compiled_next cal (CompiledCron c tz)"

fun cron_fires :: "('c, 'r) cron_source \<Rightarrow> micros set" where
  "cron_fires (cal, c, tz) = {u. \<exists>t. croner_next cal c tz t = Some u}"

text \<open>\<^verbatim>\<open>find_next_occurrence\<close> without the start: strictly later, and no occurrence is passed over.\<close>

definition croner_lawful :: "('c, 'r) calendar \<Rightarrow> 'c \<Rightarrow> Tz \<Rightarrow> bool" where
  "croner_lawful cal c tz \<longleftrightarrow>
     (\<forall>t u. croner_next cal c tz t = Some u \<longrightarrow> t < u)
     \<and> (\<forall>s t v. croner_next cal c tz s = Some v \<and> t < v \<longrightarrow> (\<exists>u. croner_next cal c tz t = Some u \<and> u \<le> v))"

fun cron_good :: "('c, 'r) cron_source \<Rightarrow> micros \<Rightarrow> bool" where
  "cron_good (cal, c, tz) t \<longleftrightarrow> croner_lawful cal c tz"

lemma cron_next_first:
  "cron_good x t \<Longrightarrow> \<exists>n. cron_next x t = Value (Inr n) \<and> first_above (cron_fires x) t n"
proof (cases x)
  case (fields cal c tz)
  assume g: "cron_good x t"
  show ?thesis
  proof (cases "croner_next cal c tz t")
    case None
    then show ?thesis using g fields unfolding croner_lawful_def first_above_def
      by (auto simp: croner_lawful_def) (metis linorder_not_less option.distinct(1))
  next
    case (Some u)
    then show ?thesis using g fields unfolding first_above_def
      by (auto simp: croner_lawful_def) (metis option.inject)
  qed
qed

interpretation cron: fire_source cron_next cron_fires cron_good
  by unfold_locales (rule cron_next_first)

section \<open>The wall-clock interval\<close>

text \<open>
  What the code relies on of a zone: offsets stay under a day, an instant found
  for a local time reads as that local time, and gaps are at most three hours.
\<close>

definition zone_ok :: "Tz \<Rightarrow> bool" where
  "zone_ok tz \<longleftrightarrow> (\<forall>i. \<bar>tz_to_local tz i - i\<bar> < DAY)
     \<and> (\<forall>n i. tz_from_local tz n = Some i \<longrightarrow> tz_to_local tz i = n)
     \<and> (\<forall>n. \<exists>m \<in> {0..180}. tz_from_local tz (n + m * MINUTE) \<noteq> None)"

lemma local_to_instant_found:
  assumes "zone_ok tz"
  shows "\<exists>i m. local_to_instant tz n = Some i \<and> m \<in> {0..180} \<and> tz_to_local tz i = n + m * MINUTE"
proof (cases "tz_from_local tz n")
  case (Some i)
  then show ?thesis using assms by (auto simp: local_to_instant_def zone_ok_def intro!: exI[of _ 0])
next
  case None
  obtain m where m: "m \<in> {0..180}" "tz_from_local tz (n + m * MINUTE) \<noteq> None"
    using assms unfolding zone_ok_def by blast
  then have "m \<noteq> 0" using None by auto
  then have "m \<in> set [1..180]" using m by auto
  then obtain k where k: "List.find (\<lambda>m. tz_from_local tz (n + m * MINUTE) \<noteq> None) [1..180] = Some k"
    using m(2) by (metis (mono_tags, lifting) find_None_iff option.exhaust)
  then have "k \<in> {0..180}" "tz_from_local tz (n + k * MINUTE) \<noteq> None" by (auto dest!: find_mem)
  then show ?thesis using assms None k by (auto simp: local_to_instant_def zone_ok_def)
qed

lemma wall_days_pos: "1 \<le> wall_days secs"
proof -
  have "1 \<le> f64_to_i64 (f64_max x (Fin 1))" for x
  proof (cases x)
    case (Fin r)
    then show ?thesis by (auto simp: f64_max_def rat_trunc_def i64_clamp_def i64_min_def i64_max_def)
  qed (auto simp: f64_max_def rat_trunc_def i64_clamp_def i64_min_def i64_max_def)
  then show ?thesis by (simp add: wall_days_def)
qed

lemma last_candidate_late:
  assumes d: "1 \<le> d"
  shows "e + 3 \<le> (max (tdiv e d) 0 + 3) * d"
proof (cases "0 \<le> e")
  case True
  have "e < (e div d + 1) * d" using div_step_above(1)[of d e] d by simp
  moreover have "max (tdiv e d) 0 = e div d" using True d by (simp add: tdiv_nonneg pos_imp_zdiv_nonneg_iff)
  ultimately show ?thesis using d by (simp add: distrib_right)
next
  case False
  then have "max (tdiv e d) 0 \<ge> 0" "3 \<le> 3 * d" using d by auto
  then have "3 * d \<le> (max (tdiv e d) 0 + 3) * d" using d by (intro mult_right_mono) auto
  then show ?thesis using False d by linarith
qed

lemma zone_later:
  assumes z: "zone_ok tz" and day: "tz_to_local tz t div DAY + 3 \<le> n" and i: "tz_to_local tz i = n * DAY + tod" "0 \<le> tod"
  shows "t < i"
proof -
  have D: "DAY = 86400000000" by (simp add: DAY_def)
  have "\<bar>tz_to_local tz t - t\<bar> < DAY" "\<bar>tz_to_local tz i - i\<bar> < DAY" using z by (auto simp: zone_ok_def)
  moreover have "tz_to_local tz t < (tz_to_local tz t div DAY + 1) * DAY" by (rule div_step_above(1)) (simp add: D)
  moreover have "(tz_to_local tz t div DAY + 3) * DAY \<le> n * DAY" using day by (intro mult_right_mono) (simp_all add: D)
  ultimately show ?thesis using i unfolding distrib_right by linarith
qed

lemma tenth: "rnd (1 / 10) = Fin (3602879701896397 / 2 ^ 55)"
  using rnd_closest[of "- 4" "1 / 10" 7205759403792794] by (simp add: pow2_def)

lemma tenth_step:
  "elapsed_next cal (rnd (1 / 10)) 0 200000 = (if instant_ok cal 300000 then Value (Inr (Some 300000)) else Panic)"
  "elapsed_next cal (rnd (1 / 10)) 0 300000 = (if instant_ok cal 300000 then Value (Inr (Some 300000)) else Panic)"
proof -
  have e2: "rnd (200000 / 1000000) = Fin (3602879701896397 / 2 ^ 54)"
    using rnd_closest[of "- 3" "200000 / 1000000" 7205759403792794] by (simp add: pow2_def)
  have e3: "rnd (300000 / 1000000) = Fin (5404319552844595 / 2 ^ 54)"
    using rnd_closest[of "- 2" "300000 / 1000000" 5404319552844595] by (simp add: pow2_def)
  have q3: "rnd (5404319552844595 / 2 ^ 54 / (3602879701896397 / 2 ^ 55)) = Fin (6755399441055743 / 2 ^ 51)"
    using rnd_closest[of 1 "5404319552844595 / 2 ^ 54 / (3602879701896397 / 2 ^ 55)" 6755399441055743]
    by (simp add: pow2_def)
  have q2: "rnd 2 = Fin 2" "rnd 3 = Fin 3" "rnd 300000 = Fin 300000" "rnd 200000 = Fin 200000"
    using rnd_of_int[of 2] rnd_of_int[of 3] rnd_of_int[of 300000] rnd_of_int[of 200000] by simp_all
  have m: "rnd (3 * (3602879701896397 / 2 ^ 55)) = Fin (1351079888211149 / 2 ^ 52)"
    using rnd_eval[of "- 2" "3 * (3602879701896397 / 2 ^ 55)" 5404319552844596] round_even_tie[of 5404319552844595]
    by (simp add: pow2_def)
  have p: "rnd (1351079888211149 / 2 ^ 52 * 1000000) = Fin (5153960755200001 / 2 ^ 34)"
    using rnd_closest[of 18 "1351079888211149 / 2 ^ 52 * 1000000" 5153960755200001] by (simp add: pow2_def)
  have fl: "\<lfloor>6755399441055743 / 2 ^ 51 :: rat\<rfloor> = 2" "\<lfloor>5153960755200001 / 2 ^ 34 :: rat\<rfloor> = 300000"
    by (simp_all add: floor_eq_iff)
  have i64: "in_i64 200000" "in_i64 300000" by (simp_all add: in_i64_iff)
  have fin: "f64_to_i64 (f64_mul (f64_mul (Fin 3) (Fin (3602879701896397 / 2 ^ 55))) (Fin 1000000)) = 300000"
    by (simp only: f64_mul.simps m p f64_to_i64.simps rat_trunc_def fl) (simp add: i64_clamp_def i64_min_def i64_max_def)
  show "elapsed_next cal (rnd (1 / 10)) 0 200000 = (if instant_ok cal 300000 then Value (Inr (Some 300000)) else Panic)"
    unfolding elapsed_next_def Let_def tenth
    by (simp add: i64 f64_of_int_def q2 e2[simplified] fin[simplified])
  show "elapsed_next cal (rnd (1 / 10)) 0 300000 = (if instant_ok cal 300000 then Value (Inr (Some 300000)) else Panic)"
    unfolding elapsed_next_def Let_def tenth
    by (simp add: i64 f64_of_int_def q2 e3[simplified] q3[simplified] fl[simplified] fin[simplified])
qed

lemma wall_candidates_found:
  assumes z: "zone_ok tz" and ok: "\<forall>d. date_ok cal d" and ne: "ss \<noteq> []"
  shows "\<exists>t k m. wall_candidates cal tz date tod days after ss c = Value (Inr (Some t))
    \<and> k \<in> set ss \<and> m \<in> {0..180} \<and> tz_to_local tz t = (date + k * days) * DAY + tod + m * MINUTE
    \<and> (after < t \<or> k = last ss)"
  using ne
proof (induction ss arbitrary: c)
  case (Cons k ss)
  obtain t m where t: "local_to_instant tz ((date + k * days) * DAY + tod) = Some t" "m \<in> {0..180}"
      "tz_to_local tz t = (date + k * days) * DAY + tod + m * MINUTE"
    using local_to_instant_found[OF z] by blast
  show ?case
  proof (cases "after < t \<or> ss = []")
    case True
    then have "wall_candidates cal tz date tod days after (k # ss) c = Value (Inr (Some t))"
      using ok t(1) by auto
    then show ?thesis using True t by (intro exI[of _ t] exI[of _ k] exI[of _ m]) auto
  next
    case False
    then have "wall_candidates cal tz date tod days after (k # ss) c = wall_candidates cal tz date tod days after ss t"
      using ok t(1) by simp
    then show ?thesis using Cons.IH[of t] False by auto
  qed
qed simp

lemma wall_next_later:
  assumes z: "zone_ok tz" and ok: "\<forall>d. date_ok cal d" and before: "anchor \<le> after"
  shows "\<exists>t k m. wall_next cal secs anchor tz after = Value (Inr (Some t)) \<and> after < t \<and> 0 \<le> k \<and> m \<in> {0..180}
    \<and> tz_to_local tz t = tz_to_local tz anchor + k * wall_days secs * DAY + m * MINUTE"
proof -
  define date tod where "date = tz_to_local tz anchor div DAY" and "tod = tz_to_local tz anchor mod DAY"
  define e where "e = tz_to_local tz after div DAY - date"
  define f where "f = max (tdiv e (wall_days secs)) 0"
  have split: "tz_to_local tz anchor = date * DAY + tod" by (simp add: date_def tod_def)
  have tod: "0 \<le> tod" by (simp add: tod_def DAY_def)
  obtain t k m where t: "wall_candidates cal tz date tod (wall_days secs) after [f, f + 1, f + 2, f + 3] anchor = Value (Inr (Some t))"
      "k \<in> set [f, f + 1, f + 2, f + 3]" "m \<in> {0..180}"
      "tz_to_local tz t = (date + k * wall_days secs) * DAY + tod + m * MINUTE" "after < t \<or> k = f + 3"
    using wall_candidates_found[OF z ok, of "[f, f + 1, f + 2, f + 3]" date tod "wall_days secs" after anchor] by auto
  have res: "wall_next cal secs anchor tz after = Value (Inr (Some t))"
    using before t(1)
    by (simp only: wall_next_def Let_def date_def[symmetric] tod_def[symmetric] e_def[symmetric] f_def[symmetric]) simp
  have "after < t"
  proof (rule disjE[OF t(5)])
    assume k: "k = f + 3"
    have "e + 3 \<le> k * wall_days secs" using last_candidate_late[OF wall_days_pos] k by (simp add: f_def)
    then have "tz_to_local tz after div DAY + 3 \<le> date + k * wall_days secs" by (simp add: e_def)
    then show ?thesis by (rule zone_later[OF z _ _ add_nonneg_nonneg[OF tod, of "m * MINUTE"]])
      (use t(3,4) in \<open>auto simp: MINUTE_def\<close>)
  qed
  moreover have "0 \<le> k" using t(2) by (auto simp: f_def)
  ultimately show ?thesis using res t(3,4) split by (auto simp: distrib_right)
qed

text \<open>The last occurrence at or before \<open>t\<close>, unless it lies below \<open>low\<close>.\<close>

definition last_upto :: "micros set \<Rightarrow> micros \<Rightarrow> micros \<Rightarrow> micros option \<Rightarrow> bool" where
  "last_upto F low t n = (case n of
     None \<Rightarrow> \<forall>u \<in> F. u \<le> t \<longrightarrow> u < low
   | Some p \<Rightarrow> p \<in> F \<and> low \<le> p \<and> p \<le> t \<and> (\<forall>u \<in> F. u \<le> t \<longrightarrow> u \<le> p))"

definition latest_listed :: "micros set \<Rightarrow> micros \<Rightarrow> micros \<Rightarrow> nat \<Rightarrow> micros list \<Rightarrow> bool" where
  "latest_listed F low c n ts \<longleftrightarrow> sorted_wrt (>) ts \<and> length ts \<le> n \<and> set ts \<subseteq> {u \<in> F. low \<le> u \<and> u \<le> c}
     \<and> (\<forall>u \<in> F. low \<le> u \<and> u \<le> c \<and> u \<notin> set ts \<longrightarrow> length ts = n \<and> (\<forall>t \<in> set ts. u < t))"

lemma latest_listed_Cons:
  assumes ts: "latest_listed F low (p - 1) n ts" and p: "p \<in> F" "low \<le> p" "p \<le> c" "\<And>u. u \<in> F \<Longrightarrow> u \<le> c \<Longrightarrow> u \<le> p"
  shows "latest_listed F low c (Suc n) (p # ts)"
proof -
  have "\<forall>u \<in> set ts. u < p" "length ts \<le> n" "sorted_wrt (>) ts" using ts by (auto simp: latest_listed_def)
  moreover have "set (p # ts) \<subseteq> {u \<in> F. low \<le> u \<and> u \<le> c}"
    using ts p(1-3) by (fastforce simp: latest_listed_def)
  moreover have "length (p # ts) = Suc n \<and> (\<forall>t \<in> set (p # ts). u < t)"
    if u: "u \<in> F" "low \<le> u" "u \<le> c" "u \<notin> set (p # ts)" for u
  proof -
    have "u < p" using p(4)[OF u(1,3)] u(4) by simp
    then show ?thesis using ts u by (simp add: latest_listed_def)
  qed
  ultimately show ?thesis by (simp add: latest_listed_def)
qed

lemma back_walk_latest:
  assumes prev: "\<And>t. last_upto F low t (prev t)" and l: "\<forall>q. l = Some q \<longrightarrow> c < q"
  shows "latest_listed F low c n (back_walk prev n c l)"
  using l
proof (induction n arbitrary: c l)
  case (Suc n)
  show ?case
  proof (cases "prev c")
    case None
    then have "\<forall>u \<in> F. u \<le> c \<longrightarrow> u < low" using prev[of c] by (simp add: last_upto_def)
    then show ?thesis using None by (auto simp: latest_listed_def)
  next
    case (Some p)
    then have p: "p \<in> F" "low \<le> p" "p \<le> c" "\<And>u. u \<in> F \<Longrightarrow> u \<le> c \<Longrightarrow> u \<le> p"
      using prev[of c] by (auto simp: last_upto_def)
    have "l \<noteq> Some p" using Suc.prems p(3) by auto
    moreover have "latest_listed F low (p - 1) n (back_walk prev n (p - 1) (Some p))" by (rule Suc.IH) simp
    ultimately show ?thesis using Some latest_listed_Cons[OF _ p] by simp
  qed
qed (simp add: latest_listed_def)

section \<open>Properties\<close>

text \<open>A calendar for the examples: one zone without an offset, no bound, a cron that fires at every whole second.\<close>

definition plain_zone :: Tz where
  "plain_zone = \<lparr> tz_name = ''UTC'', tz_to_local = (\<lambda>i. i), tz_from_local = Some \<rparr>"

definition plain_calendar :: "(unit, unit) calendar" where
  "plain_calendar = \<lparr> env_TZ = None, localtime_link = None, parse_tz = (\<lambda>n. if n = ''UTC'' then Some plain_zone else None),
     utc_tz = plain_zone, instant_ok = (\<lambda>_. True), date_ok = (\<lambda>_. True),
     croner_parse = (\<lambda>_ _. Inr ()), croner_next = (\<lambda>_ _ t. Some ((t div 1000000 + 1) * 1000000)),
     croner_previous = (\<lambda>_ _ t. Some (t div 1000000 * 1000000)),
     rrule_parse = (\<lambda>_. Inl ''none''), rrule_all = (\<lambda>_ _ _ _. []) \<rparr>"

lemma plain_fields [simp]:
  "instant_ok plain_calendar t" "date_ok plain_calendar d" "local_tz plain_calendar = plain_zone"
  by (simp_all add: plain_calendar_def local_tz_def)

lemma plain_zone_ok: "zone_ok plain_zone"
  by (auto simp: zone_ok_def plain_zone_def DAY_def intro!: bexI[of _ 0])

lemma plain_lawful: "croner_lawful plain_calendar c tz"
proof -
  have "t < (t div 1000000 + 1) * 1000000" for t :: int by (rule div_step_above(1)) simp
  moreover have "(t div 1000000 + 1) * 1000000 \<le> (s div 1000000 + 1) * 1000000" if "t < (s div 1000000 + 1) * 1000000" for s t :: int
    using div_step_above(2)[of 1000000 t "s div 1000000 + 1"] that by simp
  ultimately show ?thesis by (auto simp: croner_lawful_def plain_calendar_def)
qed



text \<open>
  C40: An interval that is not a whole number of microseconds in binary stops
  advancing: from the fire at 0.3 s of an interval of a tenth of a second,
  \<^verbatim>\<open>next_after\<close> returns that same fire, although it is documented as the first fire
  strictly after. A walk then fills its whole cap with one fire, so catch-up sees
  as many missed fires as the cap allows where there was one.
\<close>

theorem fractional_interval_repeats:
  "fires_between plain_calendar now (Interval (rnd (1 / 10)) (Some 0) None) 200000 400000 n = Value (Inr (replicate n 300000))"
proof -
  let ?c = "CompiledInterval (rnd (1 / 10)) 0 plain_zone"
  have small: "f64_lt (rnd (1 / 10)) (Fin 86400)" "\<not> f64_le (rnd (1 / 10)) (Fin 0)" "rnd (1 / 10) \<noteq> NaN"
    by (simp_all add: tenth f64_le_def f64_eq_def)
  have step: "compiled_next plain_calendar ?c 200000 = Value (Inr (Some 300000))"
    "compiled_next plain_calendar ?c 300000 = Value (Inr (Some 300000))"
    using small by (simp_all add: tenth_step del: f64_lt.simps)
  have "walk (compiled_next plain_calendar ?c) (\<lambda>_ t. t \<le> 400000) n 300000 = Value (Inr (replicate n 300000))" for n
    by (induction n) (simp_all add: step del: compiled_next.simps)
  then have "walk (compiled_next plain_calendar ?c) (\<lambda>_ t. t \<le> 400000) n 200000 = Value (Inr (replicate n 300000))"
    by (cases n) (simp_all add: step del: compiled_next.simps)
  then show ?thesis by (simp add: fires_between_def resolve_tz_def from_micros_def del: compiled_next.simps)
qed

text \<open>
  An interval of a day or more keeps its local time: in a zone whose offsets
  are under a day and whose gaps are at most three hours, the next fire exists,
  lies strictly after the cursor, and reads on the local clock as the anchor's
  time of day a whole number of periods later, moved at most by the gap it fell
  into. Four candidates are enough.
\<close>

theorem wall_interval_keeps_local_time:
  assumes "zone_ok tz" "\<forall>d. date_ok cal d" "\<not> f64_lt secs (Fin 86400)" "secs \<noteq> NaN" "anchor \<le> after"
  shows "\<exists>t k m. compiled_next cal (CompiledInterval secs anchor tz) after = Value (Inr (Some t)) \<and> after < t
    \<and> 0 \<le> k \<and> m \<in> {0..180} \<and> tz_to_local tz t = tz_to_local tz anchor + k * wall_days secs * DAY + m * MINUTE"
proof -
  have "\<not> f64_le secs (Fin 0)" using assms(3) by (cases secs) (auto simp: f64_le_def f64_eq_def)
  then show ?thesis using wall_next_later[OF assms(1,2,5), of secs] assms(3,4) by simp
qed

theorem wall_interval_keeps_local_time_witness:
  "\<exists>t k m. compiled_next plain_calendar (CompiledInterval (Fin 172800) 5 plain_zone) 7 = Value (Inr (Some t)) \<and> 7 < t
    \<and> 0 \<le> k \<and> m \<in> {0..180} \<and> tz_to_local plain_zone t = 5 + k * wall_days (Fin 172800) * DAY + m * MINUTE"
  using wall_interval_keeps_local_time[OF plain_zone_ok, of plain_calendar "Fin 172800" 5 7] by (simp add: plain_zone_def)

lemma desc_distinct: "sorted_wrt (>) (ts :: int list) \<Longrightarrow> distinct ts"
  by (induction ts) auto

lemma latest_listed_subset:
  assumes a: "latest_listed F low c n ts" and b: "latest_listed F low c n ts'"
  shows "set ts' \<subseteq> set ts"
proof (rule ccontr)
  assume "\<not> set ts' \<subseteq> set ts"
  then obtain u where u: "u \<in> set ts'" "u \<notin> set ts" by blast
  then have "u \<in> F \<and> low \<le> u \<and> u \<le> c" using b by (auto simp: latest_listed_def)
  then have full: "length ts = n" and above: "\<forall>t \<in> set ts. u < t" using a u(2) by (auto simp: latest_listed_def)
  have "set ts \<subseteq> set ts'"
  proof
    fix t
    assume t: "t \<in> set ts"
    then have "t \<in> F \<and> low \<le> t \<and> t \<le> c" using a by (auto simp: latest_listed_def)
    moreover have "\<not> t < u" using above t by auto
    ultimately show "t \<in> set ts'" using b u(1) by (auto simp: latest_listed_def)
  qed
  then have "set ts \<subset> set ts'" using u by auto
  then have "card (set ts) < card (set ts')" by (rule psubset_card_mono[OF finite_set])
  moreover have "distinct ts" "distinct ts'" "length ts' \<le> n"
    using a b desc_distinct by (auto simp: latest_listed_def)
  ultimately show False using full by (simp add: distinct_card)
qed

lemma latest_listed_unique:
  assumes "latest_listed F low c n ts" "latest_listed F low c n ts'"
  shows "ts = ts'"
proof -
  have "set ts = set ts'" using latest_listed_subset assms by blast
  moreover have "sorted_wrt (<) (rev ts)" "sorted_wrt (<) (rev ts')"
    using assms by (auto simp: latest_listed_def sorted_wrt_rev)
  ultimately have "rev ts = rev ts'" by (intro sorted_distinct_set_unique) (auto simp: strict_sorted_iff)
  then show ?thesis by simp
qed

lemma latest_listed_take:
  assumes s: "sorted_wrt (>) L" and L: "set L = {u \<in> F. low \<le> u \<and> u \<le> c}"
  shows "latest_listed F low c n (take n L)"
proof -
  have "length (take n L) = n \<and> (\<forall>t \<in> set (take n L). u < t)" if u: "u \<in> set L" "u \<notin> set (take n L)" for u
  proof -
    have "u \<in> set (drop n L)" using u by (metis Un_iff append_take_drop_id set_append)
    moreover from this have "n < length L" by (metis drop_all empty_iff empty_set not_less)
    ultimately have "n < length L" "\<forall>t \<in> set (take n L). u < t"
      using s sorted_wrt_append[of "(>)" "take n L" "drop n L"] by auto
    then show ?thesis by simp
  qed
  moreover have "sorted_wrt (>) (take n L)" using s by (simp add: sorted_wrt_take)
  moreover have "set (take n L) \<subseteq> set L" by (rule set_take_subset)
  ultimately show ?thesis using L by (auto simp: latest_listed_def)
qed

text \<open>\<^verbatim>\<open>find_previous_occurrence\<close> with the start: the last occurrence not after it.\<close>

definition croner_back_lawful :: "('c, 'r) calendar \<Rightarrow> 'c \<Rightarrow> Tz \<Rightarrow> bool" where
  "croner_back_lawful cal c tz \<longleftrightarrow> (\<forall>t. case croner_previous cal c tz t of
     None \<Rightarrow> \<forall>u \<in> cron_fires (cal, c, tz). t < u
   | Some p \<Rightarrow> p \<in> cron_fires (cal, c, tz) \<and> p \<le> t \<and> (\<forall>u \<in> cron_fires (cal, c, tz). u \<le> t \<longrightarrow> u \<le> p))"

lemma previous_from_last:
  assumes "croner_back_lawful cal c tz"
  shows "last_upto (cron_fires (cal, c, tz)) low t (previous_from cal (CompiledCron c tz) t low)"
proof -
  have law: "case croner_previous cal c tz t of
     None \<Rightarrow> \<forall>u \<in> cron_fires (cal, c, tz). t < u
   | Some p \<Rightarrow> p \<in> cron_fires (cal, c, tz) \<and> p \<le> t \<and> (\<forall>u \<in> cron_fires (cal, c, tz). u \<le> t \<longrightarrow> u \<le> p)"
    using assms unfolding croner_back_lawful_def by blast
  show ?thesis
  proof (cases "croner_previous cal c tz t")
    case None
    then show ?thesis using law by (auto simp: last_upto_def simp del: cron_fires.simps)
  next
    case (Some p)
    then show ?thesis using law
      by (auto simp: last_upto_def simp del: cron_fires.simps)
  qed
qed

lemma compile_cron:
  "croner_parse cal expr day_or = Inr c \<Longrightarrow> resolve_tz cal timezone = Inr tz \<Longrightarrow>
   compile cal now (Cron expr timezone day_or) = Inr (CompiledCron c tz)"
  by (simp add: parse_cron_def)

text \<open>
  C35: Walking a cron schedule back gives what walking it forward gives: when the
  forward walk over the window of fires at or after \<open>low\<close> and at or before
  \<open>end_at\<close> was not cut by its cap, \<^verbatim>\<open>fires_before\<close> returns the last \<open>count\<close> of its
  fires, most recent first. The guard against a repeated instant never cuts the
  backward walk short.
\<close>

theorem backward_walk_mirrors_forward:
  assumes "croner_parse cal expr day_or = Inr c" "resolve_tz cal timezone = Inr tz"
    and "croner_lawful cal c tz" "croner_back_lawful cal c tz" "low \<le> end_at"
    and "fires_between cal now (Cron expr timezone day_or) (low - 1) end_at n = Value (Inr ts)" "length ts < n"
  shows "fires_before cal now (Cron expr timezone day_or) end_at low count = Inr (take count (rev ts))"
proof -
  let ?F = "cron_fires (cal, c, tz)"
  note comp = compile_cron[OF assms(1,2), of now]
  have w: "walk (cron_next (cal, c, tz)) (\<lambda>_ t. t \<le> end_at) n (low - 1) = Value (Inr ts)"
    using assms(6) comp by (simp add: fires_between_def)
  have "cron.listed (cal, c, tz) (low - 1) end_at n ts"
    using cron.walk_lists[of "low - 1" end_at "(cal, c, tz)" n] w assms(3,5) by auto
  then have "sorted_wrt (<) ts" "set ts = {u \<in> ?F. low \<le> u \<and> u \<le> end_at}"
    using assms(7) by (auto simp: cron.listed_def simp del: cron_fires.simps)
  then have fwd: "latest_listed ?F low end_at count (take count (rev ts))"
    by (intro latest_listed_take) (auto simp: sorted_wrt_rev)
  have "latest_listed ?F low end_at count (back_walk (\<lambda>t. previous_from cal (CompiledCron c tz) t low) count end_at None)"
    by (rule back_walk_latest[OF previous_from_last[OF assms(4)]]) simp
  then show ?thesis using latest_listed_unique[OF fwd] comp by (simp add: fires_before_def del: previous_from.simps)
qed

lemma plain_back_lawful: "croner_back_lawful plain_calendar c tz"
proof -
  have "t div 1000000 * 1000000 \<le> t" for t :: int using pos_mod_sign[of 1000000 t] div_mult_mod_eq[of t 1000000] by linarith
  moreover have "\<exists>s. (s div 1000000 + 1) * 1000000 = t div 1000000 * 1000000" for t :: int
    by (rule exI[of _ "(t div 1000000 - 1) * 1000000"]) simp
  moreover have "(s div 1000000 + 1) * 1000000 \<le> t div 1000000 * 1000000" if "(s div 1000000 + 1) * 1000000 \<le> t" for s t :: int
    using that zdiv_mono1[OF that, of 1000000] by simp
  ultimately show ?thesis by (auto simp: croner_back_lawful_def plain_calendar_def)
qed

theorem backward_walk_mirrors_forward_witness:
  "fires_before plain_calendar 0 (Cron ''* * * * * *'' None True) 3000000 1000000 2 = Inr [3000000, 2000000]"
proof -
  have "fires_between plain_calendar 0 (Cron ''* * * * * *'' None True) (1000000 - 1) 3000000 4 = Value (Inr [1000000, 2000000, 3000000])"
    by (simp add: fires_between_def resolve_tz_def parse_cron_def plain_calendar_def numeral_eq_Suc)
  then show ?thesis
    using backward_walk_mirrors_forward[of plain_calendar "''* * * * * *''" True "()" None plain_zone 1000000 3000000 0 4
        "[1000000, 2000000, 3000000]" 2] plain_lawful plain_back_lawful
    by (simp add: resolve_tz_def) (simp add: plain_calendar_def)
qed

end
