(* ===== verification/Schedule_Store.thy ===== *)
theory Schedule_Store
  imports Store_Runs Schedules
begin

text \<open>
  The tables behind the schedules (\<^verbatim>\<open>crates/store\<close>): the schedules, the fires a
  person skipped, and the queries and commands on runs that the scheduler uses.
  A query that orders its rows is a sort; a JSON column holds the value its text
  denotes; a column that may be NULL is an option, with SQL's three-valued
  comparisons written out.
\<close>

record ScheduleRow =
  sr_id :: int
  sr_external_id :: string
  sr_flow_id :: int
  sr_schedule :: Schedule
  sr_catchup :: CatchupPolicy
  sr_catchup_max :: int
  sr_catchup_window :: "int option"
  sr_jitter :: int
  sr_start_deadline :: "int option"
  sr_active :: bool
  sr_paused_reason :: "string option"
  sr_paused_until :: "micros option"
  sr_source :: string
  sr_code_key :: "string option"
  sr_persist :: bool
  sr_created_at :: micros
  sr_updated_at :: micros
  sr_next_fire :: "micros option"
  sr_skipped :: int
  sr_loop_state :: "string option"

record ScheduleWrite =
  sw_id :: "int option"
  sw_flow_id :: int
  sw_spec :: Schedule
  sw_catchup :: CatchupPolicy
  sw_catchup_max :: int
  sw_catchup_window :: "int option"
  sw_jitter :: int
  sw_start_deadline :: "int option"
  sw_active :: bool
  sw_source :: string
  sw_code_key :: "string option"
  sw_persist :: bool

record SchedulePatch =
  sp_spec :: "Schedule option"
  sp_catchup :: "CatchupPolicy option"
  sp_catchup_max :: "int option"
  sp_catchup_window :: "int option option"
  sp_jitter :: "int option"
  sp_start_deadline :: "int option option"
  sp_active :: "bool option"
  sp_paused_reason :: "string option option"
  sp_paused_until :: "micros option option"
  sp_persist :: "bool option"

record Skip =
  sk_schedule :: int
  sk_fire :: micros
  sk_created_at :: micros
  sk_created_by :: string

record SDb =
  sd_db :: Db
  sd_schedules :: "ScheduleRow list"
  sd_skips :: "Skip list"

definition empty_sdb :: SDb where
  "empty_sdb = \<lparr> sd_db = empty_db, sd_schedules = [], sd_skips = [] \<rparr>"

section \<open>Schedules\<close>

text \<open>The columns that are not stored: the skips of fires after the current second are counted by the query.\<close>

definition read_schedule :: "micros \<Rightarrow> SDb \<Rightarrow> ScheduleRow \<Rightarrow> ScheduleRow" where
  "read_schedule now d row = row\<lparr> sr_next_fire := None, sr_loop_state := None,
     sr_skipped := int (length (filter (\<lambda>k. sk_schedule k = sr_id row \<and> now div 1000000 * 1000000 < sk_fire k) (sd_skips d))) \<rparr>"

definition list_schedules :: "micros \<Rightarrow> int option \<Rightarrow> SDb \<Rightarrow> ScheduleRow list" where
  "list_schedules now flow d =
     map (read_schedule now d)
       (sort_key sr_id (filter (\<lambda>r. flow = None \<or> flow = Some (sr_flow_id r)) (sd_schedules d)))"

definition get_schedule :: "micros \<Rightarrow> int \<Rightarrow> SDb \<Rightarrow> ScheduleRow option" where
  "get_schedule now i d = map_option (read_schedule now d) (List.find (\<lambda>r. sr_id r = i) (sd_schedules d))"

definition next_schedule_id :: "ScheduleRow list \<Rightarrow> int" where
  "next_schedule_id rows = (case map sr_id rows of [] \<Rightarrow> 1 | i # is \<Rightarrow> fold max is i + 1)"

definition apply_write :: "micros \<Rightarrow> ScheduleWrite \<Rightarrow> ScheduleRow \<Rightarrow> ScheduleRow" where
  "apply_write now sw row = row\<lparr> sr_schedule := sw_spec sw, sr_catchup := sw_catchup sw,
     sr_catchup_max := sw_catchup_max sw, sr_active := sw_active sw, sr_source := sw_source sw,
     sr_code_key := sw_code_key sw, sr_persist := sw_persist sw, sr_updated_at := now,
     sr_catchup_window := sw_catchup_window sw, sr_jitter := sw_jitter sw,
     sr_start_deadline := sw_start_deadline sw \<rparr>"

definition inserted_schedule :: "int \<Rightarrow> string \<Rightarrow> micros \<Rightarrow> ScheduleWrite \<Rightarrow> ScheduleRow" where
  "inserted_schedule i ext now sw = \<lparr> sr_id = i, sr_external_id = ext, sr_flow_id = sw_flow_id sw,
     sr_schedule = sw_spec sw, sr_catchup = sw_catchup sw, sr_catchup_max = sw_catchup_max sw,
     sr_catchup_window = sw_catchup_window sw, sr_jitter = sw_jitter sw, sr_start_deadline = sw_start_deadline sw,
     sr_active = sw_active sw, sr_paused_reason = None, sr_paused_until = None, sr_source = sw_source sw,
     sr_code_key = sw_code_key sw, sr_persist = sw_persist sw, sr_created_at = now, sr_updated_at = now,
     sr_next_fire = None, sr_skipped = 0, sr_loop_state = None \<rparr>"

definition upsert_schedule :: "string \<Rightarrow> micros \<Rightarrow> ScheduleWrite \<Rightarrow> SDb \<Rightarrow> int \<times> SDb" where
  "upsert_schedule ext now sw d =
     (case sw_id sw of
        Some i \<Rightarrow>
          (i, d\<lparr> sd_schedules := map (\<lambda>r. if sr_id r = i then apply_write now sw r else r) (sd_schedules d) \<rparr>)
      | None \<Rightarrow>
          (let i = next_schedule_id (sd_schedules d) in
           (i, d\<lparr> sd_schedules := sd_schedules d @ [inserted_schedule i ext now sw] \<rparr>)))"

definition set_if :: "'a option \<Rightarrow> ('a \<Rightarrow> 'r \<Rightarrow> 'r) \<Rightarrow> 'r \<Rightarrow> 'r" where
  "set_if v f r = (case v of Some x \<Rightarrow> f x r | None \<Rightarrow> r)"

definition apply_patch :: "micros \<Rightarrow> SchedulePatch \<Rightarrow> ScheduleRow \<Rightarrow> ScheduleRow" where
  "apply_patch now p r =
     (let r = set_if (sp_spec p) (\<lambda>v r. r\<lparr> sr_schedule := v \<rparr>) r;
          r = set_if (sp_catchup p) (\<lambda>v r. r\<lparr> sr_catchup := v \<rparr>) r;
          r = set_if (sp_catchup_max p) (\<lambda>v r. r\<lparr> sr_catchup_max := v \<rparr>) r;
          r = set_if (sp_active p) (\<lambda>v r. r\<lparr> sr_active := v \<rparr>) r;
          r = set_if (sp_jitter p) (\<lambda>v r. r\<lparr> sr_jitter := v \<rparr>) r;
          r = set_if (sp_catchup_window p) (\<lambda>v r. r\<lparr> sr_catchup_window := v \<rparr>) r;
          r = set_if (sp_start_deadline p) (\<lambda>v r. r\<lparr> sr_start_deadline := v \<rparr>) r;
          r = set_if (sp_paused_reason p) (\<lambda>v r. r\<lparr> sr_paused_reason := v \<rparr>) r;
          r = set_if (sp_paused_until p) (\<lambda>v r. r\<lparr> sr_paused_until := v \<rparr>) r;
          r = set_if (sp_persist p) (\<lambda>v r. r\<lparr> sr_persist := v \<rparr>) r
      in r\<lparr> sr_updated_at := now \<rparr>)"

definition patch_schedule :: "micros \<Rightarrow> int \<Rightarrow> SchedulePatch \<Rightarrow> SDb \<Rightarrow> bool \<times> SDb" where
  "patch_schedule now i p d =
     (i \<in> set (map sr_id (sd_schedules d)),
      d\<lparr> sd_schedules := map (\<lambda>r. if sr_id r = i then apply_patch now p r else r) (sd_schedules d) \<rparr>)"

section \<open>Runs of a schedule\<close>

definition unstarted :: "int \<Rightarrow> Row \<Rightarrow> bool" where
  "unstarted sid r \<longleftrightarrow> row_schedule_id r = Some sid \<and> col_state_type r = Some ''Scheduled'' \<and> row_engine_pid r = None"

definition delete_unstarted_runs :: "int \<Rightarrow> SDb \<Rightarrow> int list \<times> SDb" where
  "delete_unstarted_runs sid d =
     (let ids = map row_id (filter (unstarted sid) (db_runs (sd_db d))) in
      (ids, d\<lparr> sd_db := (sd_db d)\<lparr> db_runs := filter (\<lambda>r. row_id r \<notin> set ids) (db_runs (sd_db d)) \<rparr> \<rparr>))"

text \<open>Deleting a schedule deletes its skips through their foreign key.\<close>

definition delete_schedule :: "int \<Rightarrow> SDb \<Rightarrow> bool \<times> SDb" where
  "delete_schedule sid d =
     (let rows = filter (\<lambda>r. \<not> unstarted sid r) (db_runs (sd_db d));
          found = sid \<in> set (map sr_id (sd_schedules d))
      in (found, d\<lparr> sd_db := (sd_db d)\<lparr> db_runs := rows \<rparr>,
                   sd_schedules := filter (\<lambda>r. sr_id r \<noteq> sid) (sd_schedules d),
                   sd_skips := (if found then filter (\<lambda>k. sk_schedule k \<noteq> sid) (sd_skips d) else sd_skips d) \<rparr>))"

text \<open>The \<^verbatim>\<open>UPDATE\<close> fails on the unique index when another run of the schedule has the new time.\<close>

definition waiting_run :: "int \<Rightarrow> Row \<Rightarrow> bool" where
  "waiting_run i r \<longleftrightarrow> row_id r = i \<and> col_state_type r = Some ''Scheduled''"

definition fire_clash :: "int \<Rightarrow> micros \<Rightarrow> Row list \<Rightarrow> bool" where
  "fire_clash i time rows \<longleftrightarrow> (\<exists>r \<in> set rows. waiting_run i r \<and> row_schedule_id r \<noteq> None
     \<and> (\<exists>q \<in> set rows. row_id q \<noteq> i \<and> row_schedule_id q = row_schedule_id r \<and> row_scheduled_time q = Some time))"

definition move_run :: "int \<Rightarrow> micros \<Rightarrow> string \<Rightarrow> Row \<Rightarrow> Row" where
  "move_run i time params r =
     (if waiting_run i r then r\<lparr> row_scheduled_time := Some time, row_parameters := params \<rparr> else r)"

definition reschedule_run :: "int \<Rightarrow> micros \<Rightarrow> string \<Rightarrow> SDb \<Rightarrow> StoreError + bool \<times> SDb" where
  "reschedule_run i time params d =
     (let rows = db_runs (sd_db d) in
      if fire_clash i time rows
      then Inl (Sqlite ''UNIQUE constraint failed: run.schedule_id, run.scheduled_time'')
      else Inr (\<exists>r \<in> set rows. waiting_run i r,
             d\<lparr> sd_db := (sd_db d)\<lparr> db_runs := map (move_run i time params) rows \<rparr> \<rparr>))"

definition fire_times_of_schedule :: "int \<Rightarrow> micros \<Rightarrow> micros \<Rightarrow> SDb \<Rightarrow> micros list" where
  "fire_times_of_schedule sid lo hi d =
     List.map_filter (\<lambda>r. case row_scheduled_time r of
         Some t \<Rightarrow> if row_schedule_id r = Some sid \<and> lo \<le> t \<and> t \<le> hi then Some t else None
       | None \<Rightarrow> None) (db_runs (sd_db d))"

definition has_child :: "Row list \<Rightarrow> Row \<Rightarrow> bool" where
  "has_child rows r \<longleftrightarrow> (\<exists>c \<in> set rows. row_parent c = Some (row_id r))"

definition active_runs_of_schedule :: "int \<Rightarrow> SDb \<Rightarrow> Row list" where
  "active_runs_of_schedule sid d =
     (let rows = db_runs (sd_db d) in
      sort_key row_id (filter (\<lambda>r. row_schedule_id r = Some sid \<and>
        (case col_state_type r of
           None \<Rightarrow> False
         | Some t \<Rightarrow> t \<notin> {''Completed'', ''Failed'', ''Cancelled'', ''Crashed''}
                     \<or> t = ''Crashed'' \<and> \<not> has_child rows r)) rows))"

definition last_end_of_schedule :: "int \<Rightarrow> SDb \<Rightarrow> micros option" where
  "last_end_of_schedule sid d =
     (case List.map_filter (\<lambda>r. if row_schedule_id r = Some sid then end_time (col_counters r) else None) (db_runs (sd_db d)) of
        [] \<Rightarrow> None
      | t # ts \<Rightarrow> Some (fold max ts t))"

record ScheduleRunMark =
  mk_id :: int
  mk_scheduled_time :: "micros option"
  mk_details :: jmap

definition row_mark :: "Row \<Rightarrow> ScheduleRunMark" where
  "row_mark r = \<lparr> mk_id = row_id r, mk_scheduled_time = row_scheduled_time r, mk_details = col_state_details r \<rparr>"

definition run_marks :: "int list \<Rightarrow> SDb \<Rightarrow> ScheduleRunMark list" where
  "run_marks ids d = map row_mark (filter (\<lambda>r. row_id r \<in> set ids) (db_runs (sd_db d)))"

definition is_future :: "int \<Rightarrow> micros \<Rightarrow> Row \<Rightarrow> bool" where
  "is_future sid after r \<longleftrightarrow> row_schedule_id r = Some sid \<and> col_state_type r = Some ''Scheduled''
     \<and> (case row_scheduled_time r of Some t \<Rightarrow> after < t | None \<Rightarrow> False)"

definition future_run_marks :: "int \<Rightarrow> micros \<Rightarrow> SDb \<Rightarrow> ScheduleRunMark list" where
  "future_run_marks sid after d =
     map row_mark (sort_key (\<lambda>r. case row_scheduled_time r of Some t \<Rightarrow> t | None \<Rightarrow> 0)
       (filter (is_future sid after) (db_runs (sd_db d))))"

definition run_name_exists :: "string \<Rightarrow> SDb \<Rightarrow> bool" where
  "run_name_exists name d \<longleftrightarrow> (\<exists>r \<in> set (db_runs (sd_db d)). row_name r = name)"

section \<open>Skipped fires\<close>

definition list_skips :: "int \<Rightarrow> SDb \<Rightarrow> micros list" where
  "list_skips sid d = sort (map sk_fire (filter (\<lambda>k. sk_schedule k = sid) (sd_skips d)))"

definition has_skip :: "int \<Rightarrow> micros \<Rightarrow> Skip list \<Rightarrow> bool" where
  "has_skip sid fire ks \<longleftrightarrow> (\<exists>k \<in> set ks. sk_schedule k = sid \<and> sk_fire k = fire)"

text \<open>\<^verbatim>\<open>INSERT OR IGNORE\<close> on the primary key; a schedule that is gone fails the foreign key.\<close>

fun insert_skips :: "int \<Rightarrow> micros list \<Rightarrow> micros \<Rightarrow> string \<Rightarrow> Skip list \<Rightarrow> nat \<times> Skip list" where
  "insert_skips sid [] now who ks = (0, ks)"
| "insert_skips sid (f # fs) now who ks =
     (if has_skip sid f ks then insert_skips sid fs now who ks
      else case insert_skips sid fs now who
                  (ks @ [\<lparr> sk_schedule = sid, sk_fire = f, sk_created_at = now, sk_created_by = who \<rparr>]) of
             (n, ks') \<Rightarrow> (Suc n, ks'))"

definition add_skips :: "int \<Rightarrow> micros list \<Rightarrow> micros \<Rightarrow> string \<Rightarrow> SDb \<Rightarrow> StoreError + nat \<times> SDb" where
  "add_skips sid fires now who d =
     (if fires \<noteq> [] \<and> sid \<notin> set (map sr_id (sd_schedules d))
      then Inl (Sqlite ''FOREIGN KEY constraint failed'')
      else case insert_skips sid fires now who (sd_skips d) of (n, ks) \<Rightarrow> Inr (n, d\<lparr> sd_skips := ks \<rparr>))"

definition delete_skips :: "int \<Rightarrow> micros list \<Rightarrow> SDb \<Rightarrow> nat \<times> SDb" where
  "delete_skips sid fires d =
     (let kept = filter (\<lambda>k. \<not> (sk_schedule k = sid \<and> sk_fire k \<in> set fires)) (sd_skips d) in
      (length (sd_skips d) - length kept, d\<lparr> sd_skips := kept \<rparr>))"

definition delete_skips_before :: "int \<Rightarrow> micros \<Rightarrow> SDb \<Rightarrow> SDb" where
  "delete_skips_before sid before_at d =
     d\<lparr> sd_skips := filter (\<lambda>k. \<not> (sk_schedule k = sid \<and> sk_fire k \<le> before_at)) (sd_skips d) \<rparr>"

text \<open>\<^verbatim>\<open>json_extract(state_details, '$.skip') IS NULL\<close>: the key is absent or null.\<close>

definition skip_mark_null :: "jmap \<Rightarrow> bool" where
  "skip_mark_null m \<longleftrightarrow> (case jmap_get m ''skip'' of None \<Rightarrow> True | Some v \<Rightarrow> v = JNull)"

definition marks_now :: "int \<Rightarrow> micros list \<Rightarrow> Row \<Rightarrow> bool" where
  "marks_now sid skips r \<longleftrightarrow> unstarted sid r \<and> skip_mark_null (col_state_details r)
     \<and> (case row_scheduled_time r of Some t \<Rightarrow> t \<in> set skips | None \<Rightarrow> False)"

text \<open>A NULL time is in no list, and not in a list only when the list is empty.\<close>

definition clears_now :: "int \<Rightarrow> micros list \<Rightarrow> Row \<Rightarrow> bool" where
  "clears_now sid skips r \<longleftrightarrow> row_schedule_id r = Some sid \<and> col_state_type r = Some ''Scheduled''
     \<and> \<not> skip_mark_null (col_state_details r)
     \<and> (case row_scheduled_time r of Some t \<Rightarrow> t \<notin> set skips | None \<Rightarrow> skips = [])"

definition set_mark :: "Row \<Rightarrow> Row" where
  "set_mark r = r\<lparr> col_state_details := jmap_insert ''skip'' (JStr ''user'') (col_state_details r) \<rparr>"

definition clear_mark :: "Row \<Rightarrow> Row" where
  "clear_mark r = r\<lparr> col_state_details := filter (\<lambda>(k, _). k \<noteq> ''skip'') (col_state_details r) \<rparr>"

definition sync_skip_marks :: "int \<Rightarrow> SDb \<Rightarrow> int list \<times> SDb" where
  "sync_skip_marks sid d =
     (let skips = list_skips sid d;
          rows = db_runs (sd_db d);
          marked = map (\<lambda>r. if marks_now sid skips r then set_mark r else r) rows;
          synced = map (\<lambda>r. if clears_now sid skips r then clear_mark r else r) marked
      in (map row_id (filter (marks_now sid skips) rows) @ map row_id (filter (clears_now sid skips) marked),
          d\<lparr> sd_db := (sd_db d)\<lparr> db_runs := synced \<rparr> \<rparr>))"

text \<open>The writer executes these commands like the others: one that fails changes nothing.\<close>

datatype ScheduleCommand =
    RunCmd WriteCommand
  | UpsertSchedule string micros ScheduleWrite
  | PatchSchedule micros int SchedulePatch
  | DeleteSchedule int
  | DeleteUnstartedRuns int
  | RescheduleRun int micros string
  | SetRunEngine int "int option" "string option"
  | AddSkips int "micros list" micros string
  | DeleteSkips int "micros list"
  | DeleteSkipsBefore int micros
  | SyncSkipMarks int

fun schedule_execute :: "ScheduleCommand \<Rightarrow> SDb \<Rightarrow> SDb" where
  "schedule_execute (RunCmd c) d = d\<lparr> sd_db := execute c (sd_db d) \<rparr>"
| "schedule_execute (UpsertSchedule ext now sw) d = snd (upsert_schedule ext now sw d)"
| "schedule_execute (PatchSchedule now i p) d = snd (patch_schedule now i p d)"
| "schedule_execute (DeleteSchedule i) d = snd (delete_schedule i d)"
| "schedule_execute (DeleteUnstartedRuns i) d = snd (delete_unstarted_runs i d)"
| "schedule_execute (RescheduleRun i t params) d = (case reschedule_run i t params d of Inl _ \<Rightarrow> d | Inr (_, d') \<Rightarrow> d')"
| "schedule_execute (SetRunEngine i pid eng) d = d\<lparr> sd_db := (sd_db d)\<lparr> db_runs :=
     map (\<lambda>r. if row_id r = i then r\<lparr> row_engine_pid := pid, row_engine_id := eng \<rparr> else r) (db_runs (sd_db d)) \<rparr> \<rparr>"
| "schedule_execute (AddSkips i fs now who) d = (case add_skips i fs now who d of Inl _ \<Rightarrow> d | Inr (_, d') \<Rightarrow> d')"
| "schedule_execute (DeleteSkips i fs) d = snd (delete_skips i fs d)"
| "schedule_execute (DeleteSkipsBefore i t) d = delete_skips_before i t d"
| "schedule_execute (SyncSkipMarks i) d = snd (sync_skip_marks i d)"

section \<open>What every history of commands keeps\<close>

definition fire_of :: "Row \<Rightarrow> (int \<times> micros) option" where
  "fire_of r = (case (row_schedule_id r, row_scheduled_time r) of (Some s, Some t) \<Rightarrow> Some (s, t) | _ \<Rightarrow> None)"

text \<open>Run ids are distinct, and so are the fires of the runs that have one.\<close>

definition fires_once :: "Row list \<Rightarrow> bool" where
  "fires_once rows \<longleftrightarrow> distinct (map row_id rows)
     \<and> (\<forall>r \<in> set rows. \<forall>q \<in> set rows. \<forall>f. fire_of r = Some f \<and> fire_of q = Some f \<longrightarrow> row_id r = row_id q)"

definition skips_ok :: "SDb \<Rightarrow> bool" where
  "skips_ok d \<longleftrightarrow> distinct (map (\<lambda>k. (sk_schedule k, sk_fire k)) (sd_skips d))
     \<and> sk_schedule ` set (sd_skips d) \<subseteq> sr_id ` set (sd_schedules d)"

definition sdb_ok :: "SDb \<Rightarrow> bool" where
  "sdb_ok d \<longleftrightarrow> fires_once (db_runs (sd_db d)) \<and> distinct (map sr_id (sd_schedules d)) \<and> skips_ok d"

lemma fires_onceD:
  "fires_once rows \<Longrightarrow> r \<in> set rows \<Longrightarrow> q \<in> set rows \<Longrightarrow> fire_of r = Some f \<Longrightarrow> fire_of q = Some f \<Longrightarrow> row_id r = row_id q"
  unfolding fires_once_def by blast

lemma fires_onceI:
  assumes "distinct (map row_id rows)"
    "\<And>r q f. r \<in> set rows \<Longrightarrow> q \<in> set rows \<Longrightarrow> fire_of r = Some f \<Longrightarrow> fire_of q = Some f \<Longrightarrow> row_id r = row_id q"
  shows "fires_once rows"
  unfolding fires_once_def using assms by blast

lemma fires_once_ids: "fires_once rows \<Longrightarrow> distinct (map row_id rows)"
  by (simp only: fires_once_def)

lemma fires_once_mapI:
  assumes once: "fires_once rows" and ids: "\<And>r. r \<in> set rows \<Longrightarrow> row_id (f r) = row_id r"
    and fire: "\<And>r q x. r \<in> set rows \<Longrightarrow> q \<in> set rows \<Longrightarrow> fire_of (f r) = Some x \<Longrightarrow> fire_of (f q) = Some x \<Longrightarrow> row_id r = row_id q"
  shows "fires_once (map f rows)"
proof -
  have "map row_id (map f rows) = map row_id rows" using ids by simp
  then have "distinct (map row_id (map f rows))" using once by (simp only: fires_once_def)
  moreover have "row_id a = row_id b" if "a \<in> set (map f rows)" "b \<in> set (map f rows)" "fire_of a = Some x" "fire_of b = Some x" for a b x
  proof -
    obtain r q where "r \<in> set rows" "q \<in> set rows" "a = f r" "b = f q" using \<open>a \<in> _\<close> \<open>b \<in> _\<close> by auto
    then show ?thesis using fire[of r q x] ids that by simp
  qed
  ultimately show ?thesis unfolding fires_once_def by blast
qed

lemma fires_once_map:
  assumes once: "fires_once rows" and same: "\<And>r. r \<in> set rows \<Longrightarrow> row_id (f r) = row_id r \<and> fire_of (f r) = fire_of r"
  shows "fires_once (map f rows)"
proof (rule fires_once_mapI[OF once])
  show "row_id (f r) = row_id r" if "r \<in> set rows" for r using same[OF that] by simp
  show "row_id r = row_id q" if "r \<in> set rows" "q \<in> set rows" "fire_of (f r) = Some x" "fire_of (f q) = Some x" for r q x
  proof (rule fires_onceD[OF once that(1,2)])
    show "fire_of r = Some x" using same[OF that(1)] that(3) by argo
    show "fire_of q = Some x" using same[OF that(2)] that(4) by argo
  qed
qed

lemma fires_once_filter:
  assumes "fires_once rows"
  shows "fires_once (filter P rows)"
proof -
  have "distinct (map row_id (filter P rows))" using fires_once_ids[OF assms] by (rule distinct_map_filter)
  then show ?thesis
  proof (rule fires_onceI)
    show "row_id r = row_id q"
      if "r \<in> set (filter P rows)" "q \<in> set (filter P rows)" "fire_of r = Some f" "fire_of q = Some f" for r q f
      by (rule fires_onceD[OF assms _ _ that(3,4)]) (use that(1,2) in auto)
  qed
qed

lemma fires_once_append:
  assumes "fires_once rows" "row_id r \<notin> row_id ` set rows" "\<not> fire_taken (row_schedule_id r) (row_scheduled_time r) rows"
  shows "fires_once (rows @ [r])"
proof -
  have new: "fire_of q \<noteq> Some f" if "q \<in> set rows" "fire_of r = Some f" for q f
    using assms(3) that by (auto simp: fire_taken_def fire_of_def split: option.splits)
  have "row_id a = row_id b"
    if ab: "a \<in> set (rows @ [r])" "b \<in> set (rows @ [r])" and f: "fire_of a = Some f" "fire_of b = Some f" for a b f
  proof (cases "a = r \<or> b = r")
    case True
    then show ?thesis using new[of a f] new[of b f] ab f by auto
  next
    case False
    then show ?thesis using fires_onceD[OF assms(1) _ _ f] ab by simp
  qed
  moreover have "distinct (map row_id (rows @ [r]))" using fires_once_ids[OF assms(1)] assms(2) by simp
  ultimately show ?thesis unfolding fires_once_def by blast
qed

lemma transition_row_fire:
  assumes "transition_row t s force r = Inr (s', r')"
  shows "fire_of r' = fire_of r"
  using assms by (auto simp: transition_row_def fire_of_def write_checkpoint_def write_state_def Let_def
      split: sum.splits option.splits if_splits)

lemma transition_fires_once:
  assumes "fires_once (db_runs db)" "transition t i s force db = Inr (s', db')"
  shows "fires_once (db_runs db')"
proof -
  obtain r r' where r: "r \<in> set (table_rows t db)" "row_id r = i" "transition_row t s force r = Inr (s', r')"
    and db': "db' = set_table_rows t (map (\<lambda>x. if row_id x = i then r' else x) (table_rows t db)) db"
    by (rule transition_Inr[OF assms(2)])
  show ?thesis
  proof (cases t)
    case RunTable
    have same: "x = r" if "x \<in> set (db_runs db)" "row_id x = i" for x
      using fires_once_ids[OF assms(1)] that r(1,2) RunTable by (auto simp: table_rows_def distinct_map inj_on_def)
    have "fires_once (map (\<lambda>x. if row_id x = i then r' else x) (db_runs db))"
      using same transition_row_fire[OF r(3)] transition_row_Inr(5)[OF r(3)] r(2)
      by (intro fires_once_map[OF assms(1)]) auto
    then show ?thesis using db' RunTable by (simp add: table_rows_def set_table_rows_def)
  next
    case TaskRunTable
    then show ?thesis using assms(1) db' by (simp add: set_table_rows_def)
  qed
qed

lemma execute_fires_once:
  assumes "fires_once (db_runs db)"
  shows "fires_once (db_runs (execute c db))"
proof (cases c)
  case (TransitionCmd t i s force)
  then show ?thesis using assms transition_fires_once[OF assms, of t i s force] by (auto split: sum.splits)
next
  case (CreateRunCmd ext now r)
  show ?thesis
  proof (cases "create_run ext now r db")
    case (Inr p)
    obtain i db' where p: "p = (i, db')" by (cases p)
    let ?row = "new_row (next_rowid (db_runs db)) ext now r"
    have ins: "insert_run ext now r db = Inr (i, db')" using create_run_Inr(1) Inr p by blast
    then have free: "\<not> fire_taken (cr_schedule_id r) (cr_scheduled_time r) (db_runs db)"
      by (auto simp: insert_run_def Let_def split: if_splits)
    have added: "fires_once (db_runs db @ [?row])"
      using free next_rowid_fresh[of _ "db_runs db"] order_less_irrefl
      by (intro fires_once_append[OF assms]) (auto simp: new_row_def, blast)
    then have "fires_once (db_runs db')"
      using ins free transition_fires_once[of "db\<lparr> db_runs := db_runs db @ [?row] \<rparr>" RunTable]
      by (auto simp: insert_run_def Let_def split: option.splits sum.splits)
    then show ?thesis using CreateRunCmd Inr p by simp
  qed (use assms CreateRunCmd in auto)
qed

lemma move_run_id [simp]: "row_id (move_run i time params r) = row_id r"
  by (simp add: move_run_def)

lemma moved_fire_free:
  assumes "\<not> fire_clash i time rows" "r \<in> set rows" "q \<in> set rows" "waiting_run i r" "row_id q \<noteq> i"
    "fire_of (move_run i time params r) = Some x"
  shows "fire_of (move_run i time params q) \<noteq> Some x"
proof -
  have "row_schedule_id q \<noteq> row_schedule_id r \<or> row_scheduled_time q \<noteq> Some time" if "row_schedule_id r \<noteq> None"
    using assms(1-5) that by (auto simp: fire_clash_def)
  then show ?thesis using assms(4-6) by (auto simp: move_run_def waiting_run_def fire_of_def split: option.splits)
qed

lemma reschedule_fires_once:
  assumes once: "fires_once rows" and free: "\<not> fire_clash i time rows"
  shows "fires_once (map (move_run i time params) rows)"
proof (rule fires_once_mapI[OF once])
  fix r q x
  assume rq: "r \<in> set rows" "q \<in> set rows"
    and f: "fire_of (move_run i time params r) = Some x" "fire_of (move_run i time params q) = Some x"
  consider "waiting_run i r" | "waiting_run i q" | "\<not> waiting_run i r" "\<not> waiting_run i q" by blast
  then show "row_id r = row_id q"
  proof cases
    case 1
    then show ?thesis using moved_fire_free[OF free rq 1 _ f(1)] f(2) by (metis waiting_run_def)
  next
    case 2
    then show ?thesis using moved_fire_free[OF free rq(2,1) 2 _ f(2)] f(1) by (metis waiting_run_def)
  next
    case 3
    then show ?thesis using fires_onceD[OF once rq] f by (simp add: move_run_def)
  qed
qed simp

lemma insert_skips_keys:
  assumes "insert_skips sid fs now who ks = (n, ks')" "distinct (map (\<lambda>k. (sk_schedule k, sk_fire k)) ks)"
  shows "distinct (map (\<lambda>k. (sk_schedule k, sk_fire k)) ks')" "sk_schedule ` set ks' \<subseteq> insert sid (sk_schedule ` set ks)"
    "fs = [] \<Longrightarrow> ks' = ks"
  using assms
proof (induction fs arbitrary: ks n)
  case (Cons f fs)
  {
    case 1
    then show ?case using Cons.IH(1)[OF _ _] by (force simp: has_skip_def split: if_splits prod.splits)
  next
    case 2
    then show ?case using Cons.IH(2) by (fastforce simp: has_skip_def split: if_splits prod.splits)
  next
    case 3
    then show ?case by simp
  }
qed auto

lemma next_schedule_id_fresh: "r \<in> set rows \<Longrightarrow> sr_id r < next_schedule_id rows"
  using fold_max_upper by (cases rows) (force simp: next_schedule_id_def)+

lemma apply_patch_id [simp]: "sr_id (apply_patch now p r) = sr_id r"
  by (simp add: apply_patch_def set_if_def Let_def split: option.splits)

lemma map_ids_cong: "(\<And>r. sr_id (f r) = sr_id r) \<Longrightarrow> map sr_id (map f rows) = map sr_id rows"
  by simp

lemma sdb_runs_only:
  "sdb_ok d \<Longrightarrow> fires_once rows \<Longrightarrow> sdb_ok (d\<lparr> sd_db := (sd_db d)\<lparr> db_runs := rows \<rparr> \<rparr>)"
  by (simp add: sdb_ok_def skips_ok_def)

lemma sdb_schedules_only:
  assumes "sdb_ok d" "map sr_id rows = map sr_id (sd_schedules d)"
  shows "sdb_ok (d\<lparr> sd_schedules := rows \<rparr>)"
proof -
  have "sr_id ` set rows = sr_id ` set (sd_schedules d)" using assms(2) by (metis list.set_map)
  then show ?thesis using assms by (simp add: sdb_ok_def skips_ok_def)
qed

lemma sdb_skips_filter:
  assumes "sdb_ok d"
  shows "sdb_ok (d\<lparr> sd_skips := filter P (sd_skips d) \<rparr>)"
proof -
  have "skips_ok (d\<lparr> sd_skips := filter P (sd_skips d) \<rparr>)"
    using assms by (auto simp: sdb_ok_def skips_ok_def distinct_map_filter)
  then show ?thesis using assms by (simp add: sdb_ok_def)
qed

lemma upsert_ok: "sdb_ok d \<Longrightarrow> sdb_ok (snd (upsert_schedule ext now sw d))"
proof (cases "sw_id sw")
  case (Some i)
  assume "sdb_ok d"
  then have "sdb_ok (d\<lparr> sd_schedules := map (\<lambda>r. if sr_id r = i then apply_write now sw r else r) (sd_schedules d) \<rparr>)"
    by (rule sdb_schedules_only) (simp add: apply_write_def)
  then show ?thesis using Some by (simp add: upsert_schedule_def)
next
  case None
  assume ok: "sdb_ok d"
  define i where "i = next_schedule_id (sd_schedules d)"
  have "i \<notin> sr_id ` set (sd_schedules d)" using next_schedule_id_fresh[of _ "sd_schedules d"] unfolding i_def by (metis imageE order_less_irrefl)
  then have "distinct (map sr_id (sd_schedules d @ [inserted_schedule i ext now sw]))"
    using ok by (simp add: sdb_ok_def inserted_schedule_def)
  moreover have "skips_ok (d\<lparr> sd_schedules := sd_schedules d @ [inserted_schedule i ext now sw] \<rparr>)"
    using ok by (auto simp: sdb_ok_def skips_ok_def)
  ultimately have "sdb_ok (d\<lparr> sd_schedules := sd_schedules d @ [inserted_schedule i ext now sw] \<rparr>)"
    using ok by (simp add: sdb_ok_def)
  then show ?thesis using None by (simp add: upsert_schedule_def Let_def i_def)
qed

lemma delete_schedule_ok: "sdb_ok d \<Longrightarrow> sdb_ok (snd (delete_schedule sid d))"
proof -
  assume ok: "sdb_ok d"
  let ?rows = "filter (\<lambda>r. \<not> unstarted sid r) (db_runs (sd_db d))"
  let ?d = "snd (delete_schedule sid d)"
  have parts: "db_runs (sd_db ?d) = ?rows" "sd_schedules ?d = filter (\<lambda>r. sr_id r \<noteq> sid) (sd_schedules d)"
    "sd_skips ?d = filter (\<lambda>k. sk_schedule k \<noteq> sid) (sd_skips d)"
    using ok by (auto simp: delete_schedule_def Let_def sdb_ok_def skips_ok_def filter_empty_conv intro!: filter_True[symmetric])
  have "fires_once ?rows" using ok fires_once_filter by (simp only: sdb_ok_def)
  moreover have "skips_ok ?d" using ok parts by (auto simp: sdb_ok_def skips_ok_def distinct_map_filter)
  moreover have "distinct (map sr_id (sd_schedules ?d))" using ok parts(2) by (simp add: sdb_ok_def distinct_map_filter)
  ultimately show ?thesis using parts(1) by (simp only: sdb_ok_def)
qed

lemma add_skips_ok: "sdb_ok d \<Longrightarrow> add_skips sid fs now who d = Inr (n, d') \<Longrightarrow> sdb_ok d'"
proof -
  assume ok: "sdb_ok d" and add: "add_skips sid fs now who d = Inr (n, d')"
  obtain ks where ks: "insert_skips sid fs now who (sd_skips d) = (n, ks)" "d' = d\<lparr> sd_skips := ks \<rparr>"
    and known: "fs \<noteq> [] \<Longrightarrow> sid \<in> sr_id ` set (sd_schedules d)"
    using add by (auto simp: add_skips_def split: if_splits prod.splits)
  have keys: "distinct (map (\<lambda>k. (sk_schedule k, sk_fire k)) (sd_skips d))" "sk_schedule ` set (sd_skips d) \<subseteq> sr_id ` set (sd_schedules d)"
    using ok by (auto simp: sdb_ok_def skips_ok_def)
  have "skips_ok (d\<lparr> sd_skips := ks \<rparr>)"
    using insert_skips_keys[OF ks(1) keys(1)] keys known by (cases "fs = []") (auto simp: skips_ok_def)
  then show "sdb_ok d'" using ok ks(2) by (simp add: sdb_ok_def)
qed

lemma fire_of_upd [simp]:
  "fire_of (r\<lparr> col_state_details := m \<rparr>) = fire_of r" "fire_of (r\<lparr> row_engine_pid := p, row_engine_id := e \<rparr>) = fire_of r"
  by (simp_all add: fire_of_def)

lemma mark_fields [simp]:
  "fire_of (set_mark r) = fire_of r" "fire_of (clear_mark r) = fire_of r"
  "row_id (set_mark r) = row_id r" "row_id (clear_mark r) = row_id r"
  by (simp_all add: set_mark_def clear_mark_def)

lemma schedule_execute_ok:
  assumes ok: "sdb_ok d"
  shows "sdb_ok (schedule_execute c d)"
proof -
  have runs: "fires_once (db_runs (sd_db d))" using ok by (simp only: sdb_ok_def)
  show ?thesis
  proof (cases c)
    case (RunCmd w)
    have "sdb_ok (d\<lparr> sd_db := db \<rparr>)" if "fires_once (db_runs db)" for db
      using ok that by (simp add: sdb_ok_def skips_ok_def)
    then show ?thesis using RunCmd execute_fires_once[OF runs] by simp
  next
    case (UpsertSchedule ext now sw)
    then show ?thesis using upsert_ok[OF ok] by simp
  next
    case (PatchSchedule now i p)
    have "sdb_ok (d\<lparr> sd_schedules := map (\<lambda>r. if sr_id r = i then apply_patch now p r else r) (sd_schedules d) \<rparr>)"
      by (rule sdb_schedules_only[OF ok]) simp
    then show ?thesis using PatchSchedule by (simp add: patch_schedule_def)
  next
    case (DeleteSchedule i)
    then show ?thesis using delete_schedule_ok[OF ok] by simp
  next
    case (DeleteUnstartedRuns i)
    then show ?thesis using sdb_runs_only[OF ok fires_once_filter[OF runs]] by (simp add: delete_unstarted_runs_def Let_def)
  next
    case (RescheduleRun i t params)
    then show ?thesis using ok sdb_runs_only[OF ok reschedule_fires_once[OF runs, of i t params]]
      by (simp add: reschedule_run_def Let_def)
  next
    case (SetRunEngine i pid eng)
    have "fires_once (map (\<lambda>r. if row_id r = i then r\<lparr> row_engine_pid := pid, row_engine_id := eng \<rparr> else r) (db_runs (sd_db d)))"
      by (rule fires_once_map[OF runs]) simp
    then show ?thesis using SetRunEngine sdb_runs_only[OF ok] by simp
  next
    case (AddSkips i fs now who)
    then show ?thesis using ok add_skips_ok[OF ok] by (auto split: sum.splits)
  next
    case (DeleteSkips i fs)
    then show ?thesis using sdb_skips_filter[OF ok] by (simp add: delete_skips_def Let_def)
  next
    case (DeleteSkipsBefore i t)
    then show ?thesis using sdb_skips_filter[OF ok] by (simp add: delete_skips_before_def)
  next
    case (SyncSkipMarks i)
    have "fires_once (map (\<lambda>r. if clears_now i sk r then clear_mark r else r) (map (\<lambda>r. if marks_now i sk r then set_mark r else r) (db_runs (sd_db d))))" for sk
      by (intro fires_once_map runs) auto
    then show ?thesis using SyncSkipMarks sdb_runs_only[OF ok] by (simp add: sync_skip_marks_def Let_def)
  qed
qed

interpretation schedule_writer: preserved schedule_execute sdb_ok
  by unfold_locales (rule schedule_execute_ok)

section \<open>Properties\<close>

text \<open>Two requests for one fire, and a skip of it.\<close>

definition fire_request :: CreateRun where
  "fire_request = (witness_request None)\<lparr> cr_schedule_id := Some 1, cr_scheduled_time := Some 60 \<rparr>"

definition twice_requested :: SDb where
  "twice_requested = fold schedule_execute
     [RunCmd (CreateRunCmd ''a'' 10 fire_request), RunCmd (CreateRunCmd ''b'' 20 fire_request)] empty_sdb"

lemma twice_requested_rows:
  "map row_id (db_runs (sd_db twice_requested)) = [1]" "map fire_of (db_runs (sd_db twice_requested)) = [Some (1, 60)]"
  by (simp_all add: twice_requested_def fire_request_def store_eval empty_sdb_def empty_db_def fire_of_def)

definition once_skipped :: SDb where
  "once_skipped = twice_requested\<lparr> sd_skips := [\<lparr> sk_schedule = 1, sk_fire = 60, sk_created_at = 0, sk_created_by = ''me'' \<rparr>] \<rparr>"

lemma once_skipped_row:
  "map (\<lambda>r. (unstarted 1 r, row_scheduled_time r)) (db_runs (sd_db (snd (sync_skip_marks 1 once_skipped)))) = [(True, Some 60)]"
  by (simp add: once_skipped_def twice_requested_def fire_request_def store_eval empty_sdb_def empty_db_def
      sync_skip_marks_def marks_now_def clears_now_def unstarted_def set_mark_def clear_mark_def)


text \<open>
  C21: One fire, one run: after any commands of the writer on an empty database,
  two runs with the same schedule and the same scheduled time are the same run,
  whether the look-ahead, catch-up or a reschedule gave it that time; and a
  schedule has each fire at most once among its skips, which name schedules that exist.
\<close>

theorem one_run_per_fire:
  fixes cmds :: "ScheduleCommand list"
  defines "d \<equiv> fold schedule_execute cmds empty_sdb"
  assumes "r \<in> set (db_runs (sd_db d))" "q \<in> set (db_runs (sd_db d))" "fire_of r = Some f" "fire_of q = Some f"
  shows "r = q \<and> skips_ok d"
proof -
  have ok: "sdb_ok d" unfolding d_def
    by (rule schedule_writer.runs) (simp add: sdb_ok_def fires_once_def skips_ok_def empty_sdb_def empty_db_def)
  then have once: "fires_once (db_runs (sd_db d))" by (simp only: sdb_ok_def)
  have "row_id r = row_id q" by (rule fires_onceD[OF once assms(2-5)])
  then have "r = q" using fires_once_ids[OF once] assms(2,3) by (auto simp: distinct_map inj_on_def)
  then show ?thesis using ok by (simp add: sdb_ok_def)
qed

theorem one_run_per_fire_witness:
  "hd (db_runs (sd_db twice_requested)) = last (db_runs (sd_db twice_requested)) \<and> skips_ok twice_requested"
proof -
  obtain x where x: "db_runs (sd_db twice_requested) = [x]" "fire_of x = Some (1, 60)"
    using twice_requested_rows by (cases "db_runs (sd_db twice_requested)") auto
  show ?thesis
    using one_run_per_fire[of x "[RunCmd (CreateRunCmd ''a'' 10 fire_request), RunCmd (CreateRunCmd ''b'' 20 fire_request)]" x "(1, 60)"] x
    unfolding twice_requested_def by simp
qed

text \<open>
  Synchronising the marks of a schedule makes the table of skipped fires and
  the marks agree: a run that waits without an engine carries a mark exactly
  when its fire is skipped.
\<close>

theorem skip_marks_follow_table:
  assumes "r \<in> set (db_runs (sd_db (snd (sync_skip_marks sid d))))" "unstarted sid r" "row_scheduled_time r = Some t"
  shows "\<not> skip_mark_null (col_state_details r) \<longleftrightarrow> has_skip sid t (sd_skips d)"
proof -
  have "t \<in> set (list_skips sid d) \<longleftrightarrow> has_skip sid t (sd_skips d)" by (auto simp: list_skips_def has_skip_def)
  moreover obtain q where q: "q \<in> set (db_runs (sd_db d))"
      "r = (let m = (if marks_now sid (list_skips sid d) q then set_mark q else q) in if clears_now sid (list_skips sid d) m then clear_mark m else m)"
    using assms(1) by (auto simp: sync_skip_marks_def Let_def)
  have marked: "\<not> skip_mark_null (col_state_details (set_mark q))" by (simp add: skip_mark_null_def set_mark_def)
  have cleared: "skip_mark_null (col_state_details (clear_mark m))" for m
  proof -
    have "map_of (filter (\<lambda>(k, _). k \<noteq> ''skip'') xs) ''skip'' = None" for xs :: jmap
      by (auto simp: map_of_eq_None_iff)
    then show ?thesis by (simp add: skip_mark_null_def clear_mark_def jmap_get_def)
  qed
  have keep: "row_scheduled_time (set_mark q) = row_scheduled_time q" "row_scheduled_time (clear_mark m) = row_scheduled_time m"
     "unstarted sid (set_mark q) = unstarted sid q" "unstarted sid (clear_mark m) = unstarted sid m" for m
    by (simp_all add: set_mark_def clear_mark_def unstarted_def)
  let ?m = "if marks_now sid (list_skips sid d) q then set_mark q else q"
  have m: "unstarted sid ?m" "row_scheduled_time ?m = Some t" using assms(2,3) q(2) keep by (auto simp: Let_def split: if_splits)
  then have "unstarted sid q" "row_scheduled_time q = Some t" using keep by (auto split: if_splits)
  then have "\<not> skip_mark_null (col_state_details ?m) \<or> t \<notin> set (list_skips sid d)"
    using marked by (auto simp: marks_now_def)
  then have "\<not> skip_mark_null (col_state_details r) \<longleftrightarrow> t \<in> set (list_skips sid d)"
    using q(2) m cleared[of ?m] by (auto simp: Let_def clears_now_def unstarted_def)
  ultimately show ?thesis by blast
qed

theorem skip_marks_follow_table_witness:
  "\<not> skip_mark_null (col_state_details (hd (db_runs (sd_db (snd (sync_skip_marks 1 once_skipped))))))"
proof -
  obtain x where x: "db_runs (sd_db (snd (sync_skip_marks 1 once_skipped))) = [x]" "unstarted 1 x" "row_scheduled_time x = Some 60"
    using once_skipped_row by (auto simp: map_eq_Cons_conv)
  then show ?thesis
    using skip_marks_follow_table[of x 1 once_skipped 60] by (simp add: once_skipped_def has_skip_def)
qed

end
