(* ===== verification/Scheduler.thy ===== *)
theory Scheduler
  imports Schedule_Store Active_Index Timer Events Supervisor_State Unique "HOL-Library.Word"
begin

text \<open>
  The scheduler (\<^verbatim>\<open>crates/server/src/scheduler.rs\<close>): materialises the runs of the
  fires ahead, catches up fires that were missed, arms the timers of every
  waiting run and handles them when they are due, and holds everything under
  the global pause. Its state is the part of the server it works on: the
  store, the active index, the timer heap, its own table of schedules and the
  pause. Calls into the other parts (admission, the event log and its rules, the
  published streams, the supervisor) are recorded in order as \<open>sc_calls\<close>. One
  operation reads the clock once, as \<open>now\<close>; a value the program stores as JSON
  text is kept as the value.
\<close>

section \<open>Flow options\<close>

record ScheduleDecl =
  dc_schedule :: Schedule
  dc_catchup :: CatchupPolicy
  dc_catchup_max :: int
  dc_catchup_window :: "int option"
  dc_jitter :: int
  dc_start_deadline :: "int option"
  dc_key :: "string option"

record FlowOptions =
  fo_isolated :: bool
  fo_log_prints :: bool
  fo_priority :: int
  fo_max_concurrent :: "int option"
  fo_on_overlap :: string
  fo_resources :: jmap
  fo_crash_retries :: "int option"
  fo_timeout_seconds :: "f64 option"
  fo_retries :: int
  fo_after :: "AfterSpec option"
  fo_disable_after :: "(int \<times> int option \<times> int) option"
  fo_schedules :: "ScheduleDecl list"
  fo_has_bulk_complete :: bool
  fo_has_crash_hooks :: bool
  fo_start_deadline :: "f64 option"
  fo_runs_on :: "string option"
  fo_unique :: "UniqueSpec option"
  fo_fresh_within :: "f64 option"
  fo_expect_by :: "string option"
  fo_expect_by_tz :: "string option"
  fo_expected_duration :: "f64 option"
  fo_overdue_factor :: "f64 option"

text \<open>
  The libraries the scheduler calls besides the calendar: \<^verbatim>\<open>serde_json\<close>'s reading of
  a flow's options (defaults when it fails) and of a row's JSON columns, its
  printing, \<^verbatim>\<open>chrono\<close>'s two time formats, and the random identifiers.
\<close>

record ('c, 'r) env = "('c, 'r) calendar" +
  flow_options :: "jmap \<Rightarrow> FlowOptions"
  json_map :: "string \<Rightarrow> jmap"
  json_list :: "string \<Rightarrow> string list"
  to_json :: "json \<Rightarrow> string"
  stamp_format :: "micros \<Rightarrow> string"
  iso_format :: "micros \<Rightarrow> string"
  new_id :: "Db \<Rightarrow> string"

section \<open>State\<close>

record Pause =
  pa_since :: micros
  pa_reason :: "string option"
  pa_until :: "micros option"
  pa_suppress_rules :: bool

datatype SchedCall =
    Admit int
  | Transitioned int State
  | RecordEvent EventName "int option" "int option"
  | RunCreated int
  | PublishRun int
  | PublishDeleted int
  | PublishSchedule int
  | Dequeue int
  | EnsureCapacity
  | RearmWaits
  | CallCrashRerun int
  | CallFlowTimeout int
  | CallExpectation int
  | CallRuleClock int
  | CallWakeRun int

record Sched =
  sc_store :: SDb
  sc_flows :: "Flow list"
  sc_index :: Index
  sc_timer :: Timer
  sc_table :: "(int \<times> ScheduleRow) list"
  sc_pause :: "Pause option"
  sc_kv_pause :: "Pause option"
  sc_kv_wakeup :: "micros option"
  sc_calls :: "SchedCall list"

definition emit :: "SchedCall \<Rightarrow> Sched \<Rightarrow> Sched" where
  "emit c s = s\<lparr> sc_calls := sc_calls s @ [c] \<rparr>"

definition arm_timer :: "micros \<Rightarrow> TimerEvent \<Rightarrow> Sched \<Rightarrow> Sched" where
  "arm_timer t e s = s\<lparr> sc_timer := snd (push t e (sc_timer s)) \<rparr>"

definition with_store :: "SDb \<Rightarrow> Sched \<Rightarrow> Sched" where
  "with_store d s = s\<lparr> sc_store := d \<rparr>"

definition sched_get :: "int \<Rightarrow> Sched \<Rightarrow> ScheduleRow option" where
  "sched_get i s = map_of (sc_table s) i"

definition sched_put :: "ScheduleRow \<Rightarrow> Sched \<Rightarrow> Sched" where
  "sched_put row s = s\<lparr> sc_table := AList.update (sr_id row) row (sc_table s) \<rparr>"

definition sched_remove :: "int \<Rightarrow> Sched \<Rightarrow> Sched" where
  "sched_remove i s = s\<lparr> sc_table := AList.delete i (sc_table s) \<rparr>"

definition sched_clear :: "Sched \<Rightarrow> Sched" where
  "sched_clear s = s\<lparr> sc_table := [] \<rparr>"

definition for_flow :: "int \<Rightarrow> Sched \<Rightarrow> ScheduleRow list" where
  "for_flow flow s = sort_key sr_id (filter (\<lambda>r. sr_flow_id r = flow) (map snd (sc_table s)))"

text \<open>The grouping of \<^verbatim>\<open>for_flows\<close>: one pass over the schedules, each group sorted by id.\<close>

definition group_by_flow :: "ScheduleRow list \<Rightarrow> int list \<Rightarrow> (int \<times> ScheduleRow list) list" where
  "group_by_flow rows flows =
     map (\<lambda>(f, rs). (f, sort_key sr_id rs))
       (fold (\<lambda>r groups. if sr_flow_id r \<in> set flows then entry_update (sr_flow_id r) [] (\<lambda>rs. rs @ [r]) groups else groups)
          rows [])"

definition for_flows :: "int list \<Rightarrow> Sched \<Rightarrow> (int \<times> ScheduleRow list) list" where
  "for_flows flows s = (if flows = [] then [] else group_by_flow (map snd (sc_table s)) flows)"

definition is_paused :: "Sched \<Rightarrow> bool" where
  "is_paused s \<longleftrightarrow> sc_pause s \<noteq> None"

definition get_flow :: "int \<Rightarrow> Sched \<Rightarrow> Flow option" where
  "get_flow i s = List.find (\<lambda>f. fl_id f = i) (sc_flows s)"

definition get_row :: "int \<Rightarrow> Sched \<Rightarrow> Row option" where
  "get_row i s = List.find (\<lambda>r. row_id r = i) (db_runs (sd_db (sc_store s)))"

text \<open>\<^verbatim>\<open>run_from_row\<close>: a run without a state reads as Scheduled at time zero. The task counts are those of the task table.\<close>

definition state_of_row :: "Row \<Rightarrow> State" where
  "state_of_row r = (case row_state r of Some st \<Rightarrow> st | None \<Rightarrow> with_timestamp 0 (State_new 0 Scheduled))"

definition run_from_row :: "('c, 'r) env \<Rightarrow> (string \<times> int) list \<Rightarrow> Flow \<Rightarrow> Row \<Rightarrow> Run" where
  "run_from_row env counts flow r = \<lparr> run_id = row_id r, run_external_id = row_external_id r, run_flow_id = row_flow_id r,
     run_flow_name = fl_name flow, run_project = fl_project flow, run_group = group_or_project flow,
     run_name = row_name r, run_parameters = json_map env (row_parameters r), run_tags = json_list env (row_tags r),
     run_attributes = row_attributes r, run_state = state_of_row r,
     run_failure_count = failure_count (col_counters r), run_crash_count = crash_count (col_counters r),
     run_created_at = row_created_at r, run_start_time = start_time (col_counters r), run_end_time = end_time (col_counters r),
     run_total_run_time = total_run_time (col_counters r), run_engine_pid = row_engine_pid r, run_engine_id = row_engine_id r,
     run_created_by = row_created_by r, run_report_seq = row_report_seq r, run_schedule_id = row_schedule_id r,
     run_scheduled_time = row_scheduled_time r, run_priority = row_priority r, run_parent_run_id = row_parent r,
     run_attempt = row_attempt r, run_backfill_id = row_backfill_id r, run_task_counts = counts,
     run_unique_key = row_unique_key r, run_host = row_host r, run_processor = row_processor r, run_lease = row_lease r,
     run_source_hash = row_source_hash r \<rparr>"

text \<open>
  \<^verbatim>\<open>AppState::transition_run\<close> as far as the scheduler's state goes; what follows it in the
  supervisor, the streams, the events and the dispatcher is the call \<open>Transitioned\<close>.
  The result says whether the transition was accepted.
\<close>

definition transition_run :: "('c, 'r) env \<Rightarrow> micros \<Rightarrow> int \<Rightarrow> State \<Rightarrow> Sched \<Rightarrow> bool \<times> Sched" where
  "transition_run env now i st s =
     (case get_row i s of
        None \<Rightarrow> (False, s)
      | Some r \<Rightarrow>
         (case get_flow (row_flow_id r) s of
            None \<Rightarrow> (False, s)
          | Some flow \<Rightarrow>
             (case transition RunTable i st False (sd_db (sc_store s)) of
                Inl _ \<Rightarrow> (False, s)
              | Inr (new, db) \<Rightarrow>
                 (let previous = run_from_row env [] flow r;
                      c = RunCounters_apply new (col_counters r);
                      run = previous\<lparr> run_state := new, run_failure_count := failure_count c, run_crash_count := crash_count c,
                              run_start_time := start_time c, run_end_time := end_time c, run_total_run_time := total_run_time c \<rparr>;
                      s = s\<lparr> sc_store := (sc_store s)\<lparr> sd_db := db \<rparr>,
                             sc_index := follow_transition now (EngineKey_from_flow flow) previous run (sc_index s) \<rparr>;
                      s = (if is_terminal new \<or> st_type new = Paused
                           then s\<lparr> sc_timer := remove_run_events i (sc_timer s) \<rparr> else s);
                      s = (if st_type new = Paused
                           then s\<lparr> sc_store := schedule_execute (SetRunEngine i None None) (sc_store s),
                                  sc_index := snd (update_active i (\<lambda>a. a\<lparr> ar_engine_pid := None, ar_engine_id := None \<rparr>) (sc_index s)) \<rparr>
                           else s)
                  in (True, emit (Transitioned i new) s)))))"

section \<open>Constants and marks\<close>

definition LOOKAHEAD_RUNS :: nat where "LOOKAHEAD_RUNS = 3"
definition LOOKAHEAD_MIN_SECS :: int where "LOOKAHEAD_MIN_SECS = 3600"
definition LOOKAHEAD_MAX :: nat where "LOOKAHEAD_MAX = 100"
definition LATE_AFTER_SECS :: int where "LATE_AFTER_SECS = 15"
definition PERSIST_EVERY_SECS :: int where "PERSIST_EVERY_SECS = 60"
definition PREWARM :: int where "PREWARM = 5"

definition is_mark_skip :: "jmap \<Rightarrow> bool" where
  "is_mark_skip details \<longleftrightarrow> Option.bind (jmap_get details ''skip'') as_str = Some ''user''"

definition is_marked :: "Row \<Rightarrow> bool" where
  "is_marked r \<longleftrightarrow> is_mark_skip (st_details (state_of_row r))"

definition continuous_key :: "int \<Rightarrow> string" where
  "continuous_key sid = ''continuous:'' @ show_int sid"

section \<open>Jitter\<close>

text \<open>FNV-1a over the sixteen bytes of the two numbers, then the finaliser while the hash lies in the biased range.\<close>

definition le_bytes :: "int \<Rightarrow> 64 word list" where
  "le_bytes n = map (\<lambda>k. take_bit 8 (drop_bit (8 * k) (word_of_int n))) [0..<8]"

definition fnv_step :: "64 word \<Rightarrow> 64 word \<Rightarrow> 64 word" where
  "fnv_step byte hash = xor hash byte * 0x100000001b3"

definition fire_hash :: "int \<Rightarrow> micros \<Rightarrow> 64 word" where
  "fire_hash sid fire = fold fnv_step (le_bytes sid @ le_bytes fire) 0xcbf29ce484222325"

definition rehash :: "64 word \<Rightarrow> 64 word" where
  "rehash h = (let h = xor h (drop_bit 33 h); h = h * 0xff51afd7ed558ccd in xor h (drop_bit 33 h))"

partial_function (option) unbias :: "64 word \<Rightarrow> 64 word \<Rightarrow> 64 word option" where
  "unbias threshold hash = (if threshold \<le> hash then unbias threshold (rehash hash) else Some hash)"

definition jitter_offset :: "int \<Rightarrow> micros \<Rightarrow> int \<Rightarrow> int option" where
  "jitter_offset sid fire jitter_secs =
     (if jitter_secs \<le> 0 then Some 0
      else
        let modulus = word_of_int jitter_secs * 1000000 :: 64 word;
            threshold = - 1 - (- 1 mod modulus)
        in if modulus = 0 then None
           else map_option (\<lambda>h. sint (h mod modulus)) (unbias threshold (fire_hash sid fire)))"

section \<open>Creating and arming runs\<close>

fun obind :: "'a outcome \<Rightarrow> ('a \<Rightarrow> 'b outcome) \<Rightarrow> 'b outcome" where
  "obind Panic f = Panic"
| "obind (Value x) f = f x"

fun ofold :: "('x \<Rightarrow> 's \<Rightarrow> 's outcome) \<Rightarrow> 'x list \<Rightarrow> 's \<Rightarrow> 's outcome" where
  "ofold f [] s = Value s"
| "ofold f (x # xs) s = obind (f x s) (ofold f xs)"

definition cal_of :: "('c, 'r) env \<Rightarrow> ('c, 'r) calendar" where
  "cal_of env = calendar.truncate env"

definition value_get :: "json \<Rightarrow> string \<Rightarrow> json option" where
  "value_get v k = (case v of JObj m \<Rightarrow> jmap_get m k | _ \<Rightarrow> None)"

text \<open>The parameters of a scheduled run: the defaults its flow's schema declares.\<close>

definition default_parameters :: "json \<Rightarrow> jmap" where
  "default_parameters schema =
     (case Option.bind (value_get schema ''properties'') jobject of
        None \<Rightarrow> []
      | Some props \<Rightarrow>
          fold (\<lambda>(k, prop) m. case value_get prop ''default'' of Some d \<Rightarrow> jmap_insert k d m | None \<Rightarrow> m) props [])"

definition scheduled_run_name :: "('c, 'r) env \<Rightarrow> micros \<Rightarrow> Flow \<Rightarrow> ScheduleRow \<Rightarrow> micros \<Rightarrow> SDb \<Rightarrow> string" where
  "scheduled_run_name env now flow row scheduled d =
     (let name = fl_name flow @ ''-'' @ stamp_format env (from_micros (cal_of env) now scheduled) in
      if run_name_exists name d then name @ ''-'' @ show_int (sr_id row) else name)"

definition scheduled_request ::
  "('c, 'r) env \<Rightarrow> micros \<Rightarrow> Flow \<Rightarrow> ScheduleRow \<Rightarrow> micros \<Rightarrow> string \<Rightarrow> bool \<Rightarrow> UniqueCheck option \<Rightarrow> SDb \<Rightarrow> CreateRun" where
  "scheduled_request env now flow row scheduled by_whom skip unique d =
     (let initial = State_new now Scheduled;
          initial = (if skip then initial\<lparr> st_details := jmap_insert ''skip'' (JStr ''user'') (st_details initial) \<rparr> else initial)
      in \<lparr> cr_flow_id = fl_id flow, cr_name = scheduled_run_name env now flow row scheduled d,
           cr_parameters = to_json env (JObj (default_parameters (fl_parameter_schema flow))),
           cr_tags = to_json env (JArr (map JStr (fl_tags flow))), cr_created_by = by_whom,
           cr_initial_state = Some initial, cr_schedule_id = Some (sr_id row), cr_scheduled_time = Some scheduled,
           cr_priority = fo_priority (flow_options env (fl_options flow)), cr_parent = None, cr_attempt = 0,
           cr_backfill_id = None, cr_unique = unique \<rparr>)"

definition create_scheduled_run ::
  "('c, 'r) env \<Rightarrow> micros \<Rightarrow> Flow \<Rightarrow> ScheduleRow \<Rightarrow> micros \<Rightarrow> string \<Rightarrow> bool \<Rightarrow> UniqueCheck option \<Rightarrow> Sched \<Rightarrow> Row option \<times> Sched" where
  "create_scheduled_run env now flow row scheduled by_whom skip unique s =
     (let d = sc_store s in
      case create_run (new_id env (sd_db d)) now (scheduled_request env now flow row scheduled by_whom skip unique d) (sd_db d) of
        Inl _ \<Rightarrow> (None, s)
      | Inr (i, db) \<Rightarrow>
         (let s = s\<lparr> sc_store := d\<lparr> sd_db := db \<rparr> \<rparr> in
          case get_row i s of
            None \<Rightarrow> (None, s)
          | Some r \<Rightarrow>
              (Some r, emit (RunCreated i)
                 (s\<lparr> sc_index := index_insert now (run_from_row env [] flow r) (EngineKey_from_flow flow) False (sc_index s) \<rparr>))))"

definition arm_run :: "micros \<Rightarrow> int \<Rightarrow> micros \<Rightarrow> bool \<Rightarrow> Sched \<Rightarrow> Sched" where
  "arm_run now i due skipped s =
     (let s = s\<lparr> sc_timer := remove_run_events i (sc_timer s) \<rparr>;
          s = arm_timer due (Due i) s
      in if skipped then s
         else let s = arm_timer (due + LATE_AFTER_SECS * 1000000) (LateCheck i) s;
                  prewarm = due - PREWARM * 1000000
              in if now < prewarm then arm_timer prewarm Wake s else s)"

definition start_deadline_secs :: "('c, 'r) env \<Rightarrow> Flow \<Rightarrow> ScheduleRow \<Rightarrow> int option" where
  "start_deadline_secs env flow row =
     (case (case sr_start_deadline row of
              Some d \<Rightarrow> Some d
            | None \<Rightarrow> map_option (\<lambda>d. f64_to_i64 (f64_round d)) (fo_start_deadline (flow_options env (fl_options flow)))) of
        Some d \<Rightarrow> if 0 < d then Some d else None
      | None \<Rightarrow> None)"

definition arm_deadline :: "int option \<Rightarrow> micros \<Rightarrow> int \<Rightarrow> Sched \<Rightarrow> Sched" where
  "arm_deadline deadline due i s =
     (case deadline of Some seconds \<Rightarrow> arm_timer (due + seconds * 1000000) (StartDeadline i) s | None \<Rightarrow> s)"

text \<open>An offset that never comes (a hash rejected for ever, a zero modulus) is a call that does not return.\<close>

definition due_at :: "ScheduleRow \<Rightarrow> micros \<Rightarrow> micros outcome" where
  "due_at row fire = (case jitter_offset (sr_id row) fire (sr_jitter row) of Some o' \<Rightarrow> Value (fire + o') | None \<Rightarrow> Panic)"

definition arm_mark :: "('c, 'r) env \<Rightarrow> micros \<Rightarrow> Flow \<Rightarrow> ScheduleRow \<Rightarrow> ScheduleRunMark \<Rightarrow> Sched \<Rightarrow> Sched outcome" where
  "arm_mark env now flow row mark s =
     (case mk_scheduled_time mark of
        None \<Rightarrow> Value s
      | Some fire \<Rightarrow>
          obind (due_at row fire) (\<lambda>due.
            let marked = is_mark_skip (mk_details mark);
                s = arm_run now (mk_id mark) due marked s
            in Value (if marked then s else arm_deadline (start_deadline_secs env flow row) due (mk_id mark) s)))"

section \<open>The look-ahead\<close>

fun look_ahead ::
  "('c, 'r) env \<Rightarrow> micros \<Rightarrow> Flow \<Rightarrow> ScheduleRow \<Rightarrow> micros list \<Rightarrow> micros \<Rightarrow> nat \<Rightarrow> ScheduleRunMark list \<Rightarrow> micros
   \<Rightarrow> nat \<Rightarrow> nat \<Rightarrow> Sched \<Rightarrow> (ScheduleRunMark list \<times> Sched) outcome" where
  "look_ahead env now flow row skips horizon 0 existing cursor starting created s = Value (existing, s)"
| "look_ahead env now flow row skips horizon (Suc n) existing cursor starting created s =
     (if \<not> (starting < LOOKAHEAD_RUNS \<or> cursor < horizon) then Value (existing, s)
      else case next_after (cal_of env) now (sr_schedule row) cursor of
             Panic \<Rightarrow> Panic
           | Value (Inl _) \<Rightarrow> Value (existing, s)
           | Value (Inr None) \<Rightarrow> Value (existing, s)
           | Value (Inr (Some t)) \<Rightarrow>
               if t \<le> cursor then Value (existing, s)
               else
                 let skip = t \<in> set skips in
                 case create_scheduled_run env now flow row t ''schedule'' skip None s of
                   (None, s) \<Rightarrow> Value (existing, s)
                 | (Some r, s) \<Rightarrow>
                     let existing = existing @ [row_mark r] in
                     if LOOKAHEAD_MAX < created + 1 then Value (existing, s)
                     else look_ahead env now flow row skips horizon n existing t
                            (if skip then starting else starting + 1) (created + 1) s)"

definition min_opt :: "micros list \<Rightarrow> micros option" where
  "min_opt ts = (case ts of [] \<Rightarrow> None | t # ts \<Rightarrow> Some (fold min ts t))"

definition max_opt :: "micros list \<Rightarrow> micros option" where
  "max_opt ts = (case ts of [] \<Rightarrow> None | t # ts \<Rightarrow> Some (fold max ts t))"

text \<open>A continuous schedule: one run that has not ended, due when the last one's end plus the delay has passed.\<close>

definition continuous_check :: "int \<Rightarrow> UniqueCheck" where
  "continuous_check sid = \<lparr> uc_key = continuous_key sid,
     uc_states = [''Scheduled'', ''Pending'', ''Running'', ''Paused'', ''Cancelling''], uc_since = None \<rparr>"

definition continuous_due :: "f64 \<Rightarrow> micros \<Rightarrow> micros option \<Rightarrow> micros" where
  "continuous_due delay now last_end = max (case last_end of Some e \<Rightarrow> e + secs_to_micros delay | None \<Rightarrow> now) now"

definition is_waiting :: "Row \<Rightarrow> bool" where
  "is_waiting r \<longleftrightarrow> st_type (state_of_row r) = Scheduled \<and> row_engine_pid r = None"

definition seed_continuous :: "('c, 'r) env \<Rightarrow> micros \<Rightarrow> ScheduleRow \<Rightarrow> Flow \<Rightarrow> f64 \<Rightarrow> Sched \<Rightarrow> Sched outcome" where
  "seed_continuous env now row flow delay s =
     (let active = active_runs_of_schedule (sr_id row) (sc_store s);
          (waiting, s) =
            (if active = []
             then create_scheduled_run env now flow row
                    (continuous_due delay now (last_end_of_schedule (sr_id row) (sc_store s)))
                    ''continuous'' False (Some (continuous_check (sr_id row))) s
             else (List.find is_waiting active, s));
          armed = (case waiting of
                     None \<Rightarrow> Value (None, s)
                   | Some r \<Rightarrow>
                      if st_type (state_of_row r) \<noteq> Scheduled then Value (None, s)
                      else case row_scheduled_time r of
                             None \<Rightarrow> Value (None, s)
                           | Some fire \<Rightarrow>
                               obind (due_at row fire) (\<lambda>due.
                                 Value (if now < due then Some due else None,
                                        arm_deadline (start_deadline_secs env flow row) due (row_id r)
                                          (arm_run now (row_id r) due False s))))
      in obind armed (\<lambda>(next_fire, s).
           Value (emit (PublishSchedule (sr_id row))
                    (sched_put (row\<lparr> sr_next_fire := next_fire, sr_skipped := 0 \<rparr>) s))))"

definition materialize_times :: "('c, 'r) env \<Rightarrow> micros \<Rightarrow> ScheduleRow \<Rightarrow> Flow \<Rightarrow> Sched \<Rightarrow> Sched outcome" where
  "materialize_times env now row flow s =
     (let all_skips = list_skips (sr_id row) (sc_store s);
          s = (case all_skips of
                 t # _ \<Rightarrow> if t \<le> now then with_store (delete_skips_before (sr_id row) now (sc_store s)) s else s
               | [] \<Rightarrow> s);
          skips = filter (\<lambda>t. now < t) all_skips;
          existing = future_run_marks (sr_id row) now (sc_store s);
          cursor = (case max_opt (List.map_filter mk_scheduled_time existing) of
                      Some t \<Rightarrow> from_micros (cal_of env) now t | None \<Rightarrow> now);
          horizon = now + LOOKAHEAD_MIN_SECS * 1000000;
          starting = length (filter (\<lambda>m. \<not> is_mark_skip (mk_details m)) existing)
      in obind (look_ahead env now flow row skips horizon (LOOKAHEAD_MAX - length existing) existing cursor starting 0 s)
           (\<lambda>(existing, s).
             obind (ofold (arm_mark env now flow row) existing s) (\<lambda>s.
               let times = List.map_filter mk_scheduled_time existing;
                   s = (case min_opt times of
                          Some t \<Rightarrow>
                            arm_timer (t + 1000) (Fire (sr_id row))
                              (s\<lparr> sc_timer := remove_schedule_events (sr_id row) (sc_timer s) \<rparr>)
                        | None \<Rightarrow> s);
                   next_fire = min_opt (List.map_filter mk_scheduled_time
                                 (filter (\<lambda>m. \<not> is_mark_skip (mk_details m)) existing))
               in Value (sched_put (row\<lparr> sr_next_fire := next_fire, sr_skipped := int (length skips) \<rparr>) s))))"

definition materialize :: "('c, 'r) env \<Rightarrow> micros \<Rightarrow> int \<Rightarrow> Sched \<Rightarrow> Sched outcome" where
  "materialize env now sid s =
     (case sched_get sid s of
        None \<Rightarrow> Value s
      | Some row \<Rightarrow>
         if \<not> sr_active row \<or> is_paused s then Value s
         else case get_flow (sr_flow_id row) s of
                None \<Rightarrow> Value s
              | Some flow \<Rightarrow>
                 (case sr_schedule row of
                    Continuous delay \<Rightarrow> seed_continuous env now row flow delay s
                  | _ \<Rightarrow> materialize_times env now row flow s))"

text \<open>Moving the waiting run of a continuous schedule to now; \<open>in_line\<close> is what \<^verbatim>\<open>supervisor.queued\<close> answers.\<close>

definition join_now :: "('c, 'r) env \<Rightarrow> micros \<Rightarrow> (int \<Rightarrow> bool) \<Rightarrow> int \<Rightarrow> Sched \<Rightarrow> (string + int) \<times> Sched" where
  "join_now env now in_line sid s =
     (case sched_get sid s of
        None \<Rightarrow> (Inl ''schedule not found'', s)
      | Some row \<Rightarrow>
         if \<not> is_continuous (sr_schedule row)
         then (Inl ''only a continuous schedule has a run waiting to join the line'', s)
         else if \<not> sr_active row
         then (Inl ''the schedule is paused; resume it to start the loop'', s)
         else case List.find (\<lambda>r. is_waiting r \<and> \<not> in_line (row_id r)) (active_runs_of_schedule sid (sc_store s)) of
                None \<Rightarrow> (Inl ''no run is waiting: it is already in line or running'', s)
              | Some waiting \<Rightarrow>
                 (case reschedule_run (row_id waiting) now
                         (to_json env (JObj (json_map env (row_parameters waiting)))) (sc_store s) of
                    Inl (Sqlite e) \<Rightarrow> (Inl e, s)
                  | Inl _ \<Rightarrow> (Inl [], s)
                  | Inr (False, d) \<Rightarrow> (Inl ''the run started meanwhile'', with_store d s)
                  | Inr (True, d) \<Rightarrow>
                     (let s = with_store d s;
                          i = row_id waiting;
                          admitted = get_flow (row_flow_id waiting) s \<noteq> None \<and> \<not> is_paused s;
                          s = (if admitted then s\<lparr> sc_timer := remove_run_events i (sc_timer s) \<rparr>
                               else arm_run now i now False s);
                          s = sched_put (row\<lparr> sr_next_fire := None \<rparr>) s;
                          s = (if admitted then emit (Admit i) s else s)
                      in (Inr i, emit (PublishSchedule sid) (emit (PublishRun i) s)))))"

section \<open>Catching up\<close>

text \<open>Which missed fires are run, how many the policy drops and how many were too old; \<open>None\<close> when nothing was missed.\<close>

definition catch_up_plan ::
  "CatchupPolicy \<Rightarrow> int \<Rightarrow> int option \<Rightarrow> micros \<Rightarrow> micros list \<Rightarrow> (micros list \<times> nat \<times> nat) option outcome" where
  "catch_up_plan policy cmax window now fires =
     (let kept = (case window of
                    Some w \<Rightarrow> if 0 < w then filter (\<lambda>f. now - w * 1000000 \<le> f) fires else fires
                  | None \<Rightarrow> fires);
          expired = length fires - length kept
      in if kept = [] \<and> expired = 0 then Value None
         else case policy of
                CatchSkip \<Rightarrow> Value (Some ([], length kept, expired))
              | CatchLatest \<Rightarrow>
                  if kept = [] then Panic else Value (Some ([last kept], length kept - 1, expired))
              | CatchAll \<Rightarrow>
                  (let keep = min (nat (max cmax 0)) (length kept);
                       start_idx = length kept - keep
                   in Value (Some (drop start_idx kept, start_idx, expired))))"

definition missed_fires :: "('c, 'r) env \<Rightarrow> micros \<Rightarrow> ScheduleRow \<Rightarrow> micros \<Rightarrow> Sched \<Rightarrow> (ScheduleError + micros list) outcome" where
  "missed_fires env now row since s =
     (let skips = list_skips (sr_id row) (sc_store s);
          taken = fire_times_of_schedule (sr_id row) since now (sc_store s)
      in obind (fires_between (cal_of env) now (sr_schedule row) (from_micros (cal_of env) now since)
                  (from_micros (cal_of env) now now) (nat (max (sr_catchup_max row) 1) + 1000))
           (\<lambda>fires. Value (case fires of
              Inl e \<Rightarrow> Inl e
            | Inr ts \<Rightarrow> Inr (filter (\<lambda>t. t \<notin> set skips \<and> t \<notin> set taken) ts))))"

fun create_missed :: "('c, 'r) env \<Rightarrow> micros \<Rightarrow> Flow \<Rightarrow> ScheduleRow \<Rightarrow> micros list \<Rightarrow> Sched \<Rightarrow> Sched" where
  "create_missed env now flow row [] s = s"
| "create_missed env now flow row (t # ts) s =
     (case create_scheduled_run env now flow row t ''catchup'' False None s of
        (Some r, s) \<Rightarrow> create_missed env now flow row ts (emit (Admit (row_id r)) s)
      | (None, s) \<Rightarrow> create_missed env now flow row ts s)"

definition catch_up :: "('c, 'r) env \<Rightarrow> ScheduleRow \<Rightarrow> micros \<Rightarrow> micros \<Rightarrow> Sched \<Rightarrow> Sched outcome" where
  "catch_up env row since now s =
     obind (missed_fires env now row since s) (\<lambda>fires.
       case fires of
         Inl _ \<Rightarrow> Value s
       | Inr ts \<Rightarrow>
          obind (catch_up_plan (sr_catchup row) (sr_catchup_max row) (sr_catchup_window row) now ts) (\<lambda>plan.
            case plan of
              None \<Rightarrow> Value s
            | Some (chosen, dropped, expired) \<Rightarrow>
               (case get_flow (sr_flow_id row) s of
                  None \<Rightarrow> Value s
                | Some flow \<Rightarrow>
                    Value (emit (RecordEvent ScheduleCatchup None (Some (sr_flow_id row)))
                             (create_missed env now flow row chosen s)))))"

section \<open>Skipping fires\<close>

fun fires_walk :: "(micros \<Rightarrow> (ScheduleError + micros option) outcome) \<Rightarrow> nat \<Rightarrow> micros \<Rightarrow> micros list outcome" where
  "fires_walk nxt 0 cursor = Value []"
| "fires_walk nxt (Suc n) cursor =
     (case nxt cursor of
        Panic \<Rightarrow> Panic
      | Value (Inl _) \<Rightarrow> Value []
      | Value (Inr None) \<Rightarrow> Value []
      | Value (Inr (Some t)) \<Rightarrow>
         if t \<le> cursor then Value []
         else obind (fires_walk nxt n t) (\<lambda>ts. Value (t # ts)))"

definition fires_after :: "('c, 'r) env \<Rightarrow> micros \<Rightarrow> Schedule \<Rightarrow> micros \<Rightarrow> nat \<Rightarrow> micros list outcome" where
  "fires_after env now sch after n =
     fires_walk (next_after (cal_of env) now sch) n (from_micros (cal_of env) now after)"

definition drop_lost_skips :: "('c, 'r) env \<Rightarrow> micros \<Rightarrow> ScheduleRow \<Rightarrow> Sched \<Rightarrow> Sched outcome" where
  "drop_lost_skips env now row s =
     (let skips = filter (\<lambda>t. now < t) (list_skips (sr_id row) (sc_store s)) in
      if skips = [] then Value s
      else obind (fires_after env now (sr_schedule row) now LOOKAHEAD_MAX) (\<lambda>produced.
             let lost = filter (\<lambda>t. t \<notin> set produced) skips in
             if lost = [] then Value s
             else Value (emit (RecordEvent ScheduleSkipsDropped None (Some (sr_flow_id row)))
                           (with_store (snd (delete_skips (sr_id row) lost (sc_store s))) s))))"

fun check_named_fires :: "('c, 'r) env \<Rightarrow> micros \<Rightarrow> micros list \<Rightarrow> micros list \<Rightarrow> string option" where
  "check_named_fires env now ahead [] = None"
| "check_named_fires env now ahead (f # fs) =
     (if f \<le> now then Some (iso_format env (from_micros (cal_of env) now f) @ '' has passed'')
      else if f \<notin> set ahead then
        Some (if ahead \<noteq> [] \<and> last ahead < f
              then iso_format env (from_micros (cal_of env) now f) @ '' is more than '' @ show_nat LOOKAHEAD_MAX @ '' fires ahead''
              else iso_format env (from_micros (cal_of env) now f) @ '' is not a fire of this schedule'')
      else check_named_fires env now ahead fs)"

definition choose_skips ::
  "('c, 'r) env \<Rightarrow> micros \<Rightarrow> micros list \<Rightarrow> micros list \<Rightarrow> micros list \<Rightarrow> nat option \<Rightarrow> string + micros list" where
  "choose_skips env now ahead skipped fires next_count =
     (case next_count of
        Some n \<Rightarrow>
          if n = 0 then Inl ''next must be at least 1''
          else
            let opened = take n (filter (\<lambda>t. t \<notin> set skipped) ahead) in
            if length opened < n
            then Inl (''only '' @ show_nat (length opened) @ '' of the next '' @ show_nat LOOKAHEAD_MAX @ '' fires can still be skipped'')
            else Inr opened
      | None \<Rightarrow>
          if fires = [] then Inl ''name the fires to skip, or pass next''
          else case check_named_fires env now ahead fires of
                 Some e \<Rightarrow> Inl e
               | None \<Rightarrow> Inr (remdups_adj (sort fires)))"

definition resync_run :: "micros \<Rightarrow> int \<Rightarrow> Sched \<Rightarrow> Sched" where
  "resync_run now i s =
     (case get_row i s of
        None \<Rightarrow> s
      | Some r \<Rightarrow>
         (let s = s\<lparr> sc_index := snd (update_active i (\<lambda>a. a\<lparr> ar_state := state_of_row r \<rparr>) (sc_index s)) \<rparr>;
              s = (if is_marked r then emit (Dequeue i) s else s);
              s = (case row_scheduled_time r of Some due \<Rightarrow> arm_run now i due (is_marked r) s | None \<Rightarrow> s)
          in emit (PublishRun i) s))"

definition apply_skips :: "('c, 'r) env \<Rightarrow> micros \<Rightarrow> int \<Rightarrow> Sched \<Rightarrow> Sched outcome" where
  "apply_skips env now sid s =
     (case sync_skip_marks sid (sc_store s) of
        (changed, d) \<Rightarrow>
          obind (materialize env now sid (fold (resync_run now) changed (with_store d s))) (\<lambda>s.
            let s = (case (sched_get sid s, get_schedule now sid (sc_store s)) of
                       (Some cached, Some stored) \<Rightarrow> sched_put (cached\<lparr> sr_skipped := sr_skipped stored \<rparr>) s
                     | _ \<Rightarrow> s)
            in Value (emit (PublishSchedule sid) s)))"

definition skip_fires ::
  "('c, 'r) env \<Rightarrow> micros \<Rightarrow> ScheduleRow \<Rightarrow> micros list \<Rightarrow> nat option \<Rightarrow> string \<Rightarrow> Sched \<Rightarrow> ((string + micros list) \<times> Sched) outcome" where
  "skip_fires env now row fires next_count by_whom s =
     obind (fires_after env now (sr_schedule row) now LOOKAHEAD_MAX) (\<lambda>ahead.
       case choose_skips env now ahead (list_skips (sr_id row) (sc_store s)) fires next_count of
         Inl e \<Rightarrow> Value (Inl e, s)
       | Inr chosen \<Rightarrow>
          (case add_skips (sr_id row) chosen now by_whom (sc_store s) of
             Inl _ \<Rightarrow> Value (Inl ''FOREIGN KEY constraint failed'', s)
           | Inr (_, d) \<Rightarrow>
               obind (apply_skips env now (sr_id row) (with_store d s)) (\<lambda>s. Value (Inr chosen, s))))"

definition unskip_fire :: "('c, 'r) env \<Rightarrow> micros \<Rightarrow> int \<Rightarrow> micros \<Rightarrow> Sched \<Rightarrow> ((string + bool) \<times> Sched) outcome" where
  "unskip_fire env now sid fire s =
     (if fire \<le> now
      then Value (Inl (iso_format env (from_micros (cal_of env) now fire) @ '' has passed; its Skipped run is history''), s)
      else case delete_skips sid [fire] (sc_store s) of
             (removed, d) \<Rightarrow>
               if removed = 0 then Value (Inr False, with_store d s)
               else obind (apply_skips env now sid (with_store d s)) (\<lambda>s. Value (Inr True, s)))"

text \<open>The time of a skipped fire arrived.\<close>

definition skipped_by_person :: "micros \<Rightarrow> State" where
  "skipped_by_person now = (let st = State_named now Skipped in
     st\<lparr> st_message := Some ''skipped by a person'', st_details := jmap_insert ''reason'' (JStr ''user'') (st_details st) \<rparr>)"

definition end_skipped :: "('c, 'r) env \<Rightarrow> micros \<Rightarrow> Row \<Rightarrow> Sched \<Rightarrow> Sched" where
  "end_skipped env now r s =
     (let s = snd (transition_run env now (row_id r) (skipped_by_person now) s) in
      case (row_schedule_id r, row_scheduled_time r) of
        (Some sid, Some fire) \<Rightarrow> with_store (snd (delete_skips sid [fire] (sc_store s))) s
      | _ \<Rightarrow> s)"

section \<open>Editing, pausing and resuming schedules\<close>

definition drop_run :: "micros \<Rightarrow> int \<Rightarrow> Sched \<Rightarrow> Sched" where
  "drop_run now i s =
     (let flow = (case get_active i (sc_index s) of Some a \<Rightarrow> ar_flow_id a | None \<Rightarrow> 0);
          s = s\<lparr> sc_index := remove_run i (Some (State_new now Scheduled)) flow (sc_index s) \<rparr>;
          s = emit (Dequeue i) s;
          s = s\<lparr> sc_timer := remove_run_events i (sc_timer s) \<rparr>
      in emit (PublishDeleted i) s)"

definition drop_unstarted :: "micros \<Rightarrow> int \<Rightarrow> Sched \<Rightarrow> Sched" where
  "drop_unstarted now sid s =
     (case delete_unstarted_runs sid (sc_store s) of
        (ids, d) \<Rightarrow>
          (let s = fold (drop_run now) ids (with_store d s)
           in s\<lparr> sc_timer := remove_schedule_events sid (sc_timer s) \<rparr>))"

definition rebuild :: "('c, 'r) env \<Rightarrow> micros \<Rightarrow> int \<Rightarrow> Sched \<Rightarrow> Sched outcome" where
  "rebuild env now sid s =
     (case get_schedule now sid (sc_store s) of
        None \<Rightarrow> Value ((sched_remove sid s)\<lparr> sc_timer := remove_schedule_events sid (sc_timer s) \<rparr>)
      | Some row \<Rightarrow>
         (let s = drop_unstarted now sid (sched_put row s) in
          obind (case sched_get sid s of Some row \<Rightarrow> drop_lost_skips env now row s | None \<Rightarrow> Value s)
            (materialize env now sid)))"

definition SchedulePatch_default :: SchedulePatch where
  "SchedulePatch_default = \<lparr> sp_spec = None, sp_catchup = None, sp_catchup_max = None, sp_catchup_window = None,
     sp_jitter = None, sp_start_deadline = None, sp_active = None, sp_paused_reason = None, sp_paused_until = None,
     sp_persist = None \<rparr>"

definition pause :: "micros \<Rightarrow> int \<Rightarrow> string option \<Rightarrow> micros option \<Rightarrow> Sched \<Rightarrow> Sched" where
  "pause now sid reason until s =
     (let d = snd (patch_schedule now sid (SchedulePatch_default\<lparr> sp_active := Some False,
                     sp_paused_reason := Some reason, sp_paused_until := Some until \<rparr>) (sc_store s));
          s = with_store d s;
          s = (case get_schedule now sid d of Some row \<Rightarrow> sched_put row s | None \<Rightarrow> s);
          s = emit (PublishSchedule sid) (drop_unstarted now sid s)
      in case sched_get sid s of
           Some row \<Rightarrow> emit (RecordEvent SchedulePaused None (Some (sr_flow_id row))) s
         | None \<Rightarrow> s)"

definition resume :: "('c, 'r) env \<Rightarrow> micros \<Rightarrow> int \<Rightarrow> Sched \<Rightarrow> Sched outcome" where
  "resume env now sid s =
     obind (rebuild env now sid (with_store (snd (patch_schedule now sid (SchedulePatch_default\<lparr> sp_active := Some True,
              sp_paused_reason := Some None, sp_paused_until := Some None \<rparr>) (sc_store s))) s)) (\<lambda>s.
       let s = emit (PublishSchedule sid) s in
       Value (case sched_get sid s of
                Some row \<Rightarrow> emit (RecordEvent ScheduleResumed None (Some (sr_flow_id row))) s
              | None \<Rightarrow> s))"

definition delete_one :: "micros \<Rightarrow> int \<Rightarrow> Sched \<Rightarrow> bool \<times> Sched" where
  "delete_one now sid s =
     (let s = drop_unstarted now sid s in
      case delete_schedule sid (sc_store s) of
        (ok, d) \<Rightarrow> (ok, emit (PublishSchedule sid) (sched_remove sid (with_store d s))))"

definition preview :: "('c, 'r) env \<Rightarrow> micros \<Rightarrow> Schedule \<Rightarrow> nat \<Rightarrow> (string + micros list) outcome" where
  "preview env now sch n =
     (case validate (cal_of env) sch of
        Inl e \<Rightarrow> Value (Inl (ScheduleError_to_string e))
      | Inr _ \<Rightarrow>
          obind (walk (next_after (cal_of env) now sch) (\<lambda>_ _. True) (min n 20) now) (\<lambda>r.
            Value (case r of Inl e \<Rightarrow> Inl (ScheduleError_to_string e) | Inr ts \<Rightarrow> Inr ts)))"

text \<open>
  The code-declared schedules of a flow against the stored ones. The stored
  text of a specification is compared with the new one; here the values are.
\<close>

definition pinned_spec :: "micros \<Rightarrow> Schedule \<Rightarrow> Schedule \<Rightarrow> Schedule" where
  "pinned_spec now declared stored =
     (case (declared, stored) of
        (Interval secs None tz, Interval _ (Some a) _) \<Rightarrow> Interval secs (Some a) tz
      | _ \<Rightarrow> with_anchor_if_missing now declared)"

definition decl_write :: "int \<Rightarrow> ScheduleDecl \<Rightarrow> string \<Rightarrow> int option \<Rightarrow> bool \<Rightarrow> Schedule \<Rightarrow> ScheduleWrite" where
  "decl_write flow decl key i active spec = \<lparr> sw_id = i, sw_flow_id = flow, sw_spec = spec, sw_catchup = dc_catchup decl,
     sw_catchup_max = dc_catchup_max decl, sw_catchup_window = dc_catchup_window decl, sw_jitter = dc_jitter decl,
     sw_start_deadline = dc_start_deadline decl, sw_active = active, sw_source = ''code'', sw_code_key = Some key, sw_persist = False \<rparr>"

definition decl_key :: "nat \<Rightarrow> ScheduleDecl \<Rightarrow> string" where
  "decl_key i decl = (case dc_key decl of Some k \<Rightarrow> k | None \<Rightarrow> ''code-'' @ show_nat i)"

fun sync_decls ::
  "('c, 'r) env \<Rightarrow> micros \<Rightarrow> int \<Rightarrow> ScheduleRow list \<Rightarrow> nat \<Rightarrow> ScheduleDecl list \<Rightarrow> string list \<times> int list \<Rightarrow> SDb
   \<Rightarrow> (string + string list \<times> int list) \<times> SDb" where
  "sync_decls env now flow existing i [] (seen, changed) d = (Inr (seen, changed), d)"
| "sync_decls env now flow existing i (decl # decls) (seen, changed) d =
     (let key = decl_key i decl in
      case validate (cal_of env) (dc_schedule decl) of
        Inl e \<Rightarrow> (Inl (ScheduleError_to_string e), d)
      | Inr _ \<Rightarrow>
         (case List.find (\<lambda>r. sr_source r = ''code'' \<and> sr_code_key r = Some key) existing of
            Some row \<Rightarrow>
              if sr_persist row then sync_decls env now flow existing (Suc i) decls (seen @ [key], changed) d
              else
                let spec = pinned_spec now (dc_schedule decl) (sr_schedule row);
                    changed = (if sr_schedule row \<noteq> spec then changed @ [sr_id row] else changed);
                    d = snd (upsert_schedule (new_id env (sd_db d)) now (decl_write flow decl key (Some (sr_id row)) (sr_active row) spec) d)
                in sync_decls env now flow existing (Suc i) decls (seen @ [key], changed) d
          | None \<Rightarrow>
              let d = snd (upsert_schedule (new_id env (sd_db d)) now
                        (decl_write flow decl key None True (with_anchor_if_missing now (dc_schedule decl))) d)
              in sync_decls env now flow existing (Suc i) decls (seen @ [key], changed) d))"

definition undeclared :: "string list \<Rightarrow> ScheduleRow \<Rightarrow> bool" where
  "undeclared seen r \<longleftrightarrow> sr_source r = ''code'' \<and> \<not> sr_persist r
     \<and> \<not> (case sr_code_key r of Some k \<Rightarrow> k \<in> set seen | None \<Rightarrow> False)"

definition sync_code_schedules :: "('c, 'r) env \<Rightarrow> micros \<Rightarrow> int \<Rightarrow> ScheduleDecl list \<Rightarrow> Sched \<Rightarrow> (string + int list) \<times> Sched" where
  "sync_code_schedules env now flow decls s =
     (let existing = list_schedules now (Some flow) (sc_store s) in
      case sync_decls env now flow existing 0 decls ([], []) (sc_store s) of
        (Inl e, d) \<Rightarrow> (Inl e, with_store d s)
      | (Inr (seen, changed), d) \<Rightarrow>
          (Inr changed, with_store (fold (\<lambda>r d. snd (delete_schedule (sr_id r) d)) (filter (undeclared seen) existing) d) s))"

section \<open>The global pause\<close>

definition pause_all :: "micros \<Rightarrow> string option \<Rightarrow> micros option \<Rightarrow> bool \<Rightarrow> Sched \<Rightarrow> Pause \<times> Sched" where
  "pause_all now reason until suppress s =
     (let since = (case sc_pause s of Some p \<Rightarrow> pa_since p | None \<Rightarrow> now);
          p = \<lparr> pa_since = since, pa_reason = reason, pa_until = until, pa_suppress_rules = suppress \<rparr>;
          s = s\<lparr> sc_pause := Some p, sc_kv_pause := Some p \<rparr>;
          s = (case until of Some t \<Rightarrow> arm_timer (max t now) (SchedulerResume since) s | None \<Rightarrow> s)
      in (p, emit (RecordEvent SchedulerPaused None None) s))"

definition waiting_ids :: "Sched \<Rightarrow> int list" where
  "waiting_ids s = map ar_id (filter (\<lambda>a. st_type (ar_state a) = Scheduled \<and> ar_engine_pid a = None) (active_runs (sc_index s)))"

definition is_held :: "micros \<Rightarrow> ScheduleRunMark \<Rightarrow> bool" where
  "is_held now m \<longleftrightarrow> \<not> is_mark_skip (mk_details m) \<and> (case mk_scheduled_time m of Some t \<Rightarrow> t \<le> now | None \<Rightarrow> False)"

definition release_held :: "micros \<Rightarrow> Sched \<Rightarrow> nat \<times> Sched" where
  "release_held now s =
     (let marks = run_marks (waiting_ids s) (sc_store s);
          kept_back = filter (\<lambda>i. case List.find (\<lambda>m. mk_id m = i) marks of Some m \<Rightarrow> is_held now m | None \<Rightarrow> False) (waiting_ids s)
      in (length kept_back, fold (\<lambda>i. arm_timer now (Due i)) kept_back s))"

definition resume_row :: "('c, 'r) env \<Rightarrow> micros \<Rightarrow> micros \<Rightarrow> ScheduleRow \<Rightarrow> Sched \<Rightarrow> Sched outcome" where
  "resume_row env since now row s =
     obind (catch_up env row since now (sched_put row s)) (materialize env now (sr_id row))"

definition resume_all :: "('c, 'r) env \<Rightarrow> micros \<Rightarrow> Sched \<Rightarrow> ((nat \<times> nat) option \<times> Sched) outcome" where
  "resume_all env now s =
     (case sc_pause s of
        None \<Rightarrow> Value (None, s)
      | Some p \<Rightarrow>
         (let s = s\<lparr> sc_pause := None, sc_kv_pause := None \<rparr>;
              rows = filter sr_active (list_schedules now None (sc_store s))
          in obind (ofold (resume_row env (pa_since p) now) rows s) (\<lambda>s.
               case release_held now s of
                 (kept_back, s) \<Rightarrow> Value (Some (kept_back, length rows), emit (RecordEvent SchedulerResumed None None) s))))"

definition held_runs :: "micros \<Rightarrow> Sched \<Rightarrow> nat" where
  "held_runs now s = (if \<not> is_paused s then 0 else length (filter (is_held now) (run_marks (waiting_ids s) (sc_store s))))"

definition restore_pause :: "micros \<Rightarrow> Sched \<Rightarrow> Pause option \<times> Sched" where
  "restore_pause now s =
     (let p = sc_kv_pause s;
          s = s\<lparr> sc_pause := p \<rparr>;
          s = (case Option.bind p pa_until of
                 Some t \<Rightarrow> arm_timer (max t now) (SchedulerResume (pa_since (the p))) s
               | None \<Rightarrow> s)
      in (p, s))"

section \<open>Starting\<close>

definition start_row ::
  "('c, 'r) env \<Rightarrow> micros \<Rightarrow> micros option \<Rightarrow> ScheduleRow
   \<Rightarrow> (ScheduleRow \<times> micros) list \<times> (int \<times> micros) list \<times> Sched \<Rightarrow> ((ScheduleRow \<times> micros) list \<times> (int \<times> micros) list \<times> Sched) outcome" where
  "start_row env now last_wakeup row acc =
     (case acc of (ended, opened, s) \<Rightarrow>
      (let s = sched_put row s in
       if \<not> sr_active row then
         (case (sr_paused_reason row, sr_paused_until row) of
            (Some reason, Some until) \<Rightarrow>
              if reason = ''disabled'' then
                (if until \<le> now then Value (ended @ [(row, until)], opened, s)
                 else Value (ended, entry_update (sr_flow_id row) until (max until) opened, s))
              else Value (ended, opened, s)
          | _ \<Rightarrow> Value (ended, opened, s))
       else
         obind (case last_wakeup of Some t \<Rightarrow> catch_up env row t now s | None \<Rightarrow> Value s) (\<lambda>s.
           obind (drop_lost_skips env now row s) (\<lambda>s.
             obind (materialize env now (sr_id row) s) (\<lambda>s. Value (ended, opened, s))))))"

definition resume_ended :: "('c, 'r) env \<Rightarrow> micros \<Rightarrow> micros option \<Rightarrow> ScheduleRow \<times> micros \<Rightarrow> Sched \<Rightarrow> Sched outcome" where
  "resume_ended env now last_wakeup e s =
     obind (resume env now (sr_id (fst e)) s) (\<lambda>s.
       case last_wakeup of Some t \<Rightarrow> catch_up env (fst e) (max t (snd e)) now s | None \<Rightarrow> Value s)"

definition arm_waiting :: "micros \<Rightarrow> ActiveRun \<Rightarrow> Sched \<Rightarrow> Sched" where
  "arm_waiting now a s =
     (if st_type (ar_state a) \<noteq> Scheduled then s
      else case get_row (ar_id a) s of
             None \<Rightarrow> s
           | Some r \<Rightarrow>
              (case row_scheduled_time r of Some due \<Rightarrow> arm_run now (ar_id a) due (is_marked r) s | None \<Rightarrow> s))"

definition start_inner :: "('c, 'r) env \<Rightarrow> micros \<Rightarrow> bool \<Rightarrow> Sched \<Rightarrow> Sched outcome" where
  "start_inner env now with_catch_up s =
     (let rows = list_schedules now None (sc_store s);
          (paused, s) = restore_pause now s;
          last_wakeup = (if with_catch_up \<and> paused = None then sc_kv_wakeup s else None)
      in obind (ofold (start_row env now last_wakeup) rows ([], [], s)) (\<lambda>(ended, opened, s).
           obind (ofold (resume_ended env now last_wakeup) ended s) (\<lambda>s.
             let enabled = remdups (map (sr_flow_id \<circ> fst) ended);
                 s = fold (\<lambda>f. emit (RecordEvent FlowEnabled None (Some f))) enabled s;
                 s = fold (\<lambda>(f, until). arm_timer until (ResumeFlow f)) opened s;
                 s = fold (arm_waiting now) (active_runs (sc_index s)) s;
                 s = emit RearmWaits s;
                 s = arm_timer (now + PERSIST_EVERY_SECS * 1000000) Persist s
             in Value (s\<lparr> sc_kv_wakeup := Some now \<rparr>))))"

definition start :: "('c, 'r) env \<Rightarrow> micros \<Rightarrow> Sched \<Rightarrow> Sched outcome" where
  "start env now s = start_inner env now True s"

definition restart :: "('c, 'r) env \<Rightarrow> micros \<Rightarrow> Sched \<Rightarrow> Sched outcome" where
  "restart env now s = start_inner env now False (sched_clear s)"

section \<open>Handling timers\<close>

definition due_run :: "('c, 'r) env \<Rightarrow> micros \<Rightarrow> int \<Rightarrow> Sched \<Rightarrow> Sched" where
  "due_run env now i s =
     (case get_row i s of
        None \<Rightarrow> s
      | Some r \<Rightarrow>
         if \<not> is_waiting r then s
         else if is_marked r then end_skipped env now r s
         else if is_paused s then s
         else case get_flow (row_flow_id r) s of None \<Rightarrow> s | Some _ \<Rightarrow> emit (Admit i) s)"

definition late_check :: "('c, 'r) env \<Rightarrow> micros \<Rightarrow> int \<Rightarrow> Sched \<Rightarrow> Sched" where
  "late_check env now i s =
     (case get_row i s of
        None \<Rightarrow> s
      | Some r \<Rightarrow>
         (let continuous = (case Option.bind (row_schedule_id r) (\<lambda>sid. sched_get sid s) of
                              Some row \<Rightarrow> is_continuous (sr_schedule row) | None \<Rightarrow> False)
          in if is_waiting r \<and> st_name (state_of_row r) \<noteq> ''Late'' \<and> \<not> is_marked r \<and> \<not> continuous
             then case transition_run env now i ((State_named now Late)\<lparr> st_message := st_message (state_of_row r) \<rparr>) s of
                    (True, s) \<Rightarrow> emit (RecordEvent RunLate (Some i) (Some (row_flow_id r))) s
                  | (False, s) \<Rightarrow> s
             else s))"

definition missed_deadline :: "micros \<Rightarrow> State" where
  "missed_deadline now = (let st = State_named now Skipped in
     st\<lparr> st_message := Some ''missed start deadline'',
         st_details := jmap_insert ''reason'' (JStr ''missed_start_deadline'') (st_details st) \<rparr>)"

definition start_deadline :: "('c, 'r) env \<Rightarrow> micros \<Rightarrow> int \<Rightarrow> Sched \<Rightarrow> Sched" where
  "start_deadline env now i s =
     (case get_row i s of
        None \<Rightarrow> s
      | Some r \<Rightarrow>
         if st_type (state_of_row r) \<in> {Scheduled, Pending} \<and> row_engine_pid r = None \<and> \<not> is_marked r
         then case transition_run env now i (missed_deadline now) (emit (Dequeue i) s) of
                (True, s) \<Rightarrow> emit (RecordEvent RunSkipped (Some i) (Some (row_flow_id r))) s
              | (False, s) \<Rightarrow> s
         else s)"

definition resume_disabled :: "('c, 'r) env \<Rightarrow> micros \<Rightarrow> ScheduleRow \<Rightarrow> Sched \<Rightarrow> Sched outcome" where
  "resume_disabled env now row s =
     (if \<not> sr_active row \<and> sr_paused_reason row = Some ''disabled'' then resume env now (sr_id row) s else Value s)"

fun handle :: "('c, 'r) env \<Rightarrow> micros \<Rightarrow> TimerEvent \<Rightarrow> Sched \<Rightarrow> Sched outcome" where
  "handle env now (Fire sid) s = materialize env now sid s"
| "handle env now (Due i) s = Value (due_run env now i s)"
| "handle env now (LateCheck i) s = Value (late_check env now i s)"
| "handle env now (StartDeadline i) s = Value (start_deadline env now i s)"
| "handle env now (CrashRerun i) s = Value (emit (CallCrashRerun i) s)"
| "handle env now (FlowTimeout i) s = Value (emit (CallFlowTimeout i) s)"
| "handle env now (ResumeFlow f) s =
     obind (ofold (resume_disabled env now) (for_flow f s) s) (\<lambda>s.
       Value (emit (RecordEvent FlowEnabled None (Some f)) s))"
| "handle env now Persist s =
     Value (arm_timer (now + PERSIST_EVERY_SECS * 1000000) Persist (s\<lparr> sc_kv_wakeup := Some now \<rparr>))"
| "handle env now Wake s = Value (emit EnsureCapacity s)"
| "handle env now (Expectation i) s = Value (emit (CallExpectation i) s)"
| "handle env now (RuleClock i) s = Value (emit (CallRuleClock i) s)"
| "handle env now (WakeRun i) s = Value (emit (CallWakeRun i) s)"
| "handle env now (SchedulerResume since) s =
     (case sc_pause s of
        Some p \<Rightarrow> if pa_since p = since then obind (resume_all env now s) (\<lambda>(_, s). Value s) else Value s
      | None \<Rightarrow> Value s)"

text \<open>One turn of \<^verbatim>\<open>run_loop\<close>: everything due is taken off the heap, then handled in order.\<close>

definition run_turn :: "('c, 'r) env \<Rightarrow> micros \<Rightarrow> Sched \<Rightarrow> Sched outcome" where
  "run_turn env now s =
     (case pop_due now (sc_timer s) of
        (due, t) \<Rightarrow> ofold (\<lambda>(_, e). handle env now e) due (s\<lparr> sc_timer := t \<rparr>))"

end
