(* ===== verification/Scheduler_Facts.thy ===== *)
theory Scheduler_Facts
  imports Scheduler
begin

text \<open>
  What the scheduler guarantees: catching up creates only runs of fires that were
  missed, the look-ahead keeps enough runs ahead and no more than its bound,
  the global pause holds everything back, a skipped fire never starts, and the
  jitter stays inside its bound.
\<close>

section \<open>Creating a run of a schedule\<close>

lemma transition_row_keeps:
  assumes "transition_row t st force r = Inr (s', r')"
  shows "row_schedule_id r' = row_schedule_id r" "row_scheduled_time r' = row_scheduled_time r"
    "row_engine_pid r' = row_engine_pid r" "row_created_by r' = row_created_by r" "row_flow_id r' = row_flow_id r"
    "col_state_type r' = Some (StateType_as_str (st_type s'))" "row_state r' = Some s'"
proof -
  show "row_state r' = Some s'" using transition_row_Inr[OF assms] by simp
qed (use assms in \<open>auto simp: transition_row_def write_checkpoint_def write_state_def Let_def split: sum.splits option.splits if_splits\<close>)

text \<open>What the row of a run that was just created holds.\<close>

definition created_as :: "CreateRun \<Rightarrow> State \<Rightarrow> Row \<Rightarrow> bool" where
  "created_as c st r \<longleftrightarrow> row_schedule_id r = cr_schedule_id c \<and> row_scheduled_time r = cr_scheduled_time c
     \<and> row_engine_pid r = None \<and> row_created_by r = cr_created_by c \<and> row_flow_id r = cr_flow_id c
     \<and> row_state r = Some st \<and> col_state_type r = Some (StateType_as_str (st_type st))"

lemma insert_run_row:
  assumes ins: "insert_run ext now c db = Inr (i, db')" and st: "cr_initial_state c = Some st"
  shows "\<exists>r. db_runs db' = db_runs db @ [r] \<and> row_id r = i \<and> created_as c st r"
    "\<not> fire_taken (cr_schedule_id c) (cr_scheduled_time c) (db_runs db)"
proof -
  let ?i = "next_rowid (db_runs db)"
  let ?row = "new_row ?i ext now c"
  let ?db = "db\<lparr> db_runs := db_runs db @ [?row] \<rparr>"
  show "\<not> fire_taken (cr_schedule_id c) (cr_scheduled_time c) (db_runs db)"
    using ins by (auto simp: insert_run_def Let_def split: if_splits)
  have i: "i = ?i" using insert_run_Inr(1)[OF ins] .
  obtain s' where tr: "transition RunTable ?i st False ?db = Inr (s', db')"
    using ins st by (auto simp: insert_run_def Let_def split: sum.splits if_splits)
  obtain q q' where q: "q \<in> set (table_rows RunTable ?db)" "row_id q = ?i" "transition_row RunTable st False q = Inr (s', q')"
    and db': "db' = set_table_rows RunTable (map (\<lambda>x. if row_id x = ?i then q' else x) (table_rows RunTable ?db)) ?db"
    by (rule transition_Inr[OF tr])
  have fresh: "map (\<lambda>x. if row_id x = ?i then q' else x) (db_runs db) = db_runs db"
    using next_rowid_fresh[of _ "db_runs db"] by (intro map_idI) fastforce
  have "q = ?row" using q(1,2) next_rowid_fresh[of q "db_runs db"] by (auto simp: table_rows_def)
  moreover have "s' = st" using transition_row_unforced[OF q(3)] by auto
  moreover have "row_id q' = ?i" using transition_row_Inr(5)[OF q(3)] q(2) by simp
  ultimately show "\<exists>r. db_runs db' = db_runs db @ [r] \<and> row_id r = i \<and> created_as c st r"
    using transition_row_keeps[OF q(3)] fresh i
    by (intro exI[of _ q']) (simp add: db' table_rows_def set_table_rows_def created_as_def new_row_def)
qed

lemma emit_fields [simp]:
  "sc_store (emit c s) = sc_store s" "sc_flows (emit c s) = sc_flows s" "sc_index (emit c s) = sc_index s"
  "sc_timer (emit c s) = sc_timer s" "sc_table (emit c s) = sc_table s" "sc_pause (emit c s) = sc_pause s"
  "sc_kv_pause (emit c s) = sc_kv_pause s" "sc_kv_wakeup (emit c s) = sc_kv_wakeup s" "sc_calls (emit c s) = sc_calls s @ [c]"
  by (simp_all add: emit_def)

definition initial_state :: "micros \<Rightarrow> bool \<Rightarrow> State" where
  "initial_state now skip = (if skip then (State_new now Scheduled)\<lparr> st_details := jmap_insert ''skip'' (JStr ''user'') [] \<rparr>
                             else State_new now Scheduled)"

lemma scheduled_request_fields [simp]:
  "cr_initial_state (scheduled_request env now flow row t by_whom skip u d) = Some (initial_state now skip)"
  "cr_schedule_id (scheduled_request env now flow row t by_whom skip u d) = Some (sr_id row)"
  "cr_scheduled_time (scheduled_request env now flow row t by_whom skip u d) = Some t"
  "cr_created_by (scheduled_request env now flow row t by_whom skip u d) = by_whom"
  "cr_flow_id (scheduled_request env now flow row t by_whom skip u d) = fl_id flow"
  by (simp_all add: scheduled_request_def initial_state_def State_new_def Let_def)

text \<open>What a scheduled run looks like in the store.\<close>

definition run_of_fire :: "ScheduleRow \<Rightarrow> Flow \<Rightarrow> string \<Rightarrow> micros \<Rightarrow> bool \<Rightarrow> micros \<Rightarrow> Row \<Rightarrow> bool" where
  "run_of_fire row flow by_whom now skip t r \<longleftrightarrow> row_schedule_id r = Some (sr_id row) \<and> row_scheduled_time r = Some t
     \<and> row_engine_pid r = None \<and> row_created_by r = by_whom \<and> row_flow_id r = fl_id flow
     \<and> row_state r = Some (initial_state now skip) \<and> col_state_type r = Some ''Scheduled''"

lemma initial_type [simp]: "st_type (initial_state now skip) = Scheduled"
  by (simp add: initial_state_def State_new_def)

text \<open>Everything but the run table, the index and the calls stays as it was.\<close>

definition same_rest :: "Sched \<Rightarrow> Sched \<Rightarrow> bool" where
  "same_rest s s' \<longleftrightarrow> sd_skips (sc_store s') = sd_skips (sc_store s) \<and> sd_schedules (sc_store s') = sd_schedules (sc_store s)
     \<and> sc_flows s' = sc_flows s \<and> sc_timer s' = sc_timer s \<and> sc_table s' = sc_table s \<and> sc_pause s' = sc_pause s
     \<and> sc_kv_pause s' = sc_kv_pause s \<and> sc_kv_wakeup s' = sc_kv_wakeup s"

lemma same_rest_refl [simp]: "same_rest s s"
  by (simp add: same_rest_def)

lemma same_rest_trans: "same_rest a b \<Longrightarrow> same_rest b c \<Longrightarrow> same_rest a c"
  by (simp add: same_rest_def)

lemma create_scheduled_run_cases:
  assumes "create_scheduled_run env now flow row t by_whom skip u s = (res, s')"
  shows "(res = None \<and> s' = s) \<or>
    (\<exists>r. res = Some r \<and> run_of_fire row flow by_whom now skip t r \<and> same_rest s s'
       \<and> db_runs (sd_db (sc_store s')) = db_runs (sd_db (sc_store s)) @ [r]
       \<and> \<not> fire_taken (Some (sr_id row)) (Some t) (db_runs (sd_db (sc_store s)))
       \<and> sc_calls s' = sc_calls s @ [RunCreated (row_id r)])"
proof -
  let ?d = "sc_store s"
  let ?c = "scheduled_request env now flow row t by_whom skip u ?d"
  show ?thesis
  proof (cases "create_run (new_id env (sd_db ?d)) now ?c (sd_db ?d)")
    case (Inl e)
    then show ?thesis using assms by (simp add: create_scheduled_run_def Let_def)
  next
    case (Inr p)
    obtain i db' where p: "p = (i, db')" by (cases p)
    note ins = create_run_Inr(1)[OF Inr[unfolded p]]
    obtain r where r: "db_runs db' = db_runs (sd_db ?d) @ [r]" "row_id r = i" "created_as ?c (initial_state now skip) r"
      using insert_run_row(1)[OF ins] by auto
    have "List.find (\<lambda>q. row_id q = i) (db_runs db') = Some r"
    proof -
      have "\<forall>q \<in> set (db_runs (sd_db ?d)). row_id q \<noteq> i"
        using next_rowid_fresh[of _ "db_runs (sd_db ?d)"] insert_run_Inr(1)[OF ins] by fastforce
      then have "List.find (\<lambda>q. row_id q = i) (db_runs (sd_db ?d)) = None" by (simp add: find_None_iff)
      then show ?thesis using r(1,2) by (simp add: find_append)
    qed
    then have "get_row i (s\<lparr> sc_store := ?d\<lparr> sd_db := db' \<rparr> \<rparr>) = Some r" by (simp add: get_row_def)
    then have res: "res = Some r" and s': "s' = emit (RunCreated i) (s\<lparr> sc_store := ?d\<lparr> sd_db := db' \<rparr>,
        sc_index := index_insert now (run_from_row env [] flow r) (EngineKey_from_flow flow) False (sc_index s) \<rparr>)"
      using assms Inr p by (auto simp: create_scheduled_run_def Let_def)
    show ?thesis
      using res r insert_run_row(2)[OF ins]
      by (intro disjI2 exI[of _ r]) (auto simp: s' same_rest_def run_of_fire_def created_as_def)
  qed
qed

section \<open>What a catch-up adds\<close>

lemma subseq_set: "subseq xs ys \<Longrightarrow> set xs \<subseteq> set ys"
  by (induction rule: list_emb.induct) auto

lemma create_missed_rows:
  assumes "create_missed env now flow row ts s = s'"
  shows "\<exists>rs ts'. db_runs (sd_db (sc_store s')) = db_runs (sd_db (sc_store s)) @ rs \<and> subseq ts' ts \<and> same_rest s s'
    \<and> list_all2 (run_of_fire row flow ''catchup'' now False) ts' rs
    \<and> sc_calls s' = sc_calls s @ concat (map (\<lambda>r. [RunCreated (row_id r), Admit (row_id r)]) rs)"
  using assms
proof (induction ts arbitrary: s)
  case (Cons t ts)
  obtain res s1 where c: "create_scheduled_run env now flow row t ''catchup'' False None s = (res, s1)" by force
  show ?case
  proof (cases res)
    case None
    then have "s1 = s" using create_scheduled_run_cases[OF c] by auto
    then have "create_missed env now flow row ts s = s'" using Cons.prems c None by simp
    from Cons.IH[OF this] obtain rs ts' where "db_runs (sd_db (sc_store s')) = db_runs (sd_db (sc_store s)) @ rs"
        "subseq ts' ts" "same_rest s s'" "list_all2 (run_of_fire row flow ''catchup'' now False) ts' rs"
        "sc_calls s' = sc_calls s @ concat (map (\<lambda>r. [RunCreated (row_id r), Admit (row_id r)]) rs)"
      by auto
    then show ?thesis by (intro exI[of _ rs] exI[of _ ts']) (auto intro: list_emb_Cons)
  next
    case (Some r)
    then have r: "run_of_fire row flow ''catchup'' now False t r" "same_rest s s1"
        "db_runs (sd_db (sc_store s1)) = db_runs (sd_db (sc_store s)) @ [r]" "sc_calls s1 = sc_calls s @ [RunCreated (row_id r)]"
      using create_scheduled_run_cases[OF c] by auto
    have "create_missed env now flow row ts (emit (Admit (row_id r)) s1) = s'" using Cons.prems c Some by simp
    from Cons.IH[OF this] obtain rs ts' where IH: "db_runs (sd_db (sc_store s')) = db_runs (sd_db (sc_store s1)) @ rs"
        "subseq ts' ts" "same_rest (emit (Admit (row_id r)) s1) s'" "list_all2 (run_of_fire row flow ''catchup'' now False) ts' rs"
        "sc_calls s' = sc_calls (emit (Admit (row_id r)) s1) @ concat (map (\<lambda>r. [RunCreated (row_id r), Admit (row_id r)]) rs)"
      by auto
    have "same_rest s s'" using r(2) IH(3) by (simp add: same_rest_def)
    then show ?thesis using IH r by (intro exI[of _ "r # rs"] exI[of _ "t # ts'"]) auto
  qed
qed auto

lemma catch_up_plan_bound:
  assumes "catch_up_plan policy cmax window now ts = Value (Some (chosen, dropped, expired))"
  shows "subseq chosen ts" "length chosen + dropped + expired = length ts"
    "\<forall>t \<in> set chosen. \<forall>w. window = Some w \<and> 0 < w \<longrightarrow> now - w * 1000000 \<le> t"
    "length chosen \<le> (case policy of CatchSkip \<Rightarrow> 0 | CatchLatest \<Rightarrow> 1 | CatchAll \<Rightarrow> nat cmax)"
proof -
  define kept where "kept = (case window of
      Some w \<Rightarrow> if 0 < w then filter (\<lambda>f. now - w * 1000000 \<le> f) ts else ts | None \<Rightarrow> ts)"
  have kept: "subseq kept ts" "\<forall>t \<in> set kept. \<forall>w. window = Some w \<and> 0 < w \<longrightarrow> now - w * 1000000 \<le> t"
    by (auto simp: kept_def split: option.splits)
  then have len: "length kept \<le> length ts" using list_emb_length by blast
  have c: "subseq chosen kept \<and> length chosen + dropped = length kept \<and> expired = length ts - length kept
      \<and> length chosen \<le> (case policy of CatchSkip \<Rightarrow> 0 | CatchLatest \<Rightarrow> 1 | CatchAll \<Rightarrow> nat cmax)"
    using assms unfolding catch_up_plan_def kept_def[symmetric] Let_def
    by (cases policy) (auto split: if_splits simp: subseq_singleton_left max_def)
  show "subseq chosen ts" using c kept(1) subseq_order.trans by blast
  show "length chosen + dropped + expired = length ts" using c len by linarith
  show "\<forall>t \<in> set chosen. \<forall>w. window = Some w \<and> 0 < w \<longrightarrow> now - w * 1000000 \<le> t"
    using c kept(2) subseq_set[of chosen kept] by blast
  show "length chosen \<le> (case policy of CatchSkip \<Rightarrow> 0 | CatchLatest \<Rightarrow> 1 | CatchAll \<Rightarrow> nat cmax)" using c by simp
qed

lemma list_all2_in_set2: "list_all2 P xs ys \<Longrightarrow> y \<in> set ys \<Longrightarrow> \<exists>x \<in> set xs. P x y"
  by (induction rule: list_all2_induct) auto

lemma walk_upto: "walk nxt (\<lambda>_ t. t \<le> e) n c = Value (Inr ts) \<Longrightarrow> t \<in> set ts \<Longrightarrow> t \<le> e"
  by (induction n arbitrary: c ts) (auto split: outcome.splits sum.splits option.splits if_splits)

lemma obind_Value: "obind m f = Value y \<longleftrightarrow> (\<exists>x. m = Value x \<and> f x = Value y)"
  by (cases m) auto

lemma obind_case: "obind m f = (case m of Panic \<Rightarrow> Panic | Value x \<Rightarrow> f x)"
  by (cases m) auto

lemma missed_fires_open:
  assumes "missed_fires env now row since s = Value (Inr ts)" "t \<in> set ts"
  shows "t \<le> now" "t \<notin> set (list_skips (sr_id row) (sc_store s))"
    "t \<notin> set (fire_times_of_schedule (sr_id row) since now (sc_store s))"
proof -
  obtain us where us: "fires_between (cal_of env) now (sr_schedule row) (from_micros (cal_of env) now since)
      (from_micros (cal_of env) now now) (nat (max (sr_catchup_max row) 1) + 1000) = Value (Inr us)"
    "ts = filter (\<lambda>t. t \<notin> set (list_skips (sr_id row) (sc_store s)) \<and> t \<notin> set (fire_times_of_schedule (sr_id row) since now (sc_store s))) us"
    using assms(1) by (auto simp: missed_fires_def Let_def obind_case split: outcome.splits sum.splits)
  have "t \<le> from_micros (cal_of env) now now"
    using us assms(2) walk_upto unfolding fires_between_def by (auto split: sum.splits)
  then show "t \<le> now" by (simp add: from_micros_def split: if_splits)
qed (use assms in \<open>auto simp: missed_fires_def Let_def obind_case split: outcome.splits sum.splits\<close>)

lemma catch_up_Value:
  assumes "catch_up env row since now s = Value s'"
  shows "(s' = s) \<or> (\<exists>ts chosen dropped expired flow. missed_fires env now row since s = Value (Inr ts)
    \<and> catch_up_plan (sr_catchup row) (sr_catchup_max row) (sr_catchup_window row) now ts = Value (Some (chosen, dropped, expired))
    \<and> get_flow (sr_flow_id row) s = Some flow
    \<and> s' = emit (RecordEvent ScheduleCatchup None (Some (sr_flow_id row))) (create_missed env now flow row chosen s))"
  using assms unfolding catch_up_def obind_case
  by (auto split: outcome.splits sum.splits option.splits prod.splits)

text \<open>The most runs one catch-up may create.\<close>

definition catch_up_limit :: "ScheduleRow \<Rightarrow> nat" where
  "catch_up_limit row = (case sr_catchup row of CatchSkip \<Rightarrow> 0 | CatchLatest \<Rightarrow> 1 | CatchAll \<Rightarrow> nat (sr_catchup_max row))"

text \<open>A fire catch-up may run: past, not skipped, without a run, and not older than the window.\<close>

definition worth_running :: "ScheduleRow \<Rightarrow> micros \<Rightarrow> micros \<Rightarrow> Sched \<Rightarrow> micros \<Rightarrow> bool" where
  "worth_running row since now s t \<longleftrightarrow> t \<le> now \<and> \<not> has_skip (sr_id row) t (sd_skips (sc_store s))
     \<and> t \<notin> set (fire_times_of_schedule (sr_id row) since now (sc_store s))
     \<and> (\<forall>w. sr_catchup_window row = Some w \<and> 0 < w \<longrightarrow> now - w * 1000000 \<le> t)"

text \<open>
  Catching up only adds runs: whatever it returns, the run table is the old
  one with new runs at the end, no more than the policy allows (none for skip,
  one for latest, the maximum for all), each for a fire that has passed, that
  nobody skipped, that no run had, and that is not older than the window, and
  each of them waits without an engine. Skips, schedules, timers and the pause
  are untouched.
\<close>

theorem catch_up_creates_only_missed:
  assumes "catch_up env row since now s = Value s'"
  shows "\<exists>rs. db_runs (sd_db (sc_store s')) = db_runs (sd_db (sc_store s)) @ rs \<and> length rs \<le> catch_up_limit row
    \<and> (\<forall>r \<in> set rs. is_waiting r \<and> row_schedule_id r = Some (sr_id row)
        \<and> (\<exists>t. row_scheduled_time r = Some t \<and> worth_running row since now s t))
    \<and> same_rest s s'"
proof (cases "s' = s")
  case True
  then show ?thesis by (intro exI[of _ "[]"]) simp
next
  case False
  then obtain ts chosen dropped expired flow where c: "missed_fires env now row since s = Value (Inr ts)"
      "catch_up_plan (sr_catchup row) (sr_catchup_max row) (sr_catchup_window row) now ts = Value (Some (chosen, dropped, expired))"
      "s' = emit (RecordEvent ScheduleCatchup None (Some (sr_flow_id row))) (create_missed env now flow row chosen s)"
    using catch_up_Value[OF assms] by blast
  obtain rs us where rs: "db_runs (sd_db (sc_store s')) = db_runs (sd_db (sc_store s)) @ rs" "subseq us chosen" "same_rest s s'"
      "list_all2 (run_of_fire row flow ''catchup'' now False) us rs"
    using create_missed_rows[OF refl, of env now flow row chosen s] by (auto simp: c(3) same_rest_def)
  have "length rs \<le> length chosen" using rs(2,4) list_emb_length list_all2_lengthD by metis
  then have "length rs \<le> catch_up_limit row"
    using catch_up_plan_bound(4)[OF c(2)] by (simp add: catch_up_limit_def)
  moreover have "is_waiting r \<and> row_schedule_id r = Some (sr_id row) \<and> (\<exists>t. row_scheduled_time r = Some t \<and> worth_running row since now s t)"
    if r: "r \<in> set rs" for r
  proof -
    obtain t where t: "t \<in> set us" "run_of_fire row flow ''catchup'' now False t r"
      using list_all2_in_set2[OF rs(4) r] by blast
    then have "t \<in> set chosen" using subseq_set[OF rs(2)] by auto
    then have "t \<in> set ts" "\<forall>w. sr_catchup_window row = Some w \<and> 0 < w \<longrightarrow> now - w * 1000000 \<le> t"
      using subseq_set[OF catch_up_plan_bound(1)[OF c(2)]] catch_up_plan_bound(3)[OF c(2)] by auto
    then have "worth_running row since now s t"
      using missed_fires_open[OF c(1)] by (auto simp: worth_running_def list_skips_def has_skip_def)
    then show ?thesis using t(2) by (auto simp: run_of_fire_def is_waiting_def state_of_row_def)
  qed
  ultimately show ?thesis using rs(1,3) by blast
qed

text \<open>
  Under the latest policy a catch-up whose missed fires are all older than
  the window panics instead of reporting them as expired: nothing is kept, and
  the code takes the last element of the empty list.
\<close>

theorem latest_catch_up_panics:
  assumes "sr_catchup row = CatchLatest" "sr_catchup_window row = Some w" "0 < w"
    and "missed_fires env now row since s = Value (Inr ts)" "ts \<noteq> []" "\<forall>t \<in> set ts. t < now - w * 1000000"
  shows "catch_up env row since now s = Panic"
proof -
  have "filter (\<lambda>f. now - w * 1000000 \<le> f) ts = []" using assms(6) by (auto simp: filter_empty_conv)
  then show ?thesis using assms(1-5) by (simp add: catch_up_def catch_up_plan_def Let_def)
qed

section \<open>Filling the look-ahead\<close>

text \<open>Why the look-ahead stops at a cursor: the schedule gives no later fire there, or the fire cannot get a run.\<close>

definition stuck_at :: "('c, 'r) env \<Rightarrow> micros \<Rightarrow> Flow \<Rightarrow> ScheduleRow \<Rightarrow> micros list \<Rightarrow> micros \<Rightarrow> Sched \<Rightarrow> bool" where
  "stuck_at env now flow row skips c s \<longleftrightarrow>
     (case next_after (cal_of env) now (sr_schedule row) c of
        Value (Inr (Some t)) \<Rightarrow> t \<le> c \<or> fst (create_scheduled_run env now flow row t ''schedule'' (t \<in> set skips) None s) = None
      | _ \<Rightarrow> True)"

definition fire_time :: "Row \<Rightarrow> micros" where
  "fire_time r = the (row_scheduled_time r)"

definition starting_runs :: "micros list \<Rightarrow> Row list \<Rightarrow> nat" where
  "starting_runs skips rs = length (filter (\<lambda>r. fire_time r \<notin> set skips) rs)"

definition end_cursor :: "micros \<Rightarrow> Row list \<Rightarrow> micros" where
  "end_cursor c rs = (if rs = [] then c else fire_time (last rs))"

lemma look_ahead_runs:
  assumes "look_ahead env now flow row skips horizon n existing cursor starting created s = Value (existing', s')"
    and "created + n \<le> LOOKAHEAD_MAX"
  shows "\<exists>rs. db_runs (sd_db (sc_store s')) = db_runs (sd_db (sc_store s)) @ rs \<and> existing' = existing @ map row_mark rs
    \<and> length rs \<le> n \<and> same_rest s s' \<and> sorted_wrt (<) (cursor # map fire_time rs)
    \<and> (\<forall>r \<in> set rs. run_of_fire row flow ''schedule'' now (fire_time r \<in> set skips) (fire_time r) r)
    \<and> (length rs = n \<or> (LOOKAHEAD_RUNS \<le> starting + starting_runs skips rs \<and> horizon \<le> end_cursor cursor rs)
       \<or> stuck_at env now flow row skips (end_cursor cursor rs) s')"
  using assms
proof (induction n arbitrary: existing cursor starting created s)
  case 0
  then show ?case by (intro exI[of _ "[]"]) simp
next
  case (Suc n)
  let ?nx = "next_after (cal_of env) now (sr_schedule row) cursor"
  show ?case
  proof (cases "\<not> (starting < LOOKAHEAD_RUNS \<or> cursor < horizon)")
    case True
    then show ?thesis using Suc.prems(1) by (intro exI[of _ "[]"]) (auto simp: starting_runs_def end_cursor_def)
  next
    case go: False
    show ?thesis
    proof (cases "\<exists>t. ?nx = Value (Inr (Some t)) \<and> cursor < t")
      case False
      then have "stuck_at env now flow row skips cursor s \<and> existing' = existing \<and> s' = s"
        using Suc.prems(1) go by (auto simp: stuck_at_def split: outcome.splits sum.splits option.splits if_splits)
      then show ?thesis by (intro exI[of _ "[]"]) (auto simp: end_cursor_def)
    next
      case True
      then obtain t where t: "?nx = Value (Inr (Some t))" "cursor < t" by blast
      define skip where "skip \<longleftrightarrow> t \<in> set skips"
      obtain res s1 where c: "create_scheduled_run env now flow row t ''schedule'' skip None s = (res, s1)" by force
      show ?thesis
      proof (cases res)
        case None
        then have s1: "s1 = s" using create_scheduled_run_cases[OF c] by auto
        then have "existing' = existing \<and> s' = s" using Suc.prems(1) go t c None s1 by (auto simp: skip_def Let_def split: if_splits)
        moreover have "stuck_at env now flow row skips cursor s" using t c None by (simp add: stuck_at_def skip_def)
        ultimately show ?thesis by (intro exI[of _ "[]"]) (auto simp: end_cursor_def)
      next
        case (Some r)
        then have r: "run_of_fire row flow ''schedule'' now skip t r" "same_rest s s1"
            "db_runs (sd_db (sc_store s1)) = db_runs (sd_db (sc_store s)) @ [r]"
          using create_scheduled_run_cases[OF c] by auto
        have ft: "fire_time r = t" using r(1) by (simp add: run_of_fire_def fire_time_def)
        have "\<not> LOOKAHEAD_MAX < created + 1" using Suc.prems(2) by simp
        then have "look_ahead env now flow row skips horizon n (existing @ [row_mark r]) t
            (if skip then starting else starting + 1) (created + 1) s1 = Value (existing', s')"
          using Suc.prems(1) go t c Some by (auto simp: skip_def Let_def split: if_splits)
        from Suc.IH[OF this] Suc.prems(2) obtain rs where rs:
            "db_runs (sd_db (sc_store s')) = db_runs (sd_db (sc_store s1)) @ rs" "existing' = (existing @ [row_mark r]) @ map row_mark rs"
            "length rs \<le> n" "same_rest s1 s'" "sorted_wrt (<) (t # map fire_time rs)"
            "\<forall>r \<in> set rs. run_of_fire row flow ''schedule'' now (fire_time r \<in> set skips) (fire_time r) r"
            "length rs = n \<or> (LOOKAHEAD_RUNS \<le> (if skip then starting else starting + 1) + starting_runs skips rs \<and> horizon \<le> end_cursor t rs)
              \<or> stuck_at env now flow row skips (end_cursor t rs) s'"
          by auto
        have ec: "end_cursor cursor (r # rs) = end_cursor t rs" by (simp add: end_cursor_def ft)
        have st: "starting + starting_runs skips (r # rs) = (if skip then starting else starting + 1) + starting_runs skips rs"
          by (simp add: starting_runs_def ft skip_def)
        show ?thesis
          using rs r t(2) ft same_rest_trans[OF r(2) rs(4)]
          by (intro exI[of _ "r # rs"]) (auto simp: ec st skip_def)
      qed
    qed
  qed
qed

lemma create_scheduled_run_taken:
  assumes "fst (create_scheduled_run env now flow row t by_whom skip None s) = None"
  shows "fire_taken (Some (sr_id row)) (Some t) (db_runs (sd_db (sc_store s)))"
proof (rule ccontr)
  assume free: "\<not> ?thesis"
  let ?d = "sc_store s"
  let ?c = "scheduled_request env now flow row t by_whom skip None ?d"
  let ?i = "next_rowid (db_runs (sd_db ?d))"
  let ?row = "new_row ?i (new_id env (sd_db ?d)) now ?c"
  let ?db = "(sd_db ?d)\<lparr> db_runs := db_runs (sd_db ?d) @ [?row] \<rparr>"
  have "List.find (\<lambda>q. row_id q = ?i) (db_runs (sd_db ?d)) = None"
    using next_rowid_fresh[of _ "db_runs (sd_db ?d)"] by (fastforce simp: find_None_iff)
  then have found: "List.find (\<lambda>q. row_id q = ?i) (table_rows RunTable ?db) = Some ?row"
    by (simp add: find_append table_rows_def new_row_def)
  have "row_state ?row = None" by (simp add: new_row_def row_state_def state_from_columns_def)
  then have "\<exists>q. transition_row RunTable (initial_state now skip) False ?row = Inr (initial_state now skip, q)"
    by (simp add: transition_row_def propose_def Let_def is_duplicate_def)
  then obtain db' where "transition RunTable ?i (initial_state now skip) False ?db = Inr (initial_state now skip, db')"
    using found by (auto simp: transition_def)
  then have ins: "insert_run (new_id env (sd_db ?d)) now ?c (sd_db ?d) = Inr (?i, db')"
    using free by (simp add: insert_run_def Let_def)
  then have cr: "create_run (new_id env (sd_db ?d)) now ?c (sd_db ?d) = Inr (?i, db')"
    by (simp add: create_run_def scheduled_request_def Let_def)
  obtain r where r: "db_runs db' = db_runs (sd_db ?d) @ [r]" "row_id r = ?i" using insert_run_row(1)[OF ins] by auto
  then have "get_row ?i (s\<lparr> sc_store := ?d\<lparr> sd_db := db' \<rparr> \<rparr>) \<noteq> None"
    by (auto simp: get_row_def find_None_iff)
  then show False using assms cr by (auto simp: create_scheduled_run_def Let_def split: option.splits)
qed

text \<open>Why a look-ahead may stop early at a cursor: no later fire there, or one that has a run already.\<close>

definition exhausted :: "('c, 'r) env \<Rightarrow> micros \<Rightarrow> ScheduleRow \<Rightarrow> micros \<Rightarrow> Row list \<Rightarrow> bool" where
  "exhausted env now row c rows \<longleftrightarrow>
     (case next_after (cal_of env) now (sr_schedule row) c of
        Value (Inr (Some t)) \<Rightarrow> t \<le> c \<or> fire_taken (Some (sr_id row)) (Some t) rows
      | _ \<Rightarrow> True)"

lemma stuck_exhausted:
  "stuck_at env now flow row skips c s \<Longrightarrow> exhausted env now row c (db_runs (sd_db (sc_store s)))"
  using create_scheduled_run_taken[of env now flow row _ "''schedule''" _ s]
  by (auto simp: stuck_at_def exhausted_def split: outcome.splits sum.splits option.splits)

lemma ofold_keeps:
  assumes "\<And>x s s'. f x s = Value s' \<Longrightarrow> g s' = g s" "ofold f xs s = Value s'"
  shows "g s' = g s"
  using assms(2)
proof (induction xs arbitrary: s)
  case (Cons x xs)
  then obtain s1 where "f x s = Value s1" "ofold f xs s1 = Value s'" by (auto simp: obind_Value)
  then show ?case using Cons.IH[of s1] assms(1)[of x s s1] by simp
qed simp

lemma arm_timer_fields [simp]:
  "sc_store (arm_timer t e s) = sc_store s" "sc_table (arm_timer t e s) = sc_table s" "sc_calls (arm_timer t e s) = sc_calls s"
  "sc_pause (arm_timer t e s) = sc_pause s" "sc_flows (arm_timer t e s) = sc_flows s" "sc_index (arm_timer t e s) = sc_index s"
  by (simp_all add: arm_timer_def)

lemma arm_run_fields [simp]:
  "sc_store (arm_run now i due b s) = sc_store s" "sc_table (arm_run now i due b s) = sc_table s"
  "sc_calls (arm_run now i due b s) = sc_calls s" "sc_pause (arm_run now i due b s) = sc_pause s"
  "sc_flows (arm_run now i due b s) = sc_flows s" "sc_index (arm_run now i due b s) = sc_index s"
  by (simp_all add: arm_run_def Let_def)

lemma arm_deadline_fields [simp]:
  "sc_store (arm_deadline dl due i s) = sc_store s" "sc_table (arm_deadline dl due i s) = sc_table s"
  "sc_calls (arm_deadline dl due i s) = sc_calls s" "sc_pause (arm_deadline dl due i s) = sc_pause s"
  "sc_flows (arm_deadline dl due i s) = sc_flows s" "sc_index (arm_deadline dl due i s) = sc_index s"
  by (simp_all add: arm_deadline_def split: option.splits)

lemma arm_mark_keeps:
  "arm_mark env now flow row m s = Value s' \<Longrightarrow> sc_store s' = sc_store s"
  "arm_mark env now flow row m s = Value s' \<Longrightarrow> sc_calls s' = sc_calls s"
  "arm_mark env now flow row m s = Value s' \<Longrightarrow> sc_pause s' = sc_pause s"
  by (auto simp: arm_mark_def obind_Value Let_def split: option.splits if_splits)

lemma sched_put_fields [simp]:
  "sc_store (sched_put r s) = sc_store s" "sc_calls (sched_put r s) = sc_calls s" "sc_pause (sched_put r s) = sc_pause s"
  "sc_flows (sched_put r s) = sc_flows s" "sc_timer (sched_put r s) = sc_timer s" "sc_index (sched_put r s) = sc_index s"
  "sc_kv_pause (sched_put r s) = sc_kv_pause s"
  by (simp_all add: sched_put_def)

lemma with_store_fields [simp]:
  "sc_store (with_store d s) = d" "sc_calls (with_store d s) = sc_calls s" "sc_pause (with_store d s) = sc_pause s"
  "sc_flows (with_store d s) = sc_flows s" "sc_timer (with_store d s) = sc_timer s" "sc_index (with_store d s) = sc_index s"
  "sc_table (with_store d s) = sc_table s"
  by (simp_all add: with_store_def)

lemma delete_skips_before_runs [simp]: "sd_db (delete_skips_before sid t d) = sd_db d"
  by (simp add: delete_skips_before_def)

lemma future_marks_skips [simp]: "future_run_marks sid now (delete_skips_before sid' t d) = future_run_marks sid now d"
  by (simp add: future_run_marks_def)

definition look_ahead_cursor :: "('c, 'r) env \<Rightarrow> micros \<Rightarrow> ScheduleRow \<Rightarrow> Sched \<Rightarrow> micros" where
  "look_ahead_cursor env now row s =
     (case max_opt (List.map_filter mk_scheduled_time (future_run_marks (sr_id row) now (sc_store s))) of
        Some t \<Rightarrow> from_micros (cal_of env) now t | None \<Rightarrow> now)"

lemma max_opt_mem: "max_opt ts = Some t \<Longrightarrow> t \<in> set ts"
  by (cases ts) (use fold_max_mem[of "tl ts" "hd ts"] in \<open>auto simp: max_opt_def\<close>)

lemma future_mark_times:
  assumes "t \<in> set (List.map_filter mk_scheduled_time (future_run_marks sid now d))"
  shows "now < t"
  using assms by (auto simp: List.map_filter_def future_run_marks_def row_mark_def is_future_def split: option.splits)

lemma cursor_not_past: "now \<le> look_ahead_cursor env now row s"
proof (cases "max_opt (List.map_filter mk_scheduled_time (future_run_marks (sr_id row) now (sc_store s)))")
  case (Some t)
  then have "now < t" by (rule future_mark_times[OF max_opt_mem])
  then show ?thesis using Some by (simp add: look_ahead_cursor_def from_micros_def)
qed (simp add: look_ahead_cursor_def)


text \<open>
  C22: The look-ahead of a schedule with fire times: when it returns, the runs it
  made are new rows at the end of the run table, for fires strictly later than
  the ones before and than now, in increasing order, each marked as skipped
  exactly when its fire is skipped, at most a hundred runs ahead in all. It
  stopped only because there are a hundred, or three that will start and an
  hour is covered, or the schedule has no later fire to give that lacks a run.
\<close>

theorem materialize_fills_look_ahead:
  fixes env :: "('c, 'r) env" and s :: Sched and now :: micros and row :: ScheduleRow
  defines "cursor \<equiv> look_ahead_cursor env now row s" and "skips \<equiv> filter (\<lambda>t. now < t) (list_skips (sr_id row) (sc_store s))"
    and "existing \<equiv> future_run_marks (sr_id row) now (sc_store s)"
  assumes "materialize_times env now row flow s = Value s'"
  shows "\<exists>rs. db_runs (sd_db (sc_store s')) = db_runs (sd_db (sc_store s)) @ rs
    \<and> length existing + length rs \<le> max LOOKAHEAD_MAX (length existing)
    \<and> sorted_wrt (<) (cursor # map fire_time rs) \<and> now \<le> cursor
    \<and> (\<forall>r \<in> set rs. run_of_fire row flow ''schedule'' now (fire_time r \<in> set skips) (fire_time r) r)
    \<and> (LOOKAHEAD_MAX \<le> length existing + length rs
       \<or> LOOKAHEAD_RUNS \<le> length (filter (\<lambda>m. \<not> is_mark_skip (mk_details m)) existing) + starting_runs skips rs
          \<and> now + LOOKAHEAD_MIN_SECS * 1000000 \<le> end_cursor cursor rs
       \<or> exhausted env now row (end_cursor cursor rs) (db_runs (sd_db (sc_store s'))))"
proof -
  define s0 where "s0 = (case list_skips (sr_id row) (sc_store s) of
      t # _ \<Rightarrow> if t \<le> now then with_store (delete_skips_before (sr_id row) now (sc_store s)) s else s | [] \<Rightarrow> s)"
  let ?n = "LOOKAHEAD_MAX - length existing"
  have s0: "db_runs (sd_db (sc_store s0)) = db_runs (sd_db (sc_store s))" "future_run_marks (sr_id row) now (sc_store s0) = existing"
    by (auto simp: s0_def existing_def split: list.splits)
  obtain ex s1 s2 where la: "look_ahead env now flow row skips (now + LOOKAHEAD_MIN_SECS * 1000000) ?n existing cursor
        (length (filter (\<lambda>m. \<not> is_mark_skip (mk_details m)) existing)) 0 s0 = Value (ex, s1)"
      and arm: "ofold (arm_mark env now flow row) ex s1 = Value s2" and fin: "sc_store s' = sc_store s2"
    using assms(4) unfolding materialize_times_def Let_def s0_def[symmetric] s0(2)
    unfolding skips_def[symmetric] existing_def[symmetric] look_ahead_cursor_def[symmetric]
    unfolding cursor_def look_ahead_cursor_def existing_def obind_case
    by (auto split: outcome.splits prod.splits option.splits)
  obtain rs where rs: "db_runs (sd_db (sc_store s1)) = db_runs (sd_db (sc_store s0)) @ rs" "length rs \<le> ?n"
      "sorted_wrt (<) (cursor # map fire_time rs)"
      "\<forall>r \<in> set rs. run_of_fire row flow ''schedule'' now (fire_time r \<in> set skips) (fire_time r) r"
      "length rs = ?n \<or> (LOOKAHEAD_RUNS \<le> length (filter (\<lambda>m. \<not> is_mark_skip (mk_details m)) existing) + starting_runs skips rs
          \<and> now + LOOKAHEAD_MIN_SECS * 1000000 \<le> end_cursor cursor rs) \<or> stuck_at env now flow row skips (end_cursor cursor rs) s1"
    using look_ahead_runs[OF la] by auto
  have store: "sc_store s' = sc_store s1"
    using ofold_keeps[of "arm_mark env now flow row" sc_store, OF arm_mark_keeps(1) arm] fin by simp
  have "length rs = ?n \<Longrightarrow> LOOKAHEAD_MAX \<le> length existing + length rs" by simp
  moreover have "stuck_at env now flow row skips (end_cursor cursor rs) s1 \<Longrightarrow>
      exhausted env now row (end_cursor cursor rs) (db_runs (sd_db (sc_store s')))"
    using stuck_exhausted store by metis
  moreover have "now \<le> cursor" unfolding cursor_def by (rule cursor_not_past)
  moreover have "length existing + length rs \<le> max LOOKAHEAD_MAX (length existing)" using rs(2) by linarith
  ultimately show ?thesis using rs store s0(1) by (intro exI[of _ rs]) auto
qed

section \<open>Under the global pause\<close>

definition run_ids :: "Sched \<Rightarrow> int list" where
  "run_ids s = map row_id (db_runs (sd_db (sc_store s)))"

text \<open>No run is created and none is handed to admission; the pause stays.\<close>

definition quiet :: "Sched \<Rightarrow> Sched \<Rightarrow> bool" where
  "quiet s s' \<longleftrightarrow> sc_pause s' = sc_pause s
     \<and> filter (\<lambda>c. \<exists>i. c = Admit i) (sc_calls s') = filter (\<lambda>c. \<exists>i. c = Admit i) (sc_calls s)
     \<and> set (run_ids s') \<subseteq> set (run_ids s)"

lemma quiet_refl [simp]: "quiet s s"
  by (simp add: quiet_def)

lemma quiet_trans [trans]: "quiet a b \<Longrightarrow> quiet b c \<Longrightarrow> quiet a c"
  by (auto simp: quiet_def)

lemma quiet_paused: "quiet s s' \<Longrightarrow> is_paused s' = is_paused s"
  by (simp add: quiet_def is_paused_def)

lemma quiet_same: "sc_pause s' = sc_pause s \<Longrightarrow> sc_calls s' = sc_calls s \<Longrightarrow> sd_db (sc_store s') = sd_db (sc_store s) \<Longrightarrow> quiet s s'"
  by (simp add: quiet_def run_ids_def)

lemma quiet_emit: "\<forall>i. c \<noteq> Admit i \<Longrightarrow> quiet s (emit c s)"
  by (simp add: quiet_def run_ids_def)

lemma transition_ids:
  assumes "transition RunTable i st force db = Inr (s', db')"
  shows "map row_id (db_runs db') = map row_id (db_runs db)"
proof -
  obtain r r' where r: "r \<in> set (table_rows RunTable db)" "row_id r = i" "transition_row RunTable st force r = Inr (s', r')"
    and db': "db' = set_table_rows RunTable (map (\<lambda>x. if row_id x = i then r' else x) (table_rows RunTable db)) db"
    by (rule transition_Inr[OF assms])
  have "row_id r' = i" using transition_row_Inr(5)[OF r(3)] r(2) by simp
  then show ?thesis by (auto simp: db' table_rows_def set_table_rows_def)
qed

lemma set_run_engine_ids [simp]:
  "map row_id (db_runs (sd_db (schedule_execute (SetRunEngine i pid eng) d))) = map row_id (db_runs (sd_db d))"
  by simp

lemma transition_run_cases:
  assumes "transition_run env now i st s = (b, s')"
  obtains (refused) "\<not> b" "s' = s"
  | (accepted) new db where "b" "transition RunTable i st False (sd_db (sc_store s)) = Inr (new, db)"
      "sc_pause s' = sc_pause s" "sc_calls s' = sc_calls s @ [Transitioned i new]"
      "sc_store s' = (if st_type new = Paused then schedule_execute (SetRunEngine i None None) ((sc_store s)\<lparr> sd_db := db \<rparr>)
                      else (sc_store s)\<lparr> sd_db := db \<rparr>)"
proof -
  show thesis
  proof (cases b)
    case False
    then have "s' = s" using assms by (auto simp: transition_run_def Let_def split: option.splits sum.splits)
    then show thesis using False refused by simp
  next
    case True
    then obtain new db where tr: "transition RunTable i st False (sd_db (sc_store s)) = Inr (new, db)"
      using assms by (auto simp: transition_run_def Let_def split: option.splits sum.splits)
    show thesis
      by (rule accepted[OF True tr]) (use assms tr True in \<open>auto simp del: schedule_execute.simps simp add: transition_run_def Let_def split: option.splits\<close>)
  qed
qed

lemma transition_run_result:
  assumes "transition_run env now i st s = (b, s')"
  shows "sc_pause s' = sc_pause s" "map row_id (db_runs (sd_db (sc_store s'))) = map row_id (db_runs (sd_db (sc_store s)))"
    "(\<not> b \<and> s' = s) \<or> (b \<and> (\<exists>new. sc_calls s' = sc_calls s @ [Transitioned i new]))"
proof -
  from assms have "sc_pause s' = sc_pause s \<and> map row_id (db_runs (sd_db (sc_store s'))) = map row_id (db_runs (sd_db (sc_store s)))
    \<and> ((\<not> b \<and> s' = s) \<or> (b \<and> (\<exists>new. sc_calls s' = sc_calls s @ [Transitioned i new])))"
  proof (cases rule: transition_run_cases)
    case (accepted new db)
    then show ?thesis using transition_ids[OF accepted(2)] by (simp del: schedule_execute.simps)
  qed simp
  then show "sc_pause s' = sc_pause s" "map row_id (db_runs (sd_db (sc_store s'))) = map row_id (db_runs (sd_db (sc_store s)))"
    "(\<not> b \<and> s' = s) \<or> (b \<and> (\<exists>new. sc_calls s' = sc_calls s @ [Transitioned i new]))" by blast+
qed

lemma transition_run_quiet: "transition_run env now i st s = (b, s') \<Longrightarrow> quiet s s'"
  using transition_run_result[of env now i st s b s'] by (auto simp: quiet_def run_ids_def)

lemma materialize_paused: "is_paused s \<Longrightarrow> materialize env now sid s = Value s"
  by (simp add: materialize_def split: option.splits)

lemma end_skipped_quiet: "quiet s (end_skipped env now r s)"
proof -
  obtain b s1 where t: "transition_run env now (row_id r) (skipped_by_person now) s = (b, s1)" by force
  have "quiet s1 (end_skipped env now r s)"
    using t by (auto simp: end_skipped_def delete_skips_def Let_def intro!: quiet_same split: option.splits)
  then show ?thesis using transition_run_quiet[OF t] quiet_trans by blast
qed

lemma due_run_quiet: "is_paused s \<Longrightarrow> quiet s (due_run env now i s)"
  using end_skipped_quiet by (auto simp: due_run_def split: option.splits)

lemma late_check_quiet: "quiet s (late_check env now i s)"
proof -
  have "quiet s (case transition_run env now i st s of (True, s) \<Rightarrow> emit (RecordEvent RunLate (Some i) f) s | (False, s) \<Rightarrow> s)" for st f
    using transition_run_quiet[of env now i st s] quiet_trans[OF _ quiet_emit] by (auto split: prod.splits bool.splits)
  then show ?thesis by (simp add: late_check_def Let_def split: option.splits)
qed

lemma start_deadline_quiet: "quiet s (start_deadline env now i s)"
proof -
  have "quiet s (case transition_run env now i st (emit (Dequeue i) s) of
      (True, s) \<Rightarrow> emit (RecordEvent RunSkipped (Some i) f) s | (False, s) \<Rightarrow> s)" for st f
  proof -
    obtain b s1 where t: "transition_run env now i st (emit (Dequeue i) s) = (b, s1)" by force
    have "quiet s s1" using quiet_trans[OF quiet_emit transition_run_quiet[OF t]] by simp
    then show ?thesis using t quiet_trans[OF _ quiet_emit] by (auto split: bool.splits)
  qed
  then show ?thesis by (simp add: start_deadline_def split: option.splits)
qed

lemma drop_run_quiet: "quiet s (drop_run now i s)"
  by (simp add: drop_run_def Let_def quiet_def run_ids_def)

lemma fold_quiet: "(\<And>x s. quiet s (f x s)) \<Longrightarrow> quiet s (fold f xs s)"
proof (induction xs arbitrary: s)
  case (Cons x xs)
  then show ?case using quiet_trans by fastforce
qed simp

lemma ofold_quiet:
  assumes "\<And>x s s'. is_paused s \<Longrightarrow> f x s = Value s' \<Longrightarrow> quiet s s'" "is_paused s" "ofold f xs s = Value s'"
  shows "quiet s s'"
  using assms(2,3)
proof (induction xs arbitrary: s)
  case (Cons x xs)
  then obtain s1 where s1: "f x s = Value s1" "ofold f xs s1 = Value s'" by (auto simp: obind_Value)
  have "quiet s s1" using assms(1)[OF Cons.prems(1) s1(1)] .
  then show ?case using Cons.IH[OF _ s1(2)] Cons.prems(1) quiet_paused quiet_trans by blast
qed simp

lemma drop_unstarted_quiet: "quiet s (drop_unstarted now sid s)"
proof -
  obtain ids d where d: "delete_unstarted_runs sid (sc_store s) = (ids, d)" by force
  have "quiet s (with_store d s)"
    using d by (auto simp: delete_unstarted_runs_def Let_def quiet_def run_ids_def)
  then have "quiet s (fold (drop_run now) ids (with_store d s))" 
    by (rule quiet_trans[OF _ fold_quiet[OF drop_run_quiet]])
  then show ?thesis using d by (auto simp: drop_unstarted_def Let_def quiet_def run_ids_def)
qed

lemma drop_lost_skips_quiet: "drop_lost_skips env now row s = Value s' \<Longrightarrow> quiet s s'"
  by (auto simp: drop_lost_skips_def Let_def obind_Value delete_skips_def quiet_def run_ids_def split: if_splits)

lemma rebuild_quiet:
  assumes "is_paused s" "rebuild env now sid s = Value s'"
  shows "quiet s s'"
proof (cases "get_schedule now sid (sc_store s)")
  case None
  then show ?thesis using assms(2) by (auto simp: rebuild_def sched_remove_def quiet_def run_ids_def)
next
  case (Some row)
  define s1 where "s1 = drop_unstarted now sid (sched_put row s)"
  have "quiet s (sched_put row s)" by (rule quiet_same) simp_all
  then have q1: "quiet s s1" using drop_unstarted_quiet quiet_trans unfolding s1_def by blast
  obtain s2 where s2: "(case sched_get sid s1 of Some row \<Rightarrow> drop_lost_skips env now row s1 | None \<Rightarrow> Value s1) = Value s2"
      "materialize env now sid s2 = Value s'"
    using assms(2) unfolding rebuild_def Some option.case Let_def s1_def[symmetric] obind_Value by auto
  then have "quiet s1 s2" using drop_lost_skips_quiet by (auto split: option.splits)
  then have q2: "quiet s s2" using q1 quiet_trans by blast
  then have "is_paused s2" using assms(1) quiet_paused by blast
  then show ?thesis using q2 s2(2) by (simp add: materialize_paused)
qed

lemma resume_quiet:
  assumes "is_paused s" "resume env now sid s = Value s'"
  shows "quiet s s'"
proof -
  define d where "d = snd (patch_schedule now sid (SchedulePatch_default\<lparr> sp_active := Some True,
              sp_paused_reason := Some None, sp_paused_until := Some None \<rparr>) (sc_store s))"
  obtain s1 where s1: "rebuild env now sid (with_store d s) = Value s1"
      "s' = (case sched_get sid (emit (PublishSchedule sid) s1) of
              Some row \<Rightarrow> emit (RecordEvent ScheduleResumed None (Some (sr_flow_id row))) (emit (PublishSchedule sid) s1)
            | None \<Rightarrow> emit (PublishSchedule sid) s1)"
    using assms(2) by (auto simp: resume_def obind_Value Let_def d_def)
  have q: "quiet s (with_store d s)" by (rule quiet_same) (simp_all add: d_def patch_schedule_def)
  then have "quiet s s1" using rebuild_quiet[OF _ s1(1)] assms(1) quiet_paused quiet_trans by blast
  then show ?thesis using s1(2) by (auto simp: quiet_def run_ids_def split: option.splits)
qed

lemma resume_disabled_quiet: "is_paused s \<Longrightarrow> resume_disabled env now row s = Value s' \<Longrightarrow> quiet s s'"
  using resume_quiet by (auto simp: resume_disabled_def split: if_splits)


section \<open>A server for the examples\<close>

definition plain_options :: FlowOptions where
  "plain_options = \<lparr> fo_isolated = False, fo_log_prints = False, fo_priority = 0, fo_max_concurrent = None, fo_on_overlap = ''queue'',
     fo_resources = [], fo_crash_retries = None, fo_timeout_seconds = None, fo_retries = 0, fo_after = None, fo_disable_after = None,
     fo_schedules = [], fo_has_bulk_complete = False, fo_has_crash_hooks = False, fo_start_deadline = None, fo_runs_on = None,
     fo_unique = None, fo_fresh_within = None, fo_expect_by = None, fo_expect_by_tz = None, fo_expected_duration = None,
     fo_overdue_factor = None \<rparr>"

definition HOUR :: int where "HOUR = 3600000000"

text \<open>Every cron expression fires at the full hour.\<close>

definition hourly_calendar :: "(unit, unit) calendar" where
  "hourly_calendar = plain_calendar\<lparr> croner_next := (\<lambda>_ _ t. Some ((t div HOUR + 1) * HOUR)) \<rparr>"

definition plain_env :: "(unit, unit) env" where
  "plain_env = calendar.extend hourly_calendar
     (env.fields (\<lambda>_. plain_options) (\<lambda>_. []) (\<lambda>_. []) (\<lambda>_. ''{}'') (\<lambda>_. ''stamp'') (\<lambda>_. ''time'') (\<lambda>_. ''id''))"

definition plain_flow :: Flow where
  "plain_flow = \<lparr> fl_id = 1, fl_external_id = ''f'', fl_project = ''p'', fl_name = ''nightly'', fl_module = ''m'',
     fl_source_dir = ''s'', fl_description = None, fl_tags = [], fl_group = None, fl_parameter_schema = JObj [], fl_options = [],
     fl_error = None, fl_created_at = 0, fl_last_seen_at = 0, fl_live = True \<rparr>"

definition hourly :: ScheduleRow where
  "hourly = \<lparr> sr_id = 1, sr_external_id = ''h'', sr_flow_id = 1, sr_schedule = Cron ''0 * * * *'' None True,
     sr_catchup = CatchAll, sr_catchup_max = 2, sr_catchup_window = None, sr_jitter = 0, sr_start_deadline = None,
     sr_active = True, sr_paused_reason = None, sr_paused_until = None, sr_source = ''ui'', sr_code_key = None,
     sr_persist = False, sr_created_at = 0, sr_updated_at = 0, sr_next_fire = None, sr_skipped = 0, sr_loop_state = None \<rparr>"

definition plain_sched :: Sched where
  "plain_sched = \<lparr> sc_store = empty_sdb, sc_flows = [plain_flow], sc_index = Index_default, sc_timer = Timer_new,
     sc_table = [(1, hourly)], sc_pause = None, sc_kv_pause = None, sc_kv_wakeup = None, sc_calls = [] \<rparr>"

section \<open>The scheduler returns\<close>

lemma next_after_returns: "(\<And>secs a tz. sch \<noteq> Interval secs a tz) \<Longrightarrow> next_after cal now sch c \<noteq> Panic"
  by (cases sch) (auto simp: next_after_def split: sum.splits)

lemma look_ahead_returns:
  assumes "\<And>c. next_after (cal_of env) now (sr_schedule row) c \<noteq> Panic"
  shows "\<exists>x. look_ahead env now flow row skips horizon n existing cursor starting created s = Value x"
proof (induction n arbitrary: existing cursor starting created s)
  case (Suc n)
  then show ?case using assms by (auto simp: Let_def split: outcome.splits sum.splits option.splits prod.splits)
qed simp

lemma due_at_no_jitter: "sr_jitter row \<le> 0 \<Longrightarrow> due_at row fire = Value fire"
  by (simp add: due_at_def jitter_offset_def)

lemma arm_marks_return:
  assumes "sr_jitter row \<le> 0"
  shows "\<exists>s'. ofold (arm_mark env now flow row) ms s = Value s'"
proof (induction ms arbitrary: s)
  case (Cons m ms)
  have "\<exists>s1. arm_mark env now flow row m s = Value s1"
    using assms by (auto simp: arm_mark_def due_at_no_jitter Let_def split: option.splits)
  then obtain s1 where "arm_mark env now flow row m s = Value s1" ..
  then show ?case using Cons.IH[of s1] by simp
qed simp

lemma obind_returns: "\<exists>x. m = Value x \<Longrightarrow> (\<And>x. \<exists>y. f x = Value y) \<Longrightarrow> \<exists>y. obind m f = Value y"
  by (cases m) auto

lemma materialize_times_returns:
  assumes "\<And>secs a tz. sr_schedule row \<noteq> Interval secs a tz" "sr_jitter row \<le> 0"
  shows "\<exists>s'. materialize_times env now row flow s = Value s'"
  unfolding materialize_times_def Let_def
proof (rule obind_returns)
  fix x :: "ScheduleRunMark list \<times> Sched"
  obtain ex s1 where x: "x = (ex, s1)" by force
  obtain s2 where "ofold (arm_mark env now flow row) ex s1 = Value s2" using arm_marks_return[OF assms(2)] by blast
  then show "\<exists>y. (case x of (existing, s) \<Rightarrow> obind (ofold (arm_mark env now flow row) existing s) (\<lambda>s. Value (F existing s))) = Value y" for F
    by (simp add: x)
qed (rule look_ahead_returns[OF next_after_returns[OF assms(1)]])

lemma seed_continuous_returns:
  assumes "sr_jitter row \<le> 0"
  shows "\<exists>s'. seed_continuous env now row flow delay s = Value s'"
  unfolding seed_continuous_def Let_def due_at_no_jitter[OF assms]
  by (auto split: prod.splits option.splits)


section \<open>Jitter stays in its bound\<close>

lemma word_mod_below:
  fixes h m :: "64 word"
  assumes "m = word_of_int j" "0 < j" "j < 2 ^ 63"
  shows "0 \<le> sint (h mod m)" "sint (h mod m) < j"
proof -
  have m: "uint m = j" using assms by (simp add: take_bit_int_eq_self unsigned_of_int)
  then have u: "0 \<le> uint (h mod m)" "uint (h mod m) < j" using assms(2) by (simp_all add: uint_mod)
  have "signed_take_bit 63 (uint (h mod m)) = uint (h mod m)"
  proof (rule signed_take_bit_int_eq_self)
    show "- (2 ^ 63) \<le> uint (h mod m)" by (rule order_trans[OF _ u(1)]) simp
    show "uint (h mod m) < 2 ^ 63" using u(2) assms(3) by (rule less_trans)
  qed
  then have "sint (h mod m) = uint (h mod m)" by (simp add: sint_uint)
  then show "0 \<le> sint (h mod m)" "sint (h mod m) < j" using u by simp_all
qed

text \<open>
  A jittered fire is due no earlier than the fire and less than the jitter
  later, for every hash, and the offset depends on nothing but the schedule and
  the fire.
\<close>

theorem jitter_within_bound:
  assumes "due_at row fire = Value t" "sr_jitter row * 1000000 < 2 ^ 63"
  shows "fire \<le> t \<and> t < fire + max (sr_jitter row * 1000000) 1"
proof (cases "sr_jitter row \<le> 0")
  case True
  then show ?thesis using assms(1) by (simp add: due_at_no_jitter)
next
  case False
  obtain h :: "64 word" where "t = fire + sint (h mod (word_of_int (sr_jitter row) * 1000000))"
    using assms(1) False by (auto simp: due_at_def jitter_offset_def Let_def split: option.splits if_splits)
  moreover have m: "word_of_int (sr_jitter row) * 1000000 = (word_of_int (sr_jitter row * 1000000) :: 64 word)" by simp
  moreover have "0 \<le> sint (h mod (word_of_int (sr_jitter row) * 1000000))" "sint (h mod (word_of_int (sr_jitter row) * 1000000)) < sr_jitter row * 1000000"
    by (rule word_mod_below[OF m]; use False assms(2) in simp)+
  ultimately show ?thesis by linarith
qed

lemma unbias_first: "\<not> threshold \<le> h \<Longrightarrow> unbias threshold h = Some h"
  by (subst unbias.simps) simp

theorem jitter_within_bound_witness:
  "\<exists>t. due_at (hourly\<lparr> sr_jitter := 30 \<rparr>) 0 = Value t \<and> 0 \<le> t \<and> t < 30000000"
proof -
  let ?m = "30000000 :: 64 word"
  have "\<not> - 1 - (- 1 mod ?m) \<le> fire_hash 1 0" by code_simp
  then have "\<exists>t. due_at (hourly\<lparr> sr_jitter := 30 \<rparr>) 0 = Value t"
    by (simp add: due_at_def jitter_offset_def hourly_def unbias_first Let_def)
  then show ?thesis using jitter_within_bound[of "hourly\<lparr> sr_jitter := 30 \<rparr>" 0] by (auto simp: hourly_def)
qed

section \<open>A skipped fire\<close>

lemma transition_get:
  assumes "transition RunTable i st False db = Inr (new, db')"
  shows "\<exists>r. List.find (\<lambda>r. row_id r = i) (db_runs db') = Some r \<and> row_state r = Some new"
proof -
  obtain r r' where r: "r \<in> set (table_rows RunTable db)" "row_id r = i" "transition_row RunTable st False r = Inr (new, r')"
    and db': "db' = set_table_rows RunTable (map (\<lambda>x. if row_id x = i then r' else x) (table_rows RunTable db)) db"
    by (rule transition_Inr[OF assms])
  have r': "row_id r' = i" "row_state r' = Some new" using transition_row_Inr[OF r(3)] r(2) by simp_all
  have "List.find (\<lambda>r. row_id r = i) (map (\<lambda>x. if row_id x = i then r' else x) rows) = Some r'"
    if "\<exists>x \<in> set rows. row_id x = i" for rows
    using that r'(1) by (induction rows) auto
  then show ?thesis using r(1,2) r'(2) by (auto simp: db' table_rows_def set_table_rows_def)
qed

lemma waiting_run_completes:
  assumes "get_row i s = Some r" "row_state r = Some cur" "st_type cur \<in> {Scheduled, Pending}" "st_type st = Completed"
    and "get_flow (row_flow_id r) s \<noteq> None"
  obtains s' r' where "transition_run env now i st s = (True, s')" "get_row i s' = Some r'" "row_state r' = Some st"
    "sc_calls s' = sc_calls s @ [Transitioned i st]" "sc_pause s' = sc_pause s"
proof -
  have f: "List.find (\<lambda>r. row_id r = i) (table_rows RunTable (sd_db (sc_store s))) = Some r"
    using assms(1) by (simp add: get_row_def table_rows_def)
  have "propose (Some cur) \<lparr> pr_state = st, pr_force = False \<rparr> RunPolicy_default = Accept"
    using assms(3,4) by (auto simp: propose_def is_terminal_def is_duplicate_def)
  then obtain q where "transition_row RunTable st False r = Inr (st, q)"
    using assms(2) by (simp add: transition_row_def Let_def)
  then obtain db where db: "transition RunTable i st False (sd_db (sc_store s)) = Inr (st, db)"
    using f by (simp add: transition_def)
  then have "fst (transition_run env now i st s)"
    using assms(1,5) by (auto simp: transition_run_def Let_def)
  then obtain s' where s': "transition_run env now i st s = (True, s')" by (cases "transition_run env now i st s") auto
  from s' show thesis
  proof (cases rule: transition_run_cases)
    case (accepted new db')
    then have new: "new = st" "db' = db" using db by simp_all
    obtain r' where r': "List.find (\<lambda>r. row_id r = i) (db_runs db) = Some r'" "row_state r' = Some st" using transition_get[OF db] by blast
    have "get_row i s' = Some r'" using accepted(5) new assms(4) r'(1) by (simp add: get_row_def)
    then show thesis using that[OF s' _ r'(2)] accepted new by simp
  qed simp
qed

lemma marked_has_state: "is_marked r \<Longrightarrow> row_state r = Some (state_of_row r)"
  by (auto simp: is_marked_def state_of_row_def is_mark_skip_def State_new_def with_timestamp_def jmap_get_def split: option.splits)

text \<open>
  A fire that a person skipped never starts: when its time comes its run is
  completed as Skipped, nothing is handed to admission, and the mark is spent.
\<close>

theorem skipped_fire_never_starts:
  assumes "get_row i s = Some r" "is_waiting r" "is_marked r" "get_flow (row_flow_id r) s \<noteq> None"
    and "row_schedule_id r = Some sid" "row_scheduled_time r = Some fire" "handle env now (Due i) s = Value s'"
  shows "sc_calls s' = sc_calls s @ [Transitioned i (skipped_by_person now)]
    \<and> (\<exists>r'. get_row i s' = Some r' \<and> row_state r' = Some (skipped_by_person now))
    \<and> is_terminal (skipped_by_person now) \<and> fire \<notin> set (list_skips sid (sc_store s'))"
proof -
  have c: "st_type (skipped_by_person now) = Completed"
    by (simp add: skipped_by_person_def Let_def State_named_def State_new_def)
  have i: "row_id r = i" using assms(1) by (auto simp: get_row_def find_Some_iff)
  have "st_type (state_of_row r) \<in> {Scheduled, Pending}" using assms(2) by (simp add: is_waiting_def)
  from waiting_run_completes[OF assms(1) marked_has_state[OF assms(3)] this c assms(4), of env now]
  obtain s1 r' where t: "transition_run env now i (skipped_by_person now) s = (True, s1)" "get_row i s1 = Some r'"
    "row_state r' = Some (skipped_by_person now)" "sc_calls s1 = sc_calls s @ [Transitioned i (skipped_by_person now)]" by blast
  have "s' = with_store (snd (delete_skips sid [fire] (sc_store s1))) s1"
    using assms t(1) i by (auto simp: due_run_def end_skipped_def Let_def)
  then show ?thesis using t c
    by (auto simp: get_row_def delete_skips_def Let_def list_skips_def is_terminal_def)
qed

section \<open>Examples\<close>

lemma hourly_fields [simp]: "cal_of plain_env = hourly_calendar" "instant_ok hourly_calendar t"
    "parse_cron hourly_calendar c b = Inr ()" "resolve_tz hourly_calendar None = Inr plain_zone"
    "croner_next hourly_calendar () plain_zone t = Some ((t div HOUR + 1) * HOUR)"
  by (simp_all add: cal_of_def plain_env_def calendar.defs env.defs hourly_calendar_def resolve_tz_def parse_cron_def
      local_tz_def plain_calendar_def)

lemma walk_step:
  "walk nxt wanted (numeral n) cursor =
     (case nxt cursor of
        Panic \<Rightarrow> Panic
      | Value (Inl e) \<Rightarrow> Value (Inl e)
      | Value (Inr None) \<Rightarrow> Value (Inr [])
      | Value (Inr (Some t)) \<Rightarrow>
         if \<not> wanted cursor t then Value (Inr [])
         else (case walk nxt wanted (pred_numeral n) t of
                 Panic \<Rightarrow> Panic
               | Value (Inl e) \<Rightarrow> Value (Inl e)
               | Value (Inr ts) \<Rightarrow> Value (Inr (t # ts))))"
  by (simp add: numeral_eq_Suc)

lemma plain_missed: "missed_fires plain_env (3 * HOUR) (hourly\<lparr> sr_catchup := p, sr_catchup_window := w \<rparr>) 0 plain_sched = Value (Inr [HOUR, 2 * HOUR, 3 * HOUR])"
  by (simp add: missed_fires_def hourly_def fires_between_def walk_step from_micros_def plain_sched_def empty_sdb_def
      list_skips_def fire_times_of_schedule_def empty_db_def HOUR_def)


theorem catch_up_creates_only_missed_witness:
  "\<exists>s' rs. catch_up plain_env hourly 0 (3 * HOUR) plain_sched = Value s' \<and> db_runs (sd_db (sc_store s')) = rs \<and> length rs \<le> 2
     \<and> (\<forall>r \<in> set rs. is_waiting r \<and> (\<exists>t. row_scheduled_time r = Some t \<and> t \<le> 3 * HOUR))"
proof -
  have h: "hourly = hourly\<lparr> sr_catchup := CatchAll, sr_catchup_window := None \<rparr>" by (simp add: hourly_def)
  have "missed_fires plain_env (3 * HOUR) hourly 0 plain_sched = Value (Inr [HOUR, 2 * HOUR, 3 * HOUR])"
    by (subst h) (rule plain_missed)
  then obtain s' where s': "catch_up plain_env hourly 0 (3 * HOUR) plain_sched = Value s'"
    by (auto simp: catch_up_def catch_up_plan_def hourly_def plain_sched_def plain_flow_def get_flow_def)
  moreover have "catch_up_limit hourly = 2" "db_runs (sd_db (sc_store plain_sched)) = []"
    by (simp_all add: catch_up_limit_def hourly_def plain_sched_def empty_sdb_def empty_db_def)
  ultimately show ?thesis using catch_up_creates_only_missed[OF s'] by (auto simp: worth_running_def)
qed

theorem latest_catch_up_panics_witness:
  "catch_up plain_env (hourly\<lparr> sr_catchup := CatchLatest, sr_catchup_window := Some 60 \<rparr>) 0 (3 * HOUR + 3000000000)
     (plain_sched\<lparr> sc_table := [] \<rparr>) = Panic"
proof -
  have "missed_fires plain_env (3 * HOUR + 3000000000) (hourly\<lparr> sr_catchup := CatchLatest, sr_catchup_window := Some 60 \<rparr>) 0
      (plain_sched\<lparr> sc_table := [] \<rparr>) = Value (Inr [HOUR, 2 * HOUR, 3 * HOUR])"
    by (simp add: missed_fires_def hourly_def fires_between_def walk_step from_micros_def plain_sched_def empty_sdb_def
      list_skips_def fire_times_of_schedule_def empty_db_def HOUR_def)
  from latest_catch_up_panics[OF _ _ _ this, of 60] show ?thesis by (simp add: HOUR_def)
qed


theorem materialize_fills_look_ahead_witness:
  "\<exists>s' rs. materialize_times plain_env 0 hourly plain_flow plain_sched = Value s'
     \<and> db_runs (sd_db (sc_store s')) = rs \<and> length rs \<le> 100 \<and> sorted_wrt (<) (map fire_time rs)"
proof -
  obtain s' where s': "materialize_times plain_env 0 hourly plain_flow plain_sched = Value s'"
    using materialize_times_returns[of hourly plain_env 0 plain_flow plain_sched] by (auto simp: hourly_def)
  have "db_runs (sd_db (sc_store plain_sched)) = []" "future_run_marks (sr_id hourly) 0 (sc_store plain_sched) = []"
    by (simp_all add: plain_sched_def empty_sdb_def empty_db_def future_run_marks_def)
  then show ?thesis using s' materialize_fills_look_ahead[OF s'] by (auto simp: LOOKAHEAD_MAX_def)
qed

definition paused_sched :: Sched where
  "paused_sched = plain_sched\<lparr> sc_pause := Some \<lparr> pa_since = 5, pa_reason = None, pa_until = None, pa_suppress_rules = False \<rparr> \<rparr>"


text \<open>A server whose first fire, at one hour, has a run that a person skipped.\<close>

definition skipped_sched :: Sched where
  "skipped_sched = snd (create_scheduled_run plain_env 0 plain_flow hourly HOUR ''schedule'' True None plain_sched)"

theorem skipped_fire_never_starts_witness:
  "\<exists>i s' r'. handle plain_env HOUR (Due i) skipped_sched = Value s' \<and> get_row i s' = Some r'
     \<and> row_state r' = Some (skipped_by_person HOUR) \<and> filter (\<lambda>c. c = Admit i) (sc_calls s') = []"
proof -
  obtain res where c: "create_scheduled_run plain_env 0 plain_flow hourly HOUR ''schedule'' True None plain_sched = (res, skipped_sched)"
    unfolding skipped_sched_def by (metis prod.collapse)
  have "db_runs (sd_db (sc_store plain_sched)) = []" "sc_calls plain_sched = []" "sc_flows plain_sched = [plain_flow]"
    by (simp_all add: plain_sched_def empty_sdb_def empty_db_def)
  moreover from this have "res \<noteq> None" using create_scheduled_run_taken[of plain_env 0 plain_flow hourly HOUR "''schedule''" True plain_sched] c
    by (auto simp: fire_taken_def)
  ultimately obtain r where r: "db_runs (sd_db (sc_store skipped_sched)) = [r]" "run_of_fire hourly plain_flow ''schedule'' 0 True HOUR r"
      "sc_calls skipped_sched = [RunCreated (row_id r)]" "sc_flows skipped_sched = [plain_flow]"
    using create_scheduled_run_cases[OF c] by (auto simp: same_rest_def)
  have g: "get_row (row_id r) skipped_sched = Some r" by (simp add: get_row_def r(1))
  have w: "is_waiting r" "is_marked r" "row_schedule_id r = Some 1" "row_scheduled_time r = Some HOUR"
      "get_flow (row_flow_id r) skipped_sched \<noteq> None"
    using r(2,4) by (auto simp: run_of_fire_def is_waiting_def is_marked_def state_of_row_def initial_state_def State_new_def
        is_mark_skip_def jmap_get_def hourly_def get_flow_def)
  obtain s' where h: "handle plain_env HOUR (Due (row_id r)) skipped_sched = Value s'" by simp
  then show ?thesis using skipped_fire_never_starts[OF g w(1,2,5,3,4) h] r(3)
    by (intro exI[of _ "row_id r"] exI[of _ s']) auto
qed

definition paused_until :: "micros \<Rightarrow> micros \<Rightarrow> Sched \<Rightarrow> Sched" where
  "paused_until now until s = snd (pause_all now None (Some until) False s)"

text \<open>
  C38: Pausing again is documented to replace the end of the pause, but the timer
  of the old end stays: a server that pauses until 100 and then pauses again
  until 1000 is released at 100, because the second pause keeps the
  \<open>since\<close> by which the timer recognises its pause.
\<close>

theorem replaced_pause_ends_early:
  "\<exists>s'. run_turn plain_env 100 (paused_until 20 1000 (paused_until 10 100 plain_sched)) = Value s' \<and> sc_pause s' = None"
proof -
  let ?s = "paused_until 20 1000 (paused_until 10 100 plain_sched)"
  have t: "fst (pop_due 100 (sc_timer ?s)) = [(100, SchedulerResume 10)]"
    by code_simp
  obtain tm where tm: "pop_due 100 (sc_timer ?s) = ([(100, SchedulerResume 10)], tm)"
    using t by (metis prod.collapse)
  have p: "sc_pause ?s = Some \<lparr> pa_since = 10, pa_reason = None, pa_until = Some 1000, pa_suppress_rules = False \<rparr>"
    "sc_store ?s = empty_sdb" "sc_index ?s = Index_default"
    by (simp_all add: paused_until_def pause_all_def plain_sched_def Let_def)
  have "active_runs (sc_index (?s\<lparr> sc_timer := tm, sc_pause := None, sc_kv_pause := None \<rparr>)) = []"
    using p(3) by (simp add: active_runs_def Index_default_def)
  then have "\<exists>x s'. resume_all plain_env 100 (?s\<lparr> sc_timer := tm \<rparr>) = Value (x, s') \<and> sc_pause s' = None"
    using p by (simp add: resume_all_def list_schedules_def empty_sdb_def release_held_def waiting_ids_def)
  then show ?thesis using p(1) by (auto simp: run_turn_def tm obind_Value)
qed

end
