(* ===== verification/Dep_Graph.thy ===== *)
theory Dep_Graph
  imports Scheduler_Facts
begin

text \<open>
  The dependency graph of the flows (\<^verbatim>\<open>crates/server/src/state.rs\<close>): which flows declare
  that they run after a flow, with the highest priority any of them declares,
  and the cache that holds the graph. The graph is built outside the cache's lock, so
  the cache is modelled as a step relation in which changes of the flows,
  invalidations and the stages of a build interleave.
\<close>

section \<open>The graph\<close>

record Dependents =
  dp_ids :: "int list"
  dp_max_priority :: int

definition Dependents_default :: Dependents where
  "Dependents_default = \<lparr> dp_ids = [], dp_max_priority = 0 \<rparr>"

definition dependents_push :: "int \<Rightarrow> int \<Rightarrow> Dependents \<Rightarrow> Dependents" where
  "dependents_push i priority d = \<lparr> dp_ids = dp_ids d @ [i], dp_max_priority = max (dp_max_priority d) priority \<rparr>"

type_synonym dep_graph = "(int \<times> Dependents) list"

text \<open>\<^verbatim>\<open>by_key\<close>: of two flows with the same project and name the later one counts.\<close>

definition flow_ids_by_key :: "Flow list \<Rightarrow> (string \<times> string) \<Rightarrow> int option" where
  "flow_ids_by_key flows = map_of (rev (map (\<lambda>f. ((fl_project f, fl_name f), fl_id f)) flows))"

definition add_edge :: "(string \<times> string \<Rightarrow> int option) \<Rightarrow> Flow \<Rightarrow> int \<Rightarrow> string \<Rightarrow> dep_graph \<Rightarrow> dep_graph" where
  "add_edge by_key flow priority upstream graph =
     (case by_key (fl_project flow, upstream) of
        Some i \<Rightarrow> entry_update i Dependents_default (dependents_push (fl_id flow) priority) graph
      | None \<Rightarrow> graph)"

fun add_upstreams :: "(string \<times> string \<Rightarrow> int option) \<Rightarrow> Flow \<Rightarrow> int \<Rightarrow> string list \<Rightarrow> string list \<Rightarrow> dep_graph \<Rightarrow> dep_graph" where
  "add_upstreams by_key flow priority seen [] graph = graph"
| "add_upstreams by_key flow priority seen (u # us) graph =
     (if u \<in> set seen then add_upstreams by_key flow priority seen us graph
      else add_upstreams by_key flow priority (seen @ [u]) us (add_edge by_key flow priority u graph))"

definition add_flow :: "(jmap \<Rightarrow> FlowOptions) \<Rightarrow> (string \<times> string \<Rightarrow> int option) \<Rightarrow> Flow \<Rightarrow> dep_graph \<Rightarrow> dep_graph" where
  "add_flow options by_key flow graph =
     (let opts = options (fl_options flow) in
      case fo_after opts of
        None \<Rightarrow> graph
      | Some spec \<Rightarrow> add_upstreams by_key flow (fo_priority opts) [] (upstreams spec) graph)"

definition dep_graph_from_flows :: "(jmap \<Rightarrow> FlowOptions) \<Rightarrow> Flow list \<Rightarrow> dep_graph" where
  "dep_graph_from_flows options flows = fold (add_flow options (flow_ids_by_key flows)) flows []"

section \<open>The cache\<close>

text \<open>
  \<open>dc_dirty\<close> counts the changes of the flows whose invalidation is still to come (a handler writes
  the flow, then invalidates); \<open>dc_building\<close> is the one build the mutex admits: the generation it saw
  and, once it has read them, the flows.
\<close>

record 'f DepCache =
  dc_flows :: 'f
  dc_slot :: "'f option"
  dc_generation :: nat
  dc_dirty :: nat
  dc_building :: "(nat \<times> 'f option) option"

definition invalidate :: "'f DepCache \<Rightarrow> 'f DepCache" where
  "invalidate c = c\<lparr> dc_generation := dc_generation c + 1, dc_slot := None \<rparr>"

definition publish :: "'f DepCache \<Rightarrow> nat \<Rightarrow> 'f \<Rightarrow> 'f DepCache" where
  "publish c seen built = (if dc_generation c = seen then c\<lparr> dc_slot := Some built \<rparr> else c)"

text \<open>The slot holds the flows its graph was built from; the graph itself is \<^const>\<open>dep_graph_from_flows\<close> of them.\<close>

inductive cache_step :: "'f DepCache \<Rightarrow> 'f DepCache \<Rightarrow> bool" where
  change: "cache_step c (c\<lparr> dc_flows := fs, dc_dirty := dc_dirty c + 1 \<rparr>)"
| invalidated: "dc_dirty c = Suc n \<Longrightarrow> cache_step c ((invalidate c)\<lparr> dc_dirty := n \<rparr>)"
| start_build: "dc_building c = None \<Longrightarrow> dc_slot c = None \<Longrightarrow> cache_step c (c\<lparr> dc_building := Some (dc_generation c, None) \<rparr>)"
| read_flows: "dc_building c = Some (g, None) \<Longrightarrow> cache_step c (c\<lparr> dc_building := Some (g, Some (dc_flows c)) \<rparr>)"
| failed_build: "dc_building c = Some (g, None) \<Longrightarrow> cache_step c (c\<lparr> dc_building := None \<rparr>)"
| finish_build: "dc_building c = Some (g, Some fs) \<Longrightarrow> cache_step c ((publish c g fs)\<lparr> dc_building := None \<rparr>)"

inductive_cases cache_stepE: "cache_step c c'"

definition fresh_cache :: "'f \<Rightarrow> 'f DepCache" where
  "fresh_cache fs = \<lparr> dc_flows = fs, dc_slot = None, dc_generation = 0, dc_dirty = 0, dc_building = None \<rparr>"

definition cache_ok :: "'f DepCache \<Rightarrow> bool" where
  "cache_ok c \<longleftrightarrow> (\<forall>fs. dc_slot c = Some fs \<longrightarrow> fs = dc_flows c \<or> 0 < dc_dirty c)
     \<and> (\<forall>g. \<forall>fs. dc_building c = Some (g, fs) \<longrightarrow> g \<le> dc_generation c)
     \<and> (\<forall>g. \<forall>fs. dc_building c = Some (g, Some fs) \<longrightarrow> g = dc_generation c \<longrightarrow> fs = dc_flows c \<or> 0 < dc_dirty c)"

lemma cache_step_ok: "cache_step c c' \<Longrightarrow> cache_ok c \<Longrightarrow> cache_ok c'"
  by (induction rule: cache_step.induct) (auto simp: cache_ok_def invalidate_def publish_def)

text \<open>
  C7: The cached dependency graph is never stale: whatever the interleaving of
  flow changes, invalidations and builds, once every change has been invalidated a
  graph in the cache was built from the flows as they are now.
\<close>

theorem dep_cache_never_stale:
  assumes "cache_step\<^sup>*\<^sup>* (fresh_cache fs) c" "dc_dirty c = 0" "dc_slot c = Some built"
  shows "built = dc_flows c"
proof -
  have "cache_ok (fresh_cache fs)" by (simp add: cache_ok_def fresh_cache_def)
  with assms(1) have "cache_ok c" by (induction rule: rtranclp_induct) (auto intro: cache_step_ok)
  then show ?thesis using assms(2,3) by (auto simp: cache_ok_def)
qed

text \<open>A build that started before a change is not kept; the next one is.\<close>

theorem dep_cache_never_stale_witness:
  "\<exists>c. cache_step\<^sup>*\<^sup>* (fresh_cache (0 :: nat)) c \<and> dc_slot c = Some 1 \<and> dc_flows c = 1"
proof -
  define c0 where "c0 = fresh_cache (0 :: nat)"
  define c1 where "c1 = c0\<lparr> dc_building := Some (0, None) \<rparr>"
  define c2 where "c2 = c1\<lparr> dc_building := Some (0, Some 0) \<rparr>"
  define c3 where "c3 = c2\<lparr> dc_flows := 1, dc_dirty := 1 \<rparr>"
  define c4 where "c4 = (invalidate c3)\<lparr> dc_dirty := 0 \<rparr>"
  define c5 where "c5 = c4\<lparr> dc_building := None \<rparr>"
  define c6 where "c6 = c5\<lparr> dc_building := Some (1, None) \<rparr>"
  define c7 where "c7 = c6\<lparr> dc_building := Some (1, Some 1) \<rparr>"
  define c8 where "c8 = c7\<lparr> dc_slot := Some 1, dc_building := None \<rparr>"
  note defs = c0_def c1_def c2_def c3_def c4_def c5_def c6_def c7_def c8_def fresh_cache_def invalidate_def publish_def
  have s: "cache_step c0 c1" "cache_step c1 c2" "cache_step c2 c3" "cache_step c3 c4" "cache_step c4 c5"
      "cache_step c5 c6" "cache_step c6 c7" "cache_step c7 c8"
    using start_build[of c0] read_flows[of c1 0] change[of c2 1] invalidated[of c3 0] finish_build[of c4 0 0]
      start_build[of c5] read_flows[of c6 1] finish_build[of c7 1 1]
    by (simp_all add: defs)
  then have steps: "cache_step\<^sup>*\<^sup>* (fresh_cache 0) c8"
    unfolding c0_def[symmetric] by (meson rtranclp.rtrancl_into_rtrancl rtranclp.rtrancl_refl)
  have "1 = dc_flows c8" by (rule dep_cache_never_stale[OF steps]) (simp_all add: defs)
  then show ?thesis using steps by (intro exI[of _ c8]) (simp add: defs)
qed

section \<open>The graph agrees with a scan\<close>

definition dependents_of :: "dep_graph \<Rightarrow> int \<Rightarrow> Dependents" where
  "dependents_of g i = (case map_of g i of Some d \<Rightarrow> d | None \<Rightarrow> Dependents_default)"

lemma dependents_of_update:
  "dependents_of (entry_update i Dependents_default f g) j = (if j = i then f (dependents_of g i) else dependents_of g j)"
  by (auto simp: dependents_of_def split: option.splits)

lemma dependents_of_add_upstreams:
  assumes inj: "\<And>u v i. by_key (fl_project flow, u) = Some i \<Longrightarrow> by_key (fl_project flow, v) = Some i \<Longrightarrow> u = v"
  shows "dependents_of (add_upstreams by_key flow priority seen us g) i =
    (if \<exists>u \<in> set us - set seen. by_key (fl_project flow, u) = Some i
     then dependents_push (fl_id flow) priority (dependents_of g i) else dependents_of g i)"
proof (induction us arbitrary: seen g)
  case (Cons u us)
  show ?case
  proof (cases "u \<in> set seen")
    case False
    have "dependents_of (add_edge by_key flow priority u g) i =
        (if by_key (fl_project flow, u) = Some i then dependents_push (fl_id flow) priority (dependents_of g i) else dependents_of g i)"
      by (auto simp: add_edge_def dependents_of_update split: option.splits)
    moreover have "by_key (fl_project flow, u) = Some i \<Longrightarrow> \<not> (\<exists>v \<in> set us - set (seen @ [u]). by_key (fl_project flow, v) = Some i)"
      using inj by fastforce
    ultimately show ?thesis using False Cons.IH[of "seen @ [u]"] by auto
  qed (use Cons.IH in auto)
qed simp

text \<open>The reference: read every flow and ask whether it declares the flow among its upstreams.\<close>

definition declares :: "(jmap \<Rightarrow> FlowOptions) \<Rightarrow> Flow \<Rightarrow> Flow \<Rightarrow> bool" where
  "declares options up f \<longleftrightarrow> fl_project f = fl_project up
     \<and> (case fo_after (options (fl_options f)) of Some spec \<Rightarrow> depends_on spec (fl_name up) | None \<Rightarrow> False)"

definition scan_dependents :: "(jmap \<Rightarrow> FlowOptions) \<Rightarrow> Flow list \<Rightarrow> Flow \<Rightarrow> Dependents" where
  "scan_dependents options flows up =
     fold (\<lambda>f d. if declares options up f then dependents_push (fl_id f) (fo_priority (options (fl_options f))) d else d)
       flows Dependents_default"

lemma flow_ids_by_key_iff:
  assumes "distinct (map (\<lambda>f. (fl_project f, fl_name f)) flows)"
  shows "flow_ids_by_key flows (p, n) = Some i \<longleftrightarrow> (\<exists>f \<in> set flows. fl_project f = p \<and> fl_name f = n \<and> fl_id f = i)"
proof -
  have "distinct (map fst (rev (map (\<lambda>f. ((fl_project f, fl_name f), fl_id f)) flows)))"
    using assms by (simp add: rev_map[symmetric] comp_def)
  then show ?thesis unfolding flow_ids_by_key_def by (subst map_of_eq_Some_iff) auto
qed

text \<open>
  The dependency graph agrees with reading every flow: when projects and names
  and ids of the flows are distinct, the entry of a flow lists exactly the flows of its project
  that declare it among their upstreams, in order and once each, with the
  highest priority any of them declares (at least zero).
\<close>

theorem dep_graph_agrees_with_scan:
  assumes keys: "distinct (map (\<lambda>f. (fl_project f, fl_name f)) flows)" and ids: "distinct (map fl_id flows)" and up: "up \<in> set flows"
  shows "dependents_of (dep_graph_from_flows options flows) (fl_id up) = scan_dependents options flows up"
proof -
  let ?by_key = "flow_ids_by_key flows"
  have same: "f = g" if "f \<in> set flows" "g \<in> set flows" "fl_id f = fl_id g" for f g
    using ids that by (auto simp: distinct_map inj_on_def)
  have key: "?by_key (fl_project f, u) = Some (fl_id up) \<longleftrightarrow> fl_project f = fl_project up \<and> u = fl_name up" for f u
    using up same unfolding flow_ids_by_key_iff[OF keys] by metis
  have inj: "u = v" if "?by_key (p, u) = Some i" "?by_key (p, v) = Some i" for p u v i
    using that same by (auto simp: flow_ids_by_key_iff[OF keys])
  have ups: "dependents_of (add_upstreams ?by_key f priority [] us g) (fl_id up) =
      (if fl_project f = fl_project up \<and> fl_name up \<in> set us then dependents_push (fl_id f) priority (dependents_of g (fl_id up))
       else dependents_of g (fl_id up))" for f priority us g
    using key by (subst dependents_of_add_upstreams) (auto dest: inj)
  have step: "dependents_of (add_flow options ?by_key f g) (fl_id up) =
      (if declares options up f then dependents_push (fl_id f) (fo_priority (options (fl_options f))) (dependents_of g (fl_id up))
       else dependents_of g (fl_id up))" for f g
    by (simp add: add_flow_def Let_def declares_def depends_on_def ups split: option.splits)
  have "dependents_of (fold (add_flow options ?by_key) fs g) (fl_id up) =
      fold (\<lambda>f d. if declares options up f then dependents_push (fl_id f) (fo_priority (options (fl_options f))) d else d)
        fs (dependents_of g (fl_id up))" for fs g
    by (induction fs arbitrary: g) (simp_all add: step)
  then show ?thesis by (simp add: dep_graph_from_flows_def scan_dependents_def dependents_of_def)
qed

definition report_flow :: Flow where
  "report_flow = plain_flow\<lparr> fl_id := 2, fl_name := ''report'', fl_options := [(''after'', JStr ''nightly'')] \<rparr>"

definition sample_options :: "jmap \<Rightarrow> FlowOptions" where
  "sample_options m = plain_options\<lparr> fo_priority := 3,
     fo_after := (if m = [] then None else Some \<lparr> as_flow = ''nightly'', as_flows = [], as_key = None, as_parameters = [] \<rparr>) \<rparr>"

theorem dep_graph_agrees_with_scan_witness:
  "dependents_of (dep_graph_from_flows sample_options [plain_flow, report_flow]) 1 = \<lparr> dp_ids = [2], dp_max_priority = 3 \<rparr>"
  using dep_graph_agrees_with_scan[of "[plain_flow, report_flow]" plain_flow sample_options]
  by (simp add: scan_dependents_def declares_def depends_on_def upstreams_def sample_options_def report_flow_def plain_flow_def
      dependents_push_def Dependents_default_def)

end
