(* ===== verification/App_State.thy ===== *)
theory App_State
  imports Dep_Graph Supervisor Rule_Engine
begin

text \<open>
  The state of the server (\<^verbatim>\<open>AppState\<close>) that admission and waits work on: the scheduler's part of it,
  the supervisor, the dependency graph, the key-value table, recorded events,
  queued messages, and the lock under which paused runs are answered; the store reads they
  make (\<^verbatim>\<open>crates/store/src/read.rs\<close>); and which event a state records
  (\<^verbatim>\<open>crates/server/src/events.rs\<close>). JSON text in a column is kept as the value it holds.
\<close>

record ('c, 'r) senv = "('c, 'r) env" +
  se_process_id :: nat
  se_mtime :: "EngineKey \<Rightarrow> int option"
  se_spawn :: "string \<Rightarrow> EngineKey \<Rightarrow> nat option"
  se_param_text :: "string \<Rightarrow> string \<Rightarrow> string option"
  se_show_f64 :: "f64 \<Rightarrow> string"

definition env_of :: "('c, 'r) senv \<Rightarrow> ('c, 'r) env" where
  "env_of env = env.truncate env"

record Message =
  ms_run_id :: int
  ms_topic :: string
  ms_payload :: json
  ms_consumed :: bool

text \<open>Work that a handler leaves to another thread.\<close>

datatype Spawned =
    DeliverQueued Run
  | DeliverRecorded Run string micros
  | KillLater int

record AppState =
  ap_sched :: Sched
  ap_sup :: Supervisor
  ap_graph :: dep_graph
  ap_backfills :: "(int \<times> int) list"
  ap_kv :: "(string \<times> json) list"
  ap_emitted :: "int list"
  ap_events :: "Event list"
  ap_messages :: "Message list"
  ap_answer_lock :: bool
  ap_spawned :: "Spawned list"
  ap_terminated :: "int list"
  ap_crash_retries :: int
  ap_fast_crash_rerun :: bool

definition on_sched :: "(Sched \<Rightarrow> Sched) \<Rightarrow> AppState \<Rightarrow> AppState" where
  "on_sched f s = s\<lparr> ap_sched := f (ap_sched s) \<rparr>"

definition on_sup :: "(Supervisor \<Rightarrow> Supervisor) \<Rightarrow> AppState \<Rightarrow> AppState" where
  "on_sup f s = s\<lparr> ap_sup := f (ap_sup s) \<rparr>"

definition app_rows :: "AppState \<Rightarrow> Row list" where
  "app_rows s = db_runs (sd_db (sc_store (ap_sched s)))"

definition set_app_rows :: "Row list \<Rightarrow> AppState \<Rightarrow> AppState" where
  "set_app_rows rows = on_sched (\<lambda>d. d\<lparr> sc_store := (sc_store d)\<lparr> sd_db := (sd_db (sc_store d))\<lparr> db_runs := rows \<rparr> \<rparr> \<rparr>)"

definition app_flow :: "int \<Rightarrow> AppState \<Rightarrow> Flow option" where
  "app_flow i s = get_flow i (ap_sched s)"

text \<open>\<^verbatim>\<open>Store::get_run\<close> joins the flow. Its task counts are not read here.\<close>

definition app_run :: "('c, 'r) senv \<Rightarrow> int \<Rightarrow> AppState \<Rightarrow> Run option" where
  "app_run env i s =
     (case get_row i (ap_sched s) of
        None \<Rightarrow> None
      | Some r \<Rightarrow> map_option (\<lambda>f. run_from_row (env_of env) [] f r) (app_flow (row_flow_id r) s))"

definition ensure :: "('c, 'r) senv \<Rightarrow> micros \<Rightarrow> AppState \<Rightarrow> AppState" where
  "ensure env now = on_sup (ensure_capacity now now (se_process_id env) (se_mtime env) (se_spawn env))"

definition timer_push :: "micros \<Rightarrow> TimerEvent \<Rightarrow> AppState \<Rightarrow> AppState" where
  "timer_push t e = on_sched (arm_timer t e)"

definition options_of :: "('c, 'r) senv \<Rightarrow> Flow \<Rightarrow> FlowOptions" where
  "options_of env flow = flow_options env (fl_options flow)"

definition may_run_remotely :: "FlowOptions \<Rightarrow> bool" where
  "may_run_remotely o' \<longleftrightarrow> fo_runs_on o' \<noteq> Some ''server''"

section \<open>JSON\<close>

definition jobj :: "(string \<times> json) list \<Rightarrow> json" where
  "jobj kvs = JObj (fold (\<lambda>(k, v). jmap_insert k v) kvs [])"

definition json_int :: "int \<Rightarrow> json" where
  "json_int n = JNum (if 0 \<le> n then PosInt (nat n) else NegInt n)"

definition json_opt :: "('a \<Rightarrow> json) \<Rightarrow> 'a option \<Rightarrow> json" where
  "json_opt f x = (case x of Some y \<Rightarrow> f y | None \<Rightarrow> JNull)"

fun or_insert :: "string \<Rightarrow> json \<Rightarrow> json \<Rightarrow> json" where
  "or_insert k v (JObj m) = JObj (if jmap_get m k = None then jmap_insert k v m else m)"
| "or_insert k v j = j"

section \<open>Chains of crash reruns\<close>

text \<open>SQL's \<^verbatim>\<open>LIKE\<close> ignores the case of ASCII letters.\<close>

definition crash_link :: "Row \<Rightarrow> bool" where
  "crash_link r \<longleftrightarrow> Sublist.prefix ''CRASH:'' (to_ascii_uppercase (row_created_by r))"

text \<open>The recursive query stops after fifty links.\<close>

fun crash_chain :: "nat \<Rightarrow> Row list \<Rightarrow> int \<Rightarrow> int list" where
  "crash_chain 0 rows i = [i]"
| "crash_chain (Suc n) rows i =
     (case List.find (\<lambda>r. row_id r = i) rows of
        Some r \<Rightarrow>
          (case row_parent r of
             Some p \<Rightarrow> if crash_link r then i # crash_chain n rows p else [i]
           | None \<Rightarrow> [i])
      | None \<Rightarrow> [i])"

definition crash_children :: "Row list \<Rightarrow> int \<Rightarrow> int list" where
  "crash_children rows i = map row_id (filter (\<lambda>r. row_parent r = Some i \<and> crash_link r) rows)"

text \<open>The deepest level that has runs, and there the greatest id.\<close>

fun chain_levels :: "nat \<Rightarrow> Row list \<Rightarrow> int list \<Rightarrow> int list" where
  "chain_levels 0 rows level = level"
| "chain_levels (Suc n) rows level =
     (let below = concat (map (crash_children rows) level) in
      if below = [] then level else chain_levels n rows below)"

definition crash_chain_head :: "Row list \<Rightarrow> int \<Rightarrow> int" where
  "crash_chain_head rows i = Max (set (chain_levels 50 rows [i]))"

definition has_child_run :: "Row list \<Rightarrow> int \<Rightarrow> bool" where
  "has_child_run rows i \<longleftrightarrow> (\<exists>r \<in> set rows. row_parent r = Some i)"

definition crashed_without_rerun :: "Row list \<Rightarrow> micros \<Rightarrow> int list" where
  "crashed_without_rerun rows since = sort (map row_id (filter (\<lambda>r. col_state_type r = Some ''Crashed''
     \<and> (case col_state_timestamp r of Some t \<Rightarrow> since \<le> t | None \<Rightarrow> False) \<and> \<not> has_child_run rows (row_id r)) rows))"

section \<open>Other reads\<close>

definition column_name :: "Row \<Rightarrow> string" where
  "column_name r = (case col_state_name r of Some n \<Rightarrow> n | None \<Rightarrow> ''Scheduled'')"

definition column_type :: "Row \<Rightarrow> string" where
  "column_type r = (case col_state_type r of Some n \<Rightarrow> n | None \<Rightarrow> ''Scheduled'')"

definition newest_first :: "Row list \<Rightarrow> Row list" where
  "newest_first rows = rev (sort_key row_id rows)"

definition recent_run_states :: "Row list \<Rightarrow> int \<Rightarrow> nat \<Rightarrow> (int \<times> string) list" where
  "recent_run_states rows flow n =
     take n (map (\<lambda>r. (row_id r, column_type r)) (newest_first (filter (\<lambda>r. row_flow_id r = flow) rows)))"

definition backfill_rows :: "Row list \<Rightarrow> int \<Rightarrow> Row list" where
  "backfill_rows rows b = filter (\<lambda>r. row_backfill_id r = Some b) rows"

definition newest_backfill_run_state :: "Row list \<Rightarrow> int \<Rightarrow> string option" where
  "newest_backfill_run_state rows b =
     (case newest_first (backfill_rows rows b) of r # _ \<Rightarrow> Some (column_name r) | [] \<Rightarrow> None)"

definition backfill_counts :: "Row list \<Rightarrow> int \<Rightarrow> (string \<times> int) list" where
  "backfill_counts rows b =
     (let mine = backfill_rows rows b in
      map (\<lambda>n. (case n of Some t \<Rightarrow> t | None \<Rightarrow> ''Scheduled'', int (length (filter (\<lambda>r. col_state_name r = n) mine))))
        (remdups (map col_state_name mine)))"

definition valid_param_key :: "string \<Rightarrow> bool" where
  "valid_param_key key \<longleftrightarrow> key \<noteq> [] \<and> length key \<le> 64
     \<and> (\<forall>c \<in> set key. c \<in> set ''abcdefghijklmnopqrstuvwxyzABCDEFGHIJKLMNOPQRSTUVWXYZ0123456789_'')
     \<and> hd key \<notin> set ''0123456789''"

definition with_param :: "('c, 'r) senv \<Rightarrow> string \<Rightarrow> string \<Rightarrow> int \<Rightarrow> Row list \<Rightarrow> Row option" where
  "with_param env key v flow rows =
     List.find (\<lambda>r. row_flow_id r = flow \<and> se_param_text env (row_parameters r) key = Some v) (newest_first rows)"

definition latest_run_with_param :: "('c, 'r) senv \<Rightarrow> string \<Rightarrow> string \<Rightarrow> int \<Rightarrow> Row list \<Rightarrow> string + Row option" where
  "latest_run_with_param env key v flow rows =
     (if valid_param_key key then Inr (with_param env key v flow rows) else Inl ''invalid batch key'')"

definition latest_run_with_param_many ::
  "('c, 'r) senv \<Rightarrow> string \<Rightarrow> string \<Rightarrow> int list \<Rightarrow> Row list \<Rightarrow> string + (int \<times> Row option) list" where
  "latest_run_with_param_many env key v flows rows =
     (if valid_param_key key then Inr (map (\<lambda>f. (f, with_param env key v f rows)) (remdups flows)) else Inl ''invalid batch key'')"

definition get_flow_by_key :: "string \<Rightarrow> string \<Rightarrow> AppState \<Rightarrow> Flow option" where
  "get_flow_by_key project name s = List.find (\<lambda>f. fl_project f = project \<and> fl_name f = name) (sc_flows (ap_sched s))"

text \<open>\<^verbatim>\<open>LatestRunMark::is_complete\<close> and \<^verbatim>\<open>carries_skip\<close>, over the row they are read from.\<close>

definition reason_carries :: "jmap \<Rightarrow> bool" where
  "reason_carries details \<longleftrightarrow> Option.bind (jmap_get details ''reason'') as_str \<in> {Some ''user'', Some ''upstream''}"

definition mark_carries_skip :: "Row \<Rightarrow> bool" where
  "mark_carries_skip r \<longleftrightarrow> column_name r = ''Skipped'' \<and> reason_carries (col_state_details r)"

definition mark_is_complete :: "Row \<Rightarrow> bool" where
  "mark_is_complete r \<longleftrightarrow> column_type r = StateType_as_str Completed \<or> column_name r = ''Skipped''"

section \<open>The event of a state\<close>

definition run_event_name :: "State \<Rightarrow> EventName option" where
  "run_event_name st =
     (let n = st_name st; t = st_type st in
      if n = ''Late'' then Some RunLate
      else if n = ''Retrying'' then Some RunRetrying
      else if n = ''Skipped'' then Some RunSkipped
      else if t = Scheduled \<and> n = ''Resuming'' then Some RunResumed
      else if t = Paused then Some RunPaused
      else if n = ''AwaitingRetry'' \<or> n = ''AwaitingResource'' then None
      else case t of
             Scheduled \<Rightarrow> Some RunScheduled
           | Pending \<Rightarrow> Some RunPending
           | Running \<Rightarrow> Some RunRunning
           | Completed \<Rightarrow> Some RunCompleted
           | Failed \<Rightarrow> Some RunFailed
           | Crashed \<Rightarrow> Some RunCrashed
           | Cancelled \<Rightarrow> Some RunCancelled
           | _ \<Rightarrow> None)"

fun streak :: "int \<Rightarrow> (int \<times> string) list \<Rightarrow> int" where
  "streak run [] = 0"
| "streak run ((i, t) # rest) =
     (if run \<le> i then streak run rest
      else if t = ''Failed'' \<or> t = ''Crashed'' then 1 + streak run rest
      else if t = ''Completed'' \<or> t = ''Cancelled'' then 0
      else streak run rest)"

definition failure_streak_before :: "AppState \<Rightarrow> Run \<Rightarrow> int" where
  "failure_streak_before s run = streak (run_id run) (recent_run_states (app_rows s) (run_flow_id run) 50)"

section \<open>Recording an event\<close>

definition next_event_id :: "Event list \<Rightarrow> int" where
  "next_event_id es = (if es = [] then 1 else Max (set (map ev_id es)) + 1)"

definition event_resource_of ::
  "('c, 'r) senv \<Rightarrow> string \<Rightarrow> int option \<Rightarrow> int option \<Rightarrow> json \<Rightarrow> AppState \<Rightarrow> Resource \<times> Resource list \<times> json" where
  "event_resource_of env name run flow payload s =
     (let custom = (\<lparr> res_kind = ''custom'', res_id = [], res_name = name \<rparr>, [], payload) in
      case run of
        Some i \<Rightarrow>
          (case app_run env i s of
             None \<Rightarrow> custom
           | Some r \<Rightarrow>
               (\<lparr> res_kind = ''run'', res_id = run_external_id r, res_name = run_name r \<rparr>,
                \<lparr> res_kind = ''flow'', res_id = run_project r @ ''/'' @ run_flow_name r, res_name = run_flow_name r \<rparr>
                  # map (\<lambda>t. \<lparr> res_kind = ''tag'', res_id = t, res_name = t \<rparr>) (run_tags r),
                or_insert ''state'' (JStr (st_name (run_state r))) (or_insert ''project'' (JStr (run_project r)) payload)))
      | None \<Rightarrow>
          (case Option.bind flow (\<lambda>f. app_flow f s) of
             None \<Rightarrow> custom
           | Some f \<Rightarrow>
               (\<lparr> res_kind = ''flow'', res_id = fl_project f @ ''/'' @ fl_name f, res_name = fl_name f \<rparr>, [],
                or_insert ''project'' (JStr (fl_project f)) payload)))"

definition append_event :: "('c, 'r) senv \<Rightarrow> micros \<Rightarrow> string \<Rightarrow> int option \<Rightarrow> int option \<Rightarrow> json \<Rightarrow> AppState \<Rightarrow> Event \<times> AppState" where
  "append_event env now name run flow payload s =
     (case event_resource_of env name run flow payload s of
        (resource, related, payload) \<Rightarrow>
          (let flow' = (case (flow, run) of
                          (None, Some i) \<Rightarrow> map_option row_flow_id (get_row i (ap_sched s))
                        | _ \<Rightarrow> flow);
               i = next_event_id (ap_events s);
               e = \<lparr> ev_id = i, ev_seq = i, ev_external_id = new_id env (sd_db (sc_store (ap_sched s))), ev_name = name,
                     ev_occurred = now, ev_resource = resource, ev_related = related, ev_run_id = run, ev_flow_id = flow',
                     ev_payload = (case payload of JObj m \<Rightarrow> m | _ \<Rightarrow> []) \<rparr>
           in (e, s\<lparr> ap_events := ap_events s @ [e] \<rparr>)))"

definition resource_json :: "Resource \<Rightarrow> json" where
  "resource_json r = jobj [(''kind'', JStr (res_kind r)), (''id'', JStr (res_id r)), (''name'', JStr (res_name r))]"

definition event_json :: "Event \<Rightarrow> json" where
  "event_json e = jobj [(''id'', json_int (ev_id e)), (''seq'', json_int (ev_seq e)), (''external_id'', JStr (ev_external_id e)),
     (''name'', JStr (ev_name e)), (''occurred'', json_int (ev_occurred e)), (''resource'', resource_json (ev_resource e)),
     (''related'', JArr (map resource_json (ev_related e))), (''run_id'', json_opt json_int (ev_run_id e)),
     (''flow_id'', json_opt json_int (ev_flow_id e)), (''payload'', JObj (ev_payload e))]"

end
