(* ===== verification/Dispatch.thy ===== *)
theory Dispatch
  imports App_State
begin

text \<open>
  Admission of runs and what follows a transition (\<^verbatim>\<open>crates/server/src/dispatch.rs\<close>, \<^verbatim>\<open>transition_run\<close> of
  \<^verbatim>\<open>state.rs\<close>). A transition records an event, an event may
  answer a waiting run, an answered run is admitted, admission may end the run, and a completed
  run starts its dependents: the functions call each other without end in sight, on one stack. Each
  takes what it calls back into as an argument \<open>k\<close>, and \<open>knot\<close> ties them for a given depth of
  the stack; a call that needs more, or that locks the answer lock again while it
  holds it, does not return, which is the value \<open>Panic\<close>. Rules are evaluated from the list of recorded
  events; operations of the scheduler that are called here keep what they record in its
  list of calls.
\<close>

datatype TransitionResult = Accepted Run | RejectedAs string "State option" | StoreErr StoreError

record knot =
  k_transition :: "int \<Rightarrow> State \<Rightarrow> AppState \<Rightarrow> (TransitionResult \<times> AppState) outcome"
  k_on_event :: "Event \<Rightarrow> AppState \<Rightarrow> AppState outcome"

definition record_event ::
  "('c, 'r) senv \<Rightarrow> micros \<Rightarrow> knot \<Rightarrow> EventName \<Rightarrow> int option \<Rightarrow> int option \<Rightarrow> json \<Rightarrow> AppState \<Rightarrow> AppState outcome" where
  "record_event env now k name run flow payload s =
     (case append_event env now (EventName_as_str name) run flow payload s of
        (e, s) \<Rightarrow> k_on_event k e (on_sched (emit (RecordEvent name run flow)) s))"

definition state_type_json :: "StateType \<Rightarrow> json" where
  "state_type_json t = JStr (StateType_as_str t)"

definition run_event_payload :: "EventName \<Rightarrow> Run \<Rightarrow> AppState \<Rightarrow> json" where
  "run_event_payload name run s =
     (let st = run_state run;
          base = [(''state'', JStr (st_name st)), (''state_type'', state_type_json (st_type st)),
                  (''message'', json_opt JStr (st_message st)), (''flow'', JStr (run_flow_name run)),
                  (''project'', JStr (run_project run)), (''parameters'', JObj (run_parameters run)),
                  (''created_by'', JStr (run_created_by run))];
          reason = (if name = RunSkipped
                    then case jmap_get (st_details st) ''reason'' of Some r \<Rightarrow> [(''reason'', r)] | None \<Rightarrow> []
                    else []);
          streak = (if name = RunFailed \<or> name = RunCrashed
                    then [(''failures_in_a_row'', json_int (1 + failure_streak_before s run))] else [])
      in jobj (base @ reason @ streak))"

definition emit_run_event :: "('c, 'r) senv \<Rightarrow> micros \<Rightarrow> knot \<Rightarrow> Run \<Rightarrow> AppState \<Rightarrow> AppState outcome" where
  "emit_run_event env now k run s =
     (case run_event_name (run_state run) of
        None \<Rightarrow> Value s
      | Some name \<Rightarrow>
          obind (record_event env now k name (Some (run_id run)) (Some (run_flow_id run)) (run_event_payload name run s) s) (\<lambda>s.
            let ended = failure_streak_before s run in
            if name = RunCompleted \<and> 0 < ended
            then record_event env now k FlowRecovered (Some (run_id run)) (Some (run_flow_id run))
                   (jobj [(''flow'', JStr (run_flow_name run)), (''project'', JStr (run_project run)),
                          (''failures'', json_int ended), (''run_id'', json_int (run_id run))]) s
            else Value s))"

section \<open>Admission\<close>

definition flow_cap_resource :: "Flow \<Rightarrow> string" where
  "flow_cap_resource flow = ''flow:'' @ fl_project flow @ ''/'' @ fl_name flow"

definition backfill_resource :: "int \<Rightarrow> string" where
  "backfill_resource b = ''backfill:'' @ show_int b"

definition add_tag_need :: "Resources \<Rightarrow> string \<Rightarrow> need list \<Rightarrow> need list" where
  "add_tag_need r tag needs =
     (let name = ''tag:'' @ tag in
      if is_declared r name \<and> name \<notin> fst ` set needs then needs @ [(name, Fin 1)] else needs)"

definition run_needs :: "('c, 'r) senv \<Rightarrow> Flow \<Rightarrow> FlowOptions \<Rightarrow> Run \<Rightarrow> AppState \<Rightarrow> need list" where
  "run_needs env flow options run s =
     (let needs = map (\<lambda>(name, amount). (render_template (to_json env) name (run_parameters run), amount))
                    (resource_amounts (fo_resources options));
          needs = fold (add_tag_need (sv_resources (ap_sup s))) (run_tags run) needs;
          needs = (case fo_max_concurrent options of
                     Some cap \<Rightarrow> if 0 < cap then needs @ [(flow_cap_resource flow, Fin 1)] else needs
                   | None \<Rightarrow> needs)
      in case run_backfill_id run of Some b \<Rightarrow> needs @ [(backfill_resource b, Fin 1)] | None \<Rightarrow> needs)"

definition effective_priority :: "Flow \<Rightarrow> Run \<Rightarrow> AppState \<Rightarrow> int" where
  "effective_priority flow run s =
     (case map_of (ap_graph s) (fl_id flow) of
        Some d \<Rightarrow> max (run_priority run) (dp_max_priority d)
      | None \<Rightarrow> run_priority run)"

definition STICKY_MICROS :: int where
  "STICKY_MICROS = 10000000"

definition set_total :: "string \<Rightarrow> f64 \<Rightarrow> AppState \<Rightarrow> AppState" where
  "set_total name amt = on_sup (\<lambda>p. p\<lparr> sv_resources := insert_total name amt (sv_resources p) \<rparr>)"

definition sup_dequeue :: "int \<Rightarrow> AppState \<Rightarrow> AppState" where
  "sup_dequeue i = on_sup (\<lambda>p. snd (dequeue i p))"

definition sup_finished :: "int \<Rightarrow> AppState \<Rightarrow> AppState" where
  "sup_finished i = on_sup (run_finished i)"

text \<open>Ends the new run as Skipped and says why in a second event.\<close>

definition skip_new :: "('c, 'r) senv \<Rightarrow> micros \<Rightarrow> knot \<Rightarrow> string \<Rightarrow> jmap \<Rightarrow> string \<Rightarrow> Run \<Rightarrow> Flow \<Rightarrow> AppState \<Rightarrow> AppState outcome" where
  "skip_new env now k message details reason run flow s =
     obind (k_transition k (run_id run) ((State_named now Skipped)\<lparr> st_message := Some message, st_details := details \<rparr>) s) (\<lambda>(_, s).
       record_event env now k RunSkipped (Some (run_id run)) (Some (fl_id flow)) (jobj [(''reason'', JStr reason)]) s)"

definition supersede_one :: "micros \<Rightarrow> knot \<Rightarrow> Flow \<Rightarrow> Run \<Rightarrow> ActiveRun \<Rightarrow> AppState \<Rightarrow> AppState outcome" where
  "supersede_one now k flow run other s =
     (let message = ''superseded by run '' @ show_int (run_id run); i = ar_id other in
      if ar_flow_id other \<noteq> fl_id flow \<or> i = run_id run \<or> is_terminal (ar_state other) then Value s
      else if st_type (ar_state other) = Running \<or> ar_engine_pid other \<noteq> None then
        obind (k_transition k i (with_message message (State_new now Cancelling)) s) (\<lambda>(_, s).
          Value (on_sched (\<lambda>d. d\<lparr> sc_index := snd (update_active i (\<lambda>a. a\<lparr> ar_cancel_requested := True,
            ar_cancelling_since := (case ar_cancelling_since a of None \<Rightarrow> Some now | t \<Rightarrow> t) \<rparr>) (sc_index d)) \<rparr>) s))
      else
        let s = on_sched (\<lambda>d. d\<lparr> sc_timer := remove_run_events i (sc_timer d) \<rparr>) (sup_dequeue i s) in
        obind (k_transition k i (with_message message (State_new now Cancelled)) s) (\<lambda>(_, s). Value s))"

definition supersede :: "micros \<Rightarrow> knot \<Rightarrow> Flow \<Rightarrow> Run \<Rightarrow> AppState \<Rightarrow> AppState outcome" where
  "supersede now k flow run s = ofold (supersede_one now k flow run) (active_runs (sc_index (ap_sched s))) s"

definition buffered :: "Flow \<Rightarrow> Run \<Rightarrow> ActiveRun \<Rightarrow> bool" where
  "buffered flow run r \<longleftrightarrow> ar_flow_id r = fl_id flow \<and> ar_id r \<noteq> run_id run \<and> st_type (ar_state r) \<noteq> Running
     \<and> ar_engine_pid r = None \<and> \<not> is_terminal (ar_state r)"

text \<open>The overlap policy of a flow at its concurrency cap: whether the run is still to be queued.\<close>

definition apply_overlap ::
  "('c, 'r) senv \<Rightarrow> micros \<Rightarrow> knot \<Rightarrow> FlowOptions \<Rightarrow> Run \<Rightarrow> Flow \<Rightarrow> AppState \<Rightarrow> (bool \<times> AppState) outcome" where
  "apply_overlap env now k options run flow s =
     (let policy = fo_on_overlap options in
      if policy = ''skip'' then
        obind (skip_new env now k ''previous run still active'' [] ''previous run still active'' run flow s) (\<lambda>s. Value (False, s))
      else if policy = ''cancel_new'' then
        obind (k_transition k (run_id run) (with_message ''previous run still active'' (State_new now Cancelled)) s)
          (\<lambda>(_, s). Value (False, s))
      else if policy = ''cancel_old'' then obind (supersede now k flow run s) (\<lambda>s. Value (True, s))
      else if policy = ''buffer_one'' then
        (if \<exists>r \<in> set (active_runs (sc_index (ap_sched s))). buffered flow run r
         then obind (skip_new env now k ''a run is already queued'' [(''reason'', JStr ''buffered'')] ''buffered'' run flow s)
                (\<lambda>s. Value (False, s))
         else Value (True, s))
      else Value (True, s))"

definition check_overlap ::
  "('c, 'r) senv \<Rightarrow> micros \<Rightarrow> knot \<Rightarrow> FlowOptions \<Rightarrow> Run \<Rightarrow> Flow \<Rightarrow> AppState \<Rightarrow> (bool \<times> AppState) outcome" where
  "check_overlap env now k options run flow s =
     (case fo_max_concurrent options of
        None \<Rightarrow> Value (True, s)
      | Some cap \<Rightarrow>
          if cap \<le> 0 then Value (True, s)
          else let name = flow_cap_resource flow;
                   s = set_total name (f64_of_int cap) s
               in if Resources.available (sv_resources (ap_sup s)) name (Fin 1) then Value (True, s)
                  else apply_overlap env now k options run flow s)"

definition previous_host :: "('c, 'r) senv \<Rightarrow> Run \<Rightarrow> AppState \<Rightarrow> string option" where
  "previous_host env run s =
     (case run_host run of
        Some h \<Rightarrow> Some h
      | None \<Rightarrow> Option.bind (Option.bind (run_parent_run_id run) (\<lambda>p. app_run env p s)) run_host)"

definition prefer_worker :: "('c, 'r) senv \<Rightarrow> FlowOptions \<Rightarrow> Run \<Rightarrow> AppState \<Rightarrow> int option" where
  "prefer_worker env options run s =
     (case previous_host env run s of
        None \<Rightarrow> None
      | Some h \<Rightarrow> if h = ''server'' \<or> \<not> may_run_remotely options then None else worker_id h (ap_sup s))"

definition queue_item :: "('c, 'r) senv \<Rightarrow> micros \<Rightarrow> FlowOptions \<Rightarrow> Run \<Rightarrow> Flow \<Rightarrow> micros option \<Rightarrow> AppState \<Rightarrow> QueuedRun" where
  "queue_item env now options run flow nb s =
     (let priority = effective_priority flow run s in
      \<lparr> qr_run_id = run_id run, qr_key = (EngineKey_from_flow flow)\<lparr> ek_nice := nice_for priority \<rparr>, qr_priority = priority,
        qr_order = (case run_scheduled_time run of Some t \<Rightarrow> t | None \<Rightarrow> run_created_at run),
        qr_needs = run_needs env flow options run s, qr_not_before = nb, qr_flow_id = fl_id flow,
        qr_remote_ok = may_run_remotely options, qr_prefer_worker = prefer_worker env options run s,
        qr_prefer_until = now + STICKY_MICROS \<rparr>)"

definition set_run_priority :: "int \<Rightarrow> int \<Rightarrow> AppState \<Rightarrow> AppState" where
  "set_run_priority i p s = set_app_rows (map (\<lambda>r. if row_id r = i then r\<lparr> row_priority := p \<rparr> else r) (app_rows s)) s"

text \<open>What admission does once the overlap policy lets the run through.\<close>

definition queue_run :: "('c, 'r) senv \<Rightarrow> micros \<Rightarrow> FlowOptions \<Rightarrow> Run \<Rightarrow> Flow \<Rightarrow> micros option \<Rightarrow> AppState \<Rightarrow> AppState" where
  "queue_run env now options run flow nb s =
     (let s = (case run_backfill_id run of
                 Some b \<Rightarrow> (case map_of (ap_backfills s) b of
                              Some c \<Rightarrow> set_total (backfill_resource b) (f64_of_int (max c 1)) s
                            | None \<Rightarrow> s)
               | None \<Rightarrow> s);
          s = (case (run_schedule_id run, fo_start_deadline options) of
                 (None, Some d) \<Rightarrow>
                   if f64_lt (Fin 0) d then timer_push (run_created_at run + secs_to_micros d) (StartDeadline (run_id run)) s else s
               | _ \<Rightarrow> s);
          priority = effective_priority flow run s;
          s = (if priority \<noteq> run_priority run then set_run_priority (run_id run) priority s else s)
      in ensure env now (on_sup (enqueue (queue_item env now options run flow nb s)) s))"

definition enqueue_run :: "('c, 'r) senv \<Rightarrow> micros \<Rightarrow> knot \<Rightarrow> Run \<Rightarrow> Flow \<Rightarrow> micros option \<Rightarrow> AppState \<Rightarrow> AppState outcome" where
  "enqueue_run env now k run flow nb s =
     (if is_terminal (run_state run) then Value s
      else let options = options_of env flow in
           obind (check_overlap env now k options run flow s) (\<lambda>(go, s).
             Value (if go then queue_run env now options run flow nb s else s)))"

section \<open>Runs of a flow after another\<close>

definition render_parameter :: "string \<Rightarrow> Run \<Rightarrow> json" where
  "render_parameter template run =
     (case Option.bind (strip_prefix (trim template) ''{{'') (\<lambda>t. strip_suffix t ''}}'') of
        None \<Rightarrow> JStr template
      | Some inner \<Rightarrow>
          (let path = trim inner in
           case strip_prefix path ''run.parameters.'' of
             Some key \<Rightarrow> (case jmap_get (run_parameters run) key of Some v \<Rightarrow> v | None \<Rightarrow> JNull)
           | None \<Rightarrow>
               if path = ''run.id'' then json_int (run_id run)
               else if path = ''run.name'' then JStr (run_name run)
               else if path = ''run.external_id'' then JStr (run_external_id run)
               else JStr template))"

definition carries_skip :: "Run \<Rightarrow> bool" where
  "carries_skip run \<longleftrightarrow> st_name (run_state run) = ''Skipped'' \<and> reason_carries (st_details (run_state run))"

definition MAX_SKIP_DEPTH :: nat where
  "MAX_SKIP_DEPTH = 32"

definition value_text :: "('c, 'r) senv \<Rightarrow> json \<Rightarrow> string" where
  "value_text env v = (case v of JStr t \<Rightarrow> t | _ \<Rightarrow> to_json env v)"

text \<open>
  Keyed fan-in: \<open>None\<close> when the dependent is not to be started yet, else whether an upstream
  run carries a skip, and the event to record. Without a key there is nothing to wait for.
\<close>

definition fan_in :: "('c, 'r) senv \<Rightarrow> AfterSpec \<Rightarrow> Flow \<Rightarrow> Run \<Rightarrow> AppState \<Rightarrow> (bool \<times> (string \<times> json) list option) option" where
  "fan_in env spec downstream run s =
     (case as_key spec of
        None \<Rightarrow> Some (False, None)
      | Some key \<Rightarrow>
         (case jmap_get (run_parameters run) key of
            None \<Rightarrow> None
          | Some v \<Rightarrow>
             (let t = value_text env v;
                  ups = map (\<lambda>n. get_flow_by_key (fl_project downstream) n s) (upstreams spec);
                  ids = map fl_id (List.map_filter id ups)
              in if None \<in> set ups then None
                 else case latest_run_with_param_many env key t ids (app_rows s) of
                   Inl _ \<Rightarrow> None
                 | Inr latest \<Rightarrow>
                    (let marks = map (\<lambda>f. Option.bind (map_of latest f) id) ids;
                         rs = List.map_filter id marks
                     in if None \<in> set marks \<or> (\<exists>r \<in> set rs. \<not> mark_is_complete r) then None
                        else case latest_run_with_param env key t (fl_id downstream) (app_rows s) of
                          Inr (Some _) \<Rightarrow> None
                        | _ \<Rightarrow> Some (\<exists>r \<in> set rs. mark_carries_skip r,
                                 Some [(''key'', JStr key), (''value'', v), (''upstream_runs'', JArr (map (json_int \<circ> row_id) rs)),
                                       (''flow'', JStr (fl_name downstream)), (''project'', JStr (fl_project downstream))])))))"

definition schema_properties :: "Flow \<Rightarrow> jmap" where
  "schema_properties flow =
     (case Option.bind (value_get (fl_parameter_schema flow) ''properties'') jobject of Some props \<Rightarrow> props | None \<Rightarrow> [])"

definition downstream_parameters :: "AfterSpec \<Rightarrow> Flow \<Rightarrow> Run \<Rightarrow> jmap" where
  "downstream_parameters spec downstream run =
     (let props = schema_properties downstream;
          params = fold (\<lambda>(n, _) m. case jmap_get (run_parameters run) n of Some v \<Rightarrow> jmap_insert n v m | None \<Rightarrow> m) props [];
          params = fold (\<lambda>(n, template) m. jmap_insert n
                      (case template of JStr t \<Rightarrow> render_parameter t run | _ \<Rightarrow> template) m) (as_parameters spec) params
      in fold (\<lambda>(n, prop) m. if jmap_get m n \<noteq> None then m
                else case value_get prop ''default'' of Some d \<Rightarrow> jmap_insert n d m | None \<Rightarrow> m) props params)"

definition dash_separators :: "string \<Rightarrow> string" where
  "dash_separators = map (\<lambda>c. if c \<in> set '': /'' then CHR ''-'' else c)"

definition downstream_name :: "('c, 'r) senv \<Rightarrow> AfterSpec \<Rightarrow> Flow \<Rightarrow> Run \<Rightarrow> (string \<times> json) list option \<Rightarrow> string" where
  "downstream_name env spec downstream run event =
     (case (as_key spec, event) of
        (Some key, Some ev) \<Rightarrow> fl_name downstream @ ''-'' @ key @ ''-'' @
          dash_separators (case map_of ev ''value'' of Some v \<Rightarrow> value_text env v | None \<Rightarrow> [])
      | _ \<Rightarrow> fl_name downstream @ ''-after-'' @ run_name run)"

definition upstream_skipped :: "micros \<Rightarrow> Run \<Rightarrow> State" where
  "upstream_skipped now run = (let st = State_named now Skipped in
     st\<lparr> st_message := Some (''upstream run '' @ run_name run @ '' was skipped''),
         st_details := jmap_insert ''upstream_run'' (json_int (run_id run)) (jmap_insert ''reason'' (JStr ''upstream'') (st_details st)) \<rparr>)"

text \<open>\<^verbatim>\<open>debounce_holder\<close>: the waiting run that holds the key is moved to the debounce's end.\<close>

definition debounce_holder :: "('c, 'r) senv \<Rightarrow> micros \<Rightarrow> Run \<Rightarrow> jmap \<Rightarrow> UniqueSpec \<Rightarrow> AppState \<Rightarrow> AppState" where
  "debounce_holder env now holder params spec s =
     (if st_type (run_state holder) \<noteq> Scheduled \<or> run_engine_pid holder \<noteq> None then s
      else case debounce_start now spec of
        None \<Rightarrow> s
      | Some t \<Rightarrow>
         (let t = (case us_max_wait spec of
                     Some w \<Rightarrow> if f64_lt (Fin 0) w then min t (run_created_at holder + secs_to_micros w) else t
                   | None \<Rightarrow> t)
          in case reschedule_run (run_id holder) t (to_json env (JObj params)) (sc_store (ap_sched s)) of
               Inr (True, d) \<Rightarrow>
                 on_sched (\<lambda>x. emit (PublishRun (run_id holder)) (arm_run now (run_id holder) t False (with_store d x))) s
             | Inr (False, d) \<Rightarrow> on_sched (with_store d) s
             | Inl _ \<Rightarrow> s))"

definition downstream_unique :: "('c, 'r) senv \<Rightarrow> micros \<Rightarrow> Flow \<Rightarrow> FlowOptions \<Rightarrow> jmap \<Rightarrow> Run \<Rightarrow> UniqueCheck outcome" where
  "downstream_unique env now downstream opts params run =
     obind (unique_check_for (to_json env) now (fl_id downstream) (fo_unique opts) params None) (\<lambda>u.
       case u of
         Some ucheck \<Rightarrow> Value ucheck
       | None \<Rightarrow> obind (unique_key (fl_id downstream) (''dep:'' @ show_int (run_id run)) None 0) (\<lambda>key.
                   Value \<lparr> uc_key = key, uc_states = [], uc_since = None \<rparr>))"

definition downstream_request ::
  "('c, 'r) senv \<Rightarrow> micros \<Rightarrow> Flow \<Rightarrow> FlowOptions \<Rightarrow> string \<Rightarrow> jmap \<Rightarrow> bool \<Rightarrow> UniqueCheck \<Rightarrow> Run \<Rightarrow> CreateRun" where
  "downstream_request env now downstream opts name params skip ucheck run =
     \<lparr> cr_flow_id = fl_id downstream, cr_name = name, cr_parameters = to_json env (JObj params),
       cr_tags = to_json env (JArr (map JStr (fl_tags downstream))), cr_created_by = ''run:'' @ show_int (run_id run),
       cr_initial_state = Some (if skip then upstream_skipped now run else State_new now Scheduled),
       cr_schedule_id = None, cr_scheduled_time = None, cr_priority = fo_priority opts, cr_parent = None, cr_attempt = 0,
       cr_backfill_id = None, cr_unique = Some ucheck \<rparr>"

text \<open>A run that was just created enters the index and records its first event.\<close>

definition run_created :: "('c, 'r) senv \<Rightarrow> micros \<Rightarrow> knot \<Rightarrow> Flow \<Rightarrow> Run \<Rightarrow> AppState \<Rightarrow> AppState outcome" where
  "run_created env now k flow run s =
     emit_run_event env now k run
       (on_sched (\<lambda>d. emit (PublishRun (run_id run))
          (d\<lparr> sc_index := index_insert now run (EngineKey_from_flow flow) False (sc_index d) \<rparr>)) s)"

definition store_created :: "('c, 'r) senv \<Rightarrow> micros \<Rightarrow> CreateRun \<Rightarrow> AppState \<Rightarrow> StoreError + int \<times> AppState" where
  "store_created env now req s =
     (let d = sc_store (ap_sched s) in
      case create_run (new_id env (sd_db d)) now req (sd_db d) of
        Inl e \<Rightarrow> Inl e
      | Inr (i, db) \<Rightarrow> Inr (i, on_sched (with_store (d\<lparr> sd_db := db \<rparr>)) s))"

text \<open>The new run of a dependent: its events, then admission, or the next level when it was skipped.\<close>

definition launch_downstream ::
  "('c, 'r) senv \<Rightarrow> micros \<Rightarrow> knot \<Rightarrow> (Flow \<Rightarrow> Run \<Rightarrow> AppState \<Rightarrow> AppState outcome) \<Rightarrow> Flow \<Rightarrow> bool
   \<Rightarrow> (string \<times> json) list option \<Rightarrow> int \<Rightarrow> AppState \<Rightarrow> AppState outcome" where
  "launch_downstream env now k deeper downstream skip event i s =
     (case app_run env i s of
        None \<Rightarrow> Value s
      | Some new_run \<Rightarrow>
          obind (run_created env now k downstream new_run s) (\<lambda>s.
            obind (case event of
                     None \<Rightarrow> Value s
                   | Some ev \<Rightarrow> record_event env now k FlowFanIn (Some i) (Some (fl_id downstream))
                                  (jobj (ev @ [(''run_id'', json_int i)])) s) (\<lambda>s.
              if skip then deeper downstream new_run s else enqueue_run env now k new_run downstream None s)))"

definition start_downstream ::
  "('c, 'r) senv \<Rightarrow> micros \<Rightarrow> knot \<Rightarrow> (Flow \<Rightarrow> Run \<Rightarrow> AppState \<Rightarrow> AppState outcome) \<Rightarrow> AfterSpec \<Rightarrow> FlowOptions
   \<Rightarrow> Flow \<Rightarrow> Run \<Rightarrow> bool \<times> (string \<times> json) list option \<Rightarrow> AppState \<Rightarrow> AppState outcome" where
  "start_downstream env now k deeper spec opts downstream run joined s =
     (let skip = (carries_skip run \<or> fst joined);
          params = downstream_parameters spec downstream run;
          name = downstream_name env spec downstream run (snd joined)
      in obind (downstream_unique env now downstream opts params run) (\<lambda>ucheck.
           case store_created env now (downstream_request env now downstream opts name params skip ucheck run) s of
             Inl (UniqueConflict existing) \<Rightarrow>
               Value (case (fo_unique opts, app_run env existing s) of
                        (Some uspec, Some holder) \<Rightarrow>
                          if us_on_conflict uspec = ''debounce'' then debounce_holder env now holder params uspec s else s
                      | _ \<Rightarrow> s)
           | Inl _ \<Rightarrow> Value s
           | Inr (i, s) \<Rightarrow> launch_downstream env now k deeper downstream skip (snd joined) i s))"

definition trigger_one ::
  "('c, 'r) senv \<Rightarrow> micros \<Rightarrow> knot \<Rightarrow> (Flow \<Rightarrow> Run \<Rightarrow> AppState \<Rightarrow> AppState outcome) \<Rightarrow> Flow \<Rightarrow> Run \<Rightarrow> int \<Rightarrow> AppState \<Rightarrow> AppState outcome" where
  "trigger_one env now k deeper upstream run i s =
     (case app_flow i s of
        None \<Rightarrow> Value s
      | Some downstream \<Rightarrow>
         (let opts = options_of env downstream in
          case fo_after opts of
            None \<Rightarrow> Value s
          | Some spec \<Rightarrow>
             if \<not> depends_on spec (fl_name upstream) \<or> fl_error downstream \<noteq> None then Value s
             else case fan_in env spec downstream run s of
                    None \<Rightarrow> Value s
                  | Some joined \<Rightarrow> start_downstream env now k deeper spec opts downstream run joined s))"

definition dependent_ids :: "Flow \<Rightarrow> AppState \<Rightarrow> int list" where
  "dependent_ids upstream s = (case map_of (ap_graph s) (fl_id upstream) of Some d \<Rightarrow> dp_ids d | None \<Rightarrow> [])"

text \<open>The argument is how many more levels a skip may be carried down.\<close>

fun trigger_dependents_at :: "('c, 'r) senv \<Rightarrow> micros \<Rightarrow> knot \<Rightarrow> nat \<Rightarrow> Flow \<Rightarrow> Run \<Rightarrow> AppState \<Rightarrow> AppState outcome" where
  "trigger_dependents_at env now k 0 upstream run s =
     ofold (trigger_one env now k (\<lambda>_ _ s. Value s) upstream run) (dependent_ids upstream s) s"
| "trigger_dependents_at env now k (Suc n) upstream run s =
     ofold (trigger_one env now k (trigger_dependents_at env now k n) upstream run) (dependent_ids upstream s) s"

definition trigger_dependents :: "('c, 'r) senv \<Rightarrow> micros \<Rightarrow> knot \<Rightarrow> Flow \<Rightarrow> Run \<Rightarrow> AppState \<Rightarrow> AppState outcome" where
  "trigger_dependents env now k = trigger_dependents_at env now k MAX_SKIP_DEPTH"

section \<open>After a transition\<close>

definition name_is_terminal :: "string \<Rightarrow> bool" where
  "name_is_terminal name =
     (case StateType_parse name of
        Some t \<Rightarrow> type_is_terminal t
      | None \<Rightarrow> name \<in> {''Cached'', ''Replayed'', ''Recovered'', ''Skipped'', ''TimedOut''})"

definition backfill_marker :: "int \<Rightarrow> string" where
  "backfill_marker b = ''backfill.completed:'' @ show_int b"

definition backfill_pending :: "(string \<times> int) list \<Rightarrow> int" where
  "backfill_pending counts = sum_list (map snd (filter (\<lambda>(n, _). \<not> name_is_terminal n) counts))"

definition backfill_completed :: "('c, 'r) senv \<Rightarrow> micros \<Rightarrow> knot \<Rightarrow> int \<Rightarrow> int \<Rightarrow> AppState \<Rightarrow> AppState outcome" where
  "backfill_completed env now k b flow s =
     (case newest_backfill_run_state (app_rows s) b of
        None \<Rightarrow> Value s
      | Some newest \<Rightarrow>
         (let counts = backfill_counts (app_rows s) b in
          if \<not> name_is_terminal newest \<or> 0 < backfill_pending counts \<or> counts = [] then Value s
          else if b \<in> set (ap_emitted s) \<or> map_of (ap_kv s) (backfill_marker b) \<noteq> None then Value s
          else record_event env now k BackfillCompleted None (Some flow)
                 (jobj [(''backfill_id'', json_int b), (''counts'', jobj (map (\<lambda>(n, c). (n, json_int c)) counts))])
                 (s\<lparr> ap_emitted := b # ap_emitted s, ap_kv := AList.update (backfill_marker b) (json_int 1) (ap_kv s) \<rparr>)))"

text \<open>An operation of the scheduler, whose dequeues reach the supervisor.\<close>

definition dequeued :: "SchedCall list \<Rightarrow> int list" where
  "dequeued calls = List.map_filter (\<lambda>c. case c of SchedCall.Dequeue i \<Rightarrow> Some i | _ \<Rightarrow> None) calls"

definition with_sched :: "Sched \<Rightarrow> AppState \<Rightarrow> AppState" where
  "with_sched d s =
     fold sup_dequeue (dequeued (drop (length (sc_calls (ap_sched s))) (sc_calls d))) (s\<lparr> ap_sched := d \<rparr>)"

definition disable_window :: "('c, 'r) senv \<Rightarrow> micros \<Rightarrow> knot \<Rightarrow> Flow \<Rightarrow> FlowOptions \<Rightarrow> Run \<Rightarrow> AppState \<Rightarrow> AppState outcome" where
  "disable_window env now k flow options run s =
     (case fo_disable_after options of
        None \<Rightarrow> Value s
      | Some (n, window, persist) \<Rightarrow>
         if n \<le> 0 then Value s
         else case record_failure (fl_id flow) now (case window of None \<Rightarrow> i64_max | Some w \<Rightarrow> max w 1 * 1000000) (ap_sup s) of
           (failures, p) \<Rightarrow>
             (let s = s\<lparr> ap_sup := p \<rparr>;
                  until = now + max persist 1 * 1000000;
                  rows = filter sr_active (for_flow (fl_id flow) (ap_sched s))
              in if int failures < n \<or> rows = [] then Value s
                 else let s = fold (\<lambda>row s. with_sched (Scheduler.pause now (sr_id row) (Some ''disabled'') (Some until) (ap_sched s)) s) rows s;
                          s = timer_push until (ResumeFlow (fl_id flow)) s
                      in obind (record_event env now k FlowDisabled (Some (run_id run)) (Some (fl_id flow))
                             (jobj [(''failures'', json_int (int failures)), (''window_seconds'', json_opt json_int window),
                                    (''until'', json_int until)]) s) (\<lambda>s.
                           Value (on_sup (clear_failures (fl_id flow)) s))))"

text \<open>A paused run arms its wake time, and leaves looking for its answer to another thread.\<close>

definition arm_wait :: "micros \<Rightarrow> Run \<Rightarrow> AppState \<Rightarrow> AppState" where
  "arm_wait now run s =
     (if st_type (run_state run) \<noteq> Paused then s
      else case Option.bind (jmap_get (st_details (run_state run)) ''wake_at'') as_i64 of
             Some t \<Rightarrow> timer_push (max t now) (WakeRun (run_id run)) s
           | None \<Rightarrow> s)"

definition spawn :: "Spawned \<Rightarrow> AppState \<Rightarrow> AppState" where
  "spawn task s = s\<lparr> ap_spawned := ap_spawned s @ [task] \<rparr>"

definition deliver_queued :: "Run \<Rightarrow> AppState \<Rightarrow> AppState" where
  "deliver_queued run s =
     (if st_type (run_state run) \<noteq> Paused \<or> jmap_get (st_details (run_state run)) ''topic'' = None then s
      else spawn (DeliverQueued run) s)"

definition deliver_recorded_event :: "Run \<Rightarrow> State option \<Rightarrow> AppState \<Rightarrow> AppState" where
  "deliver_recorded_event run previous s =
     (if st_type (run_state run) \<noteq> Paused \<or> st_name (run_state run) \<noteq> ''AwaitingEvent'' then s
      else case Option.bind (jmap_get (st_details (run_state run)) ''event'') as_str of
             None \<Rightarrow> s
           | Some pattern \<Rightarrow>
               spawn (DeliverRecorded run pattern
                 (case previous of Some p \<Rightarrow> st_timestamp p | None \<Rightarrow> st_timestamp (run_state run))) s)"

definition react :: "('c, 'r) senv \<Rightarrow> micros \<Rightarrow> knot \<Rightarrow> Flow \<Rightarrow> FlowOptions \<Rightarrow> Run \<Rightarrow> State option \<Rightarrow> AppState \<Rightarrow> AppState outcome" where
  "react env now k flow options run previous s =
     (case st_type (run_state run) of
        Running \<Rightarrow>
          Value (if map_option st_type previous = Some Running then s
                 else case fo_timeout_seconds options of
                        Some t \<Rightarrow> if f64_lt (Fin 0) t then timer_push (now + secs_to_micros t) (FlowTimeout (run_id run)) s else s
                      | None \<Rightarrow> s)
      | Failed \<Rightarrow> disable_window env now k flow options run s
      | Completed \<Rightarrow>
          trigger_dependents env now k flow run
            (case fo_disable_after options of Some (_, None, _) \<Rightarrow> on_sup (clear_failures (fl_id flow)) s | _ \<Rightarrow> s)
      | Paused \<Rightarrow> Value (deliver_recorded_event run previous (deliver_queued run (arm_wait now run s)))
      | _ \<Rightarrow> Value s)"

definition continue_loop :: "('c, 'r) senv \<Rightarrow> micros \<Rightarrow> Run \<Rightarrow> AppState \<Rightarrow> AppState outcome" where
  "continue_loop env now run s =
     (if st_type (run_state run) \<in> {Completed, Failed, Cancelled} then
        case run_schedule_id run of
          None \<Rightarrow> Value s
        | Some sid \<Rightarrow>
           (case sched_get sid (ap_sched s) of
              Some row \<Rightarrow>
                if sr_active row \<and> is_continuous (sr_schedule row)
                then obind (materialize (env_of env) now sid (ap_sched s)) (\<lambda>d. Value (with_sched d s))
                else Value s
            | None \<Rightarrow> Value s)
      else Value s)"

definition after_transition :: "('c, 'r) senv \<Rightarrow> micros \<Rightarrow> knot \<Rightarrow> Run \<Rightarrow> State option \<Rightarrow> AppState \<Rightarrow> AppState outcome" where
  "after_transition env now k run previous s =
     (case app_flow (run_flow_id run) s of
        None \<Rightarrow> Value s
      | Some flow \<Rightarrow>
          obind (react env now k flow (options_of env flow) run previous s) (\<lambda>s.
            obind (continue_loop env now run s) (\<lambda>s.
              case run_backfill_id run of
                Some b \<Rightarrow> if is_terminal (run_state run) then backfill_completed env now k b (run_flow_id run) s else Value s
              | None \<Rightarrow> Value s)))"

section \<open>A transition\<close>

definition run_input_key :: "int \<Rightarrow> string" where
  "run_input_key i = ''run.input:'' @ show_int i"

definition forget_answers :: "int \<Rightarrow> AppState \<Rightarrow> AppState" where
  "forget_answers i s =
     s\<lparr> ap_kv := fold (\<lambda>j. AList.delete (run_input_key j)) (crash_chain 50 (app_rows s) i) (ap_kv s) \<rparr>"

definition accepted_run :: "State \<Rightarrow> Run \<Rightarrow> Run" where
  "accepted_run new previous =
     (let c = RunCounters_apply new \<lparr> failure_count = run_failure_count previous, crash_count = run_crash_count previous,
                start_time = run_start_time previous, end_time = run_end_time previous, total_run_time = run_total_run_time previous \<rparr>
      in previous\<lparr> run_state := new, run_failure_count := failure_count c, run_crash_count := crash_count c,
           run_start_time := start_time c, run_end_time := end_time c, run_total_run_time := total_run_time c \<rparr>)"

definition transition_step :: "('c, 'r) senv \<Rightarrow> micros \<Rightarrow> knot \<Rightarrow> int \<Rightarrow> State \<Rightarrow> AppState \<Rightarrow> (TransitionResult \<times> AppState) outcome" where
  "transition_step env now k i st s =
     (case app_run env i s of
        None \<Rightarrow> Value (StoreErr (NotFound ''run''), s)
      | Some previous \<Rightarrow>
         (let prev = (if st_timestamp (run_state previous) = 0 then None else Some (run_state previous)) in
          case transition RunTable i st False (sd_db (sc_store (ap_sched s))) of
            Inl (RejectedWith reason current) \<Rightarrow> Value (RejectedAs reason current, s)
          | Inl e \<Rightarrow> Value (StoreErr e, s)
          | Inr (new, _) \<Rightarrow>
             (let run = accepted_run new previous;
                  s = on_sched (\<lambda>d. snd (transition_run (env_of env) now i st d)) s;
                  s = (if is_terminal new \<or> st_type new = Paused then ensure env now (sup_finished i s) else s);
                  s = (if is_terminal new \<and> st_type new \<noteq> Crashed then forget_answers i s else s)
              in obind (emit_run_event env now k run s) (\<lambda>s.
                   obind (after_transition env now k run prev s) (\<lambda>s. Value (Accepted run, s))))))"

section \<open>Crashes and timeouts\<close>

definition crash_limit :: "('c, 'r) senv \<Rightarrow> Flow \<Rightarrow> AppState \<Rightarrow> int" where
  "crash_limit env flow s = (case fo_crash_retries (options_of env flow) of Some n \<Rightarrow> n | None \<Rightarrow> ap_crash_retries s)"

definition bump_lease :: "int \<Rightarrow> AppState \<Rightarrow> AppState" where
  "bump_lease i s = set_app_rows (map (\<lambda>r. if row_id r = i then r\<lparr> row_lease := row_lease r + 1 \<rparr> else r) (app_rows s)) s"

definition crash_delay_ms :: "micros \<Rightarrow> AppState \<Rightarrow> int" where
  "crash_delay_ms now s = (if ap_fast_crash_rerun s then 200 else 5000 + \<bar>now\<bar> mod 10000)"

definition crash_limit_reached :: "micros \<Rightarrow> string \<Rightarrow> State" where
  "crash_limit_reached now message = (let st = with_message ''crash limit reached'' (State_new now Failed) in
     st\<lparr> st_details := jmap_insert ''crash'' (JStr message) (st_details st) \<rparr>)"

definition crash_run :: "('c, 'r) senv \<Rightarrow> micros \<Rightarrow> knot \<Rightarrow> int \<Rightarrow> string \<Rightarrow> AppState \<Rightarrow> AppState outcome" where
  "crash_run env now k i message s =
     (case app_run env i s of
        None \<Rightarrow> Value s
      | Some run \<Rightarrow>
         (case app_flow (run_flow_id run) s of
            None \<Rightarrow> Value s
          | Some flow \<Rightarrow>
             (let s = bump_lease i s in
              if run_attempt run < crash_limit env flow s then
                obind (k_transition k i (with_message message (State_new now Crashed)) s) (\<lambda>(r, s).
                  case r of
                    Accepted _ \<Rightarrow>
                      (let s = timer_push (now + crash_delay_ms now s * 1000) (CrashRerun i) s in
                       Value (if fo_has_crash_hooks (options_of env flow)
                              then ensure env now (on_sup (enqueue_job (EngineKey_from_flow flow)
                                     (jobj [(''kind'', JStr ''hooks''), (''run_id'', json_int i), (''state'', JStr ''Crashed'')])) s)
                              else s))
                  | _ \<Rightarrow> Value s)
              else obind (k_transition k i (crash_limit_reached now message) s) (\<lambda>(_, s). Value s))))"

definition CRASH_CHAIN_LOOKBACK_MICROS :: int where
  "CRASH_CHAIN_LOOKBACK_MICROS = 24 * 3600 * 1000000"

definition rearm_chain :: "('c, 'r) senv \<Rightarrow> micros \<Rightarrow> int \<Rightarrow> AppState \<Rightarrow> AppState" where
  "rearm_chain env now i s =
     (case app_run env i s of
        None \<Rightarrow> s
      | Some run \<Rightarrow>
         (case app_flow (run_flow_id run) s of
            None \<Rightarrow> s
          | Some flow \<Rightarrow> if run_attempt run < crash_limit env flow s then timer_push (now + 200000) (CrashRerun i) s else s))"

definition rearm_crash_chains :: "('c, 'r) senv \<Rightarrow> micros \<Rightarrow> AppState \<Rightarrow> AppState" where
  "rearm_crash_chains env now s =
     fold (rearm_chain env now) (crashed_without_rerun (app_rows s) (now - CRASH_CHAIN_LOOKBACK_MICROS)) s"

definition trim_end_by :: "(char \<Rightarrow> bool) \<Rightarrow> string \<Rightarrow> string" where
  "trim_end_by P t = rev (dropWhile P (rev t))"

text \<open>\<^verbatim>\<open>trim_end_matches\<close> of a text removes it as often as it ends the string; the count bounds the repetition.\<close>

fun trim_suffixes :: "nat \<Rightarrow> string \<Rightarrow> string \<Rightarrow> string" where
  "trim_suffixes 0 suf t = t"
| "trim_suffixes (Suc n) suf t = (case strip_suffix t suf of Some t' \<Rightarrow> trim_suffixes n suf t' | None \<Rightarrow> t)"

definition retry_name :: "string \<Rightarrow> int \<Rightarrow> string" where
  "retry_name name attempt =
     (let base = trim_end_by (\<lambda>c. c \<in> set ''0123456789-'') name in
      trim_suffixes (length base) ''-retry'' base @ ''-retry-'' @ show_int attempt)"

definition rerun_request :: "('c, 'r) senv \<Rightarrow> micros \<Rightarrow> Run \<Rightarrow> CreateRun" where
  "rerun_request env now crashed =
     \<lparr> cr_flow_id = run_flow_id crashed, cr_name = retry_name (run_name crashed) (run_attempt crashed + 1),
       cr_parameters = to_json env (JObj (run_parameters crashed)), cr_tags = to_json env (JArr (map JStr (run_tags crashed))),
       cr_created_by = ''crash:'' @ show_int (run_id crashed), cr_initial_state = Some (State_new now Scheduled),
       cr_schedule_id = run_schedule_id crashed, cr_scheduled_time = None, cr_priority = run_priority crashed,
       cr_parent = Some (run_id crashed), cr_attempt = run_attempt crashed + 1, cr_backfill_id = run_backfill_id crashed,
       cr_unique = None \<rparr>"

definition crash_rerun :: "('c, 'r) senv \<Rightarrow> micros \<Rightarrow> knot \<Rightarrow> int \<Rightarrow> AppState \<Rightarrow> AppState outcome" where
  "crash_rerun env now k i s =
     (case app_run env i s of
        None \<Rightarrow> Value s
      | Some crashed \<Rightarrow>
         if st_type (run_state crashed) \<noteq> Crashed \<or> has_child_run (app_rows s) i then Value s
         else case app_flow (run_flow_id crashed) s of
           None \<Rightarrow> Value s
         | Some flow \<Rightarrow>
            (case store_created env now (rerun_request env now crashed) s of
               Inl _ \<Rightarrow> Value s
             | Inr (j, s) \<Rightarrow>
                (case app_run env j s of
                   None \<Rightarrow> Value s
                 | Some run \<Rightarrow>
                     obind (run_created env now k flow run s) (\<lambda>s. enqueue_run env now k run flow None s))))"

definition timed_out :: "('c, 'r) senv \<Rightarrow> micros \<Rightarrow> FlowOptions \<Rightarrow> State" where
  "timed_out env now options = (State_named now TimedOut)\<lparr> st_message := Some (''timed out after '' @
     se_show_f64 env (case fo_timeout_seconds options of Some t \<Rightarrow> t | None \<Rightarrow> Fin 0) @ '' s'') \<rparr>"

definition stop_engine :: "int \<Rightarrow> ActiveRun \<Rightarrow> AppState \<Rightarrow> AppState" where
  "stop_engine i active s =
     (case map_option of_engine (ar_engine_id active) of
        Some (Worker w) \<Rightarrow>
          on_sup (command_worker w (jobj [(''cmd'', JStr ''cancel''), (''run_id'', json_int i),
            (''engine_id'', json_opt JStr (ar_engine_id active))])) s
      | _ \<Rightarrow>
          (case ar_engine_pid active of
             Some pid \<Rightarrow> spawn (KillLater (int pid)) (s\<lparr> ap_terminated := ap_terminated s @ [int pid] \<rparr>)
           | None \<Rightarrow> s))"

definition flow_timeout :: "('c, 'r) senv \<Rightarrow> micros \<Rightarrow> knot \<Rightarrow> int \<Rightarrow> AppState \<Rightarrow> AppState outcome" where
  "flow_timeout env now k i s =
     (case get_active i (sc_index (ap_sched s)) of
        None \<Rightarrow> Value s
      | Some active \<Rightarrow>
         if st_type (ar_state active) \<noteq> Running then Value s
         else case app_run env i s of
           None \<Rightarrow> Value s
         | Some run \<Rightarrow>
            (case app_flow (run_flow_id run) s of
               None \<Rightarrow> Value s
             | Some flow \<Rightarrow>
                 obind (k_transition k i (timed_out env now (options_of env flow)) s) (\<lambda>(r, s).
                   Value (case r of Accepted _ \<Rightarrow> stop_engine i active s | _ \<Rightarrow> s))))"

end
