(* ===== verification/Waits.thy ===== *)
theory Waits
  imports Dispatch
begin

text \<open>
  Durable waits (\<^verbatim>\<open>crates/server/src/waits.rs\<close>) and the answers of paused runs
  (\<^verbatim>\<open>api/runs.rs\<close>, the claim of a queued message in \<^verbatim>\<open>store/src/writer.rs\<close>); the knot that ties transitions and
  events together; and the start of the server's working set, \<^verbatim>\<open>reconcile\<close>. The answer lock is the flag
  \<open>ap_answer_lock\<close>: locking it while it is set does not return.
\<close>

section \<open>Answers\<close>

definition stored_answers :: "int \<Rightarrow> AppState \<Rightarrow> jmap" where
  "stored_answers i s =
     (case map_of (ap_kv s) (run_input_key i) of
        None \<Rightarrow> []
      | Some v \<Rightarrow>
         (let ver = Option.bind (value_get v ''v'') as_i64;
              answers = (case Option.bind (value_get v ''answers'') jobject of Some a \<Rightarrow> a | None \<Rightarrow> [])
          in if ver = Some 2 then answers
             else if ver = Some 1 then map (\<lambda>(i, a). (i, or_insert ''topic'' (JStr ''input'') a)) answers
             else []))"

definition answers_value :: "jmap \<Rightarrow> json" where
  "answers_value answers = jobj [(''v'', json_int 2), (''answers'', JObj answers)]"

fun set_field :: "string \<Rightarrow> json \<Rightarrow> json \<Rightarrow> json" where
  "set_field k v (JObj m) = JObj (jmap_insert k v m)"
| "set_field k v j = j"

definition inherit_answers :: "int \<Rightarrow> AppState \<Rightarrow> jmap \<Rightarrow> jmap" where
  "inherit_answers ancestor s answers =
     fold (\<lambda>(i, a) m. if jmap_get m i \<noteq> None then m else jmap_insert i (set_field ''run_id'' (json_int ancestor) a) m)
       (stored_answers ancestor s) answers"

definition chain_answers :: "int \<Rightarrow> AppState \<Rightarrow> jmap" where
  "chain_answers i s =
     fold (\<lambda>a. inherit_answers a s) (tl (crash_chain 50 (app_rows s) i)) (stored_answers i s)"

definition answer_index :: "State \<Rightarrow> int" where
  "answer_index st = (case Option.bind (jmap_get (st_details st) ''index'') as_i64 of Some i \<Rightarrow> i | None \<Rightarrow> 0)"

definition detail_or_null :: "string \<Rightarrow> State \<Rightarrow> json" where
  "detail_or_null k st = (case jmap_get (st_details st) k of Some v \<Rightarrow> v | None \<Rightarrow> JNull)"

definition store_answer :: "Run \<Rightarrow> json \<Rightarrow> AppState \<Rightarrow> AppState" where
  "store_answer run input s =
     (let st = run_state run;
          answers = jmap_insert (show_int (answer_index st))
            (jobj [(''topic'', detail_or_null ''topic'' st), (''prompt'', detail_or_null ''prompt'' st), (''input'', input)])
            (stored_answers (run_id run) s)
      in s\<lparr> ap_kv := AList.update (run_input_key (run_id run)) (answers_value answers) (ap_kv s) \<rparr>)"

section \<open>Waking a run\<close>

datatype Woke = Moved Run | Done TransitionResult

definition resuming :: "micros \<Rightarrow> State" where
  "resuming now = (State_new now Scheduled)\<lparr> st_name := ''Resuming'' \<rparr>"

definition wake_locked ::
  "('c, 'r) senv \<Rightarrow> micros \<Rightarrow> knot \<Rightarrow> Run \<Rightarrow> json \<Rightarrow> AppState \<Rightarrow> ((string + Woke) \<times> AppState) outcome" where
  "wake_locked env now k run input s =
     (case app_flow (run_flow_id run) s of
        None \<Rightarrow> Value (Inl ''flow not found'', s)
      | Some flow \<Rightarrow>
          obind (k_transition k (run_id run) (resuming now) (store_answer run input s)) (\<lambda>(result, s).
            case result of
              Accepted run' \<Rightarrow> obind (enqueue_run env now k run' flow None s) (\<lambda>s. Value (Inr (Done result), s))
            | StoreErr (NotFound what) \<Rightarrow> Value (Inl what, s)
            | StoreErr (Sqlite e) \<Rightarrow> Value (Inl e, s)
            | _ \<Rightarrow> Value (Inr (Done result), s)))"

text \<open>What holds the answer lock around its body.\<close>

definition locked :: "(AppState \<Rightarrow> ('a \<times> AppState) outcome) \<Rightarrow> AppState \<Rightarrow> ('a \<times> AppState) outcome" where
  "locked body s =
     (if ap_answer_lock s then Panic
      else obind (body (s\<lparr> ap_answer_lock := True \<rparr>)) (\<lambda>(r, s). Value (r, s\<lparr> ap_answer_lock := False \<rparr>)))"

definition wake_paused ::
  "('c, 'r) senv \<Rightarrow> micros \<Rightarrow> knot \<Rightarrow> Run \<Rightarrow> (Run \<Rightarrow> AppState \<Rightarrow> json option \<times> AppState) \<Rightarrow> AppState
   \<Rightarrow> ((string + Woke) \<times> AppState) outcome" where
  "wake_paused env now k observed input = locked (\<lambda>s.
     case app_run env (run_id observed) s of
       None \<Rightarrow> Value (Inl ''run not found'', s)
     | Some run \<Rightarrow>
        if st_type (run_state run) \<noteq> Paused \<or> st_timestamp (run_state run) \<noteq> st_timestamp (run_state observed)
        then Value (Inr (Moved run), s)
        else case input run s of
               (None, s) \<Rightarrow> Value (Inr (Moved run), s)
             | (Some v, s) \<Rightarrow> wake_locked env now k run v s)"

definition answer_with :: "json \<Rightarrow> Run \<Rightarrow> AppState \<Rightarrow> json option \<times> AppState" where
  "answer_with v run s = (Some v, s)"

section \<open>Messages\<close>

datatype Delivered = WokeBy Woke | Queued Run

definition chain_continues :: "('c, 'r) senv \<Rightarrow> Run \<Rightarrow> AppState \<Rightarrow> bool" where
  "chain_continues env run s =
     (if st_type (run_state run) \<noteq> Crashed then False
      else case app_flow (run_flow_id run) s of
             None \<Rightarrow> False
           | Some flow \<Rightarrow> run_attempt run < crash_limit env flow s)"

definition message_insert :: "int \<Rightarrow> string \<Rightarrow> json \<Rightarrow> AppState \<Rightarrow> AppState" where
  "message_insert i topic payload s =
     s\<lparr> ap_messages := ap_messages s @ [\<lparr> ms_run_id = i, ms_topic = topic, ms_payload = payload, ms_consumed = False \<rparr>] \<rparr>"

definition deliver_message ::
  "('c, 'r) senv \<Rightarrow> micros \<Rightarrow> knot \<Rightarrow> int \<Rightarrow> string \<Rightarrow> json \<Rightarrow> AppState \<Rightarrow> ((string + Delivered) \<times> AppState) outcome" where
  "deliver_message env now k i topic payload = locked (\<lambda>s.
     if app_run env i s = None then Value (Inl ''run not found'', s)
     else case app_run env (crash_chain_head (app_rows s) i) s of
       None \<Rightarrow> Value (Inl ''run not found'', s)
     | Some run \<Rightarrow>
        if st_type (run_state run) = Paused \<and> Option.bind (jmap_get (st_details (run_state run)) ''topic'') as_str = Some topic
        then obind (wake_locked env now k run payload s) (\<lambda>(r, s).
               Value (case r of Inl e \<Rightarrow> Inl e | Inr w \<Rightarrow> Inr (WokeBy w), s))
        else if is_terminal (run_state run) \<and> \<not> chain_continues env run s
        then Value (Inl ''run is terminal'', s)
        else Value (Inr (Queued run), message_insert (run_id run) topic payload s))"

text \<open>The oldest message of the chain on the topic is consumed and bound to the index.\<close>

fun consume_first :: "(Message \<Rightarrow> bool) \<Rightarrow> Message list \<Rightarrow> (Message \<times> Message list) option" where
  "consume_first P [] = None"
| "consume_first P (m # ms) =
     (if P m then Some (m, m\<lparr> ms_consumed := True \<rparr> # ms)
      else map_option (\<lambda>(x, ms). (x, m # ms)) (consume_first P ms))"

text \<open>An answer bound to the index on this topic, by the run itself or by a run it continues, nearest first.\<close>

definition bound_answer :: "string \<Rightarrow> int \<Rightarrow> AppState \<Rightarrow> int \<Rightarrow> json option" where
  "bound_answer topic index s i =
     (case Option.bind (Option.bind (Option.bind (map_of (ap_kv s) (run_input_key i)) (\<lambda>v. value_get v ''answers'')) jobject)
             (\<lambda>answers. jmap_get answers (show_int index)) of
        None \<Rightarrow> None
      | Some answer \<Rightarrow>
          if (case Option.bind (value_get answer ''topic'') as_str of Some t \<Rightarrow> t | None \<Rightarrow> ''input'') = topic then Some answer else None)"

definition claim_message :: "int list \<Rightarrow> int \<Rightarrow> string \<Rightarrow> int \<Rightarrow> AppState \<Rightarrow> json option \<times> AppState" where
  "claim_message chain i topic index s =
     (case consume_first (\<lambda>m. ms_run_id m \<in> set chain \<and> ms_topic m = topic \<and> \<not> ms_consumed m) (ap_messages s) of
        None \<Rightarrow> (None, s)
      | Some (m, ms) \<Rightarrow>
         (let old = (case Option.bind (Option.bind (map_of (ap_kv s) (run_input_key i)) (\<lambda>v. value_get v ''answers'')) jobject of
                       Some a \<Rightarrow> a | None \<Rightarrow> []);
              answer = jobj [(''topic'', JStr topic), (''input'', ms_payload m)]
          in (Some answer, s\<lparr> ap_messages := ms,
                ap_kv := AList.update (run_input_key i) (answers_value (jmap_insert (show_int index) answer old)) (ap_kv s) \<rparr>)))"

definition run_message_claim :: "bool \<Rightarrow> int \<Rightarrow> string \<Rightarrow> int \<Rightarrow> AppState \<Rightarrow> json option \<times> AppState" where
  "run_message_claim queued_only i topic index s =
     (let chain = crash_chain 50 (app_rows s) i in
      case (if queued_only then [] else List.map_filter (bound_answer topic index s) chain) of
        answer # _ \<Rightarrow> (Some answer, s)
      | [] \<Rightarrow> claim_message chain i topic index s)"

definition claim_input :: "Run \<Rightarrow> AppState \<Rightarrow> json option \<times> AppState" where
  "claim_input run s =
     (case Option.bind (jmap_get (st_details (run_state run)) ''topic'') as_str of
        None \<Rightarrow> (None, s)
      | Some topic \<Rightarrow>
         (case run_message_claim True (run_id run) topic (answer_index (run_state run)) s of
            (None, s) \<Rightarrow> (None, s)
          | (Some answer, s) \<Rightarrow> (Some (case value_get answer ''input'' of Some v \<Rightarrow> v | None \<Rightarrow> JNull), s)))"

section \<open>Events\<close>

definition payload_matches :: "(json \<Rightarrow> string) \<Rightarrow> jmap \<Rightarrow> jmap \<Rightarrow> bool" where
  "payload_matches json_text wanted payload \<longleftrightarrow>
     list_all (\<lambda>(k, want). case jmap_get payload k of
        Some have' \<Rightarrow> have' = want \<or> (case want of JStr t \<Rightarrow> as_str have' = None \<and> json_text have' = t | _ \<Rightarrow> False)
      | None \<Rightarrow> False) wanted"

definition wanted_payload :: "State \<Rightarrow> jmap" where
  "wanted_payload st = (case Option.bind (jmap_get (st_details st) ''match'') jobject of Some m \<Rightarrow> m | None \<Rightarrow> [])"

definition event_answer :: "Event \<Rightarrow> json" where
  "event_answer e = jobj [(''event'', event_json e)]"

definition answers_event :: "('c, 'r) senv \<Rightarrow> State \<Rightarrow> Event \<Rightarrow> bool" where
  "answers_event env st e =
     (case Option.bind (jmap_get (st_details st) ''event'') as_str of
        None \<Rightarrow> False
      | Some pattern \<Rightarrow> name_matches pattern (ev_name e) \<and> payload_matches (to_json env) (wanted_payload st) (ev_payload e))"

definition wake_waiter :: "('c, 'r) senv \<Rightarrow> micros \<Rightarrow> knot \<Rightarrow> Event \<Rightarrow> int \<Rightarrow> AppState \<Rightarrow> AppState outcome" where
  "wake_waiter env now k e i s =
     (case app_run env i s of
        None \<Rightarrow> Value s
      | Some run \<Rightarrow>
          if answers_event env (run_state run) e
          then obind (wake_paused env now k run (answer_with (event_answer e)) s) (\<lambda>(_, s). Value s)
          else Value s)"

definition on_event :: "('c, 'r) senv \<Rightarrow> micros \<Rightarrow> knot \<Rightarrow> Event \<Rightarrow> AppState \<Rightarrow> AppState outcome" where
  "on_event env now k e s =
     (let ix = sc_index (ap_sched s) in
      if \<not> ix_has_event_waiters ix then Value s
      else ofold (wake_waiter env now k e) (ix_awaiting_event ix) s)"

text \<open>SQL's \<^verbatim>\<open>LIKE\<close>: any run of characters, any one character, or the character without regard to case.\<close>

fun sql_like :: "string \<Rightarrow> string \<Rightarrow> bool" where
  "sql_like [] t = (t = [])"
| "sql_like (p # ps) [] = (p = CHR ''%'' \<and> sql_like ps [])"
| "sql_like (p # ps) (c # cs) =
     (if p = CHR ''%'' then sql_like ps (c # cs) \<or> sql_like (p # ps) cs
      else (p = CHR ''_'' \<or> to_ascii_uppercase [p] = to_ascii_uppercase [c]) \<and> sql_like ps cs)"

definition events_between :: "string \<Rightarrow> micros \<Rightarrow> micros \<Rightarrow> nat \<Rightarrow> Event list \<Rightarrow> Event list" where
  "events_between pattern since until limit es =
     take limit (sort_key ev_id (filter (\<lambda>e. since \<le> ev_occurred e \<and> ev_occurred e \<le> until
       \<and> (case strip_suffix pattern ''*'' of Some p \<Rightarrow> sql_like (p @ ''%'') (ev_name e) | None \<Rightarrow> ev_name e = pattern)) es))"

definition answered_events :: "jmap \<Rightarrow> int list" where
  "answered_events answers = List.map_filter (\<lambda>(_, a).
     Option.bind (Option.bind (Option.bind (value_get a ''input'') (\<lambda>v. value_get v ''event'')) (\<lambda>v. value_get v ''id'')) as_i64) answers"

definition recorded_event :: "('c, 'r) senv \<Rightarrow> micros \<Rightarrow> Run \<Rightarrow> string \<Rightarrow> micros \<Rightarrow> AppState \<Rightarrow> Event option" where
  "recorded_event env now run pattern since s =
     (let chain = crash_chain 50 (app_rows s) (run_id run) in
      case app_run env (last chain) s of
        None \<Rightarrow> None
      | Some first_run \<Rightarrow>
          List.find (\<lambda>e.
            (((case ev_run_id e of Some i \<Rightarrow> i \<in> set chain | None \<Rightarrow> False) \<or> since \<le> ev_occurred e)
             \<and> name_matches pattern (ev_name e)
             \<and> payload_matches (to_json env) (wanted_payload (run_state run)) (ev_payload e)
             \<and> ev_id e \<notin> set (answered_events (chain_answers (run_id run) s))))
            (events_between pattern (run_created_at first_run) now 1000 (ap_events s)))"

section \<open>Timers and restarts\<close>

definition timeout_answer :: "micros \<Rightarrow> State \<Rightarrow> json" where
  "timeout_answer now st =
     (case jmap_get (st_details st) ''default'' of
        Some d \<Rightarrow> d
      | None \<Rightarrow>
          if st_name st = ''AwaitingEvent'' then jobj [(''timeout'', JBool True)]
          else if st_name st = ''AwaitingTarget''
          then jobj [(''poke'', JBool True), (''at'', json_int now), (''started_at'', detail_or_null ''started_at'' st)]
          else jobj [(''woke'', JBool True), (''at'', json_int now)])"

definition on_timer :: "('c, 'r) senv \<Rightarrow> micros \<Rightarrow> knot \<Rightarrow> int \<Rightarrow> AppState \<Rightarrow> AppState outcome" where
  "on_timer env now k i s =
     (case app_run env i s of
        None \<Rightarrow> Value s
      | Some run \<Rightarrow>
          if st_type (run_state run) \<noteq> Paused then Value s
          else if (case Option.bind (jmap_get (st_details (run_state run)) ''wake_at'') as_i64 of
                     Some t \<Rightarrow> now + 1000 < t | None \<Rightarrow> False) then Value s
          else obind (wake_paused env now k run (\<lambda>run s. (Some (timeout_answer now (run_state run)), s)) s) (\<lambda>(_, s). Value s))"

definition rearm_all :: "('c, 'r) senv \<Rightarrow> micros \<Rightarrow> AppState \<Rightarrow> AppState" where
  "rearm_all env now s =
     fold (\<lambda>a s. if st_type (ar_state a) \<noteq> Paused then s
                 else case app_run env (ar_id a) s of Some run \<Rightarrow> arm_wait now run s | None \<Rightarrow> s)
       (active_runs (sc_index (ap_sched s))) s"

section \<open>Tying the knot\<close>

fun knot_at :: "('c, 'r) senv \<Rightarrow> micros \<Rightarrow> nat \<Rightarrow> knot" where
  "knot_at env now 0 = \<lparr> k_transition = (\<lambda>_ _ _. Panic), k_on_event = (\<lambda>_ _. Panic) \<rparr>"
| "knot_at env now (Suc n) =
     \<lparr> k_transition = transition_step env now (knot_at env now n), k_on_event = on_event env now (knot_at env now n) \<rparr>"

text \<open>What the other threads do with the work a handler left.\<close>

definition run_spawned :: "('c, 'r) senv \<Rightarrow> micros \<Rightarrow> knot \<Rightarrow> Spawned \<Rightarrow> AppState \<Rightarrow> AppState outcome" where
  "run_spawned env now k task s =
     (case task of
        DeliverQueued run \<Rightarrow> obind (wake_paused env now k run claim_input s) (\<lambda>(_, s). Value s)
      | DeliverRecorded run pattern since \<Rightarrow>
         (case recorded_event env now run pattern since s of
            None \<Rightarrow> Value s
          | Some e \<Rightarrow> obind (wake_paused env now k run (answer_with (event_answer e)) s) (\<lambda>(_, s). Value s))
      | KillLater pid \<Rightarrow> Value (on_sup (forget_pid (nat pid)) s))"

section \<open>Reconciling after a restart\<close>

text \<open>\<open>alive\<close> is what the operating system answers about a process id.\<close>

definition reconcile_run :: "('c, 'r) senv \<Rightarrow> micros \<Rightarrow> knot \<Rightarrow> (int \<Rightarrow> bool) \<Rightarrow> bool \<Rightarrow> Run \<Rightarrow> AppState \<Rightarrow> AppState outcome" where
  "reconcile_run env now k alive paused run s =
     (case app_flow (run_flow_id run) s of
        None \<Rightarrow> Value s
      | Some flow \<Rightarrow>
         (let key = EngineKey_from_flow flow;
              t = st_type (run_state run);
              s = on_sched (\<lambda>d. d\<lparr> sc_index := adopt_run now run key (sc_index d) \<rparr>) s
          in if t \<in> {Scheduled, Pending} \<and> run_engine_pid run = None then
               Value (if \<not> paused \<and> (case run_scheduled_time run of Some due \<Rightarrow> due \<le> now | None \<Rightarrow> True)
                      then on_sup (enqueue_simple now (run_id run) (fl_id flow) (may_run_remotely (options_of env flow)) key) s
                      else s)
             else if t = Paused then Value s
             else if (case map_option of_engine (run_engine_id run) of Some (Worker _) \<Rightarrow> True | _ \<Rightarrow> False)
                  \<or> (case run_engine_pid run of Some p \<Rightarrow> alive p | None \<Rightarrow> False)
             then Value (on_sup (adopt now run key) s)
             else crash_run env now k (run_id run) ''server restarted while run was in progress'' s))"

definition stored_active_runs :: "('c, 'r) senv \<Rightarrow> AppState \<Rightarrow> Run list" where
  "stored_active_runs env s =
     List.map_filter (\<lambda>r. app_run env (row_id r) s)
       (sort_key row_id (filter (\<lambda>r. case col_state_type r of
            None \<Rightarrow> True
          | Some t \<Rightarrow> t \<in> set (map StateType_as_str (filter (\<lambda>t. \<not> type_is_terminal t) StateType_ALL))) (app_rows s)))"

text \<open>\<^verbatim>\<open>GROUP BY\<close> groups before the missing state is read as Scheduled (a task run's as Pending).\<close>

definition run_counts :: "Row list \<Rightarrow> (int \<times> string \<times> int) list" where
  "run_counts rows =
     map (\<lambda>(f, t). (f, case t of Some n \<Rightarrow> n | None \<Rightarrow> ''Scheduled'',
            int (length (filter (\<lambda>r. row_flow_id r = f \<and> col_state_type r = t) rows))))
       (remdups (map (\<lambda>r. (row_flow_id r, col_state_type r)) rows))"

definition task_run_counts :: "Row list \<Rightarrow> (string \<times> int) list" where
  "task_run_counts rows =
     map (\<lambda>t. (case t of Some n \<Rightarrow> n | None \<Rightarrow> ''Pending'', int (length (filter (\<lambda>r. col_state_name r = t) rows))))
       (remdups (map col_state_name rows))"

definition reload_counts :: "AppState \<Rightarrow> AppState" where
  "reload_counts s = on_sched (\<lambda>d. d\<lparr> sc_index := load_counts (run_counts (db_runs (sd_db (sc_store d))))
     (task_run_counts (db_tasks (sd_db (sc_store d)))) (map (\<lambda>f. (fl_id f, fl_project f)) (sc_flows d)) (sc_index d) \<rparr>) s"

definition reconcile :: "('c, 'r) senv \<Rightarrow> micros \<Rightarrow> knot \<Rightarrow> (int \<Rightarrow> bool) \<Rightarrow> AppState \<Rightarrow> AppState outcome" where
  "reconcile env now k alive s =
     (let paused = (sc_kv_pause (ap_sched s) \<noteq> None);
          s = rearm_crash_chains env now (reload_counts s)
      in obind (ofold (reconcile_run env now k alive paused) (stored_active_runs env s) s) (\<lambda>s. Value (ensure env now s)))"

end
