(* ===== verification/Handlers.thy ===== *)
theory Handlers
  imports Waits
begin

text \<open>
  What a handler may do. The handlers of \<^verbatim>\<open>dispatch.rs\<close>, \<^verbatim>\<open>waits.rs\<close> and \<^verbatim>\<open>transition_run\<close> call each other
  through the knot, so their common contract is stated once: \<open>app_step\<close> lists the elementary
  effects, \<open>reach\<close> is any number of them with the answer lock given back, the locale \<open>handlers\<close>
  is the contract of what a handler calls back into, and each handler is
  shown to keep it. The knot satisfies the contract at every depth, so an invariant of the elementary effects is
  an invariant of every handler.
\<close>

section \<open>Elementary effects\<close>

definition new_run_ok :: "CreateRun \<Rightarrow> Row list \<Rightarrow> bool" where
  "new_run_ok req rows \<longleftrightarrow> (\<forall>st. cr_initial_state req = Some st \<longrightarrow> st_type st \<noteq> Paused)
     \<and> (\<forall>p. cr_parent req = Some p \<longrightarrow> \<not> has_child_run rows p)"

fun quiet_command :: "ScheduleCommand \<Rightarrow> bool" where
  "quiet_command (PatchSchedule _ _ _) = True"
| "quiet_command (DeleteUnstartedRuns _) = True"
| "quiet_command (RescheduleRun _ _ _) = True"
| "quiet_command (DeleteSkipsBefore _ _) = True"
| "quiet_command _ = False"

text \<open>\<open>P\<close> says which transitions the caller allows.\<close>

inductive app_step :: "(int \<Rightarrow> State \<Rightarrow> bool) \<Rightarrow> ('c, 'r) senv \<Rightarrow> micros \<Rightarrow> AppState \<Rightarrow> AppState \<Rightarrow> bool"
  for P :: "int \<Rightarrow> State \<Rightarrow> bool" and env :: "('c, 'r) senv" and now :: micros where
  supervise: "app_step P env now s (on_sup (sup_step op) s)"
| recorded: "app_step P env now s (snd (append_event env now name run flow payload s))"
| moved: "P i st \<Longrightarrow> app_step P env now s (on_sched (\<lambda>d. snd (transition_run (env_of env) now i st d)) s)"
| scheduled: "sc_store d = sc_store (ap_sched s) \<Longrightarrow> sc_flows d = sc_flows (ap_sched s) \<Longrightarrow> app_step P env now s (s\<lparr> ap_sched := d \<rparr>)"
| created: "create_run ext now req (sd_db (sc_store (ap_sched s))) = Inr (i, db) \<Longrightarrow> new_run_ok req (app_rows s) \<Longrightarrow>
    app_step P env now s (on_sched (\<lambda>d. d\<lparr> sc_store := (sc_store d)\<lparr> sd_db := db \<rparr> \<rparr>) s)"
| commanded: "quiet_command c \<Longrightarrow> app_step P env now s (on_sched (\<lambda>d. d\<lparr> sc_store := schedule_execute c (sc_store d) \<rparr>) s)"
| amended: "app_step P env now s (set_app_rows (map (\<lambda>r. if row_id r = i then r\<lparr> row_priority := p r, row_lease := l r \<rparr> else r) (app_rows s)) s)"
| claimed: "app_step P env now s (snd (run_message_claim q i topic index s))"
| queued: "app_step P env now s (message_insert i topic payload s)"
| noted: "ap_sched s' = ap_sched s \<Longrightarrow> ap_sup s' = ap_sup s \<Longrightarrow> ap_events s' = ap_events s \<Longrightarrow> ap_messages s' = ap_messages s \<Longrightarrow>
    app_step P env now s s'"

definition reach :: "(int \<Rightarrow> State \<Rightarrow> bool) \<Rightarrow> ('c, 'r) senv \<Rightarrow> micros \<Rightarrow> AppState \<Rightarrow> AppState \<Rightarrow> bool" where
  "reach P env now s s' \<longleftrightarrow> (app_step P env now)\<^sup>*\<^sup>* s s' \<and> ap_answer_lock s' = ap_answer_lock s"

lemma reach_refl [simp, intro]: "reach P env now s s"
  by (simp add: reach_def)

lemma reach_trans [trans]: "reach P env now a b \<Longrightarrow> reach P env now b c \<Longrightarrow> reach P env now a c"
  by (auto simp: reach_def)

lemma reach_step: "app_step P env now s s' \<Longrightarrow> ap_answer_lock s' = ap_answer_lock s \<Longrightarrow> reach P env now s s'"
  by (auto simp: reach_def)

lemma reach_invariant:
  assumes "reach P env now s s'" "I s" "\<And>s s'. I s \<Longrightarrow> app_step P env now s s' \<Longrightarrow> I s'"
  shows "I s'"
proof -
  have "(app_step P env now)\<^sup>*\<^sup>* s s'" using assms(1) by (simp add: reach_def)
  then show ?thesis using assms(2) by (induction rule: rtranclp_induct) (auto intro: assms(3))
qed

named_theorems reaches \<open>what an operation of the state reaches\<close>

lemma reach_sup: "f (ap_sup s) = sup_step op (ap_sup s) \<Longrightarrow> reach P env now s (on_sup f s)"
  using supervise[of P env now s op] by (auto simp: on_sup_def intro!: reach_step)

lemma reach_sched: "sc_store d = sc_store (ap_sched s) \<Longrightarrow> sc_flows d = sc_flows (ap_sched s) \<Longrightarrow> reach P env now s (s\<lparr> ap_sched := d \<rparr>)"
  by (rule reach_step[OF scheduled]) simp_all

lemma reach_on_sched [reaches]:
  "sc_store (f (ap_sched s)) = sc_store (ap_sched s) \<Longrightarrow> sc_flows (f (ap_sched s)) = sc_flows (ap_sched s) \<Longrightarrow> reach P env now s (on_sched f s)"
  unfolding on_sched_def by (rule reach_sched)

lemma reach_noted:
  "ap_sched s' = ap_sched s \<Longrightarrow> ap_sup s' = ap_sup s \<Longrightarrow> ap_events s' = ap_events s \<Longrightarrow> ap_messages s' = ap_messages s \<Longrightarrow>
   ap_answer_lock s' = ap_answer_lock s \<Longrightarrow> reach P env now s s'"
  by (rule reach_step[OF noted]) simp_all

lemma reach_ensure [reaches]: "reach P env now s (ensure env now' s)"
  unfolding ensure_def
  by (rule reach_sup[where op = "sup_op.EnsureCapacity now' now' (se_process_id env) (se_mtime env) (se_spawn env)"]) simp

lemma reach_timer_push [reaches]: "reach P env now s (timer_push t e s)"
  unfolding timer_push_def by (rule reach_on_sched) simp_all

lemma reach_set_total [reaches]: "reach P env now s (set_total name amt s)"
  unfolding set_total_def by (rule reach_sup[where op = "OnResources (SetTotal name amt)"]) simp

lemma reach_sup_dequeue [reaches]: "reach P env now s (sup_dequeue i s)"
  unfolding sup_dequeue_def by (rule reach_sup[where op = "sup_op.Dequeue i"]) simp

lemma reach_sup_finished [reaches]: "reach P env now s (sup_finished i s)"
  unfolding sup_finished_def by (rule reach_sup[where op = "RunFinished i"]) simp

lemma reach_clear_failures [reaches]: "reach P env now s (on_sup (clear_failures f) s)"
  by (rule reach_sup[where op = "ClearFailures f"]) simp

lemma reach_enqueue [reaches]: "reach P env now s (on_sup (enqueue q) s)"
  by (rule reach_sup[where op = "Enqueue q"]) simp

lemma reach_enqueue_job [reaches]: "reach P env now s (on_sup (enqueue_job key p) s)"
  by (rule reach_sup[where op = "EnqueueJob key p"]) simp

lemma reach_command [reaches]: "reach P env now s (on_sup (command_worker w c) s)"
  by (rule reach_sup[where op = "CommandWorker w c"]) simp

lemma reach_forget_pid [reaches]: "reach P env now s (on_sup (forget_pid p) s)"
  by (rule reach_sup[where op = "ForgetPid p"]) simp

lemma reach_adopt [reaches]: "reach P env now s (on_sup (adopt t run key) s)"
  by (rule reach_sup[where op = "Adopt t run key"]) simp

lemma reach_reload [reaches]: "reach P env now s (reload_counts s)"
  unfolding reload_counts_def by (rule reach_on_sched) simp_all

lemma reach_spawn [reaches]: "reach P env now s (spawn task s)"
  by (rule reach_noted) (simp_all add: spawn_def)

lemma reach_forget_answers [reaches]: "reach P env now s (forget_answers i s)"
  by (rule reach_noted) (simp_all add: forget_answers_def)

lemma reach_store_answer [reaches]: "reach P env now s (store_answer run input s)"
  by (rule reach_noted) (simp_all add: store_answer_def Let_def)

lemma reach_fold [reaches]: "(\<And>x s. reach P env now s (f x s)) \<Longrightarrow> reach P env now s (fold f xs s)"
  by (induction xs arbitrary: s) (auto intro: reach_trans)

lemma reach_ofold:
  assumes "\<And>x s s'. f x s = Value s' \<Longrightarrow> reach P env now s s'" "ofold f xs s = Value s'"
  shows "reach P env now s s'"
  using assms(2)
proof (induction xs arbitrary: s)
  case (Cons x xs)
  then obtain s1 where "f x s = Value s1" "ofold f xs s1 = Value s'" by (auto simp: obind_Value)
  then show ?case using assms(1) Cons.IH by (blast intro: reach_trans)
qed simp

lemma obindE: "obind m f = Value y \<Longrightarrow> (\<And>x. m = Value x \<Longrightarrow> f x = Value y \<Longrightarrow> thesis) \<Longrightarrow> thesis"
  by (auto simp: obind_Value)

lemma reach_priority [reaches]: "reach P env now s (set_run_priority i p s)"
proof -
  have "set_run_priority i p s =
      set_app_rows (map (\<lambda>r. if row_id r = i then r\<lparr> row_priority := p, row_lease := row_lease r \<rparr> else r) (app_rows s)) s"
    by (auto simp: set_run_priority_def intro!: arg_cong[where f = "\<lambda>rows. set_app_rows rows s"])
  then show ?thesis using reach_step[OF amended[of P env now s i row_lease "\<lambda>_. p"]] by (simp add: set_app_rows_def on_sched_def)
qed

lemma reach_lease [reaches]: "reach P env now s (bump_lease i s)"
proof -
  have "bump_lease i s =
      set_app_rows (map (\<lambda>r. if row_id r = i then r\<lparr> row_priority := row_priority r, row_lease := row_lease r + 1 \<rparr> else r) (app_rows s)) s"
    by (auto simp: bump_lease_def intro!: arg_cong[where f = "\<lambda>rows. set_app_rows rows s"])
  then show ?thesis
    using reach_step[OF amended[of P env now s i "\<lambda>r. row_lease r + 1" row_priority]] by (simp add: set_app_rows_def on_sched_def)
qed


section \<open>Operations of the scheduler\<close>

lemma reach_commands:
  assumes "list_all quiet_command cs" "sc_store d = fold schedule_execute cs (sc_store (ap_sched s))" "sc_flows d = sc_flows (ap_sched s)"
  shows "reach P env now s (s\<lparr> ap_sched := d \<rparr>)"
  using assms
proof (induction cs arbitrary: s)
  case Nil
  then show ?case by (intro reach_sched) simp_all
next
  case (Cons c cs)
  let ?s = "on_sched (\<lambda>d. d\<lparr> sc_store := schedule_execute c (sc_store d) \<rparr>) s"
  have "reach P env now s ?s" using Cons.prems by (intro reach_step[OF commanded]) (simp_all add: on_sched_def)
  also have "reach P env now ?s (?s\<lparr> ap_sched := d \<rparr>)" by (rule Cons.IH) (use Cons.prems in \<open>simp_all add: on_sched_def\<close>)
  finally show ?case by (simp add: on_sched_def)
qed

lemma drop_run_keeps [simp]: "sc_store (drop_run now i d) = sc_store d" "sc_flows (drop_run now i d) = sc_flows d"
  by (simp_all add: drop_run_def Let_def emit_def)

lemma fold_drop_run_keeps [simp]:
  "sc_store (fold (drop_run now) is d) = sc_store d" "sc_flows (fold (drop_run now) is d) = sc_flows d"
  by (induction "is" arbitrary: d) simp_all

lemma emit_flows [simp]: "sc_flows (emit c d) = sc_flows d" "sc_store (emit c d) = sc_store d"
  by (simp_all add: emit_def)

lemma drop_unstarted_store:
  "sc_store (drop_unstarted now sid d) = schedule_execute (DeleteUnstartedRuns sid) (sc_store d)"
  "sc_flows (drop_unstarted now sid d) = sc_flows d"
  by (simp_all add: drop_unstarted_def with_store_def Let_def split: prod.splits)

lemma pause_store:
  "\<exists>p. sc_store (Scheduler.pause now sid reason until d) = schedule_execute (DeleteUnstartedRuns sid) (schedule_execute (PatchSchedule now sid p) (sc_store d))"
  "sc_flows (Scheduler.pause now sid reason until d) = sc_flows d"
  by (auto simp: Scheduler.pause_def Let_def drop_unstarted_store sched_put_def with_store_def simp del: schedule_execute.simps(5) split: option.splits)

lemma reach_with_sched [reaches]: "reach P env now s (s\<lparr> ap_sched := d \<rparr>) \<Longrightarrow> reach P env now s (with_sched d s)"
  unfolding with_sched_def by (erule reach_trans) (intro reach_fold reach_sup_dequeue)

lemma reach_pause [reaches]: "reach P env now s (with_sched (Scheduler.pause now' sid reason until (ap_sched s)) s)"
proof -
  obtain p where p: "sc_store (Scheduler.pause now' sid reason until (ap_sched s)) =
      fold schedule_execute [PatchSchedule now' sid p, DeleteUnstartedRuns sid] (sc_store (ap_sched s))"
    using pause_store(1)[of now' sid reason until "ap_sched s"] by auto
  show ?thesis by (intro reach_with_sched reach_commands[OF _ p]) (simp_all add: pause_store(2))
qed

lemma scheduled_request_ok: "new_run_ok (scheduled_request env now flow row t by_whom skip u d) rows"
  by (simp add: new_run_ok_def) (simp add: scheduled_request_def Let_def)

lemma reach_create_scheduled:
  "reach P env now s (s\<lparr> ap_sched := snd (create_scheduled_run (env_of env) now flow row t by_whom skip u (ap_sched s)) \<rparr>)"
proof -
  define req where "req = scheduled_request (env_of env) now flow row t by_whom skip u (sc_store (ap_sched s))"
  show ?thesis
  proof (cases "create_run (new_id (env_of env) (sd_db (sc_store (ap_sched s)))) now req (sd_db (sc_store (ap_sched s)))")
    case (Inl e)
    then show ?thesis by (simp add: create_scheduled_run_def Let_def req_def)
  next
    case (Inr x)
    obtain i db where x: "x = (i, db)" by (cases x)
    let ?s = "on_sched (\<lambda>d. d\<lparr> sc_store := (sc_store d)\<lparr> sd_db := db \<rparr> \<rparr>) s"
    have "reach P env now s ?s"
      by (rule reach_step[OF created[OF Inr[unfolded x]]]) (simp_all add: req_def scheduled_request_ok on_sched_def)
    also have "reach P env now ?s (?s\<lparr> ap_sched := snd (create_scheduled_run (env_of env) now flow row t by_whom skip u (ap_sched s)) \<rparr>)"
      using Inr x by (intro reach_sched) (simp_all add: create_scheduled_run_def Let_def req_def on_sched_def split: option.splits)
    finally show ?thesis by (simp add: on_sched_def)
  qed
qed

lemma reach_look_ahead:
  "look_ahead (env_of env) now flow row skips horizon n existing cursor starting created (ap_sched s) = Value (ms, d) \<Longrightarrow>
   reach P env now s (s\<lparr> ap_sched := d \<rparr>)"
proof (induction n arbitrary: existing cursor starting created s)
  case (Suc n)
  show ?case
  proof (cases "\<not> (starting < LOOKAHEAD_RUNS \<or> cursor < horizon)")
    case False
    then obtain res where res: "next_after (cal_of (env_of env)) now (sr_schedule row) cursor = Value res"
      using Suc.prems by (auto split: outcome.splits)
    show ?thesis
    proof (cases "\<exists>t. res = Inr (Some t) \<and> cursor < t")
      case True
      then obtain t where t: "res = Inr (Some t)" "cursor < t" by blast
      obtain r d1 where c: "create_scheduled_run (env_of env) now flow row t ''schedule'' (t \<in> set skips) None (ap_sched s) = (r, d1)" by force
      have one: "reach P env now s (s\<lparr> ap_sched := d1 \<rparr>)"
        using reach_create_scheduled[of P env now s flow row t "''schedule''" "t \<in> set skips" None] by (simp add: c)
      show ?thesis
      proof (cases "r = None \<or> LOOKAHEAD_MAX < created + 1")
        case True
        then have "d = d1" using Suc.prems False res t c by (auto simp: Let_def split: option.splits if_splits)
        then show ?thesis using one by simp
      next
        case more: False
        then obtain existing' cursor' starting' where
          "look_ahead (env_of env) now flow row skips horizon n existing' cursor' starting' (created + 1) (ap_sched (s\<lparr> ap_sched := d1 \<rparr>)) = Value (ms, d)"
          using Suc.prems False res t c by (auto simp: Let_def split: option.splits if_splits)
        from Suc.IH[OF this] have "reach P env now (s\<lparr> ap_sched := d1 \<rparr>) (s\<lparr> ap_sched := d \<rparr>)" by simp
        then show ?thesis by (rule reach_trans[OF one])
      qed
    next
      case stop: False
      then have "d = ap_sched s" using Suc.prems False res by (auto split: sum.splits option.splits if_splits)
      then show ?thesis by simp
    qed
  next
    case True
    then have "d = ap_sched s" using Suc.prems by simp
    then show ?thesis by simp
  qed
qed (auto intro: reach_sched)


lemma sched_fields [simp]:
  "sc_flows (sched_put row d) = sc_flows d" "sc_store (sched_put row d) = sc_store d"
  "sc_flows (arm_timer t e d) = sc_flows d" "sc_flows (with_store x d) = sc_flows d" "sc_store (with_store x d) = x"
  by (simp_all add: sched_put_def arm_timer_def with_store_def)

lemma arm_run_flows [simp]: "sc_flows (arm_run now i due sk d) = sc_flows d"
  by (simp add: arm_run_def Let_def)

lemma arm_deadline_flows [simp]: "sc_flows (arm_deadline dl due i d) = sc_flows d"
  by (simp add: arm_deadline_def split: option.splits)

lemma arm_marks_keep:
  assumes "ofold (arm_mark env now flow row) ms d = Value d'"
  shows "sc_store d' = sc_store d" "sc_flows d' = sc_flows d"
proof -
  have "sc_flows d' = sc_flows d" if "arm_mark env now flow row m d = Value d'" for m d d'
    using that by (auto simp: arm_mark_def Let_def obind_Value split: option.splits if_splits)
  then show "sc_flows d' = sc_flows d" using ofold_keeps[of "arm_mark env now flow row" sc_flows, OF _ assms] by blast
  show "sc_store d' = sc_store d" by (rule ofold_keeps[OF arm_mark_keeps(1) assms])
qed

lemma reach_seed:
  assumes "seed_continuous (env_of env) now row flow delay (ap_sched s) = Value d"
  shows "reach P env now s (s\<lparr> ap_sched := d \<rparr>)"
proof -
  define made where "made = create_scheduled_run (env_of env) now flow row
    (continuous_due delay now (last_end_of_schedule (sr_id row) (sc_store (ap_sched s)))) ''continuous'' False
    (Some (continuous_check (sr_id row))) (ap_sched s)"
  have "(sc_store d = sc_store (snd made) \<and> sc_flows d = sc_flows (snd made)) \<or>
      (sc_store d = sc_store (ap_sched s) \<and> sc_flows d = sc_flows (ap_sched s))"
    using assms unfolding seed_continuous_def made_def[symmetric]
    by (auto simp: Let_def obind_Value split: prod.splits option.splits if_splits)
  then obtain d1 where d1: "d1 = snd made \<or> d1 = ap_sched s" "sc_store d = sc_store d1" "sc_flows d = sc_flows d1" by blast
  have "reach P env now s (s\<lparr> ap_sched := d1 \<rparr>)"
    using d1(1) reach_create_scheduled[of P env now s flow row] by (auto simp: made_def)
  also have "reach P env now (s\<lparr> ap_sched := d1 \<rparr>) (s\<lparr> ap_sched := d1 \<rparr>\<lparr> ap_sched := d \<rparr>)"
    by (rule reach_sched) (simp_all add: d1)
  finally show ?thesis by simp
qed

lemma reach_materialize_times:
  assumes "materialize_times (env_of env) now row flow (ap_sched s) = Value d"
  shows "reach P env now s (s\<lparr> ap_sched := d \<rparr>)"
proof -
  define d0 where "d0 = (case list_skips (sr_id row) (sc_store (ap_sched s)) of
      t # _ \<Rightarrow> if t \<le> now then with_store (delete_skips_before (sr_id row) now (sc_store (ap_sched s))) (ap_sched s) else ap_sched s
    | [] \<Rightarrow> ap_sched s)"
  obtain skips horizon n ex cursor starting ms d1 d2 where la:
      "look_ahead (env_of env) now flow row skips horizon n ex cursor starting 0 d0 = Value (ms, d1)"
    and arm: "ofold (arm_mark (env_of env) now flow row) ms d1 = Value d2" and fin: "sc_store d = sc_store d2" "sc_flows d = sc_flows d2"
    using assms unfolding materialize_times_def Let_def d0_def[symmetric]
    by (auto simp: obind_Value split: option.splits prod.splits)
  have "reach P env now s (s\<lparr> ap_sched := d0 \<rparr>)"
    by (auto simp: d0_def split: list.splits intro!: reach_commands[of "[DeleteSkipsBefore (sr_id row) now]"])
  also have "reach P env now (s\<lparr> ap_sched := d0 \<rparr>) (s\<lparr> ap_sched := d0 \<rparr>\<lparr> ap_sched := d1 \<rparr>)"
    by (rule reach_look_ahead) (use la in simp)
  also have "reach P env now (s\<lparr> ap_sched := d0 \<rparr>\<lparr> ap_sched := d1 \<rparr>) (s\<lparr> ap_sched := d0 \<rparr>\<lparr> ap_sched := d1 \<rparr>\<lparr> ap_sched := d \<rparr>)"
    by (rule reach_sched) (use fin arm_marks_keep[OF arm] in simp_all)
  finally show ?thesis by simp
qed

lemma reach_materialize:
  "materialize (env_of env) now sid (ap_sched s) = Value d \<Longrightarrow> reach P env now s (with_sched d s)"
  by (rule reach_with_sched)
    (auto simp: materialize_def intro: reach_seed reach_materialize_times split: option.splits if_splits Schedule.splits)


section \<open>The answer lock\<close>

lemma lockedE:
  assumes "locked body s = Value (x, s')"
  obtains s1 where "body (s\<lparr> ap_answer_lock := True \<rparr>) = Value (x, s1)" "s' = s1\<lparr> ap_answer_lock := False \<rparr>" "\<not> ap_answer_lock s"
  using assms by (auto simp: locked_def obind_Value split: if_splits)

lemma locked_reach:
  assumes "locked body s = Value (x, s')"
    and body: "\<And>s x s'. body s = Value (x, s') \<Longrightarrow> reach P env now s s'"
  shows "reach P env now s s'"
  using assms(1)
proof (rule lockedE)
  fix s1
  assume h: "body (s\<lparr> ap_answer_lock := True \<rparr>) = Value (x, s1)" "s' = s1\<lparr> ap_answer_lock := False \<rparr>" "\<not> ap_answer_lock s"
  have "app_step P env now s (s\<lparr> ap_answer_lock := True \<rparr>)" "app_step P env now s1 s'"
    by (rule noted, simp_all add: h)+
  moreover have "(app_step P env now)\<^sup>*\<^sup>* (s\<lparr> ap_answer_lock := True \<rparr>) s1" using body[OF h(1)] by (simp add: reach_def)
  ultimately show ?thesis using h(2,3) by (simp add: reach_def)
qed

section \<open>The contract of a handler\<close>

text \<open>Every row of the run is in the given state.\<close>

definition rests_in :: "int \<Rightarrow> State \<Rightarrow> AppState \<Rightarrow> bool" where
  "rests_in i st s \<longleftrightarrow> (\<forall>r \<in> set (app_rows s). row_id r = i \<longrightarrow> row_state r = Some st)"

lemma transition_rests:
  assumes "transition RunTable i st False db = Inr (new, db')" "r \<in> set (db_runs db')" "row_id r = i"
  shows "row_state r = Some st" "new = st"
proof -
  obtain q r' where q: "transition_row RunTable st False q = Inr (new, r')"
    and db': "db' = set_table_rows RunTable (map (\<lambda>x. if row_id x = i then r' else x) (table_rows RunTable db)) db"
    by (rule transition_Inr[OF assms(1)])
  have "r = r'" using assms(2,3) by (auto simp: db' set_table_rows_def split: if_splits)
  then show "row_state r = Some st" "new = st" using transition_row_Inr(2)[OF q] transition_row_unforced(1)[OF q] by simp_all
qed

lemma transition_new: "transition RunTable i st False db = Inr (new, db') \<Longrightarrow> new = st"
  by (auto elim!: transition_Inr dest: transition_row_unforced(1))

lemma transition_run_rests:
  assumes "transition_run env now i st d = (True, d')" "r \<in> set (db_runs (sd_db (sc_store d')))" "row_id r = i"
  shows "row_state r = Some st"
  using assms(1)
proof (cases rule: transition_run_cases)
  case (accepted new db)
  have engine: "\<exists>q \<in> set (db_runs db). row_id q = i \<and> row_state r = row_state q"
    if mem: "r \<in> set (map (\<lambda>r. if row_id r = i then r\<lparr> row_engine_pid := None, row_engine_id := None \<rparr> else r) (db_runs db))"
  proof -
    obtain q where q: "q \<in> set (db_runs db)" "r = (if row_id q = i then q\<lparr> row_engine_pid := None, row_engine_id := None \<rparr> else q)"
      using mem by auto
    then have "row_state r = row_state q" "row_id r = row_id q" by (simp_all add: row_state_def)
    then show ?thesis using q(1) assms(3) by auto
  qed
  have "\<exists>q \<in> set (db_runs db). row_id q = i \<and> row_state r = row_state q"
    using assms(2,3) accepted(5) engine by (cases "st_type new = Paused") auto
  then show ?thesis using transition_rests(1)[OF accepted(2)] by auto
qed simp

lemma some_result [elim]: "\<forall>x. r \<noteq> Accepted x \<Longrightarrow> \<forall>x y. r \<noteq> RejectedAs x y \<Longrightarrow> \<forall>x. r \<noteq> StoreErr x \<Longrightarrow> Q"
  by (cases r) auto

lemma proposed_types [simp]:
  "st_type (State_new now t) = t" "st_type (with_message m st) = st_type st" "st_type (State_named now n) = name_state_type n"
  by (simp_all add: State_new_def with_message_def State_named_def Let_def)

locale handlers =
  fixes env :: "('c, 'r) senv" and now :: micros and P :: "int \<Rightarrow> State \<Rightarrow> bool" and k :: knot
  assumes unpaused: "st_type st \<noteq> Paused \<Longrightarrow> P i st"
    and transitions: "P i st \<Longrightarrow> k_transition k i st s = Value (r, s') \<Longrightarrow> reach P env now s s'"
    and accepted: "P i st \<Longrightarrow> k_transition k i st s = Value (Accepted run, s') \<Longrightarrow> \<exists>s1. rests_in i st s1 \<and> reach P env now s1 s'"
    and events: "k_on_event k e s = Value s' \<Longrightarrow> reach P env now s s'"
begin

lemma k_moves: "k_transition k i st s = Value (r, s') \<Longrightarrow> st_type st \<noteq> Paused \<Longrightarrow> reach P env now s s'"
  by (rule transitions[OF unpaused])

lemma record_event_reach: "record_event env now k name run flow payload s = Value s' \<Longrightarrow> reach P env now s s'"
proof -
  assume h: "record_event env now k name run flow payload s = Value s'"
  obtain e s1 where a: "append_event env now (EventName_as_str name) run flow payload s = (e, s1)" by force
  have "reach P env now s (snd (append_event env now (EventName_as_str name) run flow payload s))"
    by (rule reach_step[OF recorded]) (auto simp: append_event_def Let_def split: prod.splits)
  then have "reach P env now s s1" by (simp add: a)
  also have "reach P env now s1 (on_sched (emit (RecordEvent name run flow)) s1)" by (rule reach_on_sched) simp_all
  also have "reach P env now \<dots> s'" using h by (intro events) (simp add: record_event_def a)
  finally show ?thesis .
qed

lemma emit_run_event_reach: "emit_run_event env now k run s = Value s' \<Longrightarrow> reach P env now s s'"
  by (auto simp: emit_run_event_def obind_Value Let_def split: option.splits if_splits intro: record_event_reach reach_trans)

lemma skip_new_reach: "skip_new env now k message details reason run flow s = Value s' \<Longrightarrow> reach P env now s s'"
  by (auto simp: skip_new_def obind_Value Let_def
      intro: reach_trans[OF k_moves record_event_reach])

lemma supersede_one_reach: "supersede_one now k flow run other s = Value s' \<Longrightarrow> reach P env now s s'"
proof -
  assume h: "supersede_one now k flow run other s = Value s'"
  let ?i = "ar_id other"
  let ?q = "on_sched (\<lambda>d. d\<lparr> sc_timer := remove_run_events ?i (sc_timer d) \<rparr>) (sup_dequeue ?i s)"
  have q: "reach P env now s ?q" by (rule reach_trans[OF reach_sup_dequeue reach_on_sched]) simp_all
  show ?thesis
    using h by (auto simp: supersede_one_def Let_def obind_Value split: if_splits
        intro: reach_trans[OF k_moves reach_on_sched] reach_trans[OF q k_moves])
qed

lemma supersede_reach: "supersede now k flow run s = Value s' \<Longrightarrow> reach P env now s s'"
  unfolding supersede_def by (rule reach_ofold[OF supersede_one_reach])

lemma check_overlap_reach:
  "check_overlap env now k options run flow s = Value (go, s') \<Longrightarrow> reach P env now s s'"
proof -
  assume h: "check_overlap env now k options run flow s = Value (go, s')"
  have "reach P env now s s'" if "apply_overlap env now k options run flow s = Value (go, s')" for s
    using that by (auto simp: apply_overlap_def Let_def obind_Value split: if_splits
        intro: skip_new_reach supersede_reach k_moves)
  then show ?thesis
    using h reach_set_total by (fastforce simp: check_overlap_def Let_def split: option.splits if_splits intro: reach_trans)
qed

lemma queue_run_reach: "reach P env now s (queue_run env now options run flow nb s)"
  unfolding queue_run_def Let_def
  by (auto intro!: reach_trans[OF _ reach_ensure] reach_trans[OF _ reach_enqueue] split: option.splits prod.splits)
    (auto intro: reaches reach_trans reach_trans[OF reach_trans])

lemma enqueue_run_reach: "enqueue_run env now k run flow nb s = Value s' \<Longrightarrow> reach P env now s s'"
  by (auto simp: enqueue_run_def Let_def obind_Value split: if_splits
      intro: check_overlap_reach reach_trans[OF check_overlap_reach queue_run_reach])

lemma run_created_reach: "run_created env now k flow run s = Value s' \<Longrightarrow> reach P env now s s'"
  unfolding run_created_def by (erule reach_trans[OF reach_on_sched emit_run_event_reach, rotated 2]) simp_all

lemma store_created_reach:
  "store_created env now req s = Inr (i, s') \<Longrightarrow> new_run_ok req (app_rows s) \<Longrightarrow> reach P env now s s'"
  by (auto simp: store_created_def Let_def with_store_def on_sched_def split: sum.splits
      intro!: reach_step[OF created[where s = s, unfolded on_sched_def]])

lemma debounce_holder_reach: "reach P env now s (debounce_holder env now holder params spec s)"
proof -
  have store: "reach P env now s (on_sched (\<lambda>x. f (with_store d x)) s)"
    if "reschedule_run i t ps (sc_store (ap_sched s)) = Inr (b, d)" "\<And>x. sc_store (f x) = sc_store x" "\<And>x. sc_flows (f x) = sc_flows x"
    for i t ps b d f
    unfolding on_sched_def by (rule reach_commands[of "[RescheduleRun i t ps]"]) (simp_all add: that)
  have plain: "reach P env now s (on_sched (with_store d) s)" if "reschedule_run i t ps (sc_store (ap_sched s)) = Inr (b, d)" for i t ps b d
    using store[OF that, of "\<lambda>x. x"] by simp
  show ?thesis
    unfolding debounce_holder_def Let_def
    by (auto split: option.splits sum.splits bool.splits intro: plain intro!: store)
qed

lemma downstream_request_ok: "new_run_ok (downstream_request env now downstream opts name params skip u run) rows"
  by (simp add: new_run_ok_def downstream_request_def upstream_skipped_def Let_def)

lemma launch_downstream_reach:
  assumes deeper: "\<And>f r s s'. deeper f r s = Value s' \<Longrightarrow> reach P env now s s'"
    and h: "launch_downstream env now k deeper downstream skip event i s = Value s'"
  shows "reach P env now s s'"
proof (cases "app_run env i s")
  case (Some new_run)
  then obtain s2 s3 where s2: "run_created env now k downstream new_run s = Value s2"
    and s3: "(case event of None \<Rightarrow> Value s2
         | Some ev \<Rightarrow> record_event env now k FlowFanIn (Some i) (Some (fl_id downstream)) (jobj (ev @ [(''run_id'', json_int i)])) s2) = Value s3"
    and s': "(if skip then deeper downstream new_run s3 else enqueue_run env now k new_run downstream None s3) = Value s'"
    using h by (auto simp: launch_downstream_def obind_Value)
  have "reach P env now s2 s3" using s3 by (auto split: option.splits intro: record_event_reach)
  moreover have "reach P env now s3 s'" using s' deeper enqueue_run_reach by (auto split: if_splits)
  ultimately show ?thesis using run_created_reach[OF s2] by (blast intro: reach_trans)
qed (use h in \<open>simp add: launch_downstream_def\<close>)

lemma start_downstream_reach:
  assumes deeper: "\<And>f r s s'. deeper f r s = Value s' \<Longrightarrow> reach P env now s s'"
    and h: "start_downstream env now k deeper spec opts downstream run joined s = Value s'"
  shows "reach P env now s s'"
proof -
  obtain name params skip u where req: "(case store_created env now (downstream_request env now downstream opts name params skip u run) s of
      Inl (UniqueConflict existing) \<Rightarrow>
        Value (case (fo_unique opts, app_run env existing s) of
                 (Some uspec, Some holder) \<Rightarrow>
                   if us_on_conflict uspec = ''debounce'' then debounce_holder env now holder params uspec s else s
               | _ \<Rightarrow> s)
    | Inl _ \<Rightarrow> Value s
    | Inr (i, s) \<Rightarrow> launch_downstream env now k deeper downstream skip (snd joined) i s) = Value s'"
    using h unfolding start_downstream_def Let_def by (elim obindE)
  show ?thesis
  proof (cases "store_created env now (downstream_request env now downstream opts name params skip u run) s")
    case (Inl e)
    then show ?thesis using req debounce_holder_reach by (auto split: StoreError.splits option.splits if_splits)
  next
    case (Inr x)
    then obtain i s1 where one: "store_created env now (downstream_request env now downstream opts name params skip u run) s = Inr (i, s1)"
        and two: "launch_downstream env now k deeper downstream skip (snd joined) i s1 = Value s'"
      using req by (cases x) auto
    show ?thesis
      by (rule reach_trans[OF store_created_reach[OF one downstream_request_ok] launch_downstream_reach[OF deeper two]])
  qed
qed

lemma trigger_one_reach:
  assumes deeper: "\<And>f r s s'. deeper f r s = Value s' \<Longrightarrow> reach P env now s s'"
    and h: "trigger_one env now k deeper upstream run i s = Value s'"
  shows "reach P env now s s'"
  using h start_downstream_reach[OF deeper] by (auto simp: trigger_one_def Let_def split: option.splits if_splits)

lemma trigger_dependents_at_reach: "trigger_dependents_at env now k n upstream run s = Value s' \<Longrightarrow> reach P env now s s'"
proof (induction n arbitrary: upstream run s s')
  case 0
  have "trigger_one env now k (\<lambda>_ _. Value) upstream run i s = Value s' \<Longrightarrow> reach P env now s s'" for i s s'
    by (rule trigger_one_reach[of "\<lambda>_ _. Value"]) auto
  then show ?case using 0 by (auto elim: reach_ofold[rotated])
next
  case (Suc n)
  have "trigger_one env now k (trigger_dependents_at env now k n) upstream run i s = Value s' \<Longrightarrow> reach P env now s s'" for i s s'
    by (rule trigger_one_reach[OF Suc.IH])
  then show ?case using Suc.prems by (auto elim: reach_ofold[rotated])
qed

lemma backfill_completed_reach:
  assumes "backfill_completed env now k b flow s = Value s'"
  shows "reach P env now s s'"
proof -
  have "reach P env now s s'" if "record_event env now k name run flow payload (s\<lparr> ap_emitted := x, ap_kv := y \<rparr>) = Value s'"
    for name run flow payload x y
    by (rule reach_trans[OF reach_noted record_event_reach[OF that]]) simp_all
  then show ?thesis using assms by (auto simp: backfill_completed_def Let_def split: option.splits if_splits)
qed

lemma disable_window_reach: "disable_window env now k flow options run s = Value s' \<Longrightarrow> reach P env now s s'"
proof -
  assume h: "disable_window env now k flow options run s = Value s'"
  have failure: "reach P env now s (s\<lparr> ap_sup := p \<rparr>)" if "record_failure f t w (ap_sup s) = (n, p)" for f t w n p
    using reach_sup[of "\<lambda>x. snd (record_failure f t w x)" s "RecordFailure f t w" P env now] that by (simp add: on_sup_def)
  have rows: "reach P env now s
      (timer_push until e (fold (\<lambda>row s. with_sched (Scheduler.pause now (sr_id row) reason u (ap_sched s)) s) rows s))" for s until e reason u rows
    by (intro reach_trans[OF _ reach_timer_push] reach_fold reach_pause)
  show ?thesis
    using h unfolding disable_window_def
    by (auto simp: Let_def obind_Value split: option.splits if_splits prod.splits
        intro: failure reach_trans[OF failure reach_trans[OF rows reach_trans[OF record_event_reach reach_clear_failures]]])
qed

lemma arm_wait_reach [reaches]: "reach P env now s (arm_wait now run s)"
  by (auto simp: arm_wait_def intro: reaches split: option.splits)

lemma paused_reach: "reach P env now s (deliver_recorded_event run previous (deliver_queued run (arm_wait now run s)))"
  by (rule reach_trans[OF arm_wait_reach])
    (auto simp: deliver_recorded_event_def deliver_queued_def intro: reach_spawn reach_trans[OF reach_spawn reach_spawn] split: option.splits)

lemma react_reach: "react env now k flow options run previous s = Value s' \<Longrightarrow> reach P env now s s'"
  by (auto simp: react_def trigger_dependents_def split: StateType.splits option.splits if_splits
      intro: reach_timer_push disable_window_reach paused_reach trigger_dependents_at_reach
        reach_trans[OF reach_clear_failures trigger_dependents_at_reach])

lemma continue_loop_reach: "continue_loop env now run s = Value s' \<Longrightarrow> reach P env now s s'"
  by (auto simp: continue_loop_def obind_Value split: option.splits if_splits intro: reach_materialize)

lemma after_transition_reach: "after_transition env now k run previous s = Value s' \<Longrightarrow> reach P env now s s'"
  by (auto simp: after_transition_def obind_Value split: option.splits if_splits
      intro: reach_trans[OF react_reach continue_loop_reach] reach_trans[OF react_reach reach_trans[OF continue_loop_reach backfill_completed_reach]])

lemma transition_step_cases:
  assumes h: "transition_step env now k i st s = Value (res, s')" and P: "P i st"
  shows "(s' = s \<and> (\<forall>run. res \<noteq> Accepted run)) \<or> (\<exists>s1. reach P env now s s1 \<and> rests_in i st s1 \<and> reach P env now s1 s')"
proof (cases "\<exists>run. res = Accepted run")
  case False
  then show ?thesis using h
    by (auto simp: transition_step_def Let_def obind_Value split: option.splits sum.splits StoreError.splits)
next
  case True
  then obtain prev new db where prev: "app_run env i s = Some prev"
    and new: "transition RunTable i st False (sd_db (sc_store (ap_sched s))) = Inr (new, db)"
    using h by (auto simp: transition_step_def Let_def split: option.splits sum.splits StoreError.splits)
  define s1 where "s1 = on_sched (\<lambda>d. snd (transition_run (env_of env) now i st d)) s"
  define s2 where "s2 = (if is_terminal new \<or> st_type new = Paused then ensure env now (sup_finished i s1) else s1)"
  define s3 where "s3 = (if is_terminal new \<and> st_type new \<noteq> Crashed then forget_answers i s2 else s2)"
  have acc: "fst (transition_run (env_of env) now i st (ap_sched s))"
    using prev new by (auto simp: app_run_def app_flow_def transition_run_def Let_def split: option.splits)
  obtain s4 run prev' where ev: "emit_run_event env now k run s3 = Value s4" "after_transition env now k run prev' s4 = Value s'"
    using h prev new by (auto simp: transition_step_def Let_def obind_Value s3_def s2_def s1_def split: if_splits)
  have "rests_in i st s1"
    using transition_run_rests[of "env_of env" now i st "ap_sched s"] acc
    by (auto simp: rests_in_def s1_def app_rows_def on_sched_def) (metis prod.collapse)
  moreover have "reach P env now s s1" unfolding s1_def by (rule reach_step[OF moved[where P = P, OF P]]) (simp add: on_sched_def)
  moreover have "reach P env now s1 s3"
    by (auto simp: s3_def s2_def intro: reaches reach_trans[OF reach_sup_finished reach_ensure]
        reach_trans[OF reach_trans[OF reach_sup_finished reach_ensure] reach_forget_answers])
  moreover have "reach P env now s3 s'" by (rule reach_trans[OF emit_run_event_reach[OF ev(1)] after_transition_reach[OF ev(2)]])
  ultimately show ?thesis by (blast intro: reach_trans)
qed

lemma transition_step_reach: "transition_step env now k i st s = Value (res, s') \<Longrightarrow> P i st \<Longrightarrow> reach P env now s s'"
  by (drule (1) transition_step_cases) (blast intro: reach_trans reach_refl)

section \<open>Crashes, timeouts and waits\<close>

lemma crash_run_reach: "crash_run env now k i message s = Value s' \<Longrightarrow> reach P env now s s'"
proof -
  assume h: "crash_run env now k i message s = Value s'"
  have limit: "st_type (crash_limit_reached now message) = Failed" by (simp add: crash_limit_reached_def Let_def)
  show ?thesis
    using h by (auto simp: crash_run_def Let_def obind_Value limit split: option.splits if_splits TransitionResult.splits
        intro: reach_trans[OF reach_lease k_moves] reach_trans[OF reach_lease reach_trans[OF k_moves reach_timer_push]]
          reach_trans[OF reach_lease reach_trans[OF k_moves reach_trans[OF reach_timer_push reach_trans[OF reach_enqueue_job reach_ensure]]]])
qed

lemma crash_rerun_reach: "crash_rerun env now k i s = Value s' \<Longrightarrow> reach P env now s s'"
proof -
  assume h: "crash_rerun env now k i s = Value s'"
  have made: "reach P env now s s1" if "store_created env now (rerun_request env now crashed) s = Inr (j, s1)"
      "\<not> has_child_run (app_rows s) (run_id crashed)" for crashed j s1
    by (rule store_created_reach[OF that(1)]) (simp add: new_run_ok_def rerun_request_def that(2))
  have run: "run_id run = i" if "app_run env i s = Some run" for run
    using that by (auto simp: app_run_def get_row_def run_from_row_def find_Some_iff split: option.splits)
  show ?thesis
    using h run by (auto simp: crash_rerun_def obind_Value split: option.splits if_splits sum.splits
        intro: made reach_trans[OF made reach_trans[OF run_created_reach enqueue_run_reach]])
qed

lemma stop_engine_reach: "reach P env now s (stop_engine i active s)"
  by (auto simp: stop_engine_def intro: reaches reach_trans[OF reach_noted reach_spawn] split: option.splits Location.splits)

lemma flow_timeout_reach: "flow_timeout env now k i s = Value s' \<Longrightarrow> reach P env now s s'"
proof -
  assume h: "flow_timeout env now k i s = Value s'"
  have "st_type (timed_out env now o') \<noteq> Paused" for o' by (simp add: timed_out_def Let_def)
  then show ?thesis
    using h by (auto simp: flow_timeout_def obind_Value split: option.splits if_splits TransitionResult.splits
        intro: k_moves reach_trans[OF k_moves stop_engine_reach])
qed

lemma resuming_type [simp]: "st_type (resuming now) = Scheduled"
  by (simp add: resuming_def)

lemma wake_lockedE:
  assumes "wake_locked env now k run input s = Value (w, s')"
  obtains (no_flow) "app_flow (run_flow_id run) s = None" "s' = s" "\<exists>e. w = Inl e"
  | (refused) r where "k_transition k (run_id run) (resuming now) (store_answer run input s) = Value (r, s')" "\<forall>run'. r \<noteq> Accepted run'"
      "(\<exists>e. w = Inl e) \<or> w = Inr (Done r)"
  | (woken) flow run' s1 where "k_transition k (run_id run) (resuming now) (store_answer run input s) = Value (Accepted run', s1)"
      "enqueue_run env now k run' flow None s1 = Value s'" "w = Inr (Done (Accepted run'))"
proof (cases "app_flow (run_flow_id run) s")
  case None
  then have "w = Inl ''flow not found''" "s' = s" using assms by (simp_all add: wake_locked_def)
  then show thesis using no_flow None by blast
next
  case (Some flow)
  then obtain r s1 where r: "k_transition k (run_id run) (resuming now) (store_answer run input s) = Value (r, s1)"
    and rest: "(case r of Accepted run' \<Rightarrow> obind (enqueue_run env now k run' flow None s1) (\<lambda>s. Value (Inr (Done r), s))
            | StoreErr (NotFound what) \<Rightarrow> Value (Inl what, s1)
            | StoreErr (Sqlite e) \<Rightarrow> Value (Inl e, s1)
            | _ \<Rightarrow> Value (Inr (Done r), s1)) = Value (w, s')"
    using assms by (auto simp: wake_locked_def obind_Value)
  show thesis
  proof (cases r)
    case (Accepted run')
    then show thesis using woken r rest by (auto simp: obind_Value)
  next
    case (RejectedAs reason cur)
    then show thesis using refused r rest by auto
  next
    case (StoreErr e)
    then show thesis using refused r rest by (cases e) auto
  qed
qed

lemma wake_locked_reach: "wake_locked env now k run input s = Value (w, s') \<Longrightarrow> reach P env now s s'"
  by (erule wake_lockedE)
    (auto intro: reach_trans[OF reach_store_answer k_moves] reach_trans[OF reach_store_answer reach_trans[OF k_moves enqueue_run_reach]])

lemma wake_paused_reach:
  assumes input: "\<And>run s v s'. input run s = (v, s') \<Longrightarrow> reach P env now s s'"
    and h: "wake_paused env now k observed input s = Value (w, s')"
  shows "reach P env now s s'"
  using h unfolding wake_paused_def
proof (rule locked_reach)
  fix s x s'
  assume "(case app_run env (run_id observed) s of None \<Rightarrow> Value (Inl ''run not found'', s)
     | Some run \<Rightarrow> if st_type (run_state run) \<noteq> Paused \<or> st_timestamp (run_state run) \<noteq> st_timestamp (run_state observed)
        then Value (Inr (Moved run), s)
        else case input run s of (None, s) \<Rightarrow> Value (Inr (Moved run), s) | (Some v, s) \<Rightarrow> wake_locked env now k run v s) = Value (x, s')"
  then show "reach P env now s s'"
    by (auto split: option.splits if_splits prod.splits intro: input reach_trans[OF input wake_locked_reach])
qed

lemma answer_with_reach: "answer_with v run s = (x, s') \<Longrightarrow> reach P env now s s'"
  by (simp add: answer_with_def)

lemma claim_reach: "run_message_claim q i topic index s = (x, s') \<Longrightarrow> reach P env now s s'"
  using reach_step[OF claimed[of P env now s q i topic index]]
  by (auto simp: run_message_claim_def claim_message_def Let_def split: option.splits prod.splits list.splits if_splits)

lemma claim_input_reach: "claim_input run s = (x, s') \<Longrightarrow> reach P env now s s'"
  by (auto simp: claim_input_def split: option.splits prod.splits intro: claim_reach)

lemma deliver_message_reach:
  assumes "deliver_message env now k i topic payload s = Value (x, s')"
  shows "reach P env now s s'"
proof -
  have queue: "reach P env now s (message_insert j topic payload s)" for s j
    by (rule reach_step[OF queued]) (simp add: message_insert_def)
  show ?thesis
    using assms unfolding deliver_message_def
    by (rule locked_reach) (auto simp: obind_Value queue split: option.splits if_splits intro: wake_locked_reach)
qed

lemma on_event_reach: "on_event env now k e s = Value s' \<Longrightarrow> reach P env now s s'"
proof -
  assume h: "on_event env now k e s = Value s'"
  have "reach P env now s s'" if "wake_waiter env now k e i s = Value s'" for i s s'
    using that by (auto simp: wake_waiter_def obind_Value split: option.splits if_splits intro: wake_paused_reach[OF answer_with_reach])
  then show ?thesis using h by (auto simp: on_event_def Let_def split: if_splits elim: reach_ofold[rotated])
qed

lemma on_timer_reach: "on_timer env now k i s = Value s' \<Longrightarrow> reach P env now s s'"
  by (auto simp: on_timer_def obind_Value split: option.splits if_splits
      intro: wake_paused_reach[where input = "\<lambda>run s. (Some (timeout_answer now (run_state run)), s)", rotated])

lemma run_spawned_reach: "run_spawned env now k task s = Value s' \<Longrightarrow> reach P env now s s'"
  by (auto simp: run_spawned_def obind_Value split: Spawned.splits option.splits
      intro: wake_paused_reach[OF claim_input_reach] wake_paused_reach[OF answer_with_reach] reaches)

lemma rearm_all_reach: "reach P env now s (rearm_all env now s)"
  unfolding rearm_all_def by (rule reach_fold) (auto intro: arm_wait_reach split: option.splits)

lemma rearm_crash_chains_reach: "reach P env now s (rearm_crash_chains env now (reload_counts s))"
  unfolding rearm_crash_chains_def by (rule reach_trans[OF reach_reload reach_fold]) (auto simp: rearm_chain_def intro: reach_timer_push split: option.splits)

lemma reconcile_run_reach: "reconcile_run env now k alive paused run s = Value s' \<Longrightarrow> reach P env now s s'"
proof -
  assume h: "reconcile_run env now k alive paused run s = Value s'"
  show ?thesis
  proof (cases "app_flow (run_flow_id run) s")
    case (Some flow)
    define s1 where "s1 = on_sched (\<lambda>d. d\<lparr> sc_index := adopt_run now run (EngineKey_from_flow flow) (sc_index d) \<rparr>) s"
    have one: "reach P env now s s1" unfolding s1_def by (rule reach_on_sched) simp_all
    have "reach P env now s1 s'"
      using h Some unfolding reconcile_run_def s1_def[symmetric] Let_def
      by (auto simp: s1_def[symmetric] Let_def enqueue_simple_def split: if_splits intro: reaches crash_run_reach)
    then show ?thesis by (rule reach_trans[OF one])
  qed (use h in \<open>simp add: reconcile_run_def\<close>)
qed

lemma reconcile_reach: "reconcile env now k alive s = Value s' \<Longrightarrow> reach P env now s s'"
  by (auto simp: reconcile_def Let_def obind_Value
      intro: reach_trans[OF rearm_crash_chains_reach reach_trans[OF reach_ofold[OF reconcile_run_reach] reach_ensure]])

end

section \<open>The knot keeps the contract\<close>

lemma handlers_Suc:
  assumes "handlers env now P k"
  shows "handlers env now P \<lparr> k_transition = transition_step env now k, k_on_event = on_event env now k \<rparr>"
proof
  show "\<exists>s1. rests_in i st s1 \<and> reach P env now s1 s'"
    if "P i st" "k_transition \<lparr> k_transition = transition_step env now k, k_on_event = on_event env now k \<rparr> i st s = Value (Accepted run, s')"
    for i st s run s'
    using handlers.transition_step_cases[OF assms, of i st s "Accepted run" s'] that by auto
qed (use handlers.on_event_reach[OF assms] handlers.transition_step_reach[OF assms] handlers.unpaused[OF assms] in auto)

lemma knot_handlers:
  assumes "\<And>i st. st_type st \<noteq> Paused \<Longrightarrow> P i st"
  shows "handlers env now P (knot_at env now n)"
proof (induction n)
  case 0
  show ?case by unfold_locales (use assms in simp_all)
qed (auto intro: handlers_Suc)

interpretation served: handlers env now "\<lambda>_ _. True" "knot_at env now n" for env now n
  by (rule knot_handlers) simp

interpretation unpaused: handlers env now "\<lambda>_ st. st_type st \<noteq> Paused" "knot_at env now n" for env now n
  by (rule knot_handlers) simp

end
