(* ===== verification/Handler_Facts.thy ===== *)
theory Handler_Facts
  imports Handlers
begin

text \<open>
  What holds of the server whatever it handles: the invariants of the store, the supervisor's line, the
  events and the crash chains are kept by every elementary effect and so by every history of
  requests (\<open>serve\<close>), and what was recorded or queued is never taken back.
\<close>

section \<open>Invariants of the elementary effects\<close>

text \<open>No run has two reruns.\<close>

definition one_rerun :: "Row list \<Rightarrow> bool" where
  "one_rerun rows \<longleftrightarrow> (\<forall>r \<in> set rows. \<forall>q \<in> set rows. row_parent r \<noteq> None \<and> row_parent r = row_parent q \<longrightarrow> row_id r = row_id q)"

definition events_ok :: "Event list \<Rightarrow> bool" where
  "events_ok es \<longleftrightarrow> sorted_wrt (<) (map ev_id es)"

definition app_ok :: "AppState \<Rightarrow> bool" where
  "app_ok s \<longleftrightarrow> sdb_ok (sc_store (ap_sched s)) \<and> inner_ok (sv_inner (ap_sup s)) \<and> one_rerun (app_rows s) \<and> events_ok (ap_events s)"

lemma one_rerunI:
  assumes "one_rerun rows" "\<And>r. r \<in> set rows' \<Longrightarrow> \<exists>q \<in> set rows. row_parent r = row_parent q \<and> row_id r = row_id q"
  shows "one_rerun rows'"
  using assms unfolding one_rerun_def by metis

lemma write_parent [simp]: "row_parent (write_state st c r) = row_parent r" "row_parent (write_checkpoint t st r) = row_parent r"
  by (simp_all add: write_state_def write_checkpoint_def split: option.splits)

lemma transition_row_parent: "transition_row t st f r = Inr (new, r') \<Longrightarrow> row_parent r' = row_parent r"
  by (auto simp: transition_row_def Let_def split: sum.splits)

lemma transition_origins:
  assumes "transition RunTable i st f db = Inr (new, db')" "r \<in> set (db_runs db')"
  shows "\<exists>q \<in> set (db_runs db). row_parent r = row_parent q \<and> row_id r = row_id q"
proof -
  obtain q r' where q: "q \<in> set (table_rows RunTable db)" "row_id q = i" "transition_row RunTable st f q = Inr (new, r')"
    and db': "db' = set_table_rows RunTable (map (\<lambda>x. if row_id x = i then r' else x) (table_rows RunTable db)) db"
    by (rule transition_Inr[OF assms(1)])
  have "r = r' \<or> r \<in> set (db_runs db)" using assms(2) by (auto simp: db' set_table_rows_def table_rows_def split: if_splits)
  then show ?thesis using q transition_row_parent[OF q(3)] transition_row_Inr(5)[OF q(3)] by (auto simp: table_rows_def)
qed

lemma engine_origins:
  "r \<in> set (db_runs (sd_db (schedule_execute (SetRunEngine i pid eng) d))) \<Longrightarrow>
   \<exists>q \<in> set (db_runs (sd_db d)). row_parent r = row_parent q \<and> row_id r = row_id q \<and> row_state r = row_state q"
  by (force simp: row_state_def)

lemma transition_run_origins:
  assumes "r \<in> set (db_runs (sd_db (sc_store (snd (transition_run env now i st d)))))"
  shows "\<exists>q \<in> set (db_runs (sd_db (sc_store d))). row_parent r = row_parent q \<and> row_id r = row_id q"
proof -
  obtain b d' where t: "transition_run env now i st d = (b, d')" by force
  then show ?thesis
  proof (cases rule: transition_run_cases)
    case (accepted new db)
    have "\<exists>q \<in> set (db_runs db). row_parent r = row_parent q \<and> row_id r = row_id q"
      using assms t accepted(5) engine_origins[of r i None None "(sc_store d)\<lparr> sd_db := db \<rparr>"]
      by (auto simp del: schedule_execute.simps split: if_splits)
    then show ?thesis using transition_origins[OF accepted(2)] by metis
  qed (use assms t in auto)
qed

lemma created_origins:
  assumes "create_run ext now req db = Inr (i, db')" "r \<in> set (db_runs db')"
  shows "(r \<in> set (db_runs db) \<and> row_id r \<noteq> i) \<or> (row_id r = i \<and> row_parent r = cr_parent req)"
proof -
  note ins = create_run_Inr(1)[OF assms(1)]
  let ?new = "new_row i ext now req"
  have i: "i = next_rowid (db_runs db)" using insert_run_Inr(1)[OF ins] .
  have fresh: "row_id q \<noteq> i" if "q \<in> set (db_runs db)" for q using next_rowid_fresh[OF that] i by auto
  show ?thesis
  proof (cases "cr_initial_state req")
    case None
    then have "db_runs db' = db_runs db @ [?new]" using ins i by (auto simp: insert_run_def Let_def split: if_splits)
    then show ?thesis using assms(2) fresh by (auto simp: new_row_def)
  next
    case (Some st)
    then obtain new where tr: "transition RunTable i st False (db\<lparr> db_runs := db_runs db @ [?new] \<rparr>) = Inr (new, db')"
      using ins i by (auto simp: insert_run_def Let_def split: if_splits sum.splits)
    let ?db = "db\<lparr> db_runs := db_runs db @ [?new] \<rparr>"
    obtain q r' where q: "q \<in> set (table_rows RunTable ?db)" "row_id q = i" "transition_row RunTable st False q = Inr (new, r')"
      and all: "db' = set_table_rows RunTable (map (\<lambda>x. if row_id x = i then r' else x) (table_rows RunTable ?db)) ?db"
      by (rule transition_Inr[OF tr])
    have db': "db_runs db' = map (\<lambda>x. if row_id x = i then r' else x) (db_runs db @ [?new])"
      unfolding all by (simp add: table_rows_def set_table_rows_def)
    have "q = ?new" using q(1,2) fresh by (auto simp: table_rows_def)
    then have "row_parent r' = cr_parent req" "row_id r' = i"
      using transition_row_parent[OF q(3)] transition_row_Inr(5)[OF q(3)] q(2) by (simp_all add: new_row_def)
    then show ?thesis using assms(2) fresh unfolding db' by (auto simp: new_row_def split: if_splits)
  qed
qed


lemma one_rerun_step:
  assumes "app_step P env now s s'" "one_rerun (app_rows s)"
  shows "one_rerun (app_rows s')"
  using assms(1)
proof cases
  case (moved i st)
  show ?thesis
    by (rule one_rerunI[OF assms(2)]) (use moved(1) in \<open>auto simp: app_rows_def on_sched_def dest!: transition_run_origins\<close>)
next
  case (created ext req i db)
  note new = created_origins[OF created(2)]
  have rows: "app_rows s' = db_runs db" using created(1) by (simp add: app_rows_def on_sched_def)
  have none: "row_parent q \<noteq> cr_parent req" if "q \<in> set (app_rows s)" "cr_parent req \<noteq> None" for q
    using created(3) that by (auto simp: new_run_ok_def has_child_run_def)
  show ?thesis
    unfolding one_rerun_def rows
  proof (intro ballI impI)
    fix r q
    assume r: "r \<in> set (db_runs db)" and q: "q \<in> set (db_runs db)" and same: "row_parent r \<noteq> None \<and> row_parent r = row_parent q"
    then show "row_id r = row_id q"
      using new[OF r] new[OF q] none assms(2) unfolding one_rerun_def app_rows_def by metis
  qed
next
  case (commanded c)
  have "\<exists>q \<in> set (app_rows s). row_parent r = row_parent q \<and> row_id r = row_id q" if "r \<in> set (app_rows s')" for r
    using commanded that
    by (cases c) (auto simp: app_rows_def on_sched_def patch_schedule_def delete_unstarted_runs_def reschedule_run_def move_run_def
        delete_skips_before_def Let_def split: if_splits)
  then show ?thesis by (rule one_rerunI[OF assms(2)])
next
  case (amended i l p)
  then show ?thesis
    by (intro one_rerunI[OF assms(2)]) (auto simp: app_rows_def set_app_rows_def on_sched_def)
qed (use assms(2) in \<open>simp_all add: app_rows_def on_sup_def append_event_def run_message_claim_def claim_message_def message_insert_def
    Let_def split: prod.splits option.splits list.splits\<close>)


lemma append_event_events:
  assumes "append_event env now name run flow payload s = (e, s')"
  shows "ap_events s' = ap_events s @ [e]" "ev_id e = next_event_id (ap_events s)" "ev_name e = name" "ev_run_id e = run"
    "ap_sched s' = ap_sched s" "ap_sup s' = ap_sup s" "ap_messages s' = ap_messages s" "ap_answer_lock s' = ap_answer_lock s"
  using assms by (auto simp: append_event_def Let_def split: prod.splits)

lemma next_event_id_fresh: "e \<in> set es \<Longrightarrow> ev_id e < next_event_id es"
  by (auto simp: next_event_id_def)

lemma claim_message_keeps:
  assumes "run_message_claim q i topic index s = (x, s')"
  shows "ap_events s' = ap_events s" "ap_sched s' = ap_sched s" "ap_sup s' = ap_sup s"
  using assms by (auto simp: run_message_claim_def claim_message_def Let_def split: prod.splits option.splits list.splits if_splits)

lemma events_step:
  assumes "app_step P env now s s'"
  shows "ap_events s' = ap_events s \<or> (\<exists>e. ap_events s' = ap_events s @ [e] \<and> ev_id e = next_event_id (ap_events s))"
  using assms
proof cases
  case (recorded name run flow payload)
  then show ?thesis using append_event_events(1,2)[of env now name run flow payload s] by (metis prod.collapse)
next
  case (claimed q i topic index)
  then show ?thesis using claim_message_keeps(1)[of q i topic index s] by (metis prod.collapse)
qed (simp_all add: on_sup_def on_sched_def set_app_rows_def message_insert_def)

lemma events_ok_step:
  assumes "app_step P env now s s'" "events_ok (ap_events s)"
  shows "events_ok (ap_events s')"
  using events_step[OF assms(1)] assms(2)
  by (auto simp: events_ok_def sorted_wrt_append dest: next_event_id_fresh)

lemma sup_unchanged:
  assumes "app_step P env now s s'"
  shows "ap_sup s' = ap_sup s \<or> (\<exists>op. ap_sup s' = sup_step op (ap_sup s))"
  using assms
proof cases
  case (recorded name run flow payload)
  then show ?thesis using append_event_events(6)[of env now name run flow payload s] by (metis prod.collapse)
next
  case (claimed q i topic index)
  then show ?thesis using claim_message_keeps(3)[of q i topic index s] by (metis prod.collapse)
qed (auto simp: on_sup_def on_sched_def set_app_rows_def message_insert_def)

lemma transition_run_ok: "sdb_ok (sc_store d) \<Longrightarrow> sdb_ok (sc_store (snd (transition_run env now i st d)))"
proof -
  assume ok: "sdb_ok (sc_store d)"
  obtain b d' where t: "transition_run env now i st d = (b, d')" by force
  then show ?thesis
  proof (cases rule: transition_run_cases)
    case (accepted new db)
    have "sdb_ok ((sc_store d)\<lparr> sd_db := db \<rparr>)"
      using schedule_execute_ok[OF ok, of "RunCmd (TransitionCmd RunTable i st False)"] accepted(2) by simp
    then show ?thesis using t accepted(5) schedule_execute_ok[of "(sc_store d)\<lparr> sd_db := db \<rparr>" "SetRunEngine i None None"] by auto
  qed (use ok t in simp)
qed

lemma store_step:
  assumes "app_step P env now s s'" "sdb_ok (sc_store (ap_sched s))"
  shows "sdb_ok (sc_store (ap_sched s'))"
  using assms(1)
proof cases
  case (recorded name run flow payload)
  then show ?thesis using append_event_events(5)[of env now name run flow payload s] assms(2) by (metis prod.collapse)
next
  case (claimed q i topic index)
  then show ?thesis using claim_message_keeps(2)[of q i topic index s] assms(2) by (metis prod.collapse)
next
  case (moved i st)
  then show ?thesis using transition_run_ok[OF assms(2)] by (simp add: on_sched_def)
next
  case (created ext req i db)
  then show ?thesis using schedule_execute_ok[OF assms(2), of "RunCmd (CreateRunCmd ext now req)"] by (simp add: on_sched_def)
next
  case (commanded c)
  then show ?thesis using schedule_execute_ok[OF assms(2)] by (simp add: on_sched_def)
next
  case (amended i l p)
  have "fires_once (db_runs (sd_db (sc_store (ap_sched s))))" using assms(2) by (simp only: sdb_ok_def)
  then have "fires_once (map (\<lambda>r. if row_id r = i then r\<lparr> row_priority := p r, row_lease := l r \<rparr> else r) (app_rows s))"
    unfolding app_rows_def by (rule fires_once_map) (auto simp: fire_of_def split: option.splits)
  from sdb_runs_only[OF assms(2) this] show ?thesis using amended by (simp add: set_app_rows_def on_sched_def)
qed (use assms(2) in \<open>simp_all add: on_sup_def message_insert_def\<close>)

lemma app_ok_step: "app_ok s \<Longrightarrow> app_step P env now s s' \<Longrightarrow> app_ok s'"
  unfolding app_ok_def using one_rerun_step events_ok_step store_step sup_unchanged sup_step_ok by metis


section \<open>What is never taken back\<close>

definition used_up :: "Message \<Rightarrow> Message" where
  "used_up m = m\<lparr> ms_consumed := True \<rparr>"

text \<open>Recorded events stay; queued messages stay as they were sent, and a consumed one stays consumed.\<close>

definition grows :: "AppState \<Rightarrow> AppState \<Rightarrow> bool" where
  "grows s s' \<longleftrightarrow> (\<exists>es. ap_events s' = ap_events s @ es)
     \<and> (\<exists>ms ms'. ap_messages s' = ms @ ms' \<and> list_all2 (\<lambda>m m'. m' = m \<or> m' = used_up m) (ap_messages s) ms)"

lemma grows_refl [simp]: "grows s s"
  unfolding grows_def by (intro conjI exI[of _ "[]"] exI[of _ "ap_messages s"]) (auto intro!: list.rel_refl)

lemma grows_trans:
  assumes "grows a b" "grows b c"
  shows "grows a c"
proof -
  obtain ms ms' where one: "ap_messages b = ms @ ms'" "list_all2 (\<lambda>m m'. m' = m \<or> m' = used_up m) (ap_messages a) ms"
    using assms(1) by (auto simp: grows_def)
  obtain ns ns' where two: "ap_messages c = ns @ ns'" "list_all2 (\<lambda>m m'. m' = m \<or> m' = used_up m) (ap_messages b) ns"
    using assms(2) by (auto simp: grows_def)
  obtain n1 n2 where split: "ns = n1 @ n2" "list_all2 (\<lambda>m m'. m' = m \<or> m' = used_up m) ms n1"
    using two(2) unfolding one(1) list_all2_append1 by auto
  have "list_all2 (\<lambda>m m'. m' = m \<or> m' = used_up m) (ap_messages a) n1"
    by (rule list_all2_trans[OF _ one(2) split(2)]) (auto simp: used_up_def)
  moreover have "ap_messages c = n1 @ (n2 @ ns')" using two(1) split(1) by simp
  moreover have "\<exists>es. ap_events c = ap_events a @ es" using assms by (auto simp: grows_def)
  ultimately show ?thesis unfolding grows_def by blast
qed

lemma consume_first_Some:
  "consume_first P ms = Some (m, ms') \<Longrightarrow>
   \<exists>xs ys. ms = xs @ m # ys \<and> ms' = xs @ used_up m # ys \<and> P m \<and> (\<forall>x \<in> set xs. \<not> P x)"
proof (induction ms arbitrary: ms')
  case (Cons a ms)
  show ?case
  proof (cases "P a")
    case True
    then show ?thesis using Cons.prems by (intro exI[of _ "[]"] exI[of _ ms]) (auto simp: used_up_def)
  next
    case False
    then obtain ns where ns: "consume_first P ms = Some (m, ns)" "ms' = a # ns" using Cons.prems by auto
    from Cons.IH[OF ns(1)] obtain xs ys where "ms = xs @ m # ys" "ns = xs @ used_up m # ys" "P m" "\<forall>x \<in> set xs. \<not> P x" by blast
    then show ?thesis using ns(2) False by (intro exI[of _ "a # xs"] exI[of _ ys]) auto
  qed
qed simp

lemma consume_first_None: "consume_first P ms = None \<longleftrightarrow> (\<forall>m \<in> set ms. \<not> P m)"
  by (induction ms) auto

lemma messages_step:
  assumes "app_step P env now s s'"
  shows "\<exists>ms ms'. ap_messages s' = ms @ ms' \<and> list_all2 (\<lambda>m m'. m' = m \<or> m' = used_up m) (ap_messages s) ms"
proof -
  have same: ?thesis if "ap_messages s' = ap_messages s @ ms" for ms
    by (intro exI[of _ "ap_messages s"] exI[of _ ms]) (auto simp: that intro!: list.rel_refl)
  from assms show ?thesis
  proof cases
    case (recorded name run flow payload)
    then show ?thesis using append_event_events(7)[of env now name run flow payload s] same[of "[]"] by (metis append_Nil2 prod.collapse)
  next
    case (claimed q i topic index)
    show ?thesis
    proof (cases "ap_messages s' = ap_messages s")
      case False
      then obtain m ms where "consume_first (\<lambda>m. ms_run_id m \<in> set (crash_chain 50 (app_rows s) i) \<and> ms_topic m = topic \<and> \<not> ms_consumed m)
          (ap_messages s) = Some (m, ms)" "ap_messages s' = ms"
        using claimed by (auto simp: run_message_claim_def claim_message_def Let_def split: option.splits prod.splits list.splits if_splits)
      then obtain xs ys where "ap_messages s = xs @ m # ys" "ap_messages s' = xs @ used_up m # ys"
        using consume_first_Some by blast
      then show ?thesis by (intro exI[of _ "ap_messages s'"] exI[of _ "[]"]) (auto intro!: list_all2_appendI list.rel_refl)
    qed (use same[of "[]"] in simp)
  next
    case (queued i topic payload)
    then show ?thesis using same by (simp add: message_insert_def)
  qed (use same[of "[]"] in \<open>simp_all add: on_sup_def on_sched_def set_app_rows_def\<close>)
qed

lemma grows_step: "app_step P env now s s' \<Longrightarrow> grows s s'"
  using events_step[of P env now s s'] messages_step[of P env now s s'] by (auto simp: grows_def)

lemma reach_grows: "reach P env now s s' \<Longrightarrow> grows s s'"
  using reach_invariant[where I = "grows s"] grows_step grows_trans grows_refl by blast

lemma reach_app_ok: "reach P env now s s' \<Longrightarrow> app_ok s \<Longrightarrow> app_ok s'"
  by (rule reach_invariant[where I = app_ok]) (auto intro: app_ok_step)

section \<open>Every history of the server\<close>

datatype request =
    Propose int State
  | Answer Run json
  | Send int string json
  | Claim bool int string int
  | WakeTimer int
  | RerunTimer int
  | TimeoutTimer int
  | CrashDetected int string
  | Deliver Spawned
  | Restart "int \<Rightarrow> bool"

fun serve :: "('c, 'r) senv \<Rightarrow> micros \<Rightarrow> nat \<Rightarrow> request \<Rightarrow> AppState \<Rightarrow> AppState outcome" where
  "serve env now n (Propose i st) s = obind (transition_step env now (knot_at env now n) i st s) (\<lambda>(_, s). Value s)"
| "serve env now n (Answer run v) s = obind (wake_paused env now (knot_at env now n) run (answer_with v) s) (\<lambda>(_, s). Value s)"
| "serve env now n (Send i topic payload) s = obind (deliver_message env now (knot_at env now n) i topic payload s) (\<lambda>(_, s). Value s)"
| "serve env now n (Claim q i topic index) s = Value (snd (run_message_claim q i topic index s))"
| "serve env now n (WakeTimer i) s = on_timer env now (knot_at env now n) i s"
| "serve env now n (RerunTimer i) s = crash_rerun env now (knot_at env now n) i s"
| "serve env now n (TimeoutTimer i) s = flow_timeout env now (knot_at env now n) i s"
| "serve env now n (CrashDetected i message) s = crash_run env now (knot_at env now n) i message s"
| "serve env now n (Deliver task) s = run_spawned env now (knot_at env now n) task s"
| "serve env now n (Restart alive) s = reconcile env now (knot_at env now n) alive s"

lemma serve_reach:
  assumes "serve env now n req s = Value s'"
  shows "reach (\<lambda>_ _. True) env now s s'"
proof (cases req)
  case (Claim q i topic index)
  then show ?thesis using assms served.claim_reach[of q i topic index s] by (metis outcome.inject prod.collapse serve.simps(4))
next
  case (Answer run v)
  then show ?thesis using assms served.wake_paused_reach[OF served.answer_with_reach] by (auto simp: obind_Value)
qed (use assms in \<open>auto simp: obind_Value intro: served.transition_step_reach served.deliver_message_reach served.on_timer_reach
    served.crash_rerun_reach served.flow_timeout_reach served.crash_run_reach served.run_spawned_reach served.reconcile_reach\<close>)

lemma history_reach:
  assumes "ofold (\<lambda>(now, n, req). serve env now n req) reqs s = Value s'"
  shows "grows s s'" "app_ok s \<Longrightarrow> app_ok s'" "ap_answer_lock s' = ap_answer_lock s"
proof -
  have "grows s s' \<and> (app_ok s \<longrightarrow> app_ok s') \<and> ap_answer_lock s' = ap_answer_lock s"
    using assms
  proof (induction reqs arbitrary: s)
    case (Cons x reqs)
    obtain now n req where x: "x = (now, n, req)" by (cases x)
    from Cons.prems obtain s1 where s1: "serve env now n req s = Value s1" and rest: "ofold (\<lambda>(now, n, req). serve env now n req) reqs s1 = Value s'"
      by (auto simp: x obind_Value)
    note r = serve_reach[OF s1]
    show ?case using Cons.IH[OF rest] reach_grows[OF r] reach_app_ok[OF r] grows_trans r by (auto simp: reach_def)
  qed simp
  then show "grows s s'" "app_ok s \<Longrightarrow> app_ok s'" "ap_answer_lock s' = ap_answer_lock s" by blast+
qed

end
