(* ===== verification/Wait_Facts.thy ===== *)
theory Wait_Facts
  imports Handler_Facts
begin

text \<open>
  Answers and messages of waiting runs: what answering a paused run comes to when nobody
  else waits for an event, that a pause has one answer, that a queued message is claimed
  once, that answering never returns while another run waits for the event it records, and
  that pausing a schedule deletes a run that was answered.
\<close>

section \<open>Answering a paused run\<close>

lemma app_runE:
  assumes "app_run env i s = Some run"
  obtains r flow where "get_row i (ap_sched s) = Some r" "app_flow (row_flow_id r) s = Some flow" "row_id r = i"
    "run = run_from_row (env_of env) [] flow r"
  using assms by (auto simp: app_run_def get_row_def find_Some_iff split: option.splits)

lemma run_from_row_fields [simp]:
  "run_id (run_from_row env c flow r) = row_id r" "run_state (run_from_row env c flow r) = state_of_row r"
  "run_flow_id (run_from_row env c flow r) = row_flow_id r"
  by (simp_all add: run_from_row_def)

lemma paused_resumes:
  assumes "get_row i d = Some r" "st_type (state_of_row r) = Paused"
  shows "\<exists>r'. transition RunTable i (resuming now) False (sd_db (sc_store d)) =
    Inr (resuming now, (sd_db (sc_store d))\<lparr> db_runs := map (\<lambda>x. if row_id x = i then r' else x) (db_runs (sd_db (sc_store d))) \<rparr>)
    \<and> row_id r' = i \<and> transition_row RunTable (resuming now) False r = Inr (resuming now, r')"
proof -
  obtain st where st: "row_state r = Some st" "st_type st = Paused"
    using assms(2) by (auto simp: state_of_row_def with_timestamp_def split: option.splits)
  have "transition_row RunTable (resuming now) False r = Inr (resuming now, write_state (resuming now) (RunCounters_apply (resuming now) (col_counters r)) r)"
    using st by (simp add: transition_row_def propose_def is_terminal_def is_duplicate_def write_checkpoint_def Let_def)
  moreover have "List.find (\<lambda>r. row_id r = i) (db_runs (sd_db (sc_store d))) = Some r" using assms(1) by (simp add: get_row_def)
  moreover have "row_id r = i" using assms(1) by (auto simp: get_row_def find_Some_iff)
  ultimately show ?thesis by (auto simp: transition_def table_rows_def set_table_rows_def)
qed

lemma find_map_other: "b \<noteq> i \<Longrightarrow> row_id r' = i \<Longrightarrow>
  List.find (\<lambda>r. row_id r = b) (map (\<lambda>x. if row_id x = i then r' else x) rows) = List.find (\<lambda>r. row_id r = b) rows"
  by (induction rows) auto

lemma follow_waiters:
  assumes "run_id run = i" "run_id previous = i" "\<not> is_awaiting_event (run_state run)"
  shows "set (ix_awaiting_event (follow_transition now key previous run ix)) - {i} = set (ix_awaiting_event ix) - {i}"
    "i \<notin> set (ix_awaiting_event (follow_transition now key previous run ix))"
    "ix_has_event_waiters (follow_transition now key previous run ix) = (ix_awaiting_event (follow_transition now key previous run ix) \<noteq> [])"
proof -
  have field: "ix_awaiting_event (case map_of (ix_active jx) j of Some e \<Rightarrow> jx\<lparr> ix_active := f e \<rparr> | None \<Rightarrow> jx) = ix_awaiting_event jx"
    "ix_has_event_waiters (case map_of (ix_active jx) j of Some e \<Rightarrow> jx\<lparr> ix_active := f e \<rparr> | None \<Rightarrow> jx) = ix_has_event_waiters jx" for jx j f
    by (simp_all split: option.splits)
  have adopt: "set (ix_awaiting_event (adopt_run now previous key ix)) - {i} = set (ix_awaiting_event ix) - {i}" for ix
    using assms(2) by (auto simp: adopt_run_def Let_def)
  have tr: "set (ix_awaiting_event (index_transition now run prev ix)) = set (ix_awaiting_event ix) - {i}"
    "ix_has_event_waiters (index_transition now run prev ix) = (ix_awaiting_event (index_transition now run prev ix) \<noteq> [])" for prev ix
    using assms(1,3) by (auto simp: index_transition_def Let_def field split: option.splits)
  show "set (ix_awaiting_event (follow_transition now key previous run ix)) - {i} = set (ix_awaiting_event ix) - {i}"
    "i \<notin> set (ix_awaiting_event (follow_transition now key previous run ix))"
    "ix_has_event_waiters (follow_transition now key previous run ix) = (ix_awaiting_event (follow_transition now key previous run ix) \<noteq> [])"
    using adopt by (auto simp: follow_transition_def Let_def tr)
qed

text \<open>The state right after a paused run was made to resume, before its event is recorded.\<close>

definition resumed :: "('c, 'r) senv \<Rightarrow> micros \<Rightarrow> int \<Rightarrow> AppState \<Rightarrow> AppState" where
  "resumed env now i s = on_sched (\<lambda>d. snd (transition_run (env_of env) now i (resuming now) d)) s"

lemma resumed_facts:
  assumes run: "app_run env i s = Some run" and paused: "st_type (run_state run) = Paused"
  shows "transition_step env now k i (resuming now) s =
      obind (emit_run_event env now k (accepted_run (resuming now) run) (resumed env now i s)) (\<lambda>s'.
        obind (after_transition env now k (accepted_run (resuming now) run)
          (if st_timestamp (run_state run) = 0 then None else Some (run_state run)) s') (\<lambda>s'. Value (Accepted (accepted_run (resuming now) run), s')))"
    and "b \<noteq> i \<Longrightarrow> app_run env b (resumed env now i s) = app_run env b s"
    and "ap_answer_lock (resumed env now i s) = ap_answer_lock s" "sc_flows (ap_sched (resumed env now i s)) = sc_flows (ap_sched s)"
    and "set (ix_awaiting_event (sc_index (ap_sched (resumed env now i s)))) = set (ix_awaiting_event (sc_index (ap_sched s))) - {i}"
    and "ix_has_event_waiters (sc_index (ap_sched (resumed env now i s))) = (ix_awaiting_event (sc_index (ap_sched (resumed env now i s))) \<noteq> [])"
proof -
  from run obtain r flow where r: "get_row i (ap_sched s) = Some r" and flow: "app_flow (row_flow_id r) s = Some flow" and id: "row_id r = i"
    and eq: "run = run_from_row (env_of env) [] flow r" by (rule app_runE)
  obtain r' where tr: "transition RunTable i (resuming now) False (sd_db (sc_store (ap_sched s))) =
      Inr (resuming now, (sd_db (sc_store (ap_sched s)))\<lparr> db_runs := map (\<lambda>x. if row_id x = i then r' else x) (db_runs (sd_db (sc_store (ap_sched s)))) \<rparr>)"
    and r': "row_id r' = i"
    using paused_resumes[OF r] paused eq by auto
  have live: "\<not> is_terminal (resuming now)" "st_type (resuming now) \<noteq> Paused" by (simp_all add: is_terminal_def)
  show "transition_step env now k i (resuming now) s =
      obind (emit_run_event env now k (accepted_run (resuming now) run) (resumed env now i s)) (\<lambda>s'.
        obind (after_transition env now k (accepted_run (resuming now) run)
          (if st_timestamp (run_state run) = 0 then None else Some (run_state run)) s') (\<lambda>s'. Value (Accepted (accepted_run (resuming now) run), s')))"
    using run tr live by (simp add: transition_step_def Let_def resumed_def)
  define run1 where "run1 = run\<lparr> run_state := resuming now \<rparr>"
  obtain run2 where d: "ap_sched (resumed env now i s) = emit (Transitioned i (resuming now)) ((ap_sched s)\<lparr>
      sc_store := (sc_store (ap_sched s))\<lparr> sd_db := (sd_db (sc_store (ap_sched s)))\<lparr> db_runs := map (\<lambda>x. if row_id x = i then r' else x) (db_runs (sd_db (sc_store (ap_sched s)))) \<rparr> \<rparr>,
      sc_index := follow_transition now (EngineKey_from_flow flow) run run2 (sc_index (ap_sched s)) \<rparr>)"
    "run_id run2 = i" "run_state run2 = resuming now"
    using r flow tr live eq id by (simp add: resumed_def on_sched_def transition_run_def app_flow_def Let_def)
  show "b \<noteq> i \<Longrightarrow> app_run env b (resumed env now i s) = app_run env b s"
    using r' by (simp add: app_run_def app_flow_def get_flow_def get_row_def d emit_def find_map_other split: option.splits)
  show "ap_answer_lock (resumed env now i s) = ap_answer_lock s" by (simp add: resumed_def on_sched_def)
  show "sc_flows (ap_sched (resumed env now i s)) = sc_flows (ap_sched s)" by (simp add: d)
  have "run_id run = i" "\<not> is_awaiting_event (run_state run2)" using eq id d(3) by (simp_all add: is_awaiting_event_def)
  from follow_waiters[OF d(2) this, of now "EngineKey_from_flow flow" "sc_index (ap_sched s)"]
  show "set (ix_awaiting_event (sc_index (ap_sched (resumed env now i s)))) = set (ix_awaiting_event (sc_index (ap_sched s))) - {i}"
    "ix_has_event_waiters (sc_index (ap_sched (resumed env now i s))) = (ix_awaiting_event (sc_index (ap_sched (resumed env now i s))) \<noteq> [])"
    by (auto simp: d emit_def)
qed


lemma app_run_same:
  "sc_store (ap_sched s') = sc_store (ap_sched s) \<Longrightarrow> sc_flows (ap_sched s') = sc_flows (ap_sched s) \<Longrightarrow> app_run env i s' = app_run env i s"
  by (simp add: app_run_def app_flow_def get_row_def get_flow_def split: option.splits)

text \<open>While the answer lock is held, an event that answers a waiting run is never handled to the end.\<close>

lemma on_event_locked:
  assumes lock: "ap_answer_lock s" and b: "b \<in> set (ix_awaiting_event (sc_index (ap_sched s)))" "ix_has_event_waiters (sc_index (ap_sched s))"
    and w: "app_run env b s = Some waiter" "answers_event env (run_state waiter) e"
  shows "on_event env now k e s = Panic"
proof -
  have one: "wake_waiter env now k e j s = Value s \<or> wake_waiter env now k e j s = Panic" for j
    using lock by (auto simp: wake_waiter_def wake_paused_def locked_def split: option.splits)
  have hit: "wake_waiter env now k e b s = Panic"
    using lock w by (simp add: wake_waiter_def wake_paused_def locked_def)
  have "ofold (wake_waiter env now k e) js s = Panic" if "b \<in> set js" for js
    using that
  proof (induction js)
    case (Cons j js)
    then show ?case using one[of j] hit by (cases "j = b") auto
  qed simp
  then show ?thesis using b by (simp add: on_event_def Let_def)
qed

definition waits_for_any :: "('c, 'r) senv \<Rightarrow> int \<Rightarrow> string \<Rightarrow> AppState \<Rightarrow> bool" where
  "waits_for_any env b name s \<longleftrightarrow> b \<in> set (ix_awaiting_event (sc_index (ap_sched s))) \<and>
     (\<exists>waiter pattern. app_run env b s = Some waiter \<and> jmap_get (st_details (run_state waiter)) ''event'' = Some (JStr pattern)
        \<and> name_matches pattern name \<and> jmap_get (st_details (run_state waiter)) ''match'' = None)"

lemma resume_event: "run_event_name (resuming now) = Some RunResumed"
  by (simp add: run_event_name_def resuming_def State_new_def Let_def)

lemma accepted_run_fields [simp]: "run_state (accepted_run st run) = st" "run_id (accepted_run st run) = run_id run" "run_flow_id (accepted_run st run) = run_flow_id run"
  by (simp_all add: accepted_run_def Let_def)

lemma resumed_event_stuck:
  assumes run: "app_run env i s = Some run" and paused: "st_type (run_state run) = Paused" and lock: "ap_answer_lock s"
    and waiter: "b \<noteq> i" "waits_for_any env b ''run.resumed'' s"
  shows "emit_run_event env now (knot_at env now n) (accepted_run (resuming now) run) (resumed env now i s) = Panic"
proof (cases n)
  case (Suc m)
  note facts = resumed_facts[OF run paused]
  let ?run = "accepted_run (resuming now) run" and ?s = "resumed env now i s"
  obtain e s1 where a: "append_event env now (EventName_as_str RunResumed) (Some (run_id ?run)) (Some (run_flow_id ?run))
      (run_event_payload RunResumed ?run ?s) ?s = (e, s1)" by force
  note ev = append_event_events[OF a]
  let ?s2 = "on_sched (emit (RecordEvent RunResumed (Some (run_id ?run)) (Some (run_flow_id ?run)))) s1"
  have same: "sc_store (ap_sched ?s2) = sc_store (ap_sched ?s)" "sc_flows (ap_sched ?s2) = sc_flows (ap_sched ?s)" "sc_index (ap_sched ?s2) = sc_index (ap_sched ?s)"
    by (simp_all add: on_sched_def ev emit_def)
  have runs: "app_run env b ?s2 = app_run env b ?s" for b by (rule app_run_same[OF same(1,2)])
  obtain w pattern where w: "app_run env b s = Some w" "jmap_get (st_details (run_state w)) ''event'' = Some (JStr pattern)"
      "name_matches pattern ''run.resumed''" "jmap_get (st_details (run_state w)) ''match'' = None" "b \<in> set (ix_awaiting_event (sc_index (ap_sched s)))"
    using waiter(2) by (auto simp: waits_for_any_def)
  have "b \<in> set (ix_awaiting_event (sc_index (ap_sched ?s)))" using facts(5) w(5) waiter(1) by simp
  then have waits: "b \<in> set (ix_awaiting_event (sc_index (ap_sched ?s2)))" "ix_has_event_waiters (sc_index (ap_sched ?s2))"
    using facts(6)[of now] unfolding same by auto
  have locked: "ap_answer_lock ?s2" using lock facts(3) by (simp add: on_sched_def ev)
  have waiting: "app_run env b ?s2 = Some w" using runs facts(2)[OF waiter(1)] w(1) by simp
  have "answers_event env (run_state w) e" using w by (simp add: answers_event_def payload_matches_def wanted_payload_def ev)
  from on_event_locked[OF locked waits waiting this] have "on_event env now (knot_at env now m) e ?s2 = Panic" .
  then show ?thesis using Suc a by (simp add: emit_run_event_def resume_event record_event_def)
qed (simp add: emit_run_event_def resume_event record_event_def split: prod.splits)

lemma store_answer_keeps [simp]:
  "ap_sched (store_answer run v s) = ap_sched s" "ap_answer_lock (store_answer run v s) = ap_answer_lock s"
  by (simp_all add: store_answer_def Let_def)

section \<open>Sizing the pool leaves the line as it is\<close>

lemma fold_queue: "(\<And>x inner. in_queue (f x inner) = in_queue inner) \<Longrightarrow> in_queue (fold f xs inner) = in_queue inner"
  by (induction xs arbitrary: inner) auto

lemma engine_queue [simp]: "in_queue (put_engine e inner) = in_queue inner" "in_queue (snd (request_spawn p key inner)) = in_queue inner"
  "in_queue (start_on inst key w slot inner) = in_queue inner"
  by (simp_all add: put_engine_def request_spawn_def start_on_def Let_def)

lemma finish_starting_queue [simp]: "in_queue (finish_starting keys inner) = in_queue inner"
  unfolding finish_starting_def by (rule fold_queue) (simp add: finish_one_def split: option.splits)

lemma register_queue [simp]: "in_queue (register_engines inst mtime sp inner) = in_queue inner"
  unfolding register_engines_def by (rule fold_queue) (simp split: prod.splits)

lemma request_engines_queue: "in_queue (snd (snd (request_engines p m key n inner))) = in_queue inner"
  by (induction n arbitrary: inner) (auto simp: Let_def case_prod_unfold split: option.splits)

lemma plan_queue: "in_queue (snd (snd (capacity_plan p m d inner))) = in_queue inner"
proof -
  have "in_queue (snd (snd (fold (plan_key p m) d acc))) = in_queue (snd (snd acc))" for acc
  proof (induction d arbitrary: acc)
    case (Cons e d)
    have "in_queue (snd (snd (plan_key p m e acc))) = in_queue (snd (snd acc))"
      by (cases e; cases acc) (auto simp: plan_key_def Let_def case_prod_unfold request_engines_queue)
    then show ?case using Cons.IH by simp
  qed simp
  then show ?thesis by (simp add: capacity_plan_def)
qed

lemma spill_queue: "in_queue (spill inst key flows n inner) = in_queue inner"
  by (induction n arbitrary: inner) (auto split: option.splits)

lemma recheck_queue: "in_queue (snd (fold (recheck p m) d acc)) = in_queue (snd acc)"
proof (induction d arbitrary: acc)
  case (Cons e d)
  have "in_queue (snd (recheck p m e acc)) = in_queue (snd acc)"
    by (cases e; cases acc) (auto simp: recheck_def Let_def case_prod_unfold)
  then show ?case using Cons.IH by simp
qed simp

lemma ensure_capacity_queue: "in_queue (sv_inner (ensure_capacity inst now p mtime sp s)) = in_queue (sv_inner s)"
proof -
  obtain d pref where d: "demand_of now s = (d, pref)" by force
  let ?d = "add_jobs (sv_inner s) d"
  obtain reqs spills i1 where pl: "capacity_plan p (sv_max_engines s) ?d (sv_inner s) = (reqs, spills, i1)"
    by (cases "capacity_plan p (sv_max_engines s) ?d (sv_inner s)") auto
  let ?i2 = "register_engines inst mtime (spawn_all sp reqs) (finish_starting (map snd reqs) i1)"
  let ?i3 = "fold (\<lambda>(key, wanted, flows). spill_over inst key wanted flows) spills ?i2"
  let ?i4 = "fold (\<lambda>(key, worker). spawn_on inst key worker) pref ?i3"
  have "in_queue ?i3 = in_queue ?i2" by (rule fold_queue) (auto simp: spill_over_def spill_queue)
  moreover have "in_queue ?i4 = in_queue ?i3" by (rule fold_queue) (auto simp: spawn_on_def Let_def split: option.splits)
  moreover have "in_queue i1 = in_queue (sv_inner s)" using plan_queue[of p "sv_max_engines s" ?d "sv_inner s"] pl by simp
  moreover obtain again i5 where rc: "fold (recheck p (sv_max_engines s)) ?d ([], ?i4) = (again, i5)" by force
  moreover from rc have "in_queue i5 = in_queue ?i4" using recheck_queue[of p "sv_max_engines s" ?d "([], ?i4)"] by simp
  ultimately show ?thesis using d pl by (simp add: ensure_capacity_def)
qed

definition queued_runs :: "AppState \<Rightarrow> int set" where
  "queued_runs s = qr_run_id ` set (queue_line (sv_inner (ap_sup s)))"

lemma queue_run_queues:
  assumes "queue_ok (sv_inner (ap_sup s))"
  shows "run_id run \<in> queued_runs (queue_run env now options run flow nb s)"
    "ap_kv (queue_run env now options run flow nb s) = ap_kv s"
    "ap_answer_lock (queue_run env now options run flow nb s) = ap_answer_lock s"
proof -
  have "\<exists>s1 q. queue_run env now options run flow nb s = ensure env now (on_sup (enqueue q) s1)
      \<and> qr_run_id q = run_id run \<and> sv_inner (ap_sup s1) = sv_inner (ap_sup s) \<and> ap_kv s1 = ap_kv s \<and> ap_answer_lock s1 = ap_answer_lock s"
    unfolding queue_run_def Let_def
    by (intro exI conjI) (rule refl, auto simp: queue_item_def Let_def set_total_def on_sup_def timer_push_def on_sched_def set_run_priority_def
        set_app_rows_def split: option.splits prod.splits)
  then obtain s1 q where s1: "queue_run env now options run flow nb s = ensure env now (on_sup (enqueue q) s1)"
    and q: "qr_run_id q = run_id run" and i: "sv_inner (ap_sup s1) = sv_inner (ap_sup s)" and "ap_kv s1 = ap_kv s" "ap_answer_lock s1 = ap_answer_lock s" by blast
  then show "ap_kv (queue_run env now options run flow nb s) = ap_kv s" "ap_answer_lock (queue_run env now options run flow nb s) = ap_answer_lock s"
    by (simp_all add: ensure_def on_sup_def)
  have "qr_run_id q \<in> qr_run_id ` set (queue_line (inner_push q (sv_inner (ap_sup s))))"
    using inner_push_facts(2)[OF assms, of q] by auto
  then show "run_id run \<in> queued_runs (queue_run env now options run flow nb s)"
    by (simp add: s1 queued_runs_def ensure_def on_sup_def queue_line_def ensure_capacity_queue enqueue_def i q)
qed


section \<open>An answer nobody else waits for\<close>

lemma record_event_quiet:
  assumes "\<not> ix_has_event_waiters (sc_index (ap_sched s))"
  shows "\<exists>s'. record_event env now (knot_at env now (Suc n)) name run flow payload s = Value s' \<and> ap_kv s' = ap_kv s
    \<and> ap_answer_lock s' = ap_answer_lock s \<and> ap_sup s' = ap_sup s \<and> sc_flows (ap_sched s') = sc_flows (ap_sched s)"
proof -
  obtain e s1 where a: "append_event env now (EventName_as_str name) run flow payload s = (e, s1)" by force
  then have "ap_kv s1 = ap_kv s" by (auto simp: append_event_def Let_def split: prod.splits)
  then show ?thesis using assms a append_event_events[OF a] by (simp add: record_event_def on_event_def Let_def on_sched_def emit_def)
qed

lemma stored_after:
  "stored_answers i (s\<lparr> ap_kv := AList.update (run_input_key i) (answers_value m) kv \<rparr>) = m"
  by (simp add: stored_answers_def answers_value_def jobj_def value_get_def json_int_def jmap_get_def update_conv' Let_def i64_max_def)

lemma jobj_get: "value_get (jobj kvs) k = map_of (rev kvs) k"
proof -
  have "jmap_get (fold (\<lambda>(k, v). jmap_insert k v) kvs m) k = (case map_of (rev kvs) k of Some v \<Rightarrow> Some v | None \<Rightarrow> jmap_get m k)" for m
    by (induction kvs arbitrary: m) (auto simp: map_add_def split: option.splits)
  then show ?thesis by (simp add: jobj_def value_get_def jmap_get_def split: option.splits)
qed

lemma stored_answers_kv: "ap_kv s' = ap_kv s \<Longrightarrow> stored_answers i s' = stored_answers i s"
  by (simp add: stored_answers_def)

lemma answer_succeeds:
  assumes run: "app_run env i s = Some run" and paused: "st_type (run_state run) = Paused" and lock: "\<not> ap_answer_lock s"
    and alone: "set (ix_awaiting_event (sc_index (ap_sched s))) \<subseteq> {i}"
    and flow: "app_flow (run_flow_id run) s = Some flow" "fo_max_concurrent (options_of env flow) = None"
    and line: "inner_ok (sv_inner (ap_sup s))"
  shows "\<exists>run' s'. wake_paused env now (knot_at env now (Suc (Suc n))) run (answer_with v) s = Value (Inr (Done (Accepted run')), s')
    \<and> run_state run' = resuming now \<and> i \<in> queued_runs s' \<and> \<not> ap_answer_lock s'
    \<and> Option.bind (jmap_get (stored_answers i s') (show_int (answer_index (run_state run)))) (\<lambda>a. value_get a ''input'') = Some v"
proof -
  define s0 where "s0 = store_answer run v (s\<lparr> ap_answer_lock := True \<rparr>)"
  let ?run = "accepted_run (resuming now) run" and ?s = "resumed env now i s0" and ?k = "knot_at env now (Suc n)"
  have i: "run_id run = i" using run by (auto elim: app_runE)
  have s0: "ap_sched s0 = ap_sched s" "ap_sup s0 = ap_sup s" by (simp_all add: s0_def store_answer_def Let_def)
  have runs: "app_run env j s0 = app_run env j s" "app_run env j (s\<lparr> ap_answer_lock := True \<rparr>) = app_run env j s" for j
    by (rule app_run_same; simp add: s0)+
  note facts = resumed_facts[OF run[folded runs(1)] paused, of now]
  have kv: "ap_kv ?s = ap_kv s0" "ap_sup ?s = ap_sup s" by (simp_all add: resumed_def on_sched_def s0)
  have "set (ix_awaiting_event (sc_index (ap_sched ?s))) = {}" using facts(5) alone s0 by auto
  then have "\<not> ix_has_event_waiters (sc_index (ap_sched ?s))" using facts(6) by simp
  from record_event_quiet[OF this, of env now n RunResumed "Some (run_id ?run)" "Some (run_flow_id ?run)" "run_event_payload RunResumed ?run ?s"]
  obtain s1 where s1: "emit_run_event env now ?k ?run ?s = Value s1" "ap_kv s1 = ap_kv s0" "ap_sup s1 = ap_sup s" "ap_answer_lock s1 = ap_answer_lock ?s"
      "sc_flows (ap_sched s1) = sc_flows (ap_sched ?s)"
    by (auto simp: emit_run_event_def resume_event kv Let_def)
  have fl: "app_flow (run_flow_id run) s1 = Some flow" using flow(1) s1(5) facts(4) s0 by (simp add: app_flow_def get_flow_def)
  have "after_transition env now ?k ?run prev s1 = Value s1" for prev
    using fl by (simp add: after_transition_def react_def continue_loop_def is_terminal_def split: option.splits)
  then have moved: "k_transition (knot_at env now (Suc (Suc n))) i (resuming now) s0 = Value (Accepted ?run, s1)"
    using facts(1)[of ?k] s1(1) by simp
  let ?s2 = "queue_run env now (options_of env flow) ?run flow None s1"
  have "enqueue_run env now (knot_at env now (Suc (Suc n))) ?run flow None s1 = Value ?s2"
    using flow(2) by (simp add: enqueue_run_def check_overlap_def is_terminal_def Let_def)
  then have woke: "wake_locked env now (knot_at env now (Suc (Suc n))) run v (s\<lparr> ap_answer_lock := True \<rparr>) = Value (Inr (Done (Accepted ?run)), ?s2)"
    using moved flow(1) i by (simp add: wake_locked_def app_flow_def s0_def[symmetric])
  have "queue_ok (sv_inner (ap_sup s1))" using line s1(3) by (simp add: inner_ok_def)
  note q = queue_run_queues[OF this, where run = ?run and env = env and now = now and options = "options_of env flow" and flow = flow and nb = None]
  have "stored_answers i ?s2 = stored_answers i s0" using q(2) s1(2) by (intro stored_answers_kv) simp
  then have "Option.bind (jmap_get (stored_answers i ?s2) (show_int (answer_index (run_state run)))) (\<lambda>a. value_get a ''input'') = Some v"
    by (simp add: s0_def store_answer_def Let_def i stored_after jobj_get)
  moreover have "wake_paused env now (knot_at env now (Suc (Suc n))) run (answer_with v) s = Value (Inr (Done (Accepted ?run)), ?s2\<lparr> ap_answer_lock := False \<rparr>)"
    using woke run paused lock i runs(2) by (simp add: wake_paused_def locked_def answer_with_def)
  ultimately show ?thesis
    using q(1) i by (intro exI[of _ ?run] exI[of _ "?s2\<lparr> ap_answer_lock := False \<rparr>"]) (simp add: queued_runs_def stored_answers_def)
qed

section \<open>One answer per pause\<close>

definition not_paused :: "int \<Rightarrow> AppState \<Rightarrow> bool" where
  "not_paused i s \<longleftrightarrow> (\<forall>r \<in> set (app_rows s). row_id r = i \<longrightarrow> st_type (state_of_row r) \<noteq> Paused)"

lemma not_pausedI:
  assumes "not_paused i s" "\<And>r. r \<in> set (app_rows s') \<Longrightarrow> \<exists>q \<in> set (app_rows s). row_id r = row_id q \<and> row_state r = row_state q"
  shows "not_paused i s'"
  using assms unfolding not_paused_def state_of_row_def by metis

lemma state_of_row_Some: "row_state r = Some st \<Longrightarrow> state_of_row r = st"
  by (simp add: state_of_row_def)

lemma transition_run_others:
  assumes "r \<in> set (db_runs (sd_db (sc_store (snd (transition_run env now i st d)))))"
  shows "row_state r = Some st \<or> (\<exists>q \<in> set (db_runs (sd_db (sc_store d))). row_id r = row_id q \<and> row_state r = row_state q)"
proof -
  obtain b d' where t: "transition_run env now i st d = (b, d')" by force
  then show ?thesis
  proof (cases rule: transition_run_cases)
    case (accepted new db)
    have "\<exists>q \<in> set (db_runs db). row_id r = row_id q \<and> row_state r = row_state q"
      using assms t accepted(5) engine_origins[of r i None None "(sc_store d)\<lparr> sd_db := db \<rparr>"]
      by (auto simp del: schedule_execute.simps split: if_splits)
    then obtain q where q: "q \<in> set (db_runs db)" "row_id r = row_id q" "row_state r = row_state q" by blast
    show ?thesis
    proof (cases "row_id q = i")
      case True
      then show ?thesis using transition_rests(1)[OF accepted(2) q(1)] q(3) by simp
    next
      case False
      obtain x r' where x: "row_id x = i" "transition_row RunTable st False x = Inr (new, r')"
        and db: "db = set_table_rows RunTable (map (\<lambda>x. if row_id x = i then r' else x) (table_rows RunTable (sd_db (sc_store d)))) (sd_db (sc_store d))"
        by (rule transition_Inr[OF accepted(2)])
      have "row_id r' = i" using transition_row_Inr(5)[OF x(2)] x(1) by simp
      then have "q \<in> set (db_runs (sd_db (sc_store d)))"
        using q(1) False unfolding db by (auto simp: table_rows_def set_table_rows_def split: if_splits)
      then show ?thesis using q by blast
    qed
  qed (use assms t in auto)
qed

lemma created_state:
  assumes "create_run ext now req db = Inr (i, db')" "r \<in> set (db_runs db')" "row_id r = i"
  shows "row_state r = cr_initial_state req"
proof -
  note ins = create_run_Inr(1)[OF assms(1)]
  let ?new = "new_row i ext now req"
  have i: "i = next_rowid (db_runs db)" using insert_run_Inr(1)[OF ins] .
  have fresh: "row_id q \<noteq> i" if "q \<in> set (db_runs db)" for q using next_rowid_fresh[OF that] i by auto
  show ?thesis
  proof (cases "cr_initial_state req")
    case None
    then have "db_runs db' = db_runs db @ [?new]" using ins i by (auto simp: insert_run_def Let_def split: if_splits)
    then have "r = ?new" using assms(2,3) fresh by auto
    then show ?thesis using None by (simp add: new_row_def row_state_def state_from_columns_def)
  next
    case (Some st)
    then obtain new where tr: "transition RunTable i st False (db\<lparr> db_runs := db_runs db @ [?new] \<rparr>) = Inr (new, db')"
      using ins i by (auto simp: insert_run_def Let_def split: if_splits sum.splits)
    show ?thesis using transition_rests(1)[OF tr assms(2,3)] Some by simp
  qed
qed

lemma not_paused_step:
  assumes "app_step (\<lambda>_ st. st_type st \<noteq> Paused) env now s s'" "not_paused j s"
  shows "not_paused j s'"
  using assms(1)
proof cases
  case (recorded name run flow payload)
  then show ?thesis using append_event_events(5)[of env now name run flow payload s] assms(2) unfolding not_paused_def app_rows_def by (metis prod.collapse)
next
  case (claimed q i topic index)
  then show ?thesis using claim_message_keeps(2)[of q i topic index s] assms(2) unfolding not_paused_def app_rows_def by (metis prod.collapse)
next
  case (moved i st)
  show ?thesis
    unfolding not_paused_def
  proof (intro ballI impI)
    fix r
    assume r: "r \<in> set (app_rows s')" "row_id r = j"
    then have "r \<in> set (db_runs (sd_db (sc_store (snd (transition_run (env_of env) now i st (ap_sched s))))))"
      using moved(1) by (simp add: app_rows_def on_sched_def)
    from transition_run_others[OF this] show "st_type (state_of_row r) \<noteq> Paused"
    proof
      assume "\<exists>q \<in> set (db_runs (sd_db (sc_store (ap_sched s)))). row_id r = row_id q \<and> row_state r = row_state q"
      then obtain q where q: "q \<in> set (app_rows s)" "row_id q = j" "row_state q = row_state r" using r by (auto simp: app_rows_def)
      then have "st_type (state_of_row q) \<noteq> Paused" using assms(2) unfolding not_paused_def by blast
      then show ?thesis using q(3) by (simp add: state_of_row_def)
    qed (use moved(2) in \<open>simp add: state_of_row_Some\<close>)
  qed
next
  case (created ext req i db)
  have rows: "app_rows s' = db_runs db" using created(1) by (simp add: app_rows_def on_sched_def)
  show ?thesis
    unfolding not_paused_def rows
  proof (intro ballI impI)
    fix r
    assume r: "r \<in> set (db_runs db)" "row_id r = j"
    show "st_type (state_of_row r) \<noteq> Paused"
    proof (cases "row_id r = i")
      case True
      have "row_state r = cr_initial_state req" by (rule created_state[OF created(2) r(1) True])
      then show ?thesis using created(3) by (auto simp: state_of_row_def new_run_ok_def with_timestamp_def split: option.splits)
    next
      case False
      then have "r \<in> set (app_rows s)" using created_origins[OF created(2) r(1)] by (simp add: app_rows_def)
      then show ?thesis using assms(2) r(2) by (simp add: not_paused_def)
    qed
  qed
next
  case (commanded c)
  have "\<exists>q \<in> set (app_rows s). row_id r = row_id q \<and> row_state r = row_state q" if "r \<in> set (app_rows s')" for r
    using commanded that
    by (cases c) (auto simp: app_rows_def on_sched_def patch_schedule_def delete_unstarted_runs_def reschedule_run_def move_run_def
        delete_skips_before_def row_state_def Let_def split: if_splits)
  then show ?thesis by (rule not_pausedI[OF assms(2)])
next
  case (amended i l p)
  then show ?thesis
    by (intro not_pausedI[OF assms(2)]) (auto simp: app_rows_def set_app_rows_def on_sched_def row_state_def)
qed (use assms(2) in \<open>simp_all add: not_paused_def app_rows_def on_sup_def message_insert_def\<close>)

lemma not_paused_reach: "reach (\<lambda>_ st. st_type st \<noteq> Paused) env now s s' \<Longrightarrow> not_paused i s \<Longrightarrow> not_paused i s'"
  by (rule reach_invariant[where I = "not_paused i"]) (auto intro: not_paused_step)

lemma wake_locked_leaves:
  assumes "wake_locked env now (knot_at env now n) run v s = Value (Inr (Done (Accepted run')), s')"
  shows "not_paused (run_id run) s'"
  using assms
proof (cases rule: unpaused.wake_lockedE)
  case (woken flow run'' s1)
  from unpaused.accepted[OF _ woken(1)] obtain s0 where s0: "rests_in (run_id run) (resuming now) s0"
      "reach (\<lambda>_ st. st_type st \<noteq> Paused) env now s0 s1" by auto
  have "not_paused (run_id run) s0" using s0(1) by (auto simp: rests_in_def not_paused_def state_of_row_Some)
  then show ?thesis using not_paused_reach[OF s0(2)] not_paused_reach[OF unpaused.enqueue_run_reach[OF woken(2)]] by blast
qed auto

section \<open>Messages\<close>

lemma crash_chain_self [simp]: "crash_chain n rows i \<noteq> []" "hd (crash_chain n rows i) = i"
  by (cases n; auto split: option.splits)+

lemma chain_first: "\<exists>rest. crash_chain n rows i = i # rest"
  using crash_chain_self[of n rows i] by (cases "crash_chain n rows i") auto

lemma bound_after_claim:
  assumes "claim_message chain i topic index s = (Some a, s')"
  shows "bound_answer topic index s' i = Some a" "app_rows s' = app_rows s"
proof -
  define old where "old = (case Option.bind (Option.bind (map_of (ap_kv s) (run_input_key i)) (\<lambda>v. value_get v ''answers'')) jobject of
      Some a \<Rightarrow> a | None \<Rightarrow> [])"
  have "\<exists>p ms. a = jobj [(''topic'', JStr topic), (''input'', p)] \<and> s' = s\<lparr> ap_messages := ms,
      ap_kv := AList.update (run_input_key i) (answers_value (jmap_insert (show_int index) a old)) (ap_kv s) \<rparr>"
    using assms unfolding claim_message_def old_def[symmetric]
    by (auto simp: Let_def split: option.splits prod.splits)
  then obtain p ms where a: "a = jobj [(''topic'', JStr topic), (''input'', p)]" and s': "s' = s\<lparr> ap_messages := ms,
      ap_kv := AList.update (run_input_key i) (answers_value (jmap_insert (show_int index) a old)) (ap_kv s) \<rparr>" by blast
  show "app_rows s' = app_rows s" by (simp add: s' app_rows_def)
  have "value_get a ''topic'' = Some (JStr topic)" by (simp add: a jobj_get)
  then show "bound_answer topic index s' i = Some a"
    by (simp add: bound_answer_def s' answers_value_def update_conv' jobj_get)
qed

lemma claim_then_replay:
  assumes "run_message_claim q i topic index s = (Some a, s')"
  shows "run_message_claim False i topic index s' = (Some a, s')"
proof (cases "(if q then [] else List.map_filter (bound_answer topic index s) (crash_chain 50 (app_rows s) i))")
  case Nil
  then have c: "claim_message (crash_chain 50 (app_rows s) i) i topic index s = (Some a, s')"
    using assms by (simp add: run_message_claim_def Let_def)
  obtain rest where "crash_chain 50 (app_rows s') i = i # rest" using chain_first by blast
  then show ?thesis using bound_after_claim[OF c] by (simp add: run_message_claim_def Let_def List.map_filter_simps)
next
  case (Cons x xs)
  then show ?thesis using assms by (auto simp: run_message_claim_def Let_def split: if_splits)
qed

lemma no_sum: "\<forall>x. a \<noteq> Inl x \<Longrightarrow> \<forall>x. a \<noteq> Inr x \<Longrightarrow> Q"
  by (cases a) auto

lemma deliver_queued_state:
  assumes "deliver_message env now k i topic payload s = Value (Inr (Queued run), s')"
  shows "s' = message_insert (run_id run) topic payload s"
proof -
  let ?s = "s\<lparr> ap_answer_lock := True \<rparr>"
  obtain s1 where s1: "(if app_run env i ?s = None then Value (Inl ''run not found'', ?s)
     else case app_run env (crash_chain_head (app_rows ?s) i) ?s of
       None \<Rightarrow> Value (Inl ''run not found'', ?s)
     | Some run \<Rightarrow>
        if st_type (run_state run) = Paused \<and> Option.bind (jmap_get (st_details (run_state run)) ''topic'') as_str = Some topic
        then obind (wake_locked env now k run payload ?s) (\<lambda>(r, s).
               Value (case r of Inl e \<Rightarrow> Inl e | Inr w \<Rightarrow> Inr (WokeBy w), s))
        else if is_terminal (run_state run) \<and> \<not> chain_continues env run ?s
        then Value (Inl ''run is terminal'', ?s)
        else Value (Inr (Queued run), message_insert (run_id run) topic payload ?s)) = Value (Inr (Queued run), s1)"
    and s': "s' = s1\<lparr> ap_answer_lock := False \<rparr>" "\<not> ap_answer_lock s"
    using assms unfolding deliver_message_def by (rule lockedE)
  have "s1 = message_insert (run_id run) topic payload ?s"
    using s1 by (auto simp: obind_Value split: if_splits option.splits sum.splits elim: no_sum)
  then show ?thesis using s' by (simp add: message_insert_def)
qed

lemma consume_last:
  "\<forall>m \<in> set ms. \<not> P m \<Longrightarrow> P m' \<Longrightarrow> consume_first P (ms @ [m']) = Some (m', ms @ [used_up m'])"
  by (induction ms) (auto simp: used_up_def)

section \<open>A resumed run of a schedule\<close>

lemma find_filtered: "\<forall>r \<in> set rows. row_id r = i \<longrightarrow> \<not> Q r \<Longrightarrow> List.find (\<lambda>r. row_id r = i) (filter Q rows) = None"
  by (auto simp: find_None_iff)

lemma pause_deletes:
  assumes "r \<in> set (db_runs (sd_db (sc_store d)))" "unstarted sid r" "row_id r = i"
  shows "get_row i (Scheduler.pause now sid reason until d) = None"
proof -
  obtain p where p: "sc_store (Scheduler.pause now sid reason until d) =
      schedule_execute (DeleteUnstartedRuns sid) (schedule_execute (PatchSchedule now sid p) (sc_store d))"
    using pause_store(1) by blast
  have "i \<in> row_id ` (set (db_runs (sd_db (sc_store d))) \<inter> Collect (unstarted sid))" using assms by auto
  then show ?thesis
    by (auto simp: get_row_def p patch_schedule_def delete_unstarted_runs_def Let_def find_None_iff)
qed

section \<open>A server to evaluate on\<close>

definition served_env :: "(unit, unit) senv" where
  "served_env = env.extend plain_env (senv.fields 7 (\<lambda>_. None) (\<lambda>_ _. None) (\<lambda>_ _. None) (\<lambda>_. ''0''))"

text \<open>A run of a schedule, started.\<close>

definition started_run :: "int \<Rightarrow> micros \<Rightarrow> ScheduleCommand list" where
  "started_run i fire = [RunCmd (CreateRunCmd ''x'' 10 (fire_request\<lparr> cr_scheduled_time := Some fire \<rparr>)),
     RunCmd (TransitionCmd RunTable i (State_new 20 Pending) False), RunCmd (TransitionCmd RunTable i (State_new 30 Running) False)]"

definition waits_in :: "int \<Rightarrow> string \<Rightarrow> jmap \<Rightarrow> ScheduleCommand" where
  "waits_in i name details = RunCmd (TransitionCmd RunTable i ((State_new 40 Paused)\<lparr> st_name := name, st_details := details \<rparr>) False)"

definition served_app :: "ScheduleCommand list \<Rightarrow> AppState" where
  "served_app cmds = \<lparr> ap_sched = plain_sched\<lparr> sc_table := [], sc_store := fold schedule_execute cmds empty_sdb \<rparr>,
     ap_sup = Supervisor_new [] 0 4 8, ap_graph = [], ap_backfills = [], ap_kv = [], ap_emitted = [], ap_events = [],
     ap_messages = [], ap_answer_lock = False, ap_spawned = [], ap_terminated = [], ap_crash_retries = 2, ap_fast_crash_rerun = True \<rparr>"

definition running_app :: AppState where
  "running_app = served_app (started_run 1 60)"

definition asking_app :: AppState where
  "asking_app = served_app (started_run 1 60 @ [waits_in 1 ''Paused'' [(''topic'', JStr ''go'')]])"

text \<open>Beside it, a run that waits for any event of a run.\<close>

definition watching_cmds :: "ScheduleCommand list" where
  "watching_cmds = started_run 1 60 @ started_run 2 120
     @ [waits_in 1 ''Paused'' [(''topic'', JStr ''go'')], waits_in 2 ''AwaitingEvent'' [(''event'', JStr ''run.*'')]]"

definition watched_app :: AppState where
  "watched_app = on_sched (\<lambda>d. d\<lparr> sc_index := set_waiting 2 True (sc_index d) \<rparr>) (served_app watching_cmds)"

definition read_run :: "int \<Rightarrow> AppState \<Rightarrow> Run" where
  "read_run i s = the (app_run served_env i s)"

lemma served_ok: "sdb_ok (sc_store (ap_sched (served_app cmds)))" "inner_ok (sv_inner (ap_sup (served_app cmds)))" "events_ok (ap_events (served_app cmds))"
proof -
  have "sdb_ok empty_sdb" by (simp add: sdb_ok_def fires_once_def skips_ok_def empty_sdb_def empty_db_def)
  then show "sdb_ok (sc_store (ap_sched (served_app cmds)))"
    using schedule_writer.runs[of empty_sdb cmds] by (simp add: served_app_def)
qed (simp_all add: served_app_def Supervisor_new_ok events_ok_def)

lemma asking_run: "app_run served_env 1 asking_app = Some (read_run 1 asking_app)" "st_type (run_state (read_run 1 asking_app)) = Paused"
  "app_flow (run_flow_id (read_run 1 asking_app)) asking_app = Some plain_flow" "run_engine_pid (read_run 1 asking_app) = None"
  "run_schedule_id (read_run 1 asking_app) = Some 1" "run_start_time (read_run 1 asking_app) = Some 30"
proof -
  have "app_run served_env 1 asking_app \<noteq> None" by code_simp
  then show "app_run served_env 1 asking_app = Some (read_run 1 asking_app)" by (simp add: read_run_def)
qed (code_simp+)

section \<open>Properties\<close>


definition some_history :: "(micros \<times> nat \<times> request) list" where
  "some_history = [(100, 2, Send 1 ''go'' (JStr ''A'')), (110, 2, Claim False 1 ''go'' 0), (120, 2, RerunTimer 1), (130, 2, WakeTimer 1)]"

lemma some_history_returns: "\<exists>s'. ofold (\<lambda>(now, n, req). serve served_env now n req) some_history running_app = Value s'"
proof -
  have "(case ofold (\<lambda>(now, n, req). serve served_env now n req) some_history running_app of Value s' \<Rightarrow> True | Panic \<Rightarrow> False)"
    by code_simp
  then show ?thesis by (simp split: outcome.splits)
qed

lemma running_ok: "app_ok running_app"
proof -
  have "one_rerun (app_rows running_app)" by code_simp
  then show ?thesis using served_ok[of "started_run 1 60"] by (simp add: app_ok_def running_app_def)
qed


text \<open>
  Whatever the server handles, it never takes back what it recorded: recorded events stay where they are,
  a queued message keeps its run, topic and payload and is at most marked consumed, and the answer lock is given back.
\<close>

theorem nothing_recorded_is_lost:
  assumes "ofold (\<lambda>(now, n, req). serve env now n req) reqs s = Value s'"
  shows "(\<exists>es. ap_events s' = ap_events s @ es) \<and> ap_answer_lock s' = ap_answer_lock s
    \<and> (\<exists>ms ms'. ap_messages s' = ms @ ms' \<and> list_all2 (\<lambda>m m'. m' = m \<or> m' = m\<lparr> ms_consumed := True \<rparr>) (ap_messages s) ms)"
  using history_reach(1,3)[OF assms] by (simp add: grows_def used_up_def)

theorem nothing_recorded_is_lost_witness:
  "\<exists>s'. ofold (\<lambda>(now, n, req). serve served_env now n req) some_history running_app = Value s' \<and> \<not> ap_answer_lock s'"
proof -
  obtain s' where s': "ofold (\<lambda>(now, n, req). serve served_env now n req) some_history running_app = Value s'"
    using some_history_returns by blast
  have "\<not> ap_answer_lock running_app" by (simp add: running_app_def served_app_def)
  then show ?thesis using s' nothing_recorded_is_lost[OF s'] by auto
qed

text \<open>
  C6: When no other run waits for an event and the flow has no concurrency cap, answering the
  pause of a run succeeds: the run is accepted as resuming and stands in the
  dispatch queue, the answer is stored at the index of the question, and the answer lock is given back.
\<close>

theorem answered_run_is_queued:
  assumes "app_run env i s = Some run" "st_type (run_state run) = Paused" "\<not> ap_answer_lock s"
    and "set (ix_awaiting_event (sc_index (ap_sched s))) \<subseteq> {i}"
    and "app_flow (run_flow_id run) s = Some flow" "fo_max_concurrent (options_of env flow) = None"
    and "inner_ok (sv_inner (ap_sup s))"
  shows "\<exists>run' s'. wake_paused env now (knot_at env now (Suc (Suc n))) run (answer_with v) s = Value (Inr (Done (Accepted run')), s')
    \<and> run_state run' = resuming now \<and> i \<in> queued_runs s' \<and> \<not> ap_answer_lock s'
    \<and> Option.bind (jmap_get (stored_answers i s') (show_int (answer_index (run_state run)))) (\<lambda>a. value_get a ''input'') = Some v"
  by (rule answer_succeeds[OF assms])

lemma asking_app_fields: "\<not> ap_answer_lock asking_app" "set (ix_awaiting_event (sc_index (ap_sched asking_app))) \<subseteq> {1}"
  "fo_max_concurrent (options_of served_env plain_flow) = None" "inner_ok (sv_inner (ap_sup asking_app))"
  by (simp_all add: asking_app_def served_ok(2)) (simp add: served_app_def, code_simp+)

theorem answered_run_is_queued_witness:
  "\<exists>run' s'. wake_paused served_env 100 (knot_at served_env 100 (Suc (Suc 0))) (read_run 1 asking_app) (answer_with (JStr ''yes'')) asking_app
     = Value (Inr (Done (Accepted run')), s') \<and> 1 \<in> queued_runs s'"
  using answered_run_is_queued[OF asking_run(1,2) asking_app_fields(1,2) asking_run(3) asking_app_fields(3,4)] by blast







text \<open>
  C37: Answering a paused run never returns while another run waits for an event that its resumption
  records: the answer lock is held while the event \<^verbatim>\<open>run.resumed\<close> is recorded, recording it
  answers the waiting run, and that takes the same lock again.
\<close>

theorem answer_deadlocks:
  assumes "app_run env i s = Some run" "st_type (run_state run) = Paused" "\<not> ap_answer_lock s"
    and "b \<noteq> i" "waits_for_any env b ''run.resumed'' s"
  shows "wake_paused env now (knot_at env now n) run (answer_with v) s = Panic"
proof -
  let ?s = "s\<lparr> ap_answer_lock := True \<rparr>"
  have i: "run_id run = i" using assms(1) by (auto elim: app_runE)
  have flow: "app_flow (run_flow_id run) ?s \<noteq> None" using assms(1) by (auto elim!: app_runE simp: app_flow_def)
  have cong: "app_run env j (store_answer run v ?s) = app_run env j s" "app_run env j ?s = app_run env j s" for j
    by (rule app_run_same; simp)+
  have "k_transition (knot_at env now n) i (resuming now) (store_answer run v ?s) = Panic"
  proof (cases n)
    case (Suc m)
    have "waits_for_any env b ''run.resumed'' (store_answer run v ?s)" using assms(5) by (simp add: waits_for_any_def cong)
    then have "emit_run_event env now (knot_at env now m) (accepted_run (resuming now) run) (resumed env now i (store_answer run v ?s)) = Panic"
      using assms by (intro resumed_event_stuck[where b = b]) (simp_all add: cong)
    then show ?thesis
      using resumed_facts(1)[of env i "store_answer run v ?s" run now "knot_at env now m"] assms Suc by (simp add: cong)
  qed simp
  then show ?thesis
    using assms(1,2,3) i flow by (auto simp: wake_paused_def locked_def cong answer_with_def wake_locked_def)
qed


theorem answer_deadlocks_witness:
  "wake_paused served_env 100 (knot_at served_env 100 1000) (read_run 1 watched_app) (answer_with (JStr ''yes'')) watched_app = Panic"
proof -
  have one: "app_run served_env 1 watched_app \<noteq> None" "st_type (run_state (read_run 1 watched_app)) = Paused" by code_simp+
  have two: "app_run served_env 2 watched_app \<noteq> None" by code_simp
  have "jmap_get (st_details (run_state (read_run 2 watched_app))) ''event'' = Some (JStr ''run.*'')"
      "jmap_get (st_details (run_state (read_run 2 watched_app))) ''match'' = None" "name_matches ''run.*'' ''run.resumed''" by code_simp+
  moreover have "2 \<in> set (ix_awaiting_event (sc_index (ap_sched watched_app)))" by (simp add: watched_app_def on_sched_def)
  ultimately have "waits_for_any served_env 2 ''run.resumed'' watched_app" using two by (auto simp: waits_for_any_def read_run_def)
  moreover have "\<not> ap_answer_lock watched_app" by (simp add: watched_app_def served_app_def on_sched_def)
  ultimately show ?thesis using one by (intro answer_deadlocks[where i = 1 and b = 2]) (auto simp: read_run_def)
qed

text \<open>
  C38: Pausing a schedule deletes a run of it that had started: a run that paused, was
  answered and waits for an engine to resume on is in the state Scheduled without an engine, and
  that is all the deletion of unstarted runs asks for.
\<close>

theorem pausing_deletes_resumed_run:
  assumes run: "app_run env i s = Some run" "st_type (run_state run) = Paused" "run_engine_pid run = None" "run_schedule_id run = Some sid"
  shows "get_row i (Scheduler.pause now' sid reason until (ap_sched (resumed env now i s))) = None"
proof -
  from run(1) obtain r flow where r: "get_row i (ap_sched s) = Some r" and flow: "app_flow (row_flow_id r) s = Some flow" and id: "row_id r = i"
    and eq: "run = run_from_row (env_of env) [] flow r" by (rule app_runE)
  have pid: "row_engine_pid r = None" "row_schedule_id r = Some sid" using run(3,4) eq by (simp_all add: run_from_row_def)
  obtain r' where tr: "transition RunTable i (resuming now) False (sd_db (sc_store (ap_sched s))) =
      Inr (resuming now, (sd_db (sc_store (ap_sched s)))\<lparr> db_runs := map (\<lambda>x. if row_id x = i then r' else x) (db_runs (sd_db (sc_store (ap_sched s)))) \<rparr>)"
    and r': "row_id r' = i" "transition_row RunTable (resuming now) False r = Inr (resuming now, r')"
    using paused_resumes[OF r, of now] run(2) eq by auto
  have un: "unstarted sid r'"
    using r'(2) pid by (auto simp: transition_row_def unstarted_def write_checkpoint_def write_state_def Let_def split: sum.splits)
  have "r \<in> set (db_runs (sd_db (sc_store (ap_sched s))))" using r by (auto simp: get_row_def find_Some_iff)
  then have "r' \<in> set (db_runs (sd_db (sc_store (ap_sched (resumed env now i s)))))"
    using r flow tr id by (force simp: resumed_def on_sched_def transition_run_def app_flow_def Let_def emit_def is_terminal_def)
  then show ?thesis by (rule pause_deletes[OF _ un r'(1)])
qed


text \<open>The run of the example started at 30.\<close>

theorem pausing_deletes_resumed_run_witness:
  "run_start_time (read_run 1 asking_app) = Some 30
   \<and> get_row 1 (Scheduler.pause 200 1 None None (ap_sched (resumed served_env 100 1 asking_app))) = None"
  using pausing_deletes_resumed_run[OF asking_run(1,2,4,5), of 200 None None 100] asking_run(6) by blast

end
