(* ===== verification/Http_Access.thy ===== *)
theory Http_Access
  imports Json "HOL-Library.Word"
begin

unbundle bit_operations_syntax

text \<open>
  Who may reach a handler over HTTP (\<^verbatim>\<open>crates/server/src/guard.rs\<close>, \<^verbatim>\<open>auth.rs\<close>,
  \<^verbatim>\<open>base_path.rs\<close>, the route check of \<^verbatim>\<open>custom.rs\<close>, the start of \<^verbatim>\<open>lib.rs\<close> and the
  layers of \<^verbatim>\<open>api/mod.rs\<close>). A layer answers a request itself (\<open>Inl\<close>) or passes it on
  (\<open>Inr\<close>). A header is what \<^verbatim>\<open>HeaderValue::to_str\<close> gives: a text, or nothing when its
  bytes are not visible ASCII. The authenticator hook and the parser of URIs are
  parameters.
\<close>

text \<open>The digits of an escape with the test decided before the recursion is unfolded.\<close>

definition hex_tail :: "bool \<Rightarrow> nat \<Rightarrow> string" where
  "hex_tail small n = (if small then [''0123456789abcdef'' ! n]
     else hex_digits (n div 16) @ [''0123456789abcdef'' ! (n mod 16)])"

lemma hex_tail_code [code]:
  "hex_tail True n = [''0123456789abcdef'' ! n]"
  "hex_tail False n = hex_digits (n div 16) @ [''0123456789abcdef'' ! (n mod 16)]"
  by (simp_all add: hex_tail_def)

lemma hex_digits_code [code]: "hex_digits n = hex_tail (n < 16) n"
  by (subst hex_digits.simps) (simp add: hex_tail_def)

section \<open>Addresses\<close>

text \<open>
  The parser behind \<^verbatim>\<open>str::parse::<IpAddr>\<close> of the standard library; only whether a text
  is an address is used. A reader takes a prefix and gives what is left.
\<close>

definition to_digit :: "nat \<Rightarrow> char \<Rightarrow> nat option" where
  "to_digit radix c =
     (let n = of_char c;
          v = (if 48 \<le> n \<and> n \<le> 57 then n - 48
               else if 97 \<le> n \<and> n \<le> 122 then n - 87
               else if 65 \<le> n \<and> n \<le> 90 then n - 55 else radix)
      in if v < radix then Some v else None)"

fun read_digits :: "nat \<Rightarrow> int \<Rightarrow> nat \<Rightarrow> int \<Rightarrow> nat \<Rightarrow> string \<Rightarrow> (nat \<times> string) option" where
  "read_digits radix bound most v n [] = Some (n, [])"
| "read_digits radix bound most v n (c # s) =
     (case to_digit radix c of
        None \<Rightarrow> Some (n, c # s)
      | Some d \<Rightarrow>
          if bound \<le> v * int radix + int d \<or> most < Suc n then None
          else read_digits radix bound most (v * int radix + int d) (Suc n) s)"

definition read_number :: "nat \<Rightarrow> int \<Rightarrow> nat \<Rightarrow> bool \<Rightarrow> string \<Rightarrow> string option" where
  "read_number radix bound most zero_prefix s =
     Option.bind (read_digits radix bound most 0 0 s) (\<lambda>(n, r).
       if n = 0 \<or> \<not> zero_prefix \<and> starts_with s ''0'' \<and> 1 < n then None else Some r)"

definition read_separator :: "char \<Rightarrow> nat \<Rightarrow> (string \<Rightarrow> string option) \<Rightarrow> string \<Rightarrow> string option" where
  "read_separator sep i inner s =
     (if i = 0 then inner s else Option.bind (strip_prefix s [sep]) inner)"

fun read_octets :: "nat \<Rightarrow> nat \<Rightarrow> string \<Rightarrow> string option" where
  "read_octets 0 i s = Some s"
| "read_octets (Suc n) i s =
     Option.bind (read_separator CHR ''.'' i (read_number 10 256 3 False) s) (read_octets n (Suc i))"

definition read_ipv4_addr :: "string \<Rightarrow> string option" where
  "read_ipv4_addr s = read_octets 4 0 s"

fun read_groups :: "nat \<Rightarrow> nat \<Rightarrow> string \<Rightarrow> nat \<times> bool \<times> string" where
  "read_groups 0 i s = (i, False, s)"
| "read_groups (Suc n) i s =
     (case if 0 < n then read_separator CHR '':'' i read_ipv4_addr s else None of
        Some r \<Rightarrow> (i + 2, True, r)
      | None \<Rightarrow>
          (case read_separator CHR '':'' i (read_number 16 65536 4 True) s of
             None \<Rightarrow> (i, False, s)
           | Some r \<Rightarrow> read_groups n (Suc i) r))"

definition read_ipv6_addr :: "string \<Rightarrow> string option" where
  "read_ipv6_addr s =
     (let (size, ipv4, r) = read_groups 8 0 s in
      if size = 8 then Some r
      else if ipv4 then None
      else map_option (\<lambda>t. snd (snd (read_groups (7 - size) 0 t))) (strip_prefix r ''::''))"

definition is_ip_addr :: "string \<Rightarrow> bool" where
  "is_ip_addr s =
     ((case read_ipv4_addr s of Some r \<Rightarrow> Some r | None \<Rightarrow> read_ipv6_addr s) = Some [])"

text \<open>\<^verbatim>\<open>u16::from_str\<close> and \<^verbatim>\<open>str::rsplit_once\<close>.\<close>

definition parse_u16 :: "string \<Rightarrow> nat option" where
  "parse_u16 s =
     (let ds = (case strip_prefix s ''+'' of Some r \<Rightarrow> r | None \<Rightarrow> s)
      in if ds = [] then None
         else Option.bind (digits_value 0 ds) (\<lambda>n. if int n < 65536 then Some n else None))"

definition rsplit_once :: "char \<Rightarrow> string \<Rightarrow> (string \<times> string) option" where
  "rsplit_once c s =
     (if c \<in> set s
      then Some (rev (tl (dropWhile (\<lambda>x. x \<noteq> c) (rev s))), rev (takeWhile (\<lambda>x. x \<noteq> c) (rev s)))
      else None)"

section \<open>Requests and the configuration\<close>

type_synonym header = "string option"

record http_request =
  req_trusted :: bool
  req_path :: string
  req_query :: "string option"
  req_authority :: "string option"
  req_host :: "header option"
  req_origin :: "header option"
  req_cookie :: "header option"
  req_authorization :: "header option"
  req_accept :: "header option"
  req_user :: "string option"

record RouteSpec =
  rt_id :: nat
  rt_method :: string
  rt_path :: string

record ServeConfig =
  cf_home :: string
  cf_host :: string
  cf_port :: nat
  cf_base_path :: string
  cf_token :: "string option"
  cf_token_file :: "string option"
  cf_auth_cookie :: "string option"
  cf_auth_scope :: string
  cf_login_url :: "string option"
  cf_allowed_hosts :: "string list"
  cf_allow_unauthenticated :: bool
  cf_metrics_public :: bool
  cf_custom_routes :: "RouteSpec list"

datatype ServerError = Config string | Bind string | Io

datatype reply =
    JsonReply nat json
  | HtmlReply nat string
  | TextReply nat string
  | Redirect nat string
  | Status nat

section \<open>Host and Origin\<close>

record Guard =
  g_configured :: string
  g_allowed :: "string list"

definition normalize_host :: "string \<Rightarrow> string" where
  "normalize_host host =
     (let host = trim host in
      to_ascii_lowercase
        (case Option.bind (strip_prefix host ''['') (\<lambda>h. strip_suffix h '']'') of
           Some h \<Rightarrow> h | None \<Rightarrow> host))"

definition Guard_new :: "ServeConfig \<Rightarrow> Guard" where
  "Guard_new config =
     \<lparr>g_configured = normalize_host (cf_host config),
      g_allowed = map normalize_host (cf_allowed_hosts config)\<rparr>"

definition host_listed :: "Guard \<Rightarrow> string \<Rightarrow> bool" where
  "host_listed g host \<longleftrightarrow> list_ex (\<lambda>a. a = host) (g_allowed g)"

definition host_allowed :: "Guard \<Rightarrow> string \<Rightarrow> bool" where
  "host_allowed g host \<longleftrightarrow>
     is_ip_addr host \<or> host = ''localhost'' \<or> host = g_configured g \<or> host_listed g host"

definition split_authority :: "string \<Rightarrow> (string \<times> nat option) option" where
  "split_authority authority =
     (let authority = trim authority in
      Option.bind
        (case strip_prefix authority ''['' of
           Some rest \<Rightarrow>
             Option.bind (split_once '']'' rest) (\<lambda>(host, after).
               if after = [] then Some (host, None)
               else map_option (\<lambda>p. (host, Some p)) (strip_prefix after '':''))
         | None \<Rightarrow>
             if 1 < count_list authority CHR '':'' then Some (authority, None)
             else (case rsplit_once CHR '':'' authority of
                     Some (h, p) \<Rightarrow> Some (h, Some p)
                   | None \<Rightarrow> Some (authority, None)))
        (\<lambda>(host, port).
          if host = [] then None
          else case port of
                 Some p \<Rightarrow> map_option (\<lambda>n. (to_ascii_lowercase host, Some n)) (parse_u16 p)
               | None \<Rightarrow> Some (to_ascii_lowercase host, None)))"

definition origin_allowed :: "Guard \<Rightarrow> string \<Rightarrow> string option \<Rightarrow> bool" where
  "origin_allowed g origin host_header =
     (case split_once ''://'' origin of
        None \<Rightarrow> False
      | Some (scheme, authority) \<Rightarrow>
          (case (if to_ascii_lowercase scheme = ''http'' then Some 80
                 else if to_ascii_lowercase scheme = ''https'' then Some 443 else None) of
             None \<Rightarrow> False
           | Some default_port \<Rightarrow>
               if list_ex (\<lambda>c. c \<in> set ''/?#@'') authority then False
               else (case split_authority authority of
                       None \<Rightarrow> False
                     | Some (host, port) \<Rightarrow>
                         if host_listed g host then True
                         else (case Option.bind host_header split_authority of
                                 None \<Rightarrow> False
                               | Some (own, own_port) \<Rightarrow>
                                   host = own \<and>
                                   (case own_port of
                                      None \<Rightarrow> True
                                    | Some p \<Rightarrow>
                                        p = (case port of Some q \<Rightarrow> q | None \<Rightarrow> default_port))))))"

definition HOW_TO_ALLOW :: string where
  "HOW_TO_ALLOW = ''add it to allowed_hosts (--allowed-host, CEREYAN_ALLOWED_HOSTS, or [server] allowed_hosts)''"

definition refuse_host :: "string \<Rightarrow> reply" where
  "refuse_host host = JsonReply 403
     (JObj [(''error'', JStr (''this server does not answer to host '' @ debug_str host
               @ '': if you reach it under that name, '' @ HOW_TO_ALLOW)),
            (''host'', JStr host)])"

definition refuse_origin :: "string \<Rightarrow> reply" where
  "refuse_origin origin = JsonReply 403
     (JObj [(''error'', JStr (''requests from pages at '' @ debug_str origin
               @ '' are refused: if you trust pages on that host, '' @ HOW_TO_ALLOW)),
            (''origin'', JStr origin)])"

definition guard_host :: "Guard \<Rightarrow> string option \<Rightarrow> reply option" where
  "guard_host g host =
     (case host of
        None \<Rightarrow> None
      | Some raw \<Rightarrow>
          (case split_authority raw of
             Some (name, _) \<Rightarrow> if host_allowed g name then None else Some (refuse_host name)
           | None \<Rightarrow> Some (refuse_host raw)))"

definition guard_origin :: "Guard \<Rightarrow> header option \<Rightarrow> string option \<Rightarrow> reply option" where
  "guard_origin g value host =
     (case value of
        None \<Rightarrow> None
      | Some v \<Rightarrow>
          (let origin = (case v of Some t \<Rightarrow> t | None \<Rightarrow> [])
           in if origin_allowed g origin host then None else Some (refuse_origin origin)))"

definition guard_check :: "Guard \<Rightarrow> http_request \<Rightarrow> reply + http_request" where
  "guard_check g req =
     (if req_trusted req then Inr req
      else (case (case req_host req of
                    Some (Some v) \<Rightarrow> Inr (Some v)
                  | Some None \<Rightarrow> Inl (refuse_host [])
                  | None \<Rightarrow> Inr (req_authority req)) of
              Inl r \<Rightarrow> Inl r
            | Inr host \<Rightarrow>
                (case guard_host g host of
                   Some r \<Rightarrow> Inl r
                 | None \<Rightarrow>
                     (case guard_origin g (req_origin req) host of
                        Some r \<Rightarrow> Inl r
                      | None \<Rightarrow> Inr req))))"

definition ascii_alphanumeric :: "char \<Rightarrow> bool" where
  "ascii_alphanumeric c \<longleftrightarrow>
     (let n = (of_char c :: nat) in (48 \<le> n \<and> n \<le> 57) \<or> (65 \<le> n \<and> n \<le> 90) \<or> (97 \<le> n \<and> n \<le> 122))"

definition valid_entry :: "string \<Rightarrow> bool" where
  "valid_entry entry =
     (let host = normalize_host entry in
      is_ip_addr host
      \<or> list_all (\<lambda>label. label \<noteq> [] \<and> list_all (\<lambda>b. ascii_alphanumeric b \<or> b = CHR ''-'') label)
          (split_char CHR ''.'' host))"

definition check_config :: "ServeConfig \<Rightarrow> ServerError + unit" where
  "check_config config =
     (case List.find (\<lambda>e. \<not> valid_entry e) (cf_allowed_hosts config) of
        Some entry \<Rightarrow>
          Inl (Config (''invalid allowed_hosts entry '' @ debug_str entry
            @ '': expected a host name or an IP address, without a scheme, port, or path''))
      | None \<Rightarrow> Inr ())"

section \<open>The credential\<close>

definition COOKIE_NAME :: string where "COOKIE_NAME = ''cereyan_token''"

text \<open>The bytes of a text (\<^verbatim>\<open>str::as_bytes\<close>): UTF-8 of the characters up to U+00FF.\<close>

definition utf8_char :: "char \<Rightarrow> 8 word list" where
  "utf8_char c =
     (let n = (of_char c :: nat) in
      if n < 128 then [of_nat n] else [of_nat (192 + n div 64), of_nat (128 + n mod 64)])"

definition as_bytes :: "string \<Rightarrow> 8 word list" where
  "as_bytes s = concat (map utf8_char s)"

definition token_equal :: "string \<Rightarrow> string \<Rightarrow> bool" where
  "token_equal a b =
     (let a = as_bytes a; b = as_bytes b in
      if length a \<noteq> length b then False
      else fold (\<lambda>(x, y) acc. acc OR (x XOR y)) (zip a b) 0 = 0)"

fun find_map :: "('a \<Rightarrow> 'b option) \<Rightarrow> 'a list \<Rightarrow> 'b option" where
  "find_map f [] = None"
| "find_map f (x # xs) = (case f x of Some y \<Rightarrow> Some y | None \<Rightarrow> find_map f xs)"

definition cookie_value :: "http_request \<Rightarrow> string \<Rightarrow> string option" where
  "cookie_value req name =
     Option.bind (Option.bind (req_cookie req) id) (\<lambda>raw.
       find_map
         (\<lambda>part. map_option trim
            (Option.bind (strip_prefix (trim part) name) (\<lambda>r. strip_prefix r ''='')))
         (split_char CHR '';'' raw))"

definition bearer_token :: "http_request \<Rightarrow> string option" where
  "bearer_token req =
     Option.bind (Option.bind (req_authorization req) id) (\<lambda>raw.
       Option.bind (split_once '' '' raw) (\<lambda>(scheme, value).
         if to_ascii_lowercase scheme = ''bearer'' then Some (trim value) else None))"

definition protected :: "string \<Rightarrow> bool \<Rightarrow> bool \<Rightarrow> bool" where
  "protected path all metrics_public =
     (if path = ''/api/health'' \<or> (metrics_public \<and> path = ''/api/metrics'') then False
      else all \<or> path = ''/mcp'' \<or> starts_with path ''/api/'')"

definition run_creator :: "string option \<Rightarrow> string \<Rightarrow> string" where
  "run_creator user fallback = (case user of Some u \<Rightarrow> ''user:'' @ u | None \<Rightarrow> fallback)"

fun escape_html :: "string \<Rightarrow> string" where
  "escape_html [] = []"
| "escape_html (c # s) =
     (if c = CHR ''&'' then ''&amp;''
      else if c = CHR ''<'' then ''&lt;''
      else if c = CHR ''>'' then ''&gt;''
      else if c = CHR 0x22 then ''&quot;''
      else if c = CHR 0x27 then ''&#39;''
      else [c]) @ escape_html s"

definition quote :: string where "quote = [CHR 0x22]"

definition sign_in_page :: "string option \<Rightarrow> string" where
  "sign_in_page login_url =
     ''<!doctype html><html><head><meta charset='' @ quote @ ''utf-8'' @ quote
     @ ''><title>Not signed in</title></head><body><h1>Not signed in</h1><p>Sign in with your identity provider, then reload this page.</p>''
     @ (case login_url of
          Some url \<Rightarrow> ''<p><a href='' @ quote @ escape_html url @ quote @ ''>Sign in</a></p>''
        | None \<Rightarrow> [])
     @ ''</body></html>''"

definition wants_html :: "http_request \<Rightarrow> bool" where
  "wants_html req \<longleftrightarrow>
     (case Option.bind (req_accept req) id of
        Some accept \<Rightarrow> split_once ''text/html'' accept \<noteq> None
      | None \<Rightarrow> False)"

definition reject :: "ServeConfig \<Rightarrow> bool \<Rightarrow> http_request \<Rightarrow> bool \<Rightarrow> reply" where
  "reject config hook req sent =
     (if cf_auth_scope config = ''all'' \<and> wants_html req
      then HtmlReply 401 (sign_in_page (cf_login_url config))
      else JsonReply 401
        (JObj [(''auth'', JStr (if hook then ''hook'' else ''token'')),
               (''error'', JStr (case (hook, sent) of
                  (False, False) \<Rightarrow> ''this server requires an API token: send Authorization: Bearer <token> (CEREYAN_TOKEN or --token)''
                | (False, True) \<Rightarrow> ''the API token was rejected''
                | (True, False) \<Rightarrow> ''not signed in: send a credential in the Authorization header or the sign-in cookie''
                | (True, True) \<Rightarrow> ''the credential was rejected'')),
               (''login_url'', (case cf_login_url config of Some u \<Rightarrow> JStr u | None \<Rightarrow> JNull))]))"

text \<open>The hook gives no user when it panics: the joined task's error is dropped.\<close>

type_synonym authenticator = "string \<Rightarrow> string option"

definition or_token :: "'a option \<Rightarrow> 'a option \<Rightarrow> 'a option" where
  "or_token a b = (case a of Some x \<Rightarrow> Some x | None \<Rightarrow> b)"

definition presented_token :: "http_request \<Rightarrow> string option" where
  "presented_token req = or_token (bearer_token req) (cookie_value req COOKIE_NAME)"

definition presented_credential :: "ServeConfig \<Rightarrow> http_request \<Rightarrow> string option" where
  "presented_credential config req =
     (case or_token (bearer_token req)
             (Option.bind (cf_auth_cookie config) (cookie_value req)) of
        Some c \<Rightarrow> if c = [] then None else Some c
      | None \<Rightarrow> None)"

definition token_matches :: "ServeConfig \<Rightarrow> http_request \<Rightarrow> bool" where
  "token_matches config req =
     (case (cf_token config, presented_token req) of
        (Some expected, Some token) \<Rightarrow> token_equal token expected
      | _ \<Rightarrow> False)"

definition require_token :: "ServeConfig \<Rightarrow> authenticator option \<Rightarrow> http_request \<Rightarrow> reply + http_request" where
  "require_token config hook req =
     (if cf_token config = None \<and> hook = None then Inr req
      else if req_trusted req
              \<or> \<not> protected (req_path req) (cf_auth_scope config = ''all'') (cf_metrics_public config)
      then Inr req
      else if token_matches config req then Inr req
      else (case hook of
              None \<Rightarrow> Inl (reject config False req (presented_token req \<noteq> None))
            | Some authenticate \<Rightarrow>
                (case presented_credential config req of
                   None \<Rightarrow> Inl (reject config True req False)
                 | Some credential \<Rightarrow>
                     (case authenticate credential of
                        Some user \<Rightarrow>
                          if user = [] then Inl (reject config True req True)
                          else Inr (req\<lparr>req_user := Some user\<rparr>)
                      | None \<Rightarrow> Inl (reject config True req True)))))"

definition valid_cookie_name :: "string \<Rightarrow> bool" where
  "valid_cookie_name name \<longleftrightarrow>
     name \<noteq> []
     \<and> list_all (\<lambda>b. ascii_alphanumeric b \<or> b \<in> set (''!#$%&'' @ [CHR 0x27] @ ''*+-.^_'' @ [CHR 0x60] @ ''|~'')) name"

definition is_control :: "char \<Rightarrow> bool" where
  "is_control c \<longleftrightarrow> (let n = (of_char c :: nat) in n < 32 \<or> (127 \<le> n \<and> n < 160))"

definition valid_login_url :: "string \<Rightarrow> bool" where
  "valid_login_url url =
     (if list_ex (\<lambda>c. is_control c \<or> is_whitespace c) url then False
      else (case strip_prefix url ''/'' of
              Some rest \<Rightarrow> \<not> starts_with rest ''/'' \<and> \<not> starts_with rest [CHR 0x5C]
            | None \<Rightarrow>
                (let lower = to_ascii_lowercase url in
                 list_ex (\<lambda>scheme.
                   (case strip_prefix lower scheme of
                      Some rest \<Rightarrow> takeWhile (\<lambda>c. c \<notin> set ''/?#'') rest \<noteq> []
                    | None \<Rightarrow> False)) [''http://'', ''https://''])))"

definition auth_check :: "ServeConfig \<Rightarrow> bool \<Rightarrow> ServerError + unit" where
  "auth_check config authenticator =
     (if cf_auth_scope config = ''all'' \<and> \<not> authenticator
      then Inl (Config (''auth_scope = '' @ quote @ ''all'' @ quote @ '' requires enable_auth and a registered authenticator''))
      else if cf_auth_scope config \<noteq> ''api'' \<and> cf_auth_scope config \<noteq> ''all''
      then Inl (Config (''invalid auth_scope '' @ debug_str (cf_auth_scope config) @ '': expected '' @ quote @ ''api'' @ quote @ '' or '' @ quote @ ''all'' @ quote))
      else (case (case cf_auth_cookie config of
                    Some name \<Rightarrow>
                      if name = COOKIE_NAME
                      then Some (''auth_cookie cannot be '' @ debug_str COOKIE_NAME @ '': that cookie holds the API token'')
                      else if \<not> valid_cookie_name name
                      then Some (''invalid auth_cookie '' @ debug_str name @ '': expected a cookie name'')
                      else None
                  | None \<Rightarrow> None) of
              Some message \<Rightarrow> Inl (Config message)
            | None \<Rightarrow>
                (case cf_login_url config of
                   Some url \<Rightarrow>
                     if valid_login_url url then Inr ()
                     else Inl (Config (''invalid login_url '' @ debug_str url
                       @ '': expected an http or https URL, or a path starting with /''))
                 | None \<Rightarrow> Inr ())))"

section \<open>The base path\<close>

definition base_path_check :: "string \<Rightarrow> ServerError + unit" where
  "base_path_check base_path =
     (if base_path = [] then Inr ()
      else if (case strip_prefix base_path ''/'' of
                 Some rest \<Rightarrow>
                   list_all (\<lambda>seg. seg \<noteq> [] \<and> seg \<noteq> ''.'' \<and> seg \<noteq> ''..''
                       \<and> list_all (\<lambda>b. ascii_alphanumeric b \<or> b \<in> set ''-._~'') seg)
                     (split_char CHR ''/'' rest)
               | None \<Rightarrow> False)
      then Inr ()
      else Inl (Config (''invalid base path '' @ debug_str base_path @ '': expected ''
             @ quote @ quote @ '' or /segment[/segment...]'')))"

text \<open>What the URI parser gives: the authority, the path and the query.\<close>

type_synonym uri_parser = "string \<Rightarrow> (string option \<times> string \<times> string option) option"

definition strip :: "uri_parser \<Rightarrow> string \<Rightarrow> http_request \<Rightarrow> reply + http_request" where
  "strip parse_uri base req =
     (if base = [] then Inr req
      else let path = req_path req in
        if path = ''/'' \<or> path = base then Inl (Redirect 307 (base @ ''/''))
        else (case strip_prefix path base of
                Some rest \<Rightarrow>
                  if starts_with rest ''/''
                  then (case parse_uri (case req_query req of Some q \<Rightarrow> rest @ ''?'' @ q | None \<Rightarrow> rest) of
                          Some (a, p, q) \<Rightarrow> Inr (req\<lparr>req_path := p, req_query := q, req_authority := a\<rparr>)
                        | None \<Rightarrow> Inl (Status 400))
                  else Inl (TextReply 404 ''not found'')
              | None \<Rightarrow> Inl (TextReply 404 ''not found'')))"

section \<open>Custom routes\<close>

fun normalize_segments :: "string list \<Rightarrow> string" where
  "normalize_segments [] = []"
| "normalize_segments (seg # segs) =
     (if seg = [] then normalize_segments segs
      else ''/'' @ (if starts_with seg [CHR 0x7B] \<and> ends_with seg [CHR 0x7D] then [CHR 0x7B, CHR 0x7D] else seg)
           @ normalize_segments segs)"

definition normalize_route :: "string \<Rightarrow> string" where
  "normalize_route path =
     (let out = normalize_segments (split_char CHR ''/'' (trim_end_matches CHR ''/'' path))
      in if out = [] then ''/'' else out)"

definition BUILTIN_PATHS :: "string list" where
  "BUILTIN_PATHS =
    [''/api/health'',
     ''/api/server'',
     ''/api/queue'',
     ''/api/workers'',
     ''/api/results/{key}'',
     ''/api/workers/register'',
     ''/api/workers/{id}'',
     ''/api/workers/{id}/heartbeat'',
     ''/api/workers/{id}/timeline'',
     ''/api/workers/{id}/drain'',
     ''/api/workers/{id}/resume'',
     ''/api/workers/{id}/leave'',
     ''/api/flows'',
     ''/api/flows/{id}'',
     ''/api/flows/{id}/runs'',
     ''/api/runs'',
     ''/api/runs/{id}'',
     ''/api/runs/{id}/tasks'',
     ''/api/runs/{id}/logs'',
     ''/api/runs/{id}/transition'',
     ''/api/runs/{id}/cancel'',
     ''/api/task-runs'',
     ''/api/task-runs/{id}'',
     ''/api/task-runs/{id}/logs'',
     ''/api/counts'',
     ''/api/stream'',
     ''/api/openapi.json'',
     ''/api/engine/work'',
     ''/api/engine/report'',
     ''/api/engine/heartbeat'',
     ''/api/engine/failed'',
     ''/api/engine/local-path'',
     ''/api/runs/{id}/graph'',
     ''/api/runs/{id}/chain'',
     ''/api/flows/{id}/schedules'',
     ''/api/flows/{id}/upcoming'',
     ''/api/flows/{id}/pause'',
     ''/api/flows/{id}/resume'',
     ''/api/flows/{id}/backfill'',
     ''/api/flows/{id}/backfills'',
     ''/api/schedules/preview'',
     ''/api/scheduler'',
     ''/api/scheduler/pause'',
     ''/api/scheduler/resume'',
     ''/api/schedules/{sid}'',
     ''/api/schedules/{sid}/pause'',
     ''/api/schedules/{sid}/resume'',
     ''/api/schedules/{sid}/now'',
     ''/api/backfills/{id}'',
     ''/api/backfills/{id}/prefilter'',
     ''/api/backfills/{id}/cancel'',
     ''/api/settings'',
     ''/api/settings/environment'',
     ''/api/projects'',
     ''/api/projects/{name}'',
     ''/api/database'',
     ''/api/database/reset'',
     ''/api/database/backup'',
     ''/api/runs/bulk'',
     ''/api/runs/compare'',
     ''/api/runs/{id}/retry'',
     ''/api/runs/{id}/state'',
     ''/api/runs/{id}/attributes'',
     ''/api/metrics'',
     ''/api/metrics/history'',
     ''/api/events'',
     ''/api/resources/acquire'',
     ''/api/resources/release'',
     ''/api/agents'',
     ''/api/agents/catalogue'',
     ''/api/agents/{id}'',
     ''/api/agents/{id}/approvals'',
     ''/api/agents/{id}/approvals/{aid}'',
     ''/api/rules'',
     ''/api/rules/{id}'',
     ''/api/rules/{id}/firings'',
     ''/api/rules/{id}/test'',
     ''/api/runs/{id}/artifacts'',
     ''/api/task-runs/{id}/artifacts'',
     ''/api/variables'',
     ''/api/variables/{name}'',
     ''/api/events/{id}'',
     ''/api/artifacts'',
     ''/api/vocabulary'',
     ''/api/runs/{id}/resume'',
     ''/api/runs/{id}/input'',
     ''/api/runs/{id}/receive'',
     ''/api/runs/{id}/messages/{topic}'',
     ''/api/rules/{id}/expectations'',
     ''/api/schedules/{sid}/skips'',
     ''/api/schedules/{sid}/skips/{fire}'',
     ''/mcp'']"

fun check_routes :: "string list \<Rightarrow> (string \<times> string) list \<Rightarrow> RouteSpec list \<Rightarrow> ServerError + unit" where
  "check_routes builtins seen [] = Inr ()"
| "check_routes builtins seen (r # routes) =
     (let n = normalize_route (rt_path r); key = (to_ascii_uppercase (rt_method r), n) in
      if n \<in> set builtins
      then Inl (Config (''custom route '' @ rt_method r @ '' '' @ rt_path r
             @ '' collides with the built-in cereyan route '' @ rt_path r))
      else if \<not> starts_with (rt_path r) ''/''
      then Inl (Config (''custom route path '' @ debug_str (rt_path r) @ '' must start with '' @ [CHR 0x27] @ ''/'' @ [CHR 0x27]))
      else if key \<in> set seen
      then Inl (Config (''custom route '' @ rt_method r @ '' '' @ rt_path r @ '' is registered twice''))
      else check_routes builtins (seen @ [key]) routes)"

definition check_conflicts :: "RouteSpec list \<Rightarrow> ServerError + unit" where
  "check_conflicts routes = check_routes (map normalize_route BUILTIN_PATHS) [] routes"

section \<open>The start of the server and the layers of a request\<close>

fun and_then :: "'e + 'a \<Rightarrow> ('a \<Rightarrow> 'e + 'b) \<Rightarrow> 'e + 'b" where
  "and_then (Inl e) f = Inl e"
| "and_then (Inr x) f = f x"

definition hex_byte :: "8 word \<Rightarrow> string" where
  "hex_byte b = (let n = unat b in [''0123456789abcdef'' ! (n div 16), ''0123456789abcdef'' ! (n mod 16)])"

text \<open>The bytes are the 32 the random generator filled in.\<close>

definition generate_token :: "8 word list \<Rightarrow> string" where
  "generate_token bytes = concat (map hex_byte bytes)"

definition token_file_path :: "string \<Rightarrow> string" where
  "token_file_path home = home @ ''/token''"

text \<open>
  The file's text when it can be read, whether the home can be written, and the random
  bytes; the result is the token, whether it is new, and the file's text after.
\<close>

definition load_or_create_token_file ::
  "string option \<Rightarrow> bool \<Rightarrow> 8 word list \<Rightarrow> ServerError + (string \<times> bool) \<times> string option" where
  "load_or_create_token_file file writable bytes =
     (case (case file of Some t \<Rightarrow> if trim t \<noteq> [] then Some (trim t) else None | None \<Rightarrow> None) of
        Some existing \<Rightarrow> Inr ((existing, False), file)
      | None \<Rightarrow>
          (let token = generate_token bytes in
           if writable then Inr ((token, True), Some (token @ [CHR 0x0A])) else Inl Io))"

record start_env =
  sa_authenticator :: bool
  sa_engine_bytes :: "8 word list"
  sa_bind :: "string \<Rightarrow> ServerError + bool"
  sa_token_file :: "string option"
  sa_writable :: bool
  sa_file_bytes :: "8 word list"

text \<open>\<^verbatim>\<open>start_with\<close> up to the bound listener: \<open>sa_bind\<close> gives whether the address is loopback.\<close>

definition start_access :: "start_env \<Rightarrow> ServeConfig \<Rightarrow> ServerError + ServeConfig \<times> bool" where
  "start_access env config =
     and_then (check_conflicts (cf_custom_routes config)) (\<lambda>_.
     and_then (base_path_check (cf_base_path config)) (\<lambda>_.
     and_then (auth_check config (sa_authenticator env)) (\<lambda>_.
     and_then (check_config config) (\<lambda>_.
       let config = (if sa_authenticator env \<and> cf_token config = None
                     then config\<lparr>cf_token := Some (generate_token (sa_engine_bytes env))\<rparr> else config) in
       and_then (sa_bind env (cf_host config @ '':'' @ show_nat (cf_port config))) (\<lambda>loopback.
         if \<not> loopback \<and> cf_token config = None \<and> \<not> cf_allow_unauthenticated config
         then and_then (load_or_create_token_file (sa_token_file env) (sa_writable env) (sa_file_bytes env))
                (\<lambda>((token, created), file).
                  Inr (config\<lparr>cf_token := Some token, cf_token_file := Some (token_file_path (cf_home config))\<rparr>, loopback))
         else Inr (config, loopback))))))"

definition exposed :: "ServeConfig \<Rightarrow> bool \<Rightarrow> bool" where
  "exposed config loopback \<longleftrightarrow> \<not> loopback \<and> cf_token config = None"

definition router :: "ServeConfig \<Rightarrow> authenticator option \<Rightarrow> http_request \<Rightarrow> reply + http_request" where
  "router config hook req =
     and_then (guard_check (Guard_new config) req) (require_token config hook)"

definition serve_tcp :: "uri_parser \<Rightarrow> ServeConfig \<Rightarrow> authenticator option \<Rightarrow> http_request \<Rightarrow> reply + http_request" where
  "serve_tcp parse_uri config hook req =
     and_then (strip parse_uri (cf_base_path config) (req\<lparr>req_trusted := False\<rparr>)) (router config hook)"

definition serve_socket :: "ServeConfig \<Rightarrow> authenticator option \<Rightarrow> http_request \<Rightarrow> reply + http_request" where
  "serve_socket config hook req = router config hook (req\<lparr>req_trusted := True\<rparr>)"

section \<open>What an address looks like\<close>

definition octet_char :: "char \<Rightarrow> bool" where
  "octet_char c \<longleftrightarrow> to_digit 10 c \<noteq> None \<or> c = CHR ''.''"

text \<open>A name that a resolver answers: no address literal is one.\<close>

definition dns_name :: "string \<Rightarrow> bool" where
  "dns_name h \<longleftrightarrow> CHR '':'' \<notin> set h \<and> list_ex (\<lambda>c. \<not> octet_char c) h"

lemma and_then_Inr: "and_then a f = Inr y \<longleftrightarrow> (\<exists>x. a = Inr x \<and> f x = Inr y)"
  by (cases a) auto

lemma read_digits_split:
  "read_digits radix b m v n s = Some (k, r) \<Longrightarrow>
   \<exists>p. s = p @ r \<and> k = n + length p \<and> (\<forall>c \<in> set p. to_digit radix c \<noteq> None)"
proof (induction s arbitrary: v n)
  case (Cons c s)
  show ?case
  proof (cases "to_digit radix c")
    case None
    then show ?thesis using Cons.prems by auto
  next
    case (Some d)
    then have "read_digits radix b m (v * int radix + int d) (Suc n) s = Some (k, r)"
      using Cons.prems by (auto split: if_splits)
    then obtain p where "s = p @ r" "k = Suc n + length p" "\<forall>c \<in> set p. to_digit radix c \<noteq> None"
      using Cons.IH by blast
    then show ?thesis using Some by (intro exI[of _ "c # p"]) simp
  qed
qed simp

lemma read_number_split:
  "read_number radix b m z s = Some r \<Longrightarrow> \<exists>p. s = p @ r \<and> (\<forall>c \<in> set p. to_digit radix c \<noteq> None)"
  by (auto simp: read_number_def bind_eq_Some_conv split: if_splits dest!: read_digits_split)

lemma read_separator_split:
  assumes "read_separator sep i inner s = Some r"
    and "\<And>t. inner t = Some r \<Longrightarrow> \<exists>p. t = p @ r \<and> (\<forall>c \<in> set p. P c)" and "P sep"
  shows "\<exists>p. s = p @ r \<and> (\<forall>c \<in> set p. P c)"
proof (cases "i = 0")
  case True
  then show ?thesis using assms by (simp add: read_separator_def)
next
  case False
  then obtain t where t: "s = [sep] @ t" "inner t = Some r"
    using assms(1) by (auto simp: read_separator_def bind_eq_Some_conv strip_prefix_Some)
  then obtain p where "t = p @ r" "\<forall>c \<in> set p. P c" using assms(2) by blast
  then show ?thesis using t assms(3) by (intro exI[of _ "sep # p"]) simp
qed

lemma read_octets_split:
  "read_octets n i s = Some r \<Longrightarrow> \<exists>p. s = p @ r \<and> (\<forall>c \<in> set p. octet_char c)"
proof (induction n arbitrary: i s)
  case (Suc n)
  then obtain t where t: "read_separator CHR ''.'' i (read_number 10 256 3 False) s = Some t"
    and r: "read_octets n (Suc i) t = Some r" by (auto simp: bind_eq_Some_conv)
  have "\<exists>p. s = p @ t \<and> (\<forall>c \<in> set p. octet_char c)"
    using t by (rule read_separator_split) (auto simp: octet_char_def dest: read_number_split)
  moreover have "\<exists>q. t = q @ r \<and> (\<forall>c \<in> set q. octet_char c)" using Suc.IH[OF r] .
  ultimately show ?case by (metis append.assoc set_append Un_iff)
qed simp

lemma read_groups_colon:
  assumes "read_groups n i s = (k, b, r)" "0 < i" "i < k"
  shows "CHR '':'' \<in> set s"
proof (cases n)
  case 0
  then show ?thesis using assms by simp
next
  case (Suc m)
  have "strip_prefix s '':'' = None \<Longrightarrow> k = i"
    using assms Suc by (auto simp: read_separator_def split: if_splits)
  then have "strip_prefix s '':'' \<noteq> None" using assms(3) by auto
  then show ?thesis by (auto simp: strip_prefix_Some)
qed

lemma read_groups_split: "read_groups n i s = (k, b, r) \<Longrightarrow> suffix r s"
proof (induction n arbitrary: i s)
  case (Suc n)
  have v4: "suffix t s" if "read_separator CHR '':'' i read_ipv4_addr s = Some t" for t
    using read_separator_split[OF that, of "\<lambda>_. True"] read_octets_split[of 4 0]
    by (fastforce simp: read_ipv4_addr_def suffix_def)
  have grp: "suffix t s" if "read_separator CHR '':'' i (read_number 16 65536 4 True) s = Some t" for t
    using read_separator_split[OF that, of "\<lambda>_. True"] read_number_split
    by (fastforce simp: suffix_def)
  show ?case
    using Suc.prems Suc.IH v4 grp suffix_order.trans
    by (fastforce split: if_splits option.splits)
qed simp

lemma read_ipv6_colon:
  assumes "read_ipv6_addr s = Some r"
  shows "CHR '':'' \<in> set s"
proof -
  obtain k b t where g: "read_groups 8 0 s = (k, b, t)" by (metis prod_cases3)
  have suf: "suffix t s" using g by (rule read_groups_split)
  show ?thesis
  proof (cases "k = 8")
    case False
    then have "prefix ''::'' t"
      using assms g by (auto simp: read_ipv6_addr_def strip_prefix_Some split: if_splits)
    then show ?thesis using suf by (auto simp: prefix_def suffix_def)
  next
    case True
    have "read_groups (Suc 7) 0 s = (8, b, t)" using g True by simp
    then obtain u where u: "read_number 16 65536 4 True s = Some u" "read_groups 7 (Suc 0) u = (8, b, t)"
      unfolding read_groups.simps by (auto simp: read_separator_def split: option.splits)
    have "CHR '':'' \<in> set u" using u(2) by (rule read_groups_colon) simp_all
    then show ?thesis using read_number_split[OF u(1)] by auto
  qed
qed

lemma dns_name_no_address: "dns_name h \<Longrightarrow> \<not> is_ip_addr h"
  using read_ipv6_colon[of h] read_octets_split[of 4 0 h]
  by (force simp: is_ip_addr_def dns_name_def read_ipv4_addr_def list_ex_iff split: option.splits)

section \<open>Only trusted sites reach a handler\<close>

definition site_trusted :: "ServeConfig \<Rightarrow> string \<Rightarrow> bool" where
  "site_trusted config h \<longleftrightarrow>
     h = ''localhost'' \<or> h = normalize_host (cf_host config)
     \<or> h \<in> set (map normalize_host (cf_allowed_hosts config))"

lemma listed_new: "host_listed (Guard_new config) h \<longleftrightarrow> h \<in> set (map normalize_host (cf_allowed_hosts config))"
  by (auto simp: host_listed_def Guard_new_def list_ex_iff)

lemma host_allowed_trusted:
  "host_allowed (Guard_new config) h \<Longrightarrow> dns_name h \<Longrightarrow> site_trusted config h"
  using dns_name_no_address[of h]
  by (auto simp: host_allowed_def site_trusted_def listed_new) (simp add: Guard_new_def)

lemma guard_host_None:
  "guard_host g (Some raw) = None \<Longrightarrow> \<exists>name port. split_authority raw = Some (name, port) \<and> host_allowed g name"
  by (auto simp: guard_host_def split: option.splits if_splits)

lemma origin_allowed_site:
  assumes "origin_allowed g origin host"
  shows "\<exists>scheme authority page port. split_once ''://'' origin = Some (scheme, authority)
    \<and> to_ascii_lowercase scheme \<in> {''http'', ''https''}
    \<and> split_authority authority = Some (page, port)
    \<and> (host_listed g page \<or> (\<exists>raw own_port. host = Some raw \<and> split_authority raw = Some (page, own_port)))"
proof -
  obtain scheme authority where o: "split_once ''://'' origin = Some (scheme, authority)"
    using assms by (auto simp: origin_allowed_def split: option.splits)
  have sch: "to_ascii_lowercase scheme \<in> {''http'', ''https''}"
    using assms o by (auto simp: origin_allowed_def split: if_splits)
  obtain page port where a: "split_authority authority = Some (page, port)"
    using assms o by (auto simp: origin_allowed_def split: option.splits if_splits)
  have "host_listed g page \<or> (\<exists>raw own_port. host = Some raw \<and> split_authority raw = Some (page, own_port))"
    using assms o a by (auto simp: origin_allowed_def bind_eq_Some_conv split: option.splits if_splits)
  then show ?thesis using o sch a by blast
qed

lemma strip_keeps:
  "strip parse_uri base req = Inr req' \<Longrightarrow>
   req_host req' = req_host req \<and> req_origin req' = req_origin req \<and> req_cookie req' = req_cookie req
   \<and> req_authorization req' = req_authorization req \<and> req_trusted req' = req_trusted req
   \<and> (base = [] \<or> (\<exists>rest. req_path req = base @ CHR ''/'' # rest))"
  by (auto simp: strip_def Let_def strip_prefix_Some starts_with_iff prefix_def split: if_splits option.splits)

lemma serve_tcp_layers:
  assumes "serve_tcp parse_uri config hook req = Inr req'"
  obtains inner where "strip parse_uri (cf_base_path config) (req\<lparr>req_trusted := False\<rparr>) = Inr inner"
    and "\<not> req_trusted inner" and "guard_check (Guard_new config) inner = Inr inner"
    and "require_token config hook inner = Inr req'"
proof -
  obtain inner mid where s: "strip parse_uri (cf_base_path config) (req\<lparr>req_trusted := False\<rparr>) = Inr inner"
    and g: "guard_check (Guard_new config) inner = Inr mid" and t: "require_token config hook mid = Inr req'"
    using assms by (auto simp: serve_tcp_def router_def and_then_Inr)
  moreover have "mid = inner" using g by (auto simp: guard_check_def split: if_splits option.splits sum.splits)
  ultimately show ?thesis using that strip_keeps[OF s] by simp
qed



section \<open>Only credentials reach a protected path\<close>

lemma fold_or_xor:
  "fold (\<lambda>(x, y) acc. acc OR (x XOR y)) zs (a :: 8 word) = 0 \<longleftrightarrow> a = 0 \<and> (\<forall>(x, y) \<in> set zs. x = y)"
proof (induction zs arbitrary: a)
  case (Cons z zs)
  have "x XOR y = 0 \<longleftrightarrow> x = y" for x y :: "8 word"
    by (metis xor.assoc xor.left_neutral xor_self_eq)
  then show ?case using Cons by (cases z) (auto simp: or_eq_0_iff)
qed simp

lemma utf8_char_inj:
  assumes "utf8_char c @ xs = utf8_char d @ ys"
  shows "c = d \<and> xs = ys"
proof -
  have lt: "(of_char e :: nat) < 256" for e by (rule nat_of_char_less_256)
  have inj: "of_char c = (of_char d :: nat) \<Longrightarrow> c = d" by simp
  have small: "unat (of_nat n :: 8 word) = n" if "n < 256" for n
    using that by (simp add: unat_of_nat take_bit_nat_eq_self)
  have eqw: "of_nat m = (of_nat n :: 8 word) \<Longrightarrow> m < 256 \<Longrightarrow> n < 256 \<Longrightarrow> m = n" for m n
    using small by metis
  have b: "192 + of_char e div 64 < (256::nat)" "128 + of_char e mod 64 < (256::nat)" "192 + of_char e div 64 \<ge> (128::nat)" for e
    using less_mult_imp_div_less[of "of_char e" 4 64] lt[of e] by auto
  consider "of_char c < (128::nat)" "of_char d < (128::nat)" | "of_char c < (128::nat)" "\<not> of_char d < (128::nat)"
    | "\<not> of_char c < (128::nat)" "of_char d < (128::nat)" | "\<not> of_char c < (128::nat)" "\<not> of_char d < (128::nat)" by blast
  then show ?thesis
  proof cases
    case 1
    then show ?thesis using assms eqw[OF _ lt lt, of c d] by (simp add: utf8_char_def)
  next
    case 2
    then show ?thesis using assms eqw[OF _ lt b(1), of c d] b(3)[of d] by (auto simp: utf8_char_def Let_def)
  next
    case 3
    then show ?thesis using assms eqw[OF _ b(1) lt, of c d] b(3)[of c] by (auto simp: utf8_char_def Let_def)
  next
    case 4
    then have "of_char c div 64 = (of_char d div 64 :: nat)" "of_char c mod 64 = (of_char d mod 64 :: nat)" "xs = ys"
      using assms eqw[OF _ b(1) b(1), of c d] eqw[OF _ b(2) b(2), of c d] by (auto simp: utf8_char_def Let_def)
    then show ?thesis using inj by (metis div_mult_mod_eq)
  qed
qed

lemma as_bytes_inj: "as_bytes a = as_bytes b \<longleftrightarrow> a = b"
proof
  have ne: "utf8_char c \<noteq> []" for c by (simp add: utf8_char_def Let_def)
  assume "as_bytes a = as_bytes b"
  then show "a = b"
  proof (induction a arbitrary: b)
    case Nil
    then show ?case using ne by (cases b) (auto simp: as_bytes_def)
  next
    case (Cons c a)
    then obtain d b' where b: "b = d # b'" using ne by (cases b) (auto simp: as_bytes_def)
    then have "utf8_char c @ as_bytes a = utf8_char d @ as_bytes b'"
      using Cons.prems by (simp add: as_bytes_def)
    then show ?case using utf8_char_inj Cons.IH b by blast
  qed
qed simp

lemma token_equal_iff: "token_equal a b \<longleftrightarrow> a = b"
proof -
  have "token_equal a b \<longleftrightarrow> length (as_bytes a) = length (as_bytes b) \<and> (\<forall>(x, y) \<in> set (zip (as_bytes a) (as_bytes b)). x = y)"
    by (simp add: token_equal_def Let_def fold_or_xor)
  also have "\<dots> \<longleftrightarrow> as_bytes a = as_bytes b"
    by (metis (no_types, lifting) case_prodI2 list_eq_iff_zip_eq case_prodD)
  finally show ?thesis by (simp add: as_bytes_inj)
qed

lemma presented_cong:
  "req_authorization r = req_authorization r' \<Longrightarrow> req_cookie r = req_cookie r' \<Longrightarrow>
   presented_token r = presented_token r' \<and> presented_credential c r = presented_credential c r'"
  by (simp add: presented_token_def presented_credential_def bearer_token_def cookie_value_def[abs_def])

lemma require_token_passes:
  assumes "require_token config hook req = Inr req'" "\<not> req_trusted req" "cf_token config = Some token"
    and "protected (req_path req) (cf_auth_scope config = ''all'') (cf_metrics_public config)"
  shows "presented_token req = Some token
    \<or> (\<exists>authenticate credential user. hook = Some authenticate \<and> presented_credential config req = Some credential
        \<and> authenticate credential = Some user \<and> user \<noteq> [] \<and> req' = req\<lparr>req_user := Some user\<rparr>)"
proof (cases "token_matches config req")
  case True
  then show ?thesis using assms(3) by (simp add: token_matches_def token_equal_iff split: option.splits)
next
  case False
  then show ?thesis
    using assms by (auto simp: require_token_def split: option.splits if_splits)
qed

lemma require_token_path: "require_token config hook req = Inr req' \<Longrightarrow> req_path req' = req_path req"
  by (auto simp: require_token_def split: if_splits option.splits)

lemma started_token:
  assumes "start_access env config = Inr (config', loopback)"
  shows "cf_allow_unauthenticated config' = cf_allow_unauthenticated config"
    and "\<not> loopback \<Longrightarrow> \<not> cf_allow_unauthenticated config \<Longrightarrow> cf_token config' \<noteq> None"
    and "sa_authenticator env \<Longrightarrow> cf_token config' \<noteq> None"
    and "cf_token config = Some t \<Longrightarrow> cf_token config' = Some t"
proof -
  have upd: "(config\<lparr>cf_token := Some a, cf_token_file := b\<rparr> = c) \<Longrightarrow> cf_token c = Some a" for a b c and config :: ServeConfig by auto
  show "cf_allow_unauthenticated config' = cf_allow_unauthenticated config"
    "\<not> loopback \<Longrightarrow> \<not> cf_allow_unauthenticated config \<Longrightarrow> cf_token config' \<noteq> None"
    "sa_authenticator env \<Longrightarrow> cf_token config' \<noteq> None"
    "cf_token config = Some t \<Longrightarrow> cf_token config' = Some t"
    using assms
    by (auto simp: start_access_def and_then_Inr Let_def split: if_splits prod.splits dest: upd)
qed

text \<open>
  C15: A server that listens beyond loopback answers nobody without a credential, unless the
  operator allowed it. Whatever its configuration had for a token, after the start of such
  a server every TCP request that reaches a protected path carried the server's token, or
  a credential for which the authenticator named the user the request then runs as.
\<close>

theorem beyond_loopback_needs_credential:
  assumes "start_access env config = Inr (config', False)" "\<not> cf_allow_unauthenticated config"
    and "serve_tcp parse_uri config' hook req = Inr req'"
    and "protected (req_path req') (cf_auth_scope config' = ''all'') (cf_metrics_public config')"
  shows "(\<exists>token. cf_token config' = Some token \<and> presented_token req = Some token)
    \<or> (\<exists>authenticate credential user. hook = Some authenticate \<and> presented_credential config' req = Some credential
        \<and> authenticate credential = Some user \<and> user \<noteq> [] \<and> req_user req' = Some user)"
proof -
  obtain token where t: "cf_token config' = Some token"
    using started_token(2)[OF assms(1)] assms(2) by auto
  obtain inner where s: "strip parse_uri (cf_base_path config') (req\<lparr>req_trusted := False\<rparr>) = Inr inner"
    and u: "\<not> req_trusted inner" and r: "require_token config' hook inner = Inr req'"
    using assms(3) by (rule serve_tcp_layers)
  have same: "presented_token inner = presented_token req" "presented_credential config' inner = presented_credential config' req"
    using presented_cong[of inner req config'] strip_keeps[OF s] by simp_all
  have "protected (req_path inner) (cf_auth_scope config' = ''all'') (cf_metrics_public config')"
    using assms(4) require_token_path[OF r] by simp
  from require_token_passes[OF r u t this] show ?thesis
    unfolding same t by auto
qed

section \<open>The start of the server\<close>

lemma trim_hex: "list_all (\<lambda>c. \<not> is_whitespace c) s \<Longrightarrow> s \<noteq> [] \<Longrightarrow> trim (s @ [CHR 0x0A]) = s"
proof -
  assume a: "list_all (\<lambda>c. \<not> is_whitespace c) s" "s \<noteq> []"
  have front: "dropWhile is_whitespace (s @ [CHR 0x0A]) = s @ [CHR 0x0A]"
    using a by (cases s) simp_all
  have behind: "dropWhile is_whitespace (rev s) = rev s"
    using a by (cases s rule: rev_cases) simp_all
  have "is_whitespace (CHR 0x0A)" by (simp add: is_whitespace_def)
  then show ?thesis unfolding trim_def front trim_end_def by (simp add: behind)
qed

lemma hex_no_space: "n < 16 \<Longrightarrow> \<not> is_whitespace (''0123456789abcdef'' ! n)"
proof -
  have "list_all (\<lambda>n. \<not> is_whitespace (''0123456789abcdef'' ! n)) [0..<16]" by code_simp
  then show "n < 16 \<Longrightarrow> ?thesis" by (simp add: list_all_iff)
qed

lemma generate_token_hex: "list_all (\<lambda>c. \<not> is_whitespace c) (generate_token bytes)"
proof -
  have "unat b div 16 < 16" for b :: "8 word" using unsigned_less[of b, where ?'a = nat] by (simp add: less_mult_imp_div_less)
  then show ?thesis
    using hex_no_space by (auto simp: generate_token_def hex_byte_def list_all_iff Let_def simp del: nth_Cons_numeral)
qed

text \<open>The token a start wrote is the one every later start reads.\<close>

lemma token_file_reused:
  assumes "load_or_create_token_file file writable bytes = Inr ((token, True), file')" "bytes \<noteq> []"
  shows "load_or_create_token_file file' writable' bytes' = Inr ((token, False), file')"
proof -
  have t: "token = generate_token bytes" "file' = Some (token @ [CHR 0x0A])"
    using assms(1) by (auto simp: load_or_create_token_file_def Let_def split: option.splits if_splits)
  have "token \<noteq> []" using assms(2) t(1) by (cases bytes) (auto simp: generate_token_def hex_byte_def Let_def)
  then have "trim (token @ [CHR 0x0A]) = token" using trim_hex generate_token_hex t(1) by blast
  then show ?thesis using \<open>token \<noteq> []\<close> by (simp add: load_or_create_token_file_def t(2))
qed

abbreviation route_key :: "RouteSpec \<Rightarrow> string \<times> string" where
  "route_key r \<equiv> (to_ascii_uppercase (rt_method r), normalize_route (rt_path r))"

lemma check_routes_Inr:
  "check_routes builtins seen routes = Inr () \<longleftrightarrow>
   list_all (\<lambda>r. normalize_route (rt_path r) \<notin> set builtins \<and> starts_with (rt_path r) ''/'') routes
   \<and> distinct (map route_key routes) \<and> set (map route_key routes) \<inter> set seen = {}"
  by (induction routes arbitrary: seen) (auto simp: Let_def)

lemma check_conflicts_Inr:
  "check_conflicts routes = Inr () \<longleftrightarrow>
   list_all (\<lambda>r. normalize_route (rt_path r) \<notin> set (map normalize_route BUILTIN_PATHS) \<and> starts_with (rt_path r) ''/'') routes
   \<and> distinct (map route_key routes)"
  by (simp add: check_conflicts_def check_routes_Inr)

text \<open>
  C0: a server that starts has a configuration that can work: its custom routes shadow no
  built-in path and no two of them are the same method on the same path, every entry of
  \<^verbatim>\<open>allowed_hosts\<close> is a host name or an address, the base path is well formed, the cookie of
  the authenticator is not the one that holds the API token, and scope \<^verbatim>\<open>all\<close> comes with an
  authenticator. The start is refused whenever one of these fails.
\<close>

theorem started_config_is_valid:
  assumes "start_access env config = Inr (config', loopback)"
  shows "list_all (\<lambda>r. normalize_route (rt_path r) \<notin> set (map normalize_route BUILTIN_PATHS)
            \<and> starts_with (rt_path r) ''/'') (cf_custom_routes config')
    \<and> distinct (map (\<lambda>r. (to_ascii_uppercase (rt_method r), normalize_route (rt_path r))) (cf_custom_routes config'))
    \<and> list_all valid_entry (cf_allowed_hosts config')
    \<and> base_path_check (cf_base_path config') = Inr ()
    \<and> cf_auth_cookie config' \<noteq> Some COOKIE_NAME
    \<and> (cf_auth_scope config' = ''all'' \<longrightarrow> sa_authenticator env \<and> cf_token config' \<noteq> None)"
proof -
  have same: "cf_custom_routes config' = cf_custom_routes config \<and> cf_allowed_hosts config' = cf_allowed_hosts config
      \<and> cf_base_path config' = cf_base_path config \<and> cf_auth_cookie config' = cf_auth_cookie config
      \<and> cf_auth_scope config' = cf_auth_scope config"
    and c: "check_conflicts (cf_custom_routes config) = Inr ()" "base_path_check (cf_base_path config) = Inr ()"
      "auth_check config (sa_authenticator env) = Inr ()" "check_config config = Inr ()"
    using assms by (auto simp: start_access_def and_then_Inr Let_def split: if_splits prod.splits)
  have hosts: "list_all valid_entry (cf_allowed_hosts config)"
    using c(4) by (auto simp: check_config_def find_None_iff list_all_iff split: option.splits)
  have cookie: "cf_auth_cookie config \<noteq> Some COOKIE_NAME"
    using c(3) by (auto simp: auth_check_def split: if_splits option.splits)
  have scope: "cf_auth_scope config = ''all'' \<longrightarrow> sa_authenticator env"
    using c(3) by (auto simp: auth_check_def split: if_splits)
  show ?thesis
    using same c(1,2) hosts cookie scope started_token(3)[OF assms] by (simp add: check_conflicts_Inr)
qed

section \<open>Samples\<close>

definition sample_config :: ServeConfig where
  "sample_config =
     \<lparr>cf_home = ''/srv'', cf_host = ''0.0.0.0'', cf_port = 80, cf_base_path = ''/cereyan'', cf_token = None,
      cf_token_file = None, cf_auth_cookie = None, cf_auth_scope = ''api'', cf_login_url = None,
      cf_allowed_hosts = [''Flows.example.com''], cf_allow_unauthenticated = False,
      cf_metrics_public = False, cf_custom_routes = [\<lparr>rt_id = 0, rt_method = ''get'', rt_path = ''/hook/{name}''\<rparr>]\<rparr>"

definition sample_env :: start_env where
  "sample_env =
     \<lparr>sa_authenticator = False, sa_engine_bytes = [], sa_bind = (\<lambda>_. Inr False), sa_token_file = None,
      sa_writable = True, sa_file_bytes = [202, 254]\<rparr>"

definition started_config :: ServeConfig where
  "started_config = sample_config\<lparr>cf_token := Some ''cafe'', cf_token_file := Some ''/srv/token''\<rparr>"

text \<open>A parser that splits a target at its question mark.\<close>

definition sample_uri :: uri_parser where
  "sample_uri t = (case split_once ''?'' t of Some (p, q) \<Rightarrow> Some (None, p, Some q) | None \<Rightarrow> Some (None, t, None))"

definition sample_request :: http_request where
  "sample_request =
     \<lparr>req_trusted = False, req_path = ''/cereyan/api/runs'', req_query = Some ''limit=5'', req_authority = None,
      req_host = Some (Some ''flows.example.com''), req_origin = Some (Some ''https://flows.example.com''),
      req_cookie = None, req_authorization = Some (Some ''Bearer cafe''), req_accept = None, req_user = None\<rparr>"

definition served_request :: http_request where
  "served_request = sample_request\<lparr>req_path := ''/api/runs''\<rparr>"

lemma sample_served: "serve_tcp sample_uri started_config None sample_request = Inr served_request"
  by code_simp

lemma sample_started: "start_access sample_env sample_config = Inr (started_config, False)"
  by code_simp

lemma evil_refused:
  "serve_tcp sample_uri started_config None (sample_request\<lparr>req_host := Some (Some ''evil.example'')\<rparr>)
   = Inl (refuse_host ''evil.example'')"
  by code_simp


theorem beyond_loopback_needs_credential_witness: "presented_token sample_request = Some ''cafe''"
proof -
  have "protected (req_path served_request) (cf_auth_scope started_config = ''all'') (cf_metrics_public started_config)"
    by code_simp
  from beyond_loopback_needs_credential[OF sample_started _ sample_served this]
  show ?thesis by (simp add: sample_config_def started_config_def)
qed

theorem started_config_is_valid_witness: "list_all valid_entry (cf_allowed_hosts started_config)"
  using started_config_is_valid[OF sample_started] by simp

end
