(* ===== verification/Retention.thy ===== *)
theory Retention
  imports Active_Index Store_Runs "HOL-Library.Product_Lexorder" "HOL-Library.List_Lexorder" "HOL-Library.Char_ord"
begin

text \<open>
  What the server forgets (\<^verbatim>\<open>crates/server/src/retention.rs\<close>, \<^verbatim>\<open>crates/store/src/manage.rs\<close> and the
  deleting commands of \<^verbatim>\<open>crates/store/src/writer.rs\<close>): expired logs and events, expired runs,
  checkpoints, old backup copies, projects and the reset. The tables are lists of the
  columns these commands read; a foreign key with \<^verbatim>\<open>ON DELETE CASCADE\<close> is written out where a
  row goes. A batch that fails at the store is one for which \<open>ok\<close> is false; the clock, the
  files and their times are arguments.
\<close>

section \<open>Tables\<close>

record TaskMark =
  tm_id :: int
  tm_run_id :: int
  tm_result_ref :: "string option"

record LogMark =
  lm_id :: int
  lm_run_id :: int
  lm_timestamp :: micros

record EventMark =
  em_id :: int
  em_flow_id :: "int option"
  em_timestamp :: micros

record ScheduleMark =
  hm_id :: int
  hm_flow_id :: int
  hm_source :: string

record BackfillMark =
  bm_id :: int
  bm_flow_id :: int
  bm_cancelled :: bool

record RuleMark =
  um_id :: int
  um_source :: string
  um_fire_count :: int
  um_last_fired :: "micros option"

record ExpectMark =
  xm_rule_id :: int
  xm_flow_id :: "int option"
  xm_run_id :: "int option"

record History =
  hs_flows :: "(int \<times> string) list"
  hs_runs :: "Row list"
  hs_tasks :: "TaskMark list"
  hs_logs :: "LogMark list"
  hs_events :: "EventMark list"
  hs_artifacts :: "(int \<times> int) list"
  hs_schedules :: "ScheduleMark list"
  hs_backfills :: "BackfillMark list"
  hs_rules :: "RuleMark list"
  hs_firings :: "int list"
  hs_expectations :: "ExpectMark list"
  hs_variables :: "string list"
  hs_kv :: "(string \<times> string) list"

definition TERMINAL :: "string list" where
  "TERMINAL = [''Completed'', ''Failed'', ''Cancelled'', ''Crashed'']"

definition terminal_row :: "Row \<Rightarrow> bool" where
  "terminal_row r \<longleftrightarrow> (case col_state_type r of Some t \<Rightarrow> t \<in> set TERMINAL | None \<Rightarrow> False)"

definition run_key :: "string \<Rightarrow> int \<Rightarrow> string" where
  "run_key prefix_text i = prefix_text @ show_int i"

definition delete_keys :: "int list \<Rightarrow> (string \<times> string) list \<Rightarrow> (string \<times> string) list" where
  "delete_keys ids kv =
     filter (\<lambda>(k, _). k \<notin> set (map (run_key ''run.input:'') ids) \<and> k \<notin> set (map (run_key ''run.effects:'') ids)
       \<and> k \<notin> set (map (run_key ''run.lineage:'') ids)) kv"

text \<open>\<^verbatim>\<open>DELETE FROM run WHERE id IN (...)\<close> with its cascades; events have no foreign key.\<close>

definition drop_runs :: "int list \<Rightarrow> History \<Rightarrow> History" where
  "drop_runs ids h = h\<lparr>
     hs_runs := filter (\<lambda>r. row_id r \<notin> set ids) (hs_runs h),
     hs_tasks := filter (\<lambda>t. tm_run_id t \<notin> set ids) (hs_tasks h),
     hs_logs := filter (\<lambda>l. lm_run_id l \<notin> set ids) (hs_logs h),
     hs_artifacts := filter (\<lambda>a. snd a \<notin> set ids) (hs_artifacts h) \<rparr>"

definition delete_run_row :: "int \<Rightarrow> History \<Rightarrow> bool \<times> History" where
  "delete_run_row i h = (list_ex (\<lambda>r. row_id r = i) (hs_runs h), drop_runs [i] h)"

section \<open>Expired rows\<close>

definition expired_ids :: "('a \<Rightarrow> int) \<Rightarrow> ('a \<Rightarrow> micros) \<Rightarrow> micros \<Rightarrow> nat \<Rightarrow> 'a list \<Rightarrow> int list" where
  "expired_ids key stamp before limit rows = take limit (sort (map key (filter (\<lambda>r. stamp r < before) rows)))"

definition delete_expired :: "('a \<Rightarrow> int) \<Rightarrow> ('a \<Rightarrow> micros) \<Rightarrow> micros \<Rightarrow> nat \<Rightarrow> 'a list \<Rightarrow> nat \<times> 'a list" where
  "delete_expired key stamp before limit rows =
     (let ids = expired_ids key stamp before limit rows;
          rows' = filter (\<lambda>r. key r \<notin> set ids) rows
      in (length rows - length rows', rows'))"

definition BATCH :: nat where "BATCH = 5000"
definition RUN_BATCH :: nat where "RUN_BATCH = 500"
definition MICROS_PER_DAY :: int where "MICROS_PER_DAY = 86400 * 1000000"
definition MICROS_PER_HOUR :: int where "MICROS_PER_HOUR = 3600 * 1000000"

function expire_table ::
  "(nat \<Rightarrow> bool) \<Rightarrow> nat \<Rightarrow> ('a \<Rightarrow> int) \<Rightarrow> ('a \<Rightarrow> micros) \<Rightarrow> micros \<Rightarrow> 'a list \<Rightarrow> nat \<times> 'a list" where
  "expire_table ok k key stamp before rows =
     (if \<not> ok k then (0, rows)
      else let (n, rows') = delete_expired key stamp before BATCH rows in
        if n < BATCH then (n, rows')
        else let (m, rows'') = expire_table ok (Suc k) key stamp before rows' in (n + m, rows''))"
  by auto
termination
  by (relation "measure (\<lambda>(_, _, _, _, _, rows). length rows)") (auto simp: delete_expired_def BATCH_def Let_def)

text \<open>\<^verbatim>\<open>ORDER BY n.id DESC LIMIT keep\<close> among the finished runs of a flow.\<close>

definition newest_finished :: "nat \<Rightarrow> int \<Rightarrow> Row list \<Rightarrow> int list" where
  "newest_finished keep flow rows =
     take keep (rev (sort (map row_id (filter (\<lambda>n. row_flow_id n = flow \<and> terminal_row n) rows))))"

definition backfill_live :: "History \<Rightarrow> int \<Rightarrow> bool" where
  "backfill_live h b \<longleftrightarrow>
     (\<exists>m \<in> set (hs_backfills h). bm_id m = b \<and> \<not> bm_cancelled m
        \<and> (\<exists>x \<in> set (hs_runs h). row_backfill_id x = Some b \<and> (case col_state_type x of Some t \<Rightarrow> t \<notin> set TERMINAL | None \<Rightarrow> False)))"

definition run_age_mark :: "Row \<Rightarrow> micros" where
  "run_age_mark r =
     (case end_time (col_counters r) of
        Some t \<Rightarrow> t
      | None \<Rightarrow> (case col_state_timestamp r of Some t \<Rightarrow> t | None \<Rightarrow> row_created_at r))"

definition expired_run :: "micros \<Rightarrow> micros \<Rightarrow> int \<Rightarrow> History \<Rightarrow> Row \<Rightarrow> bool" where
  "expired_run before failed_before keep h r \<longleftrightarrow>
     terminal_row r
     \<and> run_age_mark r < (if col_state_type r \<in> {Some ''Failed'', Some ''Crashed''} then failed_before else before)
     \<and> (case row_backfill_id r of None \<Rightarrow> True | Some b \<Rightarrow> \<not> backfill_live h b)
     \<and> row_id r \<notin> set (newest_finished (nat (max keep 0)) (row_flow_id r) (hs_runs h))"

definition select_expired :: "micros \<Rightarrow> micros \<Rightarrow> int \<Rightarrow> nat \<Rightarrow> History \<Rightarrow> Row list" where
  "select_expired before failed_before keep limit h =
     take limit (sort_key row_id (filter (expired_run before failed_before keep h) (hs_runs h)))"

definition delete_expired_runs ::
  "micros \<Rightarrow> micros \<Rightarrow> int \<Rightarrow> nat \<Rightarrow> History \<Rightarrow> (int \<times> int \<times> string) list \<times> History" where
  "delete_expired_runs before failed_before keep limit h =
     (let rows = select_expired before failed_before keep limit h;
          out = map (\<lambda>r. (row_id r, row_flow_id r, the (col_state_type r))) rows;
          ids = map row_id rows
      in if rows = [] then (out, h)
         else (out, drop_runs ids (h\<lparr> hs_kv := delete_keys ids (hs_kv h) \<rparr>)))"

definition unindex :: "micros \<Rightarrow> (int \<times> int \<times> string) list \<Rightarrow> Index \<Rightarrow> Index" where
  "unindex now rows ix =
     fold (\<lambda>(i, flow, state_type). remove_run i (map_option (State_new now) (StateType_parse state_type)) flow) rows ix"

function expire_runs_from ::
  "(nat \<Rightarrow> bool) \<Rightarrow> nat \<Rightarrow> micros \<Rightarrow> micros \<Rightarrow> micros \<Rightarrow> int \<Rightarrow> History \<times> Index \<Rightarrow> nat \<times> History \<times> Index" where
  "expire_runs_from ok k now before failed_before keep (h, ix) =
     (if \<not> ok k then (0, h, ix)
      else let (rows, h') = delete_expired_runs before failed_before keep RUN_BATCH h;
               n = length rows; ix' = unindex now rows ix
        in if n < RUN_BATCH then (n, h', ix')
           else let (m, s) = expire_runs_from ok (Suc k) now before failed_before keep (h', ix') in (n + m, s))"
  by pat_completeness auto

record Settings =
  se_retain_days :: int
  se_retain_runs_days :: int
  se_retain_failed_runs_days :: int
  se_keep_last :: int
  se_retain_checkpoints_days :: int
  se_backup_every :: int
  se_backup_keep :: int

definition cutoff :: "micros \<Rightarrow> int \<Rightarrow> micros" where
  "cutoff now days = i64_sub now (i64_mul days MICROS_PER_DAY)"

lemma delete_expired_runs_result:
  assumes "delete_expired_runs before failed_before keep limit h = (out, h')"
  defines "sel \<equiv> select_expired before failed_before keep limit h"
  shows "out = map (\<lambda>r. (row_id r, row_flow_id r, the (col_state_type r))) sel"
    and "hs_runs h' = filter (\<lambda>r. row_id r \<notin> row_id ` set sel) (hs_runs h)"
    and "hs_backfills h' = hs_backfills h"
  using assms by (auto simp: delete_expired_runs_def Let_def drop_runs_def split: if_splits)

lemma select_expired_sub: "r \<in> set (select_expired b f k n h) \<Longrightarrow> r \<in> set (hs_runs h) \<and> expired_run b f k h r"
  by (auto simp: select_expired_def dest!: in_set_takeD)

lemma delete_expired_runs_shrinks:
  assumes "delete_expired_runs before failed_before keep limit h = (out, h')" "out \<noteq> []"
  shows "length (hs_runs h') < length (hs_runs h)"
proof -
  obtain r where "r \<in> set (select_expired before failed_before keep limit h)"
    using assms delete_expired_runs_result(1)[OF assms(1)] by (metis list.map_disc_iff list.set_sel(1))
  then show ?thesis
    using select_expired_sub delete_expired_runs_result(2)[OF assms(1)]
      length_filter_less[of r "hs_runs h" "\<lambda>r. row_id r \<notin> row_id ` set (select_expired before failed_before keep limit h)"]
    by auto
qed

termination expire_runs_from
proof (relation "measure (\<lambda>(_, _, _, _, _, _, h, _). length (hs_runs h))", goal_cases)
  case (2 ok k now before failed_before keep h ix x rows h' n ix')
  then have "length rows \<ge> RUN_BATCH" by simp
  then have "rows \<noteq> []" by (auto simp: RUN_BATCH_def)
  then show ?case using delete_expired_runs_shrinks[of before failed_before keep RUN_BATCH h rows h'] 2 by simp
qed simp

definition expire_runs :: "(nat \<Rightarrow> bool) \<Rightarrow> micros \<Rightarrow> Settings \<Rightarrow> History \<times> Index \<Rightarrow> nat \<times> History \<times> Index" where
  "expire_runs ok now settings s =
     (let run_days = se_retain_runs_days settings in
      if run_days \<le> 0 then (0, s)
      else let failed_days = (if 0 < se_retain_failed_runs_days settings then se_retain_failed_runs_days settings else run_days)
           in expire_runs_from ok 0 now (cutoff now run_days) (cutoff now failed_days)
                (max (se_keep_last settings) 0) s)"

section \<open>Checkpoints and backup copies\<close>

record File =
  fi_name :: string
  fi_modified :: "micros option"
  fi_removable :: bool

definition clear_checkpoints_before :: "micros \<Rightarrow> History \<Rightarrow> History" where
  "clear_checkpoints_before before h =
     (let ended = map row_id (filter (\<lambda>r. terminal_row r \<and>
            (case end_time (col_counters r) of Some t \<Rightarrow> t < before | None \<Rightarrow> False)) (hs_runs h))
      in h\<lparr> hs_tasks := map (\<lambda>t. if tm_run_id t \<in> set ended then t\<lparr> tm_result_ref := None \<rparr> else t) (hs_tasks h) \<rparr>)"

definition expire_checkpoints :: "micros \<Rightarrow> Settings \<Rightarrow> File list option \<Rightarrow> History \<Rightarrow> nat \<times> File list option \<times> History" where
  "expire_checkpoints now settings files h =
     (let days = se_retain_checkpoints_days settings in
      if days \<le> 0 then (0, files, h)
      else let before = cutoff now days; h' = clear_checkpoints_before before h in
        case files of
          None \<Rightarrow> (0, None, h')
        | Some entries \<Rightarrow>
            (let gone = (\<lambda>f. starts_with (fi_name f) ''ckpt-'' \<and> fi_removable f
                   \<and> (case fi_modified f of Some m \<Rightarrow> m < max before 0 | None \<Rightarrow> False))
             in (length (filter gone entries), Some (filter (\<lambda>f. \<not> gone f) entries), h')))"

definition pad :: "nat \<Rightarrow> int \<Rightarrow> string" where
  "pad width n = (let t = show_int n in replicate (width - length t) CHR ''0'' @ t)"

text \<open>The fields are positive from the year 1 on, where padding puts zeros first.\<close>

definition utc_stamp :: "micros \<Rightarrow> string" where
  "utc_stamp us =
     (let secs = us div 1000000; days = secs div 86400; rem = secs mod 86400;
          z = days + 719468; era = z div 146097; doe = z mod 146097;
          yoe = (doe - doe div 1460 + doe div 36524 - doe div 146096) div 365;
          doy = doe - (365 * yoe + yoe div 4 - yoe div 100);
          mp = (5 * doy + 2) div 153;
          day = doy - (153 * mp + 2) div 5 + 1;
          month = (if mp < 10 then mp + 3 else mp - 9);
          year = yoe + era * 400 + (if month \<le> 2 then 1 else 0)
      in pad 4 year @ pad 2 month @ pad 2 day @ ''-'' @ pad 2 (rem div 3600) @ pad 2 (rem mod 3600 div 60) @ pad 2 (rem mod 60))"

definition copy_name :: "string \<Rightarrow> nat \<Rightarrow> string" where
  "copy_name stamp n = (if n = 0 then ''db-'' @ stamp @ ''.sqlite'' else ''db-'' @ stamp @ ''-'' @ show_nat n @ ''.sqlite'')"

text \<open>The search for a name no file has, with one attempt per file and one more.\<close>

fun free_name :: "nat \<Rightarrow> string \<Rightarrow> nat \<Rightarrow> string list \<Rightarrow> string option" where
  "free_name 0 stamp n names = None"
| "free_name (Suc fuel) stamp n names =
     (if copy_name stamp n \<in> set names then free_name fuel stamp (Suc n) names else Some (copy_name stamp n))"

definition backup :: "micros \<Rightarrow> bool \<Rightarrow> File list \<Rightarrow> (StoreError + string) \<times> File list" where
  "backup now written files =
     (case free_name (Suc (length files)) (utc_stamp now) 0 (map fi_name files) of
        None \<Rightarrow> (Inl (Sqlite ''no name''), files)
      | Some name \<Rightarrow>
          if written then (Inr name, files @ [\<lparr> fi_name = name, fi_modified = Some now, fi_removable = True \<rparr>])
          else (Inl (Sqlite ''VACUUM INTO''), files))"

definition is_copy :: "File \<Rightarrow> bool" where
  "is_copy f \<longleftrightarrow> starts_with (fi_name f) ''db-'' \<and> ends_with (fi_name f) ''.sqlite''"

definition list_backups :: "File list \<Rightarrow> File list" where
  "list_backups files =
     sort_key (\<lambda>f. (case fi_modified f of Some m \<Rightarrow> m | None \<Rightarrow> 0, fi_name f)) (filter is_copy files)"

fun remove_files :: "File list \<Rightarrow> File list \<Rightarrow> bool \<times> File list" where
  "remove_files [] files = (True, files)"
| "remove_files (f # fs) files =
     (if fi_removable f then remove_files fs (filter (\<lambda>g. fi_name g \<noteq> fi_name f) files) else (False, files))"

definition prune_backups :: "nat \<Rightarrow> File list \<Rightarrow> nat option \<times> File list" where
  "prune_backups keep files =
     (let copies = list_backups files; excess = length copies - keep;
          (done, files') = remove_files (take excess copies) files
      in (if done then Some excess else None, files'))"

definition run_backup ::
  "micros \<Rightarrow> bool \<Rightarrow> Settings \<Rightarrow> File list \<Rightarrow> History \<Rightarrow> (StoreError + string) \<times> File list \<times> History" where
  "run_backup now written settings files h =
     (case backup now written files of
        (Inl e, files') \<Rightarrow> (Inl e, files', h)
      | (Inr path, files') \<Rightarrow>
          (let h' = h\<lparr> hs_kv := AList.update ''backup.last_path'' path (AList.update ''backup.last_at'' (show_int now) (hs_kv h)) \<rparr>;
               (_, files'') = prune_backups (nat (max (se_backup_keep settings) 0)) files'
           in (Inr path, files'', h')))"

definition backup_if_due ::
  "micros \<Rightarrow> bool \<Rightarrow> Settings \<Rightarrow> File list \<Rightarrow> History \<Rightarrow> string option \<times> File list \<times> History" where
  "backup_if_due now written settings files h =
     (let every = se_backup_every settings in
      if every \<le> 0 then (None, files, h)
      else let copied_at = (case Option.bind (map_of (hs_kv h) ''backup.last_at'') parse_i64 of Some t \<Rightarrow> t | None \<Rightarrow> 0) in
        if 0 < copied_at \<and> i64_sub now copied_at < i64_mul every MICROS_PER_HOUR then (None, files, h)
        else (case run_backup now written settings files h of
                (Inr path, files', h') \<Rightarrow> (Some path, files', h')
              | (Inl _, files', h') \<Rightarrow> (None, files', h')))"

section \<open>A pass\<close>

record RetentionOutcome =
  oc_logs :: nat
  oc_events :: nat
  oc_runs :: nat
  oc_checkpoints :: nat
  oc_backup :: "string option"

record Disk =
  dk_storage :: "File list option"
  dk_backups :: "File list"
  dk_written :: bool

definition expire_logs_events :: "(nat \<Rightarrow> bool) \<Rightarrow> (nat \<Rightarrow> bool) \<Rightarrow> micros \<Rightarrow> int \<Rightarrow> History \<Rightarrow> nat \<times> nat \<times> History" where
  "expire_logs_events ok_logs ok_events now retain_days h =
     (let days = max retain_days 0 in
      if 0 < days
      then let before = cutoff now days;
               (n, logs) = expire_table ok_logs 0 lm_id lm_timestamp before (hs_logs h);
               (m, events) = expire_table ok_events 0 em_id em_timestamp before (hs_events h)
           in (n, m, h\<lparr> hs_logs := logs, hs_events := events \<rparr>)
      else (0, 0, h))"

definition run_once ::
  "(nat \<Rightarrow> bool) \<Rightarrow> (nat \<Rightarrow> bool) \<Rightarrow> (nat \<Rightarrow> bool) \<Rightarrow> micros \<Rightarrow> Settings \<Rightarrow> Disk \<Rightarrow> History \<times> Index \<Rightarrow> RetentionOutcome \<times> Disk \<times> History \<times> Index" where
  "run_once ok_logs ok_events ok_runs now settings disk s =
     (let (h, ix) = s;
          (logs, events, h) = expire_logs_events ok_logs ok_events now (se_retain_days settings) h;
          (runs, h, ix) = expire_runs ok_runs now settings (h, ix);
          (checkpoints, storage, h) = expire_checkpoints now settings (dk_storage disk) h;
          (path, backups, h) = backup_if_due now (dk_written disk) settings (dk_backups disk) h
      in (\<lparr> oc_logs = logs, oc_events = events, oc_runs = runs, oc_checkpoints = checkpoints, oc_backup = path \<rparr>,
          disk\<lparr> dk_storage := storage, dk_backups := backups \<rparr>, h, ix))"

text \<open>\<^verbatim>\<open>PATCH /api/settings\<close> stores any value that is not negative.\<close>

definition patch_slot :: "int \<Rightarrow> (int \<Rightarrow> Settings \<Rightarrow> Settings) \<Rightarrow> Settings \<Rightarrow> Settings option" where
  "patch_slot v slot settings = (if v < 0 then None else Some (slot v settings))"

section \<open>Projects and the reset\<close>

datatype FlowRows = LogRows | EventRows
datatype ResetScope = ResetHistory | ResetEverything

record DeletedCounts =
  dc_flows :: nat
  dc_runs :: nat
  dc_task_runs :: nat
  dc_logs :: nat
  dc_events :: nat
  dc_artifacts :: nat
  dc_schedules :: nat
  dc_backfills :: nat
  dc_rules :: nat
  dc_variables :: nat

definition no_counts :: DeletedCounts where
  "no_counts = \<lparr> dc_flows = 0, dc_runs = 0, dc_task_runs = 0, dc_logs = 0, dc_events = 0, dc_artifacts = 0,
     dc_schedules = 0, dc_backfills = 0, dc_rules = 0, dc_variables = 0 \<rparr>"

definition runs_of :: "int list \<Rightarrow> History \<Rightarrow> int list" where
  "runs_of flows h = map row_id (filter (\<lambda>r. row_flow_id r \<in> set flows) (hs_runs h))"

definition log_of_flows :: "int list \<Rightarrow> History \<Rightarrow> LogMark \<Rightarrow> bool" where
  "log_of_flows flows h l \<longleftrightarrow> lm_run_id l \<in> set (runs_of flows h)"

definition event_of_flows :: "int list \<Rightarrow> EventMark \<Rightarrow> bool" where
  "event_of_flows flows e \<longleftrightarrow> (case em_flow_id e of Some f \<Rightarrow> f \<in> set flows | None \<Rightarrow> False)"

definition delete_flow_rows :: "FlowRows \<Rightarrow> int list \<Rightarrow> nat \<Rightarrow> History \<Rightarrow> nat \<times> History" where
  "delete_flow_rows rows flows limit h =
     (case rows of
        LogRows \<Rightarrow>
          (let ids = take limit (map lm_id (filter (log_of_flows flows h) (hs_logs h)));
               logs = filter (\<lambda>l. lm_id l \<notin> set ids) (hs_logs h)
           in (length (hs_logs h) - length logs, h\<lparr> hs_logs := logs \<rparr>))
      | EventRows \<Rightarrow>
          (let ids = take limit (map em_id (filter (event_of_flows flows) (hs_events h)));
               events = filter (\<lambda>e. em_id e \<notin> set ids) (hs_events h)
           in (length (hs_events h) - length events, h\<lparr> hs_events := events \<rparr>)))"

text \<open>\<^verbatim>\<open>DELETE FROM flow\<close> cascades to runs, schedules and backfills.\<close>

definition drop_flows :: "int list \<Rightarrow> History \<Rightarrow> History" where
  "drop_flows flows h =
     (let h' = drop_runs (runs_of flows h) h
      in h'\<lparr> hs_flows := filter (\<lambda>f. fst f \<notin> set flows) (hs_flows h),
            hs_schedules := filter (\<lambda>s. hm_flow_id s \<notin> set flows) (hs_schedules h),
            hs_backfills := filter (\<lambda>b. bm_flow_id b \<notin> set flows) (hs_backfills h) \<rparr>)"

definition counts_of_flows :: "int list \<Rightarrow> History \<Rightarrow> DeletedCounts" where
  "counts_of_flows flows h =
     (let runs = runs_of flows h in
      no_counts\<lparr> dc_flows := length (filter (\<lambda>f. fst f \<in> set flows) (hs_flows h)),
        dc_runs := length runs,
        dc_task_runs := length (filter (\<lambda>t. tm_run_id t \<in> set runs) (hs_tasks h)),
        dc_logs := length (filter (\<lambda>l. lm_run_id l \<in> set runs) (hs_logs h)),
        dc_events := length (filter (event_of_flows flows) (hs_events h)),
        dc_artifacts := length (filter (\<lambda>a. snd a \<in> set runs) (hs_artifacts h)),
        dc_schedules := length (filter (\<lambda>s. hm_flow_id s \<in> set flows) (hs_schedules h)),
        dc_backfills := length (filter (\<lambda>b. bm_flow_id b \<in> set flows) (hs_backfills h)) \<rparr>)"

definition delete_flows :: "int list \<Rightarrow> History \<Rightarrow> DeletedCounts \<times> History" where
  "delete_flows flows h =
     (let runs = runs_of flows h in
      (counts_of_flows flows h,
       drop_flows flows (h\<lparr> hs_kv := delete_keys runs (hs_kv h),
         hs_expectations := filter (\<lambda>x. \<not> ((case xm_flow_id x of Some f \<Rightarrow> f \<in> set flows | None \<Rightarrow> False)
            \<or> (case xm_run_id x of Some r \<Rightarrow> r \<in> set runs | None \<Rightarrow> False))) (hs_expectations h),
         hs_events := filter (\<lambda>e. \<not> event_of_flows flows e) (hs_events h) \<rparr>)))"

function delete_rows_batched :: "FlowRows \<Rightarrow> int list \<Rightarrow> nat \<Rightarrow> History \<Rightarrow> nat \<times> History" where
  "delete_rows_batched rows flows batch h =
     (let (n, h') = delete_flow_rows rows flows batch h in
      if n < batch \<or> batch = 0 then (n, h')
      else let (m, h'') = delete_rows_batched rows flows batch h' in (n + m, h''))"
  by auto
termination
  by (relation "measure (\<lambda>(_, _, _, h). length (hs_logs h) + length (hs_events h))")
    (auto simp: delete_flow_rows_def Let_def split: FlowRows.splits)

definition delete_flows_batched :: "int list \<Rightarrow> nat \<Rightarrow> History \<Rightarrow> DeletedCounts \<times> History" where
  "delete_flows_batched flows batch h =
     (let (logs, h) = delete_rows_batched LogRows flows batch h;
          (events, h) = delete_rows_batched EventRows flows batch h;
          (out, h) = delete_flows flows h
      in (out\<lparr> dc_logs := dc_logs out + logs, dc_events := dc_events out + events \<rparr>, h))"

definition like_key :: "string \<Rightarrow> string \<Rightarrow> bool" where
  "like_key prefix_text k \<longleftrightarrow> starts_with (to_ascii_lowercase k) prefix_text"

definition reset_history :: "History \<Rightarrow> History" where
  "reset_history h = h\<lparr> hs_logs := [], hs_artifacts := [], hs_tasks := [], hs_firings := [], hs_expectations := [],
     hs_events := [], hs_runs := [], hs_backfills := [],
     hs_kv := filter (\<lambda>(k, _). \<not> like_key ''run.input:'' k \<and> \<not> like_key ''run.effects:'' k \<and> \<not> like_key ''run.lineage:'' k) (hs_kv h),
     hs_rules := map (\<lambda>r. r\<lparr> um_fire_count := 0, um_last_fired := None \<rparr>) (hs_rules h) \<rparr>"

definition reset_everything :: "int list \<Rightarrow> History \<Rightarrow> History" where
  "reset_everything live h =
     (let stale = map fst (filter (\<lambda>f. fst f \<notin> set live) (hs_flows h));
          h = drop_flows stale h;
          ui = map um_id (filter (\<lambda>r. um_source r \<noteq> ''code'') (hs_rules h))
      in h\<lparr> hs_schedules := filter (\<lambda>s. hm_source s = ''code'') (hs_schedules h),
            hs_kv := filter (\<lambda>(k, _). k \<notin> set (map (run_key ''rules.clock_last:'') ui)) (hs_kv h),
            hs_rules := filter (\<lambda>r. um_source r = ''code'') (hs_rules h),
            hs_variables := [] \<rparr>)"

definition store_reset :: "ResetScope \<Rightarrow> int list \<Rightarrow> History \<Rightarrow> DeletedCounts \<times> History" where
  "store_reset scope live h =
     (let out = no_counts\<lparr> dc_runs := length (hs_runs h), dc_task_runs := length (hs_tasks h), dc_logs := length (hs_logs h),
            dc_events := length (hs_events h), dc_artifacts := length (hs_artifacts h), dc_backfills := length (hs_backfills h) \<rparr>;
          h' = reset_history h
      in if scope = ResetEverything
         then (out\<lparr> dc_flows := length (filter (\<lambda>f. fst f \<notin> set live) (hs_flows h')),
                 dc_schedules := length (filter (\<lambda>s. hm_source s \<noteq> ''code'' \<or> hm_flow_id s \<notin> set live) (hs_schedules h')),
                 dc_rules := length (filter (\<lambda>r. um_source r \<noteq> ''code'') (hs_rules h')),
                 dc_variables := length (hs_variables h') \<rparr>, reset_everything live h')
         else (out, h'))"

end
