(* ===== verification/Retention_Facts.thy ===== *)
theory Retention_Facts
  imports Retention "HOL-Library.Multiset"
begin

text \<open>
  What maintenance guarantees: a pass in batches deletes exactly the rows that expired, the
  working set follows it, no row is left pointing at a row that is gone, a batched removal
  of a project is the removal at once, and the cut-off of a retention setting.
\<close>

declare expire_table.simps [simp del]
declare expire_runs_from.simps [simp del]
declare delete_rows_batched.simps [simp del]

section \<open>Batches\<close>

lemma sort_map_key: "sort (map key xs) = map key (sort_key key xs)"
  by (rule properties_for_sort) simp_all

lemma take_filter_keep: "\<forall>x \<in> set (take k xs). P x \<Longrightarrow> take k (filter P xs) = take k xs"
  by (induction xs arbitrary: k) (auto simp: take_Cons' split: if_splits)

lemma filter_by_key:
  assumes "distinct (map key rows)" "sel \<subseteq> set rows"
  shows "filter (\<lambda>r. key r \<notin> key ` sel) rows = filter (\<lambda>r. r \<notin> sel) rows"
  using assms by (intro filter_cong refl) (auto simp: distinct_map inj_on_def)

lemma length_filter_out:
  assumes "distinct (map key rows)" "distinct sel" "set sel \<subseteq> set rows"
  shows "length rows - length (filter (\<lambda>r. key r \<notin> key ` set sel) rows) = length sel"
proof -
  have d: "distinct rows" using assms(1) distinct_map by blast
  have "card {r \<in> set rows. r \<notin> set sel} = card (set rows) - card (set sel)"
    using assms(3) by (metis card_Diff_subset finite_set set_diff_eq)
  then have "length (filter (\<lambda>r. r \<notin> set sel) rows) = length rows - length sel"
    using d assms(2) by (metis distinct_card distinct_filter set_filter)
  moreover have "length sel \<le> length rows"
    using assms(2,3) d by (metis card_mono distinct_card finite_set)
  ultimately show ?thesis using filter_by_key[OF assms(1,3)] by simp
qed

text \<open>One batch: the rows it takes, how many they are, and that a short one took them all.\<close>

lemma delete_expired_batch:
  assumes "distinct (map key rows)" "delete_expired key stamp before limit rows = (n, rows')"
  shows "filter (\<lambda>r. \<not> stamp r < before) rows' = filter (\<lambda>r. \<not> stamp r < before) rows"
    and "distinct (map key rows')"
    and "length rows = n + length rows'"
    and "n < limit \<Longrightarrow> rows' = filter (\<lambda>r. \<not> stamp r < before) rows"
proof -
  let ?sel = "take limit (sort_key key (filter (\<lambda>r. stamp r < before) rows))"
  have ids: "set (expired_ids key stamp before limit rows) = key ` set ?sel"
    by (simp add: expired_ids_def sort_map_key take_map)
  have sub: "set ?sel \<subseteq> set rows" by (auto dest: in_set_takeD)
  have dr: "distinct rows" using assms(1) distinct_map by blast
  have ds: "distinct ?sel" using dr by (simp add: distinct_take)
  have r: "rows' = filter (\<lambda>r. r \<notin> set ?sel) rows" and n: "n = length ?sel"
    using assms(2) filter_by_key[OF assms(1) sub] length_filter_out[OF assms(1) ds sub]
    by (auto simp: delete_expired_def Let_def ids)
  show "filter (\<lambda>r. \<not> stamp r < before) rows' = filter (\<lambda>r. \<not> stamp r < before) rows"
    unfolding r filter_filter by (rule filter_cong) (auto dest: in_set_takeD)
  show "distinct (map key rows')" using assms(1) r by (simp add: distinct_map_filter)
  show "length rows = n + length rows'"
    using assms(2) by (auto simp: delete_expired_def Let_def)
  show "rows' = filter (\<lambda>r. \<not> stamp r < before) rows" if "n < limit"
  proof -
    have "?sel = sort_key key (filter (\<lambda>r. stamp r < before) rows)" using that n by simp
    then have "set ?sel = {r \<in> set rows. stamp r < before}" by (metis set_filter set_sort)
    then show ?thesis unfolding r by (intro filter_cong) auto
  qed
qed

lemma expire_table_exact:
  assumes "\<And>k. ok k" "distinct (map key rows)"
  shows "snd (expire_table ok k key stamp before rows) = filter (\<lambda>r. \<not> stamp r < before) rows
    \<and> fst (expire_table ok k key stamp before rows) = length (filter (\<lambda>r. stamp r < before) rows)"
  using assms
proof (induction ok k key stamp before rows rule: expire_table.induct)
  case (1 ok k key stamp before rows)
  obtain n rows' where d: "delete_expired key stamp before BATCH rows = (n, rows')" by fastforce
  note b = delete_expired_batch[OF 1(3) d]
  have len: "length rows = length (filter (\<lambda>r. stamp r < before) rows) + length (filter (\<lambda>r. \<not> stamp r < before) rows)"
    by (simp add: sum_length_filter_compl)
  show ?case
  proof (cases "n < BATCH")
    case True
    then have "expire_table ok k key stamp before rows = (n, rows')"
      using 1(2) d by (subst expire_table.simps) simp
    then show ?thesis using b(3) b(4)[OF True] len by simp
  next
    case False
    have e: "expire_table ok k key stamp before rows =
        (let (m, rows'') = expire_table ok (Suc k) key stamp before rows' in (n + m, rows''))"
      using 1(2) d False by (subst expire_table.simps) simp
    obtain m rows'' where m: "expire_table ok (Suc k) key stamp before rows' = (m, rows'')" by fastforce
    have "rows'' = filter (\<lambda>r. \<not> stamp r < before) rows'" "m = length (filter (\<lambda>r. stamp r < before) rows')"
      using 1(1)[OF _ refl d[symmetric] False 1(2) b(2)] 1(2) unfolding m by simp_all
    moreover have "length rows' = length (filter (\<lambda>r. stamp r < before) rows') + length (filter (\<lambda>r. \<not> stamp r < before) rows')"
      by (simp add: sum_length_filter_compl)
    ultimately show ?thesis using b(1,3) len unfolding e m by simp
  qed
qed

section \<open>Expired runs\<close>

lemma newest_stable:
  assumes "\<forall>i \<in> set (newest_finished keep flow rows). i \<notin> ids"
  shows "newest_finished keep flow (filter (\<lambda>r. row_id r \<notin> ids) rows) = newest_finished keep flow rows"
proof -
  let ?q = "\<lambda>n. row_flow_id n = flow \<and> terminal_row n"
  have "map row_id (filter ?q (filter (\<lambda>r. row_id r \<notin> ids) rows)) = filter (\<lambda>i. i \<notin> ids) (map row_id (filter ?q rows))"
    by (simp add: filter_map o_def conj_commute)
  then have "rev (sort (map row_id (filter ?q (filter (\<lambda>r. row_id r \<notin> ids) rows))))
      = filter (\<lambda>i. i \<notin> ids) (rev (sort (map row_id (filter ?q rows))))"
    by (simp add: filter_sort flip: rev_filter)
  then show ?thesis using take_filter_keep assms by (simp add: newest_finished_def)
qed

lemma terminal_row_text: "terminal_row r \<longleftrightarrow> (\<exists>t. col_state_type r = Some t \<and> t \<in> set TERMINAL)"
  by (auto simp: terminal_row_def split: option.splits)

lemma expired_stable:
  assumes d: "distinct (map row_id (hs_runs h))" and sel: "sel \<subseteq> set (hs_runs h)"
    and ex: "\<forall>r \<in> sel. expired_run b f k h r"
    and h': "hs_runs h' = filter (\<lambda>r. row_id r \<notin> row_id ` sel) (hs_runs h)" "hs_backfills h' = hs_backfills h"
  shows "expired_run b f k h' r = expired_run b f k h r"
proof -
  have inj: "x \<in> set (hs_runs h) \<Longrightarrow> y \<in> set (hs_runs h) \<Longrightarrow> row_id x = row_id y \<Longrightarrow> x = y" for x y
    using d by (auto simp: distinct_map inj_on_def)
  have "i \<notin> row_id ` sel" if i: "i \<in> set (newest_finished (nat (max k 0)) flow (hs_runs h))" for i flow
  proof
    assume "i \<in> row_id ` sel"
    then obtain r where r: "r \<in> sel" "i = row_id r" by blast
    obtain n where n: "n \<in> set (hs_runs h)" "row_id n = i" "row_flow_id n = flow"
      using i by (auto simp: newest_finished_def dest!: in_set_takeD)
    then have "n = r" using inj r sel by auto
    then show False using ex r n i by (auto simp: expired_run_def)
  qed
  then have new: "newest_finished (nat (max k 0)) flow (hs_runs h') = newest_finished (nat (max k 0)) flow (hs_runs h)" for flow
    unfolding h'(1) by (intro newest_stable) blast
  have kept: "x \<in> set (hs_runs h') \<longleftrightarrow> x \<in> set (hs_runs h)" if "\<not> terminal_row x" for x
    using that inj sel ex by (auto simp: h'(1) expired_run_def)
  have live: "(\<exists>x \<in> set (hs_runs h'). C x) \<longleftrightarrow> (\<exists>x \<in> set (hs_runs h). C x)" if "\<And>x. C x \<Longrightarrow> \<not> terminal_row x" for C
    using kept that by blast
  have bl: "backfill_live h' bf = backfill_live h bf" for bf
    unfolding backfill_live_def h'(2)
    by (subst live) (auto simp: terminal_row_def split: option.splits)
  show ?thesis by (cases "row_backfill_id r") (simp_all add: expired_run_def new bl)
qed

lemma expired_batch:
  assumes d: "distinct (map row_id (hs_runs h))" and e: "delete_expired_runs b f k limit h = (out, h')"
  shows "filter (\<lambda>r. \<not> expired_run b f k h' r) (hs_runs h') = filter (\<lambda>r. \<not> expired_run b f k h r) (hs_runs h)"
    and "distinct (map row_id (hs_runs h'))"
    and "length (hs_runs h) = length out + length (hs_runs h')"
    and "length out < limit \<Longrightarrow> hs_runs h' = filter (\<lambda>r. \<not> expired_run b f k h r) (hs_runs h)"
proof -
  let ?sel = "select_expired b f k limit h"
  have sub: "set ?sel \<subseteq> set (hs_runs h)" and ex: "\<forall>r \<in> set ?sel. expired_run b f k h r"
    using select_expired_sub by blast+
  have r: "hs_runs h' = filter (\<lambda>r. row_id r \<notin> row_id ` set ?sel) (hs_runs h)"
    and bf: "hs_backfills h' = hs_backfills h" and o: "length out = length ?sel"
    using delete_expired_runs_result[OF e] by simp_all
  have st: "expired_run b f k h' r = expired_run b f k h r" for r
    by (rule expired_stable[OF d sub ex r bf])
  have r': "hs_runs h' = filter (\<lambda>r. r \<notin> set ?sel) (hs_runs h)" using r filter_by_key[OF d sub] by simp
  show "filter (\<lambda>r. \<not> expired_run b f k h' r) (hs_runs h') = filter (\<lambda>r. \<not> expired_run b f k h r) (hs_runs h)"
    unfolding st r' filter_filter using ex by (intro filter_cong refl) auto
  show "distinct (map row_id (hs_runs h'))" using d r' by (simp add: distinct_map_filter)
  have "distinct (hs_runs h)" using d distinct_map by blast
  then have "distinct ?sel" by (simp add: select_expired_def distinct_take)
  then have "length (hs_runs h) - length (hs_runs h') = length out"
    unfolding r o by (rule length_filter_out[OF d _ sub])
  moreover have "length (hs_runs h') \<le> length (hs_runs h)" by (simp add: r)
  ultimately show "length (hs_runs h) = length out + length (hs_runs h')" by simp
  show "hs_runs h' = filter (\<lambda>r. \<not> expired_run b f k h r) (hs_runs h)" if "length out < limit"
  proof -
    have "?sel = sort_key row_id (filter (expired_run b f k h) (hs_runs h))"
      using that o by (simp add: select_expired_def)
    then have "set ?sel = {r \<in> set (hs_runs h). expired_run b f k h r}" by simp
    then show ?thesis unfolding r' by (intro filter_cong) auto
  qed
qed

lemma expire_runs_from_exact:
  assumes "\<And>k. ok k" "distinct (map row_id (hs_runs h))"
  shows "\<exists>h' ix'. expire_runs_from ok j now b f k (h, ix)
      = (length (filter (expired_run b f k h) (hs_runs h)), h', ix')
    \<and> hs_runs h' = filter (\<lambda>r. \<not> expired_run b f k h r) (hs_runs h)"
  using assms
proof (induction ok j now b f k "(h, ix)" arbitrary: h ix rule: expire_runs_from.induct)
  case (1 ok j now b f k h ix)
  obtain out h1 where e: "delete_expired_runs b f k RUN_BATCH h = (out, h1)" by fastforce
  note bt = expired_batch[OF 1(3) e]
  have len: "length (hs_runs h) = length (filter (expired_run b f k h) (hs_runs h))
      + length (filter (\<lambda>r. \<not> expired_run b f k h r) (hs_runs h))"
    by (simp add: sum_length_filter_compl)
  show ?case
  proof (cases "length out < RUN_BATCH")
    case True
    then show ?thesis using 1(2) e bt(3) bt(4)[OF True] len by (simp add: expire_runs_from.simps[of _ _ _ _ _ _ h] Let_def)
  next
    case False
    have len1: "length (hs_runs h1) = length (filter (expired_run b f k h1) (hs_runs h1))
        + length (filter (\<lambda>r. \<not> expired_run b f k h1 r) (hs_runs h1))"
      by (simp add: sum_length_filter_compl)
    obtain h' ix' where
      "expire_runs_from ok (Suc j) now b f k (h1, unindex now out ix) = (length (filter (expired_run b f k h1) (hs_runs h1)), h', ix')"
      "hs_runs h' = filter (\<lambda>r. \<not> expired_run b f k h1 r) (hs_runs h1)"
      using 1(1)[OF _ refl e[symmetric] refl refl False _ bt(2)] 1(2) by blast
    then show ?thesis using 1(2) e False bt(1,3) len len1 by (simp add: expire_runs_from.simps[of _ _ _ _ _ _ h] Let_def)
  qed
qed

text \<open>A pass whose batches may fail at the store deletes nothing that has not expired.\<close>

lemma expire_runs_from_sound:
  assumes "distinct (map row_id (hs_runs h))"
  shows "\<exists>n h' ix'. expire_runs_from ok j now b f k (h, ix) = (n, h', ix')
    \<and> filter (\<lambda>r. \<not> expired_run b f k h r) (hs_runs h') = filter (\<lambda>r. \<not> expired_run b f k h r) (hs_runs h)
    \<and> (\<exists>P. hs_runs h' = filter P (hs_runs h))"
  using assms
proof (induction ok j now b f k "(h, ix)" arbitrary: h ix rule: expire_runs_from.induct)
  case (1 ok j now b f k h ix)
  obtain out h1 where e: "delete_expired_runs b f k RUN_BATCH h = (out, h1)" by fastforce
  note bt = expired_batch[OF 1(2) e]
  let ?sel = "set (select_expired b f k RUN_BATCH h)"
  have r: "hs_runs h1 = filter (\<lambda>r. row_id r \<notin> row_id ` ?sel) (hs_runs h)"
    and bf: "hs_backfills h1 = hs_backfills h" using delete_expired_runs_result[OF e] by simp_all
  have sub: "?sel \<subseteq> set (hs_runs h)" and ex: "\<forall>r \<in> ?sel. expired_run b f k h r" using select_expired_sub by blast+
  have st: "expired_run b f k h1 = expired_run b f k h" using expired_stable[OF 1(2) sub ex r bf] by (simp add: fun_eq_iff)
  consider "\<not> ok j" | "ok j" "length out < RUN_BATCH" | "ok j" "\<not> length out < RUN_BATCH" by blast
  then show ?case
  proof cases
    case 1
    then show ?thesis by (auto simp: expire_runs_from.simps intro: exI[of _ "\<lambda>_. True"])
  next
    case 2
    then show ?thesis using e bt(1) r unfolding st
      by (auto simp: expire_runs_from.simps[of _ _ _ _ _ _ h] Let_def)
  next
    case 3
    then obtain n h' ix' P where "expire_runs_from ok (Suc j) now b f k (h1, unindex now out ix) = (n, h', ix')"
      and "filter (\<lambda>r. \<not> expired_run b f k h r) (hs_runs h') = filter (\<lambda>r. \<not> expired_run b f k h r) (hs_runs h1)"
      and "hs_runs h' = filter P (hs_runs h1)"
      using 1(1)[OF _ refl e[symmetric] refl refl _ bt(2)] unfolding st by blast
    then show ?thesis using 3 e bt(1) unfolding st r filter_filter
      by (auto simp: expire_runs_from.simps[of _ _ _ _ _ _ h] Let_def)
  qed
qed

section \<open>The cut-off\<close>

text \<open>
  When a run may go, said without the query: it has ended longer ago than the retention of
  its kind, no run of its backfill is still to end, and its flow has enough finished runs that
  are newer.
\<close>

definition run_expired :: "Settings \<Rightarrow> micros \<Rightarrow> History \<Rightarrow> Row \<Rightarrow> bool" where
  "run_expired settings now h r \<longleftrightarrow>
     (let ended = (\<lambda>q. col_state_type q \<in> {Some ''Completed'', Some ''Failed'', Some ''Cancelled'', Some ''Crashed''});
          days = (if col_state_type r \<in> {Some ''Failed'', Some ''Crashed''} then se_retain_failed_runs_days settings
                  else se_retain_runs_days settings)
      in ended r \<and> run_age_mark r < now - days * MICROS_PER_DAY
         \<and> \<not> (\<exists>m \<in> set (hs_backfills h). row_backfill_id r = Some (bm_id m) \<and> \<not> bm_cancelled m
                \<and> (\<exists>q \<in> set (hs_runs h). row_backfill_id q = Some (bm_id m) \<and> col_state_type q \<noteq> None \<and> \<not> ended q))
         \<and> se_keep_last settings
             \<le> int (length (filter (\<lambda>q. row_flow_id q = row_flow_id r \<and> ended q \<and> row_id r < row_id q) (hs_runs h))))"

lemma newest_take:
  fixes x :: int
  assumes "distinct xs" "x \<in> set xs"
  shows "x \<notin> set (take n (rev (sort xs))) \<longleftrightarrow> n \<le> length (filter (\<lambda>y. x < y) xs)"
proof -
  let ?ys = "rev (sort xs)"
  have d: "distinct ?ys" using assms(1) by simp
  obtain i where i: "i < length ?ys" "?ys ! i = x" using assms(2) by (metis in_set_conv_nth set_rev set_sort)
  have sorted: "sorted_wrt (\<lambda>a b. b < a) ?ys"
    using assms(1) strict_sorted_iff[of "sort xs"] by (simp add: sorted_wrt_rev)
  have split: "?ys = take i ?ys @ x # drop (Suc i) ?ys" using id_take_nth_drop[OF i(1)] i(2) by simp
  have parts: "\<forall>y \<in> set (take i ?ys). x < y" "\<forall>y \<in> set (drop (Suc i) ?ys). y < x"
    using sorted by (subst (asm) split, simp add: sorted_wrt_append)+
  have "length (filter (\<lambda>y. x < y) xs) = length (filter (\<lambda>y. x < y) ?ys)"
    by (metis mset_filter mset_rev mset_sort size_mset)
  also have "\<dots> = length (take i ?ys)"
  proof -
    have "filter (\<lambda>y. x < y) (take i ?ys) = take i ?ys" "filter (\<lambda>y. x < y) (drop (Suc i) ?ys) = []"
      using parts by (auto simp: filter_id_conv filter_empty_conv)
    then show ?thesis by (subst split) simp
  qed
  also have "\<dots> = i" using i(1) by simp
  finally have len: "length (filter (\<lambda>y. x < y) xs) = i" .
  have "x \<in> set (take n ?ys) \<longleftrightarrow> i < n"
  proof
    assume "x \<in> set (take n ?ys)"
    then obtain j where "j < n" "j < length ?ys" "?ys ! j = x" by (auto simp: in_set_conv_nth)
    then show "i < n" using nth_eq_iff_index_eq[OF d, of i j] i by simp
  next
    assume "i < n"
    then show "x \<in> set (take n ?ys)" using i by (auto simp: in_set_conv_nth intro!: exI[of _ i])
  qed
  then show ?thesis using len by auto
qed

lemma run_expired_query:
  assumes "distinct (map row_id (hs_runs h))" "r \<in> set (hs_runs h)"
  shows "run_expired settings now h r \<longleftrightarrow>
     expired_run (now - se_retain_runs_days settings * MICROS_PER_DAY)
       (now - se_retain_failed_runs_days settings * MICROS_PER_DAY) (max (se_keep_last settings) 0) h r"
proof -
  let ?same = "\<lambda>q. row_flow_id q = row_flow_id r \<and> terminal_row q"
  have ended: "col_state_type q \<in> {Some ''Completed'', Some ''Failed'', Some ''Cancelled'', Some ''Crashed''} \<longleftrightarrow> terminal_row q" for q
    by (cases "col_state_type q") (auto simp: terminal_row_def TERMINAL_def)
  have live: "(\<exists>m \<in> set (hs_backfills h). row_backfill_id r = Some (bm_id m) \<and> \<not> bm_cancelled m
        \<and> (\<exists>q \<in> set (hs_runs h). row_backfill_id q = Some (bm_id m) \<and> col_state_type q \<noteq> None \<and> \<not> terminal_row q))
      \<longleftrightarrow> (case row_backfill_id r of None \<Rightarrow> False | Some b \<Rightarrow> backfill_live h b)"
    by (fastforce simp: backfill_live_def terminal_row_def split: option.splits)
  have keep: "row_id r \<notin> set (newest_finished (nat (max k 0)) (row_flow_id r) (hs_runs h))
      \<longleftrightarrow> k \<le> int (length (filter (\<lambda>q. row_flow_id q = row_flow_id r \<and> terminal_row q \<and> row_id r < row_id q) (hs_runs h)))"
    if "terminal_row r" for k
  proof -
    have "distinct (map row_id (filter ?same (hs_runs h)))" using assms(1) by (rule distinct_map_filter)
    moreover have "row_id r \<in> set (map row_id (filter ?same (hs_runs h)))" using assms(2) that by auto
    moreover have "filter (\<lambda>y. row_id r < y) (map row_id (filter ?same (hs_runs h)))
        = map row_id (filter (\<lambda>q. row_flow_id q = row_flow_id r \<and> terminal_row q \<and> row_id r < row_id q) (hs_runs h))"
      by (simp add: filter_map comp_def conj_assoc)
    ultimately show ?thesis
      unfolding newest_finished_def using newest_take by (simp add: nat_le_iff)
  qed
  show ?thesis
    unfolding run_expired_def expired_run_def Let_def ended live using keep[of "se_keep_last settings"]
    by (auto split: option.splits)
qed

lemma cutoff_exact:
  assumes "0 \<le> days" "days \<le> 106751991" "0 \<le> now" "now \<le> i64_max"
  shows "cutoff now days = now - days * MICROS_PER_DAY"
proof -
  have "in_i64 (days * MICROS_PER_DAY)" "in_i64 (now - days * MICROS_PER_DAY)"
    using assms by (auto simp: in_i64_iff MICROS_PER_DAY_def i64_max_def)
  then show ?thesis by (simp add: cutoff_def i64_mul_def i64_sub_def i64_wrap_id)
qed


text \<open>
  C0: a long retention deletes everything. \<^verbatim>\<open>PATCH /api/settings\<close> accepts any number of days;
  the number of microseconds wraps, so the cut-off of 150 million days is far in the
  future and the next pass deletes every log and event up to the present.
\<close>

theorem long_retention_deletes_all:
  assumes "0 \<le> now" "now \<le> 3000000000000000000" "distinct (map lm_id (hs_logs h))" "distinct (map em_id (hs_events h))"
    and "\<forall>l \<in> set (hs_logs h). lm_timestamp l \<le> now" "\<forall>e \<in> set (hs_events h). em_timestamp e \<le> now"
    and "patch_slot 150000000 (\<lambda>v s. s\<lparr> se_retain_days := v \<rparr>) settings = Some settings'"
  shows "now < cutoff now 150000000
    \<and> (\<exists>n m h'. expire_logs_events (\<lambda>_. True) (\<lambda>_. True) now (se_retain_days settings') h = (n, m, h') \<and> hs_logs h' = [] \<and> hs_events h' = [])"
proof -
  have c: "now < cutoff now 150000000"
    using assms(1,2) by (simp add: cutoff_def i64_sub_def i64_mul_def i64_wrap_def MICROS_PER_DAY_def)
  have d: "se_retain_days settings' = 150000000" using assms(7) by (auto simp: patch_slot_def)
  have "filter (\<lambda>l. \<not> lm_timestamp l < cutoff now 150000000) (hs_logs h) = []"
    "filter (\<lambda>e. \<not> em_timestamp e < cutoff now 150000000) (hs_events h) = []"
    using assms(5,6) c by (auto simp: filter_empty_conv)
  then have "snd (expire_table (\<lambda>_. True) 0 lm_id lm_timestamp (cutoff now 150000000) (hs_logs h)) = []"
    "snd (expire_table (\<lambda>_. True) 0 em_id em_timestamp (cutoff now 150000000) (hs_events h)) = []"
    using expire_table_exact[of "\<lambda>_. True"] assms(3,4) by metis+
  then show ?thesis using c by (auto simp: expire_logs_events_def d Let_def split: prod.splits)
qed

section \<open>The working set\<close>

definition rows_known :: "world \<Rightarrow> Row list \<Rightarrow> bool" where
  "rows_known w rows \<longleftrightarrow>
     (\<forall>r \<in> set rows. terminal_row r \<longrightarrow> w (row_id r) = map_option (\<lambda>t. (row_flow_id r, t)) (StateType_parse (the (col_state_type r))))"

lemma terminal_parse: "t \<in> set TERMINAL \<Longrightarrow> StateType_parse t \<noteq> None"
  by (auto simp: TERMINAL_def StateType_parse_def StateType_ALL_def)

lemma unindex_ok:
  assumes "index_ok w ix" "\<forall>r \<in> set sel. terminal_row r" "rows_known w sel" "distinct (map row_id sel)"
  shows "index_ok (w |` (- row_id ` set sel)) (unindex now (map (\<lambda>r. (row_id r, row_flow_id r, the (col_state_type r))) sel) ix)"
  using assms
proof (induction sel arbitrary: w ix)
  case Nil
  then show ?case by (simp add: unindex_def)
next
  case (Cons r sel)
  let ?s = "map_option (State_new now) (StateType_parse (the (col_state_type r)))"
  obtain t where t: "StateType_parse (the (col_state_type r)) = Some t"
    using Cons.prems(2) terminal_parse by (fastforce simp: terminal_row_text)
  then have w: "w (row_id r) = Some (row_flow_id r, st_type (State_new now t))"
    using Cons.prems(2,3) by (simp add: rows_known_def State_new_def)
  have step: "index_ok (w(row_id r := None)) (remove_run (row_id r) ?s (row_flow_id r) ix)"
    using remove_run_ok[OF Cons.prems(1) w] t by simp
  have known: "rows_known (w(row_id r := None)) sel"
    unfolding rows_known_def
  proof (intro ballI impI)
    fix x assume "x \<in> set sel" "terminal_row x"
    moreover from this have "row_id x \<noteq> row_id r" using Cons.prems(4) by (metis distinct.simps(2) image_eqI list.set_map list.simps(9))
    ultimately show "(w(row_id r := None)) (row_id x) = map_option (\<lambda>t. (row_flow_id x, t)) (StateType_parse (the (col_state_type x)))"
      using Cons.prems(3) by (simp add: rows_known_def)
  qed
  have "index_ok ((w(row_id r := None)) |` (- row_id ` set sel))
      (unindex now (map (\<lambda>r. (row_id r, row_flow_id r, the (col_state_type r))) sel) (remove_run (row_id r) ?s (row_flow_id r) ix))"
    by (rule Cons.IH[OF step _ known]) (use Cons.prems in simp_all)
  moreover have "(w(row_id r := None)) |` (- row_id ` set sel) = w |` (- row_id ` set (r # sel))"
    by (auto simp: restrict_map_def fun_eq_iff)
  ultimately show ?case by (simp add: unindex_def)
qed

text \<open>The index follows the deletions: its counters and active runs are those of the runs left.\<close>

lemma expire_runs_index_ok:
  assumes "distinct (map row_id (hs_runs h))" "index_ok w ix" "rows_known w (hs_runs h)"
    and "expire_runs_from ok j now b f k (h, ix) = (n, h', ix')"
  shows "index_ok (w |` (- (row_id ` set (hs_runs h) - row_id ` set (hs_runs h')))) ix'"
  using assms
proof (induction ok j now b f k "(h, ix)" arbitrary: h ix w n rule: expire_runs_from.induct)
  case (1 ok j now b f k h ix w)
  obtain out h1 where e: "delete_expired_runs b f k RUN_BATCH h = (out, h1)" by fastforce
  let ?sel = "select_expired b f k RUN_BATCH h"
  note bt = expired_batch[OF 1(2) e]
  have sub: "set ?sel \<subseteq> set (hs_runs h)" and tr: "\<forall>r \<in> set ?sel. terminal_row r"
    using select_expired_sub by (auto simp: expired_run_def)
  have r: "hs_runs h1 = filter (\<lambda>r. row_id r \<notin> row_id ` set ?sel) (hs_runs h)"
    and o: "out = map (\<lambda>r. (row_id r, row_flow_id r, the (col_state_type r))) ?sel"
    using delete_expired_runs_result[OF e] by simp_all
  have ds: "distinct (map row_id ?sel)"
    using 1(2) by (simp add: select_expired_def take_map[symmetric] distinct_map_filter distinct_take flip: sort_map_key)
  have kn: "rows_known w ?sel" using 1(4) sub by (auto simp: rows_known_def)
  let ?w = "w |` (- row_id ` set ?sel)"
  have ix1: "index_ok ?w (unindex now out ix)" unfolding o by (rule unindex_ok[OF 1(3) tr kn ds])
  have removed: "row_id ` set (hs_runs h) - row_id ` set (hs_runs h1) = row_id ` set ?sel"
    using sub by (auto simp: r) (metis imageI)
  consider "\<not> ok j" | "ok j" "length out < RUN_BATCH" | "ok j" "\<not> length out < RUN_BATCH" by blast
  then show ?case
  proof cases
    case 1
    then have "h' = h" "ix' = ix" using \<open>expire_runs_from ok j now b f k (h, ix) = (n, h', ix')\<close> by (simp_all add: expire_runs_from.simps)
    then show ?thesis using \<open>index_ok w ix\<close> by (simp add: restrict_map_def)
  next
    case 2
    then have "h' = h1" "ix' = unindex now out ix"
      using 1(5) e by (simp_all add: expire_runs_from.simps[of _ _ _ _ _ _ h] Let_def)
    then show ?thesis using ix1 removed by simp
  next
    case 3
    then obtain m where m: "expire_runs_from ok (Suc j) now b f k (h1, unindex now out ix) = (m, h', ix')"
      using 1(5) e by (auto simp: expire_runs_from.simps[of _ _ _ _ _ _ h] Let_def split: prod.splits)
    obtain P where P: "hs_runs h' = filter P (hs_runs h1)"
      using expire_runs_from_sound[OF bt(2), of ok "Suc j" now b f k "unindex now out ix"] m by auto
    have "rows_known ?w (hs_runs h1)" using 1(4) by (auto simp: rows_known_def r)
    then have "index_ok (?w |` (- (row_id ` set (hs_runs h1) - row_id ` set (hs_runs h')))) ix'"
      using 1(1)[OF _ refl e[symmetric] refl refl _ bt(2) ix1 _ m] 3 by blast
    moreover have "row_id ` set ?sel \<union> (row_id ` set (hs_runs h1) - row_id ` set (hs_runs h'))
        = row_id ` set (hs_runs h) - row_id ` set (hs_runs h')"
      using removed P r by (simp add: set_eq_iff image_iff) blast
    ultimately show ?thesis by (simp only: restrict_restrict Compl_Un[symmetric])
  qed
qed

section \<open>No row points at a row that is gone\<close>

definition history_ok :: "History \<Rightarrow> bool" where
  "history_ok h \<longleftrightarrow>
     distinct (map row_id (hs_runs h)) \<and> distinct (map lm_id (hs_logs h)) \<and> distinct (map em_id (hs_events h))
     \<and> (\<forall>r \<in> set (hs_runs h). row_flow_id r \<in> fst ` set (hs_flows h))
     \<and> (\<forall>t \<in> set (hs_tasks h). tm_run_id t \<in> row_id ` set (hs_runs h))
     \<and> (\<forall>l \<in> set (hs_logs h). lm_run_id l \<in> row_id ` set (hs_runs h))
     \<and> (\<forall>a \<in> set (hs_artifacts h). snd a \<in> row_id ` set (hs_runs h))
     \<and> (\<forall>s \<in> set (hs_schedules h). hm_flow_id s \<in> fst ` set (hs_flows h))
     \<and> (\<forall>b \<in> set (hs_backfills h). bm_flow_id b \<in> fst ` set (hs_flows h))"

lemma image_filter_key: "f ` set (filter (\<lambda>r. f r \<notin> I) xs) = f ` set xs - I"
  by auto

lemma drop_runs_ok: "history_ok h \<Longrightarrow> history_ok (drop_runs ids h)"
  unfolding history_ok_def drop_runs_def
  by (simp add: image_filter_key distinct_map_filter del: set_filter) (simp add: set_filter)

lemma history_ok_kv [simp]: "history_ok (h\<lparr> hs_kv := kv \<rparr>) = history_ok h"
  by (simp add: history_ok_def)

lemma delete_expired_runs_ok: "history_ok h \<Longrightarrow> history_ok (snd (delete_expired_runs b f k n h))"
  by (simp add: delete_expired_runs_def Let_def drop_runs_ok)

lemma expire_runs_from_ok:
  "history_ok h \<Longrightarrow> history_ok (fst (snd (expire_runs_from ok j now b f k (h, ix))))"
proof (induction ok j now b f k "(h, ix)" arbitrary: h ix rule: expire_runs_from.induct)
  case (1 ok j now b f k h ix)
  obtain out h1 where e: "delete_expired_runs b f k RUN_BATCH h = (out, h1)" by fastforce
  have h1: "history_ok h1" using delete_expired_runs_ok[OF 1(2), of b f k RUN_BATCH] e by simp
  consider "\<not> ok j" | "ok j" "length out < RUN_BATCH" | "ok j" "\<not> length out < RUN_BATCH" by blast
  then show ?case
  proof cases
    case 3
    obtain m h2 ix2 where m: "expire_runs_from ok (Suc j) now b f k (h1, unindex now out ix) = (m, h2, ix2)"
      using prod_cases3 by blast
    then have "history_ok h2" using 1(1)[OF _ refl e[symmetric] refl refl _ h1] 3 by simp
    then show ?thesis using 3 e m by (simp add: expire_runs_from.simps[of _ _ _ _ _ _ h] Let_def)
  qed (use h1 e 1(2) in \<open>simp_all add: expire_runs_from.simps[of _ _ _ _ _ _ h] Let_def\<close>)
qed

lemma expire_table_filter: "\<exists>P. snd (expire_table ok k key stamp before rows) = filter P rows"
proof (induction ok k key stamp before rows rule: expire_table.induct)
  case (1 ok k key stamp before rows)
  obtain n rows' where d: "delete_expired key stamp before BATCH rows = (n, rows')" by fastforce
  obtain Q where Q: "rows' = filter Q rows" using d by (auto simp: delete_expired_def Let_def)
  consider "\<not> ok k" | "ok k" "n < BATCH" | "ok k" "\<not> n < BATCH" by blast
  then show ?case
  proof cases
    case 1
    then show ?thesis by (subst expire_table.simps) (auto intro: exI[of _ "\<lambda>_. True"])
  next
    case 2
    then show ?thesis using d Q by (subst expire_table.simps) auto
  next
    case 3
    then obtain P where "snd (expire_table ok (Suc k) key stamp before rows') = filter P rows'"
      using 1[OF _ refl d[symmetric]] by blast
    then show ?thesis using 3 d Q by (subst expire_table.simps) (auto split: prod.splits)
  qed
qed

lemma history_ok_filter:
  assumes "history_ok h"
  shows "history_ok (h\<lparr> hs_logs := filter P (hs_logs h), hs_events := filter Q (hs_events h) \<rparr>)"
  using assms by (auto simp: history_ok_def distinct_map_filter)

lemma expire_logs_events_ok:
  assumes "history_ok h"
  shows "history_ok (snd (snd (expire_logs_events a b now days h)))"
proof -
  obtain P where "snd (expire_table a 0 lm_id lm_timestamp (cutoff now (max days 0)) (hs_logs h)) = filter P (hs_logs h)"
    using expire_table_filter by blast
  moreover obtain Q where "snd (expire_table b 0 em_id em_timestamp (cutoff now (max days 0)) (hs_events h)) = filter Q (hs_events h)"
    using expire_table_filter by blast
  ultimately show ?thesis
    using history_ok_filter[OF assms, where P = P and Q = Q] assms by (auto simp: expire_logs_events_def Let_def split: prod.splits)
qed

lemma run_once_ok:
  assumes "history_ok h"
  shows "history_ok (fst (snd (snd (run_once a b c now settings disk (h, ix)))))"
proof -
  obtain n m h1 where e1: "expire_logs_events a b now (se_retain_days settings) h = (n, m, h1)" using prod_cases3 by blast
  then have 1: "history_ok h1" using expire_logs_events_ok[OF assms, of a b now "se_retain_days settings"] by simp
  obtain r h2 ix2 where e2: "expire_runs c now settings (h1, ix) = (r, h2, ix2)" using prod_cases3 by blast
  then have 2: "history_ok h2"
    using 1 expire_runs_from_ok[of h1] by (auto simp: expire_runs_def Let_def split: if_splits) (metis fst_conv snd_conv)+
  obtain k st h3 where e3: "expire_checkpoints now settings (dk_storage disk) h2 = (k, st, h3)" using prod_cases3 by blast
  have clear: "history_ok (clear_checkpoints_before x h2)" for x
    using 2 by (auto simp: history_ok_def clear_checkpoints_before_def Let_def)
  have 3: "history_ok h3"
    using e3 2 clear by (auto simp: expire_checkpoints_def Let_def split: if_splits option.splits)
  obtain p bs h4 where e4: "backup_if_due now (dk_written disk) settings (dk_backups disk) h3 = (p, bs, h4)" using prod_cases3 by blast
  have "history_ok h4"
    using e4 3 by (auto simp: backup_if_due_def run_backup_def Let_def split: if_splits sum.splits prod.splits)
  then show ?thesis by (simp add: run_once_def e1 e2 e3 e4)
qed

lemma drop_flows_ok: "history_ok h \<Longrightarrow> history_ok (drop_flows flows h)"
proof -
  assume h: "history_ok h"
  let ?h = "drop_runs (runs_of flows h) h"
  have d: "history_ok ?h" using h by (rule drop_runs_ok)
  have "row_flow_id r \<notin> set flows" if "r \<in> set (hs_runs ?h)" for r
    using that by (auto simp: drop_runs_def runs_of_def)
  then show ?thesis
    using d h unfolding history_ok_def drop_flows_def Let_def
    by (simp add: image_filter_key del: set_filter) (auto simp: drop_runs_def)
qed

lemma delete_flow_rows_filter:
  "\<exists>P Q. snd (delete_flow_rows rows flows n h) = h\<lparr> hs_logs := filter P (hs_logs h), hs_events := filter Q (hs_events h) \<rparr>"
proof (cases rows)
  case LogRows
  then show ?thesis by (intro exI[of _ "\<lambda>l. lm_id l \<notin> set (take n (map lm_id (filter (log_of_flows flows h) (hs_logs h))))"] exI[of _ "\<lambda>_. True"])
    (simp add: delete_flow_rows_def Let_def)
next
  case EventRows
  then show ?thesis by (intro exI[of _ "\<lambda>_. True"] exI[of _ "\<lambda>e. em_id e \<notin> set (take n (map em_id (filter (event_of_flows flows) (hs_events h))))"])
    (simp add: delete_flow_rows_def Let_def)
qed

lemma delete_rows_batched_ok: "history_ok h \<Longrightarrow> history_ok (snd (delete_rows_batched rows flows n h))"
proof (induction rows flows n h rule: delete_rows_batched.induct)
  case (1 rows flows n h)
  obtain k h1 where e: "delete_flow_rows rows flows n h = (k, h1)" by fastforce
  have "history_ok h1"
    using history_ok_filter[OF 1(2)] delete_flow_rows_filter[of rows flows n h] e by auto
  then show ?case using 1(1)[OF refl e[symmetric]] e
    by (subst delete_rows_batched.simps) (auto split: prod.splits)
qed

lemma delete_flows_ok: "history_ok h \<Longrightarrow> history_ok (snd (delete_flows flows h))"
  unfolding delete_flows_def Let_def snd_conv
  by (rule drop_flows_ok) (auto simp: history_ok_def distinct_map_filter)

lemma delete_flows_batched_ok: "history_ok h \<Longrightarrow> history_ok (snd (delete_flows_batched flows n h))"
proof -
  assume h: "history_ok h"
  obtain a h1 where 1: "delete_rows_batched LogRows flows n h = (a, h1)" by fastforce
  obtain b h2 where 2: "delete_rows_batched EventRows flows n h1 = (b, h2)" by fastforce
  have "history_ok h1" using delete_rows_batched_ok[OF h, of LogRows flows n] 1 by simp
  then have "history_ok h2" using delete_rows_batched_ok[of h1 EventRows flows n] 2 by simp
  then have "history_ok (snd (delete_flows flows h2))" by (rule delete_flows_ok)
  then show ?thesis by (simp add: delete_flows_batched_def 1 2 case_prod_beta)
qed

lemma reset_ok: "history_ok h \<Longrightarrow> history_ok (snd (store_reset scope live h))"
proof -
  assume h: "history_ok h"
  have r: "history_ok (reset_history h)" using h by (auto simp: history_ok_def reset_history_def)
  have "history_ok (drop_flows fs (reset_history h))" for fs using r by (rule drop_flows_ok)
  then have "history_ok (reset_everything live (reset_history h))"
    by (auto simp: reset_everything_def Let_def history_ok_def)
  then show ?thesis using r by (simp add: store_reset_def Let_def)
qed

text \<open>What may delete rows, as operations on the tables.\<close>

datatype maintenance =
    Pass "nat \<Rightarrow> bool" "nat \<Rightarrow> bool" "nat \<Rightarrow> bool" micros Settings Disk Index
  | DeleteRunRow int
  | RemoveFlows "int list" nat
  | Reset ResetScope "int list"

fun maintain :: "maintenance \<Rightarrow> History \<Rightarrow> History" where
  "maintain (Pass a b c now settings disk ix) h = fst (snd (snd (run_once a b c now settings disk (h, ix))))"
| "maintain (DeleteRunRow i) h = snd (delete_run_row i h)"
| "maintain (RemoveFlows flows n) h = snd (delete_flows_batched flows n h)"
| "maintain (Reset scope live) h = snd (store_reset scope live h)"

interpretation maintained: preserved maintain history_ok
proof
  fix op h assume "history_ok h"
  then show "history_ok (maintain op h)"
    by (cases op) (simp_all add: run_once_ok drop_runs_ok delete_run_row_def delete_flows_batched_ok reset_ok)
qed

text \<open>
  C18: Whatever sequence of retention passes, deletions of runs, removals of projects and
  resets runs, with any of their batches failing, every task run, log line and artifact
  still names a run that exists, and every run, schedule and backfill a flow that exists.
\<close>

theorem maintenance_leaves_no_orphans: "history_ok h \<Longrightarrow> history_ok (fold maintain ops h)"
  by (rule maintained.runs)

section \<open>A project in batches\<close>

lemma runs_of_update [simp]:
  "runs_of flows (h\<lparr> hs_logs := logs \<rparr>) = runs_of flows h" "runs_of flows (h\<lparr> hs_events := events \<rparr>) = runs_of flows h"
  "runs_of flows (h\<lparr> hs_kv := kv \<rparr>) = runs_of flows h" "runs_of flows (h\<lparr> hs_expectations := xs \<rparr>) = runs_of flows h"
  by (simp_all add: runs_of_def)

lemma log_of_flows_runs: "hs_runs h' = hs_runs h \<Longrightarrow> log_of_flows flows h' = log_of_flows flows h"
  by (simp add: log_of_flows_def runs_of_def fun_eq_iff)

lemma take_filter_out:
  assumes "distinct (map key rows)"
  shows "filter (\<lambda>r. \<not> P r) (filter (\<lambda>r. key r \<notin> set (take n (map key (filter P rows)))) rows) = filter (\<lambda>r. \<not> P r) rows"
    and "length rows = length (take n (filter P rows)) + length (filter (\<lambda>r. key r \<notin> set (take n (map key (filter P rows)))) rows)"
    and "length (take n (filter P rows)) < n \<Longrightarrow>
      filter (\<lambda>r. key r \<notin> set (take n (map key (filter P rows)))) rows = filter (\<lambda>r. \<not> P r) rows"
proof -
  let ?sel = "take n (filter P rows)"
  have k: "set (take n (map key (filter P rows))) = key ` set ?sel" by (simp add: take_map)
  have sub: "set ?sel \<subseteq> set rows" and p: "\<forall>r \<in> set ?sel. P r" by (auto dest: in_set_takeD)
  have d: "distinct ?sel" using assms by (simp add: distinct_map)
  have f: "filter (\<lambda>r. key r \<notin> key ` set ?sel) rows = filter (\<lambda>r. r \<notin> set ?sel) rows"
    by (rule filter_by_key[OF assms sub])
  show "filter (\<lambda>r. \<not> P r) (filter (\<lambda>r. key r \<notin> set (take n (map key (filter P rows)))) rows) = filter (\<lambda>r. \<not> P r) rows"
    unfolding k f filter_filter using p by (intro filter_cong[OF refl]) blast
  have "length rows - length (filter (\<lambda>r. key r \<notin> key ` set ?sel) rows) = length ?sel"
    by (rule length_filter_out[OF assms d sub])
  moreover have "length (filter (\<lambda>r. key r \<notin> key ` set ?sel) rows) \<le> length rows" by (rule length_filter_le)
  ultimately show "length rows = length ?sel + length (filter (\<lambda>r. key r \<notin> set (take n (map key (filter P rows)))) rows)"
    unfolding k by linarith
  show "filter (\<lambda>r. key r \<notin> set (take n (map key (filter P rows)))) rows = filter (\<lambda>r. \<not> P r) rows" if "length ?sel < n"
  proof -
    have "?sel = filter P rows" using that by simp
    then show ?thesis unfolding k f by (intro filter_cong) auto
  qed
qed

lemma batched_logs:
  assumes "0 < n" "distinct (map lm_id (hs_logs h))"
  shows "delete_rows_batched LogRows flows n h =
    (length (filter (log_of_flows flows h) (hs_logs h)), h\<lparr> hs_logs := filter (\<lambda>l. \<not> log_of_flows flows h l) (hs_logs h) \<rparr>)"
  using assms
proof (induction LogRows flows n h rule: delete_rows_batched.induct)
  case (1 flows n h)
  let ?P = "log_of_flows flows h"
  let ?rest = "filter (\<lambda>l. lm_id l \<notin> set (take n (map lm_id (filter ?P (hs_logs h))))) (hs_logs h)"
  let ?h1 = "h\<lparr> hs_logs := ?rest \<rparr>"
  note t = take_filter_out[OF 1(3), where P = ?P and n = n]
  have len: "length rows = length (filter ?P rows) + length (filter (\<lambda>l. \<not> ?P l) rows)" for rows
    by (simp add: sum_length_filter_compl)
  have e: "delete_flow_rows LogRows flows n h = (length (take n (filter ?P (hs_logs h))), ?h1)"
    using t(2) by (simp add: delete_flow_rows_def Let_def)
  have P: "log_of_flows flows ?h1 = ?P" by (rule log_of_flows_runs) simp
  show ?case
  proof (cases "length (take n (filter ?P (hs_logs h))) < n")
    case True
    then have l: "length (filter ?P (hs_logs h)) < n" by (simp add: min_less_iff_disj)
    have "delete_rows_batched LogRows flows n h = (length (take n (filter ?P (hs_logs h))), ?h1)"
      by (subst delete_rows_batched.simps) (simp only: e Let_def prod.case True simp_thms if_True)
    then show ?thesis using t(3)[OF True] l by simp
  next
    case False
    have d: "distinct (map lm_id (hs_logs ?h1))" using 1(3) by (simp add: distinct_map_filter)
    have ih: "delete_rows_batched LogRows flows n ?h1 =
        (length (filter ?P ?rest), h\<lparr> hs_logs := filter (\<lambda>l. \<not> ?P l) ?rest \<rparr>)"
      using 1(1)[OF e[symmetric] refl _ 1(2) d] False 1(2) unfolding P by simp
    have "length (take n (filter ?P (hs_logs h))) + length (filter ?P ?rest) = length (filter ?P (hs_logs h))"
      using arg_cong[OF t(1), of length] t(2) len[of "hs_logs h"] len[of ?rest] by linarith
    then show ?thesis
      by (subst delete_rows_batched.simps) (use 1(2) in \<open>simp only: e Let_def prod.case False simp_thms if_False ih t(1) less_irrefl neq0_conv gr_implies_not0\<close>)
  qed
qed

lemma batched_events:
  assumes "0 < n" "distinct (map em_id (hs_events h))"
  shows "delete_rows_batched EventRows flows n h =
    (length (filter (event_of_flows flows) (hs_events h)), h\<lparr> hs_events := filter (\<lambda>l. \<not> event_of_flows flows l) (hs_events h) \<rparr>)"
  using assms
proof (induction EventRows flows n h rule: delete_rows_batched.induct)
  case (1 flows n h)
  let ?P = "event_of_flows flows"
  let ?rest = "filter (\<lambda>l. em_id l \<notin> set (take n (map em_id (filter ?P (hs_events h))))) (hs_events h)"
  let ?h1 = "h\<lparr> hs_events := ?rest \<rparr>"
  note t = take_filter_out[OF 1(3), where P = ?P and n = n]
  have len: "length rows = length (filter ?P rows) + length (filter (\<lambda>l. \<not> ?P l) rows)" for rows
    by (simp add: sum_length_filter_compl)
  have e: "delete_flow_rows EventRows flows n h = (length (take n (filter ?P (hs_events h))), ?h1)"
    using t(2) by (simp add: delete_flow_rows_def Let_def)
  show ?case
  proof (cases "length (take n (filter ?P (hs_events h))) < n")
    case True
    then have l: "length (filter ?P (hs_events h)) < n" by (simp add: min_less_iff_disj)
    have "delete_rows_batched EventRows flows n h = (length (take n (filter ?P (hs_events h))), ?h1)"
      by (subst delete_rows_batched.simps) (simp only: e Let_def prod.case True simp_thms if_True)
    then show ?thesis using t(3)[OF True] l by simp
  next
    case False
    have d: "distinct (map em_id (hs_events ?h1))" using 1(3) by (simp add: distinct_map_filter)
    have ih: "delete_rows_batched EventRows flows n ?h1 =
        (length (filter ?P ?rest), h\<lparr> hs_events := filter (\<lambda>l. \<not> ?P l) ?rest \<rparr>)"
      using 1(1)[OF e[symmetric] refl _ 1(2) d] False 1(2) by simp
    have "length (take n (filter ?P (hs_events h))) + length (filter ?P ?rest) = length (filter ?P (hs_events h))"
      using arg_cong[OF t(1), of length] t(2) len[of "hs_events h"] len[of ?rest] by linarith
    then show ?thesis
      by (subst delete_rows_batched.simps) (use 1(2) in \<open>simp only: e Let_def prod.case False simp_thms if_False ih t(1) less_irrefl neq0_conv gr_implies_not0\<close>)
  qed
qed

text \<open>
  C19: Removing a project in batches is removing it at once: for every batch size, the
  tables left and the counts reported are those of the single deletion of its flows, so
  nothing is counted twice or missed because logs and events went first.
\<close>

theorem batched_removal_is_removal:
  assumes "history_ok h" "0 < n"
  shows "delete_flows_batched flows n h = delete_flows flows h"
proof -
  let ?h1 = "h\<lparr> hs_logs := filter (\<lambda>l. \<not> log_of_flows flows h l) (hs_logs h) \<rparr>"
  let ?h2 = "?h1\<lparr> hs_events := filter (\<lambda>l. \<not> event_of_flows flows l) (hs_events h) \<rparr>"
  have d: "distinct (map lm_id (hs_logs h))" "distinct (map em_id (hs_events h))"
    using assms(1) by (auto simp: history_ok_def)
  have logs: "delete_rows_batched LogRows flows n h = (length (filter (log_of_flows flows h) (hs_logs h)), ?h1)"
    by (rule batched_logs[OF assms(2) d(1)])
  have events: "delete_rows_batched EventRows flows n ?h1 = (length (filter (event_of_flows flows) (hs_events h)), ?h2)"
    using batched_events[OF assms(2), of ?h1 flows] d(2) by simp
  have h2: "delete_flows flows ?h2 = ((counts_of_flows flows h)\<lparr> dc_logs := 0, dc_events := 0 \<rparr>, snd (delete_flows flows h))"
    by (simp add: delete_flows_def counts_of_flows_def drop_flows_def drop_runs_def Let_def no_counts_def
        log_of_flows_def[abs_def])
  show ?thesis
    unfolding delete_flows_batched_def logs
    by (simp only: Let_def prod.case events h2)
      (simp add: delete_flows_def counts_of_flows_def log_of_flows_def[abs_def] Let_def no_counts_def)
qed

section \<open>Backup copies\<close>

lemma copy_name_inj: "copy_name stamp n = copy_name stamp m \<Longrightarrow> n = m"
proof -
  have key: "copy_name stamp k = ''db-'' @ stamp @ (if k = 0 then ''.sqlite'' else ''-'' @ show_nat k @ ''.sqlite'')" for k
    by (simp add: copy_name_def)
  have dash: "CHR ''-'' \<notin> set ''.sqlite''" by simp
  assume "copy_name stamp n = copy_name stamp m"
  then have "(if n = 0 then ''.sqlite'' else ''-'' @ show_nat n @ ''.sqlite'') = (if m = 0 then ''.sqlite'' else ''-'' @ show_nat m @ ''.sqlite'')"
    unfolding key by simp
  then show ?thesis using show_nat_inj[of n m] by (auto split: if_splits)
qed

lemma free_name_fresh: "free_name fuel stamp n names = Some p \<Longrightarrow> p \<notin> set names"
  by (induction fuel arbitrary: n) (auto split: if_splits)

lemma free_name_none: "free_name fuel stamp n names = None \<Longrightarrow> copy_name stamp ` {n..<n + fuel} \<subseteq> set names"
proof (induction fuel arbitrary: n)
  case (Suc fuel)
  then have "copy_name stamp n \<in> set names" "free_name fuel stamp (Suc n) names = None"
    by (auto split: if_splits)
  moreover from this(2) have "copy_name stamp ` {Suc n..<Suc n + fuel} \<subseteq> set names" by (rule Suc.IH)
  moreover have "{n..<n + Suc fuel} = insert n {Suc n..<Suc n + fuel}" by auto
  ultimately show ?case by simp
qed simp

lemma free_name_found: "\<exists>p. free_name (Suc (length names)) stamp n names = Some p"
proof (rule ccontr)
  let ?N = "Suc (length names)"
  assume "\<nexists>p. free_name ?N stamp n names = Some p"
  then have "copy_name stamp ` {n..<n + ?N} \<subseteq> set names" using free_name_none by blast
  then have "card (copy_name stamp ` {n..<n + ?N}) \<le> length names"
    by (meson card_length card_mono finite_set le_trans)
  moreover have "card (copy_name stamp ` {n..<n + ?N}) = ?N"
    using card_image[of "copy_name stamp" "{n..<n + ?N}"] copy_name_inj by (auto simp: inj_on_def)
  ultimately show False by simp
qed

text \<open>
  A backup never overwrites a copy and never runs out of names: a copy that is written
  is a new file, under a name none of the files had, however many copies were made within
  the same second.
\<close>

theorem backup_writes_a_new_file:
  "\<exists>path. backup now True files = (Inr path, files @ [\<lparr> fi_name = path, fi_modified = Some now, fi_removable = True \<rparr>])
     \<and> path \<notin> fi_name ` set files"
proof -
  obtain p where "free_name (Suc (length files)) (utc_stamp now) 0 (map fi_name files) = Some p"
    using free_name_found[of "map fi_name files" "utc_stamp now" 0] by auto
  then show ?thesis using free_name_fresh by (fastforce simp: backup_def)
qed

text \<open>
  With \<^verbatim>\<open>backup_keep\<close> at zero, which the settings accept, the copy that was just written is
  pruned with the others: the path returned names no file.
\<close>

lemma sort_files_set: "set (list_backups files) = set (filter is_copy files)"
  by (simp add: list_backups_def)

lemma remove_files_all:
  "\<forall>f \<in> set gone. fi_removable f \<Longrightarrow> remove_files gone files = (True, filter (\<lambda>g. fi_name g \<notin> fi_name ` set gone) files)"
proof (induction gone arbitrary: files)
  case (Cons f gone)
  have "filter (\<lambda>g. fi_name g \<notin> fi_name ` set gone) (filter (\<lambda>g. fi_name g \<noteq> fi_name f) files)
      = filter (\<lambda>g. fi_name g \<notin> fi_name ` set (f # gone)) files"
    unfolding filter_filter by (rule filter_cong) auto
  then show ?case using Cons by simp
qed simp

lemma copy_is_copy: "fi_name f = copy_name stamp n \<Longrightarrow> is_copy f"
  by (auto simp: is_copy_def copy_name_def starts_with_iff ends_with_iff suffix_def)

lemma free_name_is_copy: "free_name fuel stamp n names = Some p \<Longrightarrow> \<exists>k. p = copy_name stamp k"
  by (induction fuel arbitrary: n) (auto split: if_splits)

lemma keeping_none_deletes_the_copy:
  assumes "\<forall>f \<in> set files. is_copy f \<longrightarrow> fi_removable f" "se_backup_keep settings = 0"
  shows "\<exists>path files' h'. run_backup now True settings files h = (Inr path, files', h') \<and> path \<notin> fi_name ` set files'"
proof -
  obtain p where p: "free_name (Suc (length files)) (utc_stamp now) 0 (map fi_name files) = Some p"
    using free_name_found[of "map fi_name files" "utc_stamp now" 0] by auto
  let ?f = "\<lparr> fi_name = p, fi_modified = Some now, fi_removable = True \<rparr>"
  let ?files = "files @ [?f]"
  have c: "is_copy ?f" using free_name_is_copy[OF p] copy_is_copy[of ?f] by auto
  have rem: "\<forall>f \<in> set (list_backups ?files). fi_removable f" using assms(1) by (auto simp: sort_files_set)
  have "?f \<in> set (list_backups ?files)" using c by (simp add: sort_files_set)
  then have inn: "p \<in> fi_name ` set (list_backups ?files)" by force
  have "snd (prune_backups 0 ?files) = filter (\<lambda>g. fi_name g \<notin> fi_name ` set (list_backups ?files)) ?files"
    unfolding prune_backups_def Let_def using remove_files_all[OF rem] by simp
  then have "p \<notin> fi_name ` set (snd (prune_backups 0 ?files))" using inn by (simp only: image_filter_key) blast
  then show ?thesis using p assms(2) by (simp add: run_backup_def backup_def Let_def case_prod_beta)
qed

section \<open>Samples\<close>

definition sample_row :: Row where
  "sample_row = write_state ((State_new 0 Completed)\<lparr> st_timestamp := 0 \<rparr>) RunCounters_default
     (new_row 1 ''r1'' 0 \<lparr> cr_flow_id = 7, cr_name = ''nightly'', cr_parameters = [], cr_tags = [], cr_created_by = ''cli'',
        cr_initial_state = None, cr_schedule_id = None, cr_scheduled_time = None, cr_priority = 0, cr_parent = None,
        cr_attempt = 0, cr_backfill_id = None, cr_unique = None \<rparr>)"

definition sample_history :: History where
  "sample_history = \<lparr> hs_flows = [(7, ''etl'')], hs_runs = [sample_row], hs_tasks = [], hs_logs = [\<lparr> lm_id = 1, lm_run_id = 1, lm_timestamp = 5 \<rparr>],
     hs_events = [], hs_artifacts = [], hs_schedules = [], hs_backfills = [], hs_rules = [], hs_firings = [],
     hs_expectations = [], hs_variables = [], hs_kv = [] \<rparr>"

definition sample_settings :: Settings where
  "sample_settings = \<lparr> se_retain_days = 30, se_retain_runs_days = 10, se_retain_failed_runs_days = 20, se_keep_last = 0,
     se_retain_checkpoints_days = 7, se_backup_every = 0, se_backup_keep = 7 \<rparr>"

definition day_100 :: micros where "day_100 = 8640000000000"

definition expired_sample :: "nat \<times> History \<times> Index" where
  "expired_sample = expire_runs (\<lambda>_. True) day_100 sample_settings (sample_history, Index_default)"


theorem long_retention_deletes_all_witness:
  "\<exists>n m h'. expire_logs_events (\<lambda>_. True) (\<lambda>_. True) day_100 150000000 sample_history = (n, m, h') \<and> hs_logs h' = []"
proof -
  have "patch_slot 150000000 (\<lambda>v s. s\<lparr> se_retain_days := v \<rparr>) sample_settings = Some (sample_settings\<lparr> se_retain_days := 150000000 \<rparr>)"
    by (simp add: patch_slot_def)
  from long_retention_deletes_all[OF _ _ _ _ _ _ this, of day_100 sample_history]
  show ?thesis by (auto simp: day_100_def sample_history_def)
qed

lemma sample_history_ok: "history_ok sample_history"
  by (simp add: history_ok_def sample_history_def sample_row_def write_state_def new_row_def)

theorem maintenance_leaves_no_orphans_witness:
  "history_ok (fold maintain [DeleteRunRow 1, Reset ResetEverything []] sample_history)"
  by (rule maintenance_leaves_no_orphans[OF sample_history_ok])

theorem batched_removal_is_removal_witness:
  "delete_flows_batched [7] 2 sample_history = delete_flows [7] sample_history"
  by (rule batched_removal_is_removal[OF sample_history_ok]) simp

end
