(* ===== verification/Group_Commit.thy ===== *)
theory Group_Commit
  imports Store_Runs
begin

text \<open>
  The writer thread (\<^verbatim>\<open>run\<close> of \<^verbatim>\<open>crates/store/src/writer.rs\<close>): commands that wait are taken
  in batches, executed one after the other inside one transaction, each under a savepoint,
  and acknowledged when the transaction has settled. \<open>exec\<close> executes a command on the
  database and gives its value, or nothing when it failed partway; what the database answers
  to \<^verbatim>\<open>BEGIN\<close>, \<^verbatim>\<open>SAVEPOINT\<close> and \<^verbatim>\<open>COMMIT\<close>, and whether it rolled the transaction back by
  itself, are arguments, one answer per position of the batch. A transaction whose commit
  failed is rolled back: what it wrote is gone.
\<close>

section \<open>A batch\<close>

datatype 'c item = Command 'c | Shutdown

record ('c, 'v) Ack =
  ak_position :: nat
  ak_command :: 'c
  ak_value :: "'v option"

definition ack_failed :: "('c, 'v) Ack \<Rightarrow> bool" where
  "ack_failed a \<longleftrightarrow> ak_value a = None"

record tx_env =
  te_begin :: "nat \<Rightarrow> bool"
  te_savepoint :: "nat \<Rightarrow> bool"
  te_autocommit :: "nat \<Rightarrow> bool"
  te_commit :: "nat \<Rightarrow> string option"

record ('c, 'v, 'd) Writer =
  wr_durable :: 'd
  wr_working :: 'd
  wr_in_tx :: bool
  wr_group :: "('c, 'v) Ack list"
  wr_settled :: "(('c, 'v) Ack \<times> string option) list"
  wr_shutdown :: bool

definition begin_tx :: "tx_env \<Rightarrow> nat \<Rightarrow> ('c, 'v, 'd) Writer \<Rightarrow> ('c, 'v, 'd) Writer" where
  "begin_tx env i w = w\<lparr> wr_in_tx := te_begin env i, wr_working := wr_durable w \<rparr>"

definition settle :: "string option \<Rightarrow> ('c, 'v, 'd) Writer \<Rightarrow> ('c, 'v, 'd) Writer" where
  "settle err w = w\<lparr> wr_settled := wr_settled w @ map (\<lambda>a. (a, err)) (wr_group w), wr_group := [] \<rparr>"

definition commit_tx :: "tx_env \<Rightarrow> nat \<Rightarrow> ('c, 'v, 'd) Writer \<Rightarrow> ('c, 'v, 'd) Writer" where
  "commit_tx env i w =
     (case te_commit env i of
        None \<Rightarrow> settle None (w\<lparr> wr_durable := wr_working w \<rparr>)
      | Some e \<Rightarrow> settle (Some e) (w\<lparr> wr_working := wr_durable w \<rparr>))"

definition rolled_back :: string where "rolled_back = ''transaction rolled back by the database''"

definition autocommit :: "('c \<Rightarrow> 'd \<Rightarrow> 'v option \<times> 'd) \<Rightarrow> nat \<Rightarrow> 'c \<Rightarrow> ('c, 'v, 'd) Writer \<Rightarrow> ('c, 'v, 'd) Writer" where
  "autocommit exec i c w =
     (let (v, d) = exec c (wr_durable w)
      in w\<lparr> wr_durable := d, wr_working := d,
           wr_settled := wr_settled w @ [(\<lparr> ak_position = i, ak_command = c, ak_value = v \<rparr>, None)] \<rparr>)"

definition in_group :: "('c \<Rightarrow> 'd \<Rightarrow> 'v option \<times> 'd) \<Rightarrow> tx_env \<Rightarrow> nat \<Rightarrow> 'c \<Rightarrow> ('c, 'v, 'd) Writer \<Rightarrow> ('c, 'v, 'd) Writer" where
  "in_group exec env i c w =
     (let (v, d) = exec c (wr_working w);
          a = \<lparr> ak_position = i, ak_command = c, ak_value = v \<rparr>
      in if te_autocommit env i
         then begin_tx env (Suc i)
           (let w = settle (Some rolled_back) w
            in w\<lparr> wr_settled := wr_settled w @ [(a, Some rolled_back)] \<rparr>)
         else w\<lparr> wr_working := (if te_savepoint env i \<and> ack_failed a then wr_working w else d),
                wr_group := wr_group w @ [a] \<rparr>)"

definition write_step ::
  "('c \<Rightarrow> 'd \<Rightarrow> 'v option \<times> 'd) \<Rightarrow> ('c \<Rightarrow> bool) \<Rightarrow> tx_env \<Rightarrow> nat \<Rightarrow> 'c item \<Rightarrow> ('c, 'v, 'd) Writer \<Rightarrow> ('c, 'v, 'd) Writer" where
  "write_step exec outside env i item w =
     (case item of
        Shutdown \<Rightarrow> w\<lparr> wr_shutdown := True \<rparr>
      | Command c \<Rightarrow>
          if outside c
          then begin_tx env (Suc i) (autocommit exec i c (if wr_in_tx w then commit_tx env i w else w))
          else if \<not> wr_in_tx w then autocommit exec i c w
          else in_group exec env i c w)"

fun write_items ::
  "('c \<Rightarrow> 'd \<Rightarrow> 'v option \<times> 'd) \<Rightarrow> ('c \<Rightarrow> bool) \<Rightarrow> tx_env \<Rightarrow> nat \<Rightarrow> 'c item list \<Rightarrow> ('c, 'v, 'd) Writer \<Rightarrow> ('c, 'v, 'd) Writer" where
  "write_items exec outside env i [] w = (if wr_in_tx w then commit_tx env i w else w)"
| "write_items exec outside env i (x # xs) w = write_items exec outside env (Suc i) xs (write_step exec outside env i x w)"

definition write_batch ::
  "('c \<Rightarrow> 'd \<Rightarrow> 'v option \<times> 'd) \<Rightarrow> ('c \<Rightarrow> bool) \<Rightarrow> tx_env \<Rightarrow> 'c item list \<Rightarrow> 'd \<Rightarrow> ('c, 'v, 'd) Writer" where
  "write_batch exec outside env items d =
     write_items exec outside env 0 items
       (begin_tx env 0 \<lparr> wr_durable = d, wr_working = d, wr_in_tx = False, wr_group = [], wr_settled = [], wr_shutdown = False \<rparr>)"

text \<open>What the caller of a command receives (\<^verbatim>\<open>ack\<close>): a value, its own error, or the commit's.\<close>

datatype 'v ack_answer = Delivered 'v | CommandFailed | CommitFailed string

definition ack_reply :: "('c, 'v) Ack \<times> string option \<Rightarrow> 'v ack_answer" where
  "ack_reply p =
     (case p of (a, err) \<Rightarrow>
        (case (ak_value a, err) of
           (None, _) \<Rightarrow> CommandFailed
         | (Some v, Some e) \<Rightarrow> CommitFailed e
         | (Some v, None) \<Rightarrow> Delivered v))"

section \<open>Delivered commands, one after the other\<close>

definition acked :: "(('c, 'v) Ack \<times> string option) list \<Rightarrow> ('c \<times> 'v) list" where
  "acked ps = List.map_filter (\<lambda>p. case ack_reply p of Delivered v \<Rightarrow> Some (ak_command (fst p), v) | _ \<Rightarrow> None) ps"

text \<open>The database after the commands ran alone, in order, each with the given value.\<close>

fun replay :: "('c \<Rightarrow> 'd \<Rightarrow> 'v option \<times> 'd) \<Rightarrow> ('c \<times> 'v) list \<Rightarrow> 'd \<Rightarrow> 'd option" where
  "replay exec [] d = Some d"
| "replay exec ((c, v) # cs) d = (case exec c d of (Some v', d') \<Rightarrow> if v' = v then replay exec cs d' else None | (None, _) \<Rightarrow> None)"

definition positions :: "nat \<Rightarrow> 'c item list \<Rightarrow> (nat \<times> 'c) list" where
  "positions i items =
     concat (map (\<lambda>(j, x). case x of Command c \<Rightarrow> [(j, c)] | Shutdown \<Rightarrow> []) (zip [i..<i + length items] items))"

lemma replay_append: "replay exec (xs @ ys) d = Option.bind (replay exec xs d) (replay exec ys)"
  by (induction exec xs d rule: replay.induct) (auto split: option.splits prod.splits)

lemma acked_Nil [simp]: "acked [] = []"
  by (simp add: acked_def map_filter_def)

lemma acked_append [simp]: "acked (xs @ ys) = acked xs @ acked ys"
  by (simp add: acked_def map_filter_def)

lemma delivered_failed_group [simp]: "acked (map (\<lambda>a. (a, Some e)) g) = []"
  by (induction g) (auto simp: acked_def map_filter_def ack_reply_def split: option.splits)

lemma delivered_one:
  "acked [(a, err)] = (case (ak_value a, err) of (Some v, None) \<Rightarrow> [(ak_command a, v)] | _ \<Rightarrow> [])"
  by (simp add: acked_def map_filter_def ack_reply_def split: option.splits)

text \<open>
  What holds between two commands, inside the transaction or not: the durable database is
  what the commands already acked make, the working one adds the group's, and every
  command has one acknowledgement, in order.
\<close>

definition answered :: "('c, 'v, 'd) Writer \<Rightarrow> (nat \<times> 'c) list" where
  "answered w = map (\<lambda>(a, _). (ak_position a, ak_command a)) (wr_settled w) @ map (\<lambda>a. (ak_position a, ak_command a)) (wr_group w)"

definition writer_inv :: "('c \<Rightarrow> 'd \<Rightarrow> 'v option \<times> 'd) \<Rightarrow> 'd \<Rightarrow> (nat \<times> 'c) list \<Rightarrow> ('c, 'v, 'd) Writer \<Rightarrow> bool" where
  "writer_inv exec d0 taken w \<longleftrightarrow>
     replay exec (acked (wr_settled w)) d0 = Some (wr_durable w)
     \<and> replay exec (acked (map (\<lambda>a. (a, None)) (wr_group w))) (wr_durable w) = Some (wr_working w)
     \<and> (\<not> wr_in_tx w \<longrightarrow> wr_group w = [])
     \<and> answered w = taken"

text \<open>\<^verbatim>\<open>BEGIN\<close> and \<^verbatim>\<open>SAVEPOINT\<close> succeed, and a command that fails outside a transaction writes nothing.\<close>

definition tx_sound :: "('c \<Rightarrow> 'd \<Rightarrow> 'v option \<times> 'd) \<Rightarrow> ('c \<Rightarrow> bool) \<Rightarrow> tx_env \<Rightarrow> bool" where
  "tx_sound exec outside env \<longleftrightarrow>
     (\<forall>i. te_begin env i \<and> te_savepoint env i) \<and> (\<forall>c d. outside c \<longrightarrow> fst (exec c d) = None \<longrightarrow> snd (exec c d) = d)"

lemma commit_inv:
  "writer_inv exec d0 taken w \<Longrightarrow> writer_inv exec d0 taken (commit_tx env i w) \<and> wr_group (commit_tx env i w) = []"
  by (auto simp: writer_inv_def commit_tx_def settle_def answered_def replay_append o_def split: option.splits)

lemma autocommit_inv:
  assumes "writer_inv exec d0 taken w" "wr_group w = []" "fst (exec c (wr_durable w)) = None \<longrightarrow> snd (exec c (wr_durable w)) = wr_durable w"
  shows "writer_inv exec d0 (taken @ [(i, c)]) (autocommit exec i c w) \<and> wr_group (autocommit exec i c w) = []"
proof (cases "exec c (wr_durable w)")
  case (Pair v d)
  then show ?thesis
    using assms by (cases v) (auto simp: writer_inv_def autocommit_def answered_def replay_append delivered_one)
qed

lemma begin_inv: "writer_inv exec d0 taken w \<Longrightarrow> wr_group w = [] \<Longrightarrow> writer_inv exec d0 taken (begin_tx env i w)"
  by (auto simp: writer_inv_def begin_tx_def answered_def)

lemma in_group_inv:
  assumes "writer_inv exec d0 taken w" "wr_in_tx w" "te_savepoint env i"
  shows "writer_inv exec d0 (taken @ [(i, c)]) (in_group exec env i c w)"
proof (cases "exec c (wr_working w)")
  case (Pair v d)
  show ?thesis
  proof (cases "te_autocommit env i")
    case True
    then show ?thesis
      using assms Pair by (auto simp: writer_inv_def in_group_def begin_tx_def settle_def answered_def Let_def o_def delivered_one
          split: option.splits)
  next
    case False
    then show ?thesis
      using assms Pair by (cases v) (auto simp: writer_inv_def in_group_def answered_def Let_def replay_append delivered_one ack_failed_def)
  qed
qed

lemma write_step_inv:
  assumes inv: "writer_inv exec d0 taken w" and ok: "tx_sound exec outside env" and tx: "wr_in_tx w"
  shows "writer_inv exec d0 (taken @ (case x of Command c \<Rightarrow> [(i, c)] | Shutdown \<Rightarrow> [])) (write_step exec outside env i x w)
    \<and> wr_in_tx (write_step exec outside env i x w)"
proof (cases x)
  case Shutdown
  then show ?thesis using inv tx by (simp add: write_step_def writer_inv_def answered_def)
next
  case (Command c)
  show ?thesis
  proof (cases "outside c")
    case True
    let ?w = "commit_tx env i w"
    have "writer_inv exec d0 taken ?w" "wr_group ?w = []" using commit_inv[OF inv] by blast+
    then have "writer_inv exec d0 (taken @ [(i, c)]) (autocommit exec i c ?w)" "wr_group (autocommit exec i c ?w) = []"
      using autocommit_inv[of exec d0 taken ?w c i] ok True by (auto simp: tx_sound_def)
    then have "writer_inv exec d0 (taken @ [(i, c)]) (begin_tx env (Suc i) (autocommit exec i c ?w))" by (rule begin_inv)
    then show ?thesis using Command True tx ok by (simp add: write_step_def begin_tx_def tx_sound_def)
  next
    case False
    then show ?thesis using in_group_inv[OF inv tx, of env i c] Command tx ok
      by (auto simp: write_step_def in_group_def tx_sound_def begin_tx_def Let_def split: prod.splits)
  qed
qed

lemma positions_Cons: "positions i (x # xs) = (case x of Command c \<Rightarrow> [(i, c)] | Shutdown \<Rightarrow> []) @ positions (Suc i) xs"
  by (simp add: positions_def upt_rec split: item.splits)

lemma write_items_inv:
  assumes "writer_inv exec d0 taken w" "tx_sound exec outside env" "wr_in_tx w"
  shows "writer_inv exec d0 (taken @ positions i items) (write_items exec outside env i items w)
    \<and> wr_group (write_items exec outside env i items w) = []"
  using assms
proof (induction items arbitrary: i taken w)
  case Nil
  then show ?case using commit_inv by (fastforce simp: positions_def)
next
  case (Cons x items)
  have "writer_inv exec d0 (taken @ (case x of Command c \<Rightarrow> [(i, c)] | Shutdown \<Rightarrow> [])) (write_step exec outside env i x w)"
    "wr_in_tx (write_step exec outside env i x w)"
    using write_step_inv[OF Cons.prems] by blast+
  from Cons.IH[OF this(1) Cons.prems(2) this(2), of "Suc i"] show ?case by (simp add: positions_Cons)
qed

text \<open>Every command of a batch is acknowledged once, in order, and what is acked is what the database keeps.\<close>

lemma batch_is_sequential:
  assumes "tx_sound exec outside env"
  shows "replay exec (acked (wr_settled (write_batch exec outside env items d))) d = Some (wr_durable (write_batch exec outside env items d))
    \<and> map (\<lambda>(a, _). (ak_position a, ak_command a)) (wr_settled (write_batch exec outside env items d)) = positions 0 items"
proof -
  let ?w0 = "begin_tx env 0 \<lparr> wr_durable = d, wr_working = d, wr_in_tx = False, wr_group = [], wr_settled = [], wr_shutdown = False \<rparr>"
  have "writer_inv exec d [] ?w0" "wr_in_tx ?w0"
    using assms by (auto simp: writer_inv_def begin_tx_def answered_def tx_sound_def)
  from write_items_inv[OF this(1) assms this(2), of 0 items] show ?thesis
    by (auto simp: write_batch_def writer_inv_def answered_def)
qed

section \<open>The store's commands\<close>

text \<open>The commands of the run tables, with the value their caller receives.\<close>

datatype store_value = CreatedRun int | AcceptedState State

fun exec_store :: "WriteCommand \<Rightarrow> Db \<Rightarrow> store_value option \<times> Db" where
  "exec_store (CreateRunCmd ext now r) db =
     (case create_run ext now r db of Inl _ \<Rightarrow> (None, db) | Inr (i, db') \<Rightarrow> (Some (CreatedRun i), db'))"
| "exec_store (TransitionCmd t i s force) db =
     (case transition t i s force db of Inl _ \<Rightarrow> (None, db) | Inr (accepted, db') \<Rightarrow> (Some (AcceptedState accepted), db'))"


definition good_env :: tx_env where
  "good_env = \<lparr> te_begin = (\<lambda>_. True), te_savepoint = (\<lambda>_. True), te_autocommit = (\<lambda>i. i = 1), te_commit = (\<lambda>_. None) \<rparr>"


end
