(* ===== verification/Reports.thy ===== *)
theory Reports
  imports Store_Runs Model
begin

text \<open>
  What an engine reports of a run (\<^verbatim>\<open>apply_report\<close>, \<^verbatim>\<open>create_task_run\<close>, \<^verbatim>\<open>append_logs\<close>, \<^verbatim>\<open>append_event\<close>,
  \<^verbatim>\<open>upsert_artifact\<close>, \<^verbatim>\<open>record_effect\<close> of \<^verbatim>\<open>crates/store/src/writer.rs\<close>). A task run's state columns are a
  row of the task table of \<open>Store_Runs\<close>; the columns only task runs have are in a list beside
  it. A constraint of the schema that an \<^verbatim>\<open>INSERT\<close> breaks is an error of that statement; what an
  event wrote before it stays. A database that cannot be written at the n-th event (\<open>down n\<close>)
  fails the report, and the writer's savepoint undoes it. External identifiers are texts; a
  generated one and the clock are arguments; the tags of a run are decoded by \<open>tags_of\<close>. The row
  ids \<^verbatim>\<open>apply_report\<close> caches by external identifier are the ones the query returns (an entry is
  written when the row is, and an identifier cached as absent has no row), so they are looked up.
\<close>

section \<open>Tables\<close>

record TaskMeta =
  tk_id :: int
  tk_run_id :: int
  tk_task_key :: string
  tk_dynamic_key :: string
  tk_pass :: int
  tk_parents :: "string list"

record LogRow =
  lg_id :: int
  lg_run_id :: int
  lg_task_run_id :: "int option"
  lg_level :: int
  lg_logger :: string
  lg_timestamp :: micros
  lg_message :: string

record NewLog =
  nl_run_id :: int
  nl_task_run_id :: "int option"
  nl_task_run_external_id :: "string option"
  nl_level :: int
  nl_logger :: string
  nl_timestamp :: micros
  nl_message :: string

record EffectMark =
  fm_slot :: string
  fm_hash :: string
  fm_pass :: int

record EffectRow =
  ef_slot :: string
  ef_hash :: string
  ef_ref :: "string option"
  ef_run_id :: int
  ef_pass :: int

record Artifact =
  af_id :: int
  af_external_id :: string
  af_run_id :: int
  af_task_run_id :: "int option"
  af_kind :: string
  af_key :: "string option"
  af_data :: json

record ReportDb =
  rp_db :: Db
  rp_flows :: "Flow list"
  rp_tasks :: "TaskMeta list"
  rp_once :: "int list"
  rp_logs :: "LogRow list"
  rp_events :: "Event list"
  rp_artifacts :: "Artifact list"
  rp_effects :: "EffectRow list"
  rp_last_rowid :: int

datatype ReportEvent =
    TaskRunCreated int string string string string "string list" int bool
  | TaskRunTransition int string State bool
  | Logs int "NewLog list"
  | Custom int string jmap "string option" "EffectMark option"
  | ArtifactEvent int string "string option" string "string option" json "EffectMark option"

fun event_seq :: "ReportEvent \<Rightarrow> int" where
  "event_seq (TaskRunCreated n _ _ _ _ _ _ _) = n"
| "event_seq (TaskRunTransition n _ _ _) = n"
| "event_seq (Logs n _) = n"
| "event_seq (Custom n _ _ _ _) = n"
| "event_seq (ArtifactEvent n _ _ _ _ _ _) = n"

fun event_kind :: "ReportEvent \<Rightarrow> string" where
  "event_kind (TaskRunCreated _ _ _ _ _ _ _ _) = ''task_run_created''"
| "event_kind (TaskRunTransition _ _ _ _) = ''task_run_transition''"
| "event_kind (Logs _ _) = ''logs''"
| "event_kind (Custom _ _ _ _ _) = ''custom''"
| "event_kind (ArtifactEvent _ _ _ _ _ _ _) = ''artifact''"

text \<open>An error of one event: a constraint or a missing row, which is dropped, or anything else.\<close>

datatype StepError = ConstraintViolation string | Missing string | Broken string

definition is_event_rejection :: "StepError \<Rightarrow> bool" where
  "is_event_rejection e = (case e of ConstraintViolation _ \<Rightarrow> True | Missing _ \<Rightarrow> True | Broken _ \<Rightarrow> False)"

fun step_error_text :: "StepError \<Rightarrow> string" where
  "step_error_text (ConstraintViolation t) = t"
| "step_error_text (Missing t) = t @ '' not found''"
| "step_error_text (Broken t) = t"

record RejectedEvent =
  re_seq :: int
  re_kind :: string
  re_reason :: string

record ReportOutcome =
  ro_applied :: nat
  ro_skipped :: nat
  ro_touched :: "string list"
  ro_before :: "(string \<times> string option) list"
  ro_task_runs :: "Row list"
  ro_task_run_transitions :: "(string option \<times> string) list"
  ro_log_count :: nat
  ro_last_log_id :: "int option"
  ro_last_seq :: int
  ro_task_run_states :: "(string \<times> State) list"
  ro_event_ids :: "int list"
  ro_artifact_ids :: "int list"
  ro_rejected :: "RejectedEvent list"

definition empty_outcome :: "int \<Rightarrow> ReportOutcome" where
  "empty_outcome n = \<lparr> ro_applied = 0, ro_skipped = 0, ro_touched = [], ro_before = [], ro_task_runs = [],
     ro_task_run_transitions = [], ro_log_count = 0, ro_last_log_id = None, ro_last_seq = n, ro_task_run_states = [],
     ro_event_ids = [], ro_artifact_ids = [], ro_rejected = [] \<rparr>"

section \<open>Single statements\<close>

definition next_id :: "('a \<Rightarrow> int) \<Rightarrow> 'a list \<Rightarrow> int" where
  "next_id key rows = (case map key rows of [] \<Rightarrow> 1 | i # is \<Rightarrow> fold max is i + 1)"

definition task_by_external :: "string \<Rightarrow> ReportDb \<Rightarrow> Row option" where
  "task_by_external ext d = List.find (\<lambda>r. row_external_id r = ext) (db_tasks (rp_db d))"

definition task_run_id_by_external :: "string \<Rightarrow> ReportDb \<Rightarrow> int option" where
  "task_run_id_by_external ext d = map_option row_id (task_by_external ext d)"

definition run_row_of :: "int \<Rightarrow> ReportDb \<Rightarrow> Row option" where
  "run_row_of i d = List.find (\<lambda>r. row_id r = i) (db_runs (rp_db d))"

record CreateTaskRun =
  ct_run_id :: int
  ct_name :: string
  ct_task_key :: string
  ct_dynamic_key :: string
  ct_external_id :: string
  ct_parents :: "string list"
  ct_pass :: int
  ct_once :: bool

definition task_row :: "int \<Rightarrow> micros \<Rightarrow> CreateTaskRun \<Rightarrow> Row" where
  "task_row i now t = new_row i (ct_external_id t) now
     \<lparr> cr_flow_id = 0, cr_name = ct_name t, cr_parameters = [], cr_tags = [], cr_created_by = [], cr_initial_state = None,
       cr_schedule_id = None, cr_scheduled_time = None, cr_priority = 0, cr_parent = None, cr_attempt = 0,
       cr_backfill_id = None, cr_unique = None \<rparr>"

definition mark_once :: "CreateTaskRun \<Rightarrow> int \<Rightarrow> ReportDb \<Rightarrow> ReportDb" where
  "mark_once t i d = (if ct_once t \<and> i \<noteq> 0 \<and> i \<notin> set (rp_once d) then d\<lparr> rp_once := rp_once d @ [i] \<rparr> else d)"

text \<open>An insert whose external identifier exists does nothing; one that repeats a dynamic key of the pass fails.\<close>

definition create_task_run :: "micros \<Rightarrow> CreateTaskRun \<Rightarrow> ReportDb \<Rightarrow> (StepError + int) \<times> ReportDb" where
  "create_task_run now t d =
     (case task_run_id_by_external (ct_external_id t) d of
        Some i \<Rightarrow> (Inr i, mark_once t i d)
      | None \<Rightarrow>
          if list_ex (\<lambda>m. tk_run_id m = ct_run_id t \<and> tk_pass m = ct_pass t \<and> tk_dynamic_key m = ct_dynamic_key t) (rp_tasks d)
          then (Inl (ConstraintViolation ''UNIQUE constraint failed: task_run.run_id, task_run.pass, task_run.dynamic_key''), d)
          else let i = next_id row_id (db_tasks (rp_db d));
                   meta = \<lparr> tk_id = i, tk_run_id = ct_run_id t, tk_task_key = ct_task_key t, tk_dynamic_key = ct_dynamic_key t,
                           tk_pass = ct_pass t, tk_parents = ct_parents t \<rparr>
            in (Inr i, mark_once t i (d\<lparr> rp_db := (rp_db d)\<lparr> db_tasks := db_tasks (rp_db d) @ [task_row i now t] \<rparr>,
                   rp_tasks := rp_tasks d @ [meta], rp_last_rowid := i \<rparr>)))"

definition insert_log :: "NewLog \<Rightarrow> ReportDb \<Rightarrow> ReportDb" where
  "insert_log l d =
     (let task = (case nl_task_run_id l of
                    Some i \<Rightarrow> Some i
                  | None \<Rightarrow> Option.bind (nl_task_run_external_id l) (\<lambda>ext. task_run_id_by_external ext d));
          i = next_id lg_id (rp_logs d)
      in d\<lparr> rp_logs := rp_logs d @ [\<lparr> lg_id = i, lg_run_id = nl_run_id l, lg_task_run_id = task,
             lg_level = nl_level l, lg_logger = nl_logger l, lg_timestamp = nl_timestamp l, lg_message = nl_message l \<rparr>],
           rp_last_rowid := i \<rparr>)"

fun append_logs :: "NewLog list \<Rightarrow> ReportDb \<Rightarrow> (StepError + nat) \<times> ReportDb" where
  "append_logs [] d = (Inr 0, d)"
| "append_logs (l # ls) d =
     (if run_row_of (nl_run_id l) d = None then (Inl (ConstraintViolation ''FOREIGN KEY constraint failed''), d)
      else (case append_logs ls (insert_log l d) of
              (Inr n, d') \<Rightarrow> (Inr (Suc n), d')
            | (Inl e, d') \<Rightarrow> (Inl e, d')))"

definition run_resource :: "int \<Rightarrow> ReportDb \<Rightarrow> Resource \<times> int option" where
  "run_resource i d =
     (case run_row_of i d of
        Some r \<Rightarrow> (\<lparr> res_kind = ''run'', res_id = row_external_id r, res_name = row_name r \<rparr>, Some (row_flow_id r))
      | None \<Rightarrow> (\<lparr> res_kind = [], res_id = [], res_name = [] \<rparr>, None))"

definition run_related :: "(string \<Rightarrow> string list) \<Rightarrow> int \<Rightarrow> ReportDb \<Rightarrow> Resource list" where
  "run_related tags_of i d =
     (case run_row_of i d of
        None \<Rightarrow> []
      | Some r \<Rightarrow>
          (case List.find (\<lambda>f. fl_id f = row_flow_id r) (rp_flows d) of
             None \<Rightarrow> []
           | Some f \<Rightarrow>
               \<lparr> res_kind = ''flow'', res_id = fl_project f @ ''/'' @ fl_name f, res_name = fl_name f \<rparr>
               # map (\<lambda>t. \<lparr> res_kind = ''tag'', res_id = t, res_name = t \<rparr>) (tags_of (row_tags r))))"

definition store_append_event :: "micros \<Rightarrow> string \<Rightarrow> string \<Rightarrow> int option \<Rightarrow> int option \<Rightarrow> jmap \<Rightarrow> Resource \<Rightarrow> Resource list \<Rightarrow> ReportDb \<Rightarrow> Event \<times> ReportDb" where
  "store_append_event now ext name run flow payload resource related d =
     (let flow' = (case (flow, run) of (None, Some i) \<Rightarrow> map_option row_flow_id (run_row_of i d) | (f, _) \<Rightarrow> f);
          i = next_id ev_id (rp_events d);
          e = \<lparr> ev_id = i, ev_seq = i, ev_external_id = ext, ev_name = name, ev_occurred = now, ev_resource = resource,
               ev_related = related, ev_run_id = run, ev_flow_id = flow', ev_payload = payload \<rparr>
      in (e, d\<lparr> rp_events := rp_events d @ [e], rp_last_rowid := i \<rparr>))"

text \<open>The upsert on the journal's primary key \<^verbatim>\<open>(run_id, slot)\<close>.\<close>

definition record_effect :: "int \<Rightarrow> EffectMark \<Rightarrow> string option \<Rightarrow> ReportDb \<Rightarrow> ReportDb" where
  "record_effect run m reference d =
     (let e = \<lparr> ef_slot = fm_slot m, ef_hash = fm_hash m, ef_ref = reference, ef_run_id = run, ef_pass = fm_pass m \<rparr>;
          same = (\<lambda>x. ef_run_id x = run \<and> ef_slot x = fm_slot m)
      in d\<lparr> rp_effects := (if list_ex same (rp_effects d) then map (\<lambda>x. if same x then e else x) (rp_effects d)
                           else rp_effects d @ [e]) \<rparr>)"

record UpsertArtifact =
  ua_run_id :: int
  ua_task_run_id :: "int option"
  ua_kind :: string
  ua_key :: "string option"
  ua_data :: json
  ua_external_id :: string
  ua_effect :: "EffectMark option"

definition or_zero :: "int option \<Rightarrow> int" where
  "or_zero x = (case x of Some i \<Rightarrow> i | None \<Rightarrow> 0)"

definition artifact_keyed :: "UpsertArtifact \<Rightarrow> Artifact \<Rightarrow> bool" where
  "artifact_keyed a x \<longleftrightarrow> ua_key a \<noteq> None \<and> af_run_id x = ua_run_id a
     \<and> or_zero (af_task_run_id x) = or_zero (ua_task_run_id a) \<and> af_key x = ua_key a"

text \<open>An insert on an existing external identifier updates its data; the last inserted id stays what it was.\<close>

definition upsert_artifact_row :: "UpsertArtifact \<Rightarrow> ReportDb \<Rightarrow> int \<times> ReportDb" where
  "upsert_artifact_row a d =
     (case List.find (artifact_keyed a) (rp_artifacts d) of
        Some x \<Rightarrow>
          (af_id x, d\<lparr> rp_artifacts := map (\<lambda>y. if af_id y = af_id x then y\<lparr> af_kind := ua_kind a, af_data := ua_data a \<rparr> else y) (rp_artifacts d) \<rparr>)
      | None \<Rightarrow>
          if list_ex (\<lambda>x. af_external_id x = ua_external_id a) (rp_artifacts d)
          then (rp_last_rowid d, d\<lparr> rp_artifacts := map (\<lambda>y. if af_external_id y = ua_external_id a then y\<lparr> af_data := ua_data a \<rparr> else y) (rp_artifacts d) \<rparr>)
          else let i = next_id af_id (rp_artifacts d)
            in (i, d\<lparr> rp_artifacts := rp_artifacts d @ [\<lparr> af_id = i, af_external_id = ua_external_id a, af_run_id = ua_run_id a,
                    af_task_run_id = ua_task_run_id a, af_kind = ua_kind a, af_key = ua_key a, af_data = ua_data a \<rparr>],
                    rp_last_rowid := i \<rparr>))"

definition upsert_artifact :: "UpsertArtifact \<Rightarrow> ReportDb \<Rightarrow> int \<times> ReportDb" where
  "upsert_artifact a d =
     (let (i, d') = upsert_artifact_row a d
      in (i, case ua_effect a of Some m \<Rightarrow> record_effect (ua_run_id a) m (Some (ua_external_id a)) d' | None \<Rightarrow> d'))"

section \<open>A report\<close>

definition touch :: "string \<Rightarrow> ReportOutcome \<Rightarrow> ReportOutcome" where
  "touch ext o' = (if ext \<in> set (ro_touched o') then o' else o'\<lparr> ro_touched := ro_touched o' @ [ext] \<rparr>)"

definition remember_before :: "string \<Rightarrow> ReportDb \<Rightarrow> ReportOutcome \<Rightarrow> ReportOutcome" where
  "remember_before ext d o' =
     (if map_of (ro_before o') ext \<noteq> None then o'
      else o'\<lparr> ro_before := ro_before o' @ [(ext, Option.bind (task_by_external ext d) col_state_type)] \<rparr>)"

definition report_transition :: "string \<Rightarrow> State \<Rightarrow> bool \<Rightarrow> ReportDb \<times> ReportOutcome \<Rightarrow> (StepError + bool) \<times> ReportDb \<times> ReportOutcome" where
  "report_transition ext state force s =
     (let (d, o') = s; o' = remember_before ext d o' in
      case task_run_id_by_external ext d of
        None \<Rightarrow> (Inr False, d, o'\<lparr> ro_skipped := Suc (ro_skipped o') \<rparr>)
      | Some i \<Rightarrow>
          (case transition TaskRunTable i state force (rp_db d) of
             Inr (accepted, db) \<Rightarrow>
               (Inr True, d\<lparr> rp_db := db \<rparr>, touch ext (o'\<lparr> ro_task_run_states := ro_task_run_states o' @ [(ext, accepted)] \<rparr>))
           | Inl (RejectedWith _ _) \<Rightarrow> (Inr True, d, touch ext o')
           | Inl (NotFound t) \<Rightarrow> (Inl (Missing t), d, o')
           | Inl e \<Rightarrow> (Inl (Broken ''store''), d, o')))"

fun report_step ::
  "(string \<Rightarrow> string list) \<Rightarrow> micros \<Rightarrow> string \<Rightarrow> int \<Rightarrow> ReportEvent \<Rightarrow> ReportDb \<times> ReportOutcome \<Rightarrow> (StepError + bool) \<times> ReportDb \<times> ReportOutcome" where
  "report_step tags_of now fresh run (TaskRunCreated _ ext name task_key dynamic_key parents pass once) (d, o') =
     (let o' = remember_before ext d o' in
      case create_task_run now \<lparr> ct_run_id = run, ct_name = name, ct_task_key = task_key, ct_dynamic_key = dynamic_key,
             ct_external_id = ext, ct_parents = parents, ct_pass = pass, ct_once = once \<rparr> d of
        (Inl e, d') \<Rightarrow> (Inl e, d', o')
      | (Inr _, d') \<Rightarrow> (Inr True, d', touch ext o'))"
| "report_step tags_of now fresh run (TaskRunTransition _ ext state force) (d, o') = report_transition ext state force (d, o')"
| "report_step tags_of now fresh run (Logs _ logs) (d, o') =
     (case append_logs logs d of
        (Inl e, d') \<Rightarrow> (Inl e, d', o')
      | (Inr n, d') \<Rightarrow>
          (Inr True, d', o'\<lparr> ro_log_count := ro_log_count o' + n,
             ro_last_log_id := (if 0 < n then Some (rp_last_rowid d') else ro_last_log_id o') \<rparr>))"
| "report_step tags_of now fresh run (Custom _ name payload task effect) (d, o') =
     (let (resource, flow) = run_resource run d;
          related = run_related tags_of run d
            @ (case task of Some ext \<Rightarrow> [\<lparr> res_kind = ''task_run'', res_id = ext, res_name = [] \<rparr>] | None \<Rightarrow> []);
          (e, d') = store_append_event now fresh name (Some run) flow payload resource related d;
          d'' = (case effect of Some m \<Rightarrow> record_effect run m None d' | None \<Rightarrow> d')
      in (Inr True, d'', o'\<lparr> ro_event_ids := ro_event_ids o' @ [ev_id e] \<rparr>))"
| "report_step tags_of now fresh run (ArtifactEvent _ ext task kind key data effect) (d, o') =
     (let (i, d') = upsert_artifact \<lparr> ua_run_id = run, ua_task_run_id = Option.bind task (\<lambda>t. task_run_id_by_external t d),
            ua_kind = kind, ua_key = key, ua_data = data, ua_external_id = ext, ua_effect = effect \<rparr> d
      in (Inr True, d', o'\<lparr> ro_artifact_ids := ro_artifact_ids o' @ [i] \<rparr>))"

record rep_env =
  rv_tags_of :: "string \<Rightarrow> string list"
  rv_now :: micros
  rv_fresh :: "nat \<Rightarrow> string"
  rv_down :: "nat \<Rightarrow> bool"

fun report_events ::
  "rep_env \<Rightarrow> int \<Rightarrow> nat \<Rightarrow> int \<Rightarrow> ReportEvent list \<Rightarrow> ReportDb \<times> ReportOutcome \<Rightarrow> StepError + int \<times> ReportDb \<times> ReportOutcome" where
  "report_events env run k reached [] s = Inr (reached, s)"
| "report_events env run k reached (e # es) (d, o') =
     (if event_seq e \<le> reached
      then report_events env run (Suc k) reached es (d, o'\<lparr> ro_skipped := Suc (ro_skipped o') \<rparr>)
      else if rv_down env k then Inl (Broken ''database'')
      else (case report_step (rv_tags_of env) (rv_now env) (rv_fresh env k) run e (d, o') of
              (Inr True, d', o'') \<Rightarrow> report_events env run (Suc k) (event_seq e) es (d', o''\<lparr> ro_applied := Suc (ro_applied o'') \<rparr>)
            | (Inr False, d', o'') \<Rightarrow> report_events env run (Suc k) (event_seq e) es (d', o'')
            | (Inl err, d', o'') \<Rightarrow>
                if is_event_rejection err
                then report_events env run (Suc k) (event_seq e) es
                       (d', o''\<lparr> ro_rejected := ro_rejected o'' @ [\<lparr> re_seq = event_seq e, re_kind = event_kind e, re_reason = step_error_text err \<rparr>] \<rparr>)
                else Inl err))"

definition set_report_seq :: "int \<Rightarrow> int \<Rightarrow> ReportDb \<Rightarrow> ReportDb" where
  "set_report_seq run n d = d\<lparr> rp_db := (rp_db d)\<lparr> db_runs :=
     map (\<lambda>r. if row_id r = run then r\<lparr> row_report_seq := n \<rparr> else r) (db_runs (rp_db d)) \<rparr> \<rparr>"

definition report_task_runs :: "ReportDb \<Rightarrow> ReportOutcome \<Rightarrow> ReportOutcome" where
  "report_task_runs d o' =
     fold (\<lambda>ext o'.
       case task_by_external ext d of
         None \<Rightarrow> o'
       | Some r \<Rightarrow>
           (let prev = (case map_of (ro_before o') ext of Some p \<Rightarrow> p | None \<Rightarrow> None);
                new = (case row_state r of Some s \<Rightarrow> StateType_as_str (st_type s) | None \<Rightarrow> ''Pending'');
                o' = (if prev \<noteq> Some new then o'\<lparr> ro_task_run_transitions := ro_task_run_transitions o' @ [(prev, new)] \<rparr> else o')
            in o'\<lparr> ro_task_runs := ro_task_runs o' @ [r] \<rparr>)) (ro_touched o') o'"

definition apply_report :: "rep_env \<Rightarrow> int \<Rightarrow> ReportEvent list \<Rightarrow> ReportDb \<Rightarrow> StepError + ReportOutcome \<times> ReportDb" where
  "apply_report env run events d =
     (case run_row_of run d of
        None \<Rightarrow> Inl (Missing ''run'')
      | Some r \<Rightarrow>
          (case report_events env run 0 (row_report_seq r) events (d, empty_outcome (row_report_seq r)) of
             Inl e \<Rightarrow> Inl e
           | Inr (reached, d', o') \<Rightarrow>
               (let d'' = (if reached \<noteq> ro_last_seq o' then set_report_seq run reached d' else d')
                in Inr (report_task_runs d'' (o'\<lparr> ro_last_seq := reached \<rparr>), d''))))"

section \<open>Every event is accounted for\<close>

lemmas outcome_defs = remember_before_def touch_def

lemma report_transition_counts:
  assumes "report_transition ext state force (d, o') = (r, d', o'')"
  shows "ro_applied o'' = ro_applied o'" "ro_rejected o'' = ro_rejected o'"
    "ro_skipped o'' = ro_skipped o' + (if r = Inr False then 1 else 0)" "ro_last_seq o'' = ro_last_seq o'"
  using assms by (auto simp: report_transition_def outcome_defs Let_def split: option.splits sum.splits StoreError.splits if_splits)

lemma report_step_counts:
  assumes "report_step tags now fresh run e (d, o') = (r, d', o'')"
  shows "ro_applied o'' = ro_applied o'" "ro_rejected o'' = ro_rejected o'"
    "ro_skipped o'' = ro_skipped o' + (if r = Inr False then 1 else 0)" "ro_last_seq o'' = ro_last_seq o'"
  using assms report_transition_counts
  by (cases e; auto simp: outcome_defs Let_def split: prod.splits sum.splits if_splits)+

lemma report_events_counts:
  assumes "report_events env run k reached es (d, o') = Inr (reached', d', o'')"
  shows "ro_applied o'' + ro_skipped o'' + length (ro_rejected o'') = ro_applied o' + ro_skipped o' + length (ro_rejected o') + length es
    \<and> ro_last_seq o'' = ro_last_seq o'"
  using assms
proof (induction es arbitrary: k reached d o')
  case (Cons e es)
  show ?case
  proof (cases "event_seq e \<le> reached")
    case True
    then show ?thesis using Cons.prems Cons.IH by fastforce
  next
    case False
    obtain r d1 o1 where st: "report_step (rv_tags_of env) (rv_now env) (rv_fresh env k) run e (d, o') = (r, d1, o1)"
      using prod_cases3 by blast
    note c = report_step_counts[OF st]
    show ?thesis
      using Cons.prems False st c
      by (auto split: if_splits sum.splits bool.splits dest!: Cons.IH)
  qed
qed simp

section \<open>Redelivery\<close>

lemma report_events_reached:
  "report_events env run k reached es s = Inr (reached', s') \<Longrightarrow> reached \<le> reached' \<and> (\<forall>e \<in> set es. event_seq e \<le> reached')"
proof (induction es arbitrary: k reached s)
  case (Cons e es)
  obtain d o' where s: "s = (d, o')" by fastforce
  show ?case
    using Cons.prems unfolding s by (fastforce split: if_splits sum.splits bool.splits prod.splits dest!: Cons.IH)
qed simp

lemma report_events_known:
  "\<forall>e \<in> set es. event_seq e \<le> reached \<Longrightarrow>
   report_events env run k reached (es @ es') (d, o') = report_events env run (k + length es) reached es' (d, o'\<lparr> ro_skipped := ro_skipped o' + length es \<rparr>)"
  by (induction es arbitrary: k o') auto

lemma report_events_append:
  "report_events env run k reached (es @ es') s =
     (case report_events env run k reached es s of
        Inl e \<Rightarrow> Inl e
      | Inr (reached', s') \<Rightarrow> report_events env run (k + length es) reached' es' s')"
proof (induction es arbitrary: k reached s)
  case (Cons e es)
  obtain d o' where s: "s = (d, o')" by fastforce
  show ?case unfolding s by (auto simp: Cons.IH split: sum.splits bool.splits prod.splits)
qed simp

text \<open>What an event writes does not depend on the counters kept of the report, nor on the run's own sequence number.\<close>

definition same_db :: "(StepError + bool) \<times> ReportDb \<times> ReportOutcome \<Rightarrow> (StepError + bool) \<times> ReportDb" where
  "same_db r = (fst r, fst (snd r))"

lemma run_row_of_seq:
  "run_row_of i (set_report_seq run n d) =
     map_option (\<lambda>r. if row_id r = run then r\<lparr> row_report_seq := n \<rparr> else r) (run_row_of i d)"
proof -
  have "List.find (\<lambda>r. row_id r = i) (map (\<lambda>r. if row_id r = run then r\<lparr> row_report_seq := n \<rparr> else r) rows)
      = map_option (\<lambda>r. if row_id r = run then r\<lparr> row_report_seq := n \<rparr> else r) (List.find (\<lambda>r. row_id r = i) rows)" for rows
    by (induction rows) auto
  then show ?thesis by (simp add: run_row_of_def set_report_seq_def)
qed

lemma set_report_seq_fields [simp]:
  "db_tasks (rp_db (set_report_seq run n d)) = db_tasks (rp_db d)" "rp_flows (set_report_seq run n d) = rp_flows d"
  "rp_tasks (set_report_seq run n d) = rp_tasks d" "rp_once (set_report_seq run n d) = rp_once d"
  "rp_logs (set_report_seq run n d) = rp_logs d" "rp_events (set_report_seq run n d) = rp_events d"
  "rp_artifacts (set_report_seq run n d) = rp_artifacts d" "rp_effects (set_report_seq run n d) = rp_effects d"
  "rp_last_rowid (set_report_seq run n d) = rp_last_rowid d"
  by (simp_all add: set_report_seq_def)

lemma task_by_external_seq [simp]:
  "task_by_external ext (set_report_seq run n d) = task_by_external ext d"
  "task_run_id_by_external ext (set_report_seq run n d) = task_run_id_by_external ext d"
  by (simp_all add: task_by_external_def task_run_id_by_external_def)

lemma set_report_seq_update:
  "(set_report_seq run n d)\<lparr> rp_tasks := a \<rparr> = set_report_seq run n (d\<lparr> rp_tasks := a \<rparr>)"
  "(set_report_seq run n d)\<lparr> rp_once := b \<rparr> = set_report_seq run n (d\<lparr> rp_once := b \<rparr>)"
  "(set_report_seq run n d)\<lparr> rp_logs := c \<rparr> = set_report_seq run n (d\<lparr> rp_logs := c \<rparr>)"
  "(set_report_seq run n d)\<lparr> rp_events := e \<rparr> = set_report_seq run n (d\<lparr> rp_events := e \<rparr>)"
  "(set_report_seq run n d)\<lparr> rp_artifacts := f \<rparr> = set_report_seq run n (d\<lparr> rp_artifacts := f \<rparr>)"
  "(set_report_seq run n d)\<lparr> rp_effects := g \<rparr> = set_report_seq run n (d\<lparr> rp_effects := g \<rparr>)"
  "(set_report_seq run n d)\<lparr> rp_last_rowid := i \<rparr> = set_report_seq run n (d\<lparr> rp_last_rowid := i \<rparr>)"
  "(set_report_seq run n d)\<lparr> rp_db := (rp_db (set_report_seq run n d))\<lparr> db_tasks := t \<rparr> \<rparr> = set_report_seq run n (d\<lparr> rp_db := (rp_db d)\<lparr> db_tasks := t \<rparr> \<rparr>)"
  by (simp_all add: set_report_seq_def)

lemma mark_once_seq: "mark_once t i (set_report_seq run n d) = set_report_seq run n (mark_once t i d)"
  by (simp add: mark_once_def set_report_seq_update)

lemma create_task_run_seq:
  "create_task_run now t (set_report_seq run n d) = apsnd (set_report_seq run n) (create_task_run now t d)"
  by (simp add: create_task_run_def Let_def set_report_seq_update flip: mark_once_seq split: option.splits)

lemma run_row_of_seq_None [simp]: "run_row_of i (set_report_seq run n d) = None \<longleftrightarrow> run_row_of i d = None"
  by (simp add: run_row_of_seq)

lemma insert_log_seq: "insert_log l (set_report_seq run n d) = set_report_seq run n (insert_log l d)"
  by (cases "nl_task_run_id l"; cases "nl_task_run_external_id l") (simp_all add: insert_log_def Let_def set_report_seq_update)

lemma append_logs_seq: "append_logs ls (set_report_seq run n d) = apsnd (set_report_seq run n) (append_logs ls d)"
proof (induction ls arbitrary: d)
  case (Cons l ls)
  obtain r d' where "append_logs ls (insert_log l d) = (r, d')" by fastforce
  then show ?case using Cons.IH[of "insert_log l d"] by (simp add: insert_log_seq split: sum.splits)
qed simp

lemma run_resource_seq [simp]: "run_resource i (set_report_seq run n d) = run_resource i d"
  by (simp add: run_resource_def run_row_of_seq split: option.splits)

lemma run_related_seq [simp]: "run_related tags i (set_report_seq run n d) = run_related tags i d"
  by (simp add: run_related_def run_row_of_seq split: option.splits)

lemma store_append_event_seq:
  "store_append_event now ext name r flow p res rel (set_report_seq run n d) = apsnd (set_report_seq run n) (store_append_event now ext name r flow p res rel d)"
proof -
  have "map_option row_flow_id (run_row_of i (set_report_seq run n d)) = map_option row_flow_id (run_row_of i d)" for i
    by (cases "run_row_of i d") (simp_all add: run_row_of_seq)
  then show ?thesis
    by (cases flow; cases r) (simp_all add: store_append_event_def Let_def set_report_seq_update)
qed

lemma record_effect_seq: "record_effect r m x (set_report_seq run n d) = set_report_seq run n (record_effect r m x d)"
  by (simp add: record_effect_def Let_def set_report_seq_update)

lemma upsert_artifact_seq: "upsert_artifact a (set_report_seq run n d) = apsnd (set_report_seq run n) (upsert_artifact a d)"
  by (simp add: upsert_artifact_def upsert_artifact_row_def Let_def set_report_seq_update record_effect_seq split: option.splits prod.splits)

lemma transition_tasks:
  "transition TaskRunTable i st f (rp_db (set_report_seq run n d)) =
     map_sum id (apsnd (\<lambda>db. (rp_db (set_report_seq run n d))\<lparr> db_tasks := db_tasks db \<rparr>)) (transition TaskRunTable i st f (rp_db d))"
  by (auto simp: transition_def table_rows_def set_table_rows_def split: option.splits sum.splits)

lemma transition_runs:
  "transition TaskRunTable i st f db = Inr (a, db') \<Longrightarrow> db' = db\<lparr> db_tasks := db_tasks db' \<rparr>"
  by (auto simp: transition_def table_rows_def set_table_rows_def split: option.splits sum.splits)

lemma report_transition_seq:
  "same_db (report_transition ext st f (set_report_seq run n d, o1)) = apsnd (set_report_seq run n) (same_db (report_transition ext st f (d, o2)))"
proof (cases "task_run_id_by_external ext d")
  case None
  then show ?thesis by (simp add: report_transition_def same_db_def Let_def)
next
  case (Some i)
  show ?thesis
  proof (cases "transition TaskRunTable i st f (rp_db d)")
    case (Inl e)
    then show ?thesis using Some by (cases e) (simp_all add: report_transition_def same_db_def Let_def transition_tasks)
  next
    case (Inr p)
    obtain a db where p: "p = (a, db)" by fastforce
    have "db = (rp_db d)\<lparr> db_tasks := db_tasks db \<rparr>" using transition_runs Inr p by blast
    then obtain t where t: "db = (rp_db d)\<lparr> db_tasks := t \<rparr>" by blast
    show ?thesis using Some Inr p unfolding t
      by (simp add: report_transition_def same_db_def Let_def transition_tasks set_report_seq_update flip: set_report_seq_update(8))
  qed
qed

lemma report_step_seq:
  "same_db (report_step tags now fresh r e (set_report_seq run n d, o1)) = apsnd (set_report_seq run n) (same_db (report_step tags now fresh r e (d, o2)))"
proof (cases e)
  case (TaskRunCreated x1 ext name tk dk ps pass once)
  let ?t = "\<lparr> ct_run_id = r, ct_name = name, ct_task_key = tk, ct_dynamic_key = dk, ct_external_id = ext, ct_parents = ps, ct_pass = pass, ct_once = once \<rparr>"
  obtain v d' where "create_task_run now ?t d = (v, d')" by fastforce
  then show ?thesis using TaskRunCreated by (cases v) (simp_all add: same_db_def create_task_run_seq Let_def)
next
  case (TaskRunTransition x1 x2 x3 x4)
  then show ?thesis by (simp add: report_transition_seq)
next
  case (Logs x1 logs)
  obtain v d' where "append_logs logs d = (v, d')" by fastforce
  then show ?thesis using Logs by (cases v) (simp_all add: same_db_def append_logs_seq Let_def)
next
  case (Custom x1 name payload task effect)
  then show ?thesis
    by (cases effect) (simp_all add: same_db_def store_append_event_seq record_effect_seq Let_def case_prod_beta)
next
  case (ArtifactEvent x1 ext task kind key data effect)
  then show ?thesis
    by (cases task) (simp_all add: same_db_def upsert_artifact_seq Let_def case_prod_beta)
qed

lemma report_step_outcome:
  "same_db (report_step tags now fresh r e (d, o1)) = same_db (report_step tags now fresh r e (d, o2))"
proof (cases e)
  case (TaskRunTransition x1 x2 x3 x4)
  then show ?thesis
    by (auto simp: same_db_def report_transition_def Let_def split: option.splits sum.splits StoreError.splits)
qed (auto simp: same_db_def Let_def case_prod_beta split: prod.splits sum.splits option.splits)

lemma insert_log_runs [simp]: "rp_db (insert_log l d) = rp_db d"
  by (simp add: insert_log_def Let_def)

lemma append_logs_runs: "rp_db (snd (append_logs ls d)) = rp_db d"
proof (induction ls arbitrary: d)
  case (Cons l ls)
  obtain v d' where "append_logs ls (insert_log l d) = (v, d')" by fastforce
  then show ?case using Cons.IH[of "insert_log l d"] by (cases v) auto
qed simp

lemma upsert_artifact_runs: "rp_db (snd (upsert_artifact a d)) = rp_db d"
  by (simp add: upsert_artifact_def upsert_artifact_row_def record_effect_def Let_def case_prod_beta split: option.splits)

lemma report_step_runs:
  assumes "report_step tags now fresh r e (d, o') = (v, d', o'')"
  shows "db_runs (rp_db d') = db_runs (rp_db d)"
proof (cases e)
  case (TaskRunCreated x1 ext name tk dk ps pass once)
  then show ?thesis using assms
    by (auto simp: create_task_run_def mark_once_def Let_def split: prod.splits sum.splits option.splits if_splits)
next
  case (TaskRunTransition x1 x2 x3 x4)
  then show ?thesis using assms transition_runs
    by (auto simp: report_transition_def Let_def split: option.splits sum.splits StoreError.splits) (metis Db.select_convs(1) Db.surjective Db.update_convs(2))+
next
  case (Logs x1 logs)
  then show ?thesis using assms append_logs_runs[of logs d] by (auto split: prod.splits sum.splits)
next
  case (Custom x1 name payload task effect)
  then show ?thesis using assms by (auto simp: store_append_event_def record_effect_def Let_def split: option.splits prod.splits)
next
  case (ArtifactEvent x1 ext task kind key data effect)
  then show ?thesis using assms upsert_artifact_runs
    by (auto simp: Let_def case_prod_beta)
qed

lemma report_events_runs:
  "report_events env r k reached es (d, o') = Inr (reached', d', o'') \<Longrightarrow> db_runs (rp_db d') = db_runs (rp_db d)"
proof (induction es arbitrary: k reached d o')
  case (Cons e es)
  obtain v d1 o1 where st: "report_step (rv_tags_of env) (rv_now env) (rv_fresh env k) r e (d, o') = (v, d1, o1)"
    using prod_cases3 by blast
  show ?case using Cons.prems st report_step_runs[OF st]
    by (auto split: if_splits sum.splits bool.splits dest!: Cons.IH)
qed simp

lemma report_events_related:
  assumes g: "\<And>e d k oa ob. same_db (report_step (rv_tags_of env) (rv_now env) (rv_fresh env k) r e (g d, oa))
      = apsnd g (same_db (report_step (rv_tags_of env) (rv_now env) (rv_fresh env k) r e (d, ob)))"
  shows "map_sum id (apsnd fst) (report_events env r k reached es (g d, oa)) = map_sum id (apsnd (g \<circ> fst)) (report_events env r k reached es (d, ob))"
proof (induction es arbitrary: k reached d oa ob)
  case (Cons e es)
  obtain v d' o' where st: "report_step (rv_tags_of env) (rv_now env) (rv_fresh env k) r e (d, ob) = (v, d', o')"
    using prod_cases3 by blast
  obtain w h p where st': "report_step (rv_tags_of env) (rv_now env) (rv_fresh env k) r e (g d, oa) = (w, h, p)"
    using prod_cases3 by blast
  have "w = v" "h = g d'" using g[of k e d oa ob] st st' by (simp_all add: same_db_def)
  then show ?case using st st' Cons.IH by (auto split: sum.splits bool.splits)
qed simp

lemma set_report_seq_twice [simp]: "set_report_seq run n (set_report_seq run m d) = set_report_seq run n d"
proof -
  have "map (\<lambda>r. if row_id r = run then r\<lparr> row_report_seq := n \<rparr> else r) (map (\<lambda>r. if row_id r = run then r\<lparr> row_report_seq := m \<rparr> else r) rows)
      = map (\<lambda>r. if row_id r = run then r\<lparr> row_report_seq := n \<rparr> else r) rows" for rows
    by (induction rows) auto
  then show ?thesis by (simp add: set_report_seq_def)
qed

text \<open>
  C8: redelivery is harmless. When an engine that had \<open>es\<close> applied, but never learned it, sends
  them again with the events that followed, the tables end as though everything had been
  delivered once: the events already recorded are skipped, the others are applied, and
  nothing is recorded twice. It holds for any interleaving of rejected and skipped events.
\<close>

theorem redelivered_report_resumes:
  assumes "apply_report env run es d = Inr (o1, d1)"
  shows "map_sum id snd (apply_report env run (es @ es') d1) = map_sum id snd (apply_report env run (es @ es') d)"
proof -
  obtain r where r: "run_row_of run d = Some r" using assms by (auto simp: apply_report_def split: option.splits)
  let ?n0 = "row_report_seq r"
  obtain n1 d' o' where e1: "report_events env run 0 ?n0 es (d, empty_outcome ?n0) = Inr (n1, d', o')"
    using assms r by (auto simp: apply_report_def split: sum.splits)
  have ls: "ro_last_seq o' = ?n0" using report_events_counts[OF e1] by (simp add: empty_outcome_def)
  have mono: "?n0 \<le> n1" and known: "\<forall>e \<in> set es. event_seq e \<le> n1" using report_events_reached[OF e1] by auto
  have runs: "db_runs (rp_db d') = db_runs (rp_db d)" by (rule report_events_runs[OF e1])
  define g where "g = (if n1 \<noteq> ?n0 then set_report_seq run n1 else id)"
  have d1: "d1 = g d'" using assms r e1 ls by (auto simp: apply_report_def g_def Let_def)
  have gs: "same_db (report_step (rv_tags_of env) (rv_now env) (rv_fresh env k) run e (g d, o1))
      = apsnd g (same_db (report_step (rv_tags_of env) (rv_now env) (rv_fresh env k) run e (d, o2)))" for e d k o1 o2
    using report_step_seq report_step_outcome[of _ _ _ _ _ d o1 o2] by (auto simp: g_def apsnd_def map_prod_def split: prod.splits)
  have row1: "\<exists>r1. run_row_of run d1 = Some r1 \<and> row_report_seq r1 = n1"
  proof -
    have "row_id r = run" using r find_key_sound[of row_id run "db_runs (rp_db d)" r] by (simp add: run_row_of_def)
    moreover have "run_row_of run d' = Some r" using r runs by (simp add: run_row_of_def)
    ultimately show ?thesis by (simp add: d1 g_def run_row_of_seq)
  qed
  then obtain r1 where r1: "run_row_of run d1 = Some r1" "row_report_seq r1 = n1" by blast
  let ?o = "(empty_outcome n1)\<lparr> ro_skipped := ro_skipped (empty_outcome n1) + length es \<rparr>"
  have lhs: "report_events env run 0 n1 (es @ es') (d1, empty_outcome n1) = report_events env run (length es) n1 es' (g d', ?o)"
    using report_events_known[OF known, of env run 0 es' d1 "empty_outcome n1"] by (simp add: d1)
  have rhs: "report_events env run 0 ?n0 (es @ es') (d, empty_outcome ?n0) = report_events env run (length es) n1 es' (d', o')"
    by (simp add: report_events_append e1)
  show ?thesis
  proof (cases "report_events env run (length es) n1 es' (d', o')")
    case (Inl e)
    then have "report_events env run (length es) n1 es' (g d', ?o) = Inl e"
      using report_events_related[OF gs, where k = "length es" and reached = n1 and es = es' and d = d' and oa = ?o and ob = o']
      by (cases "report_events env run (length es) n1 es' (g d', ?o)") auto
    then show ?thesis using Inl r r1 lhs rhs by (simp add: apply_report_def)
  next
    case (Inr p)
    obtain n2 d2 o2 where p: "p = (n2, d2, o2)" using prod_cases3 by blast
    obtain o3 where o3: "report_events env run (length es) n1 es' (g d', ?o) = Inr (n2, g d2, o3)"
      using report_events_related[OF gs, where k = "length es" and reached = n1 and es = es' and d = d' and oa = ?o and ob = o'] Inr p
      by (cases "report_events env run (length es) n1 es' (g d', ?o)") auto
    have n2: "n1 \<le> n2" using report_events_reached Inr p by blast
    have l2: "ro_last_seq o2 = ?n0" using report_events_counts[of env run "length es" n1 es' d' o' n2 d2 o2] Inr p ls by simp
    have l3: "ro_last_seq o3 = n1" using report_events_counts[OF o3] by (simp add: empty_outcome_def)
    show ?thesis using Inr p o3 r r1 lhs rhs n2 mono l2 l3 by (auto simp: apply_report_def Let_def g_def)
  qed
qed

text \<open>
  No event of a report disappears without a trace. In a report that is applied, every event
  is counted as applied or as skipped, or recorded as rejected with its reason; one event
  the store refuses does not take the rest of the report with it.
\<close>

theorem report_accounts_for_every_event:
  assumes "apply_report env run es d = Inr (o', d')"
  shows "ro_applied o' + ro_skipped o' + length (ro_rejected o') = length es"
proof -
  have keep: "ro_applied (report_task_runs x o1) = ro_applied o1 \<and> ro_skipped (report_task_runs x o1) = ro_skipped o1
      \<and> ro_rejected (report_task_runs x o1) = ro_rejected o1" for x o1
  proof -
    have "ro_applied (fold f exts o1) = ro_applied o1 \<and> ro_skipped (fold f exts o1) = ro_skipped o1 \<and> ro_rejected (fold f exts o1) = ro_rejected o1"
      if "\<And>ext o1. ro_applied (f ext o1) = ro_applied o1 \<and> ro_skipped (f ext o1) = ro_skipped o1 \<and> ro_rejected (f ext o1) = ro_rejected o1"
      for f :: "string \<Rightarrow> ReportOutcome \<Rightarrow> ReportOutcome" and exts
      using that by (induction exts arbitrary: o1) auto
    then show ?thesis unfolding report_task_runs_def by (auto simp: Let_def split: option.splits)
  qed
  obtain r n1 d1 o1 where "run_row_of run d = Some r"
    and e: "report_events env run 0 (row_report_seq r) es (d, empty_outcome (row_report_seq r)) = Inr (n1, d1, o1)"
    and "ro_applied o' = ro_applied o1 \<and> ro_skipped o' = ro_skipped o1 \<and> ro_rejected o' = ro_rejected o1"
    using assms keep by (auto simp: apply_report_def Let_def split: option.splits sum.splits)
  then show ?thesis using report_events_counts[OF e] by (simp add: empty_outcome_def)
qed

section \<open>Keys stay unique\<close>

definition report_ok :: "ReportDb \<Rightarrow> bool" where
  "report_ok d \<longleftrightarrow>
     map row_id (db_tasks (rp_db d)) = map tk_id (rp_tasks d)
     \<and> distinct (map tk_id (rp_tasks d))
     \<and> distinct (map row_external_id (db_tasks (rp_db d)))
     \<and> distinct (map (\<lambda>m. (tk_run_id m, tk_pass m, tk_dynamic_key m)) (rp_tasks d))
     \<and> distinct (map lg_id (rp_logs d)) \<and> distinct (map ev_id (rp_events d))
     \<and> distinct (map (\<lambda>e. (ef_run_id e, ef_slot e)) (rp_effects d))
     \<and> (\<forall>l \<in> set (rp_logs d). lg_run_id l \<in> row_id ` set (db_runs (rp_db d)))"

lemma next_id_fresh: "next_id key rows \<notin> key ` set rows"
proof -
  have "x \<le> fold max is i" if "x \<in> set (i # is)" for x i and "is" :: "int list"
    using that by (simp add: Max.set_eq_fold[symmetric] Max_ge)
  then have "x < next_id key rows" if "x \<in> set (map key rows)" for x
    using that by (force simp: next_id_def split: list.splits)
  then show ?thesis by (metis less_irrefl list.set_map)
qed

lemma find_None_key: "List.find (\<lambda>r. f r = k) xs = None \<longleftrightarrow> k \<notin> f ` set xs"
  by (auto simp: find_None_iff)

lemma mark_once_ok [simp]: "report_ok (mark_once t i d) = report_ok d"
  by (simp add: mark_once_def report_ok_def)

lemma create_task_run_ok:
  assumes ok: "report_ok d"
  shows "report_ok (snd (create_task_run now t d))"
proof (cases "task_run_id_by_external (ct_external_id t) d")
  case (Some i)
  then show ?thesis using ok by (simp add: create_task_run_def)
next
  case None
  let ?i = "next_id row_id (db_tasks (rp_db d))"
  let ?key = "\<lambda>m. (tk_run_id m, tk_pass m, tk_dynamic_key m)"
  have ids: "set (map row_id (db_tasks (rp_db d))) = set (map tk_id (rp_tasks d))" using ok by (simp only: report_ok_def)
  then have fresh: "?i \<notin> tk_id ` set (rp_tasks d)" using next_id_fresh[of row_id "db_tasks (rp_db d)"] by simp
  have ext: "ct_external_id t \<notin> row_external_id ` set (db_tasks (rp_db d))"
    using None by (simp add: task_run_id_by_external_def task_by_external_def find_None_key)
  show ?thesis
  proof (cases "(ct_run_id t, ct_pass t, ct_dynamic_key t) \<in> ?key ` set (rp_tasks d)")
    case True
    then have "list_ex (\<lambda>m. tk_run_id m = ct_run_id t \<and> tk_pass m = ct_pass t \<and> tk_dynamic_key m = ct_dynamic_key t) (rp_tasks d)"
      by (auto simp: list_ex_iff)
    then show ?thesis using None ok by (simp add: create_task_run_def)
  next
    case False
    then have "\<not> list_ex (\<lambda>m. tk_run_id m = ct_run_id t \<and> tk_pass m = ct_pass t \<and> tk_dynamic_key m = ct_dynamic_key t) (rp_tasks d)"
      by (force simp: list_ex_iff)
    then show ?thesis using None ok fresh ext False
      by (simp add: create_task_run_def Let_def) (simp add: report_ok_def task_row_def new_row_def)
  qed
qed

lemma insert_log_ok: "report_ok d \<Longrightarrow> run_row_of (nl_run_id l) d \<noteq> None \<Longrightarrow> report_ok (insert_log l d)"
  using next_id_fresh[of lg_id "rp_logs d"]
  by (auto simp: report_ok_def insert_log_def Let_def run_row_of_def find_None_key)

lemma append_logs_ok: "report_ok d \<Longrightarrow> report_ok (snd (append_logs ls d))"
proof (induction ls arbitrary: d)
  case (Cons l ls)
  show ?case
  proof (cases "run_row_of (nl_run_id l) d = None")
    case False
    then have "report_ok (snd (append_logs ls (insert_log l d)))" using Cons insert_log_ok by blast
    then show ?thesis using False by (auto split: prod.splits sum.splits)
  qed (use Cons.prems in simp)
qed simp

lemma record_effect_ok:
  assumes ok: "report_ok d"
  shows "report_ok (record_effect run m x d)"
proof -
  let ?e = "\<lparr> ef_slot = fm_slot m, ef_hash = fm_hash m, ef_ref = x, ef_run_id = run, ef_pass = fm_pass m \<rparr>"
  let ?same = "\<lambda>y. ef_run_id y = run \<and> ef_slot y = fm_slot m"
  let ?key = "\<lambda>e. (ef_run_id e, ef_slot e)"
  have "distinct (map ?key (rp_effects (record_effect run m x d)))"
  proof (cases "list_ex ?same (rp_effects d)")
    case True
    then have "map ?key (rp_effects (record_effect run m x d)) = map ?key (rp_effects d)"
      by (auto simp: record_effect_def Let_def)
    then show ?thesis using ok by (simp only: report_ok_def)
  next
    case False
    then have "(run, fm_slot m) \<notin> ?key ` set (rp_effects d)" by (auto simp: list_ex_iff)
    then show ?thesis using ok False by (simp add: record_effect_def Let_def report_ok_def)
  qed
  then show ?thesis using ok by (simp add: report_ok_def record_effect_def Let_def del: distinct_map)
qed

lemma store_append_event_ok: "report_ok d \<Longrightarrow> report_ok (snd (store_append_event now ext name r f p res rel d))"
  using next_id_fresh[of ev_id "rp_events d"] by (auto simp: store_append_event_def Let_def report_ok_def)

lemma report_ok_artifacts: "report_ok (d\<lparr> rp_artifacts := a \<rparr>) = report_ok d" "report_ok (d\<lparr> rp_last_rowid := i \<rparr>) = report_ok d"
  by (simp_all add: report_ok_def)

lemma upsert_artifact_ok: "report_ok d \<Longrightarrow> report_ok (snd (upsert_artifact a d))"
  by (auto simp: upsert_artifact_def upsert_artifact_row_def Let_def report_ok_artifacts record_effect_ok split: option.splits)

lemma transition_row_identity:
  "transition_row t s f r = Inr (a, r') \<Longrightarrow> row_id r' = row_id r \<and> row_external_id r' = row_external_id r"
  by (auto simp: transition_row_def write_checkpoint_def write_state_def Let_def split: sum.splits option.splits if_splits prod.splits)

lemma transition_keeps_keys:
  assumes "transition TaskRunTable i s f db = Inr (a, db')" "distinct (map row_id (db_tasks db))"
  shows "db_runs db' = db_runs db \<and> map row_id (db_tasks db') = map row_id (db_tasks db)
    \<and> map row_external_id (db_tasks db') = map row_external_id (db_tasks db)"
proof -
  obtain r r' where r: "List.find (\<lambda>r. row_id r = i) (db_tasks db) = Some r" "transition_row TaskRunTable s f r = Inr (a, r')"
    and db': "db' = db\<lparr> db_tasks := map (\<lambda>x. if row_id x = i then r' else x) (db_tasks db) \<rparr>"
    using assms(1) by (auto simp: transition_def table_rows_def set_table_rows_def split: option.splits sum.splits)
  have ri: "row_id r = i" "r \<in> set (db_tasks db)" using find_mem[OF r(1)] by auto
  have "x = r" if "x \<in> set (db_tasks db)" "row_id x = i" for x
    using that ri assms(2) by (auto simp: distinct_map inj_on_def)
  then have old: "x = r" if "x \<in> set (db_tasks db)" "row_id x = i" for x using that by blast
  have keeps: "row_id r' = row_id r" "row_external_id r' = row_external_id r" using transition_row_identity[OF r(2)] by auto
  have "map row_id (db_tasks db') = map row_id (db_tasks db)"
    using keeps ri(1) by (simp add: db' list.map_comp comp_def cong: map_cong)
  moreover have "row_external_id (if row_id x = i then r' else x) = row_external_id x" if "x \<in> set (db_tasks db)" for x
    using keeps(2) old[OF that] by (cases "row_id x = i") auto
  then have "map row_external_id (db_tasks db') = map row_external_id (db_tasks db)"
    by (simp add: db' list.map_comp comp_def cong: map_cong)
  ultimately show ?thesis by (simp add: db')
qed

lemma report_step_ok:
  assumes "report_ok d" "report_step tags now fresh r e (d, o') = (v, d', o'')"
  shows "report_ok d'"
proof (cases e)
  case (TaskRunCreated x1 ext name tk dk ps pass once)
  let ?t = "\<lparr> ct_run_id = r, ct_name = name, ct_task_key = tk, ct_dynamic_key = dk, ct_external_id = ext, ct_parents = ps, ct_pass = pass, ct_once = once \<rparr>"
  obtain w h where c: "create_task_run now ?t d = (w, h)" by fastforce
  then have "report_ok h" using create_task_run_ok[OF assms(1), of now ?t] by simp
  then show ?thesis using assms(2) TaskRunCreated c by (cases w) (simp_all add: Let_def)
next
  case (TaskRunTransition x1 ext state force)
  have "distinct (map row_id (db_tasks (rp_db d)))" using assms(1) by (simp add: report_ok_def)
  then have "report_ok (d\<lparr> rp_db := db \<rparr>)" if "transition TaskRunTable i state force (rp_db d) = Inr (a, db)" for i a db
    using transition_keeps_keys[OF that] assms(1) by (auto simp: report_ok_def)
  then show ?thesis using assms TaskRunTransition
    by (auto simp: report_transition_def Let_def split: option.splits sum.splits StoreError.splits)
next
  case (Logs x1 logs)
  then show ?thesis using assms append_logs_ok[OF assms(1), of logs] by (auto split: prod.splits sum.splits)
next
  case (Custom x1 name payload task effect)
  then show ?thesis using assms store_append_event_ok record_effect_ok
    by (auto simp: Let_def case_prod_beta split: option.splits)
next
  case (ArtifactEvent x1 ext task kind key data effect)
  then show ?thesis using assms upsert_artifact_ok by (auto simp: Let_def case_prod_beta)
qed

lemma report_events_ok:
  "report_ok d \<Longrightarrow> report_events env r k reached es (d, o') = Inr (reached', d', o'') \<Longrightarrow> report_ok d'"
proof (induction es arbitrary: k reached d o')
  case (Cons e es)
  obtain v d1 o1 where st: "report_step (rv_tags_of env) (rv_now env) (rv_fresh env k) r e (d, o') = (v, d1, o1)"
    using prod_cases3 by blast
  show ?case using Cons.prems st report_step_ok[OF Cons.prems(1) st]
    by (auto split: if_splits sum.splits bool.splits intro: Cons.IH)
qed simp


text \<open>
  An artifact without a key that is reported again under its external identifier is updated in
  place, but the id returned is the last one inserted into any table.
\<close>

lemma updated_artifact_reports_another_id:
  assumes "ua_key a = None" "list_ex (\<lambda>x. af_external_id x = ua_external_id a) (rp_artifacts d)"
  shows "fst (upsert_artifact a d) = rp_last_rowid d"
proof -
  have "List.find (artifact_keyed a) (rp_artifacts d) = None"
    using assms(1) by (simp add: find_None_iff artifact_keyed_def)
  then show ?thesis using assms(2) by (simp add: upsert_artifact_def upsert_artifact_row_def)
qed

section \<open>Samples\<close>

definition report_db :: ReportDb where
  "report_db = \<lparr> rp_db = \<lparr> db_runs = [new_row 1 ''run-1'' 0 \<lparr> cr_flow_id = 7, cr_name = ''nightly'', cr_parameters = [], cr_tags = [],
        cr_created_by = ''cli'', cr_initial_state = None, cr_schedule_id = None, cr_scheduled_time = None, cr_priority = 0,
        cr_parent = None, cr_attempt = 0, cr_backfill_id = None, cr_unique = None \<rparr>], db_tasks = [] \<rparr>,
     rp_flows = [], rp_tasks = [], rp_once = [], rp_logs = [], rp_events = [], rp_artifacts = [], rp_effects = [], rp_last_rowid = 0 \<rparr>"

definition report_env :: rep_env where
  "report_env = \<lparr> rv_tags_of = (\<lambda>_. []), rv_now = 10, rv_fresh = (\<lambda>_. ''ev''), rv_down = (\<lambda>_. False) \<rparr>"

definition first_report :: "ReportEvent list" where
  "first_report = [TaskRunCreated 1 ''t1'' ''load'' ''load'' ''load-0'' [] 0 True,
     TaskRunTransition 2 ''t1'' (State_new 5 Running) False, TaskRunCreated 3 ''t2'' ''load'' ''load'' ''load-0'' [] 0 False]"

definition first_result :: "ReportOutcome \<times> ReportDb" where
  "first_result = (case apply_report report_env 1 first_report report_db of Inr x \<Rightarrow> x | Inl _ \<Rightarrow> undefined)"

lemma first_applied: "apply_report report_env 1 first_report report_db = Inr (fst first_result, snd first_result)"
proof -
  have "\<not> isl (apply_report report_env 1 first_report report_db)" by code_simp
  then show ?thesis by (auto simp: first_result_def split: sum.splits)
qed

theorem redelivered_report_resumes_witness:
  "map_sum id snd (apply_report report_env 1 (first_report @ [Logs 4 []]) (snd first_result))
   = map_sum id snd (apply_report report_env 1 (first_report @ [Logs 4 []]) report_db)"
  by (rule redelivered_report_resumes[OF first_applied])

theorem report_accounts_for_every_event_witness:
  "ro_applied (fst first_result) + ro_skipped (fst first_result) + length (ro_rejected (fst first_result)) = 3"
  using report_accounts_for_every_event[OF first_applied] by (simp add: first_report_def)


end
