(* ===== verification/Replay.thy ===== *)
theory Replay
  imports Reports App_State "HOL-Library.Product_Lexorder" "HOL-Library.List_Lexorder" "HOL-Library.Char_ord"
begin

text \<open>
  What a new attempt replays (\<^verbatim>\<open>crates/store/src/read.rs\<close>): the checkpoints and effects of a run and
  of the crashed runs it continues, the lineage of a retry, and the \<^verbatim>\<open>once\<close> calls left in doubt;
  and what a retry takes over (\<^verbatim>\<open>retry_inner\<close> of \<^verbatim>\<open>crates/server/src/api/runs.rs\<close>). The key-value table
  keeps the JSON value its text holds; a record is the object its derived serialisation writes.
\<close>

section \<open>Tables and records\<close>

record RunTables =
  ru_runs :: "Row list"
  ru_tasks :: "(Row \<times> TaskMeta) list"
  ru_once :: "int list"
  ru_effects :: "EffectRow list"
  ru_kv :: "(string \<times> json) list"

record Checkpoint =
  cp_dynamic_key :: string
  cp_task_key :: string
  cp_input_hash :: string
  cp_result_ref :: string
  cp_run_id :: int
  cp_pass :: int

definition checkpoint_seed_key :: "int \<Rightarrow> string" where
  "checkpoint_seed_key i = ''run.checkpoints:'' @ show_int i"

definition effect_seed_key :: "int \<Rightarrow> string" where
  "effect_seed_key i = ''run.effects:'' @ show_int i"

definition lineage_key :: "int \<Rightarrow> string" where
  "lineage_key i = ''run.lineage:'' @ show_int i"

definition str_field :: "string \<Rightarrow> json \<Rightarrow> string option" where
  "str_field k j = Option.bind (value_get j k) as_str"

definition int_field :: "string \<Rightarrow> json \<Rightarrow> int option" where
  "int_field k j = Option.bind (value_get j k) as_i64"

definition checkpoint_json :: "Checkpoint \<Rightarrow> json" where
  "checkpoint_json c = jobj [(''dynamic_key'', JStr (cp_dynamic_key c)), (''task_key'', JStr (cp_task_key c)),
     (''input_hash'', JStr (cp_input_hash c)), (''result_ref'', JStr (cp_result_ref c)),
     (''run_id'', json_int (cp_run_id c)), (''pass'', json_int (cp_pass c))]"

definition checkpoint_of_json :: "json \<Rightarrow> Checkpoint option" where
  "checkpoint_of_json j =
     Option.bind (str_field ''dynamic_key'' j) (\<lambda>dk. Option.bind (str_field ''task_key'' j) (\<lambda>tk.
       Option.bind (str_field ''input_hash'' j) (\<lambda>h. Option.bind (str_field ''result_ref'' j) (\<lambda>r.
         Option.bind (int_field ''run_id'' j) (\<lambda>i. Option.bind (int_field ''pass'' j) (\<lambda>p.
           Some \<lparr> cp_dynamic_key = dk, cp_task_key = tk, cp_input_hash = h, cp_result_ref = r, cp_run_id = i, cp_pass = p \<rparr>))))))"

definition effect_json :: "EffectRow \<Rightarrow> json" where
  "effect_json e = jobj [(''slot'', JStr (ef_slot e)), (''hash'', JStr (ef_hash e)), (''ref'', json_opt JStr (ef_ref e)),
     (''run_id'', json_int (ef_run_id e)), (''pass'', json_int (ef_pass e))]"

text \<open>The reference may be absent or null; anything else but text is an error.\<close>

definition ref_field :: "json \<Rightarrow> string option option" where
  "ref_field j =
     (case value_get j ''ref'' of
        None \<Rightarrow> Some None
      | Some JNull \<Rightarrow> Some None
      | Some v \<Rightarrow> map_option Some (as_str v))"

definition effect_of_json :: "json \<Rightarrow> EffectRow option" where
  "effect_of_json j =
     Option.bind (str_field ''slot'' j) (\<lambda>s. Option.bind (str_field ''hash'' j) (\<lambda>h.
       Option.bind (ref_field j) (\<lambda>r. Option.bind (int_field ''run_id'' j) (\<lambda>i. Option.bind (int_field ''pass'' j) (\<lambda>p.
         Some \<lparr> ef_slot = s, ef_hash = h, ef_ref = r, ef_run_id = i, ef_pass = p \<rparr>)))))"

text \<open>\<^verbatim>\<open>from_str::<Vec<T>>(..).unwrap_or_default()\<close>: one element that does not decode loses them all.\<close>

definition decode_list :: "(json \<Rightarrow> 'a option) \<Rightarrow> json \<Rightarrow> 'a list" where
  "decode_list f j = (case j of JArr xs \<Rightarrow> (case those (map f xs) of Some ys \<Rightarrow> ys | None \<Rightarrow> []) | _ \<Rightarrow> [])"

section \<open>What a run replays\<close>

definition completed_task :: "int list \<Rightarrow> Row \<times> TaskMeta \<Rightarrow> bool" where
  "completed_task chain p \<longleftrightarrow> tk_run_id (snd p) \<in> set chain \<and> col_state_type (fst p) = Some ''Completed''
     \<and> row_result_ref (fst p) \<noteq> None \<and> row_input_hash (fst p) \<noteq> None"

definition task_order :: "Row \<times> TaskMeta \<Rightarrow> int \<times> int \<times> int" where
  "task_order p = (tk_run_id (snd p), tk_pass (snd p), row_id (fst p))"

definition checkpoint_of :: "Row \<times> TaskMeta \<Rightarrow> Checkpoint" where
  "checkpoint_of p = \<lparr> cp_dynamic_key = tk_dynamic_key (snd p), cp_task_key = tk_task_key (snd p),
     cp_input_hash = the (row_input_hash (fst p)), cp_result_ref = the (row_result_ref (fst p)),
     cp_run_id = tk_run_id (snd p), cp_pass = tk_pass (snd p) \<rparr>"

definition chain_checkpoints :: "int list \<Rightarrow> RunTables \<Rightarrow> Checkpoint list" where
  "chain_checkpoints chain t = map checkpoint_of (sort_key task_order (filter (completed_task chain) (ru_tasks t)))"

definition chain_seeds :: "int list \<Rightarrow> RunTables \<Rightarrow> Checkpoint list" where
  "chain_seeds chain t =
     concat (map (\<lambda>i. case map_of (ru_kv t) (checkpoint_seed_key i) of
                        Some j \<Rightarrow> decode_list checkpoint_of_json j | None \<Rightarrow> []) (rev chain))"

definition keep_latest :: "('a \<Rightarrow> string) \<Rightarrow> 'a list \<Rightarrow> (string \<times> 'a) list \<Rightarrow> (string \<times> 'a) list" where
  "keep_latest key xs m = fold (\<lambda>x. AList.update (key x) x) xs m"

definition run_chain :: "int \<Rightarrow> RunTables \<Rightarrow> int list" where
  "run_chain i t = crash_chain 50 (ru_runs t) i"

definition checkpoints :: "int \<Rightarrow> RunTables \<Rightarrow> Checkpoint list" where
  "checkpoints i t =
     (let chain = run_chain i t;
          latest = keep_latest cp_dynamic_key (chain_seeds chain t) [];
          latest = keep_latest cp_dynamic_key (chain_checkpoints chain t) latest
      in sort_key cp_dynamic_key (map snd latest))"

definition chain_effects :: "int list \<Rightarrow> RunTables \<Rightarrow> EffectRow list" where
  "chain_effects chain t = sort_key (\<lambda>e. (ef_run_id e, ef_pass e)) (filter (\<lambda>e. ef_run_id e \<in> set chain) (ru_effects t))"

definition effect_seeds :: "int list \<Rightarrow> RunTables \<Rightarrow> EffectRow list" where
  "effect_seeds chain t =
     concat (map (\<lambda>i. case map_of (ru_kv t) (effect_seed_key i) of
                        Some j \<Rightarrow> decode_list effect_of_json j | None \<Rightarrow> []) (rev chain))"

definition effects :: "int \<Rightarrow> RunTables \<Rightarrow> EffectRow list" where
  "effects i t =
     (let chain = run_chain i t;
          latest = keep_latest ef_slot (effect_seeds chain t) [];
          latest = keep_latest ef_slot (chain_effects chain t) latest
      in sort_key ef_slot (map snd latest))"

definition next_pass :: "int \<Rightarrow> RunTables \<Rightarrow> int" where
  "next_pass i t = fold max (map (tk_pass \<circ> snd) (filter (\<lambda>p. tk_run_id (snd p) = i) (ru_tasks t))) (- 1) + 1"

section \<open>Lineage\<close>

definition lineage_mark :: "int \<Rightarrow> RunTables \<Rightarrow> (int \<times> int) option" where
  "lineage_mark i t = Option.bind (map_of (ru_kv t) (lineage_key i)) (\<lambda>j.
     Option.bind (int_field ''root'' j) (\<lambda>r. map_option (Pair r) (int_field ''from'' j)))"

definition lineage_root :: "int \<Rightarrow> RunTables \<Rightarrow> int" where
  "lineage_root i t =
     (let first = last (run_chain i t) in case lineage_mark first t of Some (r, _) \<Rightarrow> r | None \<Rightarrow> first)"

text \<open>The root's row is read for its external id; it may be gone.\<close>

definition lineage :: "int \<Rightarrow> RunTables \<Rightarrow> StoreError + int \<times> string" where
  "lineage i t =
     (let root = lineage_root i t in
      case List.find (\<lambda>r. row_id r = root) (ru_runs t) of
        Some r \<Rightarrow> Inr (root, row_external_id r)
      | None \<Rightarrow> Inl (Sqlite ''Query returned no rows''))"

lemma run_chain_nonempty [simp]: "run_chain i t \<noteq> []"
proof -
  have "crash_chain n rows i \<noteq> []" for n rows
    by (cases n) (auto split: option.splits)
  then show ?thesis by (simp add: run_chain_def)
qed

function lineage_from :: "RunTables \<Rightarrow> int list \<Rightarrow> int \<Rightarrow> int list" where
  "lineage_from t out i =
     (if 200 < length out then out
      else let chain = run_chain i t; out' = out @ chain in
        case lineage_mark (last chain) t of
          Some (_, f) \<Rightarrow> if f \<in> set out' then out' else lineage_from t out' f
        | None \<Rightarrow> out')"
  by auto
termination
proof (relation "measure (\<lambda>(_, out, _). 201 - length out)")
  fix t :: RunTables and out i chain out' p r f
  assume "\<not> 200 < length out" "chain = run_chain i t" "out' = out @ chain"
  moreover have "0 < length (run_chain i t)" by simp
  ultimately show "((t, out', f), (t, out, i)) \<in> measure (\<lambda>(_, out, _). 201 - length out)" by (simp only: in_measure prod.case length_append)
qed simp

declare lineage_from.simps [simp del]

definition lineage_runs :: "int \<Rightarrow> RunTables \<Rightarrow> int list" where
  "lineage_runs i t = lineage_from t [] i"

definition left_open :: "RunTables \<Rightarrow> Row \<times> TaskMeta \<Rightarrow> bool" where
  "left_open t p \<longleftrightarrow>
     row_id (fst p) \<in> set (ru_once t) \<and> start_time (col_counters (fst p)) \<noteq> None
     \<and> (col_state_type (fst p) = Some ''Running''
        \<or> col_state_type (fst p) = Some ''Scheduled'' \<and> col_state_name (fst p) = Some ''AwaitingRetry'')"

definition in_doubt :: "int \<Rightarrow> RunTables \<Rightarrow> string list" where
  "in_doubt i t =
     (let runs = filter (\<lambda>j. j \<noteq> i) (lineage_runs i t);
          rows = filter (\<lambda>p. tk_run_id (snd p) \<in> set runs) (ru_tasks t);
          completed = map (tk_dynamic_key \<circ> snd) (filter (\<lambda>p. col_state_type (fst p) = Some ''Completed'') rows)
      in sort (remdups (map (tk_dynamic_key \<circ> snd)
           (filter (\<lambda>p. left_open t p \<and> tk_dynamic_key (snd p) \<notin> set completed) rows))))"

section \<open>What a retry runs again\<close>

definition task_runs_of_pass :: "int \<Rightarrow> int \<Rightarrow> RunTables \<Rightarrow> (Row \<times> TaskMeta) list" where
  "task_runs_of_pass i pass t =
     sort_key (row_id \<circ> fst) (filter (\<lambda>p. tk_run_id (snd p) = i \<and> tk_pass (snd p) = pass) (ru_tasks t))"

definition key_of :: "(Row \<times> TaskMeta) list \<Rightarrow> string \<Rightarrow> string option" where
  "key_of latest = map_of (rev (map (\<lambda>p. (row_external_id (fst p), tk_dynamic_key (snd p))) latest))"

definition waits_on_hit :: "(Row \<times> TaskMeta) list \<Rightarrow> string list \<Rightarrow> Row \<times> TaskMeta \<Rightarrow> bool" where
  "waits_on_hit latest out p \<longleftrightarrow> list_ex (\<lambda>k. k \<in> set out) (List.map_filter (key_of latest) (tk_parents (snd p)))"

definition invalidation_pass :: "(Row \<times> TaskMeta) list \<Rightarrow> string list \<Rightarrow> string list" where
  "invalidation_pass latest =
     fold (\<lambda>p out. if tk_dynamic_key (snd p) \<in> set out then out
                   else if waits_on_hit latest out p then out @ [tk_dynamic_key (snd p)] else out) latest"

lemma sweep_grows:
  "\<exists>new. fold (\<lambda>p out. if tk_dynamic_key (snd p) \<in> set out then out
       else if waits_on_hit latest out p then out @ [tk_dynamic_key (snd p)] else out) ps out = out @ new
     \<and> set new \<subseteq> (tk_dynamic_key \<circ> snd) ` set ps \<and> set new \<inter> set out = {}
     \<and> (new = [] \<longrightarrow> (\<forall>p \<in> set ps. tk_dynamic_key (snd p) \<in> set out \<or> \<not> waits_on_hit latest out p))"
proof (induction ps arbitrary: out)
  case (Cons p ps)
  show ?case
  proof (cases "tk_dynamic_key (snd p) \<in> set out \<or> \<not> waits_on_hit latest out p")
    case True
    obtain new where "fold (\<lambda>p out. if tk_dynamic_key (snd p) \<in> set out then out
       else if waits_on_hit latest out p then out @ [tk_dynamic_key (snd p)] else out) ps out = out @ new"
      "set new \<subseteq> (tk_dynamic_key \<circ> snd) ` set ps" "set new \<inter> set out = {}"
      "new = [] \<longrightarrow> (\<forall>p \<in> set ps. tk_dynamic_key (snd p) \<in> set out \<or> \<not> waits_on_hit latest out p)"
      using Cons.IH[of out] by blast
    then show ?thesis using True by (intro exI[of _ new]) auto
  next
    case False
    obtain new where "fold (\<lambda>p out. if tk_dynamic_key (snd p) \<in> set out then out
       else if waits_on_hit latest out p then out @ [tk_dynamic_key (snd p)] else out) ps (out @ [tk_dynamic_key (snd p)])
         = (out @ [tk_dynamic_key (snd p)]) @ new"
      "set new \<subseteq> (tk_dynamic_key \<circ> snd) ` set ps" "set new \<inter> set (out @ [tk_dynamic_key (snd p)]) = {}"
      using Cons.IH[of "out @ [tk_dynamic_key (snd p)]"] by blast
    then show ?thesis using False by (intro exI[of _ "tk_dynamic_key (snd p) # new"]) auto
  qed
qed simp

function downstream_keys :: "(Row \<times> TaskMeta) list \<Rightarrow> string list \<Rightarrow> string list" where
  "downstream_keys latest out =
     (let out' = invalidation_pass latest out in if length out' = length out then out' else downstream_keys latest out')"
  by auto
termination
proof (relation "measure (\<lambda>(latest, out). card ((tk_dynamic_key \<circ> snd) ` set latest - set out))")
  fix latest :: "(Row \<times> TaskMeta) list" and out out'
  assume out': "out' = invalidation_pass latest out" and "length out' \<noteq> length out"
  let ?K = "(tk_dynamic_key \<circ> snd) ` set latest"
  obtain new where new: "out' = out @ new" "set new \<subseteq> ?K" "set new \<inter> set out = {}"
    using sweep_grows[of latest latest out] out' by (auto simp: invalidation_pass_def)
  then have "new \<noteq> []" using \<open>length out' \<noteq> length out\<close> by auto
  then obtain k where "k \<in> set new" by (cases new) auto
  then have "?K - set out' \<subset> ?K - set out" using new by auto
  then have "card (?K - set out') < card (?K - set out)" by (intro psubset_card_mono) auto
  then show "((latest, out'), latest, out) \<in> measure (\<lambda>(latest, out). card ((tk_dynamic_key \<circ> snd) ` set latest - set out))" by simp
qed simp

declare downstream_keys.simps [simp del]

text \<open>The tasks a retry executes again; it may name only a task of the last pass.\<close>

definition invalidated_keys :: "string \<Rightarrow> (Row \<times> TaskMeta) list \<Rightarrow> string + string list" where
  "invalidated_keys from latest =
     (if from = ''start'' then Inr (map (tk_dynamic_key \<circ> snd) latest)
      else if from = ''failure'' then
        Inr (downstream_keys latest (remdups (map (tk_dynamic_key \<circ> snd) (filter (\<lambda>p. col_state_type (fst p) \<noteq> Some ''Completed'') latest))))
      else if list_ex (\<lambda>p. tk_dynamic_key (snd p) = from) latest then Inr (downstream_keys latest [from])
      else Inl from)"

record RetryPlan =
  pl_invalidated :: "string list"
  pl_seed :: "Checkpoint list"
  pl_effects :: "EffectRow list"

definition retry_plan :: "string \<Rightarrow> int \<Rightarrow> RunTables \<Rightarrow> string + RetryPlan" where
  "retry_plan from i t =
     (let latest = task_runs_of_pass i (max (next_pass i t - 1) 0) t in
      case invalidated_keys from latest of
        Inl e \<Rightarrow> Inl e
      | Inr invalidated \<Rightarrow>
          Inr \<lparr> pl_invalidated = sort (remdups invalidated),
                pl_seed = (if from = ''start'' then [] else filter (\<lambda>c. cp_dynamic_key c \<notin> set invalidated) (checkpoints i t)),
                pl_effects = (if from = ''start'' then [] else filter (\<lambda>e. \<not> starts_with (ef_slot e) ''artifact:'') (effects i t)) \<rparr>)"

end
