(* ===== verification/Replay_Facts.thy ===== *)
theory Replay_Facts
  imports Replay
begin

text \<open>
  What is replayed is the latest work of the chain of crash reruns; what a retry runs again is
  everything that transitively waited on what failed, and it replays the rest.
\<close>

section \<open>The latest entry per key\<close>

lemma keep_latest_get:
  "map_of (keep_latest key xs m) k =
     (case filter (\<lambda>x. key x = k) xs of [] \<Rightarrow> map_of m k | y # ys \<Rightarrow> Some (last (y # ys)))"
proof (induction xs arbitrary: m)
  case (Cons x xs)
  show ?case
    using Cons.IH[of "AList.update (key x) x m"]
    by (cases "filter (\<lambda>x. key x = k) xs") (auto simp: keep_latest_def update_conv')
qed (simp add: keep_latest_def)

lemma keep_latest_keys:
  "distinct (map fst m) \<Longrightarrow> distinct (map fst (keep_latest key xs m))"
  by (induction xs arbitrary: m) (simp_all add: keep_latest_def distinct_update)

lemma keep_latest_keyed:
  "\<forall>(k, x) \<in> set m. key x = k \<Longrightarrow> \<forall>(k, x) \<in> set (keep_latest key xs m). key x = k"
proof (induction xs arbitrary: m)
  case (Cons x xs)
  have "\<forall>(k, y) \<in> set (AList.update (key x) x m). key y = k"
    using Cons.prems by (induction m) auto
  then show ?case using Cons.IH by (simp add: keep_latest_def)
qed (simp add: keep_latest_def)

lemma keep_latest_append: "keep_latest key ys (keep_latest key xs m) = keep_latest key (xs @ ys) m"
  by (simp add: keep_latest_def)

lemma latest_iff:
  "x \<in> set (map snd (keep_latest key xs [])) \<longleftrightarrow> x \<in> set xs \<and> x = last (filter (\<lambda>y. key y = key x) xs)"
proof -
  let ?m = "keep_latest key xs []"
  have d: "distinct (map fst ?m)" and k: "\<forall>(k, y) \<in> set ?m. key y = k"
    using keep_latest_keys[of "[]" key xs] keep_latest_keyed[of "[]" key xs] by auto
  have "x \<in> set (map snd ?m) \<longleftrightarrow> (key x, x) \<in> set ?m" using k by force
  also have "\<dots> \<longleftrightarrow> map_of ?m (key x) = Some x" using d by (simp add: map_of_eq_Some_iff)
  also have "\<dots> \<longleftrightarrow> filter (\<lambda>y. key y = key x) xs \<noteq> [] \<and> x = last (filter (\<lambda>y. key y = key x) xs)"
    by (cases "filter (\<lambda>y. key y = key x) xs") (auto simp: keep_latest_get)
  also have "\<dots> \<longleftrightarrow> x \<in> set xs \<and> x = last (filter (\<lambda>y. key y = key x) xs)"
  proof
    assume a: "filter (\<lambda>y. key y = key x) xs \<noteq> [] \<and> x = last (filter (\<lambda>y. key y = key x) xs)"
    then have "x \<in> set (filter (\<lambda>y. key y = key x) xs)" using last_in_set by metis
    then show "x \<in> set xs \<and> x = last (filter (\<lambda>y. key y = key x) xs)" using a by simp
  next
    assume a: "x \<in> set xs \<and> x = last (filter (\<lambda>y. key y = key x) xs)"
    then have "x \<in> set (filter (\<lambda>y. key y = key x) xs)" by simp
    then show "filter (\<lambda>y. key y = key x) xs \<noteq> [] \<and> x = last (filter (\<lambda>y. key y = key x) xs)" using a by force
  qed
  finally show ?thesis .
qed

lemma latest_distinct: "distinct (map key (map snd (keep_latest key xs [])))"
proof -
  have "map (key \<circ> snd) (keep_latest key xs []) = map fst (keep_latest key xs [])"
    using keep_latest_keyed[of "[]" key xs] by (intro map_cong) auto
  moreover have "distinct (map fst (keep_latest key xs []))" using keep_latest_keys[of "[]" key xs] by simp
  ultimately show ?thesis by (simp only: list.map_comp)
qed

lemma checkpoints_iff:
  "c \<in> set (checkpoints i t) \<longleftrightarrow>
     (let all = chain_seeds (run_chain i t) t @ chain_checkpoints (run_chain i t) t
      in c \<in> set all \<and> c = last (filter (\<lambda>d. cp_dynamic_key d = cp_dynamic_key c) all))"
  using latest_iff[of c cp_dynamic_key]
  by (simp add: checkpoints_def Let_def keep_latest_append del: set_map)

lemma checkpoints_distinct: "distinct (map cp_dynamic_key (checkpoints i t))"
proof -
  have "mset (map cp_dynamic_key (sort_key cp_dynamic_key xs)) = mset (map cp_dynamic_key xs)" for xs by simp
  then show ?thesis using latest_distinct[of cp_dynamic_key]
    unfolding checkpoints_def Let_def keep_latest_append by (metis mset_eq_imp_distinct_iff)
qed

lemma sort_key_last_max:
  assumes "p \<in> set xs" "P p" "\<And>q. q \<in> set xs \<Longrightarrow> P q \<Longrightarrow> q \<noteq> p \<Longrightarrow> f q < f p"
  shows "last (filter P (sort_key f xs)) = p"
proof -
  let ?ys = "filter P (sort_key f xs)"
  have p: "p \<in> set ?ys" using assms(1,2) by simp
  then have ne: "?ys \<noteq> []" by force
  have "sorted (map f ?ys)" by (simp add: sorted_filter)
  moreover obtain i where i: "i < length ?ys" "?ys ! i = p" using p unfolding in_set_conv_nth by blast
  ultimately have "f p \<le> f (last ?ys)"
    using ne sorted_nth_mono[of "map f ?ys" i "length ?ys - 1"] by (simp add: last_conv_nth)
  moreover have "last ?ys \<in> set xs" "P (last ?ys)" using last_in_set[OF ne] by auto
  ultimately show ?thesis using assms(3) by fastforce
qed

lemma distinct_singleton_set: "distinct xs \<Longrightarrow> set xs = {x} \<Longrightarrow> xs = [x]"
  by (cases xs; cases "tl xs") auto


section \<open>What a retry runs again\<close>

text \<open>A task waits on another when the other's task run is among its recorded parents.\<close>

definition waits :: "(Row \<times> TaskMeta) list \<Rightarrow> (string \<times> string) set" where
  "waits latest = {(k, tk_dynamic_key (snd p)) | k p. p \<in> set latest \<and> (\<exists>x \<in> set (tk_parents (snd p)). key_of latest x = Some k)}"

lemma waits_on_hit_iff:
  "p \<in> set latest \<Longrightarrow> waits_on_hit latest out p \<Longrightarrow> \<exists>k \<in> set out. (k, tk_dynamic_key (snd p)) \<in> waits latest"
  "p \<in> set latest \<Longrightarrow> x \<in> set (tk_parents (snd p)) \<Longrightarrow> key_of latest x = Some k \<Longrightarrow> k \<in> set out \<Longrightarrow> waits_on_hit latest out p"
  by (cases p, force simp: waits_on_hit_def list_ex_iff waits_def List.map_filter_def)+

lemma sweep_sound:
  assumes "set ps \<subseteq> set latest" "set out \<subseteq> (waits latest)\<^sup>* `` R"
  shows "set (fold (\<lambda>p out. if tk_dynamic_key (snd p) \<in> set out then out
       else if waits_on_hit latest out p then out @ [tk_dynamic_key (snd p)] else out) ps out) \<subseteq> (waits latest)\<^sup>* `` R"
  using assms
proof (induction ps arbitrary: out)
  case (Cons p ps)
  have "set (if tk_dynamic_key (snd p) \<in> set out then out
       else if waits_on_hit latest out p then out @ [tk_dynamic_key (snd p)] else out) \<subseteq> (waits latest)\<^sup>* `` R"
  proof (cases "waits_on_hit latest out p")
    case True
    have "p \<in> set latest" using Cons.prems(1) by simp
    from waits_on_hit_iff(1)[OF this True]
    obtain k where "k \<in> set out" "(k, tk_dynamic_key (snd p)) \<in> waits latest" by blast
    then have "tk_dynamic_key (snd p) \<in> (waits latest)\<^sup>* `` R" using Cons.prems(2) by (auto intro: rtrancl.rtrancl_into_rtrancl)
    then show ?thesis using Cons.prems(2) by simp
  qed (use Cons.prems in simp)
  then show ?case using Cons.IH Cons.prems(1) by simp
qed simp

lemma sweep_closed:
  assumes "length (invalidation_pass latest out) = length out"
  shows "waits latest `` set out \<subseteq> set out"
proof -
  have "\<forall>p \<in> set latest. tk_dynamic_key (snd p) \<in> set out \<or> \<not> waits_on_hit latest out p"
    using sweep_grows[of latest latest out] assms by (auto simp: invalidation_pass_def)
  then show ?thesis using waits_on_hit_iff(2) by (fastforce simp: waits_def)
qed

lemma downstream_keys_reach:
  "set out \<subseteq> (waits latest)\<^sup>* `` R \<Longrightarrow> R \<subseteq> set out \<Longrightarrow> set (downstream_keys latest out) = (waits latest)\<^sup>* `` R"
proof (induction latest out rule: downstream_keys.induct)
  case (1 latest out)
  let ?out = "invalidation_pass latest out"
  obtain new where new: "?out = out @ new" using sweep_grows[of latest latest out] by (auto simp: invalidation_pass_def)
  have sound: "set ?out \<subseteq> (waits latest)\<^sup>* `` R" unfolding invalidation_pass_def by (rule sweep_sound) (use "1.prems" in auto)
  have R: "R \<subseteq> set ?out" using "1.prems"(2) new by auto
  show ?case
  proof (cases "length ?out = length out")
    case True
    then have "?out = out" using new by simp
    moreover have "(waits latest)\<^sup>* `` R \<subseteq> set out"
    proof
      fix y assume "y \<in> (waits latest)\<^sup>* `` R"
      then obtain x where "x \<in> R" "(x, y) \<in> (waits latest)\<^sup>*" by blast
      from this(2,1) show "y \<in> set out"
        using sweep_closed[OF True] "1.prems"(2) by (induction rule: rtrancl_induct) auto
    qed
    ultimately show ?thesis using True "1.prems"(1) by (simp add: downstream_keys.simps[of latest out] Let_def)
  next
    case False
    then show ?thesis using "1.IH"[OF refl False sound R] by (simp add: downstream_keys.simps[of latest out] Let_def)
  qed
qed

text \<open>
  C12: A retry from failure replays exactly what did not depend on the failure. Of the original's
  checkpoints the new run is given those, and only those, whose task no unfinished
  task of the last pass leads to through the recorded parents, at any depth.
\<close>

theorem retry_replays_what_did_not_fail:
  assumes "retry_plan ''failure'' i t = Inr plan"
  defines "latest \<equiv> task_runs_of_pass i (max (next_pass i t - 1) 0) t"
  shows "c \<in> set (pl_seed plan) \<longleftrightarrow> c \<in> set (checkpoints i t)
    \<and> \<not> (\<exists>p \<in> set latest. col_state_type (fst p) \<noteq> Some ''Completed'' \<and> (tk_dynamic_key (snd p), cp_dynamic_key c) \<in> (waits latest)\<^sup>*)"
proof -
  let ?roots = "remdups (map (tk_dynamic_key \<circ> snd) (filter (\<lambda>p. col_state_type (fst p) \<noteq> Some ''Completed'') latest))"
  have "set (downstream_keys latest ?roots) = (waits latest)\<^sup>* `` set ?roots"
    by (rule downstream_keys_reach) auto
  moreover have "pl_seed plan = filter (\<lambda>c. cp_dynamic_key c \<notin> set (downstream_keys latest ?roots)) (checkpoints i t)"
    using assms(1) by (auto simp: retry_plan_def invalidated_keys_def latest_def Let_def)
  ultimately show ?thesis by auto
qed

text \<open>
  A retry from a named task runs that task and everything downstream of it again, and nothing else is
  invalidated; naming a task the last pass did not record is an error.
\<close>

lemma retry_from_a_task:
  fixes i :: int and t :: RunTables
  assumes "k \<noteq> ''start''" "k \<noteq> ''failure''"
  defines "latest \<equiv> task_runs_of_pass i (max (next_pass i t - 1) 0) t"
  shows "(\<exists>plan. retry_plan k i t = Inr plan \<and> set (pl_invalidated plan) = (waits latest)\<^sup>* `` {k}) \<longleftrightarrow>
      (\<exists>p \<in> set latest. tk_dynamic_key (snd p) = k)"
    and "(\<forall>p \<in> set latest. tk_dynamic_key (snd p) \<noteq> k) \<Longrightarrow> retry_plan k i t = Inl k"
proof -
  have "set (downstream_keys latest [k]) = (waits latest)\<^sup>* `` {k}" by (rule downstream_keys_reach) auto
  then show "(\<exists>plan. retry_plan k i t = Inr plan \<and> set (pl_invalidated plan) = (waits latest)\<^sup>* `` {k}) \<longleftrightarrow>
      (\<exists>p \<in> set latest. tk_dynamic_key (snd p) = k)"
    using assms(1,2) by (auto simp: retry_plan_def invalidated_keys_def latest_def[symmetric] Let_def list_ex_iff split: if_splits)
  show "(\<forall>p \<in> set latest. tk_dynamic_key (snd p) \<noteq> k) \<Longrightarrow> retry_plan k i t = Inl k"
    using assms(1,2) by (simp add: retry_plan_def invalidated_keys_def latest_def[symmetric] Let_def list_ex_iff)
qed

section \<open>Seeds\<close>

lemma as_i64_json_int: "in_i64 i \<Longrightarrow> as_i64 (json_int i) = Some i"
  by (simp add: json_int_def in_i64_def i64_max_def i64_min_def)

definition checkpoint_fits :: "Checkpoint \<Rightarrow> bool" where
  "checkpoint_fits c \<longleftrightarrow> in_i64 (cp_run_id c) \<and> in_i64 (cp_pass c)"

lemma jobj_lookup:
  "distinct (map fst kvs) \<Longrightarrow> value_get (jobj kvs) k = map_of kvs k"
proof -
  have "jmap_get (fold (\<lambda>(k, v). jmap_insert k v) kvs m) k = (case map_of (rev kvs) k of Some v \<Rightarrow> Some v | None \<Rightarrow> jmap_get m k)" for m
  proof (induction kvs arbitrary: m)
    case (Cons e kvs)
    then show ?case by (cases e) (auto split: option.splits simp: map_add_def)
  qed simp
  moreover assume "distinct (map fst kvs)"
  then have "map_of (rev kvs) = map_of kvs" by (intro map_of_inject_set[THEN iffD2]) (simp_all add: rev_map[symmetric])
  ultimately show ?thesis by (simp add: value_get_def jobj_def jmap_get_def split: option.splits)
qed

lemma checkpoint_roundtrip: "checkpoint_fits c \<Longrightarrow> checkpoint_of_json (checkpoint_json c) = Some c"
  by (simp add: checkpoint_of_json_def checkpoint_json_def str_field_def int_field_def jobj_lookup as_i64_json_int checkpoint_fits_def)

lemma those_map_Some: "(\<And>x. x \<in> set xs \<Longrightarrow> f (g x) = Some x) \<Longrightarrow> those (map f (map g xs)) = Some xs"
  by (induction xs) auto

lemma checkpoints_decoded:
  "\<forall>c \<in> set cs. checkpoint_fits c \<Longrightarrow> decode_list checkpoint_of_json (JArr (map checkpoint_json cs)) = cs"
  using those_map_Some[of cs checkpoint_of_json checkpoint_json] checkpoint_roundtrip by (simp add: decode_list_def)

lemma keep_latest_distinct:
  "distinct (map key xs) \<Longrightarrow> set (map key xs) \<inter> fst ` set m = {} \<Longrightarrow> keep_latest key xs m = m @ map (\<lambda>x. (key x, x)) xs"
proof (induction xs arbitrary: m)
  case (Cons x xs)
  have "AList.update (key x) x m = m @ [(key x, x)]" using Cons.prems(2) by (induction m) auto
  then show ?case using Cons.IH[of "m @ [(key x, x)]"] Cons.prems by (auto simp: keep_latest_def)
qed (simp add: keep_latest_def)

text \<open>
  A run that continues no other and has done nothing yet replays the seed stored for its id,
  whoever stored it.
\<close>

lemma fresh_run_replays_its_seed:
  assumes "run_chain i t = [i]" "\<forall>p \<in> set (ru_tasks t). tk_run_id (snd p) \<noteq> i"
    and "map_of (ru_kv t) (checkpoint_seed_key i) = Some (JArr (map checkpoint_json cs))"
    and "\<forall>c \<in> set cs. checkpoint_fits c" "distinct (map cp_dynamic_key cs)" "sorted (map cp_dynamic_key cs)"
  shows "checkpoints i t = cs"
proof -
  have "chain_checkpoints [i] t = []" using assms(2) by (simp add: chain_checkpoints_def completed_task_def filter_empty_conv)
  moreover have "chain_seeds [i] t = cs" using assms(3) checkpoints_decoded[OF assms(4)] by (simp add: chain_seeds_def)
  moreover have "keep_latest cp_dynamic_key cs [] = map (\<lambda>x. (cp_dynamic_key x, x)) cs"
    using keep_latest_distinct[of cp_dynamic_key cs "[]"] assms(5) by simp
  ultimately show ?thesis
    using assms(1,6) by (simp add: checkpoints_def Let_def keep_latest_def[of _ "[]"] comp_def sorted_sort_id sort_key_id_if_sorted)
qed

lemma fresh_run_without_seed:
  assumes "run_chain i t = [i]" "\<forall>p \<in> set (ru_tasks t). tk_run_id (snd p) \<noteq> i" "map_of (ru_kv t) (checkpoint_seed_key i) = None"
  shows "checkpoints i t = []"
  using assms by (simp add: checkpoints_def Let_def chain_checkpoints_def chain_seeds_def completed_task_def filter_empty_conv keep_latest_def)

lemma checkpoints_sorted: "sorted (map cp_dynamic_key (checkpoints i t))"
  by (simp add: checkpoints_def Let_def)

section \<open>Passes\<close>

text \<open>The next pass of a run is one none of its task runs belongs to, so nothing it records can repeat a key.\<close>

lemma next_pass_fresh: "p \<in> set (ru_tasks t) \<Longrightarrow> tk_run_id (snd p) = i \<Longrightarrow> tk_pass (snd p) < next_pass i t"
proof -
  assume p: "p \<in> set (ru_tasks t)" "tk_run_id (snd p) = i"
  let ?xs = "map (tk_pass \<circ> snd) (filter (\<lambda>p. tk_run_id (snd p) = i) (ru_tasks t))"
  have "x \<le> fold max xs z" if "x \<in> set (z # xs)" for x z and xs :: "int list"
    using that by (simp add: Max.set_eq_fold[symmetric] Max_ge)
  then have "tk_pass (snd p) \<le> fold max ?xs (- 1)" using p by simp
  then show ?thesis by (simp add: next_pass_def)
qed

section \<open>Samples\<close>

definition done_task :: "Row \<times> TaskMeta" where
  "done_task = ((task_row 1 20 \<lparr> ct_run_id = 1, ct_name = ''load'', ct_task_key = ''load'', ct_dynamic_key = ''load-0'', ct_external_id = ''t1'',
       ct_parents = [], ct_pass = 0, ct_once = False \<rparr>)\<lparr> col_state_type := Some ''Completed'', row_result_ref := Some ''r1'', row_input_hash := Some ''h1'' \<rparr>,
     \<lparr> tk_id = 1, tk_run_id = 1, tk_task_key = ''load'', tk_dynamic_key = ''load-0'', tk_pass = 0, tk_parents = [] \<rparr>)"

definition failed_task :: "Row \<times> TaskMeta" where
  "failed_task = ((task_row 2 30 \<lparr> ct_run_id = 1, ct_name = ''sum'', ct_task_key = ''sum'', ct_dynamic_key = ''sum-0'', ct_external_id = ''t2'',
       ct_parents = [''t1''], ct_pass = 0, ct_once = False \<rparr>)\<lparr> col_state_type := Some ''Failed'' \<rparr>,
     \<lparr> tk_id = 2, tk_run_id = 1, tk_task_key = ''sum'', tk_dynamic_key = ''sum-0'', tk_pass = 0, tk_parents = [''t1''] \<rparr>)"

definition worked_tables :: RunTables where
  "worked_tables = \<lparr> ru_runs = [], ru_tasks = [done_task, failed_task], ru_once = [], ru_effects = [], ru_kv = [] \<rparr>"


theorem retry_replays_what_did_not_fail_witness:
  "\<exists>plan. retry_plan ''failure'' 1 worked_tables = Inr plan \<and> checkpoint_of done_task \<in> set (pl_seed plan)
     \<and> (''sum-0'', ''load-0'') \<notin> (waits (task_runs_of_pass 1 0 worked_tables))\<^sup>*"
proof -
  have ok: "(case retry_plan ''failure'' 1 worked_tables of Inr plan \<Rightarrow> list_ex (\<lambda>c. c = checkpoint_of done_task) (pl_seed plan) | Inl _ \<Rightarrow> False)"
    by code_simp
  then obtain plan where plan: "retry_plan ''failure'' 1 worked_tables = Inr plan" and c: "checkpoint_of done_task \<in> set (pl_seed plan)"
    by (auto simp: list_ex_iff split: sum.splits)
  have pass: "max (next_pass 1 worked_tables - 1) 0 = 0" by code_simp
  have "list_ex (\<lambda>p. p = failed_task) (task_runs_of_pass 1 0 worked_tables)" by code_simp
  then have f: "failed_task \<in> set (task_runs_of_pass 1 0 worked_tables)" by (simp add: list_ex_iff)
  have keys: "col_state_type (fst failed_task) \<noteq> Some ''Completed''" "tk_dynamic_key (snd failed_task) = ''sum-0''"
    "cp_dynamic_key (checkpoint_of done_task) = ''load-0''" by code_simp+
  from retry_replays_what_did_not_fail[OF plan, of "checkpoint_of done_task"] c f keys
  show ?thesis using plan by (auto simp: pass)
qed

end
