(* ===== verification/Validate.thy ===== *)
theory Validate
  imports Scheduler
begin

text \<open>
  Checking a run's parameters against its flow's schema (\<^verbatim>\<open>crates/server/src/validate.rs\<close>) and
  filling in the declared defaults. Rendering a value as JSON text (\<open>to_text\<close>) and as a
  debug text (\<open>show_values\<close>) are the JSON library's.
\<close>

fun as_array :: "json \<Rightarrow> json list option" where
  "as_array (JArr xs) = Some xs"
| "as_array _ = None"

text \<open>What \<^verbatim>\<open>str::parse::<f64>\<close> accepts: a sign, then a special word or digits with at most one point and an exponent.\<close>

definition is_digit :: "char \<Rightarrow> bool" where
  "is_digit c \<longleftrightarrow> c \<in> set ''0123456789''"

definition exponent_ok :: "string \<Rightarrow> bool" where
  "exponent_ok t =
     (case t of
        [] \<Rightarrow> True
      | c # rest \<Rightarrow>
          c \<in> set ''eE''
          \<and> (let ds = (case rest of s # r \<Rightarrow> if s \<in> set ''+-'' then r else rest | [] \<Rightarrow> []) in ds \<noteq> [] \<and> list_all is_digit ds))"

definition decimal_ok :: "string \<Rightarrow> bool" where
  "decimal_ok t =
     (let whole = takeWhile is_digit t; rest = dropWhile is_digit t in
      case rest of
        c # r \<Rightarrow>
          if c = CHR ''.'' then (whole \<noteq> [] \<or> takeWhile is_digit r \<noteq> []) \<and> exponent_ok (dropWhile is_digit r)
          else whole \<noteq> [] \<and> exponent_ok rest
      | [] \<Rightarrow> whole \<noteq> [])"

definition parses_f64 :: "string \<Rightarrow> bool" where
  "parses_f64 t =
     (let body = (case t of c # r \<Rightarrow> if c \<in> set ''+-'' then r else t | [] \<Rightarrow> []) in
      to_ascii_lowercase body \<in> set [''inf'', ''infinity'', ''nan''] \<or> decimal_ok body)"

definition trim_matches :: "char \<Rightarrow> string \<Rightarrow> string" where
  "trim_matches c t = trim_end_matches c (dropWhile (\<lambda>x. x = c) t)"

definition string_holds :: "(string \<Rightarrow> bool) \<Rightarrow> json \<Rightarrow> bool" where
  "string_holds P v = (case as_str v of Some t \<Rightarrow> P t | None \<Rightarrow> False)"

text \<open>The values a declared type admits; a type it does not know admits all.\<close>

definition kind_admits :: "string \<Rightarrow> json \<Rightarrow> bool" where
  "kind_admits kind v =
     (if kind = ''string'' then (case v of JStr _ \<Rightarrow> True | _ \<Rightarrow> False)
      else if kind = ''integer'' then
        (case v of JNum (PosInt _) \<Rightarrow> True | JNum (NegInt _) \<Rightarrow> True | _ \<Rightarrow> string_holds (\<lambda>t. parse_i64 (trim t) \<noteq> None) v)
      else if kind = ''number'' then (case v of JNum _ \<Rightarrow> True | _ \<Rightarrow> string_holds (\<lambda>t. parses_f64 (trim t)) v)
      else if kind = ''boolean'' then
        (case v of JBool _ \<Rightarrow> True
         | _ \<Rightarrow> string_holds (\<lambda>t. to_ascii_lowercase t \<in> set [''true'', ''false'', ''1'', ''0'', ''yes'', ''no'']) v)
      else if kind = ''array'' then (case v of JArr _ \<Rightarrow> True | _ \<Rightarrow> False)
      else if kind = ''object'' then (case v of JObj _ \<Rightarrow> True | _ \<Rightarrow> False)
      else if kind = ''null'' then v = JNull
      else True)"

definition is_choice :: "(json \<Rightarrow> string) \<Rightarrow> json list \<Rightarrow> json \<Rightarrow> bool" where
  "is_choice to_text choices v \<longleftrightarrow>
     list_ex (\<lambda>c. c = v) choices \<or> string_holds (\<lambda>t. list_ex (\<lambda>c. trim_matches (CHR 0x22) (to_text c) = t) choices) v"

lemma any_of_smaller:
  assumes "Option.bind (value_get decl k) as_array = Some xs" "p \<in> set xs"
  shows "size p < size decl"
proof -
  obtain m where m: "decl = JObj m" "map_of m k = Some (JArr xs)"
    using assms(1) by (auto simp: value_get_def jmap_get_def bind_eq_Some_conv split: json.splits elim!: as_array.elims)
  have "(k, JArr xs) \<in> set m" by (rule map_of_SomeD[OF m(2)])
  then have "size (JArr xs) < size decl"
    using size_list_estimation'[of "(k, JArr xs)" m "size (JArr xs)" "size_prod (\<lambda>_. 0) size"] by (simp add: m(1))
  moreover have "size p < size (JArr xs)" using size_list_estimation'[OF assms(2), of "size p" size] by simp
  ultimately show ?thesis by simp
qed

function check_value :: "(json \<Rightarrow> string) \<Rightarrow> (json list \<Rightarrow> string) \<Rightarrow> string \<Rightarrow> json \<Rightarrow> json \<Rightarrow> string option" where
  "check_value to_text show_values name decl v =
     (case Option.bind (value_get decl ''anyOf'') as_array of
        Some any_of \<Rightarrow>
          if list_ex (\<lambda>p. check_value to_text show_values name p v = None) any_of then None
          else Some (''parameter '' @ debug_str name @ '' does not match any allowed type'')
      | None \<Rightarrow>
         (case Option.bind (value_get decl ''enum'') as_array of
            Some choices \<Rightarrow>
              if is_choice to_text choices v then None
              else Some (''parameter '' @ debug_str name @ '' must be one of '' @ show_values choices)
          | None \<Rightarrow>
             (case Option.bind (value_get decl ''type'') as_str of
                None \<Rightarrow> None
              | Some kind \<Rightarrow>
                  if kind_admits kind v then None
                  else Some (''parameter '' @ debug_str name @ '' expects '' @ kind))))"
  by auto
termination by (relation "measure (\<lambda>(_, _, _, decl, _). size decl)") (auto simp: any_of_smaller)

declare check_value.simps [simp del]

fun first_missing :: "json list \<Rightarrow> jmap \<Rightarrow> string option" where
  "first_missing [] params = None"
| "first_missing (r # rs) params =
     (case as_str r of
        Some name \<Rightarrow> if jmap_get params name = None then Some name else first_missing rs params
      | None \<Rightarrow> first_missing rs params)"

fun check_each :: "(json \<Rightarrow> string) \<Rightarrow> (json list \<Rightarrow> string) \<Rightarrow> jmap option \<Rightarrow> jmap \<Rightarrow> string option" where
  "check_each to_text show_values props [] = None"
| "check_each to_text show_values props ((name, v) # rest) =
     (case Option.bind props (\<lambda>m. jmap_get m name) of
        None \<Rightarrow> Some (''parameter '' @ debug_str name @ '' is not declared by the flow'')
      | Some decl \<Rightarrow>
          (case check_value to_text show_values name decl v of
             Some e \<Rightarrow> Some e
           | None \<Rightarrow> check_each to_text show_values props rest))"

definition validate_parameters :: "(json \<Rightarrow> string) \<Rightarrow> (json list \<Rightarrow> string) \<Rightarrow> json \<Rightarrow> jmap \<Rightarrow> string option" where
  "validate_parameters to_text show_values schema params =
     (let props = Option.bind (value_get schema ''properties'') jobject;
          required = (case Option.bind (value_get schema ''required'') as_array of Some rs \<Rightarrow> rs | None \<Rightarrow> [])
      in case first_missing required params of
           Some name \<Rightarrow> Some (''parameter '' @ debug_str name @ '' is required'')
         | None \<Rightarrow> check_each to_text show_values props params)"

text \<open>The defaults a run is given for the parameters its request leaves out.\<close>

definition fill_one :: "string \<times> json \<Rightarrow> jmap \<Rightarrow> jmap" where
  "fill_one = (\<lambda>(k, decl) m.
     if jmap_get m k \<noteq> None then m
     else case value_get decl ''default'' of Some d \<Rightarrow> jmap_insert k d m | None \<Rightarrow> m)"

definition fill_defaults :: "json \<Rightarrow> jmap \<Rightarrow> jmap" where
  "fill_defaults schema params =
     (case Option.bind (value_get schema ''properties'') jobject of None \<Rightarrow> params | Some props \<Rightarrow> fold fill_one props params)"

definition declared_defaults :: "jmap \<Rightarrow> jmap" where
  "declared_defaults props = List.map_filter (\<lambda>(k, decl). map_option (Pair k) (value_get decl ''default'')) props"

section \<open>What an accepted request is\<close>

text \<open>When a value conforms to a declaration: to one of its alternatives, to its list of choices, or to its type.\<close>

inductive conforms :: "(json \<Rightarrow> string) \<Rightarrow> json \<Rightarrow> json \<Rightarrow> bool" for to_text where
  any_of: "Option.bind (value_get decl ''anyOf'') as_array = Some ps \<Longrightarrow> p \<in> set ps \<Longrightarrow> conforms to_text p v
    \<Longrightarrow> conforms to_text decl v"
| choice: "Option.bind (value_get decl ''anyOf'') as_array = None \<Longrightarrow> Option.bind (value_get decl ''enum'') as_array = Some cs
    \<Longrightarrow> c \<in> set cs \<Longrightarrow> c = v \<or> (\<exists>t. v = JStr t \<and> trim_matches (CHR 0x22) (to_text c) = t) \<Longrightarrow> conforms to_text decl v"
| typed: "Option.bind (value_get decl ''anyOf'') as_array = None \<Longrightarrow> Option.bind (value_get decl ''enum'') as_array = None
    \<Longrightarrow> (\<And>kind. Option.bind (value_get decl ''type'') as_str = Some kind \<Longrightarrow> kind_admits kind v) \<Longrightarrow> conforms to_text decl v"

lemma as_str_Some: "as_str v = Some t \<longleftrightarrow> v = JStr t"
  by (cases v) auto

lemma is_choice_iff:
  "is_choice to_text cs v \<longleftrightarrow> (\<exists>c \<in> set cs. c = v \<or> (\<exists>t. v = JStr t \<and> trim_matches (CHR 0x22) (to_text c) = t))"
  by (cases v) (auto simp: is_choice_def string_holds_def list_ex_iff)

lemma check_value_conforms: "check_value to_text show_values name decl v = None \<longleftrightarrow> conforms to_text decl v"
proof (induction to_text show_values name decl v rule: check_value.induct)
  case (1 to_text show_values name decl v)
  show ?case
  proof (cases "Option.bind (value_get decl ''anyOf'') as_array")
    case (Some ps)
    then have "check_value to_text show_values name decl v = None \<longleftrightarrow> (\<exists>p \<in> set ps. conforms to_text p v)"
      using "1.IH"[OF Some] by (simp add: check_value.simps[of _ _ _ decl] list_ex_iff)
    also have "\<dots> \<longleftrightarrow> conforms to_text decl v" using Some by (subst (2) conforms.simps) auto
    finally show ?thesis .
  next
    case any: None
    show ?thesis
    proof (cases "Option.bind (value_get decl ''enum'') as_array")
      case (Some cs)
      then show ?thesis using any
        by (auto simp: check_value.simps[of _ _ _ decl] is_choice_iff conforms.simps[of _ decl v])
    next
      case None
      then show ?thesis using any
        by (auto simp: check_value.simps[of _ _ _ decl] conforms.simps[of _ decl v] split: option.splits)
    qed
  qed
qed

lemma first_missing_None:
  "first_missing rs params = None \<longleftrightarrow> (\<forall>name. JStr name \<in> set rs \<longrightarrow> jmap_get params name \<noteq> None)"
proof (induction rs)
  case (Cons r rs)
  then show ?case by (cases r) auto
qed simp

lemma check_each_None:
  "check_each to_text show_values props params = None \<longleftrightarrow>
     (\<forall>(name, v) \<in> set params. \<exists>m decl. props = Some m \<and> jmap_get m name = Some decl \<and> conforms to_text decl v)"
proof (induction params)
  case (Cons e rest)
  obtain name v where e: "e = (name, v)" by force
  show ?case
  proof (cases "Option.bind props (\<lambda>m. jmap_get m name)")
    case None
    then show ?thesis by (cases props) (auto simp: e)
  next
    case (Some decl)
    then obtain m where "props = Some m" "jmap_get m name = Some decl" by (auto simp: bind_eq_Some_conv)
    then show ?thesis using Cons.IH by (auto simp: e check_value_conforms[symmetric, of to_text decl v show_values name] split: option.splits)
  qed
qed simp

lemma filled_get:
  "jmap_get (fold fill_one props params) name =
     (case jmap_get params name of Some v \<Rightarrow> Some v | None \<Rightarrow> map_of (declared_defaults props) name)"
proof (induction props arbitrary: params)
  case Nil
  then show ?case by (simp add: declared_defaults_def map_filter_simps split: option.splits)
next
  case (Cons e props)
  obtain k decl where e: "e = (k, decl)" by force
  have one: "fill_one (k, decl) m = (if jmap_get m k \<noteq> None then m
      else case value_get decl ''default'' of Some d \<Rightarrow> jmap_insert k d m | None \<Rightarrow> m)" for m
    by (simp add: fill_one_def)
  show ?case
    by (cases "jmap_get params k"; cases "value_get decl ''default''")
      (auto simp: e Cons.IH one declared_defaults_def map_filter_simps split: option.splits)
qed


text \<open>
  Filling in the defaults changes nothing that was given, and adds exactly the defaults of
  the declared parameters that were not.
\<close>

theorem defaults_fill_what_is_missing:
  assumes "value_get schema ''properties'' = Some (JObj props)"
  shows "jmap_get (fill_defaults schema params) name =
     (case jmap_get params name of
        Some v \<Rightarrow> Some v
      | None \<Rightarrow> map_of (declared_defaults props) name)"
  using assms by (simp add: fill_defaults_def filled_get)

section \<open>Samples\<close>

definition day_schema :: json where
  "day_schema = JObj
     [(''properties'', JObj
        [(''day'', JObj [(''type'', JStr ''string'')]),
         (''n'', JObj [(''anyOf'', JArr [JObj [(''type'', JStr ''integer'')], JObj [(''type'', JStr ''null'')]]),
                       (''default'', JNum (PosInt 1))])]),
      (''required'', JArr [JStr ''day''])]"

definition day_params :: jmap where
  "day_params = [(''day'', JStr ''2026-09-06''), (''n'', JStr '' 3'')]"


theorem defaults_fill_what_is_missing_witness:
  "jmap_get (fill_defaults day_schema [(''day'', JStr ''x'')]) ''n'' = Some (JNum (PosInt 1))"
proof -
  have "value_get day_schema ''properties'' = Some (JObj
        [(''day'', JObj [(''type'', JStr ''string'')]),
         (''n'', JObj [(''anyOf'', JArr [JObj [(''type'', JStr ''integer'')], JObj [(''type'', JStr ''null'')]]),
                       (''default'', JNum (PosInt 1))])])" by code_simp
  from defaults_fill_what_is_missing[OF this, of "[(''day'', JStr ''x'')]" "''n''"] show ?thesis
    by (simp add: jmap_get_def declared_defaults_def map_filter_simps value_get_def)
qed

end
