(* ===== verification/Run_Api.thy ===== *)
theory Run_Api
  imports Replay_Facts Validate Wait_Facts "HOL-Library.Word"
begin

unbundle bit_operations_syntax

text \<open>
  Creating, cancelling, deleting and retrying a run (\<^verbatim>\<open>crates/server/src/api/runs.rs\<close>), composed of the
  store's \<^verbatim>\<open>create_run\<close>, admission, the transitions of \<open>Dispatch\<close> and the replay reads. Awaited
  work is done in place; the store's task tables, which these handlers only read, stand
  beside the server's state.
\<close>

datatype ApiError =
    ApiNotFound string | ApiBadRequest string | ApiUnprocessable string | ApiConflict json
  | ApiInternal string | ApiUnavailable string

fun ApiError_from :: "StoreError \<Rightarrow> ApiError" where
  "ApiError_from (NotFound what) = ApiNotFound (what @ '' not found'')"
| "ApiError_from (RejectedWith reason _) = ApiInternal (''transition rejected: '' @ reason)"
| "ApiError_from (UniqueConflict i) = ApiInternal (''run '' @ show_int i @ '' already holds the unique key'')"
| "ApiError_from (Sqlite e) = ApiInternal e"

definition state_json :: "State \<Rightarrow> json" where
  "state_json s = jobj [(''type'', JStr (StateType_as_str (st_type s))), (''name'', JStr (st_name s)),
     (''message'', json_opt JStr (st_message s)), (''details'', JObj (st_details s)), (''timestamp'', json_int (st_timestamp s))]"

definition rejected_json :: "string \<Rightarrow> string \<Rightarrow> State option \<Rightarrow> json" where
  "rejected_json what reason current =
     jobj [(''error'', JStr (what @ reason)), (''reason'', JStr reason), (''current'', json_opt state_json current)]"

section \<open>Names\<close>

definition NAME_A :: "string list" where
  "NAME_A = [''amber'', ''brave'', ''calm'', ''clever'', ''cosmic'', ''crisp'', ''daring'', ''eager'', ''fluent'',
     ''gentle'', ''golden'', ''humble'', ''jolly'', ''keen'', ''lively'', ''lucky'', ''merry'', ''mighty'',
     ''nimble'', ''noble'', ''patient'', ''polite'', ''proud'', ''quick'', ''quiet'', ''rapid'', ''serene'',
     ''sharp'', ''silent'', ''sleek'', ''smooth'', ''steady'', ''sturdy'', ''sunny'', ''swift'', ''tidy'',
     ''vivid'', ''witty'', ''zesty'']"

definition NAME_N :: "string list" where
  "NAME_N = [''badger'', ''beetle'', ''bison'', ''condor'', ''cougar'', ''coyote'', ''crane'', ''dolphin'', ''falcon'',
     ''ferret'', ''finch'', ''gecko'', ''heron'', ''ibis'', ''jackal'', ''koala'', ''lemur'', ''lynx'', ''macaw'',
     ''marmot'', ''meerkat'', ''narwhal'', ''newt'', ''ocelot'', ''osprey'', ''otter'', ''owl'', ''panda'',
     ''pelican'', ''puffin'', ''quail'', ''raven'', ''salmon'', ''sparrow'', ''stork'', ''tapir'', ''toucan'',
     ''walrus'', ''weasel'', ''wombat'', ''yak'']"

definition name_step :: "64 word \<Rightarrow> 64 word" where
  "name_step seed =
     (let seed = seed XOR push_bit 13 seed;
          seed = seed XOR drop_bit 7 seed
      in seed XOR push_bit 17 seed)"

definition name_of :: "64 word \<Rightarrow> string" where
  "name_of seed = NAME_A ! nat (uint seed mod int (length NAME_A)) @ ''-'' @ NAME_N ! nat (uint (drop_bit 16 seed) mod int (length NAME_N))"

fun try_names :: "nat \<Rightarrow> 64 word \<Rightarrow> SDb \<Rightarrow> string option" where
  "try_names 0 seed d = None"
| "try_names (Suc n) seed d =
     (let seed = name_step seed; name = name_of seed in
      if run_name_exists name d then try_names n seed d else Some name)"

definition generate_name :: "nat \<Rightarrow> micros \<Rightarrow> SDb \<Rightarrow> string" where
  "generate_name pid now d =
     (case try_names 64 (word_of_int now XOR push_bit 32 (word_of_nat pid)) d of
        Some name \<Rightarrow> name
      | None \<Rightarrow> ''run-'' @ show_int now)"

section \<open>Cancelling\<close>

definition mark_cancelling :: "micros \<Rightarrow> int \<Rightarrow> AppState \<Rightarrow> AppState" where
  "mark_cancelling now i = on_sched (\<lambda>d. d\<lparr> sc_index := snd (update_active i (\<lambda>a. a\<lparr> ar_cancel_requested := True,
     ar_cancelling_since := (case ar_cancelling_since a of None \<Rightarrow> Some now | t \<Rightarrow> t) \<rparr>) (sc_index d)) \<rparr>)"

definition has_engine :: "int \<Rightarrow> AppState \<Rightarrow> bool" where
  "has_engine i s \<longleftrightarrow> engine_for_run i (ap_sup s) \<noteq> None
     \<or> Option.bind (get_active i (sc_index (ap_sched s))) ar_engine_pid \<noteq> None"

definition cancel_inner :: "micros \<Rightarrow> knot \<Rightarrow> Run \<Rightarrow> AppState \<Rightarrow> ((ApiError + Run) \<times> AppState) outcome" where
  "cancel_inner now k run s =
     (if is_terminal (run_state run) then Value (Inr run, s)
      else let i = run_id run;
               immediate = (queued i (ap_sup s) \<or> \<not> has_engine i s \<or> st_type (run_state run) \<in> {Scheduled, Pending})
        in obind (if immediate then k_transition k i (State_new now Cancelled) (sup_dequeue i s)
                  else k_transition k i (State_new now Cancelling) s) (\<lambda>(result, s).
             Value (case result of
                      Accepted run' \<Rightarrow> (Inr run', mark_cancelling now (run_id run') s)
                    | RejectedAs reason current \<Rightarrow> (Inl (ApiConflict (rejected_json ''cannot cancel: '' reason current)), s)
                    | StoreErr e \<Rightarrow> (Inl (ApiError_from e), s))))"

section \<open>Creating\<close>

record Gate =
  ga_shutting_down :: bool
  ga_resetting :: bool

record NewRun =
  nr_parameters :: jmap
  nr_name :: "string option"
  nr_tags :: "string list"
  nr_created_by :: string
  nr_not_before :: "micros option"
  nr_parent :: "(int \<times> int) option"
  nr_idempotency :: "Idempotency option"

definition add_tags :: "string list \<Rightarrow> string list \<Rightarrow> string list" where
  "add_tags own given = fold (\<lambda>t out. if t \<in> set out then out else out @ [t]) given own"

definition debounce_spec :: "FlowOptions \<Rightarrow> NewRun \<Rightarrow> UniqueSpec option" where
  "debounce_spec options n =
     (if nr_idempotency n = None
      then (case fo_unique options of Some u \<Rightarrow> if us_on_conflict u = ''debounce'' then Some u else None | None \<Rightarrow> None)
      else None)"

definition starts_at :: "micros \<Rightarrow> FlowOptions \<Rightarrow> NewRun \<Rightarrow> micros option" where
  "starts_at now options n =
     (case debounce_spec options n of
        Some spec \<Rightarrow> map_option (\<lambda>d. case nr_not_before n of None \<Rightarrow> d | Some g \<Rightarrow> max g d) (debounce_start now spec)
      | None \<Rightarrow> nr_not_before n)"

definition effective_parameters :: "Flow \<Rightarrow> NewRun \<Rightarrow> jmap" where
  "effective_parameters flow n = fill_defaults (fl_parameter_schema flow) (nr_parameters n)"

definition run_request :: "('c, 'r) senv \<Rightarrow> micros \<Rightarrow> Flow \<Rightarrow> NewRun \<Rightarrow> UniqueCheck option \<Rightarrow> AppState \<Rightarrow> CreateRun" where
  "run_request env now flow n unique s =
     \<lparr> cr_flow_id = fl_id flow,
       cr_name = (case nr_name n of
                    Some name \<Rightarrow> if name = [] then generate_name (se_process_id env) now (sc_store (ap_sched s)) else name
                  | None \<Rightarrow> generate_name (se_process_id env) now (sc_store (ap_sched s))),
       cr_parameters = to_json env (JObj (effective_parameters flow n)),
       cr_tags = to_json env (JArr (map JStr (add_tags (fl_tags flow) (nr_tags n)))), cr_created_by = nr_created_by n,
       cr_initial_state = Some (State_new now Scheduled), cr_schedule_id = None,
       cr_scheduled_time = starts_at now (options_of env flow) n, cr_priority = fo_priority (options_of env flow),
       cr_parent = map_option fst (nr_parent n), cr_attempt = (case nr_parent n of Some (_, a) \<Rightarrow> a | None \<Rightarrow> 0),
       cr_backfill_id = None, cr_unique = unique \<rparr>"

definition launch_run ::
  "('c, 'r) senv \<Rightarrow> micros \<Rightarrow> knot \<Rightarrow> Flow \<Rightarrow> micros option \<Rightarrow> int \<Rightarrow> AppState \<Rightarrow> ((ApiError + Run \<times> bool) \<times> AppState) outcome" where
  "launch_run env now k flow starts i s =
     (case app_run env i s of
        None \<Rightarrow> Value (Inl (ApiInternal ''run vanished''), s)
      | Some run \<Rightarrow>
          obind (run_created env now k flow run s) (\<lambda>s.
            obind (case starts of
                     Some due \<Rightarrow> if now < due then Value (on_sched (arm_run now i due False) s) else enqueue_run env now k run flow None s
                   | None \<Rightarrow> enqueue_run env now k run flow None s) (\<lambda>s.
              Value (Inr (run, False), s))))"

definition answer_holder :: "('c, 'r) senv \<Rightarrow> int \<Rightarrow> AppState \<Rightarrow> (ApiError + Run \<times> bool) \<times> AppState" where
  "answer_holder env i s = (case app_run env i s of Some holder \<Rightarrow> (Inr (holder, True), s) | None \<Rightarrow> (Inl (ApiInternal ''run vanished''), s))"

text \<open>A conflict under \<^verbatim>\<open>replace\<close>: the holder is ended and the creation tried once more.\<close>

definition replace_holder ::
  "('c, 'r) senv \<Rightarrow> micros \<Rightarrow> knot \<Rightarrow> Flow \<Rightarrow> micros option \<Rightarrow> CreateRun \<Rightarrow> Run \<Rightarrow> AppState \<Rightarrow> ((ApiError + Run \<times> bool) \<times> AppState) outcome" where
  "replace_holder env now k flow starts req holder s =
     obind (cancel_inner now k holder s) (\<lambda>(result, s).
       case result of
         Inl e \<Rightarrow> Value (Inl e, s)
       | Inr ended \<Rightarrow>
           if \<not> is_terminal (run_state ended) then Value (Inr (ended, True), s)
           else case store_created env now req s of
                  Inr (i, s) \<Rightarrow> launch_run env now k flow starts i s
                | Inl (UniqueConflict existing) \<Rightarrow> Value (answer_holder env existing s)
                | Inl e \<Rightarrow> Value (Inl (ApiError_from e), s))"

definition create_run_checked ::
  "('c, 'r) senv \<Rightarrow> (json list \<Rightarrow> string) \<Rightarrow> micros \<Rightarrow> knot \<Rightarrow> Gate \<Rightarrow> Flow \<Rightarrow> NewRun \<Rightarrow> AppState
   \<Rightarrow> ((ApiError + Run \<times> bool) \<times> AppState) outcome" where
  "create_run_checked env show_values now k gate flow n s =
     (if ga_shutting_down gate then Value (Inl (ApiConflict (jobj [(''error'', JStr ''server is shutting down'')])), s)
      else if ga_resetting gate then Value (Inl (ApiUnavailable ''the database is being reset; try again in a moment''), s)
      else case validate_parameters (to_json env) show_values (fl_parameter_schema flow) (nr_parameters n) of
        Some e \<Rightarrow> Value (Inl (ApiUnprocessable e), s)
      | None \<Rightarrow>
          (let options = options_of env flow; starts = starts_at now options n in
           obind (unique_check_for (to_json env) now (fl_id flow) (fo_unique options) (effective_parameters flow n) (nr_idempotency n)) (\<lambda>unique.
             let req = run_request env now flow n unique s in
             case store_created env now req s of
               Inr (i, s) \<Rightarrow> launch_run env now k flow starts i s
             | Inl (UniqueConflict existing) \<Rightarrow>
                (case app_run env existing s of
                   None \<Rightarrow> Value (Inl (ApiInternal ''run vanished''), s)
                 | Some holder \<Rightarrow>
                     if nr_idempotency n = None \<and> map_option us_on_conflict (fo_unique options) = Some ''replace'' \<and> \<not> is_terminal (run_state holder)
                     then replace_holder env now k flow starts req holder s
                     else case debounce_spec options n of
                            Some spec \<Rightarrow>
                              (let s = debounce_holder env now holder (effective_parameters flow n) spec s
                               in Value (case app_run env existing s of Some h \<Rightarrow> (Inr (h, True), s) | None \<Rightarrow> (Inr (holder, True), s)))
                          | None \<Rightarrow> Value (Inr (holder, True), s))
             | Inl e \<Rightarrow> Value (Inl (ApiError_from e), s))))"

text \<open>A creation whose caller is not told whether the run it gets is new.\<close>

definition create_run_inner ::
  "('c, 'r) senv \<Rightarrow> (json list \<Rightarrow> string) \<Rightarrow> micros \<Rightarrow> knot \<Rightarrow> Gate \<Rightarrow> Flow \<Rightarrow> NewRun \<Rightarrow> AppState \<Rightarrow> ((ApiError + Run) \<times> AppState) outcome" where
  "create_run_inner env show_values now k gate flow n s =
     obind (create_run_checked env show_values now k gate flow (n\<lparr> nr_idempotency := None \<rparr>) s) (\<lambda>(r, s). Value (map_sum id fst r, s))"

section \<open>Retrying and deleting\<close>

record ApiState =
  ai_app :: AppState
  ai_meta :: "TaskMeta list"
  ai_once :: "int list"
  ai_effects :: "EffectRow list"

definition api_tables :: "ApiState \<Rightarrow> RunTables" where
  "api_tables s = \<lparr> ru_runs = app_rows (ai_app s), ru_tasks = zip (db_tasks (sd_db (sc_store (ap_sched (ai_app s))))) (ai_meta s),
     ru_once = ai_once s, ru_effects = ai_effects s, ru_kv = ap_kv (ai_app s) \<rparr>"

definition kv_set :: "string \<Rightarrow> json \<Rightarrow> AppState \<Rightarrow> AppState" where
  "kv_set key v s = s\<lparr> ap_kv := AList.update key v (ap_kv s) \<rparr>"

definition seed_retry :: "RetryPlan \<Rightarrow> int \<Rightarrow> AppState \<Rightarrow> AppState" where
  "seed_retry plan i s =
     (let s = (if pl_effects plan = [] then s else kv_set (effect_seed_key i) (JArr (map effect_json (pl_effects plan))) s)
      in if pl_seed plan = [] then s else kv_set (checkpoint_seed_key i) (JArr (map checkpoint_json (pl_seed plan))) s)"

record RetryResponse =
  rr_run :: Run
  rr_retry_of :: int
  rr_from :: string
  rr_replays :: nat
  rr_invalidated :: "string list"

definition not_finished :: "Run \<Rightarrow> ApiError" where
  "not_finished run = ApiConflict (jobj [(''error'', JStr (''run is '' @ StateType_as_str (st_type (run_state run)) @ '', not finished'')),
     (''current'', state_json (run_state run))])"

definition retry_request :: "Run \<Rightarrow> string \<Rightarrow> NewRun" where
  "retry_request original created_by =
     \<lparr> nr_parameters = run_parameters original, nr_name = None, nr_tags = run_tags original, nr_created_by = created_by,
       nr_not_before = None, nr_parent = Some (run_id original, run_attempt original + 1), nr_idempotency = None \<rparr>"

definition retry_inner ::
  "('c, 'r) senv \<Rightarrow> (json list \<Rightarrow> string) \<Rightarrow> micros \<Rightarrow> knot \<Rightarrow> Gate \<Rightarrow> Run \<Rightarrow> string \<Rightarrow> string \<Rightarrow> ApiState
   \<Rightarrow> ((ApiError + RetryResponse) \<times> ApiState) outcome" where
  "retry_inner env show_values now k gate original from created_by s =
     (if \<not> is_terminal (run_state original) then Value (Inl (not_finished original), s)
      else case app_flow (run_flow_id original) (ai_app s) of
        None \<Rightarrow> Value (Inl (ApiNotFound ''flow not found''), s)
      | Some flow \<Rightarrow>
         (case retry_plan from (run_id original) (api_tables s) of
            Inl key \<Rightarrow>
              Value (Inl (ApiUnprocessable (''run '' @ show_int (run_id original) @ '' recorded no task '' @ debug_str key @ '' in its last pass'')), s)
          | Inr plan \<Rightarrow>
              obind (create_run_inner env show_values now k gate flow (retry_request original created_by) (ai_app s)) (\<lambda>(r, a).
                case r of
                  Inl e \<Rightarrow> Value (Inl e, s\<lparr> ai_app := a \<rparr>)
                | Inr run \<Rightarrow>
                   (let response = \<lparr> rr_run = run, rr_retry_of = run_id original, rr_from = from, rr_replays = length (pl_seed plan),
                                     rr_invalidated = pl_invalidated plan \<rparr> in
                    if from = ''start'' then Value (Inr response, s\<lparr> ai_app := seed_retry plan (run_id run) a \<rparr>)
                    else case lineage (run_id original) (api_tables (s\<lparr> ai_app := a \<rparr>)) of
                           Inl e \<Rightarrow> Value (Inl (ApiError_from e), s\<lparr> ai_app := a \<rparr>)
                         | Inr (base, _) \<Rightarrow>
                             Value (Inr response, s\<lparr> ai_app := seed_retry plan (run_id run)
                               (kv_set (lineage_key (run_id run)) (jobj [(''root'', json_int base), (''from'', json_int (run_id original))]) a) \<rparr>)))))"

text \<open>\<^verbatim>\<open>DELETE FROM run\<close> with the rows of its task runs, and the index entry under the state the caller read.\<close>

definition delete_tables :: "int \<Rightarrow> ApiState \<Rightarrow> ApiState" where
  "delete_tables i s =
     (let keep = filter (\<lambda>p. tk_run_id (snd p) \<noteq> i) (zip (db_tasks (sd_db (sc_store (ap_sched (ai_app s))))) (ai_meta s));
          a = set_app_rows (filter (\<lambda>r. row_id r \<noteq> i) (app_rows (ai_app s))) (ai_app s);
          a = on_sched (\<lambda>d. d\<lparr> sc_store := (sc_store d)\<lparr> sd_db := (sd_db (sc_store d))\<lparr> db_tasks := map fst keep \<rparr> \<rparr> \<rparr>) a
      in s\<lparr> ai_app := a\<lparr> ap_messages := filter (\<lambda>m. ms_run_id m \<noteq> i) (ap_messages a) \<rparr>, ai_meta := map snd keep,
           ai_once := filter (\<lambda>j. j \<in> row_id ` set (map fst keep)) (ai_once s), ai_effects := filter (\<lambda>e. ef_run_id e \<noteq> i) (ai_effects s) \<rparr>)"

definition delete_inner :: "micros \<Rightarrow> knot \<Rightarrow> Run \<Rightarrow> ApiState \<Rightarrow> ((ApiError + unit) \<times> ApiState) outcome" where
  "delete_inner now k run s =
     obind (if is_terminal (run_state run) then Value (Inr run, ai_app s) else cancel_inner now k run (ai_app s)) (\<lambda>(r, a).
       case r of
         Inl e \<Rightarrow> Value (Inl e, s\<lparr> ai_app := a \<rparr>)
       | Inr _ \<Rightarrow>
          (let s = delete_tables (run_id run) (s\<lparr> ai_app := sup_dequeue (run_id run) a \<rparr>)
           in Value (Inr (), s\<lparr> ai_app := on_sched (\<lambda>d. emit (PublishRun (run_id run))
                (d\<lparr> sc_index := remove_run (run_id run) (Some (run_state run)) (run_flow_id run) (sc_index d) \<rparr>)) (ai_app s) \<rparr>)))"

end
