(* ===== verification/Run_Api_Facts.thy ===== *)
theory Run_Api_Facts
  imports Run_Api
begin

text \<open>What the run handlers promise, and where they do not keep it.\<close>

section \<open>Creating\<close>

lemma store_created_conflict:
  assumes "cr_unique req = Some u" "latest_match u (app_rows s) = Some i"
  shows "store_created env now req s = Inl (UniqueConflict i)"
  using assms by (simp add: store_created_def create_run_def app_rows_def Let_def)

lemma run_request_unique [simp]: "cr_unique (run_request env now flow n u s) = u"
  by (simp add: run_request_def)

text \<open>
  C14: Creating a run again under the same idempotency key answers with the run first created and
  changes nothing, as long as that run is younger than the key's lifetime. It holds
  whatever the flow declares about conflicts and whatever became of the run.
\<close>

theorem repeated_request_answers_first_run:
  assumes "\<not> ga_shutting_down gate" "\<not> ga_resetting gate"
    and "validate_parameters (to_json env) show_values (fl_parameter_schema flow) (nr_parameters n) = None"
    and "nr_idempotency n = Some idem"
    and q: "q \<in> set (app_rows s)" "row_unique_key q = Some (idempotency_key (fl_id flow) (idem_key idem))"
      "i64_sub now (secs_to_micros (case idem_ttl idem of Some t \<Rightarrow> t | None \<Rightarrow> Fin 86400)) \<le> row_created_at q"
    and newest: "\<forall>r \<in> set (app_rows s). row_unique_key r = row_unique_key q \<longrightarrow> row_id r \<le> row_id q"
    and "app_run env (row_id q) s = Some first"
  shows "create_run_checked env show_values now k gate flow n s = Value (Inr (first, True), s)"
proof -
  let ?u = "\<lparr> uc_key = idempotency_key (fl_id flow) (idem_key idem), uc_states = [],
     uc_since = Some (i64_sub now (secs_to_micros (case idem_ttl idem of Some t \<Rightarrow> t | None \<Rightarrow> Fin 86400))) \<rparr>"
  have m: "unique_match ?u q" using q by (simp add: unique_match_def)
  obtain j where j: "latest_match ?u (app_rows s) = Some j"
    using latest_match_None q(1) m by (metis option.exhaust)
  have "row_id q \<le> j" using latest_match_Some(2)[OF j q(1) m] .
  moreover obtain r where "r \<in> set (app_rows s)" "unique_match ?u r" "row_id r = j" using latest_match_Some(1)[OF j] by auto
  then have "j \<le> row_id q" using newest q(2) by (auto simp: unique_match_def)
  ultimately have "j = row_id q" by simp
  moreover have "unique_check_for (to_json env) now (fl_id flow) sp p (nr_idempotency n) = Value (Some ?u)" for sp p
    using assms(4) by (simp add: unique_check_for_def)
  ultimately show ?thesis
    using assms(1,2,3,4,9) j store_created_conflict[of "run_request env now flow n (Some ?u) s" ?u s "row_id q" env now]
    by (simp add: create_run_checked_def debounce_spec_def Let_def)
qed

text \<open>A name that was generated is one no run had, unless sixty-four attempts all failed.\<close>

lemma try_names_fresh: "try_names n seed d = Some name \<Longrightarrow> \<not> run_name_exists name d"
  by (induction n arbitrary: seed) (auto simp: Let_def split: if_splits)

lemma generated_name_fresh:
  "\<not> run_name_exists (generate_name pid now d) d \<or> generate_name pid now d = ''run-'' @ show_int now"
  by (auto simp: generate_name_def split: option.splits dest: try_names_fresh)

section \<open>Retrying\<close>

lemma kv_set_get [simp]: "map_of (ap_kv (kv_set key v s)) key' = (if key' = key then Some v else map_of (ap_kv s) key')"
  by (simp add: kv_set_def update_conv')

lemma seed_retry_get:
  "pl_seed plan \<noteq> [] \<Longrightarrow> map_of (ap_kv (seed_retry plan i s)) (checkpoint_seed_key i) = Some (JArr (map checkpoint_json (pl_seed plan)))"
  by (simp add: seed_retry_def Let_def)

lemma retry_innerE:
  assumes "retry_inner env show_values now k gate original from created_by s = Value (Inr response, s')"
  obtains plan flow a b where "is_terminal (run_state original)" "app_flow (run_flow_id original) (ai_app s) = Some flow"
    "retry_plan from (run_id original) (api_tables s) = Inr plan"
    "create_run_inner env show_values now k gate flow (retry_request original created_by) (ai_app s) = Value (Inr (rr_run response), a)"
    "rr_replays response = length (pl_seed plan)" "rr_invalidated response = pl_invalidated plan"
    "s' = s\<lparr> ai_app := seed_retry plan (run_id (rr_run response)) b \<rparr>"
proof -
  obtain flow where f: "is_terminal (run_state original)" "app_flow (run_flow_id original) (ai_app s) = Some flow"
    using assms by (auto simp: retry_inner_def split: if_splits option.splits)
  obtain plan where p: "retry_plan from (run_id original) (api_tables s) = Inr plan"
    using assms f by (auto simp: retry_inner_def split: sum.splits)
  obtain r a where c: "create_run_inner env show_values now k gate flow (retry_request original created_by) (ai_app s) = Value (r, a)"
    using assms f p by (auto simp: retry_inner_def obind_Value)
  obtain run where run: "r = Inr run" using assms f p c by (cases r) (auto simp: retry_inner_def)
  have rr: "rr_run response = run" "rr_replays response = length (pl_seed plan)" "rr_invalidated response = pl_invalidated plan"
    using assms f p c run by (auto simp: retry_inner_def Let_def split: if_splits sum.splits)
  obtain b where "s' = s\<lparr> ai_app := seed_retry plan (run_id run) b \<rparr>"
    using assms f p c run by (auto simp: retry_inner_def Let_def split: if_splits sum.splits)
  then show thesis using f p c run rr by (intro that) auto
qed


text \<open>
  C39: A retry of a run whose flow declares itself unique, made while another run holds the key,
  starts nothing: it answers with that other run as though it were the retry, and stores
  the original's checkpoints as that run's seed.
\<close>

theorem retry_seeds_the_holder:
  assumes "is_terminal (run_state original)" "app_flow (run_flow_id original) (ai_app s) = Some flow"
    and "retry_plan ''failure'' (run_id original) (api_tables s) = Inr plan" "pl_seed plan \<noteq> []"
    and "create_run_checked env show_values now k gate flow (retry_request original created_by) (ai_app s) = Value (Inr (holder, True), ai_app s)"
    and "lineage (run_id original) (api_tables s) = Inr base"
  shows "\<exists>response s'. retry_inner env show_values now k gate original ''failure'' created_by s = Value (Inr response, s')
    \<and> rr_run response = holder \<and> app_rows (ai_app s') = app_rows (ai_app s)
    \<and> map_of (ap_kv (ai_app s')) (checkpoint_seed_key (run_id holder)) = Some (JArr (map checkpoint_json (pl_seed plan)))"
proof -
  obtain r e where base: "base = (r, e)" by fastforce
  have "retry_request original created_by\<lparr> nr_idempotency := None \<rparr> = retry_request original created_by" by (simp add: retry_request_def)
  moreover have "app_rows (kv_set key v a) = app_rows a" for key v a by (simp add: kv_set_def app_rows_def)
  then have "app_rows (seed_retry plan i (kv_set key v a)) = app_rows a" for i key v a by (simp add: seed_retry_def Let_def)
  ultimately show ?thesis
    using assms by (simp add: retry_inner_def create_run_inner_def Let_def base seed_retry_get)
qed

text \<open>
  A retry whose lineage leads to a run that has been deleted fails after its run was
  created and admitted, and the run starts with none of the checkpoints it should have replayed.
\<close>

lemma retry_after_pruning_is_half_done:
  assumes "is_terminal (run_state original)" "app_flow (run_flow_id original) (ai_app s) = Some flow"
    and "retry_plan ''failure'' (run_id original) (api_tables s) = Inr plan"
    and "create_run_inner env show_values now k gate flow (retry_request original created_by) (ai_app s) = Value (Inr run, a)"
    and "lineage_root (run_id original) (api_tables (s\<lparr> ai_app := a \<rparr>)) \<notin> row_id ` set (app_rows a)"
  shows "retry_inner env show_values now k gate original ''failure'' created_by s
    = Value (Inl (ApiInternal ''Query returned no rows''), s\<lparr> ai_app := a \<rparr>)"
proof -
  have "List.find (\<lambda>r. row_id r = lineage_root (run_id original) (api_tables (s\<lparr> ai_app := a \<rparr>))) (app_rows a) = None"
    using assms(5) unfolding find_None_iff image_iff by metis
  then have "lineage (run_id original) (api_tables (s\<lparr> ai_app := a \<rparr>)) = Inl (Sqlite ''Query returned no rows'')"
    by (simp add: lineage_def Let_def) (simp add: api_tables_def)
  then show ?thesis using assms by (simp add: retry_inner_def Let_def)
qed

section \<open>Deleting\<close>

lemma remove_run_cnt: "t \<noteq> st_type st \<Longrightarrow> cnt (remove_run i (Some st) flow ix) f t = cnt ix f t"
  by (auto simp: remove_run_def cnt_def set_waiting_def Let_def update_conv' split: option.splits)

lemma mark_cancelling_cnt [simp]: "cnt (sc_index (ap_sched (mark_cancelling now i s))) = cnt (sc_index (ap_sched s))"
proof -
  have "ix_by_flow (sc_index (ap_sched (mark_cancelling now i s))) = ix_by_flow (sc_index (ap_sched s))"
    by (simp add: mark_cancelling_def on_sched_def update_active_def set_waiting_def Let_def split: option.splits)
  then show ?thesis by (simp add: fun_eq_iff cnt_def)
qed

text \<open>
  C40: Deleting a run that has started leaves it in the server's counts. The run is cancelled first,
  which counts it as Cancelling; then it leaves the index under the state it had before, so
  the flow keeps one Cancelling run that no longer exists.
\<close>

theorem deleting_a_started_run_miscounts:
  assumes run: "st_type (run_state run) = Running" "\<not> queued (run_id run) (ap_sup (ai_app s))" "has_engine (run_id run) (ai_app s)"
    and tr: "k_transition k (run_id run) (State_new now Cancelling) (ai_app s) = Value (Accepted run', a)"
    and ok: "counts_ok w (sc_index (ap_sched a))" "w (run_id run) = Some (run_flow_id run, Cancelling)"
  shows "\<exists>s'. delete_inner now k run s = Value (Inr (), s') \<and> run_id run \<notin> row_id ` set (app_rows (ai_app s'))
    \<and> \<not> counts_ok (w(run_id run := None)) (sc_index (ap_sched (ai_app s')))"
proof -
  let ?i = "run_id run" and ?f = "run_flow_id run"
  let ?b = "sup_dequeue ?i (mark_cancelling now (run_id run') a)"
  let ?d = "delete_tables ?i (s\<lparr> ai_app := ?b \<rparr>)"
  define s' where "s' = ?d\<lparr> ai_app := on_sched (\<lambda>d. emit (PublishRun ?i)
      (d\<lparr> sc_index := remove_run ?i (Some (run_state run)) ?f (sc_index d) \<rparr>)) (ai_app ?d) \<rparr>"
  have "\<not> is_terminal (run_state run)" using run(1) by (simp add: is_terminal_def)
  then have del: "delete_inner now k run s = Value (Inr (), s')"
    using run tr by (simp add: delete_inner_def cancel_inner_def s'_def Let_def)
  have "app_rows (ai_app s') = filter (\<lambda>r. row_id r \<noteq> ?i) (app_rows (mark_cancelling now (run_id run') a))"
    by (simp add: s'_def delete_tables_def app_rows_def set_app_rows_def on_sched_def emit_def sup_dequeue_def on_sup_def Let_def)
  then have gone: "?i \<notin> row_id ` set (app_rows (ai_app s'))" by auto
  have "sc_index (ap_sched (ai_app s')) = remove_run ?i (Some (run_state run)) ?f (sc_index (ap_sched (mark_cancelling now (run_id run') a)))"
    by (simp add: s'_def delete_tables_def set_app_rows_def on_sched_def emit_def sup_dequeue_def on_sup_def Let_def)
  then have same: "cnt (sc_index (ap_sched (ai_app s'))) ?f Cancelling = cnt (sc_index (ap_sched a)) ?f Cancelling"
    using run(1) by (simp add: remove_run_cnt)
  have fin: "finite {j. w j = Some (?f, Cancelling)}"
    by (rule finite_subset[of _ "dom w"]) (use ok(1) in \<open>auto simp: counts_ok_def\<close>)
  have "{j. (w(?i := None)) j = Some (?f, Cancelling)} \<subset> {j. w j = Some (?f, Cancelling)}" using ok(2) by auto
  then have "card {j. (w(?i := None)) j = Some (?f, Cancelling)} < card {j. w j = Some (?f, Cancelling)}" by (rule psubset_card_mono[OF fin])
  then have "\<not> counts_ok (w(?i := None)) (sc_index (ap_sched (ai_app s')))" using same ok(1) unfolding counts_ok_def by (metis nat_neq_iff of_nat_eq_iff)
  then show ?thesis using del gone by blast
qed

section \<open>Samples\<close>

definition keyed_env :: "(unit, unit) senv" where
  "keyed_env = served_env\<lparr> flow_options := (\<lambda>_. plain_options\<lparr> fo_unique := Some UniqueSpec_default \<rparr>) \<rparr>"

definition open_gate :: Gate where
  "open_gate = \<lparr> ga_shutting_down = False, ga_resetting = False \<rparr>"

definition flow_key :: UniqueCheck where
  "flow_key = \<lparr> uc_key = ''flow:1|{}|'', uc_states = counting_states UniqueSpec_default, uc_since = None \<rparr>"

definition api_row :: "int \<Rightarrow> string \<Rightarrow> string option \<Rightarrow> Row" where
  "api_row i state key = (new_row i ''x'' 10 (witness_request None))\<lparr> col_state_type := Some state, col_state_name := Some state,
     col_state_timestamp := Some 40, row_unique_key := key \<rparr>"

definition api_with :: "Row list \<Rightarrow> ApiState" where
  "api_with rows = \<lparr> ai_app = (served_app [])\<lparr> ap_sched := plain_sched\<lparr> sc_table := [],
       sc_store := empty_sdb\<lparr> sd_db := \<lparr> db_runs = rows, db_tasks = [fst done_task, fst failed_task] \<rparr> \<rparr> \<rparr> \<rparr>,
     ai_meta = [snd done_task, snd failed_task], ai_once = [], ai_effects = [] \<rparr>"

text \<open>Run 1 failed; run 2, of the same flow, waits to start and holds the flow's key.\<close>

definition held_api :: ApiState where
  "held_api = api_with [api_row 1 ''Failed'' None, api_row 2 ''Scheduled'' (Some ''flow:1|{}|'')]"

definition first_run :: "('c, 'r) senv \<Rightarrow> int \<Rightarrow> ApiState \<Rightarrow> Run" where
  "first_run env i s = the (app_run env i (ai_app s))"

lemma held_eval:
  "app_run keyed_env 1 (ai_app held_api) \<noteq> None" "is_terminal (run_state (first_run keyed_env 1 held_api))"
  "run_id (first_run keyed_env 1 held_api) = 1" "run_id (first_run keyed_env 2 held_api) = 2"
  "app_flow (run_flow_id (first_run keyed_env 1 held_api)) (ai_app held_api) = Some plain_flow"
  by code_simp+

lemma held_plan:
  "\<exists>plan. retry_plan ''failure'' 1 (api_tables held_api) = Inr plan \<and> pl_seed plan \<noteq> [] \<and> length (pl_seed plan) = 1"
proof -
  have "(case retry_plan ''failure'' 1 (api_tables held_api) of Inr plan \<Rightarrow> pl_seed plan \<noteq> [] \<and> length (pl_seed plan) = 1 | Inl _ \<Rightarrow> False)" by code_simp
  then show ?thesis by (auto split: sum.splits)
qed

lemma held_conflict:
  "create_run_checked keyed_env (\<lambda>_. []) 100 k open_gate plain_flow (retry_request (first_run keyed_env 1 held_api) ''retry:1'') (ai_app held_api)
     = Value (Inr (first_run keyed_env 2 held_api, True), ai_app held_api)"
proof -
  let ?n = "retry_request (first_run keyed_env 1 held_api) ''retry:1''"
  have v: "validate_parameters (to_json keyed_env) (\<lambda>_. []) (fl_parameter_schema plain_flow) (nr_parameters ?n) = None" by code_simp
  have o: "fo_unique (options_of keyed_env plain_flow) = Some UniqueSpec_default" by code_simp
  have "effective_parameters plain_flow ?n = []" "show_int 1 = ''1''" "to_json keyed_env (JObj []) = ''{}''" "fl_id plain_flow = 1" by code_simp+
  then have u: "unique_check_for (to_json keyed_env) 100 (fl_id plain_flow) (fo_unique (options_of keyed_env plain_flow)) (effective_parameters plain_flow ?n) None = Value (Some flow_key)"
    by (simp add: o unique_check_for_def unique_key_def key_bucket_def render_key_def UniqueSpec_default_def flow_key_def Let_def)
  have c: "latest_match flow_key (app_rows (ai_app held_api)) = Some 2" by code_simp
  have i: "nr_idempotency ?n = None" by (simp add: retry_request_def)
  have h: "app_run keyed_env 2 (ai_app held_api) = Some (first_run keyed_env 2 held_api)"
  proof -
    have "app_run keyed_env 2 (ai_app held_api) \<noteq> None" by code_simp
    then show ?thesis by (simp add: first_run_def)
  qed
  show ?thesis
    unfolding create_run_checked_def Let_def i u v
    using store_created_conflict[of "run_request keyed_env 100 plain_flow ?n (Some flow_key) (ai_app held_api)" flow_key "ai_app held_api" 2 keyed_env 100] c h
    by (simp add: open_gate_def debounce_spec_def o i UniqueSpec_default_def)
qed

lemma held_lineage: "\<exists>b. lineage 1 (api_tables held_api) = Inr b"
proof -
  have "\<not> isl (lineage 1 (api_tables held_api))" by code_simp
  then show ?thesis by (cases "lineage 1 (api_tables held_api)") auto
qed

lemma held_retry:
  assumes "retry_plan ''failure'' 1 (api_tables held_api) = Inr plan" "pl_seed plan \<noteq> []" "lineage 1 (api_tables held_api) = Inr b"
  shows "\<exists>response s'. retry_inner keyed_env (\<lambda>_. []) 100 (knot_at keyed_env 100 2) open_gate (first_run keyed_env 1 held_api) ''failure'' ''retry:1'' held_api
      = Value (Inr response, s') \<and> rr_run response = first_run keyed_env 2 held_api
    \<and> app_rows (ai_app s') = app_rows (ai_app held_api) \<and> ru_tasks (api_tables s') = ru_tasks (api_tables held_api)"
proof -
  obtain x y where b: "b = (x, y)" by fastforce
  have "(retry_request o1 c)\<lparr> nr_idempotency := None \<rparr> = retry_request o1 c" for o1 c by (simp add: retry_request_def)
  then have "retry_inner keyed_env (\<lambda>_. []) 100 (knot_at keyed_env 100 2) open_gate (first_run keyed_env 1 held_api) ''failure'' ''retry:1'' held_api
    = Value (Inr \<lparr> rr_run = first_run keyed_env 2 held_api, rr_retry_of = 1, rr_from = ''failure'', rr_replays = length (pl_seed plan),
          rr_invalidated = pl_invalidated plan \<rparr>,
        held_api\<lparr> ai_app := seed_retry plan 2 (kv_set (lineage_key 2) (jobj [(''root'', json_int x), (''from'', json_int 1)]) (ai_app held_api)) \<rparr>)"
    using held_eval held_conflict assms by (simp add: retry_inner_def create_run_inner_def Let_def b)
  then show ?thesis by (simp add: seed_retry_def kv_set_def app_rows_def api_tables_def Let_def)
qed

theorem retry_seeds_the_holder_witness:
  "\<exists>(plan :: RetryPlan) response s'. retry_inner keyed_env (\<lambda>_. []) 100 (knot_at keyed_env 100 2) open_gate (first_run keyed_env 1 held_api) ''failure'' ''retry:1'' held_api
       = Value (Inr response, s')
     \<and> run_id (rr_run response) = 2 \<and> pl_seed plan \<noteq> []
     \<and> map_of (ap_kv (ai_app s')) (checkpoint_seed_key 2) = Some (JArr (map checkpoint_json (pl_seed plan)))"
proof -
  obtain plan b where plan: "retry_plan ''failure'' 1 (api_tables held_api) = Inr plan" "pl_seed plan \<noteq> []" and b: "lineage 1 (api_tables held_api) = Inr b"
    using held_plan held_lineage by blast
  note h = retry_seeds_the_holder[where original = "first_run keyed_env 1 held_api" and s = held_api and flow = plain_flow and env = keyed_env
      and show_values = "\<lambda>_. []" and now = 100 and k = "knot_at keyed_env 100 2" and gate = open_gate and created_by = "''retry:1''"
      and holder = "first_run keyed_env 2 held_api" and plan = plan and base = b]
  from h[unfolded held_eval(3), OF held_eval(2,5) plan held_conflict b] obtain response s' where
    "retry_inner keyed_env (\<lambda>_. []) 100 (knot_at keyed_env 100 2) open_gate (first_run keyed_env 1 held_api) ''failure'' ''retry:1'' held_api = Value (Inr response, s')"
    "rr_run response = first_run keyed_env 2 held_api"
    "map_of (ap_kv (ai_app s')) (checkpoint_seed_key (run_id (first_run keyed_env 2 held_api))) = Some (JArr (map checkpoint_json (pl_seed plan)))" by blast
  then show ?thesis using plan(2) held_eval(4) by - (rule exI[of _ plan], rule exI[of _ response], rule exI[of _ s'], simp)
qed

definition keyed_row :: Row where
  "keyed_row = api_row 1 ''Completed'' (Some (idempotency_key 1 ''order-7''))"

definition again :: NewRun where
  "again = \<lparr> nr_parameters = [], nr_name = None, nr_tags = [], nr_created_by = ''api'', nr_not_before = None, nr_parent = None,
     nr_idempotency = Some \<lparr> idem_key = ''order-7'', idem_ttl = Some (Fin 60) \<rparr> \<rparr>"

theorem repeated_request_answers_first_run_witness:
  "\<exists>first. create_run_checked served_env (\<lambda>_. []) 100 (knot_at served_env 100 2) open_gate plain_flow again (ai_app (api_with [keyed_row]))
     = Value (Inr (first, True), ai_app (api_with [keyed_row])) \<and> run_id first = 1"
proof -
  let ?s = "ai_app (api_with [keyed_row])"
  have "app_run served_env 1 ?s \<noteq> None" by code_simp
  then obtain first where f: "app_run served_env 1 ?s = Some first" by blast
  then have "run_id first = 1" by (auto elim: app_runE)
  moreover have "create_run_checked served_env (\<lambda>_. []) 100 (knot_at served_env 100 2) open_gate plain_flow again ?s = Value (Inr (first, True), ?s)"
  proof (rule repeated_request_answers_first_run[where q = keyed_row and idem = "\<lparr> idem_key = ''order-7'', idem_ttl = Some (Fin 60) \<rparr>"])
    show "validate_parameters (to_json served_env) (\<lambda>_. []) (fl_parameter_schema plain_flow) (nr_parameters again) = None" by code_simp
    show "i64_sub 100 (secs_to_micros (case idem_ttl \<lparr> idem_key = ''order-7'', idem_ttl = Some (Fin 60) \<rparr> of Some t \<Rightarrow> t | None \<Rightarrow> Fin 86400))
        \<le> row_created_at keyed_row" by code_simp
  qed (use f in \<open>simp_all add: open_gate_def again_def api_with_def keyed_row_def api_row_def new_row_def app_rows_def plain_flow_def\<close>)
  ultimately show ?thesis by blast
qed


definition started_api :: ApiState where
  "started_api = (let s = api_with [(api_row 3 ''Running'' None)\<lparr> row_engine_pid := Some 7 \<rparr>]
     in s\<lparr> ai_app := on_sched (\<lambda>d. d\<lparr> sc_index := index_insert 40 (first_run served_env 3 s) (EngineKey_from_flow plain_flow) False (sc_index d) \<rparr>) (ai_app s) \<rparr>)"

theorem deleting_a_started_run_miscounts_witness:
  "\<exists>s'. delete_inner 100 (knot_at served_env 100 (Suc (Suc 0))) (first_run served_env 3 started_api) started_api = Value (Inr (), s')
     \<and> 3 \<notin> row_id ` set (app_rows (ai_app s')) \<and> \<not> counts_ok Map.empty (sc_index (ap_sched (ai_app s')))"
proof -
  let ?run = "first_run served_env 3 started_api"
  have "(case transition_step served_env 100 (knot_at served_env 100 1) 3 (State_new 100 Cancelling) (ai_app started_api) of
      Value (Accepted r, a) \<Rightarrow> ix_by_flow (sc_index (ap_sched a)) = [(1, [(Running, 0), (Cancelling, 1)])] | _ \<Rightarrow> False)" by code_simp
  then obtain r a where tr: "transition_step served_env 100 (knot_at served_env 100 1) 3 (State_new 100 Cancelling) (ai_app started_api) = Value (Accepted r, a)"
    and ix: "ix_by_flow (sc_index (ap_sched a)) = [(1, [(Running, 0), (Cancelling, 1)])]"
    by (auto split: outcome.splits prod.splits TransitionResult.splits)
  have e: "run_id ?run = 3" "run_flow_id ?run = 1" "st_type (run_state ?run) = Running" "\<not> queued 3 (ap_sup (ai_app started_api))" "has_engine 3 (ai_app started_api)"
    by code_simp+
  have "{i. i = 3 \<and> (1 :: int) = f \<and> Cancelling = t} = (if f = 1 \<and> t = Cancelling then {3 :: int} else {})" for f t by auto
  then have c: "counts_ok [3 \<mapsto> (1, Cancelling)] (sc_index (ap_sched a))" by (auto simp: counts_ok_def cnt_def ix)
  show ?thesis
    using deleting_a_started_run_miscounts[where run = ?run and s = started_api and k = "knot_at served_env 100 (Suc (Suc 0))" and now = 100 and run' = r
        and a = a and w = "[3 \<mapsto> (1, Cancelling)]"] tr e c
    by (simp add: One_nat_def)
qed

end
