(* ===== verification/Spec2Isabelle.thy ===== *)
theory Spec2Isabelle
  imports Unique Rule_Engine Timer Active_Index Pool_Sizing Scheduler_Facts Wait_Facts Http_Access Retention_Facts Group_Commit Run_Api_Facts
begin

text \<open>
  A verification development for cereyan, a workflow engine: a server process
  keeps flows, their runs and the runs' states in one SQLite database, decides
  when a run starts, hands runs to engine processes, follows what the engines
  report, and reacts to events through rules. The theories follow the crates
  under \<^verbatim>\<open>src/crates\<close>, in the order in which the code builds on itself.

  \<^bold>\<open>Parts and theories.\<close>

  \<^item> \<open>Prelude\<close>, \<open>F64\<close>, \<open>Json\<close>: what the components share: the fixed-width integer
    operations with their wrap-around, Rust's casts, string printing, panics as
    the \<open>outcome\<close> type, association lists; binary64 arithmetic with correct
    rounding; JSON values and insertion-ordered objects. \<open>F64\<close> proves that the
    rounding is the nearest value and ties go to even.
  \<^item> \<open>States\<close>, \<open>Transitions\<close> (\<^verbatim>\<open>core/src/state.rs\<close>, \<^verbatim>\<open>core/src/rules.rs\<close>): the states of a
    run, the texts they are stored as, and \<^verbatim>\<open>propose\<close>, which decides whether a state
    may follow another. Its answer table refines an abstract graph of state types.
  \<^item> \<open>Store_Runs\<close> (\<^verbatim>\<open>store/src/writer.rs\<close>, \<^verbatim>\<open>row.rs\<close>): the run table and the writer's commands
    \<^verbatim>\<open>create_run\<close> and \<^verbatim>\<open>transition\<close>, one at a time as the writer thread runs them. For every
    history of commands the columns of a row agree with its recorded states.
  \<^item> \<open>Events\<close> (\<^verbatim>\<open>core/src/events.rs\<close>): the catalogue of engine events and the check of event
    names, with the edit distance behind its suggestions.
  \<^item> \<open>Unique\<close> (\<^verbatim>\<open>core/src/unique.rs\<close>, part of \<^verbatim>\<open>core/src/model.rs\<close> and \<^verbatim>\<open>server/src/api/runs.rs\<close>): unique
    keys of runs and what the store's check under the writer guarantees.
  \<^item> \<open>Model\<close> (\<^verbatim>\<open>core/src/model.rs\<close>): flows, runs, events, rules as records.
  \<^item> \<open>Timer\<close> (\<^verbatim>\<open>server/src/timer.rs\<close>): the heap of timer events with its side indexes; it
    refines a bag of pending events, through the locale of timer queues.
  \<^item> \<open>Rule_Engine\<close> (\<^verbatim>\<open>rules/src/lib.rs\<close>, selection in \<^verbatim>\<open>server/src/rules.rs\<close>): matching, the guards of
    a rule, the index by prefix, validation.
  \<^item> \<open>Active_Index\<close> (\<^verbatim>\<open>server/src/index.rs\<close>, \<^verbatim>\<open>metrics.rs\<close>): the in-memory working set of runs and its
    counters, kept in step by \<^verbatim>\<open>AppState::transition_run\<close>.
  \<^item> \<open>Resources\<close>, \<open>Supervisor_State\<close>, \<open>Supervisor\<close>, \<open>Pool_Sizing\<close> (\<^verbatim>\<open>server/src/supervisor.rs\<close>): leases on
    named resources, engines and workers, the line of runs, hand-offs to engines, the
    size of the pool.
  \<^item> \<open>Schedules\<close> (\<^verbatim>\<open>core/src/schedule.rs\<close>): cron, interval, rrule and continuous schedules, the
    next fire and the walks over fires.
  \<^item> \<open>Schedule_Store\<close> (\<^verbatim>\<open>store/src/writer.rs\<close>, \<^verbatim>\<open>read.rs\<close>): the schedule and skip tables.
  \<^item> \<open>Scheduler\<close>, \<open>Scheduler_Facts\<close> (\<^verbatim>\<open>server/src/scheduler.rs\<close>): the look-ahead, catch-up,
    skips, pauses, the start of the server and the handler of every timer event, over the
    store, the index and the timer of the theories above; then what they guarantee.
  \<^item> \<open>Dep_Graph\<close> (\<^verbatim>\<open>server/src/state.rs\<close>): which flows run after which, and the cache of that graph as
    a step relation in which builds interleave with changes.
  \<^item> \<open>App_State\<close>, \<open>Dispatch\<close>, \<open>Waits\<close> (\<^verbatim>\<open>server/src/dispatch.rs\<close>, \<^verbatim>\<open>waits.rs\<close>, \<^verbatim>\<open>events.rs\<close>, \<^verbatim>\<open>transition_run\<close>
    and \<^verbatim>\<open>reconcile\<close> of \<^verbatim>\<open>state.rs\<close>): the server's state, admission with its overlap policies, what follows a
    transition, crash chains, timeouts, runs of dependent flows, durable waits and messages. The
    handlers call each other on one stack; \<open>knot_at\<close> ties them for a given depth, and what
    needs a deeper stack or waits for a lock it holds is \<open>Panic\<close>.
  \<^item> \<open>Handlers\<close>, \<open>Handler_Facts\<close>, \<open>Wait_Facts\<close>: the elementary effects of a handler, the locale that is
    the contract of what a handler calls back into, its instances for the knot of every depth, the invariants
    of every history of requests (\<open>serve\<close>), and what answers and messages guarantee.

  \<^bold>\<open>How code becomes definitions.\<close> A struct is a record, an enum a datatype, a
  method a function that takes the state and returns it changed. A lock makes an
  operation atomic, so an operation is one step and interleavings are sequences of
  operations. Errors are values of a sum type, a panic is the value \<open>Panic\<close>. A hash
  map whose order the code does not use is an association list. Integers wrap at
  their width where the code can overflow; times are mathematical integers of
  microseconds, whose range is far from the bounds of 64 bits, except in the jitter
  hash, which is computed on 64-bit words. The clock is an argument, read once
  per operation. What is outside the sources (\<^verbatim>\<open>croner\<close>, \<^verbatim>\<open>rrule\<close>, \<^verbatim>\<open>chrono-tz\<close>, \<^verbatim>\<open>serde_json\<close>'s
  text, process control, random identifiers) is an argument; what a theorem needs
  of it is a hypothesis that its witness discharges on a concrete instance.

  \<^bold>\<open>Bounds.\<close> Loops of the code are structural recursions over the list they walk, or
  over the cap the code itself gives them (a hundred runs of look-ahead, the maximum
  of a walk, the four candidates of a wall-clock interval). The one loop without a
  cap, the rejection sampling of the jitter, is a partial function whose
  missing result is \<open>None\<close>.

  \<^bold>\<open>Not modelled.\<close> HTTP handlers, the MCP server and the web pages translate requests into
  the operations above and render their results; SQL migrations, opening and
  backing up the database, process start-up, signals, the Python bindings and the
  command line are input and output. The actions of rules (\<^verbatim>\<open>server/src/rules.rs\<close>) and the memory
  guard are not modelled. An operation of the scheduler that dispatch calls (pausing
  a schedule, the next run of a continuous one) keeps the events it records in the
  scheduler's list of calls; they are not handed on to waiting runs.
\<close>

end
